(* ===== verification/Cmx_Prelude.thy ===== *)
theory Cmx_Prelude
  imports Main "HOL-Library.Word" "HOL-Library.Monad_Syntax"
begin

section \<open>Prelude: bytes, C integers, memory reads\<close>

text \<open>
  Shared by every component of the development.
  \<^item> Memory is a list of bytes. A pointer into it is the suffix of the memory that starts there
    (or an offset), so pointer arithmetic is \<^term>\<open>drop\<close>.
  \<^item> A result of type \<^typ>\<open>'a option\<close> is \<^const>\<open>None\<close> exactly when the C code has undefined
    behaviour: it reads or writes outside the memory it was given, or follows a null pointer.
    C's own error returns (\<open>-1\<close>, \<open>false\<close>, \<open>NULL\<close>) are ordinary values.
  \<^item> \<open>size_t\<close> values are natural numbers with the wrap-around at $2^{64}$ written out
    (\<open>size_add\<close>, \<open>size_sub\<close>) wherever the code's arithmetic can reach it; values that
    live in fixed-width fields are words.
\<close>

unbundle bit_operations_syntax

type_synonym byte = "8 word"
type_synonym bytes = "byte list"
type_synonym u16 = "16 word"

named_theorems wire_simps \<open>sizes and shapes of encoded data\<close>

subsection \<open>size_t and int\<close>

definition size_bound :: nat where
  "size_bound = 2 ^ 64"

definition size_add :: "nat \<Rightarrow> nat \<Rightarrow> nat" where
  "size_add a b = (a + b) mod size_bound"

definition size_sub :: "nat \<Rightarrow> nat \<Rightarrow> nat" where
  "size_sub a b = (a + size_bound - b) mod size_bound"

text \<open>Conversion of a wider signed value to a 32-bit \<open>int\<close> (two's complement truncation).\<close>

definition c_int :: "int \<Rightarrow> int" where
  "c_int x = (x + 2 ^ 31) mod 2 ^ 32 - 2 ^ 31"

lemma size_add_small [simp]: "a + b < size_bound \<Longrightarrow> size_add a b = a + b"
  by (simp add: size_add_def)

lemma size_sub_le [simp]: "b \<le> a \<Longrightarrow> a < size_bound \<Longrightarrow> size_sub a b = a - b"
proof -
  assume "b \<le> a" "a < size_bound"
  then have "a + size_bound - b = (a - b) + size_bound" and "a - b < size_bound"
    by linarith+
  then show ?thesis
    unfolding size_sub_def by (metis mod_add_self2 mod_less)
qed

lemma size_add_less [simp]: "size_add a b < size_bound"
  by (simp add: size_add_def size_bound_def)

lemma size_sub_less [simp]: "size_sub a b < size_bound"
  by (simp add: size_sub_def size_bound_def)

lemma c_int_small [simp]: "- (2 ^ 31) \<le> x \<Longrightarrow> x < 2 ^ 31 \<Longrightarrow> c_int x = x"
  by (simp add: c_int_def)

lemma c_int_range: "- (2 ^ 31) \<le> c_int x \<and> c_int x < 2 ^ 31"
proof -
  have "0 \<le> (x + 2 ^ 31) mod 2 ^ 32" and "(x + 2 ^ 31) mod 2 ^ 32 < 2 ^ 32"
    by simp_all
  then show ?thesis
    unfolding c_int_def by auto
qed

subsection \<open>Reading memory\<close>

definition rd :: "bytes \<Rightarrow> nat \<Rightarrow> byte option" where
  "rd m i = (if i < length m then Some (m ! i) else None)"

text \<open>A \<open>memcpy\<close> source: \<open>n\<close> bytes from the start of \<open>m\<close>.\<close>

definition rd_bytes :: "bytes \<Rightarrow> nat \<Rightarrow> bytes option" where
  "rd_bytes m n = (if n \<le> length m then Some (take n m) else None)"

text \<open>Pointer advance: the memory that is left after \<open>n\<close> bytes; one past the end is legal.\<close>

definition adv :: "bytes \<Rightarrow> nat \<Rightarrow> bytes option" where
  "adv m n = (if n \<le> length m then Some (drop n m) else None)"

lemma rd_Cons_0 [simp]: "rd (x # m) 0 = Some x"
  by (simp add: rd_def)

lemma rd_Cons_Suc [simp]: "rd (x # m) (Suc i) = rd m i"
  by (simp add: rd_def)

lemma rd_Cons_numeral [simp]: "rd (x # m) (numeral k) = rd m (pred_numeral k)"
  by (simp add: rd_def numeral_eq_Suc)

lemma rd_Nil [simp]: "rd [] i = None"
  by (simp add: rd_def)

lemma rd_Some [simp]: "i < length m \<Longrightarrow> rd m i = Some (m ! i)"
  by (simp add: rd_def)

lemma rd_None_iff: "rd m i = None \<longleftrightarrow> length m \<le> i"
  by (simp add: rd_def)

lemma rd_SomeD: "rd m i = Some x \<Longrightarrow> i < length m \<and> x = m ! i"
  by (auto simp: rd_def split: if_splits)

lemma rd_bytes_append [simp]: "rd_bytes (xs @ ys) (length xs) = Some xs"
  by (simp add: rd_bytes_def)

lemma rd_bytes_all [simp]: "rd_bytes xs (length xs) = Some xs"
  by (simp add: rd_bytes_def)

lemma rd_bytes_0 [simp]: "rd_bytes xs 0 = Some []"
  by (simp add: rd_bytes_def)

lemma rd_bytes_length: "rd_bytes m n = Some xs \<Longrightarrow> length xs = n"
  by (auto simp: rd_bytes_def split: if_splits)

lemma adv_append [simp]: "adv (xs @ ys) (length xs) = Some ys"
  by (simp add: adv_def)

lemma adv_0 [simp]: "adv m 0 = Some m"
  by (simp add: adv_def)

subsection \<open>Big-endian shorts\<close>

definition be16_hi :: "u16 \<Rightarrow> byte" where
  "be16_hi v = ucast (drop_bit 8 v AND 0xFF)"

definition be16_lo :: "u16 \<Rightarrow> byte" where
  "be16_lo v = ucast (v AND 0xFF)"

definition be16 :: "byte \<Rightarrow> byte \<Rightarrow> u16" where
  "be16 hi lo = push_bit 8 (ucast hi) OR ucast lo"

lemma be16_split [simp]: "be16 (be16_hi v) (be16_lo v) = v"
proof (rule bit_word_eqI)
  fix n assume n: "n < LENGTH(16)"
  have "(0xFF :: u16) = mask 8"
    by (simp add: mask_eq_exp_minus_1)
  then show "bit (be16 (be16_hi v) (be16_lo v)) n = bit v n"
    using n unfolding be16_def be16_hi_def be16_lo_def
    by (auto simp only: bit_simps) auto
qed

subsection \<open>Seven-bit digits\<close>

lemma low7_digit:
  fixes x :: byte
  assumes x: "take_bit 7 x = x"
  shows "x AND 127 = x" and "x AND 128 = 0" and "(x OR 128) AND 127 = x" and "(x OR 128) AND 128 \<noteq> 0"
proof -
  have m: "(127 :: byte) = mask 7" by (simp add: mask_eq_exp_minus_1)
  have b128: "bit (128 :: byte) n \<longleftrightarrow> n = 7" for n
    using bit_exp_iff [where 'a = "8 word", of 7 n] by auto
  have b127: "bit (127 :: byte) n \<longleftrightarrow> n < 7" for n
    unfolding m by (auto simp: bit_simps)
  have nb: "bit x n \<Longrightarrow> n < 7" for n
    using x by (metis bit_take_bit_iff)
  show "x AND 127 = x"
    using x by (simp add: m take_bit_eq_mask)
  show "x AND 128 = 0"
    by (rule bit_word_eqI) (metis b128 bit_and_iff bit_0_eq bot_apply bot_bool_def less_irrefl nb)
  show "(x OR 128) AND 127 = x"
    by (rule bit_word_eqI) (metis b127 b128 bit_and_iff bit_or_iff less_irrefl nb)
  have "bit ((x OR 128) AND 128) 7"
    by (simp add: bit_and_iff bit_or_iff b128)
  then show "(x OR 128) AND 128 \<noteq> 0"
    by force
qed

subsection \<open>Lists\<close>

lemma take_drop_split: "n \<le> length xs \<Longrightarrow> \<exists>ys zs. xs = ys @ zs \<and> length ys = n"
  by (rule exI [of _ "take n xs"], rule exI [of _ "drop n xs"]) simp

end
