(* ===== verification/Framing.thy ===== *)
theory Framing
  imports Cmx_Prelude
begin

section \<open>Framing: reassembling frames from a byte stream\<close>

text \<open>
  Both frame protocols of the library read a byte stream in chunks of arbitrary size, append
  each chunk to a buffer and cut complete frames off its front (\<open>stream_ws_peek_frame\<close>,
  \<open>stream_mqtt_peek_frame\<close>). What they need of a frame recogniser is stated here once:
  locale \<open>framing\<close> for the recogniser, \<open>framing_codec\<close> for a recogniser with its encoder.
  The two recognisers of the code are interpreted in the theories that model them.
  The lemmas show that the frames found do not depend on how the stream was cut into chunks.
\<close>

datatype 'f scan = Need_more | Bad | Frame 'f nat

function drain :: "(bytes \<Rightarrow> 'f scan) \<Rightarrow> bytes \<Rightarrow> 'f list \<times> bytes" where
  "drain scan b =
     (if b = [] then ([], [])
      else case scan b of
             Frame f n \<Rightarrow>
               if n = 0 then ([], b)
               else let (fs, r) = drain scan (drop n b) in (f # fs, r)
           | _ \<Rightarrow> ([], b))"
  by pat_completeness auto
termination
  by (relation "measure (\<lambda>(_, b). length b)") auto

declare drain.simps [simp del]

text \<open>One chunk arrives: it is appended to what was left over, and complete frames are cut off.\<close>

definition feed :: "(bytes \<Rightarrow> 'f scan) \<Rightarrow> 'f list \<times> bytes \<Rightarrow> bytes \<Rightarrow> 'f list \<times> bytes" where
  "feed scan s c = (let (fs, r) = drain scan (snd s @ c) in (fst s @ fs, r))"

lemma drain_Nil [simp]: "drain scan [] = ([], [])"
  by (simp add: drain.simps)

lemma drain_stop: "scan b = Need_more \<or> scan b = Bad \<Longrightarrow> drain scan b = ([], b)"
  by (auto simp: drain.simps)

lemma drain_Frame:
  "scan b = Frame f n \<Longrightarrow> 0 < n \<Longrightarrow> n \<le> length b \<Longrightarrow>
   drain scan b = (f # fst (drain scan (drop n b)), snd (drain scan (drop n b)))"
  by (subst drain.simps) (auto simp: case_prod_beta Let_def)

locale framing =
  fixes scan :: "bytes \<Rightarrow> 'f scan"
  assumes frame_bounds: "scan b = Frame f n \<Longrightarrow> 0 < n \<and> n \<le> length b"
    and frame_stable: "scan b = Frame f n \<Longrightarrow> scan (b @ c) = Frame f n"
    and bad_stable: "scan b = Bad \<Longrightarrow> scan (b @ c) = Bad"
begin

lemma drain_append:
  assumes "drain scan b = (fs, r)"
  shows "drain scan (b @ c) = (fs @ fst (drain scan (r @ c)), snd (drain scan (r @ c)))"
  using assms
proof (induction b arbitrary: fs r rule: measure_induct_rule [of length])
  case (less b)
  show ?case
  proof (cases "scan b")
    case (Frame f n)
    then have n: "0 < n" "n \<le> length b"
      using frame_bounds by auto
    obtain fs' r' where d: "drain scan (drop n b) = (fs', r')"
      by fastforce
    have "fs = f # fs'" "r = r'"
      using less.prems drain_Frame [of scan b f n] Frame n d by simp_all
    moreover have "drain scan (drop n b @ c) = (fs' @ fst (drain scan (r' @ c)), snd (drain scan (r' @ c)))"
      using less.IH [OF _ d] n by simp
    moreover have "drain scan (b @ c) =
        (f # fst (drain scan (drop n (b @ c))), snd (drain scan (drop n (b @ c))))"
      using frame_stable [OF Frame] n by (intro drain_Frame) simp_all
    ultimately show ?thesis
      using n by simp
  qed (use less.prems drain_stop [of scan b] in simp_all)
qed

lemma feed_drain: "feed scan (drain scan b) c = drain scan (b @ c)"
  using drain_append [of b "fst (drain scan b)" "snd (drain scan b)" c]
  by (simp add: feed_def case_prod_beta)

text \<open>The frames do not depend on the chunk boundaries.\<close>

lemma chunks_irrelevant: "foldl (feed scan) (drain scan b) cs = drain scan (b @ concat cs)"
  by (induction cs arbitrary: b) (simp_all add: feed_drain)

end

locale framing_codec = framing scan
  for scan :: "bytes \<Rightarrow> 'f scan" +
  fixes enc :: "'f \<Rightarrow> bytes" and valid :: "'f \<Rightarrow> bool"
  assumes scan_enc: "valid f \<Longrightarrow> scan (enc f) = Frame f (length (enc f))"
begin

lemma enc_nonempty: "valid f \<Longrightarrow> 0 < length (enc f)"
  using frame_bounds scan_enc by blast

text \<open>No proper prefix of an encoded frame is taken for a frame or for an error.\<close>

lemma proper_prefix_waits:
  assumes "valid f" and "enc f = p @ q" and "q \<noteq> []"
  shows "scan p = Need_more"
proof (cases "scan p")
  case (Frame g n)
  then have "scan (enc f) = Frame g n" and "n \<le> length p"
    using frame_stable frame_bounds assms(2) by auto
  moreover have "length p < length (enc f)"
    using assms(2,3) by simp
  ultimately show ?thesis
    using scan_enc [OF assms(1)] by simp
next
  case Bad
  then show ?thesis
    using bad_stable [of p q] scan_enc [OF assms(1)] assms(2) by simp
qed simp

lemma drain_encoded:
  "(\<And>f. f \<in> set fs \<Longrightarrow> valid f) \<Longrightarrow>
   drain scan (concat (map enc fs) @ t) = (fs @ fst (drain scan t), snd (drain scan t))"
proof (induction fs)
  case (Cons f fs)
  then have v: "valid f" by simp
  have "scan (enc f @ concat (map enc fs) @ t) = Frame f (length (enc f))"
    using frame_stable [OF scan_enc [OF v]] .
  then have "drain scan (enc f @ concat (map enc fs) @ t) =
      (f # fst (drain scan (concat (map enc fs) @ t)), snd (drain scan (concat (map enc fs) @ t)))"
    using drain_Frame [of scan "enc f @ concat (map enc fs) @ t" f "length (enc f)"] enc_nonempty [OF v]
    by simp
  with Cons show ?case by simp
qed simp

text \<open>
  A sequence of encoded frames, followed by the beginning of another one, cut into chunks in
  any way: exactly those frames come out, in order, and the beginning stays in the buffer.
\<close>

lemma reassembly:
  assumes "\<And>f. f \<in> set fs \<Longrightarrow> valid f"
    and "concat cs = concat (map enc fs) @ p"
    and "p = [] \<or> (\<exists>f q. valid f \<and> enc f = p @ q \<and> q \<noteq> [])"
  shows "foldl (feed scan) ([], []) cs = (fs, p)"
proof -
  have "drain scan p = ([], p)"
    using assms(3) proper_prefix_waits drain_stop by (metis drain_Nil)
  moreover have "foldl (feed scan) ([], []) cs = drain scan (concat cs)"
    using chunks_irrelevant [of "[]" cs] by simp
  ultimately show ?thesis
    using drain_encoded [of fs p] assms(1,2) by simp
qed

end

end
