(* ===== verification/Mqtt_Frame.thy ===== *)
theory Mqtt_Frame
  imports Framing
begin

section \<open>MQTT fixed header and frames (source/mqtt.c, include/mx/mqtt.h)\<close>

text \<open>
  The remaining-length codec (\<open>mqtt_decode_length\<close>, \<open>mqtt_encode_length\<close>), frame recognition
  (\<open>mqtt_parse_frame\<close>) and frame formatting (\<open>mqtt_format_frame\<close>,
  \<open>mqtt_format_fixed_header\<close>), with the packet type and QoS constants. An output buffer is
  the list of bytes the code writes from its start, so an offset the code returns is the
  length of that list. The decoder's \<open>int multiplier\<close> and \<open>size_t val\<close> stay below
  $2^{28}$ (lemma \<open>mqtt_decode_length_bound\<close>), so natural numbers hold them exactly.
\<close>

abbreviation (input) MQTT_FORBIDDEN :: byte where "MQTT_FORBIDDEN \<equiv> 0"
abbreviation (input) MQTT_CONNECT :: byte where "MQTT_CONNECT \<equiv> 1"
abbreviation (input) MQTT_CONNACK :: byte where "MQTT_CONNACK \<equiv> 2"
abbreviation (input) MQTT_PUBLISH :: byte where "MQTT_PUBLISH \<equiv> 3"
abbreviation (input) MQTT_PUBACK :: byte where "MQTT_PUBACK \<equiv> 4"
abbreviation (input) MQTT_PUBREC :: byte where "MQTT_PUBREC \<equiv> 5"
abbreviation (input) MQTT_PUBREL :: byte where "MQTT_PUBREL \<equiv> 6"
abbreviation (input) MQTT_PUBCOMP :: byte where "MQTT_PUBCOMP \<equiv> 7"
abbreviation (input) MQTT_SUBSCRIBE :: byte where "MQTT_SUBSCRIBE \<equiv> 8"
abbreviation (input) MQTT_SUBACK :: byte where "MQTT_SUBACK \<equiv> 9"
abbreviation (input) MQTT_UNSUBSCRIBE :: byte where "MQTT_UNSUBSCRIBE \<equiv> 10"
abbreviation (input) MQTT_UNSUBACK :: byte where "MQTT_UNSUBACK \<equiv> 11"
abbreviation (input) MQTT_PINGREQ :: byte where "MQTT_PINGREQ \<equiv> 12"
abbreviation (input) MQTT_PINGRESP :: byte where "MQTT_PINGRESP \<equiv> 13"
abbreviation (input) MQTT_DISCONNECT :: byte where "MQTT_DISCONNECT \<equiv> 14"

definition MQTT_MAX_LENGTH_SIZE :: nat where
  "MQTT_MAX_LENGTH_SIZE = 4"

definition MQTT_MIN_FIXED_HEADER_SIZE :: nat where
  "MQTT_MIN_FIXED_HEADER_SIZE = 2"

definition MQTT_MAX_FIXED_HEADER_SIZE :: nat where
  "MQTT_MAX_FIXED_HEADER_SIZE = 5"

definition MQTT_QOS_TO_FLAGS :: "byte \<Rightarrow> byte" where
  "MQTT_QOS_TO_FLAGS qos = push_bit 1 (qos AND 3)"

definition MQTT_QOS_FROM_FLAGS :: "byte \<Rightarrow> byte" where
  "MQTT_QOS_FROM_FLAGS flags = drop_bit 1 flags AND 3"

record mqtt_fixed_header =
  fh_type :: byte
  fh_flags :: byte
  fh_body_length :: nat

subsection \<open>Remaining length\<close>

function mqtt_decode_length_loop ::
    "bytes \<Rightarrow> nat \<Rightarrow> nat \<Rightarrow> nat \<Rightarrow> nat \<Rightarrow> (int \<times> nat) option" where
  "mqtt_decode_length_loop buffer len idx multiplier val =
     (if len \<le> idx then Some (0, val)
      else if idx \<ge> MQTT_MAX_LENGTH_SIZE then Some (-1, val)
      else case rd buffer idx of
             None \<Rightarrow> None
           | Some c \<Rightarrow>
               let val' = val + unat (c AND 127) * multiplier in
               if c AND 128 \<noteq> 0
               then mqtt_decode_length_loop buffer len (Suc idx) (multiplier * 128) val'
               else Some (int (Suc idx), val'))"
  by pat_completeness auto
termination
  by (relation "measure (\<lambda>(_, _, idx, _, _). Suc MQTT_MAX_LENGTH_SIZE - idx)") auto

declare mqtt_decode_length_loop.simps [simp del]

text \<open>The value is stored only on success; the result is the number of bytes read, 0 or -1.\<close>

definition mqtt_decode_length :: "bytes \<Rightarrow> nat \<Rightarrow> (int \<times> nat option) option" where
  "mqtt_decode_length buffer len =
     map_option (\<lambda>(r, v). (r, if r > 0 then Some v else None))
       (mqtt_decode_length_loop buffer len 0 1 0)"

fun mqtt_encode_length :: "nat \<Rightarrow> bytes" where
  "mqtt_encode_length v =
     (let d = word_of_nat (v mod 128); v' = v div 128
      in if v' > 0 then (d OR 0x80) # mqtt_encode_length v' else [d])"

declare mqtt_encode_length.simps [simp del]

subsection \<open>Frames\<close>

text \<open>
  \<open>mqtt_parse_frame\<close> returns the body offset (0: more data is needed, -1: error), the
  frame record and \<open>*frame_length\<close>, which keeps its old value on error.
\<close>

definition mqtt_parse_frame ::
    "mqtt_fixed_header \<Rightarrow> bytes \<Rightarrow> nat \<Rightarrow> nat \<Rightarrow> (int \<times> mqtt_fixed_header \<times> nat) option" where
  "mqtt_parse_frame frame data len frame_length =
     (if len < MQTT_MIN_FIXED_HEADER_SIZE then Some (0, frame, MQTT_MIN_FIXED_HEADER_SIZE)
      else do {
        c \<leftarrow> rd data 0;
        let frame = frame\<lparr>fh_type := drop_bit 4 c AND 0xF, fh_flags := c AND 0xF\<rparr>;
        (length_bytes, v) \<leftarrow> mqtt_decode_length (drop 1 data) (len - 1);
        let frame = (case v of Some x \<Rightarrow> frame\<lparr>fh_body_length := x\<rparr> | None \<Rightarrow> frame);
        if length_bytes < 0 then Some (length_bytes, frame, frame_length)
        else if length_bytes = 0 then Some (0, frame, len + 1)
        else
          let body_offset = 1 + length_bytes;
              expected = nat body_offset + fh_body_length frame
          in if len < expected then Some (0, frame, expected)
             else Some (body_offset, frame, expected)
      })"

definition mqtt_format_fixed_header :: "byte \<Rightarrow> byte \<Rightarrow> nat \<Rightarrow> bytes" where
  "mqtt_format_fixed_header type flags body_length =
     (push_bit 4 type OR flags) # mqtt_encode_length body_length"

definition mqtt_format_frame :: "byte \<Rightarrow> byte \<Rightarrow> bytes \<Rightarrow> nat \<Rightarrow> bytes option" where
  "mqtt_format_frame type flags body_data body_length = do {
     body \<leftarrow> (if body_length > 0 then rd_bytes body_data body_length else Some []);
     Some (mqtt_format_fixed_header type flags body_length @ body)
   }"

subsection \<open>The length encoding\<close>

lemma encode_digit:
  fixes v :: nat
  shows "unat ((word_of_nat (v mod 128) :: byte) AND 127) = v mod 128"
    and "(word_of_nat (v mod 128) :: byte) AND 128 = 0"
    and "unat (((word_of_nat (v mod 128) :: byte) OR 128) AND 127) = v mod 128"
    and "((word_of_nat (v mod 128) :: byte) OR 128) AND 128 \<noteq> 0"
proof -
  have lt: "v mod 128 < 128" by simp
  have u: "unat (word_of_nat (v mod 128) :: byte) = v mod 128"
    using lt by (simp add: unat_of_nat)
  then have "uint (word_of_nat (v mod 128) :: byte) < 2 ^ 7"
    using lt by (simp add: uint_nat)
  then have "take_bit 7 (word_of_nat (v mod 128) :: byte) = word_of_nat (v mod 128)"
    by (simp only: take_bit_eq_mask mask_eq_iff)
  from low7_digit [OF this] u
  show "unat ((word_of_nat (v mod 128) :: byte) AND 127) = v mod 128"
    and "(word_of_nat (v mod 128) :: byte) AND 128 = 0"
    and "unat (((word_of_nat (v mod 128) :: byte) OR 128) AND 127) = v mod 128"
    and "((word_of_nat (v mod 128) :: byte) OR 128) AND 128 \<noteq> 0"
    by metis+
qed

lemma mqtt_encode_length_nonempty [simp]: "mqtt_encode_length v \<noteq> []"
  by (subst mqtt_encode_length.simps) (simp add: Let_def)

text \<open>
  The decoder inverts the encoder from any position \<open>idx\<close>, as long as the digits that are
  left fit below the limit of four.
\<close>

lemma decode_encode_loop:
  assumes "length (mqtt_encode_length v) + length pre \<le> MQTT_MAX_LENGTH_SIZE"
    and "length pre + length (mqtt_encode_length v) \<le> len"
  shows "mqtt_decode_length_loop (pre @ mqtt_encode_length v @ rest) len (length pre) m acc =
         Some (int (length pre + length (mqtt_encode_length v)), acc + v * m)"
  using assms
proof (induction v arbitrary: pre m acc rule: mqtt_encode_length.induct)
  case (1 v)
  let ?d = "word_of_nat (v mod 128) :: byte" and ?q = "v div 128"
  show ?case
  proof (cases "?q > 0")
    case True
    then have enc: "mqtt_encode_length v = (?d OR 128) # mqtt_encode_length ?q"
      by (subst mqtt_encode_length.simps) (simp add: Let_def)
    have step: "mqtt_decode_length_loop (pre @ mqtt_encode_length v @ rest) len (length pre) m acc =
      mqtt_decode_length_loop ((pre @ [?d OR 128]) @ mqtt_encode_length ?q @ rest) len
        (length (pre @ [?d OR 128])) (m * 128) (acc + v mod 128 * m)"
      using "1.prems" by (subst mqtt_decode_length_loop.simps) (simp add: enc encode_digit Let_def)
    have "acc + v mod 128 * m + ?q * (m * 128) = acc + (v mod 128 + 128 * ?q) * m"
      unfolding distrib_right by (simp only: ac_simps)
    then have total: "acc + v mod 128 * m + ?q * (m * 128) = acc + v * m"
      by (simp only: mod_mult_div_eq)
    then show ?thesis
      unfolding step using "1.prems" True
      by (subst "1.IH" [of ?d ?q "pre @ [?d OR 128]"]) (simp_all add: enc total)
  next
    case False
    then have enc: "mqtt_encode_length v = [?d]" and "v mod 128 = v"
      by (subst mqtt_encode_length.simps, simp_all add: Let_def)
    then show ?thesis
      using "1.prems" encode_digit [of v]
      by (subst mqtt_decode_length_loop.simps) (simp add: Let_def)
  qed
qed

lemma length_encode_le_iff: "length (mqtt_encode_length v) \<le> Suc n \<longleftrightarrow> v < 128 ^ Suc n"
proof (induction n arbitrary: v)
  case 0
  show ?case
    by (subst mqtt_encode_length.simps) (auto simp: Let_def div_eq_0_iff)
next
  case (Suc n)
  have "v < 128 ^ Suc (Suc n) \<longleftrightarrow> v div 128 < 128 ^ Suc n"
    by (simp add: div_less_iff_less_mult algebra_simps)
  then show ?case
    using Suc.IH [of "v div 128"] by (subst mqtt_encode_length.simps) (auto simp: Let_def)
qed

lemma decode_encode_length:
  assumes "v < 128 ^ 4" and "length (mqtt_encode_length v) \<le> len"
  shows "mqtt_decode_length (mqtt_encode_length v @ rest) len =
         Some (int (length (mqtt_encode_length v)), Some v)"
proof -
  have "length (mqtt_encode_length v) \<le> MQTT_MAX_LENGTH_SIZE"
    using assms(1) length_encode_le_iff [of v 3] by (simp add: MQTT_MAX_LENGTH_SIZE_def)
  then show ?thesis
    using decode_encode_loop [of v "[]" len rest 1 0] assms(2)
    by (simp add: mqtt_decode_length_def)
qed


subsection \<open>Safety and bounds of the decoder\<close>

lemma decode_loop_total:
  "len \<le> length buffer \<Longrightarrow> \<exists>r v. mqtt_decode_length_loop buffer len idx m acc = Some (r, v)"
proof (induction buffer len idx m acc rule: mqtt_decode_length_loop.induct)
  case (1 buffer len idx m acc)
  show ?case
  proof (cases "len \<le> idx \<or> MQTT_MAX_LENGTH_SIZE \<le> idx")
    case True
    then show ?thesis
      by (subst mqtt_decode_length_loop.simps) auto
  next
    case False
    then have "rd buffer idx = Some (buffer ! idx)"
      using "1.prems" by (simp add: rd_def)
    with False "1.IH" "1.prems" show ?thesis
      by (subst mqtt_decode_length_loop.simps) (auto simp: Let_def)
  qed
qed

lemma decode_loop_bounds:
  assumes "mqtt_decode_length_loop buffer len idx (128 ^ idx) acc = Some (r, v)"
    and "acc < 128 ^ idx" and "idx \<le> MQTT_MAX_LENGTH_SIZE"
  shows "v < 128 ^ 4 \<and> (r > 0 \<longrightarrow> int idx < r \<and> r \<le> 4 \<and> r \<le> int len) \<and> -1 \<le> r"
  using assms
proof (induction buffer len idx "128 ^ idx :: nat" acc rule: mqtt_decode_length_loop.induct)
  case (1 buffer len idx acc)
  have le: "(128::nat) ^ idx \<le> 128 ^ 4"
    using "1.prems"(3) unfolding MQTT_MAX_LENGTH_SIZE_def by (intro power_increasing) simp_all
  show ?case
  proof (cases "len \<le> idx \<or> MQTT_MAX_LENGTH_SIZE \<le> idx")
    case True
    then show ?thesis
      using "1.prems" le by (subst (asm) mqtt_decode_length_loop.simps) (auto split: if_splits)
  next
    case False
    then obtain c where c: "rd buffer idx = Some c"
      using "1.prems"(1) by (subst (asm) mqtt_decode_length_loop.simps) (auto split: option.splits)
    let ?acc = "acc + unat (c AND 127) * 128 ^ idx"
    have "c AND 127 \<le> 127"
      by (rule word_and_le1)
    then have "unat (c AND 127) \<le> 127"
      by (simp add: word_le_nat_alt)
    then have "unat (c AND 127) * 128 ^ idx \<le> 127 * 128 ^ idx"
      by (rule mult_le_mono1)
    then have acc: "?acc < 128 ^ Suc idx"
      using "1.prems"(2) unfolding power_Suc by linarith
    show ?thesis
    proof (cases "c AND 128 \<noteq> 0")
      case True
      then have "mqtt_decode_length_loop buffer len (Suc idx) (128 ^ Suc idx) ?acc = Some (r, v)"
        using "1.prems"(1) False c by (subst (asm) mqtt_decode_length_loop.simps) (simp add: Let_def mult.commute)
      then show ?thesis
        using "1.hyps" [OF _ _ c refl True _ _ acc] False by (auto simp: mult.commute)
    next
      case nocont: False
      then have "r = int (Suc idx)" and "v = ?acc"
        using "1.prems"(1) False c by (subst (asm) mqtt_decode_length_loop.simps, simp add: Let_def)+
      moreover have "(128::nat) ^ Suc idx \<le> 128 ^ 4"
        using False unfolding MQTT_MAX_LENGTH_SIZE_def by (intro power_increasing) simp_all
      ultimately show ?thesis
        using acc False unfolding MQTT_MAX_LENGTH_SIZE_def by linarith
    qed
  qed
qed

lemma mqtt_decode_length_total:
  "len \<le> length buffer \<Longrightarrow> \<exists>r v. mqtt_decode_length buffer len = Some (r, v)"
  using decode_loop_total [of len buffer 0 1 0] by (auto simp: mqtt_decode_length_def)

lemma mqtt_decode_length_bound:
  assumes "mqtt_decode_length buffer len = Some (r, v)"
  shows "-1 \<le> r \<and> r \<le> 4 \<and> r \<le> int len \<and> (v = None \<longleftrightarrow> r \<le> 0) \<and> (\<forall>x. v = Some x \<longrightarrow> x < 128 ^ 4)"
proof -
  obtain x where x: "mqtt_decode_length_loop buffer len 0 (128 ^ 0) 0 = Some (r, x)"
    and v: "v = (if r > 0 then Some x else None)"
    using assms by (auto simp: mqtt_decode_length_def)
  show ?thesis
    using decode_loop_bounds [OF x] v by auto
qed


subsection \<open>Frame recognition as a scanner\<close>

text \<open>
  What \<open>stream_mqtt_peek_frame\<close> makes of \<open>mqtt_parse_frame\<close>: a frame is its header and body.
\<close>

definition mqtt_scan :: "bytes \<Rightarrow> (mqtt_fixed_header \<times> bytes) scan" where
  "mqtt_scan b =
     (case mqtt_parse_frame \<lparr>fh_type = 0, fh_flags = 0, fh_body_length = 0\<rparr> b (length b) 0 of
        None \<Rightarrow> Bad
      | Some (ret, h, n) \<Rightarrow>
          if ret = 0 then Need_more
          else if ret < 0 then Bad
          else Frame (h, take (fh_body_length h) (drop (nat ret) b)) n)"

definition mqtt_enc :: "mqtt_fixed_header \<times> bytes \<Rightarrow> bytes" where
  "mqtt_enc f = mqtt_format_fixed_header (fh_type (fst f)) (fh_flags (fst f)) (length (snd f)) @ snd f"

definition mqtt_valid :: "mqtt_fixed_header \<times> bytes \<Rightarrow> bool" where
  "mqtt_valid f \<longleftrightarrow> fh_type (fst f) < 16 \<and> fh_flags (fst f) < 16 \<and>
     fh_body_length (fst f) = length (snd f) \<and> length (snd f) < 128 ^ 4"

lemma nibbles:
  fixes t f :: byte
  assumes "t < 16" "f < 16"
  shows "drop_bit 4 (push_bit 4 t OR f) AND 0xF = t" and "(push_bit 4 t OR f) AND 0xF = f"
proof -
  have m: "(15 :: byte) = mask 4" by (simp add: mask_eq_exp_minus_1)
  have b15: "bit (15 :: byte) n \<longleftrightarrow> n < 4" for n
    unfolding m by (auto simp: bit_simps)
  have "x AND mask 4 = x" if "x < 16" for x :: byte
    using that by (simp add: mask_eq_iff word_less_def)
  then have lo: "take_bit 4 t = t" "take_bit 4 f = f"
    using assms by (simp_all add: take_bit_eq_mask)
  then have bt: "bit t n \<Longrightarrow> n < 4" and bf: "bit f n \<Longrightarrow> n < 4" for n
    by (metis bit_take_bit_iff)+
  show "drop_bit 4 (push_bit 4 t OR f) AND 0xF = t"
  proof (rule bit_word_eqI)
    fix n assume "n < LENGTH(8)"
    then show "bit (drop_bit 4 (push_bit 4 t OR f) AND 0xF) n = bit t n"
      using bt [of n] bf [of "4 + n"] b15 [of n] by (auto simp: bit_simps)
  qed
  show "(push_bit 4 t OR f) AND 0xF = f"
  proof (rule bit_word_eqI)
    fix n assume "n < LENGTH(8)"
    then show "bit ((push_bit 4 t OR f) AND 0xF) n = bit f n"
      using bf [of n] b15 [of n] by (auto simp: bit_simps)
  qed
qed

lemma decode_loop_extend:
  assumes "mqtt_decode_length_loop buffer len idx m acc = Some (r, v)" "r \<noteq> 0" "len \<le> length buffer"
  shows "mqtt_decode_length_loop (buffer @ c) (len + k) idx m acc = Some (r, v)"
  using assms
proof (induction buffer len idx m acc rule: mqtt_decode_length_loop.induct)
  case (1 buffer len idx m acc)
  show ?case
  proof (cases "len \<le> idx \<or> MQTT_MAX_LENGTH_SIZE \<le> idx")
    case True
    then show ?thesis
      using "1.prems" by (subst mqtt_decode_length_loop.simps, subst (asm) mqtt_decode_length_loop.simps)
        (auto split: if_splits)
  next
    case False
    then have "rd buffer idx = Some (buffer ! idx)" "rd (buffer @ c) idx = Some (buffer ! idx)"
      using "1.prems" by (simp_all add: rd_def nth_append)
    with False "1.IH" "1.prems" show ?thesis
      by (subst mqtt_decode_length_loop.simps, subst (asm) (2) mqtt_decode_length_loop.simps)
        (auto simp: Let_def split: if_splits)
  qed
qed

lemma mqtt_decode_length_extend:
  assumes "mqtt_decode_length buffer len = Some (r, v)" "r \<noteq> 0" "len \<le> length buffer"
  shows "mqtt_decode_length (buffer @ c) (len + k) = Some (r, v)"
  using assms decode_loop_extend by (fastforce simp: mqtt_decode_length_def)

lemma mqtt_scan_cases:
  obtains (short) "length b < 2" "mqtt_scan b = Need_more"
    | (incomplete) "2 \<le> length b" "mqtt_decode_length (drop 1 b) (length b - 1) = Some (0, None)" "mqtt_scan b = Need_more"
    | (bad) r where "2 \<le> length b" "mqtt_decode_length (drop 1 b) (length b - 1) = Some (r, None)" "r < 0" "mqtt_scan b = Bad"
    | (body) r v where "2 \<le> length b" "mqtt_decode_length (drop 1 b) (length b - 1) = Some (r, Some v)" "0 < r"
        "mqtt_scan b = (if length b < nat (1 + r) + v then Need_more
          else Frame (\<lparr>fh_type = drop_bit 4 (b ! 0) AND 0xF, fh_flags = b ! 0 AND 0xF, fh_body_length = v\<rparr>,
                      take v (drop (nat (1 + r)) b)) (nat (1 + r) + v))"
proof (cases "length b < 2")
  case True
  then show ?thesis
    by (intro short) (simp_all add: mqtt_scan_def mqtt_parse_frame_def MQTT_MIN_FIXED_HEADER_SIZE_def)
next
  case False
  then obtain r v where d: "mqtt_decode_length (drop 1 b) (length b - 1) = Some (r, v)"
    using mqtt_decode_length_total [of "length b - 1" "drop 1 b"] by auto
  note bd = mqtt_decode_length_bound [OF d]
  have rd0: "rd b 0 = Some (b ! 0)"
    using False by (intro rd_Some) linarith
  note defs = mqtt_scan_def mqtt_parse_frame_def MQTT_MIN_FIXED_HEADER_SIZE_def Let_def
  consider "r = 0" | "r < 0" | "0 < r" by linarith
  then show ?thesis
  proof cases
    case 1
    then show ?thesis
      using False d bd rd0 by (intro incomplete) (auto simp: defs)
  next
    case 2
    then show ?thesis
      using False d bd rd0 by (intro bad [of r]) (auto simp: defs)
  next
    case 3
    then obtain x where "v = Some x"
      using bd by (cases v) auto
    then show ?thesis
      using 3 False d rd0 by (intro body [of r x]) (auto simp: defs)
  qed
qed

interpretation mqtt: framing_codec mqtt_scan mqtt_enc mqtt_valid
proof unfold_locales
  fix b c f n
  assume fr: "mqtt_scan b = Frame f n"
  show "0 < n \<and> n \<le> length b"
    using fr by (cases b rule: mqtt_scan_cases) (auto split: if_splits)
  show "mqtt_scan (b @ c) = Frame f n"
  proof (cases b rule: mqtt_scan_cases)
    case (body r v)
    note d = mqtt_decode_length_extend [OF body(2), of c "length c"]
    have "mqtt_decode_length (drop 1 (b @ c)) (length (b @ c) - 1) = Some (r, Some v)"
      using d body(1,3) by simp
    then show ?thesis
      using fr body by (cases "b @ c" rule: mqtt_scan_cases) (auto split: if_splits simp: nth_append)
  qed (use fr in simp_all)
next
  fix b c
  assume bad: "mqtt_scan b = Bad"
  show "mqtt_scan (b @ c) = Bad"
  proof (cases b rule: mqtt_scan_cases)
    case (bad r)
    have "mqtt_decode_length (drop 1 (b @ c)) (length (b @ c) - 1) = Some (r, None)"
      using mqtt_decode_length_extend [OF bad(2), of c "length c"] bad(1,3) by simp
    then show ?thesis
      using bad by (cases "b @ c" rule: mqtt_scan_cases) auto
  qed (use bad in \<open>simp_all split: if_splits\<close>)
next
  fix f :: "mqtt_fixed_header \<times> bytes"
  assume v: "mqtt_valid f"
  obtain h body where f: "f = (h, body)" by fastforce
  let ?b = "mqtt_enc (h, body)" and ?e = "mqtt_encode_length (length body)"
  have b: "?b = (push_bit 4 (fh_type h) OR fh_flags h) # ?e @ body"
    by (simp add: mqtt_enc_def mqtt_format_fixed_header_def)
  have "mqtt_decode_length (drop 1 ?b) (length ?b - 1) = Some (int (length ?e), Some (length body))"
    using v decode_encode_length [of "length body" "length (?e @ body)" body]
    by (simp add: b f mqtt_valid_def)
  moreover have "0 < length ?e" by simp
  ultimately show "mqtt_scan (mqtt_enc f) = Frame f (length (mqtt_enc f))"
    unfolding f using v nibbles [of "fh_type h" "fh_flags h"]
    by (cases ?b rule: mqtt_scan_cases) (auto simp: b f mqtt_valid_def nat_add_distrib split: if_splits)
qed


subsection \<open>Properties\<close>

lemma decode_encode_overflow:
  assumes "MQTT_MAX_LENGTH_SIZE < length pre + length (mqtt_encode_length v)"
    and "length pre \<le> MQTT_MAX_LENGTH_SIZE" and "MQTT_MAX_LENGTH_SIZE < len"
  shows "\<exists>x. mqtt_decode_length_loop (pre @ mqtt_encode_length v @ rest) len (length pre) m acc = Some (-1, x)"
  using assms
proof (induction v arbitrary: pre m acc rule: mqtt_encode_length.induct)
  case (1 v)
  let ?d = "word_of_nat (v mod 128) :: byte" and ?q = "v div 128"
  show ?case
  proof (cases "length pre = MQTT_MAX_LENGTH_SIZE")
    case True
    then show ?thesis
      using "1.prems" by (subst mqtt_decode_length_loop.simps) simp
  next
    case short: False
    then have "1 < length (mqtt_encode_length v)"
      using "1.prems" by linarith
    moreover have e: "mqtt_encode_length v = (if ?q > 0 then (?d OR 128) # mqtt_encode_length ?q else [?d])"
      by (subst mqtt_encode_length.simps) (simp add: Let_def)
    ultimately have pos: "?q > 0" and enc: "mqtt_encode_length v = (?d OR 128) # mqtt_encode_length ?q"
      by (auto split: if_splits)
    have "mqtt_decode_length_loop (pre @ mqtt_encode_length v @ rest) len (length pre) m acc =
      mqtt_decode_length_loop ((pre @ [?d OR 128]) @ mqtt_encode_length ?q @ rest) len
        (length (pre @ [?d OR 128])) (m * 128) (acc + v mod 128 * m)"
      using "1.prems" short by (subst mqtt_decode_length_loop.simps) (simp add: enc encode_digit Let_def)
    then show ?thesis
      using "1.IH" [of ?d ?q "pre @ [?d OR 128]" "m * 128" "acc + v mod 128 * m"] pos "1.prems" short
      by (simp add: enc)
  qed
qed

text \<open>The remaining-length codec: decoding what the encoder wrote, whatever follows it, gives
  the value and the number of digits for every value below 128^4; every larger value is
  encoded to more than four digits, which the decoder rejects with -1 and which do not fit the
  five bytes that callers reserve for a fixed header.\<close>

lemma mqtt_length_roundtrip:
  "mqtt_decode_length (mqtt_encode_length v @ rest) (length (mqtt_encode_length v) + k) =
     Some (if v < 128 ^ 4 then (int (length (mqtt_encode_length v)), Some v) else (-1, None)) \<and>
   (length (mqtt_format_fixed_header type flags v) \<le> MQTT_MAX_FIXED_HEADER_SIZE \<longleftrightarrow> v < 128 ^ 4)"
proof -
  have le: "length (mqtt_encode_length v) \<le> 4 \<longleftrightarrow> v < 128 ^ 4"
    using length_encode_le_iff [of v 3] by simp
  have "mqtt_decode_length (mqtt_encode_length v @ rest) (length (mqtt_encode_length v) + k) = Some (-1, None)"
    if "\<not> v < 128 ^ 4"
    using that le decode_encode_overflow [of "[]" v "length (mqtt_encode_length v) + k" rest 1 0]
    by (auto simp: mqtt_decode_length_def MQTT_MAX_LENGTH_SIZE_def)
  then show ?thesis
    using decode_encode_length [of v "length (mqtt_encode_length v) + k" rest] le
    by (auto simp: mqtt_format_fixed_header_def MQTT_MAX_FIXED_HEADER_SIZE_def)
qed

text \<open>The remaining-length decoder never reads outside the len bytes it was given, whatever they
  are: it returns -1, 0 or the number of bytes it consumed (at most four and at most len), and
  it stores a value, below 128^4, exactly when it consumed bytes.\<close>

lemma mqtt_decode_length_safe:
  assumes "len \<le> length buffer"
  shows "\<exists>r v. mqtt_decode_length buffer len = Some (r, v) \<and> -1 \<le> r \<and> r \<le> 4 \<and> r \<le> int len \<and>
     (v = None \<longleftrightarrow> r \<le> 0) \<and> (\<forall>x. v = Some x \<longrightarrow> x < 128 ^ 4)"
  using mqtt_decode_length_total [OF assms] mqtt_decode_length_bound by blast

lemma mqtt_format_frame_enc:
  "mqtt_valid f \<Longrightarrow> mqtt_format_frame (fh_type (fst f)) (fh_flags (fst f)) (snd f) (length (snd f)) = Some (mqtt_enc f)"
  by (simp add: mqtt_format_frame_def mqtt_enc_def mqtt_valid_def)

text \<open>C27. Stream reassembly: frames written by the frame formatter, followed by a part of another
  frame, cut into chunks at any positions and fed to the frame recogniser chunk by chunk, come
  out as exactly those frames, in order, and the partial frame stays in the buffer.\<close>

theorem mqtt_frames_reassembled:
  assumes "\<forall>f \<in> set fs. mqtt_valid f"
    and "map (\<lambda>(h, b). mqtt_format_frame (fh_type h) (fh_flags h) b (length b)) fs = map Some wires"
    and "concat chunks = concat wires @ take k (mqtt_enc g)" and "mqtt_valid g" and "k < length (mqtt_enc g)"
  shows "foldl (feed mqtt_scan) ([], []) chunks = (fs, take k (mqtt_enc g))"
proof -
  have "map Some wires = map Some (map mqtt_enc fs)"
    unfolding assms(2) [symmetric] using assms(1) mqtt_format_frame_enc by (auto simp: case_prod_beta)
  then have "wires = map mqtt_enc fs"
    by (simp only: inj_map_eq_map inj_Some)
  moreover have "\<exists>f q. mqtt_valid f \<and> mqtt_enc f = take k (mqtt_enc g) @ q \<and> q \<noteq> []"
    using assms(4,5) by (intro exI [of _ g] exI [of _ "drop k (mqtt_enc g)"]) simp
  ultimately show ?thesis
    using assms(1,3) by (intro mqtt.reassembly) auto
qed

theorem mqtt_frames_reassembled_witness:
  "foldl (feed mqtt_scan) ([], []) [[0x90, 3], [0, 7, 1, 0xC0], [0, 0x40, 2]] =
     ([(\<lparr>fh_type = 9, fh_flags = 0, fh_body_length = 3\<rparr>, [0, 7, 1]),
       (\<lparr>fh_type = 12, fh_flags = 0, fh_body_length = 0\<rparr>, [])], [0x40, 2])"
  using mqtt_frames_reassembled
    [of "[(\<lparr>fh_type = 9, fh_flags = 0, fh_body_length = 3\<rparr>, [0, 7, 1]),
          (\<lparr>fh_type = 12, fh_flags = 0, fh_body_length = 0\<rparr>, [])]"
        "[[0x90, 3, 0, 7, 1], [0xC0, 0]]" "[[0x90, 3], [0, 7, 1, 0xC0], [0, 0x40, 2]]" 2
        "(\<lparr>fh_type = 4, fh_flags = 0, fh_body_length = 2\<rparr>, [0, 5])"]
  by (simp add: mqtt_valid_def mqtt_enc_def mqtt_format_frame_def mqtt_format_fixed_header_def
      mqtt_encode_length.simps Let_def rd_bytes_def)

end
