(* ===== verification/Mqtt_Packet.thy ===== *)
theory Mqtt_Packet
  imports Mqtt_Frame
begin

section \<open>MQTT packet bodies (source/mqtt.c)\<close>

text \<open>
  The parsers and formatters of the packet bodies. A parser gets the memory from
  \<open>buffer\<close> to the end of the object it lies in, and the packet's \<open>length\<close>; it does not check
  \<open>length\<close> before it reads, as the code does not, so a read past the memory is
  \<^const>\<open>None\<close>. A pointer field of a parsed struct (\<open>topic\<close>, \<open>payload\<close>, ...) is its offset
  from \<open>buffer\<close>; fields the parser leaves unset are \<^const>\<open>None\<close>. A C string argument is the
  list of its bytes before the terminator, a nullable pointer an \<^typ>\<open>bytes option\<close>.
  A formatter returns the bytes it writes; the returned offset is their number.
\<close>

subsection \<open>Put and get\<close>

definition mqtt_put_byte :: "byte \<Rightarrow> bytes" where
  "mqtt_put_byte v = [v]"

definition mqtt_put_short :: "u16 \<Rightarrow> bytes" where
  "mqtt_put_short v = [be16_hi v, be16_lo v]"

text \<open>The length parameter is an \<open>unsigned short\<close>: callers' lengths are truncated to 16 bits.\<close>

definition mqtt_put_data :: "bytes \<Rightarrow> u16 \<Rightarrow> bytes option" where
  "mqtt_put_data data data_len = rd_bytes data (unat data_len)"

definition mqtt_put_string :: "bytes \<Rightarrow> bytes option" where
  "mqtt_put_string str =
     (let str_len = length str; hd = mqtt_put_short (word_of_nat str_len) in
      if str_len > 0
      then map_option (\<lambda>d. hd @ d) (mqtt_put_data str (word_of_nat str_len))
      else Some hd)"

definition mqtt_get_byte :: "bytes \<Rightarrow> (byte \<times> nat) option" where
  "mqtt_get_byte buffer = do { v \<leftarrow> rd buffer 0; Some (v, 1) }"

definition mqtt_get_short :: "bytes \<Rightarrow> (u16 \<times> nat) option" where
  "mqtt_get_short buffer = do { hi \<leftarrow> rd buffer 0; lo \<leftarrow> rd buffer 1; Some (be16 hi lo, 2) }"

text \<open>No byte is read: the result is how far the offset advances.\<close>

definition mqtt_get_data :: "u16 \<Rightarrow> nat" where
  "mqtt_get_data data_len = unat data_len"

text \<open>Offset of the string's first byte (2), its length, and the advance.\<close>

definition mqtt_get_string :: "bytes \<Rightarrow> (nat \<times> u16 \<times> nat) option" where
  "mqtt_get_string buffer = do {
     (str_len, n) \<leftarrow> mqtt_get_short buffer;
     Some (n, str_len, n + unat str_len)
   }"

text \<open>The common end of a parser: trailing bytes are an error, missing bytes are not.\<close>

definition parse_end :: "nat \<Rightarrow> nat \<Rightarrow> int" where
  "parse_end offset len = (if offset < len then -1 else int offset)"

subsection \<open>Packets that hold only a packet id\<close>

definition mqtt_parse_var_header_id :: "bytes \<Rightarrow> nat \<Rightarrow> (int \<times> u16) option" where
  "mqtt_parse_var_header_id buffer len = do {
     (pid, n) \<leftarrow> mqtt_get_short buffer;
     Some (parse_end n len, pid)
   }"

definition mqtt_format_var_header_id :: "u16 \<Rightarrow> bytes" where
  "mqtt_format_var_header_id pid = mqtt_put_short pid"

subsection \<open>CONNECT\<close>

record mqtt_connect =
  cn_protocol_name :: nat
  cn_protocol_name_len :: u16
  cn_protocol_level :: byte
  cn_clean_session :: bool
  cn_keep_alive :: u16
  cn_will_qos :: byte
  cn_will_retain :: bool
  cn_will_topic :: "nat option"
  cn_will_topic_len :: "u16 option"
  cn_will_msg :: "nat option"
  cn_will_msg_len :: "u16 option"
  cn_client_id :: nat
  cn_client_id_len :: u16
  cn_user_name :: "nat option"
  cn_user_name_len :: "u16 option"
  cn_password :: "nat option"
  cn_password_len :: "u16 option"

abbreviation (input) MQTT_CONNECT_CLEAN_SESSION :: byte where "MQTT_CONNECT_CLEAN_SESSION \<equiv> 0x02"
abbreviation (input) MQTT_CONNECT_WILL_FLAG :: byte where "MQTT_CONNECT_WILL_FLAG \<equiv> 0x04"
abbreviation (input) MQTT_CONNECT_WILL_QOS_MSK :: byte where "MQTT_CONNECT_WILL_QOS_MSK \<equiv> 0x18"
abbreviation (input) MQTT_CONNECT_WILL_RETAIN :: byte where "MQTT_CONNECT_WILL_RETAIN \<equiv> 0x20"
abbreviation (input) MQTT_CONNECT_PASSWORD :: byte where "MQTT_CONNECT_PASSWORD \<equiv> 0x40"
abbreviation (input) MQTT_CONNECT_USER_NAME :: byte where "MQTT_CONNECT_USER_NAME \<equiv> 0x80"

definition mqtt_parse_connect :: "bytes \<Rightarrow> nat \<Rightarrow> (int \<times> mqtt_connect) option" where
  "mqtt_parse_connect buffer len = do {
     (pname, pname_len, n) \<leftarrow> mqtt_get_string buffer;
     let offset = n;
     (level, n) \<leftarrow> mqtt_get_byte (drop offset buffer);
     let offset = offset + n;
     (flags, n) \<leftarrow> mqtt_get_byte (drop offset buffer);
     let offset = offset + n;
     (keep_alive, n) \<leftarrow> mqtt_get_short (drop offset buffer);
     let offset = offset + n;
     (cid, cid_len, n) \<leftarrow> mqtt_get_string (drop offset buffer);
     let cid = offset + cid;
     let offset = offset + n;
     (wtopic, wtopic_len, wmsg, wmsg_len, offset) \<leftarrow>
       (if flags AND MQTT_CONNECT_WILL_FLAG \<noteq> 0 then do {
          (wt, wt_len, n) \<leftarrow> mqtt_get_string (drop offset buffer);
          let wt = offset + wt;
          let offset = offset + n;
          (wm_len, n) \<leftarrow> mqtt_get_short (drop offset buffer);
          let offset = offset + n;
          Some (Some wt, Some wt_len, Some offset, Some wm_len, offset + mqtt_get_data wm_len)
        } else Some (None, None, None, None, offset));
     (user, user_len, offset) \<leftarrow>
       (if flags AND MQTT_CONNECT_USER_NAME \<noteq> 0 then do {
          (u, u_len, n) \<leftarrow> mqtt_get_string (drop offset buffer);
          Some (Some (offset + u), Some u_len, offset + n)
        } else Some (None, None, offset));
     (pass, pass_len, offset) \<leftarrow>
       (if flags AND MQTT_CONNECT_PASSWORD \<noteq> 0 then do {
          (p_len, n) \<leftarrow> mqtt_get_short (drop offset buffer);
          let offset = offset + n;
          Some (Some offset, Some p_len, offset + mqtt_get_data p_len)
        } else Some (None, None, offset));
     Some (parse_end offset len,
       \<lparr>cn_protocol_name = pname, cn_protocol_name_len = pname_len, cn_protocol_level = level,
        cn_clean_session = (flags AND MQTT_CONNECT_CLEAN_SESSION \<noteq> 0), cn_keep_alive = keep_alive,
        cn_will_qos = drop_bit 3 (flags AND MQTT_CONNECT_WILL_QOS_MSK),
        cn_will_retain = (flags AND MQTT_CONNECT_WILL_RETAIN \<noteq> 0),
        cn_will_topic = wtopic, cn_will_topic_len = wtopic_len,
        cn_will_msg = wmsg, cn_will_msg_len = wmsg_len,
        cn_client_id = cid, cn_client_id_len = cid_len,
        cn_user_name = user, cn_user_name_len = user_len,
        cn_password = pass, cn_password_len = pass_len\<rparr>)
   }"

definition MQTT_CONNECT_VARIABLE_HEADER_SIZE :: nat where
  "MQTT_CONNECT_VARIABLE_HEADER_SIZE = 10"

definition opt_str_size :: "bytes option \<Rightarrow> nat" where
  "opt_str_size s = (case s of None \<Rightarrow> 0 | Some b \<Rightarrow> 2 + length b)"

definition mqtt_eval_connect ::
    "bytes option \<Rightarrow> bytes option \<Rightarrow> u16 \<Rightarrow> bytes option \<Rightarrow> u16 \<Rightarrow> nat" where
  "mqtt_eval_connect client_id will_topic will_msg_len user_name password_len =
     MQTT_CONNECT_VARIABLE_HEADER_SIZE + opt_str_size client_id + opt_str_size will_topic +
     (if unat will_msg_len > 0 then 2 + unat will_msg_len else 0) + opt_str_size user_name +
     (if unat password_len > 0 then 2 + unat password_len else 0)"

definition mqtt_protocol_name :: bytes where
  "mqtt_protocol_name = [0x4D, 0x51, 0x54, 0x54]"

definition mqtt_connect_flags :: "bool \<Rightarrow> bool \<Rightarrow> bool \<Rightarrow> byte \<Rightarrow> bool \<Rightarrow> bool \<Rightarrow> byte" where
  "mqtt_connect_flags clean_session will will_retain will_qos has_password has_user =
     (let flags = 0 :: byte;
          flags = (if clean_session then flags OR MQTT_CONNECT_CLEAN_SESSION else flags);
          flags = (if will then
                     let flags = flags OR MQTT_CONNECT_WILL_FLAG;
                         flags = flags OR (push_bit 3 will_qos AND MQTT_CONNECT_WILL_QOS_MSK)
                     in if will_retain then flags OR MQTT_CONNECT_WILL_RETAIN else flags
                   else flags);
          flags = (if has_password then flags OR MQTT_CONNECT_PASSWORD else flags)
      in if has_user then flags OR MQTT_CONNECT_USER_NAME else flags)"

definition put_opt :: "('a \<Rightarrow> bytes option) \<Rightarrow> 'a option \<Rightarrow> bytes option" where
  "put_opt put x = (case x of None \<Rightarrow> Some [] | Some v \<Rightarrow> put v)"

definition mqtt_put_block :: "u16 \<Rightarrow> bytes \<Rightarrow> bytes option" where
  "mqtt_put_block len data = map_option (\<lambda>d. mqtt_put_short len @ d) (mqtt_put_data data len)"

text \<open>\<open>client_id\<close> is dereferenced without a test, so a null pointer is undefined behaviour.\<close>

definition mqtt_format_connect ::
    "bool \<Rightarrow> u16 \<Rightarrow> bytes option \<Rightarrow> bytes option \<Rightarrow> bytes option \<Rightarrow> u16 \<Rightarrow> bool \<Rightarrow> byte \<Rightarrow>
     bytes option \<Rightarrow> bytes option \<Rightarrow> u16 \<Rightarrow> bytes option" where
  "mqtt_format_connect clean_session keep_alive client_id will_topic will_msg will_msg_len
       will_retain will_qos user_name password password_len = do {
     name \<leftarrow> mqtt_put_string mqtt_protocol_name;
     let level = mqtt_put_byte 4;
     let flags = mqtt_put_byte (mqtt_connect_flags clean_session (will_topic \<noteq> None \<and> will_msg \<noteq> None)
                   will_retain will_qos (password \<noteq> None) (user_name \<noteq> None));
     let keep = mqtt_put_short keep_alive;
     cid \<leftarrow> Option.bind client_id mqtt_put_string;
     wtopic \<leftarrow> put_opt mqtt_put_string will_topic;
     wmsg \<leftarrow> put_opt (mqtt_put_block will_msg_len) will_msg;
     user \<leftarrow> put_opt mqtt_put_string user_name;
     pass \<leftarrow> put_opt (mqtt_put_block password_len) password;
     Some (name @ level @ flags @ keep @ cid @ wtopic @ wmsg @ user @ pass)
   }"

subsection \<open>CONNACK\<close>

record mqtt_connack =
  ca_session_present :: bool
  ca_return_code :: byte

definition mqtt_parse_connack :: "bytes \<Rightarrow> nat \<Rightarrow> (int \<times> mqtt_connack) option" where
  "mqtt_parse_connack buffer len = do {
     (flags, n) \<leftarrow> mqtt_get_byte buffer;
     let offset = n;
     (rc, n) \<leftarrow> mqtt_get_byte (drop offset buffer);
     Some (parse_end (offset + n) len, \<lparr>ca_session_present = (flags AND 1 \<noteq> 0), ca_return_code = rc\<rparr>)
   }"

definition mqtt_format_connack :: "bool \<Rightarrow> byte \<Rightarrow> bytes" where
  "mqtt_format_connack session_present return_code =
     mqtt_put_byte (if session_present then 0 OR 1 else 0) @ mqtt_put_byte return_code"

subsection \<open>PUBLISH\<close>

record mqtt_publish =
  pb_id :: "u16 option"
  pb_topic :: nat
  pb_topic_len :: u16
  pb_payload :: nat
  pb_payload_len :: u16

text \<open>\<open>payload_len\<close> is an \<open>unsigned short\<close>; \<open>length - offset\<close> is computed in \<open>size_t\<close>.\<close>

definition mqtt_parse_publish :: "bytes \<Rightarrow> nat \<Rightarrow> byte \<Rightarrow> (int \<times> mqtt_publish) option" where
  "mqtt_parse_publish buffer len qos = do {
     (topic, topic_len, n) \<leftarrow> mqtt_get_string buffer;
     let offset = n;
     (pid, offset) \<leftarrow>
       (if qos > 0 then do {
          (i, n) \<leftarrow> mqtt_get_short (drop offset buffer);
          Some (Some i, offset + n)
        } else Some (None, offset));
     let payload_len = word_of_nat (size_sub len offset);
     Some (int (offset + mqtt_get_data payload_len),
       \<lparr>pb_id = pid, pb_topic = topic, pb_topic_len = topic_len,
        pb_payload = offset, pb_payload_len = payload_len\<rparr>)
   }"

definition mqtt_eval_publish :: "byte \<Rightarrow> bytes \<Rightarrow> nat \<Rightarrow> nat" where
  "mqtt_eval_publish qos topic payload_len =
     2 + length topic + (if qos > 0 then 2 else 0) + payload_len"

definition mqtt_format_publish :: "byte \<Rightarrow> u16 \<Rightarrow> bytes \<Rightarrow> bytes \<Rightarrow> nat \<Rightarrow> bytes option" where
  "mqtt_format_publish qos pid topic payload payload_len = do {
     t \<leftarrow> mqtt_put_string topic;
     let i = (if qos > 0 then mqtt_put_short pid else []);
     p \<leftarrow> mqtt_put_data payload (word_of_nat payload_len);
     Some (t @ i @ p)
   }"

subsection \<open>SUBSCRIBE, SUBACK, UNSUBSCRIBE, UNSUBACK\<close>

record mqtt_subscribe =
  sb_id :: u16
  sb_topic :: nat
  sb_topic_len :: u16
  sb_qos :: byte

definition mqtt_parse_subscribe :: "bytes \<Rightarrow> nat \<Rightarrow> (int \<times> mqtt_subscribe) option" where
  "mqtt_parse_subscribe buffer len = do {
     (pid, n) \<leftarrow> mqtt_get_short buffer;
     let offset = n;
     (topic, topic_len, n) \<leftarrow> mqtt_get_string (drop offset buffer);
     let topic = offset + topic;
     let offset = offset + n;
     (qos, n) \<leftarrow> mqtt_get_byte (drop offset buffer);
     Some (parse_end (offset + n) len,
       \<lparr>sb_id = pid, sb_topic = topic, sb_topic_len = topic_len, sb_qos = qos\<rparr>)
   }"

definition mqtt_eval_subscribe :: "bytes \<Rightarrow> nat" where
  "mqtt_eval_subscribe topic = 2 + (2 + length topic) + 1"

definition mqtt_format_subscribe :: "u16 \<Rightarrow> bytes \<Rightarrow> byte \<Rightarrow> bytes option" where
  "mqtt_format_subscribe pid topic qos = do {
     t \<leftarrow> mqtt_put_string topic;
     Some (mqtt_put_short pid @ t @ mqtt_put_byte qos)
   }"

record mqtt_suback =
  sa_id :: u16
  sa_return_code :: byte

definition mqtt_parse_suback :: "bytes \<Rightarrow> nat \<Rightarrow> (int \<times> mqtt_suback) option" where
  "mqtt_parse_suback buffer len = do {
     (pid, n) \<leftarrow> mqtt_get_short buffer;
     let offset = n;
     (rc, n) \<leftarrow> mqtt_get_byte (drop offset buffer);
     Some (parse_end (offset + n) len, \<lparr>sa_id = pid, sa_return_code = rc\<rparr>)
   }"

definition mqtt_format_suback :: "u16 \<Rightarrow> byte \<Rightarrow> bytes" where
  "mqtt_format_suback pid return_code = mqtt_put_short pid @ mqtt_put_byte return_code"

record mqtt_unsubscribe =
  us_id :: u16
  us_topic :: nat
  us_topic_len :: u16

definition mqtt_parse_unsubscribe :: "bytes \<Rightarrow> nat \<Rightarrow> (int \<times> mqtt_unsubscribe) option" where
  "mqtt_parse_unsubscribe buffer len = do {
     (pid, n) \<leftarrow> mqtt_get_short buffer;
     let offset = n;
     (topic, topic_len, n) \<leftarrow> mqtt_get_string (drop offset buffer);
     Some (parse_end (offset + n) len,
       \<lparr>us_id = pid, us_topic = offset + topic, us_topic_len = topic_len\<rparr>)
   }"

definition mqtt_eval_unsubscribe :: "bytes \<Rightarrow> nat" where
  "mqtt_eval_unsubscribe topic = 2 + (2 + length topic)"

definition mqtt_format_unsubscribe :: "u16 \<Rightarrow> bytes \<Rightarrow> bytes option" where
  "mqtt_format_unsubscribe pid topic = do {
     t \<leftarrow> mqtt_put_string topic;
     Some (mqtt_put_short pid @ t)
   }"

definition mqtt_parse_unsuback :: "bytes \<Rightarrow> nat \<Rightarrow> (int \<times> u16) option" where
  "mqtt_parse_unsuback buffer len = do {
     (pid, n) \<leftarrow> mqtt_get_short buffer;
     Some (parse_end n len, pid)
   }"

definition mqtt_format_unsuback :: "u16 \<Rightarrow> bytes" where
  "mqtt_format_unsuback pid = mqtt_put_short pid"

subsection \<open>Request and response types\<close>

definition mqtt_packet_names :: "string list" where
  "mqtt_packet_names =
     [''MQTT_FORBIDDEN'', ''MQTT_CONNECT'', ''MQTT_CONNACK'', ''MQTT_PUBLISH'', ''MQTT_PUBACK'',
      ''MQTT_PUBREC'', ''MQTT_PUBREL'', ''MQTT_PUBCOMP'', ''MQTT_SUBSCRIBE'', ''MQTT_SUBACK'',
      ''MQTT_UNSUBSCRIBE'', ''MQTT_UNSUBACK'', ''MQTT_PINGREQ'', ''MQTT_PINGRESP'', ''MQTT_DISCONNECT'']"

definition mqtt_packet_name :: "byte \<Rightarrow> string" where
  "mqtt_packet_name t =
     (if t \<le> MQTT_DISCONNECT then mqtt_packet_names ! unat t else ''MQTT_UNKNOWN'')"

definition mqtt_response_type :: "byte \<Rightarrow> byte \<Rightarrow> byte" where
  "mqtt_response_type req_type qos =
     (if req_type = MQTT_SUBSCRIBE then MQTT_SUBACK
      else if req_type = MQTT_UNSUBSCRIBE then MQTT_UNSUBACK
      else if req_type = MQTT_PUBLISH then
        (if qos = 1 then MQTT_PUBACK else if qos = 2 then MQTT_PUBREC else MQTT_FORBIDDEN)
      else if req_type = MQTT_PUBREL then MQTT_PUBCOMP
      else MQTT_FORBIDDEN)"

definition mqtt_request_type :: "byte \<Rightarrow> byte" where
  "mqtt_request_type resp_type =
     (if resp_type = MQTT_SUBACK then MQTT_SUBSCRIBE
      else if resp_type = MQTT_UNSUBACK then MQTT_UNSUBSCRIBE
      else if resp_type = MQTT_PUBACK \<or> resp_type = MQTT_PUBREC then MQTT_PUBLISH
      else if resp_type = MQTT_PUBCOMP then MQTT_PUBREL
      else MQTT_FORBIDDEN)"


subsection \<open>Reading back what was put\<close>

lemma unat_u16 [simp]: "n < 65536 \<Longrightarrow> unat (word_of_nat n :: u16) = n"
  by (simp add: unat_of_nat)

lemma uint_u16 [simp]: "n < 65536 \<Longrightarrow> uint (word_of_nat n :: u16) = int n"
  using unat_u16 [of n] by (simp only: uint_nat)

text \<open>Offsets are kept as sums of numerals.\<close>

declare add_2_eq_Suc [simp del]
declare add_2_eq_Suc' [simp del]

lemma length_put_short [wire_simps]: "length (mqtt_put_short v) = 2"
  by (simp add: mqtt_put_short_def)

lemma length_put_byte [wire_simps]: "length (mqtt_put_byte v) = 1"
  by (simp add: mqtt_put_byte_def)

lemma put_string_eq:
  "length s < 65536 \<Longrightarrow> mqtt_put_string s = Some (mqtt_put_short (word_of_nat (length s)) @ s)"
  by (simp add: mqtt_put_string_def mqtt_put_data_def Let_def)

lemma put_block_eq:
  "length d = unat n \<Longrightarrow> mqtt_put_block n d = Some (mqtt_put_short n @ d)"
  by (simp add: mqtt_put_block_def mqtt_put_data_def rd_bytes_def)

lemma get_short_put [simp]: "mqtt_get_short (mqtt_put_short v @ r) = Some (v, 2)"
  by (simp add: mqtt_get_short_def mqtt_put_short_def)

lemma get_byte_put [simp]: "mqtt_get_byte (mqtt_put_byte v @ r) = Some (v, 1)"
  by (simp add: mqtt_get_byte_def mqtt_put_byte_def)

lemma get_string_put [simp]: "mqtt_get_string (mqtt_put_short v @ r) = Some (2, v, 2 + unat v)"
  by (simp add: mqtt_get_string_def)

text \<open>
  A cursor into \<open>m\<close>: reading an item that stands at offset \<open>k\<close>, and where the rest begins.
\<close>

lemma cursor_drop:
  assumes "drop k m = xs @ r" and "length xs = n"
  shows "drop (k + n) m = r"
proof -
  have "drop (k + n) m = drop n (drop k m)"
    by (metis add.commute drop_drop)
  then show ?thesis
    using assms by simp
qed

lemma cursor_short:
  assumes "drop k m = mqtt_put_short v @ r"
  shows "mqtt_get_short (drop k m) = Some (v, 2)" and "drop (k + 2) m = r"
  using assms cursor_drop [OF assms length_put_short] by simp_all

lemma cursor_byte:
  assumes "drop k m = mqtt_put_byte v @ r"
  shows "mqtt_get_byte (drop k m) = Some (v, 1)" and "drop (k + 1) m = r"
  using assms cursor_drop [OF assms length_put_byte] by simp_all

lemma cursor_string:
  assumes "drop k m = mqtt_put_short v @ s @ r" and "unat v = length s"
  shows "mqtt_get_string (drop k m) = Some (2, v, 2 + length s)"
    and "drop (k + (2 + length s)) m = r"
    and "take (length s) (drop (k + 2) m) = s"
proof -
  show "mqtt_get_string (drop k m) = Some (2, v, 2 + length s)"
    using assms by simp
  show "drop (k + (2 + length s)) m = r"
    using cursor_drop [of k m "mqtt_put_short v @ s" r] assms(1) by (simp add: wire_simps)
  show "take (length s) (drop (k + 2) m) = s"
    using cursor_drop [OF assms(1) length_put_short] by simp
qed


subsection \<open>The flags byte of CONNECT\<close>

lemma two_bits: "(q :: byte) AND 3 = 0 \<or> q AND 3 = 1 \<or> q AND 3 = 2 \<or> q AND 3 = 3"
proof -
  have "q AND 3 \<le> 3"
    by (rule word_and_le1)
  then have "unat (q AND 3) \<le> 3"
    by (simp add: word_le_nat_alt)
  then have "unat (q AND 3) = 0 \<or> unat (q AND 3) = 1 \<or> unat (q AND 3) = 2 \<or> unat (q AND 3) = 3"
    by arith
  then show ?thesis
    unfolding word_unat_eq_iff by simp
qed

lemma qos_mask: "push_bit 3 q AND MQTT_CONNECT_WILL_QOS_MSK = push_bit 3 (q AND 3)"
proof -
  have "(0x18 :: byte) = push_bit 3 3"
    by simp
  then show ?thesis
    by (simp only: push_bit_and)
qed

lemma connect_flags_read:
  fixes c w r p u q
  defines "f \<equiv> mqtt_connect_flags c w r q p u"
  shows "(f AND MQTT_CONNECT_CLEAN_SESSION \<noteq> 0) = c" "(f AND MQTT_CONNECT_WILL_FLAG \<noteq> 0) = w"
    "(f AND MQTT_CONNECT_WILL_RETAIN \<noteq> 0) = (w \<and> r)"
    "(f AND MQTT_CONNECT_PASSWORD \<noteq> 0) = p" "(f AND MQTT_CONNECT_USER_NAME \<noteq> 0) = u"
    "drop_bit 3 (f AND MQTT_CONNECT_WILL_QOS_MSK) = (if w then q AND 3 else 0)"
proof -
  obtain x where x: "q AND 3 = x" and "x = 0 \<or> x = 1 \<or> x = 2 \<or> x = 3"
    using two_bits by blast
  then have "(f AND 2 \<noteq> 0) = c \<and> (f AND 4 \<noteq> 0) = w \<and> (f AND 0x20 \<noteq> 0) = (w \<and> r) \<and>
    (f AND 0x40 \<noteq> 0) = p \<and> (f AND 0x80 \<noteq> 0) = u \<and> drop_bit 3 (f AND 0x18) = (if w then x else 0)"
    unfolding f_def mqtt_connect_flags_def Let_def qos_mask x
    by (elim disjE; cases w; cases r; cases c; cases p; cases u; simp)
  then show "(f AND MQTT_CONNECT_CLEAN_SESSION \<noteq> 0) = c" "(f AND MQTT_CONNECT_WILL_FLAG \<noteq> 0) = w"
    "(f AND MQTT_CONNECT_WILL_RETAIN \<noteq> 0) = (w \<and> r)"
    "(f AND MQTT_CONNECT_PASSWORD \<noteq> 0) = p" "(f AND MQTT_CONNECT_USER_NAME \<noteq> 0) = u"
    "drop_bit 3 (f AND MQTT_CONNECT_WILL_QOS_MSK) = (if w then q AND 3 else 0)"
    using x by simp_all
qed

subsection \<open>Views of a parsed body, and the round trips\<close>

definition view :: "bytes \<Rightarrow> nat \<Rightarrow> u16 \<Rightarrow> bytes" where
  "view m k n = take (unat n) (drop k m)"

definition opt_view :: "bytes \<Rightarrow> nat option \<Rightarrow> u16 option \<Rightarrow> bytes option" where
  "opt_view m k n = (case (k, n) of (Some k, Some n) \<Rightarrow> Some (view m k n) | _ \<Rightarrow> None)"

definition opt_short :: "bytes option \<Rightarrow> bool" where
  "opt_short s = pred_option (\<lambda>x. length x < 65536) s"

lemma opt_short_simps [simp]: "opt_short None" "opt_short (Some x) \<longleftrightarrow> length x < 65536"
  by (simp_all add: opt_short_def)

definition str_block :: "bytes \<Rightarrow> bytes" where
  "str_block s = mqtt_put_short (word_of_nat (length s)) @ s"

definition opt_block :: "bytes option \<Rightarrow> bytes" where
  "opt_block s = (case s of None \<Rightarrow> [] | Some s \<Rightarrow> str_block s)"

lemma length_str_block [wire_simps]: "length (str_block s) = 2 + length s"
  by (simp add: str_block_def wire_simps)

lemma cursor_block:
  assumes "drop k m = str_block s @ r" and "length s < 65536"
  shows "mqtt_get_string (drop k m) = Some (2, word_of_nat (length s), 2 + length s)"
    and "mqtt_get_short (drop k m) = Some (word_of_nat (length s), 2)"
    and "drop (k + (2 + length s)) m = r"
    and "view m (k + 2) (word_of_nat (length s)) = s"
proof -
  have k: "drop k m = mqtt_put_short (word_of_nat (length s)) @ s @ r"
    using assms(1) by (simp add: str_block_def)
  show "mqtt_get_short (drop k m) = Some (word_of_nat (length s), 2)"
    using cursor_short(1) [OF k] .
  show "mqtt_get_string (drop k m) = Some (2, word_of_nat (length s), 2 + length s)"
    "drop (k + (2 + length s)) m = r" "view m (k + 2) (word_of_nat (length s)) = s"
    using cursor_string [OF k] assms(2) by (simp_all add: view_def)
qed

definition opt_length :: "bytes option \<Rightarrow> nat" where
  "opt_length s = (case s of None \<Rightarrow> 0 | Some x \<Rightarrow> length x)"

lemma opt_length_simps [simp]: "opt_length None = 0" "opt_length (Some x) = length x"
  by (simp_all add: opt_length_def)

lemma put_opt_string:
  "opt_short s \<Longrightarrow> put_opt mqtt_put_string s = Some (opt_block s)"
  by (cases s) (simp_all add: put_opt_def put_string_eq opt_block_def str_block_def)

lemma put_opt_data:
  "opt_short s \<Longrightarrow> (s \<noteq> None \<Longrightarrow> n = word_of_nat (opt_length s)) \<Longrightarrow>
   put_opt (mqtt_put_block n) s = Some (opt_block s)"
  by (cases s) (simp_all add: put_opt_def put_block_eq opt_block_def str_block_def)

lemma opt_block_length [wire_simps]: "length (opt_block s) = opt_str_size s"
  by (cases s) (simp_all add: opt_block_def opt_str_size_def wire_simps)


lemma connect_body:
  assumes "length cid < 65536" and "opt_short wt"
    and "opt_short wm" and "wm \<noteq> None \<longrightarrow> wl = word_of_nat (opt_length wm)"
    and "opt_short user"
    and "opt_short pass" and "pass \<noteq> None \<longrightarrow> pl = word_of_nat (opt_length pass)"
  shows "mqtt_format_connect cs ka (Some cid) wt wm wl wr wq user pass pl =
     Some (str_block mqtt_protocol_name @ mqtt_put_byte 4 @
       mqtt_put_byte (mqtt_connect_flags cs (wt \<noteq> None \<and> wm \<noteq> None) wr wq (pass \<noteq> None) (user \<noteq> None)) @
       mqtt_put_short ka @ str_block cid @ opt_block wt @ opt_block wm @ opt_block user @ opt_block pass)"
proof -
  have "put_opt mqtt_put_string wt = Some (opt_block wt)" "put_opt (mqtt_put_block wl) wm = Some (opt_block wm)"
    "put_opt mqtt_put_string user = Some (opt_block user)" "put_opt (mqtt_put_block pl) pass = Some (opt_block pass)"
    using assms put_opt_string put_opt_data by metis+
  moreover have "mqtt_put_string mqtt_protocol_name = Some (str_block mqtt_protocol_name)"
    "mqtt_put_string cid = Some (str_block cid)"
    using assms(1) by (simp_all add: put_string_eq str_block_def mqtt_protocol_name_def)
  ultimately show ?thesis
    by (simp add: mqtt_format_connect_def Let_def)
qed

lemma will_section:
  assumes "drop k bs = opt_block wt @ opt_block wm @ r" and "wt = None \<longleftrightarrow> wm = None"
    and "opt_short wt" and "opt_short wm"
    and "(f AND MQTT_CONNECT_WILL_FLAG \<noteq> 0) = (wt \<noteq> None)"
  shows "(if f AND MQTT_CONNECT_WILL_FLAG \<noteq> 0 then do {
          (wt, wt_len, n) \<leftarrow> mqtt_get_string (drop k bs);
          let wt = k + wt;
          let offset = k + n;
          (wm_len, n) \<leftarrow> mqtt_get_short (drop offset bs);
          let offset = offset + n;
          Some (Some wt, Some wt_len, Some offset, Some wm_len, offset + mqtt_get_data wm_len)
        } else Some (None, None, None, None, k)) =
     Some (map_option (\<lambda>_. k + 2) wt, map_option (\<lambda>s. word_of_nat (length s)) wt,
           map_option (\<lambda>_. k + opt_str_size wt + 2) wm, map_option (\<lambda>s. word_of_nat (length s)) wm,
           k + opt_str_size wt + opt_str_size wm) \<and>
     opt_view bs (map_option (\<lambda>_. k + 2) wt) (map_option (\<lambda>s. word_of_nat (length s)) wt) = wt \<and>
     opt_view bs (map_option (\<lambda>_. k + opt_str_size wt + 2) wm) (map_option (\<lambda>s. word_of_nat (length s)) wm) = wm \<and>
     drop (k + opt_str_size wt + opt_str_size wm) bs = r"
proof (cases wt)
  case (Some t)
  then obtain m where m: "wm = Some m"
    using assms(2) by (cases wm) simp_all
  have "drop k bs = str_block t @ str_block m @ r"
    using assms(1) Some m by (simp add: opt_block_def)
  moreover have lt: "length t < 65536" "length m < 65536"
    using assms(3,4) Some m by simp_all
  ultimately have t: "mqtt_get_string (drop k bs) = Some (2, word_of_nat (length t), 2 + length t)"
    "drop (k + (2 + length t)) bs = str_block m @ r" "view bs (k + 2) (word_of_nat (length t)) = t"
    using cursor_block by blast+
  note mm = cursor_block [OF t(2) lt(2)]
  show ?thesis
    using t mm lt(2) assms(5) Some m
    by (simp add: opt_view_def opt_str_size_def mqtt_get_data_def Let_def add.assoc)
next
  case None
  then show ?thesis
    using assms by (simp add: opt_view_def opt_str_size_def opt_block_def)
qed

lemma user_section:
  assumes "drop k bs = opt_block s @ r" and "opt_short s"
    and "(f AND MQTT_CONNECT_USER_NAME \<noteq> 0) = (s \<noteq> None)"
  shows "(if f AND MQTT_CONNECT_USER_NAME \<noteq> 0 then do {
          (u, u_len, n) \<leftarrow> mqtt_get_string (drop k bs);
          Some (Some (k + u), Some u_len, k + n)
        } else Some (None, None, k)) =
     Some (map_option (\<lambda>_. k + 2) s, map_option (\<lambda>s. word_of_nat (length s)) s, k + opt_str_size s) \<and>
     opt_view bs (map_option (\<lambda>_. k + 2) s) (map_option (\<lambda>s. word_of_nat (length s)) s) = s \<and>
     drop (k + opt_str_size s) bs = r"
proof (cases s)
  case (Some t)
  then have "drop k bs = str_block t @ r"
    using assms(1) by (simp add: opt_block_def)
  moreover have lt: "length t < 65536"
    using assms(2) Some by simp
  ultimately have t: "mqtt_get_string (drop k bs) = Some (2, word_of_nat (length t), 2 + length t)"
    "mqtt_get_short (drop k bs) = Some (word_of_nat (length t), 2)"
    "drop (k + (2 + length t)) bs = r" "view bs (k + 2) (word_of_nat (length t)) = t"
    using cursor_block by blast+
  show ?thesis
    using t assms(3) Some by (simp add: opt_view_def opt_str_size_def)
qed (use assms in \<open>simp add: opt_view_def opt_str_size_def opt_block_def\<close>)

lemma pass_section:
  assumes "drop k bs = opt_block s @ r" and "opt_short s"
    and "(f AND MQTT_CONNECT_PASSWORD \<noteq> 0) = (s \<noteq> None)"
  shows "(if f AND MQTT_CONNECT_PASSWORD \<noteq> 0 then do {
          (p_len, n) \<leftarrow> mqtt_get_short (drop k bs);
          let offset = k + n;
          Some (Some offset, Some p_len, offset + mqtt_get_data p_len)
        } else Some (None, None, k)) =
     Some (map_option (\<lambda>_. k + 2) s, map_option (\<lambda>s. word_of_nat (length s)) s, k + opt_str_size s) \<and>
     opt_view bs (map_option (\<lambda>_. k + 2) s) (map_option (\<lambda>s. word_of_nat (length s)) s) = s"
proof (cases s)
  case (Some t)
  then have "drop k bs = str_block t @ r"
    using assms(1) by (simp add: opt_block_def)
  moreover have lt: "length t < 65536"
    using assms(2) Some by simp
  ultimately have t: "mqtt_get_string (drop k bs) = Some (2, word_of_nat (length t), 2 + length t)"
    "mqtt_get_short (drop k bs) = Some (word_of_nat (length t), 2)"
    "drop (k + (2 + length t)) bs = r" "view bs (k + 2) (word_of_nat (length t)) = t"
    using cursor_block by blast+
  show ?thesis
    using t lt assms(3) Some
    by (simp add: opt_view_def opt_str_size_def mqtt_get_data_def Let_def)
qed (use assms in \<open>simp add: opt_view_def opt_str_size_def opt_block_def\<close>)

text \<open>A will of which only one part is given is written into the body without the will flag, so that the
  reader does not skip it: it takes the will topic for what follows (here for bytes it does not
  expect, an error).\<close>

lemma mqtt_connect_will_alone:
  "Option.bind (mqtt_format_connect True 60 (Some [0x63]) (Some [0x74]) None 0 False 0 None None 0)
     (\<lambda>bs. map_option fst (mqtt_parse_connect bs (length bs))) = Some (-1)"
  by code_simp

text \<open>C28. Parsing the CONNECT body that the formatter wrote succeeds, consumes every byte and
  gives back each field: protocol name and level, clean-session flag, keep-alive, client id,
  will topic, message, QoS (two bits) and retain flag, user name and password, with the
  optional parts present exactly when they were given. The will topic and the will message are
  given both or not at all, all strings are below 64 KiB, and the lengths passed for the will
  message and the password are those of the data.\<close>

theorem mqtt_connect_roundtrip:
  assumes "length cid < 65536" and "wt = None \<longleftrightarrow> wm = None"
    and "opt_short wt"
    and "opt_short wm" and "wm \<noteq> None \<longrightarrow> wl = word_of_nat (opt_length wm)"
    and "opt_short user"
    and "opt_short pass" and "pass \<noteq> None \<longrightarrow> pl = word_of_nat (opt_length pass)"
  shows "\<exists>bs v. mqtt_format_connect cs ka (Some cid) wt wm wl wr wq user pass pl = Some bs \<and>
    mqtt_parse_connect bs (length bs) = Some (int (length bs), v) \<and>
    view bs (cn_protocol_name v) (cn_protocol_name_len v) = mqtt_protocol_name \<and>
    cn_protocol_level v = 4 \<and> cn_clean_session v = cs \<and> cn_keep_alive v = ka \<and>
    cn_will_retain v = (wt \<noteq> None \<and> wr) \<and> cn_will_qos v = (if wt \<noteq> None then wq AND 3 else 0) \<and>
    view bs (cn_client_id v) (cn_client_id_len v) = cid \<and>
    opt_view bs (cn_will_topic v) (cn_will_topic_len v) = wt \<and>
    opt_view bs (cn_will_msg v) (cn_will_msg_len v) = wm \<and>
    opt_view bs (cn_user_name v) (cn_user_name_len v) = user \<and>
    opt_view bs (cn_password v) (cn_password_len v) = pass"
proof -
  define f where "f = mqtt_connect_flags cs (wt \<noteq> None \<and> wm \<noteq> None) wr wq (pass \<noteq> None) (user \<noteq> None)"
  define bs where "bs = str_block mqtt_protocol_name @ mqtt_put_byte 4 @ mqtt_put_byte f @
       mqtt_put_short ka @ str_block cid @ opt_block wt @ opt_block wm @ opt_block user @ opt_block pass"
  have fmt: "mqtt_format_connect cs ka (Some cid) wt wm wl wr wq user pass pl = Some bs"
    unfolding bs_def f_def using assms by (intro connect_body) auto
  have len: "length bs = 12 + length cid + opt_str_size wt + opt_str_size wm + opt_str_size user + opt_str_size pass"
    by (simp add: bs_def wire_simps mqtt_protocol_name_def)
  have "drop 0 bs = str_block mqtt_protocol_name @ mqtt_put_byte 4 @ mqtt_put_byte f @
       mqtt_put_short ka @ str_block cid @ opt_block wt @ opt_block wm @ opt_block user @ opt_block pass"
    by (simp add: bs_def)
  note c1 = cursor_block [OF this]
  have p4: "length mqtt_protocol_name = 4" by (simp add: mqtt_protocol_name_def)
  have "drop 6 bs = mqtt_put_byte 4 @ mqtt_put_byte f @
       mqtt_put_short ka @ str_block cid @ opt_block wt @ opt_block wm @ opt_block user @ opt_block pass"
    using c1(3) p4 by simp
  note c2 = cursor_byte [OF this]
  note c3 = cursor_byte [OF c2(2)]
  note c4 = cursor_short [OF c3(2)]
  note c5 = cursor_block [OF c4(2) assms(1)]
  define k where "k = 6 + 1 + 1 + 2 + (2 + length cid)"
  note fl = connect_flags_read [of cs "wt \<noteq> None \<and> wm \<noteq> None" wr wq "pass \<noteq> None" "user \<noteq> None", folded f_def]
  have d: "drop k bs = opt_block wt @ opt_block wm @ opt_block user @ opt_block pass"
    using c5(3) by (simp only: k_def)
  have wf: "(f AND MQTT_CONNECT_WILL_FLAG \<noteq> 0) = (wt \<noteq> None)"
    using fl(2) assms(2) by auto
  note w = will_section [OF d assms(2-4) wf]
  define k2 where "k2 = k + opt_str_size wt + opt_str_size wm"
  have "drop k2 bs = opt_block user @ opt_block pass"
    using w by (simp only: k2_def)
  note u = user_section [OF this assms(6) fl(5)]
  then have "drop (k2 + opt_str_size user) bs = opt_block pass @ []"
    by simp
  note p = pass_section [OF this assms(7) fl(4)]
  have k2: "k2 + opt_str_size user + opt_str_size pass = length bs"
    by (simp add: len k2_def k_def)
  have k: "10 + (2 + length cid) = k" "6 + 1 + 1 + 2 = (10::nat)" "6 + 1 + 1 = (8::nat)" "6 + 1 = (7::nat)" 
    by (simp_all add: k_def)
  have g1: "mqtt_get_string bs = Some (2, word_of_nat (length mqtt_protocol_name), 6)"
   and g2: "mqtt_get_byte (drop 6 bs) = Some (4, 1)" 
   and g3: "mqtt_get_byte (drop (6 + 1) bs) = Some (f, 1)" 
   and g4: "mqtt_get_short (drop (6 + 1 + 1) bs) = Some (ka, 2)" 
   and g5: "mqtt_get_string (drop (6 + 1 + 1 + 2) bs) = Some (2, word_of_nat (length cid), 2 + length cid)"
    using c1 c2 c3 c4 c5 p4 by simp_all
  define v where "v = \<lparr>cn_protocol_name = 2, cn_protocol_name_len = word_of_nat (length mqtt_protocol_name), cn_protocol_level = 4,
        cn_clean_session = cs, cn_keep_alive = ka,
        cn_will_qos = (if wt \<noteq> None then wq AND 3 else 0), cn_will_retain = (wt \<noteq> None \<and> wr),
        cn_will_topic = map_option (\<lambda>_. k + 2) wt, cn_will_topic_len = map_option (\<lambda>s. word_of_nat (length s)) wt,
        cn_will_msg = map_option (\<lambda>_. k + opt_str_size wt + 2) wm, cn_will_msg_len = map_option (\<lambda>s. word_of_nat (length s)) wm,
        cn_client_id = 6 + 1 + 1 + 2 + 2, cn_client_id_len = word_of_nat (length cid),
        cn_user_name = map_option (\<lambda>_. k2 + 2) user, cn_user_name_len = map_option (\<lambda>s. word_of_nat (length s)) user,
        cn_password = map_option (\<lambda>_. k2 + opt_str_size user + 2) pass, cn_password_len = map_option (\<lambda>s. word_of_nat (length s)) pass\<rparr>"
  have "mqtt_parse_connect bs (length bs) = Some (int (length bs), v)"
    unfolding mqtt_parse_connect_def Let_def g1 g2 bind.bind_lunit prod.case g3 g4 g5
      k_def [symmetric] conjunct1 [OF w, unfolded Let_def] k2_def [symmetric] conjunct1 [OF u]
      conjunct1 [OF p, unfolded Let_def] k2
    unfolding fl using assms(2) by (simp add: parse_end_def v_def)
  moreover have "view bs 2 (word_of_nat (length mqtt_protocol_name)) = mqtt_protocol_name"
    "view bs (6 + 1 + 1 + 2 + 2) (word_of_nat (length cid)) = cid"
    using c1(4) c5(4) p4 by simp_all
  ultimately show ?thesis
    using fmt w u p by (intro exI [of _ bs] exI [of _ v] conjI) (simp_all add: v_def)
qed

theorem mqtt_connect_roundtrip_witness:
  "\<exists>bs v. mqtt_format_connect True 60 (Some [0x63]) (Some [0x74]) (Some [1, 2]) 2 True 1 None (Some [3]) 1 = Some bs \<and>
    mqtt_parse_connect bs (length bs) = Some (int (length bs), v) \<and> cn_keep_alive v = 60 \<and>
    view bs (cn_client_id v) (cn_client_id_len v) = [0x63] \<and>
    opt_view bs (cn_will_msg v) (cn_will_msg_len v) = Some [1, 2] \<and>
    opt_view bs (cn_user_name v) (cn_user_name_len v) = None \<and>
    opt_view bs (cn_password v) (cn_password_len v) = Some [3]"
  using mqtt_connect_roundtrip [of "[0x63]" "Some [0x74]" "Some [1, 2]" 2 None "Some [3]" 1 True 60 True 1]
  by (auto simp del: parse_end_def)

text \<open>SUBSCRIBE and UNSUBSCRIBE bodies have the size the eval functions announce, and
  parsing them gives back the packet id, the topic and the requested QoS.\<close>

lemma mqtt_subscription_roundtrips:
  assumes "length topic < 65536"
  shows "(\<exists>bs v. mqtt_format_subscribe pid topic qos = Some bs \<and> length bs = mqtt_eval_subscribe topic \<and>
      mqtt_parse_subscribe bs (length bs) = Some (int (length bs), v) \<and>
      sb_id v = pid \<and> view bs (sb_topic v) (sb_topic_len v) = topic \<and> sb_qos v = qos) \<and>
    (\<exists>bs v. mqtt_format_unsubscribe pid topic = Some bs \<and> length bs = mqtt_eval_unsubscribe topic \<and>
      mqtt_parse_unsubscribe bs (length bs) = Some (int (length bs), v) \<and>
      us_id v = pid \<and> view bs (us_topic v) (us_topic_len v) = topic)"
proof -
  define bs where "bs = mqtt_put_short pid @ str_block topic @ mqtt_put_byte qos @ []"
  have "drop 0 bs = mqtt_put_short pid @ str_block topic @ mqtt_put_byte qos @ []"
    by (simp add: bs_def)
  note c1 = cursor_short [OF this]
  note c2 = cursor_block [OF c1(2) assms]
  note c3 = cursor_byte [OF c2(3)]
  have sub: "\<exists>bs v. mqtt_format_subscribe pid topic qos = Some bs \<and> length bs = mqtt_eval_subscribe topic \<and>
      mqtt_parse_subscribe bs (length bs) = Some (int (length bs), v) \<and>
      sb_id v = pid \<and> view bs (sb_topic v) (sb_topic_len v) = topic \<and> sb_qos v = qos"
    using c1 c2 c3 put_string_eq [OF assms]
    by (intro exI [of _ bs]) (simp add: mqtt_parse_subscribe_def mqtt_format_subscribe_def
        mqtt_eval_subscribe_def parse_end_def bs_def str_block_def wire_simps Let_def)
  define ub where "ub = mqtt_put_short pid @ str_block topic @ []"
  have "drop 0 ub = mqtt_put_short pid @ str_block topic @ []"
    by (simp add: ub_def)
  note u1 = cursor_short [OF this]
  note u2 = cursor_block [OF u1(2) assms]
  have "\<exists>bs v. mqtt_format_unsubscribe pid topic = Some bs \<and> length bs = mqtt_eval_unsubscribe topic \<and>
      mqtt_parse_unsubscribe bs (length bs) = Some (int (length bs), v) \<and>
      us_id v = pid \<and> view bs (us_topic v) (us_topic_len v) = topic"
    using u1 u2 put_string_eq [OF assms]
    by (intro exI [of _ ub]) (simp add: mqtt_parse_unsubscribe_def mqtt_format_unsubscribe_def
        mqtt_eval_unsubscribe_def parse_end_def ub_def str_block_def wire_simps Let_def)
  with sub show ?thesis by blast
qed

text \<open>The fixed-size bodies (packet id, UNSUBACK, SUBACK, CONNACK) survive formatting and
  parsing; a request type has a response type exactly for SUBSCRIBE, UNSUBSCRIBE, PUBREL and
  PUBLISH with QoS 1 or 2, and the request type of that response is the request again.\<close>

lemma mqtt_acknowledgement_roundtrips:
  "mqtt_parse_var_header_id (mqtt_format_var_header_id pid) 2 = Some (2, pid) \<and>
   mqtt_parse_unsuback (mqtt_format_unsuback pid) 2 = Some (2, pid) \<and>
   mqtt_parse_suback (mqtt_format_suback pid rc) 3 = Some (3, \<lparr>sa_id = pid, sa_return_code = rc\<rparr>) \<and>
   mqtt_parse_connack (mqtt_format_connack sp rc) 2 = Some (2, \<lparr>ca_session_present = sp, ca_return_code = rc\<rparr>) \<and>
   (mqtt_response_type t qos \<noteq> MQTT_FORBIDDEN \<longleftrightarrow>
      t \<in> {MQTT_PUBREL, MQTT_SUBSCRIBE, MQTT_UNSUBSCRIBE} \<or> (t = MQTT_PUBLISH \<and> qos \<in> {1, 2})) \<and>
   mqtt_request_type (mqtt_response_type t qos) =
     (if mqtt_response_type t qos \<noteq> MQTT_FORBIDDEN then t else MQTT_FORBIDDEN)"
  by (auto simp: mqtt_parse_var_header_id_def mqtt_format_var_header_id_def mqtt_parse_unsuback_def
      mqtt_format_unsuback_def mqtt_parse_suback_def mqtt_format_suback_def mqtt_parse_connack_def
      mqtt_format_connack_def mqtt_get_short_def mqtt_put_short_def mqtt_get_byte_def mqtt_put_byte_def
      parse_end_def mqtt_response_type_def mqtt_request_type_def)

lemma publish_read:
  assumes "length topic < 65536" and "length payload < 65536"
  shows "\<exists>bs v. mqtt_format_publish qos pid topic payload (length payload) = Some bs \<and>
    length bs = mqtt_eval_publish qos topic (length payload) \<and>
    mqtt_parse_publish bs (length bs) qos = Some (int (length bs), v) \<and>
    pb_id v = (if qos > 0 then Some pid else None) \<and>
    view bs (pb_topic v) (pb_topic_len v) = topic \<and> view bs (pb_payload v) (pb_payload_len v) = payload"
proof -
  define i where "i = (if qos > 0 then mqtt_put_short pid else [])"
  define bs where "bs = str_block topic @ i @ payload"
  have fmt: "mqtt_format_publish qos pid topic payload (length payload) = Some bs"
    using assms put_string_eq [of topic]
    by (simp add: mqtt_format_publish_def mqtt_put_data_def bs_def i_def str_block_def Let_def)
  have len: "length bs = 2 + length topic + (if qos > 0 then 2 else 0) + length payload"
    by (simp add: bs_def i_def wire_simps)
  have small: "length bs < size_bound"
    using assms by (simp add: len size_bound_def)
  have "drop 0 bs = str_block topic @ i @ payload"
    by (simp add: bs_def)
  note c1 = cursor_block [OF this assms(1)]
  show ?thesis
  proof (cases "qos > 0")
    case True
    then have "drop (0 + (2 + length topic)) bs = mqtt_put_short pid @ payload"
      using c1(3) by (simp add: i_def)
    note c2 = cursor_short [OF this]
    have "size_sub (length bs) (2 + length topic + 2) = length payload"
      using small len True by (subst size_sub_le) auto
    then show ?thesis
      using True c1 c2 fmt len assms
      by (intro exI [of _ bs]) (simp add: mqtt_parse_publish_def mqtt_eval_publish_def mqtt_get_data_def
          view_def Let_def)
  next
    case False
    have "size_sub (length bs) (2 + length topic) = length payload"
      using small len False by (subst size_sub_le) auto
    then show ?thesis
      using False c1 fmt len assms
      by (intro exI [of _ bs]) (simp add: mqtt_parse_publish_def mqtt_eval_publish_def mqtt_get_data_def
          i_def view_def Let_def)
  qed
qed

text \<open>PUBLISH bodies with a topic and a payload below 64 KiB have the announced size, and
  parsing them gives back the topic, the payload and the packet id, which is present exactly
  for QoS above 0.\<close>

lemma mqtt_publish_roundtrip:
  assumes "length topic < 65536" and "length payload < 65536"
  shows "\<exists>bs v. mqtt_format_publish qos pid topic payload (length payload) = Some bs \<and>
    length bs = mqtt_eval_publish qos topic (length payload) \<and>
    mqtt_parse_publish bs (length bs) qos = Some (int (length bs), v) \<and>
    pb_id v = (if qos > 0 then Some pid else None) \<and>
    view bs (pb_topic v) (pb_topic_len v) = topic \<and> view bs (pb_payload v) (pb_payload_len v) = payload"
  using assms by (rule publish_read)

text \<open>A PUBLISH body falls short of the size announced in the frame header by the payload
  length rounded down to a multiple of 65536: the payload is copied with a 16-bit length. The
  sizes agree exactly for payloads below 64 KiB.\<close>

lemma mqtt_publish_size:
  assumes "length topic < 65536" and "payload_len \<le> length payload"
  shows "\<exists>bs. mqtt_format_publish qos pid topic payload payload_len = Some bs \<and>
    int (length bs) = int (mqtt_eval_publish qos topic payload_len) - int (payload_len - payload_len mod 65536) \<and>
    (length bs = mqtt_eval_publish qos topic payload_len \<longleftrightarrow> payload_len < 65536)"
proof -
  have u: "unat (word_of_nat payload_len :: u16) = payload_len mod 65536"
    by (simp add: unat_of_nat)
  have le: "payload_len mod 65536 \<le> payload_len"
    by simp
  obtain p where p: "rd_bytes payload (payload_len mod 65536) = Some p" "length p = payload_len mod 65536"
    using assms(2) le by (simp add: rd_bytes_def)
  have "mqtt_format_publish qos pid topic payload payload_len =
      Some (str_block topic @ (if qos > 0 then mqtt_put_short pid else []) @ p)"
    using put_string_eq [OF assms(1)] p u
    by (simp add: mqtt_format_publish_def mqtt_put_data_def str_block_def Let_def)
  then show ?thesis
    using p le mod_less_divisor [of 65536 payload_len]
    by (auto simp: mqtt_eval_publish_def wire_simps of_nat_diff simp del: mod_less_divisor intro: mod_less)
qed

definition view_within :: "bytes \<Rightarrow> nat \<Rightarrow> u16 \<Rightarrow> bool" where
  "view_within m k n \<longleftrightarrow> k + unat n \<le> length m"

definition announced_topic :: "bytes \<Rightarrow> nat" where
  "announced_topic body = unat (be16 (body ! 0) (body ! 1))"

lemma publish_bounds:
  assumes "2 \<le> length body" and "length body < size_bound"
  shows "if qos > 0 then
      (mqtt_parse_publish body (length body) qos = None \<longleftrightarrow> length body < 4 + announced_topic body) \<and>
      (\<forall>r v. mqtt_parse_publish body (length body) qos = Some (r, v) \<longrightarrow>
         view_within body (pb_topic v) (pb_topic_len v) \<and> view_within body (pb_payload v) (pb_payload_len v))
    else \<exists>r v. mqtt_parse_publish body (length body) qos = Some (r, v) \<and>
         (view_within body (pb_topic v) (pb_topic_len v) \<longleftrightarrow> 2 + announced_topic body \<le> length body) \<and>
         (view_within body (pb_payload v) (pb_payload_len v) \<longleftrightarrow> 2 + announced_topic body \<le> length body)"
proof -
  let ?n = "announced_topic body"
  have "rd body 0 = Some (body ! 0)" "rd body 1 = Some (body ! 1)"
    unfolding rd_def using assms(1) by auto
  then have s: "mqtt_get_string body = Some (2, be16 (body ! 0) (body ! 1), 2 + ?n)"
    by (simp add: mqtt_get_string_def mqtt_get_short_def announced_topic_def)
  have le: "unat (word_of_nat n :: u16) \<le> n" for n
    by (simp add: unat_of_nat)
  show ?thesis
  proof (cases "qos > 0")
    case True
    show ?thesis
    proof (cases "4 + ?n \<le> length body")
      case fits: True
      define hi lo where "hi = body ! (2 + ?n)" and "lo = body ! (2 + ?n + 1)"
      have "mqtt_get_short (drop (2 + ?n) body) = Some (be16 hi lo, 2)"
        using fits by (simp add: mqtt_get_short_def rd_def hi_def lo_def)
      moreover have "unat (word_of_nat (size_sub (length body) (2 + ?n + 2)) :: u16) \<le> length body - (2 + ?n + 2)"
        using le [of "length body - (2 + ?n + 2)"] fits assms(2) size_sub_le [of "2 + ?n + 2" "length body"]
        by (simp only: add.commute add.left_commute)
      ultimately show ?thesis
        using True fits
        by (auto simp: mqtt_parse_publish_def s view_within_def Let_def)
          (simp_all add: announced_topic_def)
    next
      case short: False
      then have "mqtt_get_short (drop (2 + ?n) body) = None"
        by (cases "rd (drop (2 + ?n) body) 0") (auto simp: mqtt_get_short_def rd_def split: if_splits)
      then show ?thesis
        using True short by (simp add: mqtt_parse_publish_def s Let_def)
    qed
  next
    case False
    have "unat (word_of_nat (size_sub (length body) (2 + ?n)) :: u16) \<le> length body - (2 + ?n)"
      if "2 + ?n \<le> length body"
      using le that assms(2) by (metis size_sub_le)
    then show ?thesis
      using False
      by (auto simp: mqtt_parse_publish_def s Let_def view_within_def announced_topic_def)
  qed
qed

text \<open>C29. Parsing a PUBLISH body that ends at the end of its memory and has a length that fits
  \<open>size_t\<close>: the parser reads outside the body exactly when the body is shorter than the two bytes of
  the topic's length, or, with QoS above 0, when the announced topic does not leave room for the
  packet id. When it returns, with QoS above 0 the topic and the payload it reports lie inside the
  body; with QoS 0 topic and payload lie inside the body exactly when the announced topic does.\<close>

theorem mqtt_parse_publish_bounds:
  assumes "length body < size_bound"
  shows "(mqtt_parse_publish body (length body) qos = None \<longleftrightarrow>
      length body < 2 \<or> qos > 0 \<and> length body < 4 + announced_topic body) \<and>
    (\<forall>r v. mqtt_parse_publish body (length body) qos = Some (r, v) \<longrightarrow>
      (if qos > 0 then view_within body (pb_topic v) (pb_topic_len v) \<and> view_within body (pb_payload v) (pb_payload_len v)
       else (view_within body (pb_topic v) (pb_topic_len v) \<longleftrightarrow> 2 + announced_topic body \<le> length body) \<and>
            (view_within body (pb_payload v) (pb_payload_len v) \<longleftrightarrow> 2 + announced_topic body \<le> length body)))"
proof (cases "2 \<le> length body")
  case True
  then show ?thesis
    using publish_bounds [OF True assms, of qos] by (auto split: if_splits)
next
  case False
  then have "mqtt_get_short body = None"
    by (cases body; cases "tl body") (auto simp: mqtt_get_short_def rd_def)
  then show ?thesis
    using False by (simp add: mqtt_parse_publish_def mqtt_get_string_def)
qed

theorem mqtt_parse_publish_bounds_witness:
  "mqtt_parse_publish [0, 2, 0x61, 0x62, 0] (length [0, 2, 0x61, 0x62, 0 :: byte]) 1 = None \<and>
   mqtt_parse_publish [0] (length [0 :: byte]) 0 = None \<and>
   (\<exists>r v. mqtt_parse_publish [0, 9, 0x61] (length [0, 9, 0x61 :: byte]) 0 = Some (r, v) \<and>
      \<not> view_within [0, 9, 0x61] (pb_topic v) (pb_topic_len v))"
  using mqtt_parse_publish_bounds [of "[0, 2, 0x61, 0x62, 0]" 1] mqtt_parse_publish_bounds [of "[0]" 0]
    mqtt_parse_publish_bounds [of "[0, 9, 0x61]" 0]
  by (auto simp: size_bound_def announced_topic_def be16_def)

lemma connect_size:
  assumes "length cid < 65536" and "opt_short wt" and "opt_short wm" and "opt_short user" and "opt_short pass"
  shows "\<exists>bs. mqtt_format_connect cs ka (Some cid) wt wm (word_of_nat (opt_length wm)) wr wq user pass
        (word_of_nat (opt_length pass)) = Some bs \<and>
     length bs = mqtt_eval_connect (Some cid) wt (word_of_nat (opt_length wm)) user (word_of_nat (opt_length pass)) +
       (if wm = Some [] then 2 else 0) + (if pass = Some [] then 2 else 0)"
proof -
  have "opt_str_size s = (if unat (word_of_nat (opt_length s) :: u16) > 0
      then 2 + unat (word_of_nat (opt_length s) :: u16) else 0) + (if s = Some [] then 2 else 0)"
    if "opt_short s" for s
    using that by (cases s) (auto simp: opt_str_size_def)
  note sz = this [OF assms(3)] this [OF assms(5)]
  show ?thesis
    using connect_body [OF assms(1-3) _ assms(4,5)] sz
    by (simp add: wire_simps mqtt_eval_connect_def opt_str_size_def [of "Some cid"]
        MQTT_CONNECT_VARIABLE_HEADER_SIZE_def mqtt_protocol_name_def)
qed

text \<open>The CONNECT formatter writes the number of bytes the eval function announces, plus
  two for a will message, and two for a password, that is given with length 0.\<close>

lemma mqtt_connect_size:
  assumes "length cid < 65536" and "opt_short wt" and "opt_short wm" and "opt_short user" and "opt_short pass"
  shows "\<exists>bs. mqtt_format_connect cs ka (Some cid) wt wm (word_of_nat (opt_length wm)) wr wq user pass
        (word_of_nat (opt_length pass)) = Some bs \<and>
     length bs = mqtt_eval_connect (Some cid) wt (word_of_nat (opt_length wm)) user (word_of_nat (opt_length pass)) +
       (if wm = Some [] then 2 else 0) + (if pass = Some [] then 2 else 0)"
  using assms by (rule connect_size)

end
