(* ===== verification/Websocket.thy ===== *)
theory Websocket
  imports Framing
begin

section \<open>WebSocket frames (source/websocket.c)\<close>

text \<open>
  Masking (\<open>ws_apply_mask\<close>), frame recognition (\<open>ws_parse_frame\<close>) and formatting
  (\<open>ws_format_frame\<close>). \<open>size_t\<close> sums are kept at 64 bits, because the extended payload length
  reaches \<open>2^64 - 1\<close>. \<open>ws_scan\<close> is what \<open>stream_ws_peek_frame\<close> and the frame handler
  make of the recogniser; it interprets the framing contract.
\<close>

abbreviation (input) WS_FIN_FLAG :: byte where "WS_FIN_FLAG \<equiv> 0x80"
abbreviation (input) WS_MASK_FLAG :: byte where "WS_MASK_FLAG \<equiv> 0x80"
abbreviation (input) WS_OPCODE_MSK :: byte where "WS_OPCODE_MSK \<equiv> 0x0F"
abbreviation (input) WS_PAYLOAD_LEN_MSK :: byte where "WS_PAYLOAD_LEN_MSK \<equiv> 0x7F"
abbreviation (input) WS_EXTLEN16_MARK :: nat where "WS_EXTLEN16_MARK \<equiv> 126"
abbreviation (input) WS_EXTLEN64_MARK :: nat where "WS_EXTLEN64_MARK \<equiv> 127"

definition WS_MASK_SIZE :: nat where "WS_MASK_SIZE = 4"
definition WS_EXTLEN16_SIZE :: nat where "WS_EXTLEN16_SIZE = 2"
definition WS_EXTLEN64_SIZE :: nat where "WS_EXTLEN64_SIZE = 8"
definition WS_MIN_HEADER_SIZE :: nat where "WS_MIN_HEADER_SIZE = 2"
definition WS_MAX_HEADER_SIZE :: nat where "WS_MAX_HEADER_SIZE = 14"

lemmas ws_sizes = WS_MASK_SIZE_def WS_EXTLEN16_SIZE_def WS_EXTLEN64_SIZE_def
  WS_MIN_HEADER_SIZE_def WS_MAX_HEADER_SIZE_def

record ws_frame =
  wf_fin_flag :: byte
  wf_opcode :: byte
  wf_mask_flag :: byte
  wf_payload_length :: nat
  wf_mask_offset :: nat
  wf_payload_offset :: nat

subsection \<open>Masking\<close>

function ws_apply_mask_loop :: "bytes \<Rightarrow> nat \<Rightarrow> bytes \<Rightarrow> nat \<Rightarrow> bytes option" where
  "ws_apply_mask_loop data len msk i =
     (if i < len then do {
        d \<leftarrow> rd data i;
        m \<leftarrow> rd msk (i mod WS_MASK_SIZE);
        ws_apply_mask_loop (data[i := d XOR m]) len msk (Suc i)
      } else Some data)"
  by pat_completeness auto
termination
  by (relation "measure (\<lambda>(_, len, _, i). len - i)") auto

declare ws_apply_mask_loop.simps [simp del]

definition ws_apply_mask :: "bytes \<Rightarrow> nat \<Rightarrow> bytes \<Rightarrow> bytes option" where
  "ws_apply_mask data len msk = ws_apply_mask_loop data len msk 0"

subsection \<open>Recognition and formatting\<close>

definition ws_get16 :: "bytes \<Rightarrow> nat \<Rightarrow> nat option" where
  "ws_get16 data k = do {
     a \<leftarrow> rd data k; b \<leftarrow> rd data (k + 1);
     Some (unat (push_bit 8 (ucast a) OR ucast b :: 64 word))
   }"

definition ws_get64 :: "bytes \<Rightarrow> nat \<Rightarrow> nat option" where
  "ws_get64 data k = do {
     a \<leftarrow> rd data k; b \<leftarrow> rd data (k + 1); c \<leftarrow> rd data (k + 2); d \<leftarrow> rd data (k + 3);
     e \<leftarrow> rd data (k + 4); f \<leftarrow> rd data (k + 5); g \<leftarrow> rd data (k + 6); h \<leftarrow> rd data (k + 7);
     Some (unat (push_bit 56 (ucast a) OR push_bit 48 (ucast b) OR push_bit 40 (ucast c) OR
                 push_bit 32 (ucast d) OR push_bit 24 (ucast e) OR push_bit 16 (ucast f) OR
                 push_bit 8 (ucast g) OR ucast h :: 64 word))
   }"

text \<open>
  The result is the code's boolean, the frame record and the value for \<open>*frame_length\<close>
  (stored when that pointer is not null).
\<close>

definition ws_parse_frame :: "ws_frame \<Rightarrow> bytes \<Rightarrow> nat \<Rightarrow> (bool \<times> ws_frame \<times> nat) option" where
  "ws_parse_frame frame data len =
     (if len < WS_MIN_HEADER_SIZE then Some (False, frame, WS_MIN_HEADER_SIZE)
      else do {
        b0 \<leftarrow> rd data 0;
        b1 \<leftarrow> rd data 1;
        let frame = frame\<lparr>wf_mask_offset := WS_MIN_HEADER_SIZE, wf_payload_offset := WS_MIN_HEADER_SIZE,
                      wf_fin_flag := (if b0 AND WS_FIN_FLAG = WS_FIN_FLAG then 1 else 0),
                      wf_mask_flag := (if b1 AND WS_MASK_FLAG = WS_MASK_FLAG then 1 else 0)\<rparr>;
        let expected = WS_MIN_HEADER_SIZE;
        let (expected, frame) =
          (if wf_mask_flag frame \<noteq> 0
           then (expected + WS_MASK_SIZE,
                 frame\<lparr>wf_payload_offset := wf_payload_offset frame + WS_MASK_SIZE\<rparr>)
           else (expected, frame));
        let frame = frame\<lparr>wf_opcode := b0 AND WS_OPCODE_MSK,
                      wf_payload_length := unat (b1 AND WS_PAYLOAD_LEN_MSK)\<rparr>;
        let ext = (if wf_payload_length frame = WS_EXTLEN16_MARK then WS_EXTLEN16_SIZE
                   else if wf_payload_length frame = WS_EXTLEN64_MARK then WS_EXTLEN64_SIZE else 0);
        let expected = expected + ext;
        let frame = frame\<lparr>wf_payload_offset := wf_payload_offset frame + ext,
                      wf_mask_offset := wf_mask_offset frame + ext\<rparr>;
        if len < expected then Some (False, frame, expected)
        else do {
          pl \<leftarrow> (if wf_payload_length frame = WS_EXTLEN16_MARK then ws_get16 data 2
                else if wf_payload_length frame = WS_EXTLEN64_MARK then ws_get64 data 2
                else Some (wf_payload_length frame));
          let frame = frame\<lparr>wf_payload_length := pl\<rparr>;
          let expected = size_add expected pl;
          Some (\<not> len < expected, frame, expected)
        }
      })"

definition ws_put16 :: "64 word \<Rightarrow> bytes" where
  "ws_put16 l = [ucast (drop_bit 8 l AND 0xFF), ucast (l AND 0xFF)]"

definition ws_put64 :: "64 word \<Rightarrow> bytes" where
  "ws_put64 l = [ucast (drop_bit 56 l AND 0xFF), ucast (drop_bit 48 l AND 0xFF),
                 ucast (drop_bit 40 l AND 0xFF), ucast (drop_bit 32 l AND 0xFF),
                 ucast (drop_bit 24 l AND 0xFF), ucast (drop_bit 16 l AND 0xFF),
                 ucast (drop_bit 8 l AND 0xFF), ucast (l AND 0xFF)]"

definition ws_format_frame :: "byte \<Rightarrow> bytes option \<Rightarrow> bytes \<Rightarrow> nat \<Rightarrow> bytes option" where
  "ws_format_frame flags msk data len = do {
     let mask_flag = (if msk \<noteq> None then WS_MASK_FLAG else 0);
     let size = (if len > 0xFFFF then (word_of_nat WS_EXTLEN64_MARK OR mask_flag) # ws_put64 (word_of_nat len)
                 else if len \<ge> 126 then (word_of_nat WS_EXTLEN16_MARK OR mask_flag) # ws_put16 (word_of_nat len)
                 else [word_of_nat len OR mask_flag]);
     m \<leftarrow> (case msk of None \<Rightarrow> Some [] | Some msk \<Rightarrow> rd_bytes msk WS_MASK_SIZE);
     payload \<leftarrow> (if len > 0 then do {
         d \<leftarrow> rd_bytes data len;
         case msk of None \<Rightarrow> Some d | Some msk \<Rightarrow> ws_apply_mask d len msk
       } else Some []);
     Some (flags # size @ m @ payload)
   }"

subsection \<open>Masking is a bytewise XOR with the repeated mask, and its own inverse\<close>

definition ws_masked :: "bytes \<Rightarrow> bytes \<Rightarrow> bytes" where
  "ws_masked msk xs = map (\<lambda>i. xs ! i XOR msk ! (i mod WS_MASK_SIZE)) [0..<length xs]"

lemma length_ws_masked [simp]: "length (ws_masked msk xs) = length xs"
  by (simp add: ws_masked_def)

lemma nth_ws_masked [simp]:
  "i < length xs \<Longrightarrow> ws_masked msk xs ! i = xs ! i XOR msk ! (i mod WS_MASK_SIZE)"
  by (simp add: ws_masked_def)

lemma ws_masked_masked [simp]: "ws_masked msk (ws_masked msk xs) = xs"
  by (rule nth_equalityI) (simp_all add: xor.assoc)

lemma ws_apply_mask_loop_eq:
  assumes "len \<le> length data" and "WS_MASK_SIZE \<le> length msk" and "i \<le> len"
  shows "\<exists>r. ws_apply_mask_loop data len msk i = Some r \<and> length r = length data \<and>
    (\<forall>j < length data. r ! j = (if i \<le> j \<and> j < len then data ! j XOR msk ! (j mod WS_MASK_SIZE) else data ! j))"
  using assms
proof (induction data len msk i rule: ws_apply_mask_loop.induct)
  case (1 data len msk i)
  show ?case
  proof (cases "i < len")
    case True
    have rd: "rd data i = Some (data ! i)" "rd msk (i mod WS_MASK_SIZE) = Some (msk ! (i mod WS_MASK_SIZE))"
      using True "1.prems" mod_less_divisor [of WS_MASK_SIZE i] by (simp_all add: rd_def WS_MASK_SIZE_def)
    let ?data = "data[i := data ! i XOR msk ! (i mod WS_MASK_SIZE)]"
    obtain r where r: "ws_apply_mask_loop ?data len msk (Suc i) = Some r" "length r = length ?data"
      and nth: "\<forall>j < length ?data. r ! j =
        (if Suc i \<le> j \<and> j < len then ?data ! j XOR msk ! (j mod WS_MASK_SIZE) else ?data ! j)"
      using "1.IH" [OF True rd] "1.prems" True by auto
    have "ws_apply_mask_loop data len msk i = Some r"
      using True rd r by (subst ws_apply_mask_loop.simps) simp
    moreover have "r ! j = (if i \<le> j \<and> j < len then data ! j XOR msk ! (j mod WS_MASK_SIZE) else data ! j)"
      if "j < length data" for j
      using nth that True by (cases "j = i") (auto simp: nth_list_update)
    ultimately show ?thesis
      using r by simp
  next
    case False
    then show ?thesis
      by (subst ws_apply_mask_loop.simps) auto
  qed
qed

lemma ws_apply_mask_eq:
  assumes "len \<le> length data" and "WS_MASK_SIZE \<le> length msk"
  shows "ws_apply_mask data len msk = Some (ws_masked msk (take len data) @ drop len data)"
proof -
  obtain r where r: "ws_apply_mask data len msk = Some r" "length r = length data"
    and nth: "\<forall>j < length data. r ! j = (if 0 \<le> j \<and> j < len then data ! j XOR msk ! (j mod WS_MASK_SIZE) else data ! j)"
    using ws_apply_mask_loop_eq [OF assms, of 0] by (auto simp: ws_apply_mask_def)
  have "r = ws_masked msk (take len data) @ drop len data"
    using assms(1) r(2) nth by (intro nth_equalityI) (auto simp: nth_append)
  then show ?thesis
    using r(1) by simp
qed


subsection \<open>Extended payload lengths\<close>

lemma byte_mask: "(0xFF :: 'a::len word) = mask 8"
  by (simp add: mask_eq_exp_minus_1)

lemma put_piece:
  fixes l :: "64 word"
  assumes "k < 64"
  shows "bit (push_bit m (ucast (ucast (drop_bit m l AND 0xFF) :: byte)) :: 64 word) k \<longleftrightarrow>
      m \<le> k \<and> k < m + 8 \<and> bit l k"
    and "bit (ucast (ucast (l AND 0xFF) :: byte) :: 64 word) k \<longleftrightarrow> k < 8 \<and> bit l k"
  using assms unfolding byte_mask by (auto simp: bit_simps)

lemma put16_get16:
  fixes l :: "64 word"
  shows "push_bit 8 (ucast (ucast (drop_bit 8 l AND 0xFF) :: byte)) OR ucast (ucast (l AND 0xFF) :: byte) =
    take_bit 16 l" (is "?r = _")
proof (rule bit_word_eqI)
  fix k assume k: "k < LENGTH(64)"
  then show "bit ?r k = bit (take_bit 16 l) k"
    unfolding bit_or_iff bit_take_bit_iff using put_piece [of k] by auto
qed

lemma ws_get16_put:
  assumes "n \<le> 0xFFFF"
  shows "ws_get16 (x # y # ws_put16 (word_of_nat n) @ r) 2 = Some n"
proof -
  let ?l = "word_of_nat n :: 64 word"
  have u: "unat ?l = n"
    using assms by (simp add: unat_of_nat)
  then have "uint ?l < 2 ^ 16"
    using assms by (simp add: uint_nat)
  then have "take_bit 16 ?l = ?l"
    by (simp only: take_bit_eq_mask mask_eq_iff)
  then show ?thesis
    using u put16_get16 [of ?l] by (simp add: ws_get16_def ws_put16_def)
qed

lemma put64_get64:
  fixes l :: "64 word"
  shows "push_bit 56 (ucast (ucast (drop_bit 56 l AND 0xFF) :: byte)) OR
    push_bit 48 (ucast (ucast (drop_bit 48 l AND 0xFF) :: byte)) OR
    push_bit 40 (ucast (ucast (drop_bit 40 l AND 0xFF) :: byte)) OR
    push_bit 32 (ucast (ucast (drop_bit 32 l AND 0xFF) :: byte)) OR
    push_bit 24 (ucast (ucast (drop_bit 24 l AND 0xFF) :: byte)) OR
    push_bit 16 (ucast (ucast (drop_bit 16 l AND 0xFF) :: byte)) OR
    push_bit 8 (ucast (ucast (drop_bit 8 l AND 0xFF) :: byte)) OR
    ucast (ucast (l AND 0xFF) :: byte) = l" (is "?r = l")
proof (rule bit_word_eqI)
  fix k assume k: "k < LENGTH(64)"
  show "bit ?r k = bit l k"
    unfolding bit_or_iff using k put_piece [of k] by auto
qed

lemma ws_get64_put:
  assumes "n < size_bound"
  shows "ws_get64 (x # y # ws_put64 (word_of_nat n) @ r) 2 = Some n"
proof -
  have "unat (word_of_nat n :: 64 word) = n"
    using assms by (simp add: unat_of_nat size_bound_def)
  then show ?thesis
    by (simp add: ws_get64_def ws_put64_def put64_get64)
qed


subsection \<open>Frame recognition as a scanner\<close>

definition ws_ext :: "nat \<Rightarrow> nat" where
  "ws_ext l = (if l = WS_EXTLEN16_MARK then WS_EXTLEN16_SIZE
               else if l = WS_EXTLEN64_MARK then WS_EXTLEN64_SIZE else 0)"

definition ws_len7 :: "bytes \<Rightarrow> nat" where
  "ws_len7 b = unat (b ! 1 AND WS_PAYLOAD_LEN_MSK)"

definition ws_is_masked :: "bytes \<Rightarrow> bool" where
  "ws_is_masked b \<longleftrightarrow> b ! 1 AND WS_MASK_FLAG = WS_MASK_FLAG"

definition ws_header_size :: "bytes \<Rightarrow> nat" where
  "ws_header_size b = WS_MIN_HEADER_SIZE + (if ws_is_masked b then WS_MASK_SIZE else 0) + ws_ext (ws_len7 b)"

definition ws_announced :: "bytes \<Rightarrow> nat option" where
  "ws_announced b = (if ws_len7 b = WS_EXTLEN16_MARK then ws_get16 b 2
     else if ws_len7 b = WS_EXTLEN64_MARK then ws_get64 b 2 else Some (ws_len7 b))"

text \<open>What the header says, as the record the code fills in.\<close>

definition ws_header :: "bytes \<Rightarrow> nat \<Rightarrow> ws_frame" where
  "ws_header b pl = \<lparr>wf_fin_flag = (if b ! 0 AND WS_FIN_FLAG = WS_FIN_FLAG then 1 else 0),
     wf_opcode = b ! 0 AND WS_OPCODE_MSK, wf_mask_flag = (if ws_is_masked b then 1 else 0),
     wf_payload_length = pl, wf_mask_offset = WS_MIN_HEADER_SIZE + ws_ext (ws_len7 b),
     wf_payload_offset = ws_header_size b\<rparr>"

lemma ws_get_bounds:
  "ws_get16 b k = Some x \<Longrightarrow> k + 2 \<le> length b"
  "ws_get64 b k = Some x \<Longrightarrow> k + 8 \<le> length b"
  by (auto simp: ws_get16_def ws_get64_def Option.bind_eq_Some_conv dest: rd_SomeD)

lemma ws_get_prefix:
  assumes "k + 2 \<le> length b"
  shows "ws_get16 (b @ c) k = ws_get16 b k"
    and "k + 8 \<le> length b \<Longrightarrow> ws_get64 (b @ c) k = ws_get64 b k"
  using assms by (simp_all add: ws_get16_def ws_get64_def nth_append)

lemma ws_get_extend:
  "ws_get16 b k = Some x \<Longrightarrow> ws_get16 (b @ c) k = Some x"
  "ws_get64 b k = Some x \<Longrightarrow> ws_get64 (b @ c) k = Some x"
  using ws_get_bounds [of b k x] ws_get_prefix [of k b c] by auto

lemma ws_get_total:
  "k + 2 \<le> length b \<Longrightarrow> \<exists>x. ws_get16 b k = Some x"
  "k + 8 \<le> length b \<Longrightarrow> \<exists>x. ws_get64 b k = Some x"
  by (simp_all add: ws_get16_def ws_get64_def)

lemma ws_announced_total:
  assumes "ws_header_size b \<le> length b"
  shows "\<exists>pl. ws_announced b = Some pl"
  using assms ws_get_total [of 2 b]
  by (auto simp: ws_announced_def ws_header_size_def ws_ext_def ws_sizes split: if_splits)

lemma ws_announced_bound: "ws_announced b = Some pl \<Longrightarrow> pl < size_bound"
proof -
  have "unat (w :: 64 word) < size_bound" for w
    using unsigned_less [of w, where ?'a = nat] by (simp add: size_bound_def)
  moreover have "ws_len7 b < size_bound"
    using unsigned_less [of "b ! 1 AND WS_PAYLOAD_LEN_MSK", where ?'a = nat] by (simp add: ws_len7_def size_bound_def)
  ultimately show "ws_announced b = Some pl \<Longrightarrow> pl < size_bound"
    by (auto simp: ws_announced_def ws_get16_def ws_get64_def Option.bind_eq_Some_conv split: if_splits)
qed

lemma ws_header_prefix:
  assumes "2 \<le> length b"
  shows "ws_len7 (b @ c) = ws_len7 b" "ws_is_masked (b @ c) = ws_is_masked b"
    "ws_header_size (b @ c) = ws_header_size b"
    "ws_announced b = Some pl \<Longrightarrow> ws_announced (b @ c) = Some pl"
    "ws_header (b @ c) pl = ws_header b pl"
proof -
  have "(b @ c) ! 0 = b ! 0" "(b @ c) ! 1 = b ! 1"
    unfolding nth_append using assms by auto
  then show "ws_len7 (b @ c) = ws_len7 b" "ws_is_masked (b @ c) = ws_is_masked b"
    "ws_header_size (b @ c) = ws_header_size b"
    "ws_announced b = Some pl \<Longrightarrow> ws_announced (b @ c) = Some pl"
    "ws_header (b @ c) pl = ws_header b pl"
    by (auto simp: ws_len7_def ws_is_masked_def ws_header_size_def ws_announced_def ws_header_def
        ws_get_extend split: if_splits)
qed

lemma ws_parse_frame_short:
  assumes "2 \<le> len" "len \<le> length b" "len < ws_header_size b"
  shows "\<exists>f. ws_parse_frame f0 b len = Some (False, f, ws_header_size b)"
proof -
  have "rd b 0 = Some (b ! 0)" "rd b 1 = Some (b ! 1)"
    unfolding rd_def using assms by auto
  then show ?thesis
    using assms
    by (auto simp: ws_parse_frame_def ws_header_size_def ws_len7_def ws_is_masked_def ws_ext_def Let_def
        ws_sizes split: if_splits)
qed

lemma ws_parse_frame_full:
  assumes "len \<le> length b" "ws_header_size b \<le> len" "ws_announced b = Some pl"
  shows "ws_parse_frame f0 b len =
    Some (size_add (ws_header_size b) pl \<le> len, ws_header b pl, size_add (ws_header_size b) pl)"
proof -
  have "2 \<le> len"
    using assms(2) by (simp add: ws_header_size_def ws_sizes)
  then have "rd b 0 = Some (b ! 0)" "rd b 1 = Some (b ! 1)" "\<not> len < WS_MIN_HEADER_SIZE"
    unfolding rd_def using assms(1) by (auto simp: ws_sizes)
  then show ?thesis
    using assms(2,3)
    by (auto simp: ws_parse_frame_def ws_header_size_def ws_len7_def ws_is_masked_def ws_ext_def Let_def
        ws_announced_def ws_header_def not_less)
qed

record ws_message =
  ws_fin :: bool
  ws_opcode :: byte
  ws_mask :: "bytes option"
  ws_payload :: bytes

text \<open>
  A frame with its payload unmasked, as the frame handler takes it from the buffer. A header
  whose 64-bit length sends the end of the frame past \<open>2^64\<close> is rejected here, though the code
  accepts it: theorem \<open>ws_parse_frame_bounds\<close>.
\<close>

definition ws_scan :: "bytes \<Rightarrow> ws_message scan" where
  "ws_scan b =
     (case ws_parse_frame \<lparr>wf_fin_flag = 0, wf_opcode = 0, wf_mask_flag = 0, wf_payload_length = 0,
             wf_mask_offset = 0, wf_payload_offset = 0\<rparr> b (length b) of
        None \<Rightarrow> Bad
      | Some (ok, f, n) \<Rightarrow>
          if \<not> ok then Need_more
          else if size_bound \<le> wf_payload_offset f + wf_payload_length f then Bad
          else let p = take (wf_payload_length f) (drop (wf_payload_offset f) b);
                   m = take WS_MASK_SIZE (drop (wf_mask_offset f) b)
               in if wf_mask_flag f \<noteq> 0
                  then Frame \<lparr>ws_fin = wf_fin_flag f \<noteq> 0, ws_opcode = wf_opcode f, ws_mask = Some m,
                              ws_payload = ws_masked m p\<rparr> n
                  else Frame \<lparr>ws_fin = wf_fin_flag f \<noteq> 0, ws_opcode = wf_opcode f, ws_mask = None,
                              ws_payload = p\<rparr> n)"

definition ws_content :: "bytes \<Rightarrow> nat \<Rightarrow> ws_message" where
  "ws_content b pl =
     (let p = take pl (drop (ws_header_size b) b);
          m = take WS_MASK_SIZE (drop (WS_MIN_HEADER_SIZE + ws_ext (ws_len7 b)) b)
      in \<lparr>ws_fin = (b ! 0 AND WS_FIN_FLAG = WS_FIN_FLAG), ws_opcode = b ! 0 AND WS_OPCODE_MSK,
          ws_mask = (if ws_is_masked b then Some m else None),
          ws_payload = (if ws_is_masked b then ws_masked m p else p)\<rparr>)"

lemma ws_scan_cases:
  obtains (short) "length b < 2" "ws_scan b = Need_more"
    | (header) "2 \<le> length b" "length b < ws_header_size b" "ws_scan b = Need_more"
    | (body) pl where "2 \<le> length b" "ws_header_size b \<le> length b" "ws_announced b = Some pl" "pl < size_bound"
        "ws_scan b = (if length b < size_add (ws_header_size b) pl then Need_more
          else if size_bound \<le> ws_header_size b + pl then Bad
          else Frame (ws_content b pl) (ws_header_size b + pl))"
proof -
  consider "length b < 2" | "2 \<le> length b" "length b < ws_header_size b"
    | "2 \<le> length b" "ws_header_size b \<le> length b"
    by linarith
  then show ?thesis
  proof cases
    case 1
    then show ?thesis
      by (intro short) (simp_all add: ws_scan_def ws_parse_frame_def ws_sizes)
  next
    case 2
    then show ?thesis
      using ws_parse_frame_short [OF 2(1) order.refl 2(2), of "\<lparr>wf_fin_flag = 0, wf_opcode = 0,
          wf_mask_flag = 0, wf_payload_length = 0, wf_mask_offset = 0, wf_payload_offset = 0\<rparr>"]
      by (intro header) (auto simp: ws_scan_def)
  next
    case 3
    then obtain pl where pl: "ws_announced b = Some pl" "pl < size_bound"
      using ws_announced_total ws_announced_bound by blast
    show ?thesis
      using 3 pl ws_parse_frame_full [OF order.refl 3(2) pl(1)]
      by (intro body [OF 3 pl]) (auto simp: ws_scan_def ws_header_def ws_content_def Let_def)
  qed
qed


subsection \<open>The codec\<close>

definition ws_flags :: "ws_message \<Rightarrow> byte" where
  "ws_flags m = (if ws_fin m then WS_FIN_FLAG else 0) OR ws_opcode m"

definition ws_enc :: "ws_message \<Rightarrow> bytes" where
  "ws_enc m = (case ws_format_frame (ws_flags m) (ws_mask m) (ws_payload m) (length (ws_payload m)) of
     Some b \<Rightarrow> b | None \<Rightarrow> [])"

definition ws_valid :: "ws_message \<Rightarrow> bool" where
  "ws_valid m \<longleftrightarrow> ws_opcode m < 16 \<and> pred_option (\<lambda>k. length k = WS_MASK_SIZE) (ws_mask m) \<and>
     length (ws_payload m) + WS_MAX_HEADER_SIZE < size_bound"

definition ws_size_field :: "bool \<Rightarrow> nat \<Rightarrow> bytes" where
  "ws_size_field masked n =
     (let flag = (if masked then WS_MASK_FLAG else 0) in
      if n > 0xFFFF then (word_of_nat WS_EXTLEN64_MARK OR flag) # ws_put64 (word_of_nat n)
      else if n \<ge> 126 then (word_of_nat WS_EXTLEN16_MARK OR flag) # ws_put16 (word_of_nat n)
      else [word_of_nat n OR flag])"

definition ws_wire :: "ws_message \<Rightarrow> bytes" where
  "ws_wire m = ws_flags m # ws_size_field (ws_mask m \<noteq> None) (length (ws_payload m)) @
     (case ws_mask m of None \<Rightarrow> ws_payload m | Some k \<Rightarrow> k @ ws_masked k (ws_payload m))"

lemma ws_format_frame_wire:
  assumes "ws_valid m"
  shows "ws_format_frame (ws_flags m) (ws_mask m) (ws_payload m) (length (ws_payload m)) = Some (ws_wire m)"
proof (cases "ws_mask m")
  case None
  then show ?thesis
    by (auto simp: ws_format_frame_def ws_wire_def ws_size_field_def Let_def)
next
  case (Some k)
  then have k: "length k = WS_MASK_SIZE"
    using assms by (simp add: ws_valid_def)
  then have "rd_bytes k WS_MASK_SIZE = Some k"
    by (metis rd_bytes_all)
  moreover have "ws_apply_mask (ws_payload m) (length (ws_payload m)) k = Some (ws_masked k (ws_payload m))"
    using ws_apply_mask_eq [of "length (ws_payload m)" "ws_payload m" k] k by simp
  ultimately show ?thesis
    using Some by (auto simp: ws_format_frame_def ws_wire_def ws_size_field_def ws_masked_def Let_def)
qed

lemma ws_enc_wire: "ws_valid m \<Longrightarrow> ws_enc m = ws_wire m"
  by (simp add: ws_enc_def ws_format_frame_wire)

lemma and_128: "(y :: byte) AND 128 = 128 \<longleftrightarrow> y AND 128 \<noteq> 0"
proof -
  have b: "bit (128 :: byte) n \<longleftrightarrow> n = 7" for n
    using bit_exp_iff [where 'a = "8 word", of 7 n] by auto
  have c: "bit (y AND 128) n \<longleftrightarrow> n = 7 \<and> bit y 7" for n
    unfolding bit_and_iff b by blast
  show ?thesis
  proof (cases "bit y 7")
    case True
    have "y AND 128 = 128"
      by (rule bit_word_eqI) (unfold b c, use True in simp)
    then show ?thesis by simp
  next
    case False
    have "y AND 128 = 0"
      by (rule bit_word_eqI) (unfold c, use False in simp)
    then show ?thesis by simp
  qed
qed

lemma ws_size_byte:
  assumes "n < 128"
  shows "unat ((word_of_nat n OR (if k then WS_MASK_FLAG else 0)) AND WS_PAYLOAD_LEN_MSK) = n"
    and "((word_of_nat n OR (if k then WS_MASK_FLAG else 0)) AND WS_MASK_FLAG = WS_MASK_FLAG) = k"
proof -
  have u: "unat (word_of_nat n :: byte) = n"
    using assms by (simp add: unat_of_nat)
  then have "uint (word_of_nat n :: byte) < 2 ^ 7"
    using assms by (simp add: uint_nat)
  then have "take_bit 7 (word_of_nat n :: byte) = word_of_nat n"
    by (simp only: take_bit_eq_mask mask_eq_iff)
  note low = low7_digit [OF this]
  show "unat ((word_of_nat n OR (if k then WS_MASK_FLAG else 0)) AND WS_PAYLOAD_LEN_MSK) = n"
    using low u by (cases k) simp_all
  show "((word_of_nat n OR (if k then WS_MASK_FLAG else 0)) AND WS_MASK_FLAG = WS_MASK_FLAG) = k"
    unfolding and_128 using low by (cases k) simp_all
qed

lemma ws_flags_read:
  assumes "ws_opcode m < 16"
  shows "ws_flags m AND WS_OPCODE_MSK = ws_opcode m" and "(ws_flags m AND WS_FIN_FLAG = WS_FIN_FLAG) = ws_fin m"
proof -
  have "uint (ws_opcode m) < 2 ^ 4"
    using assms by (simp add: word_less_def)
  then have op: "ws_opcode m AND 15 = ws_opcode m"
    using mask_eq_iff [of "ws_opcode m" 4] by (simp add: mask_eq_exp_minus_1)
  have "uint (ws_opcode m) < 2 ^ 7"
    using assms by (simp add: word_less_def)
  then have "take_bit 7 (ws_opcode m) = ws_opcode m"
    by (simp only: take_bit_eq_mask mask_eq_iff)
  note low = low7_digit [OF this]
  show "ws_flags m AND WS_OPCODE_MSK = ws_opcode m"
    using op by (simp add: ws_flags_def bit.conj_disj_distrib2)
  show "(ws_flags m AND WS_FIN_FLAG = WS_FIN_FLAG) = ws_fin m"
    unfolding and_128 using low by (simp add: ws_flags_def or.commute)
qed

lemma ws_size_field_read:
  fixes n :: nat and k :: bool and x :: byte and r :: bytes
  defines "b \<equiv> x # ws_size_field k n @ r"
  assumes "n < size_bound"
  shows "ws_is_masked b = k" "ws_announced b = Some n"
    "WS_MIN_HEADER_SIZE + ws_ext (ws_len7 b) = 1 + length (ws_size_field k n)"
    "ws_header_size b = 1 + length (ws_size_field k n) + (if k then WS_MASK_SIZE else 0)"
proof -
  consider "n > 0xFFFF" | "126 \<le> n" "n \<le> 0xFFFF" | "n < 126" by linarith
  then have "ws_is_masked b = k \<and> ws_announced b = Some n \<and>
    WS_MIN_HEADER_SIZE + ws_ext (ws_len7 b) = 1 + length (ws_size_field k n)"
  proof cases
    case 1
    note sz = ws_size_byte [of 127 k]
    show ?thesis
      using 1 assms(2) sz ws_get64_put [of n x "word_of_nat 127 OR (if k then 128 else 0)" r]
      by (simp add: b_def ws_size_field_def ws_is_masked_def ws_announced_def ws_len7_def ws_ext_def
          ws_sizes ws_put64_def Let_def)
  next
    case 2
    note sz = ws_size_byte [of 126 k]
    show ?thesis
      using 2 sz ws_get16_put [of n x "word_of_nat 126 OR (if k then 128 else 0)" r]
      by (simp add: b_def ws_size_field_def ws_is_masked_def ws_announced_def ws_len7_def ws_ext_def
          ws_sizes ws_put16_def Let_def)
  next
    case 3
    then show ?thesis
      using ws_size_byte [of n k]
      by (simp add: b_def ws_size_field_def ws_is_masked_def ws_announced_def ws_len7_def ws_ext_def
          ws_sizes Let_def)
  qed
  then show "ws_is_masked b = k" "ws_announced b = Some n"
    "WS_MIN_HEADER_SIZE + ws_ext (ws_len7 b) = 1 + length (ws_size_field k n)"
    "ws_header_size b = 1 + length (ws_size_field k n) + (if k then WS_MASK_SIZE else 0)"
    by (simp_all add: ws_header_size_def)
qed


lemma ws_size_field_length: "length (ws_size_field k n) \<le> 9"
  by (simp add: ws_size_field_def ws_put64_def ws_put16_def Let_def)

lemma ws_scan_wire:
  assumes "ws_valid m"
  shows "ws_scan (ws_wire m) = Frame m (length (ws_wire m))"
proof -
  define n where "n = length (ws_payload m)"
  define k where "k = (ws_mask m \<noteq> None)"
  define r where "r = (case ws_mask m of None \<Rightarrow> ws_payload m | Some k \<Rightarrow> k @ ws_masked k (ws_payload m))"
  define b where "b = ws_flags m # ws_size_field k n @ r"
  have v: "ws_opcode m < 16" "n + WS_MAX_HEADER_SIZE < size_bound"
    and vk: "\<And>x. ws_mask m = Some x \<Longrightarrow> length x = WS_MASK_SIZE"
    using assms by (simp_all add: ws_valid_def n_def)
  then have nb: "n < size_bound" by simp
  have w: "ws_wire m = b"
    by (simp add: ws_wire_def b_def n_def k_def r_def)
  note h = ws_size_field_read [OF nb, of "ws_flags m" k r, folded b_def]
  have lr: "length r = n + (if k then WS_MASK_SIZE else 0)"
    using vk by (auto simp: r_def k_def n_def split: option.split)
  have len: "length b = ws_header_size b + n"
    using h(4) lr by (simp add: b_def)
  have hs: "ws_header_size b + n < size_bound"
    using h(4) v(2) ws_size_field_length [of k n] by (cases k) (simp_all add: ws_sizes)
  have two: "\<not> length b < 2"
    using len by (simp add: ws_header_size_def ws_sizes)
  have b0: "b ! 0 = ws_flags m"
    by (simp add: b_def)
  have d: "drop (1 + length (ws_size_field k n)) b = r"
    by (simp add: b_def)
  have "ws_content b n = m"
  proof (cases "ws_mask m")
    case None
    then have "drop (ws_header_size b) b = ws_payload m"
      using h(4) d by (simp add: k_def r_def)
    then show ?thesis
      using None h(1) ws_flags_read [OF v(1)] b0 by (simp add: ws_content_def k_def n_def Let_def)
  next
    case (Some x)
    have "drop (ws_header_size b) b = drop WS_MASK_SIZE (drop (1 + length (ws_size_field k n)) b)"
      using h(4) Some by (simp add: k_def drop_drop add.commute)
    then have "drop (ws_header_size b) b = ws_masked x (ws_payload m)"
      using Some vk [OF Some] by (simp only: d) (simp add: r_def)
    moreover have "take WS_MASK_SIZE (drop (WS_MIN_HEADER_SIZE + ws_ext (ws_len7 b)) b) = x"
      using Some vk [OF Some] by (simp only: h(3) d) (simp add: r_def)
    ultimately show ?thesis
      using Some h(1) ws_flags_read [OF v(1)] b0 by (simp add: ws_content_def k_def n_def Let_def)
  qed
  then show ?thesis
    using two h(2) len hs w by (cases b rule: ws_scan_cases) simp_all
qed

interpretation ws: framing_codec ws_scan ws_enc ws_valid
proof unfold_locales
  fix b c f n
  assume fr: "ws_scan b = Frame f n"
  show "0 < n \<and> n \<le> length b"
    using fr by (cases b rule: ws_scan_cases) (auto simp: ws_header_size_def ws_sizes split: if_splits)
  show "ws_scan (b @ c) = Frame f n"
  proof (cases b rule: ws_scan_cases)
    case (body pl)
    note h = ws_header_prefix [OF body(1), where c = c]
    have ok: "ws_header_size b + pl < size_bound" "ws_header_size b + pl \<le> length b"
      "f = ws_content b pl" "n = ws_header_size b + pl"
      using fr body(5) by (auto split: if_splits)
    have le: "WS_MIN_HEADER_SIZE + ws_ext (ws_len7 b) + (if ws_is_masked b then WS_MASK_SIZE else 0) \<le> length b"
      using body(2) by (simp add: ws_header_size_def add.commute add.left_commute)
    have "(b @ c) ! 0 = b ! 0"
      unfolding nth_append using body(1) by auto
    then have "ws_content (b @ c) pl = ws_content b pl"
      using le ok(2) h(1-3) by (auto simp: ws_content_def Let_def)
    then show ?thesis
      using body h ok by (cases "b @ c" rule: ws_scan_cases) simp_all
  qed (use fr in simp_all)
next
  fix b c
  assume bad: "ws_scan b = Bad"
  show "ws_scan (b @ c) = Bad"
  proof (cases b rule: ws_scan_cases)
    case (body pl)
    note h = ws_header_prefix [OF body(1), where c = c]
    show ?thesis
      using bad body h by (cases "b @ c" rule: ws_scan_cases) (auto split: if_splits)
  qed (use bad in simp_all)
next
  fix m
  assume v: "ws_valid m"
  show "ws_scan (ws_enc m) = Frame m (length (ws_enc m))"
    using ws_scan_wire [OF v] ws_enc_wire [OF v] by simp
qed

subsection \<open>Properties\<close>

text \<open>C3. WebSocket reassembly: frames written by the formatter, masked or not, with payloads of
  any length and followed by a part of another frame, cut into chunks at any positions and fed
  to the recogniser chunk by chunk, come out with their FIN flags, opcodes, masks and unmasked
  payloads, in order, and the partial frame stays in the buffer.\<close>

theorem ws_frames_reassembled:
  assumes "\<forall>m \<in> set ms. ws_valid m"
    and "map (\<lambda>m. ws_format_frame (ws_flags m) (ws_mask m) (ws_payload m) (length (ws_payload m))) ms = map Some wires"
    and "concat chunks = concat wires @ take k (ws_enc g)" and "ws_valid g" and "k < length (ws_enc g)"
  shows "foldl (feed ws_scan) ([], []) chunks = (ms, take k (ws_enc g))"
proof -
  have "map Some wires = map Some (map ws_enc ms)"
    unfolding assms(2) [symmetric] using assms(1) ws_format_frame_wire ws_enc_wire by auto
  then have "wires = map ws_enc ms"
    by (simp only: inj_map_eq_map inj_Some)
  moreover have "\<exists>f q. ws_valid f \<and> ws_enc f = take k (ws_enc g) @ q \<and> q \<noteq> []"
    using assms(4,5) by (intro exI [of _ g] exI [of _ "drop k (ws_enc g)"]) simp
  ultimately show ?thesis
    using assms(1,3) by (intro ws.reassembly) auto
qed

theorem ws_frames_reassembled_witness:
  "foldl (feed ws_scan) ([], []) [[0x81, 0x82, 1, 2], [3, 4, 0x49, 0x6B, 0x82], []] =
     ([\<lparr>ws_fin = True, ws_opcode = 1, ws_mask = Some [1, 2, 3, 4], ws_payload = [0x48, 0x69]\<rparr>], [0x82])"
  using ws_frames_reassembled
    [of "[\<lparr>ws_fin = True, ws_opcode = 1, ws_mask = Some [1, 2, 3, 4], ws_payload = [0x48, 0x69]\<rparr>]"
        "[[0x81, 0x82, 1, 2, 3, 4, 0x49, 0x6B]]" "[[0x81, 0x82, 1, 2], [3, 4, 0x49, 0x6B, 0x82], []]" 1
        "\<lparr>ws_fin = True, ws_opcode = 2, ws_mask = None, ws_payload = []\<rparr>"]
  by (simp add: ws_valid_def ws_enc_def ws_flags_def ws_format_frame_def ws_apply_mask_def
      ws_apply_mask_loop.simps rd_bytes_def ws_sizes size_bound_def Let_def)

text \<open>Masking works in place on exactly the first len bytes and is its own inverse: masking
  twice with the same four-byte mask restores the data.\<close>

lemma ws_mask_involution:
  assumes "len \<le> length data" and "length key = WS_MASK_SIZE"
  shows "\<exists>masked. ws_apply_mask data len key = Some masked \<and> length masked = length data \<and>
    drop len masked = drop len data \<and> ws_apply_mask masked len key = Some data"
proof -
  let ?m = "ws_masked key (take len data) @ drop len data"
  have "ws_apply_mask data len key = Some ?m"
    using ws_apply_mask_eq [of len data key] assms by simp
  moreover have "ws_apply_mask ?m len key = Some data"
    using ws_apply_mask_eq [of len ?m key] assms by simp
  ultimately show ?thesis
    using assms by (intro exI [of _ ?m]) simp
qed

text \<open>C30. Frame recognition never reads outside the len bytes it was given. When it accepts, the
  reported frame length is at most len and the header and the mask lie inside the data; the
  payload does so exactly when header size plus announced payload length stay below 2^64:
  otherwise the sum wraps, the frame is accepted and its payload reaches past the data.\<close>

theorem ws_parse_frame_bounds:
  assumes "len \<le> length data" and "len < size_bound"
  shows "\<exists>ok f n. ws_parse_frame f0 data len = Some (ok, f, n) \<and>
    (if ok then n \<le> len \<and> n = (wf_payload_offset f + wf_payload_length f) mod size_bound \<and>
       wf_payload_offset f \<le> len \<and>
       wf_payload_offset f = wf_mask_offset f + (if wf_mask_flag f \<noteq> 0 then WS_MASK_SIZE else 0) \<and>
       (wf_payload_offset f + wf_payload_length f \<le> len \<longleftrightarrow> wf_payload_offset f + wf_payload_length f < size_bound)
     else len < n)"
proof (cases "len < 2")
  case True
  then show ?thesis
    by (intro exI [of _ False] exI [of _ f0] exI [of _ 2]) (simp add: ws_parse_frame_def ws_sizes)
next
  case two: False
  show ?thesis
  proof (cases "len < ws_header_size data")
    case True
    then show ?thesis
      using ws_parse_frame_short [of len data f0] two assms by auto
  next
    case False
    then obtain pl where pl: "ws_announced data = Some pl" "pl < size_bound"
      using ws_announced_total [of data] ws_announced_bound assms by auto
    have p: "ws_parse_frame f0 data len =
        Some (size_add (ws_header_size data) pl \<le> len, ws_header data pl, size_add (ws_header_size data) pl)"
      using ws_parse_frame_full [OF assms(1) _ pl(1)] False by simp
    have "ws_header_size data + pl \<le> len \<longleftrightarrow> ws_header_size data + pl < size_bound"
      if "size_add (ws_header_size data) pl \<le> len"
      using that assms(2) by (auto simp: size_add_def)
    then show ?thesis
      unfolding p using False by (auto simp: ws_header_def ws_header_size_def size_add_def)
  qed
qed

theorem ws_parse_frame_bounds_witness:
  "\<exists>f. ws_parse_frame \<lparr>wf_fin_flag = 0, wf_opcode = 0, wf_mask_flag = 0, wf_payload_length = 0, wf_mask_offset = 0, wf_payload_offset = 0\<rparr>
      [0x82, 0x7F, 0xFF, 0xFF, 0xFF, 0xFF, 0xFF, 0xFF, 0xFF, 0xFF] 10 = Some (True, f, 9) \<and>
    \<not> wf_payload_offset f + wf_payload_length f \<le> 10"
  using ws_parse_frame_bounds [of 10 "[0x82, 0x7F, 0xFF, 0xFF, 0xFF, 0xFF, 0xFF, 0xFF, 0xFF, 0xFF]"
      "\<lparr>wf_fin_flag = 0, wf_opcode = 0, wf_mask_flag = 0, wf_payload_length = 0, wf_mask_offset = 0, wf_payload_offset = 0\<rparr>"]
  by (auto simp: ws_parse_frame_def ws_sizes ws_get64_def size_add_def size_bound_def Let_def)

end
