(* ===== verification/Buffer.thy ===== *)
theory Buffer
  imports Cmx_Prelude
begin

section \<open>Growing byte buffers (source/buffer.c, include/mx/buffer.h)\<close>

text \<open>
  A buffer is an allocated block of cells (\<^const>\<open>None\<close>: not yet written), the offset of
  \<open>data\<close> in it, the length of the data and the allocated size. Operations work on the cells as
  the code does, with \<open>memmove\<close>, \<open>realloc\<close> and \<open>memcpy\<close>; an access outside the block, or to
  a cell that was never written, gives \<^const>\<open>None\<close>. A failed allocation ends the process
  (\<open>xmalloc\<close>), so allocation succeeds here. The contract a buffer offers to its clients is the
  locale \<open>byte_queue\<close>: bytes come out in the order they went in.
\<close>

subsection \<open>Memory cells\<close>

type_synonym cells = "byte option list"

definition cells_read :: "cells \<Rightarrow> nat \<Rightarrow> nat \<Rightarrow> cells option" where
  "cells_read m off n = (if off + n \<le> length m then Some (take n (drop off m)) else None)"

definition cells_write :: "cells \<Rightarrow> nat \<Rightarrow> cells \<Rightarrow> cells option" where
  "cells_write m off xs =
     (if off + length xs \<le> length m then Some (take off m @ xs @ drop (off + length xs) m) else None)"

definition cells_realloc :: "cells option \<Rightarrow> nat \<Rightarrow> cells" where
  "cells_realloc m n = (case m of None \<Rightarrow> replicate n None
     | Some c \<Rightarrow> take n c @ replicate (n - length c) None)"

fun initialised :: "cells \<Rightarrow> bytes option" where
  "initialised [] = Some []"
| "initialised (c # cs) = do { x \<leftarrow> c; xs \<leftarrow> initialised cs; Some (x # xs) }"

subsection \<open>The operations\<close>

record buffer =
  bf_alloc :: "cells option"
  bf_off :: nat
  bf_length :: nat
  bf_size :: nat

definition buffer_init :: "nat \<Rightarrow> buffer" where
  "buffer_init sz = \<lparr>bf_alloc = Some (replicate sz None), bf_off = 0, bf_length = 0, bf_size = sz\<rparr>"

definition BUFFER_INITIAL_SIZE :: nat where
  "BUFFER_INITIAL_SIZE = 128"

definition buffer_create :: "nat \<Rightarrow> buffer" where
  "buffer_create sz = buffer_init sz"

definition buffer_new :: buffer where
  "buffer_new = buffer_create BUFFER_INITIAL_SIZE"

definition buffer_clean :: "buffer \<Rightarrow> buffer" where
  "buffer_clean self = \<lparr>bf_alloc = None, bf_off = 0, bf_length = 0, bf_size = 0\<rparr>"

definition buffer_reset :: "buffer \<Rightarrow> buffer" where
  "buffer_reset self = self\<lparr>bf_off := 0, bf_length := 0\<rparr>"

definition buffer_cut :: "buffer \<Rightarrow> nat \<Rightarrow> nat \<times> buffer" where
  "buffer_cut self len =
     (let self = self\<lparr>bf_off := bf_off self + len\<rparr>;
          self = self\<lparr>bf_length := size_sub (bf_length self) len\<rparr>
      in (bf_length self, self))"

definition buffer_is_empty :: "buffer \<Rightarrow> bool" where
  "buffer_is_empty self \<longleftrightarrow> bf_length self = 0"

text \<open>\<open>alloc\<close> and \<open>data\<close> are both null after \<open>buffer_clean\<close>; no memory is touched then.\<close>

definition buffer_rewind :: "buffer \<Rightarrow> buffer option" where
  "buffer_rewind self =
     (if bf_off self \<noteq> 0 then do {
        alloc \<leftarrow> (if bf_length self \<noteq> 0 then do {
            m \<leftarrow> bf_alloc self;
            xs \<leftarrow> cells_read m (bf_off self) (bf_length self);
            m \<leftarrow> cells_write m 0 xs;
            Some (Some m)
          } else Some (bf_alloc self));
        Some (self\<lparr>bf_alloc := alloc, bf_off := 0\<rparr>)
      } else Some self)"

definition buffer_resize :: "buffer \<Rightarrow> nat \<Rightarrow> (nat \<times> buffer) option" where
  "buffer_resize self sz = do {
     self \<leftarrow> buffer_rewind self;
     let expected_size = size_add (bf_length self) sz;
     let self = (if bf_size self < expected_size
                 then self\<lparr>bf_size := expected_size,
                           bf_alloc := Some (cells_realloc (bf_alloc self) expected_size), bf_off := 0\<rparr>
                 else self);
     Some (bf_size self, self)
   }"

text \<open>\<open>memcpy (self->data + at, data, len)\<close>; with \<open>len = 0\<close> nothing is accessed.\<close>

definition buffer_store :: "buffer \<Rightarrow> nat \<Rightarrow> cells \<Rightarrow> buffer option" where
  "buffer_store self pos xs =
     (if xs = [] then Some self
      else do {
        m \<leftarrow> bf_alloc self;
        m \<leftarrow> cells_write m (bf_off self + pos) xs;
        Some (self\<lparr>bf_alloc := Some m\<rparr>)
      })"

definition buffer_append :: "buffer \<Rightarrow> bytes \<Rightarrow> nat \<Rightarrow> buffer option" where
  "buffer_append self data len = do {
     (_, self) \<leftarrow> buffer_resize self len;
     xs \<leftarrow> rd_bytes data len;
     self \<leftarrow> buffer_store self (bf_length self) (map Some xs);
     Some (self\<lparr>bf_length := size_add (bf_length self) len\<rparr>)
   }"

definition buffer_take :: "buffer \<Rightarrow> nat \<Rightarrow> (bytes \<times> buffer) option" where
  "buffer_take self len =
     (let chunk_len = min (bf_length self) len in
      if chunk_len > 0 then do {
        m \<leftarrow> bf_alloc self;
        xs \<leftarrow> cells_read m (bf_off self) chunk_len;
        data \<leftarrow> initialised xs;
        Some (data, snd (buffer_cut self chunk_len))
      } else Some ([], self))"

definition buffer_copy :: "buffer \<Rightarrow> buffer \<Rightarrow> buffer option" where
  "buffer_copy self other = do {
     (_, self) \<leftarrow> buffer_resize self (bf_length other);
     xs \<leftarrow> (if bf_length other = 0 then Some []
           else do { m \<leftarrow> bf_alloc other; cells_read m (bf_off other) (bf_length other) });
     self \<leftarrow> buffer_store self 0 xs;
     Some (self\<lparr>bf_length := bf_length other\<rparr>)
   }"

subsection \<open>Invariant and contents\<close>

definition buffer_cells :: "buffer \<Rightarrow> cells" where
  "buffer_cells b = (case bf_alloc b of None \<Rightarrow> [] | Some m \<Rightarrow> m)"

definition buffer_inv :: "buffer \<Rightarrow> bool" where
  "buffer_inv b \<longleftrightarrow> length (buffer_cells b) = bf_size b \<and> bf_off b + bf_length b \<le> bf_size b \<and>
     bf_size b < size_bound \<and> None \<notin> set (take (bf_length b) (drop (bf_off b) (buffer_cells b)))"

definition buffer_contents :: "buffer \<Rightarrow> bytes" where
  "buffer_contents b = map the (take (bf_length b) (drop (bf_off b) (buffer_cells b)))"

text \<open>The two together: the block is what precedes the data, the data, and what follows it.\<close>

definition buffer_holds :: "buffer \<Rightarrow> bytes \<Rightarrow> bool" where
  "buffer_holds b xs \<longleftrightarrow> (\<exists>pre post. buffer_cells b = pre @ map Some xs @ post \<and> length pre = bf_off b \<and>
     length xs = bf_length b \<and> length (buffer_cells b) = bf_size b \<and> bf_size b < size_bound)"

lemma map_the_Some: "None \<notin> set cs \<Longrightarrow> map Some (map the cs) = cs"
  by (induction cs) auto

lemma buffer_holds_iff: "buffer_holds b xs \<longleftrightarrow> buffer_inv b \<and> buffer_contents b = xs"
proof
  assume "buffer_holds b xs"
  then obtain pre post where h: "buffer_cells b = pre @ map Some xs @ post" "length pre = bf_off b"
    "length xs = bf_length b" "length (buffer_cells b) = bf_size b" "bf_size b < size_bound"
    unfolding buffer_holds_def by blast
  then have "take (bf_length b) (drop (bf_off b) (buffer_cells b)) = map Some xs"
    by simp
  then show "buffer_inv b \<and> buffer_contents b = xs"
    using h unfolding buffer_inv_def buffer_contents_def by (auto simp: comp_def)
next
  assume h: "buffer_inv b \<and> buffer_contents b = xs"
  let ?m = "buffer_cells b"
  have "map Some xs = take (bf_length b) (drop (bf_off b) ?m)"
    using h map_the_Some by (auto simp: buffer_inv_def buffer_contents_def)
  then have "?m = take (bf_off b) ?m @ map Some xs @ drop (bf_length b) (drop (bf_off b) ?m)"
    by (simp only: append_take_drop_id)
  moreover have "length xs = bf_length b"
    using h by (auto simp: buffer_inv_def buffer_contents_def)
  ultimately show "buffer_holds b xs"
    using h unfolding buffer_holds_def buffer_inv_def
    by (intro exI [of _ "take (bf_off b) ?m"] exI [of _ "drop (bf_length b) (drop (bf_off b) ?m)"]) auto
qed

lemma initialised_map_Some [simp]: "initialised (map Some xs) = Some xs"
  by (induction xs) simp_all

lemma buffer_holds_init: "sz < size_bound \<Longrightarrow> buffer_holds (buffer_init sz) []"
  by (simp add: buffer_holds_def buffer_init_def buffer_cells_def)

lemma buffer_holds_clean: "buffer_holds (buffer_clean b) []"
  by (simp add: buffer_holds_def buffer_clean_def buffer_cells_def size_bound_def)

lemma buffer_holds_reset:
  assumes "buffer_holds b xs"
  shows "buffer_holds (buffer_reset b) []"
  using assms by (auto simp: buffer_holds_def buffer_reset_def buffer_cells_def)

lemma buffer_holds_cut:
  assumes "buffer_holds b xs" and "n \<le> length xs"
  shows "buffer_holds (snd (buffer_cut b n)) (drop n xs) \<and> fst (buffer_cut b n) = length xs - n"
proof -
  obtain pre post where h: "buffer_cells b = pre @ map Some xs @ post" "length pre = bf_off b"
    "length xs = bf_length b" "length (buffer_cells b) = bf_size b" "bf_size b < size_bound"
    using assms(1) unfolding buffer_holds_def by blast
  have "map Some xs = map Some (take n xs) @ map Some (drop n xs)"
    by (simp add: take_map [symmetric] drop_map [symmetric])
  moreover have "bf_length b < size_bound"
    using h by simp
  ultimately show ?thesis
    using h assms(2) unfolding buffer_holds_def
    by (intro conjI exI [of _ "pre @ map Some (take n xs)"] exI [of _ post])
      (simp_all add: buffer_cut_def buffer_cells_def)
qed

lemma buffer_rewind_holds:
  assumes "buffer_holds b xs"
  shows "\<exists>b'. buffer_rewind b = Some b' \<and> buffer_holds b' xs \<and> bf_off b' = 0 \<and> bf_size b' = bf_size b"
proof -
  obtain pre post where h: "buffer_cells b = pre @ map Some xs @ post" "length pre = bf_off b"
    "length xs = bf_length b" "length (buffer_cells b) = bf_size b" "bf_size b < size_bound"
    using assms unfolding buffer_holds_def by blast
  show ?thesis
  proof (cases "bf_off b = 0 \<or> bf_length b = 0")
    case True
    then show ?thesis
      using h assms by (auto simp: buffer_rewind_def buffer_holds_def buffer_cells_def)
  next
    case False
    then obtain m where m: "bf_alloc b = Some m" "m = pre @ map Some xs @ post"
      using h by (cases "bf_alloc b") (auto simp: buffer_cells_def)
    let ?m = "map Some xs @ drop (length xs) m"
    have "cells_read m (bf_off b) (bf_length b) = Some (map Some xs)"
      using m h by (simp add: cells_read_def)
    moreover have "cells_write m 0 (map Some xs) = Some ?m"
      using m by (simp add: cells_write_def)
    ultimately have "buffer_rewind b = Some (b\<lparr>bf_alloc := Some ?m, bf_off := 0\<rparr>)"
      using False m by (simp add: buffer_rewind_def)
    moreover have "length ?m = bf_size b"
      using m h by (simp add: buffer_cells_def)
    ultimately show ?thesis
      using h by (auto simp: buffer_holds_def buffer_cells_def)
  qed
qed

lemma buffer_resize_holds:
  assumes "buffer_holds b xs" and "length xs + n < size_bound"
  shows "\<exists>b'. buffer_resize b n = Some (bf_size b', b') \<and> buffer_holds b' xs \<and> bf_off b' = 0 \<and>
    length xs + n \<le> bf_size b'"
proof -
  obtain b1 where b1: "buffer_rewind b = Some b1" "buffer_holds b1 xs" "bf_off b1 = 0"
    using buffer_rewind_holds [OF assms(1)] by blast
  obtain post where h: "buffer_cells b1 = map Some xs @ post" "length xs = bf_length b1"
    "length (buffer_cells b1) = bf_size b1" "bf_size b1 < size_bound"
    using b1(2,3) unfolding buffer_holds_def by auto
  let ?n = "length xs + n"
  show ?thesis
  proof (cases "bf_size b1 < ?n")
    case True
    let ?b = "b1\<lparr>bf_size := ?n, bf_alloc := Some (cells_realloc (bf_alloc b1) ?n), bf_off := 0\<rparr>"
    have "buffer_resize b n = Some (bf_size ?b, ?b)"
      using b1(1) h(2) assms(2) True by (simp add: buffer_resize_def Let_def)
    moreover have "cells_realloc (bf_alloc b1) ?n = buffer_cells b1 @ replicate (?n - bf_size b1) None"
      using True h(3) by (auto simp: cells_realloc_def buffer_cells_def split: option.split)
    then have "buffer_holds ?b xs"
      using h True assms(2) by (simp add: buffer_holds_def buffer_cells_def)
    ultimately show ?thesis by (intro exI [of _ ?b]) simp
  next
    case False
    then show ?thesis
      using b1 h(2) assms(2) by (intro exI [of _ b1]) (simp add: buffer_resize_def Let_def)
  qed
qed

lemma buffer_append_holds:
  assumes "buffer_holds b xs" and "length xs + n < size_bound" and "n \<le> length data"
  shows "\<exists>b'. buffer_append b data n = Some b' \<and> buffer_holds b' (xs @ take n data)"
proof -
  obtain b1 where b1: "buffer_resize b n = Some (bf_size b1, b1)" "buffer_holds b1 xs" "bf_off b1 = 0"
    "length xs + n \<le> bf_size b1"
    using buffer_resize_holds [OF assms(1,2)] by blast
  obtain post where h: "buffer_cells b1 = map Some xs @ post" "length xs = bf_length b1"
    "length (buffer_cells b1) = bf_size b1" "bf_size b1 < size_bound"
    using b1(2,3) unfolding buffer_holds_def by auto
  have rd: "rd_bytes data n = Some (take n data)"
    using assms(3) by (simp add: rd_bytes_def)
  show ?thesis
  proof (cases "take n data = []")
    case True
    then have "n = 0" using assms(3) by auto
    then show ?thesis
      using b1 h rd assms(2) by (auto simp: buffer_append_def buffer_store_def buffer_holds_def buffer_cells_def)
  next
    case False
    then have "0 < bf_size b1" using b1(4) by auto
    then obtain m where m: "bf_alloc b1 = Some m" "m = map Some xs @ post"
      using h by (cases "bf_alloc b1") (auto simp: buffer_cells_def)
    let ?m = "map Some (xs @ take n data) @ drop n post"
    have len: "length xs + n \<le> length m" "length m = bf_size b1"
      using m h b1(4) by (simp_all add: buffer_cells_def)
    then have "cells_write m (bf_off b1 + bf_length b1) (map Some (take n data)) = Some ?m"
      using m h b1(3) assms(3) by (simp add: cells_write_def)
    then have "buffer_append b data n = Some (b1\<lparr>bf_alloc := Some ?m, bf_length := length xs + n\<rparr>)"
      using b1(1) rd m(1) False h(2) assms(2) by (simp add: buffer_append_def buffer_store_def)
    moreover have "length ?m = bf_size b1"
      using len m assms(3) by simp
    ultimately show ?thesis
      using h b1(3) assms(3) by (auto simp: buffer_holds_def buffer_cells_def)
  qed
qed

lemma buffer_take_holds:
  assumes "buffer_holds b xs"
  shows "\<exists>b'. buffer_take b n = Some (take n xs, b') \<and> buffer_holds b' (drop n xs)"
proof -
  obtain pre post where h: "buffer_cells b = pre @ map Some xs @ post" "length pre = bf_off b"
    "length xs = bf_length b" "length (buffer_cells b) = bf_size b"
    using assms unfolding buffer_holds_def by blast
  let ?n = "min (length xs) n"
  show ?thesis
  proof (cases "?n > 0")
    case True
    then obtain m where m: "bf_alloc b = Some m" "m = pre @ map Some xs @ post"
      using h by (cases "bf_alloc b") (auto simp: buffer_cells_def)
    have "cells_read m (bf_off b) ?n = Some (map Some (take n xs))"
      using m h(2) by (simp add: cells_read_def take_map min_def)
    then have "buffer_take b n = Some (take n xs, snd (buffer_cut b ?n))"
      using True h(3) m(1) by (simp add: buffer_take_def Let_def)
    moreover have "drop ?n xs = drop n xs"
      by (simp add: min_def)
    ultimately show ?thesis
      using buffer_holds_cut [OF assms, of ?n] by simp
  next
    case False
    then show ?thesis
      using assms h(3) by (auto simp: buffer_take_def)
  qed
qed

lemma buffer_copy_holds:
  assumes "buffer_holds b xs" and "buffer_holds o' ys" and "length xs + length ys < size_bound"
  shows "\<exists>b'. buffer_copy b o' = Some b' \<and> buffer_holds b' ys"
proof -
  obtain pre post where h: "buffer_cells o' = pre @ map Some ys @ post" "length pre = bf_off o'"
    "length ys = bf_length o'"
    using assms(2) unfolding buffer_holds_def by blast
  obtain b1 where b1: "buffer_resize b (bf_length o') = Some (bf_size b1, b1)" "buffer_holds b1 xs"
    "bf_off b1 = 0" "length xs + length ys \<le> bf_size b1"
    using buffer_resize_holds [OF assms(1,3)] h(3) by auto
  have s: "length (buffer_cells b1) = bf_size b1" "bf_size b1 < size_bound"
    using b1(2) unfolding buffer_holds_def by auto
  show ?thesis
  proof (cases "ys = []")
    case True
    then show ?thesis
      using b1 h s by (auto simp: buffer_copy_def buffer_store_def buffer_holds_def buffer_cells_def)
  next
    case False
    then have "bf_length o' \<noteq> 0" "0 < bf_size b1"
      using h(3) b1(4) False by (metis length_0_conv, metis add_is_0 gr0I le_0_eq length_0_conv)
    then obtain mo m where m: "bf_alloc o' = Some mo" "mo = pre @ map Some ys @ post" "bf_alloc b1 = Some m"
      using h(1,3) s False by (cases "bf_alloc o'"; cases "bf_alloc b1") (auto simp: buffer_cells_def)
    have "cells_read mo (bf_off o') (bf_length o') = Some (map Some ys)"
      using m h by (simp add: cells_read_def)
    moreover have lm: "length m = bf_size b1"
      using s m(3) by (simp add: buffer_cells_def)
    then have "cells_write m (bf_off b1 + 0) (map Some ys) = Some (map Some ys @ drop (length ys) m)"
      using b1(3,4) by (simp add: cells_write_def)
    ultimately have "buffer_copy b o' =
        Some (b1\<lparr>bf_alloc := Some (map Some ys @ drop (length ys) m), bf_length := length ys\<rparr>)"
      using b1(1) m h(3) False \<open>bf_length o' \<noteq> 0\<close> by (simp add: buffer_copy_def buffer_store_def)
    then show ?thesis
      using s b1(3,4) lm by (auto simp: buffer_holds_def buffer_cells_def)
  qed
qed


subsection \<open>The contract of a byte queue\<close>

datatype queue_op = Put bytes | Get nat

text \<open>Runs a sequence of operations; the result holds the bytes that were taken out.\<close>

fun run_queue :: "('q \<Rightarrow> bytes \<Rightarrow> 'q option) \<Rightarrow> ('q \<Rightarrow> nat \<Rightarrow> (bytes \<times> 'q) option) \<Rightarrow>
    queue_op list \<Rightarrow> 'q \<Rightarrow> (bytes \<times> 'q) option" where
  "run_queue put get [] q = Some ([], q)"
| "run_queue put get (Put xs # ops) q = do { q \<leftarrow> put q xs; run_queue put get ops q }"
| "run_queue put get (Get n # ops) q = do {
     (xs, q) \<leftarrow> get q n;
     (ys, q) \<leftarrow> run_queue put get ops q;
     Some (xs @ ys, q)
   }"

fun queue_input :: "queue_op list \<Rightarrow> bytes" where
  "queue_input [] = []"
| "queue_input (Put xs # ops) = xs @ queue_input ops"
| "queue_input (Get n # ops) = queue_input ops"

locale byte_queue =
  fixes holds :: "'q \<Rightarrow> bytes \<Rightarrow> bool"
    and put :: "'q \<Rightarrow> bytes \<Rightarrow> 'q option"
    and get :: "'q \<Rightarrow> nat \<Rightarrow> (bytes \<times> 'q) option"
    and capacity :: nat
  assumes put_law: "holds q xs \<Longrightarrow> length xs + length ys < capacity \<Longrightarrow> \<exists>q'. put q ys = Some q' \<and> holds q' (xs @ ys)"
    and get_law: "holds q xs \<Longrightarrow> \<exists>q'. get q n = Some (take n xs, q') \<and> holds q' (drop n xs)"
begin

lemma fifo:
  assumes "holds q xs" and "length xs + length (queue_input ops) < capacity"
  shows "\<exists>out q' rest. run_queue put get ops q = Some (out, q') \<and> holds q' rest \<and>
    xs @ queue_input ops = out @ rest"
  using assms
proof (induction ops arbitrary: q xs)
  case Nil
  then show ?case by auto
next
  case (Cons op ops)
  show ?case
  proof (cases op)
    case (Put ys)
    then obtain q1 where q1: "put q ys = Some q1" "holds q1 (xs @ ys)"
      using put_law [OF Cons.prems(1), of ys] Cons.prems(2) by auto
    then show ?thesis
      using Cons.IH [OF q1(2)] Cons.prems Put by auto
  next
    case (Get n)
    obtain q1 where q1: "get q n = Some (take n xs, q1)" "holds q1 (drop n xs)"
      using get_law [OF Cons.prems(1)] by blast
    have "length (drop n xs) + length (queue_input ops) < capacity"
      using Cons.prems(2) Get by simp
    from Cons.IH [OF q1(2) this] obtain out q2 rest where r: "run_queue put get ops q1 = Some (out, q2)" "holds q2 rest"
      "drop n xs @ queue_input ops = out @ rest"
      by blast
    have "run_queue put get (op # ops) q = Some (take n xs @ out, q2)"
      using Get q1(1) r(1) by simp
    moreover have "xs @ queue_input (op # ops) = (take n xs @ out) @ rest"
      using r(3) Get by (metis append.assoc append_take_drop_id queue_input.simps(3))
    ultimately show ?thesis
      using r(2) by blast
  qed
qed

end

definition buffer_put :: "buffer \<Rightarrow> bytes \<Rightarrow> buffer option" where
  "buffer_put b xs = buffer_append b xs (length xs)"

interpretation buffer: byte_queue buffer_holds buffer_put buffer_take size_bound
  by unfold_locales
    (use buffer_append_holds in \<open>fastforce simp: buffer_put_def\<close>, use buffer_take_holds in blast)

subsection \<open>Properties\<close>

text \<open>C11. A buffer is a byte queue: starting from any initial size, any sequence of appends and
  takes whose input fits size_t runs without touching memory outside the block or unwritten
  cells, and the bytes taken out followed by the bytes left in the buffer are the bytes put in,
  in order; the buffer's invariant holds at the end.\<close>

theorem buffer_fifo:
  assumes "sz < size_bound" and "length (queue_input ops) < size_bound"
  shows "\<exists>out b. run_queue buffer_put buffer_take ops (buffer_init sz) = Some (out, b) \<and>
    buffer_inv b \<and> queue_input ops = out @ buffer_contents b"
  using buffer.fifo [OF buffer_holds_init [OF assms(1)], of ops] assms(2)
  by (auto simp: buffer_holds_iff)

theorem buffer_fifo_witness:
  "\<exists>out b. run_queue buffer_put buffer_take [Put [1, 2, 3], Get 2, Put [4], Get 1] (buffer_init 2) = Some (out, b) \<and>
    buffer_inv b \<and> [1, 2, 3, 4] = out @ buffer_contents b"
  using buffer_fifo [of 2 "[Put [1, 2, 3], Get 2, Put [4], Get 1]"] by (simp add: size_bound_def)

text \<open>The other buffer operations on a buffer whose invariant holds: resizing keeps the
  contents, moves them to the start of the block and makes room for n more bytes; copying
  replaces the contents by the other buffer's; cutting up to the length drops that many bytes
  from the front, and cutting more breaks the invariant, because the length wraps; resetting
  and cleaning leave an empty buffer.\<close>

lemma buffer_operations:
  assumes "buffer_inv b" and "buffer_inv b2" and "bf_length b + bf_length b2 < size_bound"
    and "bf_length b + n < size_bound"
  shows "(\<exists>b'. buffer_resize b n = Some (bf_size b', b') \<and> buffer_inv b' \<and> bf_off b' = 0 \<and>
      buffer_contents b' = buffer_contents b \<and> bf_length b' + n \<le> bf_size b') \<and>
    (\<exists>b'. buffer_copy b b2 = Some b' \<and> buffer_inv b' \<and> buffer_contents b' = buffer_contents b2) \<and>
    (buffer_inv (snd (buffer_cut b n)) \<longleftrightarrow> n \<le> bf_length b) \<and>
    (n \<le> bf_length b \<longrightarrow> buffer_contents (snd (buffer_cut b n)) = drop n (buffer_contents b)) \<and>
    buffer_inv (buffer_reset b) \<and> buffer_contents (buffer_reset b) = [] \<and>
    buffer_inv (buffer_clean b) \<and> buffer_contents (buffer_clean b) = []"
proof -
  have h: "buffer_holds b (buffer_contents b)" "buffer_holds b2 (buffer_contents b2)"
    using assms by (simp_all add: buffer_holds_iff)
  have len: "length (buffer_contents b) = bf_length b" "length (buffer_contents b2) = bf_length b2"
    using assms by (auto simp: buffer_inv_def buffer_contents_def)
  have "\<not> buffer_inv (snd (buffer_cut b n))" if "\<not> n \<le> bf_length b"
  proof -
    have "size_sub (bf_length b) n + n = bf_length b + size_bound"
      using that assms(4) by (simp add: size_sub_def)
    then show ?thesis
      using that assms(1) by (auto simp: buffer_inv_def buffer_cut_def buffer_cells_def Let_def)
  qed
  note over = this
  obtain b1 where b1: "buffer_resize b n = Some (bf_size b1, b1)" "buffer_holds b1 (buffer_contents b)"
    "bf_off b1 = 0" "bf_length b + n \<le> bf_size b1"
    using buffer_resize_holds [OF h(1), of n] len assms(4) by auto
  obtain b3 where b3: "buffer_copy b b2 = Some b3" "buffer_holds b3 (buffer_contents b2)"
    using buffer_copy_holds [OF h] len assms(3) by auto
  have "bf_length b1 = bf_length b"
    using b1(2) len(1) by (auto simp: buffer_holds_def)
  then have resize: "\<exists>b'. buffer_resize b n = Some (bf_size b', b') \<and> buffer_inv b' \<and> bf_off b' = 0 \<and>
      buffer_contents b' = buffer_contents b \<and> bf_length b' + n \<le> bf_size b'"
    using b1 by (intro exI [of _ b1]) (simp add: buffer_holds_iff)
  have copy: "\<exists>b'. buffer_copy b b2 = Some b' \<and> buffer_inv b' \<and> buffer_contents b' = buffer_contents b2"
    using b3 by (intro exI [of _ b3]) (simp add: buffer_holds_iff)
  have cut: "buffer_inv (snd (buffer_cut b n)) \<and> buffer_contents (snd (buffer_cut b n)) = drop n (buffer_contents b)"
    if "n \<le> bf_length b"
    using buffer_holds_cut [OF h(1), of n] that len(1) by (simp add: buffer_holds_iff)
  show ?thesis
    using resize copy cut over buffer_holds_reset [OF h(1)] buffer_holds_clean [of b]
    by (auto simp: buffer_holds_iff)
qed

end
