(* ===== verification/Timing.thy ===== *)
theory Timing
  imports Cmx_Prelude "HOL-Library.Signed_Division"
begin

section \<open>Clocks, timers, back-off and repeaters (source/timer.c, rand.c, repeater.c, include/mx/timer.h)\<close>

text \<open>
  The three static clock counters of \<open>timer.c\<close> are one record, together with what the kernel's
  clocks would answer to \<open>clock_update_sys\<close>. \<open>time_t\<close> is a signed 64-bit counter of
  milliseconds or seconds that does not reach its limits; it is an \<^typ>\<open>int\<close>, with C's
  truncating division. \<open>unsigned int\<close> values are \<^typ>\<open>32 word\<close>s. \<open>rand()\<close> is a parameter:
  each function that calls it takes the value it returned.
\<close>

subsection \<open>Clock\<close>

record clock =
  clock_ms :: int
  clock_s :: int
  clock_chrono :: int
  sys_sec :: int
  sys_nsec :: int
  sys_time :: int

definition clock_update :: "int \<Rightarrow> int \<Rightarrow> clock \<Rightarrow> clock" where
  "clock_update ms chrono c =
     (let c = (if ms \<noteq> 0
               then let c = c\<lparr>clock_s := clock_s c + ((clock_ms c smod 1000) + ms) sdiv 1000\<rparr>
                    in c\<lparr>clock_ms := clock_ms c + ms\<rparr>
               else c)
      in c\<lparr>clock_chrono := chrono\<rparr>)"

definition clock_update_sys :: "clock \<Rightarrow> clock" where
  "clock_update_sys c =
     (let c = c\<lparr>clock_s := sys_sec c\<rparr>;
          c = c\<lparr>clock_ms := sys_sec c * 1000\<rparr>;
          c = c\<lparr>clock_ms := clock_ms c + sys_nsec c sdiv 1000 sdiv 1000\<rparr>
      in c\<lparr>clock_chrono := sys_time c\<rparr>)"

definition clock_get_milis :: "clock \<Rightarrow> int" where
  "clock_get_milis c = clock_ms c"

definition clock_get_seconds :: "clock \<Rightarrow> int" where
  "clock_get_seconds c = clock_s c"

definition clock_get_chrono :: "clock \<Rightarrow> int" where
  "clock_get_chrono c = (if clock_chrono c \<noteq> 0 then clock_chrono c else clock_s c)"

subsection \<open>Timer\<close>

definition TIMER_MS :: byte where "TIMER_MS = 0"
definition TIMER_SEC :: byte where "TIMER_SEC = 1"
definition TIMER_CHRONO :: byte where "TIMER_CHRONO = 2"
definition TIMER_UPDATE :: byte where "TIMER_UPDATE = 128"

record timer =
  tm_start :: int
  tm_interval :: int
  tm_flags :: byte

definition timer_tstamp :: "byte \<Rightarrow> clock \<Rightarrow> int \<times> clock" where
  "timer_tstamp flags c =
     (let c = (if flags AND TIMER_UPDATE \<noteq> 0 then clock_update_sys c else c)
      in (if flags AND TIMER_SEC \<noteq> 0 then clock_get_seconds c
          else if flags AND TIMER_CHRONO \<noteq> 0 then clock_get_chrono c
          else clock_get_milis c, c))"

definition timer_start :: "byte \<Rightarrow> int \<Rightarrow> clock \<Rightarrow> timer \<times> clock" where
  "timer_start flags interval c =
     (let (now, c) = timer_tstamp flags c
      in (\<lparr>tm_start = now, tm_interval = interval, tm_flags = flags\<rparr>, c))"

definition timer_stop :: timer where
  "timer_stop = \<lparr>tm_start = 0, tm_interval = 0, tm_flags = 0\<rparr>"

definition timer_restart :: "timer \<Rightarrow> clock \<Rightarrow> timer \<times> clock" where
  "timer_restart self c =
     (let (now, c) = timer_tstamp (tm_flags self) c in (self\<lparr>tm_start := now\<rparr>, c))"

definition timer_running :: "timer \<Rightarrow> bool" where
  "timer_running self \<longleftrightarrow> tm_interval self \<noteq> 0"

definition timer_value :: "timer \<Rightarrow> clock \<Rightarrow> int \<times> clock" where
  "timer_value self c =
     (let (now, c) = timer_tstamp (tm_flags self) c in (now - tm_start self, c))"

definition timer_remaining :: "timer \<Rightarrow> clock \<Rightarrow> int \<times> clock" where
  "timer_remaining self c =
     (let (v, c) = timer_value self c
      in (if v < tm_interval self then tm_interval self - v else 0, c))"

definition timer_expired :: "timer \<Rightarrow> clock \<Rightarrow> bool \<times> clock" where
  "timer_expired self c =
     (if tm_interval self = 0 then (False, c)
      else let (v, c) = timer_value self c
           in if v < tm_interval self then (False, c) else (True, c))"

subsection \<open>Random back-off\<close>

definition rand_time_increase :: "32 word \<Rightarrow> 32 word \<Rightarrow> 32 word \<Rightarrow> 32 word \<times> 32 word" where
  "rand_time_increase v limit r =
     (let tmp = v in
      if limit \<noteq> 0 \<and> tmp \<ge> limit then (limit, v)
      else
        let tmp = tmp + (tmp + 2) div 2;
            tmp = (if tmp > 4 then tmp + r mod (v div 4 + 1) else tmp);
            tmp = (if limit \<noteq> 0 \<and> tmp \<ge> limit then limit else tmp)
        in (tmp, tmp))"

definition rand_time_decrease :: "32 word \<Rightarrow> 32 word \<times> 32 word" where
  "rand_time_decrease v = (let v = (if v > 0 then v div 2 else v) in (v, v))"

text \<open>\<open>rand_data\<close>: the low byte of each value \<open>rand()\<close> returned.\<close>

definition rand_data :: "nat \<Rightarrow> (nat \<Rightarrow> 32 word) \<Rightarrow> bytes" where
  "rand_data len rnd = map (\<lambda>i. ucast (rnd i AND 0xFF)) [0..<len]"

subsection \<open>Repeater\<close>

record repeater =
  rp_counter :: "32 word"
  rp_limit :: "32 word"
  rp_timeout :: "32 word"
  rp_timer :: timer

definition repeater_init :: repeater where
  "repeater_init = \<lparr>rp_counter = 0, rp_limit = 0, rp_timeout = 1, rp_timer = timer_stop\<rparr>"

definition repeater_reset :: "repeater \<Rightarrow> repeater" where
  "repeater_reset self = self\<lparr>rp_counter := 0, rp_timer := timer_stop\<rparr>"

definition repeater_set_limit :: "repeater \<Rightarrow> 32 word \<Rightarrow> repeater" where
  "repeater_set_limit self limit = self\<lparr>rp_limit := limit\<rparr>"

definition repeater_set_timeout :: "repeater \<Rightarrow> 32 word \<Rightarrow> repeater" where
  "repeater_set_timeout self timeout = self\<lparr>rp_timeout := timeout\<rparr>"

definition repeater_is_exhausted :: "repeater \<Rightarrow> bool" where
  "repeater_is_exhausted self \<longleftrightarrow> rp_limit self > 0 \<and> rp_counter self \<ge> rp_limit self"

definition repeater_is_waiting :: "repeater \<Rightarrow> clock \<Rightarrow> bool \<times> clock" where
  "repeater_is_waiting self c =
     (if timer_running (rp_timer self)
      then let (e, c) = timer_expired (rp_timer self) c in (\<not> e, c)
      else (False, c))"

definition repeater_mark_attempt :: "repeater \<Rightarrow> bool \<times> repeater" where
  "repeater_mark_attempt self =
     (let self = self\<lparr>rp_counter := rp_counter self + 1\<rparr> in (repeater_is_exhausted self, self))"

definition repeater_wait :: "repeater \<Rightarrow> clock \<Rightarrow> repeater \<times> clock" where
  "repeater_wait self c =
     (let (t, c) = timer_start TIMER_SEC (uint (rp_timeout self)) c in (self\<lparr>rp_timer := t\<rparr>, c))"

definition repeater_postpone :: "repeater \<Rightarrow> 32 word \<Rightarrow> clock \<Rightarrow> repeater \<times> clock" where
  "repeater_postpone self timeout c = repeater_wait (self\<lparr>rp_timeout := timeout\<rparr>) c"

definition repeater_back_off :: "repeater \<Rightarrow> 32 word \<Rightarrow> 32 word \<Rightarrow> clock \<Rightarrow> repeater \<times> clock" where
  "repeater_back_off self max_timeout r c =
     (let (_, timeout) = rand_time_increase (rp_timeout self) max_timeout r
      in repeater_wait (self\<lparr>rp_timeout := timeout\<rparr>) c)"

subsection \<open>The clocks agree\<close>

definition clock_inv :: "clock \<Rightarrow> bool" where
  "clock_inv c \<longleftrightarrow> 0 \<le> clock_ms c \<and> clock_s c = clock_ms c div 1000"

datatype clock_op = Update int int | Update_sys int int int

definition clock_step :: "clock_op \<Rightarrow> clock \<Rightarrow> clock" where
  "clock_step op c = (case op of Update ms chrono \<Rightarrow> clock_update ms chrono c
     | Update_sys s ns t \<Rightarrow> clock_update_sys (c\<lparr>sys_sec := s, sys_nsec := ns, sys_time := t\<rparr>))"

definition clock_op_ok :: "clock_op \<Rightarrow> bool" where
  "clock_op_ok op = (case op of Update ms _ \<Rightarrow> 0 \<le> ms | Update_sys s ns _ \<Rightarrow> 0 \<le> s \<and> 0 \<le> ns \<and> ns < 10 ^ 9)"

lemma sdiv_nonneg: "0 \<le> (a::int) \<Longrightarrow> 0 \<le> b \<Longrightarrow> a sdiv b = a div b"
  by (simp add: signed_divide_int_def sgn_if)

lemma smod_nonneg: "0 \<le> (a::int) \<Longrightarrow> 0 < b \<Longrightarrow> a smod b = a mod b"
  by (cases "a = 0") (simp_all add: signed_modulo_int_def)

lemma clock_step_inv:
  assumes "clock_inv c" and "clock_op_ok op"
  shows "clock_inv (clock_step op c)"
proof (cases op)
  case (Update ms chrono)
  have "clock_ms c div 1000 + (clock_ms c mod 1000 + ms) div 1000 = (clock_ms c + ms) div 1000"
    by (metis add.assoc div_mult_mod_eq div_mult_self3 zero_neq_numeral mult.commute)
  then show ?thesis
    using assms Update
    by (simp add: clock_inv_def clock_op_ok_def clock_step_def clock_update_def sdiv_nonneg smod_nonneg Let_def)
next
  case (Update_sys s ns t)
  then have ns: "0 \<le> ns" "ns < 1000000000"
    using assms(2) by (simp_all add: clock_op_ok_def)
  have "ns div 1000 div 1000 = ns div 1000000"
    using zdiv_zmult2_eq [of 1000 ns 1000] by simp
  moreover have "0 \<le> ns div 1000000" "ns div 1000000 < 1000"
    using ns zdiv_mono1 [of ns 999999999 1000000] by (simp_all add: pos_imp_zdiv_nonneg_iff)
  ultimately have "0 \<le> ns div 1000 div 1000" "ns div 1000 div 1000 < 1000"
    by simp_all
  then show ?thesis
    using assms Update_sys
    by (simp add: clock_inv_def clock_op_ok_def clock_step_def clock_update_sys_def sdiv_nonneg)
qed


lemma clock_steps_inv: "clock_inv c \<Longrightarrow> list_all clock_op_ok ops \<Longrightarrow> clock_inv (fold clock_step ops c)"
  by (induction ops arbitrary: c) (simp_all add: clock_step_inv)

subsection \<open>Timers\<close>

lemma and_flags [simp]:
  "TIMER_SEC AND TIMER_UPDATE = 0" "TIMER_SEC AND TIMER_SEC \<noteq> 0"
  by (simp_all add: TIMER_SEC_def TIMER_UPDATE_def)

lemma tstamp_pure: "flags AND TIMER_UPDATE = 0 \<Longrightarrow> snd (timer_tstamp flags c) = c"
  by (simp add: timer_tstamp_def)

lemma tstamp_sec [simp]: "timer_tstamp TIMER_SEC c = (clock_s c, c)"
  by (simp add: timer_tstamp_def clock_get_seconds_def TIMER_SEC_def TIMER_UPDATE_def)

lemma timer_start_sec [simp]:
  "timer_start TIMER_SEC i c = (\<lparr>tm_start = clock_s c, tm_interval = i, tm_flags = TIMER_SEC\<rparr>, c)"
  by (simp add: timer_start_def)

lemma timer_expired_sec [simp]:
  "tm_flags t = TIMER_SEC \<Longrightarrow>
   timer_expired t c = (tm_interval t \<noteq> 0 \<and> tm_interval t \<le> clock_s c - tm_start t, c)"
  by (auto simp: timer_expired_def timer_value_def not_less)

lemma timer_stop_simps [simp]: "\<not> timer_running timer_stop" "timer_expired timer_stop c = (False, c)"
  by (simp_all add: timer_running_def timer_expired_def timer_stop_def)

lemma timer_running_sec [simp]: "timer_running \<lparr>tm_start = a, tm_interval = i, tm_flags = f\<rparr> \<longleftrightarrow> i \<noteq> 0"
  by (simp add: timer_running_def)

subsection \<open>Back-off arithmetic\<close>

text \<open>The next value, computed without wrap-around and without the limit.\<close>

definition rand_growth :: "nat \<Rightarrow> nat \<Rightarrow> nat" where
  "rand_growth v r = v + (v + 2) div 2 + (if v + (v + 2) div 2 > 4 then r mod (v div 4 + 1) else 0)"

lemma rand_increase_nat:
  assumes "unat v \<le> 2 ^ 30" and "\<not> (mx \<noteq> 0 \<and> v \<ge> mx)"
  shows "rand_time_increase v mx r = (let t = (if mx \<noteq> 0 \<and> unat mx \<le> rand_growth (unat v) (unat r) then mx else word_of_nat (rand_growth (unat v) (unat r))) in (t, t))"
    and "rand_growth (unat v) (unat r) < 2 ^ 32"
proof -
  let ?a = "unat v + (unat v + 2) div 2"
  have a: "unat (v + (v + 2) div 2) = ?a"
    using assms(1) by (simp add: unat_word_ariths unat_div)
  have v4: "unat (v div 4 + 1) = unat v div 4 + 1"
    using assms(1) by (simp add: unat_word_ariths unat_div)
  have m: "unat r mod (unat v div 4 + 1) \<le> unat v div 4"
    using mod_less_divisor [of "unat v div 4 + 1" "unat r"] by linarith
  have "rand_growth (unat v) (unat r) \<le> ?a + unat v div 4"
    by (auto simp: rand_growth_def)
  then show lt: "rand_growth (unat v) (unat r) < 2 ^ 32"
    using assms(1) by simp
  have "?a + unat r mod (unat v div 4 + 1) \<le> ?a + unat v div 4"
    by simp
  also have "\<dots> < 2 ^ 32"
    using assms(1) by simp
  finally have bd: "?a + unat r mod (unat v div 4 + 1) < 2 ^ 32" .
  have "unat (v + (v + 2) div 2 + r mod (v div 4 + 1)) = (?a + unat r mod (unat v div 4 + 1)) mod 2 ^ 32"
    by (subst unat_word_ariths) (simp only: a unat_mod v4 len_of_numeral_defs, simp)
  then have b: "unat (v + (v + 2) div 2 + r mod (v div 4 + 1)) = ?a + unat r mod (unat v div 4 + 1)"
    by (simp only: mod_less [OF bd])
  have c: "v + (v + 2) div 2 > 4 \<longleftrightarrow> ?a > 4"
    by (simp add: word_less_nat_alt a)
  let ?t = "if v + (v + 2) div 2 > 4 then v + (v + 2) div 2 + r mod (v div 4 + 1) else v + (v + 2) div 2"
  have t: "unat ?t = rand_growth (unat v) (unat r)"
    unfolding rand_growth_def c using a b by simp
  then have "?t = word_of_nat (rand_growth (unat v) (unat r))"
    using of_nat_unat [of ?t, where ?'a = "32 word"] by (simp only: ucast_id)
  moreover have "mx \<le> ?t \<longleftrightarrow> unat mx \<le> rand_growth (unat v) (unat r)"
    unfolding word_le_nat_alt t ..
  ultimately show "rand_time_increase v mx r = (let t = (if mx \<noteq> 0 \<and> unat mx \<le> rand_growth (unat v) (unat r) then mx else word_of_nat (rand_growth (unat v) (unat r))) in (t, t))"
    unfolding rand_time_increase_def Let_def using assms(2) by (simp cong: if_cong) blast
qed


lemma rand_increase_cases:
  assumes "unat v \<le> 2 ^ 30"
  shows "let (ret, v') = rand_time_increase v mx r; lo = unat v + (unat v + 2) div 2 in
    if mx \<noteq> 0 \<and> v \<ge> mx then ret = mx \<and> v' = v
    else ret = v' \<and> unat v < unat v' \<and> (mx \<noteq> 0 \<longrightarrow> v' \<le> mx) \<and>
      (v' = mx \<and> unat mx \<le> lo + unat v div 4 \<or> lo \<le> unat v' \<and> unat v' \<le> lo + unat v div 4)"
proof (cases "mx \<noteq> 0 \<and> v \<ge> mx")
  case True
  then show ?thesis by (simp add: rand_time_increase_def)
next
  case False
  let ?g = "rand_growth (unat v) (unat r)"
  note g = rand_increase_nat [OF assms False, of r]
  have u: "unat (word_of_nat ?g :: 32 word) = ?g"
    using g(2) by (simp add: unat_of_nat)
  have gb: "unat v + (unat v + 2) div 2 \<le> ?g" "?g \<le> unat v + (unat v + 2) div 2 + unat v div 4"
    by (auto simp: rand_growth_def)
  then have "unat v < ?g" by linarith
  then show ?thesis
    using False gb u by (auto simp: g(1) Let_def word_le_nat_alt)
qed

subsection \<open>Properties\<close>

text \<open>Seconds and milliseconds stay consistent: from a consistent clock, after any sequence
  of clock updates (millisecond ticks or readings of the system clocks), the seconds counter
  is the whole number of seconds in the millisecond counter; and a seconds timer started for
  i seconds and checked then has expired if i seconds have passed since it was started, and
  only if more than i - 1 seconds have.\<close>

lemma timer_seconds_accuracy:
  assumes "clock_inv c" and "list_all clock_op_ok ops" and "0 < i"
  shows "let t = fst (timer_start TIMER_SEC i c);
             c' = fold clock_step ops c;
             elapsed = clock_get_milis c' - clock_get_milis c
         in clock_get_seconds c' = clock_get_milis c' div 1000 \<and>
            (elapsed \<ge> i * 1000 \<longrightarrow> fst (timer_expired t c')) \<and>
            (fst (timer_expired t c') \<longrightarrow> elapsed > (i - 1) * 1000)"
proof -
  have inv: "clock_inv (fold clock_step ops c)"
    using clock_steps_inv assms by blast
  have *: "i \<le> b div 1000 - a div 1000" if "i * 1000 \<le> b - a" for a b :: int
  proof -
    have "a div 1000 + i = (a + i * 1000) div 1000" by simp
    also have "\<dots> \<le> b div 1000" using that by (intro zdiv_mono1) simp_all
    finally show ?thesis by simp
  qed
  have **: "b - a > (i - 1) * 1000" if "i \<le> b div 1000 - a div 1000" for a b :: int
  proof -
    have "b div 1000 * 1000 \<le> b" "a < a div 1000 * 1000 + 1000"
      using div_mult_mod_eq [of b 1000] div_mult_mod_eq [of a 1000] pos_mod_bound [of 1000 a]
        pos_mod_sign [of 1000 b] by linarith+
    moreover have "i * 1000 \<le> b div 1000 * 1000 - a div 1000 * 1000"
      using that by linarith
    ultimately show ?thesis by (simp add: left_diff_distrib)
  qed
  show ?thesis
    using inv assms(1,3) * [of "clock_ms (fold clock_step ops c)" "clock_ms c"]
      ** [of "clock_ms (fold clock_step ops c)" "clock_ms c"]
    by (simp add: clock_inv_def Let_def clock_get_seconds_def clock_get_milis_def)
qed

text \<open>Back-off: increasing a timeout of at most 2^30 that has not reached its limit takes it to
  the limit or to a value above the old one, between 3/2 and 7/4 of it (rounded, plus 1); a
  timeout at or above the limit is left as it is and the limit is returned.\<close>

lemma rand_time_increase_bounds:
  assumes "unat v \<le> 2 ^ 30"
  shows "let (ret, v') = rand_time_increase v mx r; lo = unat v + (unat v + 2) div 2 in
    if mx \<noteq> 0 \<and> v \<ge> mx then ret = mx \<and> v' = v
    else ret = v' \<and> unat v < unat v' \<and> (mx \<noteq> 0 \<longrightarrow> v' \<le> mx) \<and>
      (v' = mx \<and> unat mx \<le> lo + unat v div 4 \<or> lo \<le> unat v' \<and> unat v' \<le> lo + unat v div 4)"
  using assms by (rule rand_increase_cases)

text \<open>The progress from 1 with the lowest and with the highest random values.\<close>

fun rand_progress :: "(32 word \<Rightarrow> 32 word) \<Rightarrow> nat \<Rightarrow> 32 word \<Rightarrow> 32 word list" where
  "rand_progress pick 0 v = []"
| "rand_progress pick (Suc n) v =
     (let v' = snd (rand_time_increase v 0 (pick v)) in v' # rand_progress pick n v')"

lemma rand_progress_from_1:
  "rand_progress (\<lambda>_. 0) 13 1 = [2, 4, 7, 11, 17, 26, 40, 61, 92, 139, 209, 314, 472]"
  "rand_progress (\<lambda>v. v div 4) 13 1 = [2, 4, 8, 15, 26, 46, 81, 142, 249, 436, 764, 1338, 2342]"
  by code_simp+

lemma repeater_attempts:
  "((\<lambda>r. snd (repeater_mark_attempt r)) ^^ n) r = r\<lparr>rp_counter := rp_counter r + word_of_nat n\<rparr>"
  by (induction n) (simp_all add: repeater_mark_attempt_def Let_def)

lemma repeater_is_waiting_sec:
  "tm_flags (rp_timer r) = TIMER_SEC \<Longrightarrow>
   fst (repeater_is_waiting r c) \<longleftrightarrow> tm_interval (rp_timer r) \<noteq> 0 \<and> clock_s c - tm_start (rp_timer r) < tm_interval (rp_timer r)"
  by (auto simp: repeater_is_waiting_def timer_running_def)

lemma repeater_not_waiting: "rp_timer r = timer_stop \<Longrightarrow> \<not> fst (repeater_is_waiting r c)"
  by (simp add: repeater_is_waiting_def)

text \<open>Retry schedule: after a reset and n attempts the repeater is exhausted exactly when it has
  a limit and n has reached it, and it does not wait; after backing off it waits for exactly
  its new timeout in seconds, which is at least the old one and does not exceed a maximum the
  old one respected.\<close>

lemma repeater_schedule:
  assumes "n < 2 ^ 32" and "0 < rp_timeout r" and "unat (rp_timeout r) \<le> 2 ^ 30"
  shows "let r1 = ((\<lambda>r. snd (repeater_mark_attempt r)) ^^ n) (repeater_reset r);
             (r2, c2) = repeater_back_off r1 mx rnd c
    in (repeater_is_exhausted r2 \<longleftrightarrow> 0 < rp_limit r \<and> unat (rp_limit r) \<le> n) \<and>
       \<not> fst (repeater_is_waiting r1 c') \<and> c2 = c \<and>
       (fst (repeater_is_waiting r2 c') \<longleftrightarrow> clock_get_seconds c' - clock_get_seconds c < uint (rp_timeout r2)) \<and>
       rp_timeout r \<le> rp_timeout r2 \<and> (rp_timeout r \<le> mx \<longrightarrow> rp_timeout r2 \<le> mx)"
proof -
  let ?v = "rp_timeout r"
  obtain ret v where rti: "rand_time_increase ?v mx rnd = (ret, v)"
    by fastforce
  have v: "?v \<le> v" "?v \<le> mx \<longrightarrow> v \<le> mx"
    using rand_increase_cases [OF assms(3), of mx rnd] rti assms(2)
    by (auto simp: Let_def word_le_nat_alt word_less_nat_alt split: if_splits)
  have "0 < v"
    using v(1) assms(2) by (metis order_less_le_trans)
  then have "0 < uint v"
    by (simp add: word_less_def)
  then show ?thesis
    using v assms(1) rti
    by (simp add: repeater_attempts repeater_reset_def repeater_back_off_def repeater_wait_def Let_def
        repeater_is_waiting_sec repeater_is_exhausted_def repeater_not_waiting
        word_le_nat_alt unat_of_nat clock_get_seconds_def)
qed

end
