(* ===== verification/Streams.thy ===== *)
theory Streams
  imports Timing
begin

section \<open>Streams (source/stream.c, source/private_stream.h)\<close>

text \<open>
  A stream either owns a file descriptor or decorates another stream. The C code dispatches
  through a vtable; here the operations of the decorated stream are a record \<open>stream_ops\<close>, so
  that a stack of streams is built layer by layer: \<open>base_ops\<close> at the bottom, and the records
  of the WebSocket and MQTT layers over any other. The kernel is a \<open>world\<close>: a script of what
  each \<open>read\<close> and \<open>write\<close> on a descriptor will answer (a write may also be refused with \<open>EAGAIN\<close> for
  ever), the bytes written so far, \<open>errno\<close>,
  the clock and the values \<open>rand()\<close> will return. Slices of the outgoing queue are the
  contents of their buffers (theory \<open>Buffer\<close>). \<^const>\<open>None\<close> is undefined behaviour or a
  loop that never ends. Observers of incoming data call application code and are not here.
\<close>

subsection \<open>The world\<close>

datatype errno = E_NONE | E_AGAIN | E_NOMEM | E_INTR | E_OTHER

datatype rd_event = RdData bytes | RdEof | RdErr errno
datatype wr_event = WrSome nat | WrErr errno | WrBlocked

record world =
  w_errno :: errno
  w_rd :: "int \<Rightarrow> rd_event list"
  w_wr :: "int \<Rightarrow> wr_event list"
  w_out :: "int \<Rightarrow> bytes"
  w_clock :: clock
  w_rand :: "nat \<Rightarrow> 32 word"
  w_rand_pos :: nat

text \<open>End of file stays at the head of the script; a script that is used up means no data yet.\<close>

definition sys_read :: "int \<Rightarrow> nat \<Rightarrow> world \<Rightarrow> int \<times> bytes \<times> world" where
  "sys_read fd len w =
     (case w_rd w fd of
        [] \<Rightarrow> (-1, [], w\<lparr>w_errno := E_AGAIN\<rparr>)
      | RdEof # es \<Rightarrow> (0, [], w)
      | RdErr e # es \<Rightarrow> (-1, [], w\<lparr>w_errno := e, w_rd := (w_rd w)(fd := es)\<rparr>)
      | RdData xs # es \<Rightarrow>
          (int (length (take len xs)), take len xs,
           w\<lparr>w_rd := (w_rd w)(fd := if length xs \<le> len then es else RdData (drop len xs) # es)\<rparr>))"

text \<open>
  \<open>WrBlocked\<close> stands for a peer that does not read any more: from there on every write answers
  \<open>EAGAIN\<close>. A script that is used up means that everything is accepted.
\<close>

definition sys_write :: "int \<Rightarrow> bytes \<Rightarrow> world \<Rightarrow> int \<times> world" where
  "sys_write fd xs w =
     (case w_wr w fd of
        [] \<Rightarrow> (int (length xs), w\<lparr>w_out := (w_out w)(fd := w_out w fd @ xs)\<rparr>)
      | WrBlocked # es \<Rightarrow> (-1, w\<lparr>w_errno := E_AGAIN\<rparr>)
      | WrErr e # es \<Rightarrow> (-1, w\<lparr>w_errno := e, w_wr := (w_wr w)(fd := es)\<rparr>)
      | WrSome n # es \<Rightarrow>
          (int (length (take n xs)),
           w\<lparr>w_out := (w_out w)(fd := w_out w fd @ take n xs), w_wr := (w_wr w)(fd := es)\<rparr>))"

subsection \<open>The stream and the operations of a decorated stream\<close>

datatype stream_status = STREAM_ST_INIT | STREAM_ST_READY | STREAM_ST_CLOSING | STREAM_ST_CLOSED

record 'd stream =
  st_fd :: int
  st_status :: stream_status
  st_decorated :: "'d option"
  st_outgoing :: "bytes list"

record 'd stream_ops =
  op_read :: "'d \<Rightarrow> nat \<Rightarrow> world \<Rightarrow> (int \<times> bytes \<times> 'd \<times> world) option"
  op_write :: "'d \<Rightarrow> bytes \<Rightarrow> world \<Rightarrow> (int \<times> 'd \<times> world) option"
  op_flush :: "'d \<Rightarrow> world \<Rightarrow> (int \<times> 'd \<times> world) option"
  op_time :: "'d \<Rightarrow> world \<Rightarrow> (int \<times> 'd \<times> world) option"
  op_get_fd :: "'d \<Rightarrow> int"
  op_get_status :: "'d \<Rightarrow> stream_status"
  op_has_outgoing_data :: "'d \<Rightarrow> bool"
  op_handle_outgoing_data :: "'d \<Rightarrow> world \<Rightarrow> (int \<times> 'd \<times> world) option"
  op_reset_outgoing_data :: "'d \<Rightarrow> 'd"

definition stream_init :: "int \<Rightarrow> 'd option \<Rightarrow> 'd stream" where
  "stream_init fd decorated =
     \<lparr>st_fd = fd, st_status = (if fd \<ge> 0 then STREAM_ST_READY else STREAM_ST_INIT),
      st_decorated = decorated, st_outgoing = []\<rparr>"

definition stream_get_fd :: "'d stream_ops \<Rightarrow> 'd stream \<Rightarrow> int" where
  "stream_get_fd ops self =
     (case st_decorated self of Some d \<Rightarrow> op_get_fd ops d | None \<Rightarrow> st_fd self)"

definition stream_set_status :: "'d stream \<Rightarrow> stream_status \<Rightarrow> 'd stream" where
  "stream_set_status self status = self\<lparr>st_status := status\<rparr>"

definition stream_get_status :: "'d stream \<Rightarrow> stream_status" where
  "stream_get_status self = st_status self"

definition stream_real_read ::
    "'d stream_ops \<Rightarrow> 'd stream \<Rightarrow> nat \<Rightarrow> world \<Rightarrow> (int \<times> bytes \<times> 'd stream \<times> world) option" where
  "stream_real_read ops self len w =
     (case st_decorated self of
        Some d \<Rightarrow> do {
          (ret, xs, d, w) \<leftarrow> op_read ops d len w;
          Some (ret, xs, self\<lparr>st_decorated := Some d\<rparr>, w)
        }
      | None \<Rightarrow> let (ret, xs, w) = sys_read (st_fd self) len w in Some (ret, xs, self, w))"

definition stream_real_write ::
    "'d stream_ops \<Rightarrow> 'd stream \<Rightarrow> bytes \<Rightarrow> world \<Rightarrow> (int \<times> 'd stream \<times> world) option" where
  "stream_real_write ops self xs w =
     (case st_decorated self of
        Some d \<Rightarrow> do {
          (ret, d, w) \<leftarrow> op_write ops d xs w;
          Some (ret, self\<lparr>st_decorated := Some d\<rparr>, w)
        }
      | None \<Rightarrow> let (ret, w) = sys_write (st_fd self) xs w in Some (ret, self, w))"

definition stream_queue_outgoing_data :: "'d stream \<Rightarrow> bytes \<Rightarrow> int \<times> 'd stream" where
  "stream_queue_outgoing_data self xs =
     (int (length xs), self\<lparr>st_outgoing := st_outgoing self @ [xs]\<rparr>)"

definition stream_has_outgoing_data :: "'d stream_ops \<Rightarrow> 'd stream \<Rightarrow> bool" where
  "stream_has_outgoing_data ops self =
     (if (case st_decorated self of None \<Rightarrow> True | Some d \<Rightarrow> op_get_status ops d = STREAM_ST_READY)
         \<and> st_outgoing self \<noteq> []
      then True
      else case st_decorated self of Some d \<Rightarrow> op_has_outgoing_data ops d | None \<Rightarrow> False)"

definition stream_reset_outgoing_data :: "'d stream_ops \<Rightarrow> 'd stream \<Rightarrow> 'd stream" where
  "stream_reset_outgoing_data ops self =
     self\<lparr>st_decorated := map_option (op_reset_outgoing_data ops) (st_decorated self), st_outgoing := []\<rparr>"

text \<open>
  The loop of \<open>stream_handle_outgoing_data\<close>. Cutting more bytes off a slice than it holds moves
  its data pointer out of the block, which is undefined.
\<close>

definition slice_cut :: "bytes \<Rightarrow> int \<Rightarrow> bytes option" where
  "slice_cut slc n = (if n \<le> int (length slc) then Some (drop (nat n) slc) else None)"

lemma stream_real_write_outgoing:
  "stream_real_write ops self xs w = Some (ret, self', w') \<Longrightarrow> st_outgoing self' = st_outgoing self"
  by (auto simp: stream_real_write_def split: option.splits prod.splits Option.bind_splits)

function stream_handle_outgoing_loop ::
    "'d stream_ops \<Rightarrow> 'd stream \<Rightarrow> int \<Rightarrow> world \<Rightarrow> (int \<times> 'd stream \<times> world) option" where
  "stream_handle_outgoing_loop ops self written w =
     (case st_outgoing self of
        [] \<Rightarrow> Some (written, self, w)
      | slc # rest \<Rightarrow>
          (case stream_real_write ops self slc w of
             None \<Rightarrow> None
           | Some (ret, self', w') \<Rightarrow>
               if ret \<le> 0 then Some (c_int ret, self', w')
               else let written = c_int (written + ret) in
                 (case slice_cut slc ret of
                    None \<Rightarrow> None
                  | Some slc' \<Rightarrow>
                      if slc' \<noteq> [] then Some (written, self'\<lparr>st_outgoing := slc' # rest\<rparr>, w')
                      else stream_handle_outgoing_loop ops (self'\<lparr>st_outgoing := rest\<rparr>) written w')))"
  by pat_completeness auto
termination
  by (relation "measure (\<lambda>(_, self, _, _). length (st_outgoing self))") auto

declare stream_handle_outgoing_loop.simps [simp del]

definition stream_handle_outgoing_data ::
    "'d stream_ops \<Rightarrow> 'd stream \<Rightarrow> world \<Rightarrow> (int \<times> 'd stream \<times> world) option" where
  "stream_handle_outgoing_data ops self w = do {
     (written, self, w) \<leftarrow> (case st_decorated self of
         Some d \<Rightarrow> do {
           (written, d, w) \<leftarrow> op_handle_outgoing_data ops d w;
           Some (written, self\<lparr>st_decorated := Some d\<rparr>, w)
         }
       | None \<Rightarrow> Some (0, self, w));
     stream_handle_outgoing_loop ops self written w
   }"

definition stream_do_read ::
    "'d stream_ops \<Rightarrow> 'd stream \<Rightarrow> nat \<Rightarrow> world \<Rightarrow> (int \<times> bytes \<times> 'd stream \<times> world) option" where
  "stream_do_read ops self len w = stream_real_read ops self len w"

text \<open>\<open>int ret\<close> truncates the result of the write; the comparison is made in \<open>size_t\<close>.\<close>

definition stream_do_write ::
    "'d stream_ops \<Rightarrow> 'd stream \<Rightarrow> bytes \<Rightarrow> world \<Rightarrow> (int \<times> 'd stream \<times> world) option" where
  "stream_do_write ops self xs w =
     (if st_outgoing self \<noteq> []
      then let (ret, self) = stream_queue_outgoing_data self xs in Some (ret, self, w)
      else do {
        (r, self, w) \<leftarrow> stream_real_write ops self xs w;
        let ret = c_int r;
        if ret < 0 then
          (if w_errno w = E_AGAIN
           then Some (int (length xs), snd (stream_queue_outgoing_data self xs), w)
           else Some (ret, self, w))
        else if nat ret < length xs
        then Some (int (length xs), snd (stream_queue_outgoing_data self (drop (nat ret) xs)), w)
        else Some (int (length xs), self, w)
      })"

text \<open>\<open>EAGAIN\<close> makes the flush loop try again at once; it may not end.\<close>

partial_function (option) stream_flush_loop ::
    "'d stream_ops \<Rightarrow> 'd stream \<Rightarrow> world \<Rightarrow> (int option \<times> 'd stream \<times> world) option" where
  "stream_flush_loop ops self w =
     (if st_outgoing self = [] then Some (None, self, w)
      else do {
        (ret, self, w) \<leftarrow> stream_handle_outgoing_data ops self w;
        if ret = 0 then Some (Some ret, self, w)
        else if ret < 0 \<and> w_errno w \<noteq> E_AGAIN then Some (Some ret, self, w)
        else stream_flush_loop ops self w
      })"

definition stream_do_flush ::
    "'d stream_ops \<Rightarrow> 'd stream \<Rightarrow> world \<Rightarrow> (int \<times> 'd stream \<times> world) option" where
  "stream_do_flush ops self w = do {
     (r, self, w) \<leftarrow> stream_flush_loop ops self w;
     case r of
       Some ret \<Rightarrow> Some (ret, self, w)
     | None \<Rightarrow>
         (case st_decorated self of
            Some d \<Rightarrow> do {
              (ret, d, w) \<leftarrow> op_flush ops d w;
              Some (ret, self\<lparr>st_decorated := Some d\<rparr>, w)
            }
          | None \<Rightarrow> Some (1, self, w))
   }"

definition stream_do_time ::
    "'d stream_ops \<Rightarrow> 'd stream \<Rightarrow> world \<Rightarrow> (int \<times> 'd stream \<times> world) option" where
  "stream_do_time ops self w =
     (case st_decorated self of
        Some d \<Rightarrow> do {
          (ret, d, w) \<leftarrow> op_time ops d w;
          Some (ret, self\<lparr>st_decorated := Some d\<rparr>, w)
        }
      | None \<Rightarrow> Some (1, self, w))"

text \<open>\<open>stream_vtable\<close> with the non-virtual functions that walk down a stack.\<close>

definition stream_ops_of :: "'d stream_ops \<Rightarrow> 'd stream stream_ops" where
  "stream_ops_of ops = \<lparr>op_read = stream_do_read ops, op_write = stream_do_write ops,
     op_flush = stream_do_flush ops, op_time = stream_do_time ops,
     op_get_fd = stream_get_fd ops, op_get_status = stream_get_status,
     op_has_outgoing_data = stream_has_outgoing_data ops,
     op_handle_outgoing_data = stream_handle_outgoing_data ops,
     op_reset_outgoing_data = stream_reset_outgoing_data ops\<rparr>"

text \<open>The bottom of a stack decorates nothing: its lower operations are never called.\<close>

definition no_ops :: "unit stream_ops" where
  "no_ops = \<lparr>op_read = \<lambda>_ _ _. None, op_write = \<lambda>_ _ _. None, op_flush = \<lambda>_ _. None,
     op_time = \<lambda>_ _. None, op_get_fd = \<lambda>_. -1, op_get_status = \<lambda>_. STREAM_ST_INIT,
     op_has_outgoing_data = \<lambda>_. False, op_handle_outgoing_data = \<lambda>_ _. None,
     op_reset_outgoing_data = \<lambda>d. d\<rparr>"

definition base_ops :: "unit stream stream_ops" where
  "base_ops = stream_ops_of no_ops"

definition stream_new :: "int \<Rightarrow> unit stream" where
  "stream_new fd = stream_init fd None"

subsection \<open>The contract of a stream layer\<close>

text \<open>
  What a layer offers to the one above. \<open>sent\<close> is everything that was accepted for the
  descriptor: the bytes written and those still queued, in order. \<open>wire\<close> relates the bytes a
  client writes to the bytes they become further down. \<open>pending\<close> bounds the reads that can still
  deliver data. Writes are all-or-nothing, and a refused write never says \<open>EAGAIN\<close>.
\<close>

locale stream_writer =
  fixes ops :: "'d stream_ops"
    and inv :: "'d \<Rightarrow> bool"
    and sent :: "'d \<Rightarrow> world \<Rightarrow> bytes"
    and wire :: "bytes \<Rightarrow> bytes \<Rightarrow> bool"
    and pending :: "'d \<Rightarrow> world \<Rightarrow> nat"
    and limit :: nat
  assumes limit_int: "limit \<le> 2 ^ 31"
    and rand_law: "sent d (w\<lparr>w_rand_pos := n\<rparr>) = sent d w" "pending d (w\<lparr>w_rand_pos := n\<rparr>) = pending d w"
    and write_law: "inv d \<Longrightarrow> xs \<noteq> [] \<Longrightarrow> length xs < limit \<Longrightarrow>
      \<exists>ret d' w'. op_write ops d xs w = Some (ret, d', w') \<and> inv d' \<and> w_clock w' = w_clock w \<and>
        pending d' w' \<le> pending d w \<and>
        (int (length xs) \<le> ret \<and> ret < 2 ^ 31 \<and> (\<exists>ys. wire xs ys \<and> sent d' w' = sent d w @ ys) \<or>
         ret < 0 \<and> - (2 ^ 31) \<le> ret \<and> w_errno w' \<noteq> E_AGAIN \<and> sent d' w' = sent d w)"
    and handle_law: "inv d \<Longrightarrow>
      \<exists>ret d' w'. op_handle_outgoing_data ops d w = Some (ret, d', w') \<and> inv d' \<and>
        w_clock w' = w_clock w \<and> pending d' w' \<le> pending d w \<and> sent d' w' = sent d w"
begin

text \<open>A stream over the layer: its own queue stays empty, all queueing happens below.\<close>

definition over :: "'d stream \<Rightarrow> bool" where
  "over s \<longleftrightarrow> st_outgoing s = [] \<and> (\<exists>d. st_decorated s = Some d \<and> inv d)"

definition sent_over :: "'d stream \<Rightarrow> world \<Rightarrow> bytes" where
  "sent_over s w = (case st_decorated s of Some d \<Rightarrow> sent d w | None \<Rightarrow> [])"

definition pending_over :: "'d stream \<Rightarrow> world \<Rightarrow> nat" where
  "pending_over s w = (case st_decorated s of Some d \<Rightarrow> pending d w | None \<Rightarrow> 0)"

lemma over_status [simp]: "over (s\<lparr>st_status := x\<rparr>) = over s"
  "sent_over (s\<lparr>st_status := x\<rparr>) w = sent_over s w" "pending_over (s\<lparr>st_status := x\<rparr>) w = pending_over s w"
  by (simp_all add: over_def sent_over_def pending_over_def)

lemma do_write_over:
  assumes "over s" and "xs \<noteq> []" and "length xs < limit"
  shows "\<exists>ret s' w'. stream_do_write ops s xs w = Some (ret, s', w') \<and> over s' \<and>
    w_clock w' = w_clock w \<and> st_status s' = st_status s \<and> pending_over s' w' \<le> pending_over s w \<and>
    (ret = int (length xs) \<and> (\<exists>ys. wire xs ys \<and> sent_over s' w' = sent_over s w @ ys) \<or>
     ret < 0 \<and> - (2 ^ 31) \<le> ret \<and> w_errno w' \<noteq> E_AGAIN \<and> sent_over s' w' = sent_over s w)"
proof -
  obtain d where d: "st_decorated s = Some d" "inv d" "st_outgoing s = []"
    using assms(1) by (auto simp: over_def)
  obtain ret d' w' where w: "op_write ops d xs w = Some (ret, d', w')" "inv d'" "w_clock w' = w_clock w"
      "pending d' w' \<le> pending d w"
    and r: "int (length xs) \<le> ret \<and> ret < 2 ^ 31 \<and> (\<exists>ys. wire xs ys \<and> sent d' w' = sent d w @ ys) \<or>
      ret < 0 \<and> - (2 ^ 31) \<le> ret \<and> w_errno w' \<noteq> E_AGAIN \<and> sent d' w' = sent d w"
    using write_law [OF d(2) assms(2,3), of w] by blast
  have c: "c_int ret = ret"
    using r by (intro c_int_small) auto
  have s': "over (s\<lparr>st_decorated := Some d'\<rparr>)"
    using d(3) w(2) by (simp add: over_def)
  from r show ?thesis
  proof
    assume "int (length xs) \<le> ret \<and> ret < 2 ^ 31 \<and> (\<exists>ys. wire xs ys \<and> sent d' w' = sent d w @ ys)"
    then show ?thesis
      using d w c s' by (auto simp: stream_do_write_def stream_real_write_def sent_over_def pending_over_def)
  next
    assume "ret < 0 \<and> - (2 ^ 31) \<le> ret \<and> w_errno w' \<noteq> E_AGAIN \<and> sent d' w' = sent d w"
    then show ?thesis
      using d w c s' by (auto simp: stream_do_write_def stream_real_write_def sent_over_def pending_over_def)
  qed
qed

lemma handle_over:
  assumes "over s"
  shows "\<exists>ret s' w'. stream_handle_outgoing_data ops s w = Some (ret, s', w') \<and> over s' \<and>
    w_clock w' = w_clock w \<and> pending_over s' w' \<le> pending_over s w \<and> sent_over s' w' = sent_over s w"
proof -
  obtain d where d: "st_decorated s = Some d" "inv d" "st_outgoing s = []"
    using assms by (auto simp: over_def)
  obtain ret d' w' where h: "op_handle_outgoing_data ops d w = Some (ret, d', w')" "inv d'"
      "w_clock w' = w_clock w" "pending d' w' \<le> pending d w" "sent d' w' = sent d w"
    using handle_law [OF d(2), of w] by blast
  then show ?thesis
    using d by (simp add: stream_handle_outgoing_data_def stream_handle_outgoing_loop.simps over_def
        sent_over_def pending_over_def)
qed

end

text \<open>A layer that can be read as well: every read returns.\<close>

locale stream_layer = stream_writer +
  assumes read_law: "inv d \<Longrightarrow> 0 < len \<Longrightarrow>
      \<exists>ret xs d' w'. op_read ops d len w = Some (ret, xs, d', w') \<and> inv d' \<and>
        w_clock w' = w_clock w \<and> (\<exists>ys. sent d' w' = sent d w @ ys) \<and>
        (if 0 < ret then ret = int (length xs) \<and> length xs \<le> len \<and> pending d' w' < pending d w
         else xs = [] \<and> pending d' w' \<le> pending d w)"
begin

lemma read_over:
  assumes "over s" and "0 < len"
  shows "\<exists>ret xs s' w'. stream_real_read ops s len w = Some (ret, xs, s', w') \<and> over s' \<and>
    w_clock w' = w_clock w \<and> st_status s' = st_status s \<and> (\<exists>ys. sent_over s' w' = sent_over s w @ ys) \<and>
    (if 0 < ret then ret = int (length xs) \<and> length xs \<le> len \<and> pending_over s' w' < pending_over s w
     else xs = [] \<and> pending_over s' w' \<le> pending_over s w)"
proof -
  obtain d where d: "st_decorated s = Some d" "inv d" "st_outgoing s = []"
    using assms(1) by (auto simp: over_def)
  then show ?thesis
    using read_law [OF d(2) assms(2), of w]
    by (fastforce simp: stream_real_read_def over_def sent_over_def pending_over_def)
qed

end

subsection \<open>The bottom layer keeps the contract\<close>

text \<open>Writes on \<open>fd\<close> may be refused, but not with \<open>EAGAIN\<close> for ever.\<close>

definition writable :: "int \<Rightarrow> world \<Rightarrow> bool" where
  "writable fd w \<longleftrightarrow> WrBlocked \<notin> set (w_wr w fd)"

text \<open>Writes on \<open>fd\<close> answer \<open>EAGAIN\<close> from now on.\<close>

definition blocked :: "int \<Rightarrow> world \<Rightarrow> bool" where
  "blocked fd w \<longleftrightarrow> (\<exists>es. w_wr w fd = WrBlocked # es)"

definition base_inv :: "unit stream \<Rightarrow> bool" where
  "base_inv s \<longleftrightarrow> st_decorated s = None \<and> (\<forall>x \<in> set (st_outgoing s). x \<noteq> [] \<and> length x < 2 ^ 31)"

definition base_sent :: "unit stream \<Rightarrow> world \<Rightarrow> bytes" where
  "base_sent s w = w_out w (st_fd s) @ concat (st_outgoing s)"

fun event_weight :: "rd_event \<Rightarrow> nat" where
  "event_weight (RdData xs) = length xs"
| "event_weight _ = 0"

definition base_pending :: "unit stream \<Rightarrow> world \<Rightarrow> nat" where
  "base_pending s w = sum_list (map event_weight (w_rd w (st_fd s)))"

text \<open>The next write on \<open>fd\<close> fails with \<open>e\<close>.\<close>

definition fails :: "int \<Rightarrow> errno \<Rightarrow> world \<Rightarrow> bool" where
  "fails fd e w \<longleftrightarrow> (\<exists>es. w_wr w fd = WrErr e # es) \<or> blocked fd w \<and> e = E_AGAIN"

text \<open>A write to a stream that owns its descriptor fails: nothing is queued and the kernel answers
  an error other than \<open>EAGAIN\<close>.\<close>

definition refused :: "unit stream \<Rightarrow> world \<Rightarrow> bool" where
  "refused s w \<longleftrightarrow> st_outgoing s = [] \<and> (\<exists>e. e \<noteq> E_AGAIN \<and> fails (st_fd s) e w)"

lemma sys_write_cases:
  obtains (some) n w' where "sys_write fd xs w = (int n, w')" "n \<le> length xs"
      "w_out w' fd = w_out w fd @ take n xs" "w_clock w' = w_clock w" "w_rd w' = w_rd w"
      "length (w_wr w' fd) \<le> length (w_wr w fd)" "length (w_wr w' fd) < length (w_wr w fd) \<or> n = length xs"
      "writable fd w \<longrightarrow> writable fd w'" "\<nexists>x. fails fd x w"
    | (err) e w' where "sys_write fd xs w = (-1, w')" "w_out w' = w_out w" "w_clock w' = w_clock w"
      "w_rd w' = w_rd w" "w_errno w' = e" "writable fd w \<longrightarrow> writable fd w' \<and> length (w_wr w' fd) < length (w_wr w fd)"
      "\<forall>x. fails fd x w \<longleftrightarrow> x = e"
proof (cases "w_wr w fd")
  case Nil
  then have "sys_write fd xs w = (int (length xs), w\<lparr>w_out := (w_out w)(fd := w_out w fd @ xs)\<rparr>)"
    by (simp add: sys_write_def)
  then show ?thesis
    by (rule some) (simp_all add: Nil writable_def blocked_def fails_def)
next
  case (Cons e es)
  show ?thesis
  proof (cases e)
    case (WrSome n)
    have "sys_write fd xs w = (int (min (length xs) n), w\<lparr>w_out := (w_out w)(fd := w_out w fd @ take n xs),
        w_wr := (w_wr w)(fd := es)\<rparr>)"
      using Cons WrSome by (simp add: sys_write_def)
    then show ?thesis
      by (rule some) (simp_all add: Cons WrSome min_def writable_def blocked_def fails_def)
  next
    case (WrErr x)
    then have "sys_write fd xs w = (-1, w\<lparr>w_errno := x, w_wr := (w_wr w)(fd := es)\<rparr>)"
      using Cons by (simp add: sys_write_def)
    then show ?thesis
      by (rule err) (auto simp: Cons WrErr writable_def blocked_def fails_def)
  next
    case WrBlocked
    then have "sys_write fd xs w = (-1, w\<lparr>w_errno := E_AGAIN\<rparr>)"
      using Cons by (simp add: sys_write_def)
    then show ?thesis
      by (rule err) (auto simp: Cons WrBlocked writable_def blocked_def fails_def)
  qed
qed

lemma base_handle_loop:
  assumes "base_inv s"
  shows "\<exists>ret s' w'. stream_handle_outgoing_loop ops s n w = Some (ret, s', w') \<and> base_inv s' \<and>
    st_fd s' = st_fd s \<and> st_status s' = st_status s \<and> w_clock w' = w_clock w \<and> w_rd w' = w_rd w \<and>
    base_sent s' w' = base_sent s w \<and>
    (writable (st_fd s) w \<longrightarrow> writable (st_fd s) w' \<and>
      (st_outgoing s' = [] \<or> length (w_wr w' (st_fd s)) < length (w_wr w (st_fd s))))"
  using assms
proof (induction "length (st_outgoing s)" arbitrary: s n w)
  case 0
  then show ?case
    by (auto simp: stream_handle_outgoing_loop.simps)
next
  case (Suc k)
  then obtain slc rest where q: "st_outgoing s = slc # rest" "k = length rest"
    by (cases "st_outgoing s") auto
  have b: "st_decorated s = None" "slc \<noteq> []" "length slc < 2 ^ 31" "base_inv (s\<lparr>st_outgoing := rest\<rparr>)"
    using Suc.prems q by (auto simp: base_inv_def)
  show ?case
  proof (cases rule: sys_write_cases [of "st_fd s" slc w])
    case (err e w')
    then show ?thesis
      using b q Suc.prems
      by (subst stream_handle_outgoing_loop.simps) (auto simp: stream_real_write_def base_sent_def)
  next
    case (some m w')
    note real = some(1) b(1)
    consider "m = 0" | "0 < m" "m < length slc" | "0 < m" "m = length slc"
      using some(2) by linarith
    then show ?thesis
    proof cases
      case 1
      then show ?thesis
        using some b q Suc.prems
        by (subst stream_handle_outgoing_loop.simps) (auto simp: stream_real_write_def base_sent_def)
    next
      case 2
      let ?s = "s\<lparr>st_outgoing := drop m slc # rest\<rparr>"
      have "stream_handle_outgoing_loop ops s n w = Some (c_int (n + int m), ?s, w')"
        using 2 real q by (subst stream_handle_outgoing_loop.simps)
          (simp add: stream_real_write_def slice_cut_def Let_def)
      moreover have "base_inv ?s"
        using Suc.prems q 2 by (auto simp: base_inv_def)
      moreover have "base_sent ?s w' = base_sent s w"
        using some q by (simp add: base_sent_def)
      ultimately show ?thesis
        using some 2 by auto
    next
      case 3
      let ?s = "s\<lparr>st_outgoing := rest\<rparr>"
      have step: "stream_handle_outgoing_loop ops s n w = stream_handle_outgoing_loop ops ?s (c_int (n + int m)) w'"
        using 3 real q by (subst stream_handle_outgoing_loop.simps)
          (simp add: stream_real_write_def slice_cut_def Let_def)
      have sent: "base_sent ?s w' = base_sent s w"
        using some 3 q by (simp add: base_sent_def)
      obtain ret s2 w2 where r: "stream_handle_outgoing_loop ops ?s (c_int (n + int m)) w' = Some (ret, s2, w2)"
        "base_inv s2" "st_fd s2 = st_fd s" "st_status s2 = st_status s" "w_clock w2 = w_clock w'" "w_rd w2 = w_rd w'"
        "base_sent s2 w2 = base_sent ?s w'"
        "writable (st_fd s) w' \<longrightarrow> writable (st_fd s) w2 \<and>
          (st_outgoing s2 = [] \<or> length (w_wr w2 (st_fd s)) < length (w_wr w' (st_fd s)))"
        using Suc.hyps(1) [of ?s "c_int (n + int m)" w'] b(4) q by auto
      then show ?thesis
        using step sent some(4-6,8) by auto
    qed
  qed
qed

lemma base_handle:
  assumes "base_inv s"
  shows "\<exists>ret s' w'. stream_handle_outgoing_data ops s w = Some (ret, s', w') \<and> base_inv s' \<and>
    st_fd s' = st_fd s \<and> st_status s' = st_status s \<and> w_clock w' = w_clock w \<and> w_rd w' = w_rd w \<and>
    base_sent s' w' = base_sent s w \<and>
    (writable (st_fd s) w \<longrightarrow> writable (st_fd s) w' \<and>
      (st_outgoing s' = [] \<or> length (w_wr w' (st_fd s)) < length (w_wr w (st_fd s))))"
  using base_handle_loop [OF assms, of ops 0 w] assms
  by (simp add: stream_handle_outgoing_data_def base_inv_def)

lemma base_write:
  assumes "base_inv s" and "xs \<noteq> []" and "length xs < 2 ^ 31"
  shows "\<exists>ret s' w'. stream_do_write ops s xs w = Some (ret, s', w') \<and> base_inv s' \<and>
    st_fd s' = st_fd s \<and> st_status s' = st_status s \<and> w_clock w' = w_clock w \<and> w_rd w' = w_rd w \<and>
    (writable (st_fd s) w \<longrightarrow> writable (st_fd s) w') \<and>
    (if refused s w then ret = -1 \<and> w_errno w' \<noteq> E_AGAIN \<and> base_sent s' w' = base_sent s w
     else ret = int (length xs) \<and> base_sent s' w' = base_sent s w @ xs)"
proof (cases "st_outgoing s = []")
  case False
  then show ?thesis
    using assms by (auto simp: stream_do_write_def stream_queue_outgoing_data_def base_inv_def base_sent_def refused_def)
next
  case True
  have d: "st_decorated s = None"
    using assms(1) by (simp add: base_inv_def)
  show ?thesis
  proof (cases rule: sys_write_cases [of "st_fd s" xs w])
    case (err e w')
    then show ?thesis
      using True d assms
      by (auto simp: stream_do_write_def stream_real_write_def stream_queue_outgoing_data_def base_inv_def
          base_sent_def refused_def)
  next
    case (some n w')
    have "c_int (int n) = int n"
      using some(2) assms(3) by (intro c_int_small) auto
    then show ?thesis
      using some True d assms
      by (auto simp: stream_do_write_def stream_real_write_def stream_queue_outgoing_data_def base_inv_def
          base_sent_def refused_def)
  qed
qed

lemma base_read:
  assumes "base_inv s" and "0 < len"
  shows "\<exists>ret xs w'. stream_do_read ops s len w = Some (ret, xs, s, w') \<and>
    w_clock w' = w_clock w \<and> w_out w' = w_out w \<and>
    (if 0 < ret then ret = int (length xs) \<and> length xs \<le> len \<and> base_pending s w' < base_pending s w
     else xs = [] \<and> base_pending s w' \<le> base_pending s w)"
proof (cases "w_rd w (st_fd s)")
  case Nil
  then show ?thesis
    using assms by (simp add: stream_do_read_def stream_real_read_def base_inv_def sys_read_def base_pending_def)
next
  case (Cons e es)
  then show ?thesis
    using assms
    by (cases e) (auto simp: stream_do_read_def stream_real_read_def base_inv_def sys_read_def base_pending_def)
qed

interpretation base: stream_layer base_ops base_inv base_sent "\<lambda>xs ys. ys = xs" base_pending "2 ^ 31"
proof unfold_locales
  fix d :: "unit stream" and xs :: bytes and w
  assume "base_inv d" "xs \<noteq> []" "length xs < 2 ^ 31"
  from base_write [OF this, of no_ops w]
  show "\<exists>ret d' w'. op_write base_ops d xs w = Some (ret, d', w') \<and> base_inv d' \<and> w_clock w' = w_clock w \<and>
      base_pending d' w' \<le> base_pending d w \<and>
      (int (length xs) \<le> ret \<and> ret < 2 ^ 31 \<and> (\<exists>ys. ys = xs \<and> base_sent d' w' = base_sent d w @ ys) \<or>
       ret < 0 \<and> - (2 ^ 31) \<le> ret \<and> w_errno w' \<noteq> E_AGAIN \<and> base_sent d' w' = base_sent d w)"
    using \<open>length xs < 2 ^ 31\<close>
    by (cases "refused d w") (fastforce simp: base_ops_def stream_ops_of_def base_pending_def)+
next
  fix d :: "unit stream" and w
  assume "base_inv d"
  from base_handle [OF this, of no_ops w]
  show "\<exists>ret d' w'. op_handle_outgoing_data base_ops d w = Some (ret, d', w') \<and> base_inv d' \<and>
      w_clock w' = w_clock w \<and> base_pending d' w' \<le> base_pending d w \<and> base_sent d' w' = base_sent d w"
    by (fastforce simp: base_ops_def stream_ops_of_def base_pending_def)
next
  fix d :: "unit stream" and w and len :: nat
  assume "base_inv d" "0 < len"
  from base_read [OF this, of no_ops w]
  show "\<exists>ret xs d' w'. op_read base_ops d len w = Some (ret, xs, d', w') \<and> base_inv d' \<and>
      w_clock w' = w_clock w \<and> (\<exists>ys. base_sent d' w' = base_sent d w @ ys) \<and>
      (if 0 < ret then ret = int (length xs) \<and> length xs \<le> len \<and> base_pending d' w' < base_pending d w
       else xs = [] \<and> base_pending d' w' \<le> base_pending d w)"
    using \<open>base_inv d\<close> by (fastforce simp: base_ops_def stream_ops_of_def base_sent_def)
qed (simp_all add: base_sent_def base_pending_def)

subsection \<open>Flushing ends\<close>

lemma flush_loop_empty: "st_outgoing s = [] \<Longrightarrow> stream_flush_loop ops s w = Some (None, s, w)"
  by (subst stream_flush_loop.simps) simp

lemma base_flush_loop:
  assumes "base_inv s" and "writable (st_fd s) w"
  shows "\<exists>r s' w'. stream_flush_loop ops s w = Some (r, s', w') \<and> writable (st_fd s) w'"
  using assms
proof (induction "length (w_wr w (st_fd s))" arbitrary: s w rule: less_induct)
  case less
  obtain ret s1 w1 where h: "stream_handle_outgoing_data ops s w = Some (ret, s1, w1)" "base_inv s1"
    "st_fd s1 = st_fd s" "writable (st_fd s) w1"
    "st_outgoing s1 = [] \<or> length (w_wr w1 (st_fd s)) < length (w_wr w (st_fd s))"
    using base_handle [OF less.prems(1), of ops w] less.prems(2) by blast
  then have "\<exists>r s' w'. stream_flush_loop ops s1 w1 = Some (r, s', w') \<and> writable (st_fd s) w'"
    using less.hyps [of w1 s1] flush_loop_empty [of s1 ops w1] by (cases "st_outgoing s1 = []") auto
  then show ?case
    using h(1,4) less.prems(2) by (subst stream_flush_loop.simps) auto
qed

text \<open>Whatever the kernel answers: a flush that returns has lost nothing.\<close>

lemma base_flush_result:
  "stream_flush_loop ops s w = Some x \<Longrightarrow> base_inv s \<Longrightarrow> (case x of (r, s', w') \<Rightarrow>
    base_inv s' \<and> st_fd s' = st_fd s \<and> base_sent s' w' = base_sent s w \<and>
    (case r of None \<Rightarrow> st_outgoing s' = [] | Some y \<Rightarrow> y \<le> 0))"
proof (induction rule: stream_flush_loop.raw_induct [rotated, consumes 1, case_names step])
  case (step loop ops s w x)
  obtain ret s1 w1 where h: "stream_handle_outgoing_data ops s w = Some (ret, s1, w1)" "base_inv s1"
    "st_fd s1 = st_fd s" "base_sent s1 w1 = base_sent s w"
    using base_handle [OF step(3), of ops w] by blast
  show ?case
    using step(1) [of ops s1 w1 x] step(2,3) h by (auto split: if_splits)
qed

lemma base_handle_blocked:
  assumes "base_inv s" and "st_outgoing s \<noteq> []" and "blocked (st_fd s) w"
  shows "stream_handle_outgoing_data ops s w = Some (-1, s, w\<lparr>w_errno := E_AGAIN\<rparr>)"
  using assms by (cases "st_outgoing s")
    (auto simp: stream_handle_outgoing_data_def stream_handle_outgoing_loop.simps base_inv_def blocked_def
      stream_real_write_def sys_write_def c_int_small)

lemma base_flush_blocked:
  "stream_flush_loop ops s w = Some x \<Longrightarrow> base_inv s \<Longrightarrow> st_outgoing s \<noteq> [] \<Longrightarrow> blocked (st_fd s) w \<Longrightarrow> False"
proof (induction rule: stream_flush_loop.raw_induct [rotated, consumes 1, case_names step])
  case (step loop ops s w x)
  have "blocked (st_fd s) (w\<lparr>w_errno := E_AGAIN\<rparr>)"
    using step(5) by (simp add: blocked_def)
  then show ?case
    using step(1) [of ops s "w\<lparr>w_errno := E_AGAIN\<rparr>" x] step(2-5) base_handle_blocked [OF step(3-5), of ops] by simp
qed

subsection \<open>Timers in seconds, read against the clock of the world\<close>

lemma world_clock_same [simp]: "w\<lparr>w_clock := w_clock w\<rparr> = w"
  by simp

definition sec_timer :: "timer \<Rightarrow> bool" where
  "sec_timer t \<longleftrightarrow> t = timer_stop \<or> tm_flags t = TIMER_SEC"

definition deadline_passed :: "timer \<Rightarrow> world \<Rightarrow> bool" where
  "deadline_passed t w \<longleftrightarrow> timer_running t \<and> tm_interval t \<le> clock_get_seconds (w_clock w) - tm_start t"

lemma timer_expired_world:
  "sec_timer t \<Longrightarrow> timer_expired t (w_clock w) = (deadline_passed t w, w_clock w)"
  by (auto simp: sec_timer_def deadline_passed_def timer_running_def clock_get_seconds_def timer_stop_def
      timer_expired_def timer_value_def)

subsection \<open>Properties\<close>

datatype stream_call = Write_call bytes | Handle_call | Flush_call

fun stream_run :: "stream_call list \<Rightarrow> unit stream \<Rightarrow> world \<Rightarrow> (bytes \<times> unit stream \<times> world) option" where
  "stream_run [] s w = Some ([], s, w)"
| "stream_run (Write_call xs # cs) s w = do {
     (ret, s, w) \<leftarrow> op_write base_ops s xs w;
     (acc, s, w) \<leftarrow> stream_run cs s w;
     Some ((if ret \<ge> 0 then xs @ acc else acc), s, w)
   }"
| "stream_run (Handle_call # cs) s w = do {
     (ret, s, w) \<leftarrow> op_handle_outgoing_data base_ops s w;
     stream_run cs s w
   }"
| "stream_run (Flush_call # cs) s w = do {
     (ret, s, w) \<leftarrow> op_flush base_ops s w;
     stream_run cs s w
   }"

definition call_ok :: "stream_call \<Rightarrow> bool" where
  "call_ok c = (case c of Write_call xs \<Rightarrow> xs \<noteq> [] \<and> length xs < 2 ^ 31 | _ \<Rightarrow> True)"

lemma base_flush:
  assumes "base_inv s" and "stream_do_flush ops s w = Some (ret, s', w')"
  shows "base_inv s' \<and> st_fd s' = st_fd s \<and> base_sent s' w' = base_sent s w \<and>
    (0 < ret \<longrightarrow> st_outgoing s' = [])"
proof -
  obtain r s1 w1 where r: "stream_flush_loop ops s w = Some (r, s1, w1)"
    using assms(2) by (auto simp: stream_do_flush_def split: Option.bind_splits)
  have f: "base_inv s1" "st_fd s1 = st_fd s" "base_sent s1 w1 = base_sent s w"
    "case r of None \<Rightarrow> st_outgoing s1 = [] | Some x \<Rightarrow> x \<le> 0"
    using base_flush_result [OF r assms(1)] by auto
  have "st_decorated s1 = None"
    using f(1) by (simp add: base_inv_def)
  then have "s' = s1 \<and> w' = w1 \<and> ret = (case r of None \<Rightarrow> 1 | Some x \<Rightarrow> x)"
    using assms(2) r by (auto simp: stream_do_flush_def split: option.splits)
  then show ?thesis
    using f by (cases r) auto
qed

lemma base_flush_returns:
  assumes "base_inv s" and "writable (st_fd s) w"
  shows "\<exists>ret s' w'. stream_do_flush ops s w = Some (ret, s', w') \<and> writable (st_fd s) w'"
proof -
  obtain r s1 w1 where r: "stream_flush_loop ops s w = Some (r, s1, w1)" "writable (st_fd s) w1"
    using base_flush_loop [OF assms, of ops] by auto
  have "st_decorated s1 = None"
    using base_flush_result [OF r(1) assms(1)] by (simp add: base_inv_def)
  then show ?thesis
    using r by (simp add: stream_do_flush_def split: option.splits)
qed

lemma base_sel [simp]:
  "op_write base_ops = stream_do_write no_ops" "op_flush base_ops = stream_do_flush no_ops"
  "op_handle_outgoing_data base_ops = stream_handle_outgoing_data no_ops" "op_read base_ops = stream_do_read no_ops"
  by (simp_all add: base_ops_def stream_ops_of_def)

lemma stream_run_sent:
  assumes "stream_run cs s w = Some (acc, s', w')" and "base_inv s" and "list_all call_ok cs"
  shows "base_inv s' \<and> st_fd s' = st_fd s \<and> base_sent s' w' = base_sent s w @ acc"
  using assms
proof (induction cs s w arbitrary: acc rule: stream_run.induct)
  case (2 xs cs s w)
  obtain ret s1 w1 where w: "stream_do_write no_ops s xs w = Some (ret, s1, w1)" "base_inv s1" "st_fd s1 = st_fd s"
    "if refused s w then ret = -1 \<and> base_sent s1 w1 = base_sent s w
     else ret = int (length xs) \<and> base_sent s1 w1 = base_sent s w @ xs"
    using base_write [OF 2(3), of xs no_ops w] 2(4) by (fastforce simp: call_ok_def split: if_splits)
  then show ?case
    using 2(1) [of "(ret, s1, w1)"] 2(2,4) by (auto split: Option.bind_splits if_splits)
next
  case (3 cs s w)
  obtain ret s1 w1 where h: "stream_handle_outgoing_data no_ops s w = Some (ret, s1, w1)" "base_inv s1" "st_fd s1 = st_fd s"
    "base_sent s1 w1 = base_sent s w"
    using base_handle [OF 3(3), of no_ops w] by blast
  then show ?case
    using 3(1) [of "(ret, s1, w1)"] 3(2,4) by simp
next
  case (4 cs s w)
  obtain ret s1 w1 where f: "stream_do_flush no_ops s w = Some (ret, s1, w1)"
    using 4(2) by (auto split: Option.bind_splits)
  then show ?case
    using 4(1) [of "(ret, s1, w1)"] 4(2,4) base_flush [OF 4(3) f] by simp
qed simp

lemma stream_run_returns:
  assumes "base_inv s" and "list_all call_ok cs" and "writable (st_fd s) w \<or> Flush_call \<notin> set cs"
  shows "stream_run cs s w \<noteq> None"
  using assms
proof (induction cs s w rule: stream_run.induct)
  case (2 xs cs s w)
  obtain ret s1 w1 where "stream_do_write no_ops s xs w = Some (ret, s1, w1)" "base_inv s1" "st_fd s1 = st_fd s"
    "writable (st_fd s) w \<longrightarrow> writable (st_fd s) w1"
    using base_write [OF 2(2), of xs no_ops w] 2(3) by (auto simp: call_ok_def)
  then show ?case
    using 2(1) [of "(ret, s1, w1)"] 2(3,4) by (auto split: Option.bind_splits)
next
  case (3 cs s w)
  obtain ret s1 w1 where "stream_handle_outgoing_data no_ops s w = Some (ret, s1, w1)" "base_inv s1" "st_fd s1 = st_fd s"
    "writable (st_fd s) w \<longrightarrow> writable (st_fd s) w1"
    using base_handle [OF 3(2), of no_ops w] by blast
  then show ?case
    using 3(1) [of "(ret, s1, w1)"] 3(3,4) by auto
next
  case (4 cs s w)
  have wr: "writable (st_fd s) w"
    using 4(4) by simp
  then obtain ret s1 w1 where "stream_do_flush no_ops s w = Some (ret, s1, w1)" "writable (st_fd s) w1"
    using base_flush_returns [OF 4(2), of w no_ops] by auto
  then show ?case
    using 4(1) [of "(ret, s1, w1)"] 4(3) base_flush [OF 4(2), of no_ops w ret s1 w1] by simp
qed simp

text \<open>C1. A stream neither loses, duplicates nor reorders data: on a new stream, whatever the kernel
  answers (short writes, EAGAIN, errors), whenever a sequence of writes of non-empty data below
  2 GiB, outgoing-data handlings and flushes returns, the bytes written to the descriptor
  followed by the bytes in the queue are what was there before followed by the data of the
  accepted writes (those that did not return an error), in order. The calls do return, unless
  the sequence flushes and the kernel answers EAGAIN for ever.\<close>

theorem stream_no_loss:
  assumes "list_all call_ok cs"
  shows "(writable fd w \<or> Flush_call \<notin> set cs \<longrightarrow> stream_run cs (stream_new fd) w \<noteq> None) \<and>
    (\<forall>acc s' w'. stream_run cs (stream_new fd) w = Some (acc, s', w') \<longrightarrow>
      w_out w' fd @ concat (st_outgoing s') = w_out w fd @ acc)"
proof -
  have new: "base_inv (stream_new fd)" "base_sent (stream_new fd) w = w_out w fd" "st_fd (stream_new fd) = fd"
    by (simp_all add: base_inv_def base_sent_def stream_new_def stream_init_def)
  then have "w_out w' fd @ concat (st_outgoing s') = w_out w fd @ acc"
    if "stream_run cs (stream_new fd) w = Some (acc, s', w')" for acc s' w'
    using stream_run_sent [OF that new(1) assms] new(2,3) by (auto simp: base_sent_def [of s'])
  then show ?thesis
    using stream_run_returns [OF new(1) assms, of w] new(3) by auto
qed

definition world0 :: world where
  "world0 = \<lparr>w_errno = E_NONE, w_rd = \<lambda>_. [], w_wr = \<lambda>_. [], w_out = \<lambda>_. [],
     w_clock = \<lparr>clock_ms = 0, clock_s = 0, clock_chrono = 0, sys_sec = 0, sys_nsec = 0, sys_time = 0\<rparr>,
     w_rand = \<lambda>_. 0, w_rand_pos = 0\<rparr>"

theorem stream_no_loss_witness:
  "\<exists>acc s' w'. stream_run [Write_call [1, 2, 3], Write_call [4], Handle_call, Write_call [5]] (stream_new 7)
      (world0\<lparr>w_wr := (\<lambda>_. [WrSome 2, WrErr E_AGAIN, WrErr E_OTHER])\<rparr>) = Some (acc, s', w') \<and>
    w_out w' 7 @ concat (st_outgoing s') = w_out (world0\<lparr>w_wr := (\<lambda>_. [WrSome 2, WrErr E_AGAIN, WrErr E_OTHER])\<rparr>) 7 @ acc"
proof -
  let ?cs = "[Write_call [1, 2, 3], Write_call [4], Handle_call, Write_call [5]]"
  have "list_all call_ok ?cs"
    by (simp add: call_ok_def)
  from stream_no_loss [OF this, of 7] show ?thesis
    by fastforce
qed

text \<open>C34. Flushing a stream that owns its descriptor (the slices of its queue not empty and below
  2 GiB) is an endless loop when data is queued and the kernel answers EAGAIN from now on, and it
  returns when the kernel does not come to that. Whatever the kernel answers, a flush that
  returns has kept the bytes written and queued and their order, and when it reports success the
  queue is empty and everything accepted before has been written to the descriptor, in order.\<close>

theorem stream_flush_drains:
  assumes "base_inv s"
  shows "(writable (st_fd s) w \<longrightarrow> op_flush base_ops s w \<noteq> None) \<and>
    (st_outgoing s \<noteq> [] \<and> blocked (st_fd s) w \<longrightarrow> op_flush base_ops s w = None) \<and>
    (\<forall>ret s' w'. op_flush base_ops s w = Some (ret, s', w') \<longrightarrow>
      w_out w' (st_fd s) @ concat (st_outgoing s') = w_out w (st_fd s) @ concat (st_outgoing s) \<and>
      (0 < ret \<longrightarrow> st_outgoing s' = [] \<and> w_out w' (st_fd s) = w_out w (st_fd s) @ concat (st_outgoing s)))"
proof -
  have "w_out w' (st_fd s) @ concat (st_outgoing s') = w_out w (st_fd s) @ concat (st_outgoing s) \<and>
      (0 < ret \<longrightarrow> st_outgoing s' = [])"
    if "stream_do_flush no_ops s w = Some (ret, s', w')" for ret s' w'
    using base_flush [OF assms that] by (auto simp: base_sent_def)
  then show ?thesis
    using base_flush_returns [OF assms, of w no_ops] base_flush_blocked [OF _ assms, of no_ops w]
    by (fastforce simp: stream_do_flush_def split: Option.bind_splits)
qed

theorem stream_flush_drains_witness:
  "op_flush base_ops ((stream_new 7)\<lparr>st_outgoing := [[1, 2], [3]]\<rparr>)
      (world0\<lparr>w_wr := (\<lambda>_. [WrSome 1, WrErr E_AGAIN])\<rparr>) \<noteq> None \<and>
    op_flush base_ops ((stream_new 7)\<lparr>st_outgoing := [[1, 2], [3]]\<rparr>)
      (world0\<lparr>w_wr := (\<lambda>_. [WrBlocked])\<rparr>) = None"
  using stream_flush_drains [of "(stream_new 7)\<lparr>st_outgoing := [[1, 2], [3]]\<rparr>"
      "world0\<lparr>w_wr := (\<lambda>_. [WrSome 1, WrErr E_AGAIN])\<rparr>"]
    stream_flush_drains [of "(stream_new 7)\<lparr>st_outgoing := [[1, 2], [3]]\<rparr>" "world0\<lparr>w_wr := (\<lambda>_. [WrBlocked])\<rparr>"]
  by (simp add: base_inv_def stream_new_def stream_init_def world0_def writable_def blocked_def)

text \<open>An empty write stops a stream for good: while data is queued, writing zero bytes queues an
  empty slice; once that slice is at the head of the queue, handling outgoing data returns 0,
  writes nothing and leaves the queue as it is, whatever stands behind it, as long as the
  kernel reports no error, and so flushing returns 0 as well.\<close>

lemma stream_empty_write_blocks:
  assumes "st_decorated s = None" and "\<nexists>e. fails (st_fd s) e w"
  shows "(st_outgoing s \<noteq> [] \<longrightarrow>
      op_write base_ops s [] w = Some (0, s\<lparr>st_outgoing := st_outgoing s @ [[]]\<rparr>, w)) \<and>
    (\<exists>w'. op_handle_outgoing_data base_ops (s\<lparr>st_outgoing := [] # rest\<rparr>) w =
        Some (0, s\<lparr>st_outgoing := [] # rest\<rparr>, w') \<and> w_out w' = w_out w) \<and>
    (\<exists>w'. op_flush base_ops (s\<lparr>st_outgoing := [] # rest\<rparr>) w = Some (0, s\<lparr>st_outgoing := [] # rest\<rparr>, w'))"
proof -
  have wr: "stream_do_write no_ops s [] w = Some (0, s\<lparr>st_outgoing := st_outgoing s @ [[]]\<rparr>, w)"
    if "st_outgoing s \<noteq> []"
    using that by (simp add: stream_do_write_def stream_queue_outgoing_data_def)
  let ?s = "s\<lparr>st_outgoing := [] # rest\<rparr>"
  obtain w' where w': "sys_write (st_fd s) [] w = (0, w')" "w_out w' = w_out w"
  proof (cases "w_wr w (st_fd s)")
    case (Cons e es)
    then obtain n where "e = WrSome n"
      using assms(2) by (cases e) (auto simp: fails_def blocked_def)
    then show ?thesis
      using that Cons by (simp add: sys_write_def)
  qed (use that in \<open>simp add: sys_write_def\<close>)
  have h: "stream_handle_outgoing_data no_ops ?s w = Some (0, ?s, w')"
    using assms(1) w' by (simp add: stream_handle_outgoing_data_def stream_handle_outgoing_loop.simps stream_real_write_def)
  then have "stream_do_flush no_ops ?s w = Some (0, ?s, w')"
    by (simp add: stream_do_flush_def stream_flush_loop.simps)
  then show ?thesis
    using wr h w'(2) by simp
qed

end
