(* ===== verification/Stream_Mqtt.thy ===== *)
theory Stream_Mqtt
  imports Streams Mqtt_Packet
begin

section \<open>MQTT streams (source/stream_mqtt.c)\<close>

text \<open>
  The MQTT session on top of any stream: received frames are handled as they are cut from the
  buffer; requests that need an acknowledgement wait in \<open>outgoing\<close>, QoS 2 messages that are
  not released yet in \<open>inbound\<close>, frames for the application in \<open>incoming\<close>. The observer is
  application code, a parameter: a function from packet type, flags, parsed message and the
  memory it points into to the handler's result; the calls made are logged. It does not call
  back into the stream. A body is parsed in the memory from its first byte to the end of the
  buffered data, as the code does. Formatted frames must fit the block allocated for them.
\<close>

definition MQTT_MESSAGE_BUFFER_SIZE :: nat where "MQTT_MESSAGE_BUFFER_SIZE = 1024"
definition MQTT_KEEP_ALIVE_TIMEOUT :: nat where "MQTT_KEEP_ALIVE_TIMEOUT = 15"
definition MQTT_RESEND_ATTEMPTS :: nat where "MQTT_RESEND_ATTEMPTS = 3"
definition MQTT_RESEND_TIMEOUT :: int where "MQTT_RESEND_TIMEOUT = 30"

abbreviation (input) MQTT_QOS_0 :: byte where "MQTT_QOS_0 \<equiv> 0"
abbreviation (input) MQTT_QOS_1 :: byte where "MQTT_QOS_1 \<equiv> 1"
abbreviation (input) MQTT_QOS_2 :: byte where "MQTT_QOS_2 \<equiv> 2"
abbreviation (input) MQTT_RETAIN_FLAG :: byte where "MQTT_RETAIN_FLAG \<equiv> 1"
abbreviation (input) MQTT_DUP_FLAG :: byte where "MQTT_DUP_FLAG \<equiv> 8"
abbreviation (input) MQTT_CONNACK_ACCEPTED :: byte where "MQTT_CONNACK_ACCEPTED \<equiv> 0"

subsection \<open>State\<close>

record mqtt_frame_item =
  it_type :: byte
  it_flags :: byte
  it_id :: u16
  it_data :: bytes

datatype mqtt_arg =
    Arg_connect mqtt_connect
  | Arg_connack mqtt_connack
  | Arg_publish mqtt_publish
  | Arg_subscribe mqtt_subscribe
  | Arg_unsubscribe mqtt_unsubscribe
  | Arg_suback mqtt_suback
  | Arg_unsuback u16
  | Arg_none

record mqtt_notice =
  no_type :: byte
  no_flags :: byte
  no_arg :: mqtt_arg
  no_mem :: bytes

record 'd stream_mqtt =
  mq_stream :: "'d stream"
  mq_buffer :: bytes
  mq_client_role :: bool
  mq_incoming :: "mqtt_frame_item list"
  mq_outgoing :: "mqtt_frame_item list"
  mq_inbound :: "mqtt_frame_item list"
  mq_observer :: "(mqtt_notice \<Rightarrow> int) option"
  mq_notified :: "mqtt_notice list"
  mq_keep_alive :: nat
  mq_keep_alive_responded :: bool
  mq_keep_alive_timer :: timer
  mq_resend_attempts :: nat
  mq_resend_timer :: timer

definition stream_mqtt_new :: "'d \<Rightarrow> 'd stream_mqtt" where
  "stream_mqtt_new decorated =
     \<lparr>mq_stream = stream_init (-1) (Some decorated), mq_buffer = [], mq_client_role = False,
      mq_incoming = [], mq_outgoing = [], mq_inbound = [], mq_observer = None, mq_notified = [],
      mq_keep_alive = 0, mq_keep_alive_responded = True, mq_keep_alive_timer = timer_stop,
      mq_resend_attempts = 0, mq_resend_timer = timer_stop\<rparr>"

definition stream_mqtt_set_observer :: "'d stream_mqtt \<Rightarrow> (mqtt_notice \<Rightarrow> int) \<Rightarrow> 'd stream_mqtt" where
  "stream_mqtt_set_observer self handler =
     (if mq_observer self = None then self\<lparr>mq_observer := Some handler\<rparr> else self)"

definition stream_mqtt_remove_observer :: "'d stream_mqtt \<Rightarrow> 'd stream_mqtt" where
  "stream_mqtt_remove_observer self = self\<lparr>mq_observer := None\<rparr>"

definition stream_mqtt_set_status :: "'d stream_mqtt \<Rightarrow> stream_status \<Rightarrow> 'd stream_mqtt" where
  "stream_mqtt_set_status self status = self\<lparr>mq_stream := stream_set_status (mq_stream self) status\<rparr>"

definition keep_alive_start :: "nat \<Rightarrow> 'd stream_mqtt \<Rightarrow> world \<Rightarrow> 'd stream_mqtt \<times> world" where
  "keep_alive_start secs self w =
     (let (t, c) = timer_start TIMER_SEC (int secs) (w_clock w)
      in (self\<lparr>mq_keep_alive_timer := t\<rparr>, w\<lparr>w_clock := c\<rparr>))"

definition resend_start :: "'d stream_mqtt \<Rightarrow> world \<Rightarrow> 'd stream_mqtt \<times> world" where
  "resend_start self w =
     (let (t, c) = timer_start TIMER_SEC MQTT_RESEND_TIMEOUT (w_clock w)
      in (self\<lparr>mq_resend_timer := t\<rparr>, w\<lparr>w_clock := c\<rparr>))"

subsection \<open>Queues\<close>

definition mqtt_frame_item_new :: "byte \<Rightarrow> byte \<Rightarrow> u16 \<Rightarrow> bytes \<Rightarrow> nat \<Rightarrow> mqtt_frame_item option" where
  "mqtt_frame_item_new type flags pid buffer len = do {
     data \<leftarrow> rd_bytes buffer len;
     Some \<lparr>it_type = type, it_flags = flags, it_id = pid, it_data = data\<rparr>
   }"

definition stream_mqtt_append_frame ::
    "mqtt_frame_item list \<Rightarrow> byte \<Rightarrow> byte \<Rightarrow> u16 \<Rightarrow> bytes \<Rightarrow> nat \<Rightarrow> mqtt_frame_item list option" where
  "stream_mqtt_append_frame queue type flags pid data len =
     map_option (\<lambda>item. queue @ [item]) (mqtt_frame_item_new type flags pid data len)"

definition stream_mqtt_insert_frame ::
    "mqtt_frame_item list \<Rightarrow> byte \<Rightarrow> byte \<Rightarrow> u16 \<Rightarrow> bytes \<Rightarrow> nat \<Rightarrow> mqtt_frame_item list option" where
  "stream_mqtt_insert_frame queue type flags pid data len =
     map_option (\<lambda>item. item # queue) (mqtt_frame_item_new type flags pid data len)"

fun stream_mqtt_remove_frame ::
    "mqtt_frame_item list \<Rightarrow> byte \<Rightarrow> u16 \<Rightarrow> bool \<times> mqtt_frame_item list" where
  "stream_mqtt_remove_frame [] type pid = (False, [])"
| "stream_mqtt_remove_frame (item # queue) type pid =
     (let (found, queue) = stream_mqtt_remove_frame queue type pid
      in if it_type item = type \<and> it_id item = pid then (True, queue) else (found, item # queue))"

definition incoming_append ::
    "'d stream_mqtt \<Rightarrow> byte \<Rightarrow> byte \<Rightarrow> u16 \<Rightarrow> bytes \<Rightarrow> nat \<Rightarrow> 'd stream_mqtt option" where
  "incoming_append self type flags pid data len =
     map_option (\<lambda>q. self\<lparr>mq_incoming := q\<rparr>)
       (stream_mqtt_append_frame (mq_incoming self) type flags pid data len)"

definition stream_mqtt_notify_observer ::
    "'d stream_mqtt \<Rightarrow> byte \<Rightarrow> byte \<Rightarrow> mqtt_arg \<Rightarrow> bytes \<Rightarrow> bool \<times> 'd stream_mqtt" where
  "stream_mqtt_notify_observer self type flags msg mem =
     (case mq_observer self of
        Some handler \<Rightarrow>
          let notice = \<lparr>no_type = type, no_flags = flags, no_arg = msg, no_mem = mem\<rparr>;
              ret = handler notice
          in (ret > 0, self\<lparr>mq_notified := mq_notified self @ [notice]\<rparr>)
      | None \<Rightarrow> (False, self))"

subsection \<open>Writing frames\<close>

definition heap_block :: "nat \<Rightarrow> bytes \<Rightarrow> bytes option" where
  "heap_block cap xs = (if length xs \<le> cap then Some xs else None)"

definition stream_mqtt_real_write ::
    "'d stream_ops \<Rightarrow> 'd stream_mqtt \<Rightarrow> bytes \<Rightarrow> world \<Rightarrow> (int \<times> 'd stream_mqtt \<times> world) option" where
  "stream_mqtt_real_write ops self buffer w = do {
     (ret, st, w) \<leftarrow> stream_do_write ops (mq_stream self) buffer w;
     Some (ret, self\<lparr>mq_stream := st\<rparr>, w)
   }"

definition stream_mqtt_write_frame ::
    "'d stream_ops \<Rightarrow> 'd stream_mqtt \<Rightarrow> byte \<Rightarrow> byte \<Rightarrow> bytes \<Rightarrow> nat \<Rightarrow> world \<Rightarrow>
     (int \<times> 'd stream_mqtt \<times> world) option" where
  "stream_mqtt_write_frame ops self type flags buffer len w = do {
     frame \<leftarrow> mqtt_format_frame type flags buffer len;
     frame \<leftarrow> heap_block (len + MQTT_MAX_FIXED_HEADER_SIZE) frame;
     stream_mqtt_real_write ops self frame w
   }"

definition stream_mqtt_write_frame_packet_id ::
    "'d stream_ops \<Rightarrow> 'd stream_mqtt \<Rightarrow> byte \<Rightarrow> u16 \<Rightarrow> world \<Rightarrow> (int \<times> 'd stream_mqtt \<times> world) option" where
  "stream_mqtt_write_frame_packet_id ops self type pid w =
     (let body = mqtt_put_short pid;
          flags = (if type = MQTT_PUBREL then MQTT_QOS_TO_FLAGS MQTT_QOS_1 else 0)
      in stream_mqtt_write_frame ops self type flags body (length body) w)"

abbreviation (input) "stream_mqtt_puback ops self pid w \<equiv> stream_mqtt_write_frame_packet_id ops self MQTT_PUBACK pid w"
abbreviation (input) "stream_mqtt_pubrec ops self pid w \<equiv> stream_mqtt_write_frame_packet_id ops self MQTT_PUBREC pid w"
abbreviation (input) "stream_mqtt_pubcomp ops self pid w \<equiv> stream_mqtt_write_frame_packet_id ops self MQTT_PUBCOMP pid w"
abbreviation (input) "stream_mqtt_unsuback ops self pid w \<equiv> stream_mqtt_write_frame_packet_id ops self MQTT_UNSUBACK pid w"
abbreviation (input) "stream_mqtt_pingreq ops self w \<equiv> stream_mqtt_write_frame ops self MQTT_PINGREQ 0 [] 0 w"
abbreviation (input) "stream_mqtt_pingresp ops self w \<equiv> stream_mqtt_write_frame ops self MQTT_PINGRESP 0 [] 0 w"

definition stream_mqtt_pubrel ::
    "'d stream_ops \<Rightarrow> 'd stream_mqtt \<Rightarrow> u16 \<Rightarrow> world \<Rightarrow> (int \<times> 'd stream_mqtt \<times> world) option" where
  "stream_mqtt_pubrel ops self pid w = do {
     let flags = MQTT_QOS_TO_FLAGS MQTT_QOS_1;
     let buffer = mqtt_format_fixed_header MQTT_PUBREL flags 2 @ mqtt_put_short pid;
     q \<leftarrow> stream_mqtt_insert_frame (mq_outgoing self) MQTT_PUBREL flags pid buffer (length buffer);
     stream_mqtt_real_write ops (self\<lparr>mq_outgoing := q\<rparr>) buffer w
   }"

subsection \<open>Received frames\<close>

definition handle_connect ::
    "'d stream_mqtt \<Rightarrow> mqtt_fixed_header \<Rightarrow> bytes \<Rightarrow> world \<Rightarrow> ('d stream_mqtt \<times> world) option" where
  "handle_connect self frame body w = do {
     (_, msg) \<leftarrow> mqtt_parse_connect body (fh_body_length frame);
     let (self, w) = (if unat (cn_keep_alive msg) > 0
       then let self = self\<lparr>mq_keep_alive := unat (cn_keep_alive msg) + MQTT_KEEP_ALIVE_TIMEOUT\<rparr>
            in keep_alive_start (mq_keep_alive self) self w
       else (self, w));
     let (handled, self) = stream_mqtt_notify_observer self (fh_type frame) (fh_flags frame) (Arg_connect msg) body;
     self \<leftarrow> (if \<not> handled
             then incoming_append self (fh_type frame) (fh_flags frame) 0 body (fh_body_length frame)
             else Some self);
     Some (self, w)
   }"

definition handle_connack ::
    "'d stream_mqtt \<Rightarrow> mqtt_fixed_header \<Rightarrow> bytes \<Rightarrow> world \<Rightarrow> ('d stream_mqtt \<times> world) option" where
  "handle_connack self frame body w = do {
     (_, msg) \<leftarrow> mqtt_parse_connack body (fh_body_length frame);
     let (self, w) = (if ca_return_code msg = MQTT_CONNACK_ACCEPTED \<and> mq_keep_alive self > 0
       then let (self, w) = keep_alive_start (mq_keep_alive self) self w
            in (stream_mqtt_set_status self STREAM_ST_READY, w)
       else (self, w));
     let (handled, self) = stream_mqtt_notify_observer self (fh_type frame) (fh_flags frame) (Arg_connack msg) body;
     self \<leftarrow> (if \<not> handled
             then incoming_append self (fh_type frame) (fh_flags frame) 0 body (fh_body_length frame)
             else Some self);
     Some (self, w)
   }"

text \<open>
  The pattern shared by SUBSCRIBE, UNSUBSCRIBE, SUBACK and UNSUBACK: parse and notify if there is
  an observer; queue the frame if it was not handled.
\<close>

definition notify_or_queue ::
    "'d stream_mqtt \<Rightarrow> mqtt_fixed_header \<Rightarrow> bytes \<Rightarrow> mqtt_arg option \<Rightarrow> 'd stream_mqtt option" where
  "notify_or_queue self frame body parsed = do {
     (handled, self) \<leftarrow> (if mq_observer self \<noteq> None
       then do {
         msg \<leftarrow> parsed;
         Some (stream_mqtt_notify_observer self (fh_type frame) (fh_flags frame) msg body)
       } else Some (False, self));
     if \<not> handled
     then incoming_append self (fh_type frame) (fh_flags frame) 0 body (fh_body_length frame)
     else Some self
   }"

definition handle_publish ::
    "'d stream_ops \<Rightarrow> 'd stream_mqtt \<Rightarrow> mqtt_fixed_header \<Rightarrow> bytes \<Rightarrow> world \<Rightarrow> ('d stream_mqtt \<times> world) option" where
  "handle_publish ops self frame body w = do {
     let qos = MQTT_QOS_FROM_FLAGS (fh_flags frame);
     (_, msg) \<leftarrow> mqtt_parse_publish body (fh_body_length frame) qos;
     if qos = MQTT_QOS_2 then do {
       pid \<leftarrow> pb_id msg;
       let (_, q) = stream_mqtt_remove_frame (mq_inbound self) (fh_type frame) pid;
       q \<leftarrow> stream_mqtt_append_frame q (fh_type frame) (fh_flags frame) pid body (fh_body_length frame);
       (_, self, w) \<leftarrow> stream_mqtt_pubrec ops (self\<lparr>mq_inbound := q\<rparr>) pid w;
       Some (self, w)
     } else do {
       (self, w) \<leftarrow> (if qos = MQTT_QOS_1 then do {
           pid \<leftarrow> pb_id msg;
           (_, self, w) \<leftarrow> stream_mqtt_puback ops self pid w;
           Some (self, w)
         } else Some (self, w));
       let (handled, self) = stream_mqtt_notify_observer self (fh_type frame) (fh_flags frame) (Arg_publish msg) body;
       self \<leftarrow> (if \<not> handled
               then incoming_append self (fh_type frame) (fh_flags frame) 0 body (fh_body_length frame)
               else Some self);
       Some (self, w)
     }
   }"

definition handle_ack ::
    "'d stream_ops \<Rightarrow> 'd stream_mqtt \<Rightarrow> mqtt_fixed_header \<Rightarrow> bytes \<Rightarrow> world \<Rightarrow> ('d stream_mqtt \<times> world) option" where
  "handle_ack ops self frame body w = do {
     (_, pid) \<leftarrow> mqtt_parse_var_header_id body (fh_body_length frame);
     let (found, q) = stream_mqtt_remove_frame (mq_outgoing self) (mqtt_request_type (fh_type frame)) pid;
     let self = self\<lparr>mq_outgoing := q\<rparr>;
     let self = (if found then self\<lparr>mq_resend_timer := timer_stop\<rparr> else self);
     if fh_type frame = MQTT_PUBREC then do {
       (_, self, w) \<leftarrow> stream_mqtt_pubrel ops self pid w;
       let (self, w) = resend_start self w;
       Some (self\<lparr>mq_resend_attempts := 0\<rparr>, w)
     }
     else if fh_type frame = MQTT_SUBACK then do {
       self \<leftarrow> notify_or_queue self frame body
         (map_option (\<lambda>(_, m). Arg_suback m) (mqtt_parse_suback body (fh_body_length frame)));
       Some (self, w)
     }
     else if fh_type frame = MQTT_UNSUBACK then do {
       self \<leftarrow> notify_or_queue self frame body
         (map_option (\<lambda>(_, m). Arg_unsuback m) (mqtt_parse_unsuback body (fh_body_length frame)));
       Some (self, w)
     }
     else Some (self, w)
   }"

text \<open>The loop over \<open>inbound\<close> after a PUBREL: matching items are delivered and taken out.\<close>

fun release_inbound :: "u16 \<Rightarrow> mqtt_frame_item list \<Rightarrow> 'd stream_mqtt \<Rightarrow> 'd stream_mqtt option" where
  "release_inbound pid [] self = Some self"
| "release_inbound pid (item # items) self =
     (if it_id item = pid then do {
        let self = self\<lparr>mq_inbound := remove1 item (mq_inbound self)\<rparr>;
        (handled, self) \<leftarrow> (if it_type item = MQTT_PUBLISH \<and> mq_observer self \<noteq> None then do {
            (_, msg) \<leftarrow> mqtt_parse_publish (it_data item) (length (it_data item)) (MQTT_QOS_FROM_FLAGS (it_flags item));
            Some (stream_mqtt_notify_observer self (it_type item) (it_flags item) (Arg_publish msg) (it_data item))
          } else Some (False, self));
        let self = (if handled then self else self\<lparr>mq_incoming := mq_incoming self @ [item]\<rparr>);
        release_inbound pid items self
      } else release_inbound pid items self)"

definition handle_pubrel ::
    "'d stream_ops \<Rightarrow> 'd stream_mqtt \<Rightarrow> mqtt_fixed_header \<Rightarrow> bytes \<Rightarrow> world \<Rightarrow> ('d stream_mqtt \<times> world) option" where
  "handle_pubrel ops self frame body w = do {
     (_, pid) \<leftarrow> mqtt_parse_var_header_id body (fh_body_length frame);
     (_, self, w) \<leftarrow> stream_mqtt_pubcomp ops self pid w;
     self \<leftarrow> release_inbound pid (mq_inbound self) self;
     Some (self, w)
   }"

definition handle_disconnect :: "'d stream_mqtt \<Rightarrow> mqtt_fixed_header \<Rightarrow> 'd stream_mqtt option" where
  "handle_disconnect self frame =
     (let (handled, self) = (if mq_observer self \<noteq> None
            then stream_mqtt_notify_observer self (fh_type frame) (fh_flags frame) Arg_none []
            else (False, self))
      in if \<not> handled
         then incoming_append self (fh_type frame) (fh_flags frame) 0 [0] 1
         else Some self)"

definition stream_mqtt_handle_received_frame ::
    "'d stream_ops \<Rightarrow> 'd stream_mqtt \<Rightarrow> mqtt_fixed_header \<Rightarrow> bytes \<Rightarrow> world \<Rightarrow> ('d stream_mqtt \<times> world) option" where
  "stream_mqtt_handle_received_frame ops self frame body w =
     (if fh_type frame = MQTT_CONNECT then handle_connect self frame body w
      else if fh_type frame = MQTT_CONNACK then handle_connack self frame body w
      else if fh_type frame = MQTT_SUBSCRIBE then
        map_option (\<lambda>self. (self, w)) (notify_or_queue self frame body
          (map_option (\<lambda>(_, m). Arg_subscribe m) (mqtt_parse_subscribe body (fh_body_length frame))))
      else if fh_type frame = MQTT_UNSUBSCRIBE then
        map_option (\<lambda>self. (self, w)) (notify_or_queue self frame body
          (map_option (\<lambda>(_, m). Arg_unsubscribe m) (mqtt_parse_unsubscribe body (fh_body_length frame))))
      else if fh_type frame = MQTT_PUBLISH then handle_publish ops self frame body w
      else if fh_type frame \<in> {MQTT_SUBACK, MQTT_UNSUBACK, MQTT_PUBACK, MQTT_PUBREC, MQTT_PUBCOMP}
        then handle_ack ops self frame body w
      else if fh_type frame = MQTT_PUBREL then handle_pubrel ops self frame body w
      else if fh_type frame = MQTT_PINGREQ then do {
        (_, self, w) \<leftarrow> stream_mqtt_pingresp ops self w;
        Some (keep_alive_start (mq_keep_alive self) self w)
      }
      else if fh_type frame = MQTT_PINGRESP then Some (self\<lparr>mq_keep_alive_responded := True\<rparr>, w)
      else if fh_type frame = MQTT_DISCONNECT then map_option (\<lambda>self. (self, w)) (handle_disconnect self frame)
      else Some (self, w))"

subsection \<open>Reading frames\<close>

lemma mqtt_parse_frame_pos:
  "mqtt_parse_frame h b len n0 = Some (off, h', n) \<Longrightarrow> 0 < off \<Longrightarrow> 0 < n"
  by (auto simp: mqtt_parse_frame_def Let_def split: if_splits Option.bind_splits option.splits)

text \<open>
  The inner loop of \<open>stream_mqtt_peek_frame\<close>. The handler does not touch the buffer, so the
  loop runs on the buffered bytes and stores what is left of them.
\<close>

function mqtt_frames_loop ::
    "'d stream_ops \<Rightarrow> bytes \<Rightarrow> 'd stream_mqtt \<Rightarrow> world \<Rightarrow> ('d stream_mqtt \<times> world) option" where
  "mqtt_frames_loop ops b self w =
     (if b = [] then Some (self\<lparr>mq_buffer := b\<rparr>, w)
      else case mqtt_parse_frame \<lparr>fh_type = 0, fh_flags = 0, fh_body_length = 0\<rparr> b (length b) 0 of
        None \<Rightarrow> None
      | Some (body_offset, frame, frame_length) \<Rightarrow>
          if body_offset = 0 then Some (self\<lparr>mq_buffer := b\<rparr>, w)
          else if body_offset < 0 then Some (self\<lparr>mq_buffer := []\<rparr>, w)
          else (case stream_mqtt_handle_received_frame ops self frame (drop (nat body_offset) b) w of
                  None \<Rightarrow> None
                | Some (self, w) \<Rightarrow> mqtt_frames_loop ops (drop frame_length b) self w))"
  by pat_completeness auto
termination
  by (relation "measure (\<lambda>(_, b, _, _). length b)") (auto dest: mqtt_parse_frame_pos)

declare mqtt_frames_loop.simps [simp del]

text \<open>\<^const>\<open>None\<close> in the first component: the loop was left with \<open>break\<close>.\<close>

partial_function (option) mqtt_peek_loop ::
    "'d stream_ops \<Rightarrow> 'd stream_mqtt \<Rightarrow> world \<Rightarrow> (int option \<times> 'd stream_mqtt \<times> world) option" where
  "mqtt_peek_loop ops self w =
     (if mq_incoming self \<noteq> [] then Some (None, self, w)
      else do {
        d \<leftarrow> st_decorated (mq_stream self);
        (ret, xs, d, w) \<leftarrow> op_read ops d MQTT_MESSAGE_BUFFER_SIZE w;
        let self = self\<lparr>mq_stream := (mq_stream self)\<lparr>st_decorated := Some d\<rparr>\<rparr>;
        if ret \<le> 0 then
          (if ret = 0 \<or> w_errno w \<noteq> E_AGAIN then Some (Some ret, self, w) else Some (None, self, w))
        else do {
          (self, w) \<leftarrow> mqtt_frames_loop ops (mq_buffer self @ xs) self w;
          mqtt_peek_loop ops self w
        }
      })"

definition stream_mqtt_peek_frame ::
    "'d stream_ops \<Rightarrow> 'd stream_mqtt \<Rightarrow> world \<Rightarrow> (int \<times> 'd stream_mqtt \<times> world) option" where
  "stream_mqtt_peek_frame ops self w = do {
     (r, self, w) \<leftarrow> mqtt_peek_loop ops self w;
     case r of
       Some ret \<Rightarrow> Some (ret, self, w)
     | None \<Rightarrow>
         (case mq_incoming self of
            item # _ \<Rightarrow> Some (int (length (it_data item)), self, w)
          | [] \<Rightarrow> Some (-1, self, w\<lparr>w_errno := E_AGAIN\<rparr>))
   }"

definition stream_mqtt_read_frame ::
    "'d stream_mqtt \<Rightarrow> nat \<Rightarrow> world \<Rightarrow> int \<times> (byte \<times> byte \<times> bytes) option \<times> 'd stream_mqtt \<times> world" where
  "stream_mqtt_read_frame self len w =
     (case mq_incoming self of
        [] \<Rightarrow> (-1, None, self, w\<lparr>w_errno := E_AGAIN\<rparr>)
      | item # queue \<Rightarrow>
          if length (it_data item) > len then (-1, None, self, w\<lparr>w_errno := E_NOMEM\<rparr>)
          else (int (length (it_data item)), Some (it_type item, it_flags item, it_data item),
                self\<lparr>mq_incoming := queue\<rparr>, w))"

subsection \<open>Sending\<close>

definition stream_mqtt_connect ::
    "'d stream_ops \<Rightarrow> 'd stream_mqtt \<Rightarrow> bool \<Rightarrow> u16 \<Rightarrow> bytes option \<Rightarrow> bytes option \<Rightarrow> bytes option \<Rightarrow> u16 \<Rightarrow>
     bool \<Rightarrow> byte \<Rightarrow> bytes option \<Rightarrow> bytes option \<Rightarrow> u16 \<Rightarrow> world \<Rightarrow> (int \<times> 'd stream_mqtt \<times> world) option" where
  "stream_mqtt_connect ops self clean_session keep_alive client_id will_topic will_msg will_msg_len
       will_retain will_qos user_name password password_len w = do {
     let self = self\<lparr>mq_client_role := True, mq_keep_alive := unat keep_alive\<rparr>;
     let body_len = mqtt_eval_connect client_id will_topic will_msg_len user_name password_len;
     body \<leftarrow> mqtt_format_connect clean_session keep_alive client_id will_topic will_msg will_msg_len
               will_retain will_qos user_name password password_len;
     buffer \<leftarrow> heap_block (body_len + MQTT_MAX_FIXED_HEADER_SIZE)
                 (mqtt_format_fixed_header MQTT_CONNECT 0 body_len @ body);
     stream_mqtt_real_write ops self buffer w
   }"

definition stream_mqtt_connack ::
    "'d stream_ops \<Rightarrow> 'd stream_mqtt \<Rightarrow> bool \<Rightarrow> byte \<Rightarrow> world \<Rightarrow> (int \<times> 'd stream_mqtt \<times> world) option" where
  "stream_mqtt_connack ops self session_present return_code w =
     (let self = (if return_code = MQTT_CONNACK_ACCEPTED then stream_mqtt_set_status self STREAM_ST_READY else self);
          body = mqtt_format_connack session_present return_code
      in stream_mqtt_write_frame ops self MQTT_CONNACK 0 body (length body) w)"

definition mqtt_publish_flags :: "bool \<Rightarrow> bool \<Rightarrow> byte \<Rightarrow> byte" where
  "mqtt_publish_flags retain dup qos =
     (let flags = MQTT_QOS_TO_FLAGS qos;
          flags = (if retain then flags OR MQTT_RETAIN_FLAG else flags)
      in if dup then flags OR MQTT_DUP_FLAG else flags)"

text \<open>The second half of \<open>stream_mqtt_publish\<close>, once the frame is formatted.\<close>

definition mqtt_send_publish ::
    "'d stream_ops \<Rightarrow> 'd stream_mqtt \<Rightarrow> byte \<Rightarrow> byte \<Rightarrow> u16 \<Rightarrow> bytes \<Rightarrow> world \<Rightarrow> (int \<times> 'd stream_mqtt \<times> world) option" where
  "mqtt_send_publish ops self qos flags pid buffer w = do {
     let msg_sent = (mq_outgoing self = []);
     (ret, self, w) \<leftarrow> (if msg_sent then do {
         (ret, self, w) \<leftarrow> stream_mqtt_real_write ops self buffer w;
         let (self, w) = (if qos > MQTT_QOS_0
           then let (self, w) = resend_start self w in (self\<lparr>mq_resend_attempts := 0\<rparr>, w)
           else (self, w));
         Some (ret, self, w)
       } else Some (1, self, w));
     if \<not> msg_sent \<or> qos > MQTT_QOS_0 then do {
       q \<leftarrow> stream_mqtt_append_frame (mq_outgoing self) MQTT_PUBLISH flags pid buffer (length buffer);
       Some (ret, self\<lparr>mq_outgoing := q\<rparr>, w)
     } else Some (ret, self, w)
   }"

definition stream_mqtt_publish ::
    "'d stream_ops \<Rightarrow> 'd stream_mqtt \<Rightarrow> bool \<Rightarrow> bool \<Rightarrow> byte \<Rightarrow> u16 \<Rightarrow> bytes \<Rightarrow> bytes \<Rightarrow> nat \<Rightarrow> world \<Rightarrow>
     (int \<times> 'd stream_mqtt \<times> world) option" where
  "stream_mqtt_publish ops self retain dup qos pid topic payload payload_len w = do {
     let flags = mqtt_publish_flags retain dup qos;
     let body_len = mqtt_eval_publish qos topic payload_len;
     body \<leftarrow> mqtt_format_publish qos pid topic payload payload_len;
     buffer \<leftarrow> heap_block (body_len + MQTT_MAX_FIXED_HEADER_SIZE)
                 (mqtt_format_fixed_header MQTT_PUBLISH flags body_len @ body);
     mqtt_send_publish ops self qos flags pid buffer w
   }"

text \<open>The common end of \<open>stream_mqtt_subscribe\<close> and \<open>stream_mqtt_unsubscribe\<close>.\<close>

definition mqtt_send_request ::
    "'d stream_ops \<Rightarrow> 'd stream_mqtt \<Rightarrow> byte \<Rightarrow> byte \<Rightarrow> u16 \<Rightarrow> bytes \<Rightarrow> world \<Rightarrow> (int \<times> 'd stream_mqtt \<times> world) option" where
  "mqtt_send_request ops self type flags pid buffer w = do {
     (ret, self, w) \<leftarrow> (if mq_outgoing self = [] then do {
         (ret, self, w) \<leftarrow> stream_mqtt_real_write ops self buffer w;
         let (self, w) = resend_start self w;
         Some (ret, self\<lparr>mq_resend_attempts := 0\<rparr>, w)
       } else Some (1, self, w));
     q \<leftarrow> stream_mqtt_append_frame (mq_outgoing self) type flags pid buffer (length buffer);
     Some (ret, self\<lparr>mq_outgoing := q\<rparr>, w)
   }"

definition stream_mqtt_subscribe ::
    "'d stream_ops \<Rightarrow> 'd stream_mqtt \<Rightarrow> u16 \<Rightarrow> bytes \<Rightarrow> byte \<Rightarrow> world \<Rightarrow> (int \<times> 'd stream_mqtt \<times> world) option" where
  "stream_mqtt_subscribe ops self pid topic qos w = do {
     let flags = MQTT_QOS_TO_FLAGS MQTT_QOS_1;
     let body_len = mqtt_eval_subscribe topic;
     body \<leftarrow> mqtt_format_subscribe pid topic qos;
     buffer \<leftarrow> heap_block (body_len + MQTT_MAX_FIXED_HEADER_SIZE)
                 (mqtt_format_fixed_header MQTT_SUBSCRIBE flags body_len @ body);
     mqtt_send_request ops self MQTT_SUBSCRIBE flags pid buffer w
   }"

definition stream_mqtt_suback ::
    "'d stream_ops \<Rightarrow> 'd stream_mqtt \<Rightarrow> u16 \<Rightarrow> byte \<Rightarrow> world \<Rightarrow> (int \<times> 'd stream_mqtt \<times> world) option" where
  "stream_mqtt_suback ops self pid return_code w =
     (let body = mqtt_format_suback pid return_code
      in stream_mqtt_write_frame ops self MQTT_SUBACK 0 body (length body) w)"

definition stream_mqtt_unsubscribe ::
    "'d stream_ops \<Rightarrow> 'd stream_mqtt \<Rightarrow> u16 \<Rightarrow> bytes \<Rightarrow> world \<Rightarrow> (int \<times> 'd stream_mqtt \<times> world) option" where
  "stream_mqtt_unsubscribe ops self pid topic w = do {
     let flags = MQTT_QOS_TO_FLAGS MQTT_QOS_1;
     let body_len = mqtt_eval_unsubscribe topic;
     body \<leftarrow> mqtt_format_unsubscribe pid topic;
     buffer \<leftarrow> heap_block (body_len + MQTT_MAX_FIXED_HEADER_SIZE)
                 (mqtt_format_fixed_header MQTT_UNSUBSCRIBE flags body_len @ body);
     mqtt_send_request ops self MQTT_UNSUBSCRIBE flags pid buffer w
   }"

definition stream_mqtt_disconnect ::
    "'d stream_ops \<Rightarrow> 'd stream_mqtt \<Rightarrow> world \<Rightarrow> (int \<times> 'd stream_mqtt \<times> world) option" where
  "stream_mqtt_disconnect ops self w = do {
     (ret, self, w) \<leftarrow> stream_mqtt_write_frame ops self MQTT_DISCONNECT 0 [] 0 w;
     Some (ret, stream_mqtt_set_status self STREAM_ST_CLOSING, w)
   }"

subsection \<open>Time\<close>

definition mqtt_time_keep_alive ::
    "'d stream_ops \<Rightarrow> 'd stream_mqtt \<Rightarrow> world \<Rightarrow> ('d stream_mqtt \<times> world) option" where
  "mqtt_time_keep_alive ops self w =
     (let (expired, c) = timer_expired (mq_keep_alive_timer self) (w_clock w);
          w = w\<lparr>w_clock := c\<rparr>
      in if expired then
           (if mq_client_role self then
              (if mq_keep_alive_responded self then do {
                 (_, self, w) \<leftarrow> stream_mqtt_pingreq ops self w;
                 let (t, c) = timer_restart (mq_keep_alive_timer self) (w_clock w);
                 Some (self\<lparr>mq_keep_alive_responded := False, mq_keep_alive_timer := t\<rparr>, w\<lparr>w_clock := c\<rparr>)
               } else Some (stream_mqtt_set_status self STREAM_ST_CLOSING, w))
            else Some (stream_mqtt_set_status self STREAM_ST_CLOSING, w))
         else Some (self, w))"

definition mqtt_time_resend ::
    "'d stream_ops \<Rightarrow> 'd stream_mqtt \<Rightarrow> world \<Rightarrow> ('d stream_mqtt \<times> world) option" where
  "mqtt_time_resend ops self w =
     (let (expired, c) = timer_expired (mq_resend_timer self) (w_clock w);
          w = w\<lparr>w_clock := c\<rparr>
      in if expired then
           (case mq_outgoing self of
              item # queue \<Rightarrow>
                let self = self\<lparr>mq_resend_attempts := mq_resend_attempts self + 1\<rparr> in
                if mq_resend_attempts self < MQTT_RESEND_ATTEMPTS then do {
                  (_, self, w) \<leftarrow> stream_mqtt_real_write ops self (it_data item) w;
                  Some (resend_start self w)
                } else Some (self\<lparr>mq_outgoing := queue, mq_resend_timer := timer_stop, mq_resend_attempts := 0\<rparr>, w)
            | [] \<Rightarrow> Some (self, w))
         else Some (self, w))"

definition mqtt_time_next ::
    "'d stream_ops \<Rightarrow> 'd stream_mqtt \<Rightarrow> world \<Rightarrow> ('d stream_mqtt \<times> world) option" where
  "mqtt_time_next ops self w =
     (if \<not> timer_running (mq_resend_timer self) then
        (case mq_outgoing self of
           item # queue \<Rightarrow> do {
             (_, self, w) \<leftarrow> stream_mqtt_real_write ops self (it_data item) w;
             Some (resend_start self w)
           }
         | [] \<Rightarrow> Some (self, w))
      else Some (self, w))"

definition stream_mqtt_do_time ::
    "'d stream_ops \<Rightarrow> 'd stream_mqtt \<Rightarrow> world \<Rightarrow> (int \<times> 'd stream_mqtt \<times> world) option" where
  "stream_mqtt_do_time ops self w = do {
     (self, w) \<leftarrow> mqtt_time_keep_alive ops self w;
     (self, w) \<leftarrow> mqtt_time_resend ops self w;
     (self, w) \<leftarrow> mqtt_time_next ops self w;
     (ret, st, w) \<leftarrow> stream_do_time ops (mq_stream self) w;
     Some (ret, self\<lparr>mq_stream := st\<rparr>, w)
   }"

text \<open>Plain reads and writes on an MQTT stream close it.\<close>

definition stream_mqtt_read_impl ::
    "'d stream_mqtt \<Rightarrow> nat \<Rightarrow> world \<Rightarrow> (int \<times> bytes \<times> 'd stream_mqtt \<times> world) option" where
  "stream_mqtt_read_impl self len w = Some (0, [], stream_mqtt_set_status self STREAM_ST_CLOSING, w)"

definition stream_mqtt_write_impl ::
    "'d stream_mqtt \<Rightarrow> bytes \<Rightarrow> world \<Rightarrow> (int \<times> 'd stream_mqtt \<times> world) option" where
  "stream_mqtt_write_impl self xs w = Some (0, stream_mqtt_set_status self STREAM_ST_CLOSING, w)"

definition stream_mqtt_flush_impl ::
    "'d stream_ops \<Rightarrow> 'd stream_mqtt \<Rightarrow> world \<Rightarrow> (int \<times> 'd stream_mqtt \<times> world) option" where
  "stream_mqtt_flush_impl ops self w = do {
     (ret, st, w) \<leftarrow> stream_do_flush ops (mq_stream self) w;
     Some (ret, self\<lparr>mq_stream := st\<rparr>, w)
   }"

definition mqtt_ops :: "'d stream_ops \<Rightarrow> 'd stream_mqtt stream_ops" where
  "mqtt_ops ops =
     \<lparr>op_read = stream_mqtt_read_impl, op_write = stream_mqtt_write_impl,
      op_flush = stream_mqtt_flush_impl ops, op_time = stream_mqtt_do_time ops,
      op_get_fd = (\<lambda>self. stream_get_fd ops (mq_stream self)),
      op_get_status = (\<lambda>self. stream_get_status (mq_stream self)),
      op_has_outgoing_data = (\<lambda>self. stream_has_outgoing_data ops (mq_stream self)),
      op_handle_outgoing_data = (\<lambda>self w. do {
        (ret, st, w) \<leftarrow> stream_handle_outgoing_data ops (mq_stream self) w;
        Some (ret, self\<lparr>mq_stream := st\<rparr>, w) }),
      op_reset_outgoing_data = (\<lambda>self. self\<lparr>mq_stream := stream_reset_outgoing_data ops (mq_stream self)\<rparr>)\<rparr>"

subsection \<open>Writing over a layer that keeps the contract\<close>

context stream_writer
begin

lemma mqtt_write_over:
  assumes "over (mq_stream self)" and "xs \<noteq> []" and "length xs < limit"
  shows "\<exists>ret st w'. stream_mqtt_real_write ops self xs w = Some (ret, self\<lparr>mq_stream := st\<rparr>, w') \<and>
    stream_do_write ops (mq_stream self) xs w = Some (ret, st, w') \<and>
    over st \<and> w_clock w' = w_clock w \<and> st_status st = st_status (mq_stream self) \<and>
    (ret = int (length xs) \<and> (\<exists>ys. wire xs ys \<and> sent_over st w' = sent_over (mq_stream self) w @ ys) \<or>
     ret < 0 \<and> sent_over st w' = sent_over (mq_stream self) w)"
  using do_write_over [OF assms, of w] by (fastforce simp: stream_mqtt_real_write_def)

end

lemma resend_start_eq [simp]:
  "resend_start self w = (self\<lparr>mq_resend_timer := \<lparr>tm_start = clock_s (w_clock w), tm_interval = MQTT_RESEND_TIMEOUT,
     tm_flags = TIMER_SEC\<rparr>\<rparr>, w)"
  by (simp add: resend_start_def)

lemma keep_alive_start_eq [simp]:
  "keep_alive_start n self w = (self\<lparr>mq_keep_alive_timer := \<lparr>tm_start = clock_s (w_clock w), tm_interval = int n,
     tm_flags = TIMER_SEC\<rparr>\<rparr>, w)"
  by (simp add: keep_alive_start_def)

subsection \<open>Small frames\<close>

lemma format_small_frame:
  "length body < 128 \<Longrightarrow> mqtt_format_frame type flags body (length body) =
    Some ((push_bit 4 type OR flags) # word_of_nat (length body) # body)"
  by (simp add: mqtt_format_frame_def mqtt_format_fixed_header_def mqtt_encode_length.simps Let_def)

lemma write_small_frame:
  "length body < 128 \<Longrightarrow> stream_mqtt_write_frame ops self type flags body (length body) w =
    stream_mqtt_real_write ops self ((push_bit 4 type OR flags) # word_of_nat (length body) # body) w"
  by (simp add: stream_mqtt_write_frame_def format_small_frame heap_block_def MQTT_MAX_FIXED_HEADER_SIZE_def)

definition mqtt_id_frame :: "byte \<Rightarrow> u16 \<Rightarrow> bytes" where
  "mqtt_id_frame type pid = (push_bit 4 type OR (if type = MQTT_PUBREL then 2 else 0)) # 2 # mqtt_put_short pid"

lemma write_id_frame:
  "stream_mqtt_write_frame_packet_id ops self type pid w = stream_mqtt_real_write ops self (mqtt_id_frame type pid) w"
  using write_small_frame [of "mqtt_put_short pid" ops self type _ w]
  by (simp add: stream_mqtt_write_frame_packet_id_def mqtt_id_frame_def MQTT_QOS_TO_FLAGS_def wire_simps)

lemma length_id_frame [simp]: "length (mqtt_id_frame type pid) = 4" "mqtt_id_frame type pid \<noteq> []"
  by (simp_all add: mqtt_id_frame_def wire_simps)

lemma pubrel_eq:
  "stream_mqtt_pubrel ops self pid w =
     stream_mqtt_real_write ops (self\<lparr>mq_outgoing := \<lparr>it_type = MQTT_PUBREL, it_flags = 2, it_id = pid,
       it_data = mqtt_id_frame MQTT_PUBREL pid\<rparr> # mq_outgoing self\<rparr>) (mqtt_id_frame MQTT_PUBREL pid) w"
  by (simp add: stream_mqtt_pubrel_def stream_mqtt_insert_frame_def mqtt_frame_item_new_def MQTT_QOS_TO_FLAGS_def
      mqtt_format_fixed_header_def mqtt_encode_length.simps mqtt_id_frame_def Let_def rd_bytes_def wire_simps)

subsection \<open>The resend machine\<close>

definition mqtt_tick :: "'d stream_ops \<Rightarrow> 'd stream_mqtt \<Rightarrow> world \<Rightarrow> ('d stream_mqtt \<times> world) option" where
  "mqtt_tick ops self w = do { (self, w) \<leftarrow> mqtt_time_resend ops self w; mqtt_time_next ops self w }"

context stream_writer
begin

lemma mqtt_tick_cases:
  assumes "over (mq_stream self)" and "sec_timer (mq_resend_timer self)"
    and "\<forall>it \<in> set (mq_outgoing self). it_data it \<noteq> [] \<and> length (it_data it) < limit"
  shows "\<exists>self' w'. mqtt_tick ops self w = Some (self', w') \<and> over (mq_stream self') \<and> w_clock w' = w_clock w \<and>
    sec_timer (mq_resend_timer self') \<and>
    (case mq_outgoing self of
       [] \<Rightarrow> self' = self \<and> w' = w
     | item # queue \<Rightarrow>
         (let restarted = \<lparr>tm_start = clock_s (w_clock w), tm_interval = MQTT_RESEND_TIMEOUT, tm_flags = TIMER_SEC\<rparr>;
              written = (\<lambda>x. \<exists>ret. stream_do_write ops (mq_stream self) (it_data x) w = Some (ret, mq_stream self', w'))
          in if \<not> timer_running (mq_resend_timer self)
             then written item \<and> mq_outgoing self' = mq_outgoing self \<and> mq_resend_timer self' = restarted \<and>
                  mq_resend_attempts self' = mq_resend_attempts self
             else if \<not> deadline_passed (mq_resend_timer self) w then self' = self \<and> w' = w
             else if mq_resend_attempts self + 1 < MQTT_RESEND_ATTEMPTS
             then written item \<and> mq_outgoing self' = mq_outgoing self \<and> mq_resend_timer self' = restarted \<and>
                  mq_resend_attempts self' = mq_resend_attempts self + 1
             else mq_outgoing self' = queue \<and> mq_resend_attempts self' = 0 \<and>
               (case queue of
                  [] \<Rightarrow> mq_resend_timer self' = timer_stop \<and> w' = w
                | nxt # _ \<Rightarrow> written nxt \<and> mq_resend_timer self' = restarted)))"
proof (cases "mq_outgoing self")
  case Nil
  then show ?thesis
    using assms by (auto simp: mqtt_tick_def mqtt_time_resend_def mqtt_time_next_def timer_expired_world)
next
  case (Cons item queue)
  have item: "it_data item \<noteq> []" "length (it_data item) < limit"
    using assms(3) Cons by auto
  note wr = mqtt_write_over [OF _ item]
  note defs = mqtt_tick_def mqtt_time_resend_def mqtt_time_next_def
  consider "\<not> timer_running (mq_resend_timer self)"
    | "timer_running (mq_resend_timer self)" "\<not> deadline_passed (mq_resend_timer self) w"
    | "timer_running (mq_resend_timer self)" "deadline_passed (mq_resend_timer self) w" "mq_resend_attempts self + 1 < MQTT_RESEND_ATTEMPTS"
    | "timer_running (mq_resend_timer self)" "deadline_passed (mq_resend_timer self) w" "\<not> mq_resend_attempts self + 1 < MQTT_RESEND_ATTEMPTS"
    by blast
  then show ?thesis
  proof cases
    case 1
    then have "\<not> deadline_passed (mq_resend_timer self) w"
      by (simp add: deadline_passed_def)
    moreover obtain ret st w' where "stream_mqtt_real_write ops self (it_data item) w = Some (ret, self\<lparr>mq_stream := st\<rparr>, w')"
      "over st" "w_clock w' = w_clock w"
      "stream_do_write ops (mq_stream self) (it_data item) w = Some (ret, st, w')"
      using wr [OF assms(1), of w] by blast
    ultimately show ?thesis
      using 1 Cons assms(2) by (auto simp: defs timer_expired_world sec_timer_def)
  next
    case 2
    then show ?thesis
      using Cons assms(1,2) by (simp add: defs timer_expired_world)
  next
    case 3
    obtain ret st w' where "stream_mqtt_real_write ops (self\<lparr>mq_resend_attempts := mq_resend_attempts self + 1\<rparr>) (it_data item) w =
        Some (ret, self\<lparr>mq_resend_attempts := mq_resend_attempts self + 1, mq_stream := st\<rparr>, w')"
      "over st" "w_clock w' = w_clock w"
      "stream_do_write ops (mq_stream self) (it_data item) w = Some (ret, st, w')"
      using wr [of "self\<lparr>mq_resend_attempts := mq_resend_attempts self + 1\<rparr>" w] assms(1) by auto
    then show ?thesis
      using 3 Cons assms(2) by (auto simp: defs timer_expired_world sec_timer_def MQTT_RESEND_TIMEOUT_def timer_running_def Let_def)
  next
    case 4
    let ?self = "self\<lparr>mq_outgoing := queue, mq_resend_timer := timer_stop, mq_resend_attempts := 0\<rparr>"
    have r: "mqtt_time_resend ops self w = Some (?self, w)"
      using 4 Cons assms(2) by (simp add: mqtt_time_resend_def timer_expired_world Let_def)
    show ?thesis
    proof (cases queue)
      case Nil
      then show ?thesis
        using 4 Cons assms(1) r by (simp add: mqtt_tick_def mqtt_time_next_def sec_timer_def)
    next
      case (Cons nxt q)
      have "it_data nxt \<noteq> []" "length (it_data nxt) < limit"
        using assms(3) Cons \<open>mq_outgoing self = item # queue\<close> by auto
      from mqtt_write_over [OF _ this, of ?self w] obtain ret st w' where
        "stream_mqtt_real_write ops ?self (it_data nxt) w = Some (ret, ?self\<lparr>mq_stream := st\<rparr>, w')"
        "over st" "w_clock w' = w_clock w"
        "stream_do_write ops (mq_stream self) (it_data nxt) w = Some (ret, st, w')"
        using assms(1) by auto
      then show ?thesis
        using 4 Cons \<open>mq_outgoing self = item # queue\<close> r
        by (auto simp: mqtt_tick_def mqtt_time_next_def sec_timer_def)
    qed
  qed
qed

end

subsection \<open>Sessions over a file descriptor\<close>

text \<open>
  A well-formed session: an MQTT stream that decorates a plain stream with a well-formed queue, nothing
  waits in its own queue, its timers count seconds, and no unacknowledged message is empty or has 2 GiB
  and more.
\<close>

definition mqtt_session :: "unit stream stream_mqtt \<Rightarrow> bool" where
  "mqtt_session self \<longleftrightarrow> base.over (mq_stream self) \<and> sec_timer (mq_resend_timer self) \<and>
     sec_timer (mq_keep_alive_timer self) \<and>
     (\<forall>it \<in> set (mq_outgoing self). it_data it \<noteq> [] \<and> length (it_data it) < 2 ^ 31)"

text \<open>Everything accepted for the descriptor so far.\<close>

definition mqtt_sent :: "unit stream stream_mqtt \<Rightarrow> world \<Rightarrow> bytes" where
  "mqtt_sent self w = base.sent_over (mq_stream self) w"

text \<open>A write fails: nothing waits for the descriptor and the kernel answers an error other than
  \<open>EAGAIN\<close>.\<close>

definition mqtt_refused :: "unit stream stream_mqtt \<Rightarrow> world \<Rightarrow> bool" where
  "mqtt_refused self w = (case st_decorated (mq_stream self) of Some d \<Rightarrow> refused d w | None \<Rightarrow> False)"

lemma session_do_write:
  assumes "base.over (mq_stream self)" and "xs \<noteq> []" and "length xs < 2 ^ 31"
  shows "\<exists>st w'. stream_do_write base_ops (mq_stream self) xs w =
      Some (if mqtt_refused self w then -1 else int (length xs), st, w') \<and>
    base.over st \<and> w_clock w' = w_clock w \<and> st_status st = st_status (mq_stream self) \<and>
    base.sent_over st w' = mqtt_sent self w @ (if mqtt_refused self w then [] else xs)"
proof -
  obtain d where d: "st_decorated (mq_stream self) = Some d" "base_inv d" "st_outgoing (mq_stream self) = []"
    using assms(1) by (auto simp: base.over_def)
  have c: "c_int (-1) = -1" "c_int (int (length xs)) = int (length xs)"
    using assms(3) by (auto intro!: c_int_small)
  obtain ret d' w' where w: "stream_do_write no_ops d xs w = Some (ret, d', w')" "base_inv d'" "w_clock w' = w_clock w"
    "if refused d w then ret = -1 \<and> w_errno w' \<noteq> E_AGAIN \<and> base_sent d' w' = base_sent d w
     else ret = int (length xs) \<and> base_sent d' w' = base_sent d w @ xs"
    using base_write [OF d(2) assms(2,3), of no_ops w] by blast
  then show ?thesis
    using d by (cases "refused d w")
      (auto simp: stream_do_write_def [of base_ops] stream_real_write_def mqtt_refused_def mqtt_sent_def c
        base.over_def base.sent_over_def)
qed

lemma session_write:
  assumes "mqtt_session self" and "xs \<noteq> []" and "length xs < 2 ^ 31"
  shows "\<exists>st w'. stream_mqtt_real_write base_ops self xs w =
      Some (if mqtt_refused self w then -1 else int (length xs), self\<lparr>mq_stream := st\<rparr>, w') \<and>
    mqtt_session (self\<lparr>mq_stream := st\<rparr>) \<and> w_clock w' = w_clock w \<and> st_status st = st_status (mq_stream self) \<and>
    mqtt_sent (self\<lparr>mq_stream := st\<rparr>) w' = mqtt_sent self w @ (if mqtt_refused self w then [] else xs)"
  using session_do_write [of self xs w] assms
  by (auto simp: mqtt_session_def mqtt_sent_def [of "self\<lparr>mq_stream := _\<rparr>"] stream_mqtt_real_write_def)

lemma base_sent_clock [simp]: "base.sent_over s (w\<lparr>w_clock := c\<rparr>) = base.sent_over s w"
  by (simp add: base.sent_over_def base_sent_def split: option.split)

lemma mqtt_session_upd [simp]:
  "mqtt_session (self\<lparr>mq_inbound := q\<rparr>) = mqtt_session self"
  "mqtt_session (self\<lparr>mq_incoming := q\<rparr>) = mqtt_session self"
  "mqtt_session (self\<lparr>mq_notified := ns\<rparr>) = mqtt_session self"
  "mqtt_sent (self\<lparr>mq_inbound := q\<rparr>) w = mqtt_sent self w"
  "mqtt_sent (self\<lparr>mq_incoming := q\<rparr>) w = mqtt_sent self w"
  "mqtt_sent (self\<lparr>mq_notified := ns\<rparr>) w = mqtt_sent self w"
  "mqtt_refused (self\<lparr>mq_incoming := q\<rparr>) w = mqtt_refused self w"
  by (simp_all add: mqtt_session_def mqtt_sent_def mqtt_refused_def)

subsection \<open>QoS 2\<close>

datatype qos2_event = Got_publish byte u16 bytes bytes | Got_release u16

text \<open>The frame of an event as the peer sends it: header and body.\<close>

definition qos2_frame :: "qos2_event \<Rightarrow> (mqtt_fixed_header \<times> bytes) option" where
  "qos2_frame e = (case e of
     Got_publish flags pid topic payload \<Rightarrow>
       map_option (\<lambda>body. (\<lparr>fh_type = MQTT_PUBLISH, fh_flags = flags, fh_body_length = length body\<rparr>, body))
         (mqtt_format_publish MQTT_QOS_2 pid topic payload (length payload))
   | Got_release pid \<Rightarrow>
       Some (\<lparr>fh_type = MQTT_PUBREL, fh_flags = 2, fh_body_length = 2\<rparr>, mqtt_format_var_header_id pid))"

definition qos2_event_ok :: "qos2_event \<Rightarrow> bool" where
  "qos2_event_ok e = (case e of
     Got_publish flags pid topic payload \<Rightarrow>
       MQTT_QOS_FROM_FLAGS flags = MQTT_QOS_2 \<and> length topic < 65536 \<and> length payload < 65536
   | Got_release pid \<Rightarrow> True)"

fun qos2_run :: "'d stream_ops \<Rightarrow> qos2_event list \<Rightarrow> 'd stream_mqtt \<Rightarrow> world \<Rightarrow> ('d stream_mqtt \<times> world) option" where
  "qos2_run ops [] self w = Some (self, w)"
| "qos2_run ops (e # es) self w = do {
     (h, body) \<leftarrow> qos2_frame e;
     (self, w) \<leftarrow> stream_mqtt_handle_received_frame ops self h body w;
     qos2_run ops es self w
   }"

text \<open>
  What QoS 2 promises: a message is held under its packet id until it is released; it is then
  delivered, once. A repeated PUBLISH replaces the held message; a repeated PUBREL does nothing.
\<close>

fun qos2_spec :: "qos2_event list \<Rightarrow> (u16 \<rightharpoonup> mqtt_frame_item) \<Rightarrow> mqtt_frame_item list" where
  "qos2_spec [] held = []"
| "qos2_spec (Got_publish flags pid topic payload # es) held =
     qos2_spec es (held(pid := map_option
       (\<lambda>body. \<lparr>it_type = MQTT_PUBLISH, it_flags = flags, it_id = pid, it_data = body\<rparr>)
       (mqtt_format_publish MQTT_QOS_2 pid topic payload (length payload))))"
| "qos2_spec (Got_release pid # es) held =
     (case held pid of
        Some item \<Rightarrow> item # qos2_spec es (held(pid := None))
      | None \<Rightarrow> qos2_spec es held)"

definition held_items :: "mqtt_frame_item list \<Rightarrow> u16 \<rightharpoonup> mqtt_frame_item" where
  "held_items items = map_of (map (\<lambda>it. (it_id it, it)) items)"

definition inbound_inv :: "mqtt_frame_item list \<Rightarrow> bool" where
  "inbound_inv items \<longleftrightarrow> distinct (map it_id items) \<and> (\<forall>it \<in> set items. it_type it = MQTT_PUBLISH)"

lemma remove_frame_filter:
  "snd (stream_mqtt_remove_frame q type pid) = filter (\<lambda>it. \<not> (it_type it = type \<and> it_id it = pid)) q"
  "fst (stream_mqtt_remove_frame q type pid) = (\<exists>it \<in> set q. it_type it = type \<and> it_id it = pid)"
  by (induction q) (auto simp: Let_def case_prod_beta)

lemma held_filter: "held_items (filter (\<lambda>it. it_id it \<noteq> k) q) = (held_items q)(k := None)"
  unfolding held_items_def by (induction q) (auto simp: fun_eq_iff)

lemma held_replace:
  assumes "inbound_inv q" and "it_type item = MQTT_PUBLISH"
  defines "q' \<equiv> filter (\<lambda>it. \<not> (it_type it = MQTT_PUBLISH \<and> it_id it = it_id item)) q @ [item]"
  shows "inbound_inv q'" and "held_items q' = (held_items q)(it_id item \<mapsto> item)"
proof -
  have f: "filter (\<lambda>it. \<not> (it_type it = MQTT_PUBLISH \<and> it_id it = it_id item)) q = filter (\<lambda>it. it_id it \<noteq> it_id item) q"
    using assms(1) by (auto simp: inbound_inv_def intro!: filter_cong)
  show "inbound_inv q'"
    using assms(1,2) unfolding q'_def f by (auto simp: inbound_inv_def distinct_map_filter)
  have "held_items q' = held_items (filter (\<lambda>it. it_id it \<noteq> it_id item) q) ++ held_items [item]"
    unfolding q'_def f by (auto simp: held_items_def fun_eq_iff map_add_def held_filter [unfolded held_items_def]
        split: option.split)
  then show "held_items q' = (held_items q)(it_id item \<mapsto> item)"
    by (simp add: held_filter) (simp add: held_items_def fun_upd_def map_add_def fun_eq_iff)
qed

lemma release_inbound_none:
  assumes "mq_observer self = None"
  shows "release_inbound pid items self =
    Some (self\<lparr>mq_inbound := fold remove1 (filter (\<lambda>it. it_id it = pid) items) (mq_inbound self),
               mq_incoming := mq_incoming self @ filter (\<lambda>it. it_id it = pid) items\<rparr>)"
  using assms by (induction items arbitrary: self) simp_all

lemma filter_id_held:
  assumes "distinct (map it_id q)"
  shows "filter (\<lambda>it. it_id it = pid) q = (case held_items q pid of None \<Rightarrow> [] | Some it \<Rightarrow> [it])"
  using assms
proof (induction q)
  case (Cons x q)
  have "filter (\<lambda>it. it_id it = pid) q = []" if "it_id x = pid"
    using Cons.prems that by (simp add: filter_empty_conv) (metis image_eqI)
  then show ?case
    using Cons by (auto simp: held_items_def)
qed (simp add: held_items_def)

lemma held_release:
  fixes pid :: u16
  assumes "inbound_inv q"
  defines "q' \<equiv> fold remove1 (filter (\<lambda>it. it_id it = pid) q) q"
  shows "inbound_inv q'" and "held_items q' = (held_items q)(pid := None)"
proof -
  have d: "distinct (map it_id q)" "distinct q"
    using assms(1) by (auto simp: inbound_inv_def distinct_map)
  have "q' = filter (\<lambda>it. it_id it \<noteq> pid) q"
  proof (cases "held_items q pid")
    case None
    then have "\<forall>it \<in> set q. it_id it \<noteq> pid"
      using filter_id_held [OF d(1), of pid] by (auto simp: filter_empty_conv)
    then show ?thesis
      unfolding q'_def by (simp add: filter_id_held [OF d(1)] None)
  next
    case (Some it)
    then have "filter (\<lambda>it. it_id it = pid) q = [it]"
      using filter_id_held [OF d(1), of pid] by simp
    moreover from this have "set (filter (\<lambda>it. it_id it = pid) q) = {it}"
      by simp
    then have "filter ((\<noteq>) it) q = filter (\<lambda>x. it_id x \<noteq> pid) q"
      by (intro filter_cong refl) auto
    ultimately show ?thesis
      unfolding q'_def using d(2) by (simp add: distinct_remove1_removeAll removeAll_filter_not_eq)
  qed
  then show "inbound_inv q'" "held_items q' = (held_items q)(pid := None)"
    using assms(1) unfolding inbound_inv_def by (auto simp: distinct_map_filter held_filter)
qed


lemma qos2_step:
  assumes "mqtt_session self" and "mq_observer self = None" and "inbound_inv (mq_inbound self)" and "qos2_event_ok e"
  shows "\<exists>h body self' w'. qos2_frame e = Some (h, body) \<and>
    stream_mqtt_handle_received_frame base_ops self h body w = Some (self', w') \<and>
    mqtt_session self' \<and> mq_observer self' = None \<and> inbound_inv (mq_inbound self') \<and>
    (case e of
       Got_publish flags pid topic payload \<Rightarrow>
         mq_incoming self' = mq_incoming self \<and>
         held_items (mq_inbound self') = (held_items (mq_inbound self))
           (pid \<mapsto> \<lparr>it_type = MQTT_PUBLISH, it_flags = flags, it_id = pid, it_data = body\<rparr>)
     | Got_release pid \<Rightarrow>
         mq_incoming self' = mq_incoming self @
           (case held_items (mq_inbound self) pid of None \<Rightarrow> [] | Some it \<Rightarrow> [it]) \<and>
         held_items (mq_inbound self') = (held_items (mq_inbound self))(pid := None))"
proof (cases e)
  case (Got_publish flags pid topic payload)
  then have ok: "MQTT_QOS_FROM_FLAGS flags = 2" "length topic < 65536" "length payload < 65536"
    using assms(4) by (simp_all add: qos2_event_ok_def)
  obtain body v where b: "mqtt_format_publish 2 pid topic payload (length payload) = Some body"
    "mqtt_parse_publish body (length body) 2 = Some (int (length body), v)" "pb_id v = Some pid"
    using publish_read [OF ok(2,3), of 2 pid] by auto
  define item where "item = \<lparr>it_type = 3, it_flags = flags, it_id = pid, it_data = body\<rparr>"
  define q where "q = filter (\<lambda>it. \<not> (it_type it = 3 \<and> it_id it = it_id item)) (mq_inbound self) @ [item]"
  have q: "inbound_inv q" "held_items q = (held_items (mq_inbound self))(pid \<mapsto> item)"
    using held_replace [OF assms(3), of item] by (simp_all add: q_def item_def)
  obtain fnd where rm: "stream_mqtt_remove_frame (mq_inbound self) 3 pid =
      (fnd, filter (\<lambda>it. \<not> (it_type it = 3 \<and> it_id it = pid)) (mq_inbound self))"
    by (metis prod.collapse remove_frame_filter(1))
  have app: "stream_mqtt_append_frame (filter (\<lambda>it. \<not> (it_type it = 3 \<and> it_id it = pid)) (mq_inbound self))
      3 flags pid body (length body) = Some q"
    by (simp add: stream_mqtt_append_frame_def mqtt_frame_item_new_def q_def item_def)
  obtain ret st w' where w: "stream_mqtt_real_write base_ops (self\<lparr>mq_inbound := q\<rparr>) (mqtt_id_frame 5 pid) w =
      Some (ret, self\<lparr>mq_inbound := q, mq_stream := st\<rparr>, w')" "mqtt_session (self\<lparr>mq_inbound := q, mq_stream := st\<rparr>)"
    using session_write [of "self\<lparr>mq_inbound := q\<rparr>" "mqtt_id_frame 5 pid" w] assms(1) by auto
  have "stream_mqtt_handle_received_frame base_ops self \<lparr>fh_type = 3, fh_flags = flags, fh_body_length = length body\<rparr> body w =
      Some (self\<lparr>mq_inbound := q, mq_stream := st\<rparr>, w')"
    using ok(1) b rm app w(1)
    by (simp add: stream_mqtt_handle_received_frame_def handle_publish_def write_id_frame Let_def)
  then show ?thesis
    using Got_publish b(1) w(2) q assms(2) by (simp add: qos2_frame_def item_def)
next
  case (Got_release pid)
  define q where "q = fold remove1 (filter (\<lambda>it. it_id it = pid) (mq_inbound self)) (mq_inbound self)"
  have q: "inbound_inv q" "held_items q = (held_items (mq_inbound self))(pid := None)"
    unfolding q_def using held_release [OF assms(3)] by simp_all
  have f: "filter (\<lambda>it. it_id it = pid) (mq_inbound self) =
      (case held_items (mq_inbound self) pid of None \<Rightarrow> [] | Some it \<Rightarrow> [it])"
    using filter_id_held assms(3) by (simp add: inbound_inv_def)
  have p: "mqtt_parse_var_header_id (mqtt_format_var_header_id pid) 2 = Some (2, pid)"
    by (simp add: mqtt_parse_var_header_id_def mqtt_format_var_header_id_def mqtt_get_short_def mqtt_put_short_def
        parse_end_def)
  obtain ret st w' where w: "stream_mqtt_real_write base_ops self (mqtt_id_frame 7 pid) w = Some (ret, self\<lparr>mq_stream := st\<rparr>, w')"
    "mqtt_session (self\<lparr>mq_stream := st\<rparr>)"
    using session_write [OF assms(1), of "mqtt_id_frame 7 pid" w] by auto
  have "stream_mqtt_handle_received_frame base_ops self \<lparr>fh_type = 6, fh_flags = 2, fh_body_length = 2\<rparr>
      (mqtt_format_var_header_id pid) w = Some (self\<lparr>mq_stream := st, mq_inbound := q,
        mq_incoming := mq_incoming self @ filter (\<lambda>it. it_id it = pid) (mq_inbound self)\<rparr>, w')"
    using p w(1) assms(2)
    by (simp add: stream_mqtt_handle_received_frame_def handle_pubrel_def write_id_frame release_inbound_none q_def)
  then show ?thesis
    using Got_release w(2) q assms(2) by (simp add: qos2_frame_def f)
qed

text \<open>C2. QoS 2 delivers exactly once: on a session without observer, after any sequence of received
  QoS 2 PUBLISH frames and PUBREL frames, repeated in any way, the application's queue has grown
  by exactly the messages the specification delivers: a message is handed over when the first
  PUBREL after its PUBLISH arrives, once, and the last PUBLISH with that packet id counts.\<close>

theorem mqtt_qos2_exactly_once:
  assumes "mqtt_session self" and "mq_observer self = None" and "inbound_inv (mq_inbound self)"
    and "list_all qos2_event_ok es"
  shows "\<exists>self' w'. qos2_run base_ops es self w = Some (self', w') \<and> inbound_inv (mq_inbound self') \<and>
    mq_incoming self' = mq_incoming self @ qos2_spec es (held_items (mq_inbound self))"
  using assms
proof (induction es arbitrary: self w)
  case (Cons e es)
  obtain h body self1 w1 where s: "qos2_frame e = Some (h, body)"
    "stream_mqtt_handle_received_frame base_ops self h body w = Some (self1, w1)"
    "mqtt_session self1" "mq_observer self1 = None" "inbound_inv (mq_inbound self1)"
    and e: "case e of
       Got_publish flags pid topic payload \<Rightarrow>
         mq_incoming self1 = mq_incoming self \<and>
         held_items (mq_inbound self1) = (held_items (mq_inbound self))
           (pid \<mapsto> \<lparr>it_type = MQTT_PUBLISH, it_flags = flags, it_id = pid, it_data = body\<rparr>)
     | Got_release pid \<Rightarrow>
         mq_incoming self1 = mq_incoming self @
           (case held_items (mq_inbound self) pid of None \<Rightarrow> [] | Some it \<Rightarrow> [it]) \<and>
         held_items (mq_inbound self1) = (held_items (mq_inbound self))(pid := None)"
    using qos2_step [OF Cons.prems(1-3), of e w] Cons.prems(4) by auto
  obtain self2 w2 where r: "qos2_run base_ops es self1 w1 = Some (self2, w2)" "inbound_inv (mq_inbound self2)"
    "mq_incoming self2 = mq_incoming self1 @ qos2_spec es (held_items (mq_inbound self1))"
    using Cons.IH [OF s(3-5), of w1] Cons.prems(4) by auto
  have "qos2_run base_ops (e # es) self w = Some (self2, w2)"
    using s(1,2) r(1) by simp
  moreover have "mq_incoming self2 = mq_incoming self @ qos2_spec (e # es) (held_items (mq_inbound self))"
    using r(3) e s(1) by (cases e) (auto simp: qos2_frame_def fun_upd_idem split: option.splits)
  ultimately show ?case
    using r(2) by blast
qed simp

definition session0 :: "unit stream stream_mqtt" where
  "session0 = stream_mqtt_new (stream_new 7)"

lemma session0 [simp]:
  "base.over (mq_stream session0)" "sec_timer timer_stop" "mqtt_session session0" "mq_observer session0 = None" "mq_inbound session0 = []" "mq_incoming session0 = []"
  "mq_outgoing session0 = []" "mq_client_role session0 = False" "mq_keep_alive_responded session0"
  "mq_keep_alive_timer session0 = timer_stop" "mq_resend_timer session0 = timer_stop"
  by (simp_all add: session0_def stream_mqtt_new_def stream_new_def stream_init_def mqtt_session_def sec_timer_def
      base.over_def base_inv_def)

theorem mqtt_qos2_exactly_once_witness:
  "\<exists>self' w'. qos2_run base_ops
      [Got_publish 4 9 [0x74] [1], Got_publish 12 9 [0x74] [1], Got_release 9, Got_release 9] session0 world0 = Some (self', w') \<and>
    map it_id (mq_incoming self') = [9]"
  using mqtt_qos2_exactly_once [of session0
      "[Got_publish 4 9 [0x74] [1], Got_publish 12 9 [0x74] [1], Got_release 9, Got_release 9]" world0]
  by (auto simp: inbound_inv_def qos2_event_ok_def MQTT_QOS_FROM_FLAGS_def held_items_def mqtt_format_publish_def
      mqtt_put_data_def put_string_eq rd_bytes_def)

subsection \<open>Requests and their acknowledgements\<close>

text \<open>C10. The resend machine: what a time tick does to the queue of unacknowledged messages, on a
  well-formed session (\<open>mqtt_session\<close>) over a plain stream. With the timer stopped the first message is written
  and the timer started; before the deadline nothing happens; at the deadline the first message
  is written again as long as this is not the third expiry, and otherwise dropped, the attempts
  counter reset and the next message written at once. Writing puts exactly the bytes of the
  message at the end of what was accepted for the descriptor, except when nothing waits for it
  and the kernel fails with an error other than EAGAIN: then nothing is written, and the
  timer runs all the same.\<close>

theorem mqtt_resend_machine:
  assumes "mqtt_session self"
  shows "\<exists>self' w'. mqtt_tick base_ops self w = Some (self', w') \<and>
    (case mq_outgoing self of
       [] \<Rightarrow> self' = self \<and> w' = w
     | item # queue \<Rightarrow>
         (let restarted = \<lparr>tm_start = clock_s (w_clock w), tm_interval = MQTT_RESEND_TIMEOUT, tm_flags = TIMER_SEC\<rparr>;
              written = (\<lambda>x. mqtt_sent self' w' = mqtt_sent self w @ (if mqtt_refused self w then [] else it_data x))
          in if \<not> timer_running (mq_resend_timer self)
             then written item \<and> mq_outgoing self' = mq_outgoing self \<and> mq_resend_timer self' = restarted \<and>
                  mq_resend_attempts self' = mq_resend_attempts self
             else if \<not> deadline_passed (mq_resend_timer self) w then self' = self \<and> w' = w
             else if mq_resend_attempts self + 1 < MQTT_RESEND_ATTEMPTS
             then written item \<and> mq_outgoing self' = mq_outgoing self \<and> mq_resend_timer self' = restarted \<and>
                  mq_resend_attempts self' = mq_resend_attempts self + 1
             else mq_outgoing self' = queue \<and> mq_resend_attempts self' = 0 \<and>
               (case queue of
                  [] \<Rightarrow> mq_resend_timer self' = timer_stop \<and> w' = w
                | nxt # _ \<Rightarrow> written nxt \<and> mq_resend_timer self' = restarted)))"
proof -
  have s: "base.over (mq_stream self)" "sec_timer (mq_resend_timer self)"
    "\<forall>it \<in> set (mq_outgoing self). it_data it \<noteq> [] \<and> length (it_data it) < 2 ^ 31"
    using assms by (simp_all add: mqtt_session_def)
  obtain self' w' where tick: "mqtt_tick base_ops self w = Some (self', w')" and t: "case mq_outgoing self of
       [] \<Rightarrow> self' = self \<and> w' = w
     | item # queue \<Rightarrow>
         (let restarted = \<lparr>tm_start = clock_s (w_clock w), tm_interval = MQTT_RESEND_TIMEOUT, tm_flags = TIMER_SEC\<rparr>;
              written = (\<lambda>x. \<exists>ret. stream_do_write base_ops (mq_stream self) (it_data x) w = Some (ret, mq_stream self', w'))
          in if \<not> timer_running (mq_resend_timer self)
             then written item \<and> mq_outgoing self' = mq_outgoing self \<and> mq_resend_timer self' = restarted \<and>
                  mq_resend_attempts self' = mq_resend_attempts self
             else if \<not> deadline_passed (mq_resend_timer self) w then self' = self \<and> w' = w
             else if mq_resend_attempts self + 1 < MQTT_RESEND_ATTEMPTS
             then written item \<and> mq_outgoing self' = mq_outgoing self \<and> mq_resend_timer self' = restarted \<and>
                  mq_resend_attempts self' = mq_resend_attempts self + 1
             else mq_outgoing self' = queue \<and> mq_resend_attempts self' = 0 \<and>
               (case queue of
                  [] \<Rightarrow> mq_resend_timer self' = timer_stop \<and> w' = w
                | nxt # _ \<Rightarrow> written nxt \<and> mq_resend_timer self' = restarted))"
    using base.mqtt_tick_cases [OF s, of w] by blast
  define W1 where "W1 x \<longleftrightarrow> (\<exists>ret. stream_do_write base_ops (mq_stream self) (it_data x) w = Some (ret, mq_stream self', w'))" for x :: mqtt_frame_item
  define W2 where "W2 x \<longleftrightarrow> mqtt_sent self' w' = mqtt_sent self w @ (if mqtt_refused self w then [] else it_data x)" for x :: mqtt_frame_item
  have exact: "W1 x \<Longrightarrow> x \<in> set (mq_outgoing self) \<Longrightarrow> W2 x" for x
    using session_do_write [OF s(1), of "it_data x" w] s(3) by (auto simp: W1_def W2_def mqtt_sent_def [of self'])
  show ?thesis
    using t [folded W1_def] exact
    by (intro exI [of _ self'] exI [of _ w'] conjI tick, fold W2_def) (auto simp: Let_def split: list.splits if_splits)
qed

theorem mqtt_resend_machine_witness:
  "\<exists>self' w'. mqtt_tick base_ops (session0\<lparr>mq_outgoing := [\<lparr>it_type = 8, it_flags = 2, it_id = 1, it_data = [5]\<rparr>]\<rparr>) world0 =
      Some (self', w') \<and> mq_outgoing self' = [\<lparr>it_type = 8, it_flags = 2, it_id = 1, it_data = [5]\<rparr>] \<and>
      timer_running (mq_resend_timer self')"
  using mqtt_resend_machine [of "session0\<lparr>mq_outgoing := [\<lparr>it_type = 8, it_flags = 2, it_id = 1, it_data = [5]\<rparr>]\<rparr>" world0]
  by (auto simp: mqtt_session_def MQTT_RESEND_TIMEOUT_def Let_def)

lemma session_tick:
  assumes "mqtt_session self"
  shows "\<exists>self' w'. mqtt_tick base_ops self w = Some (self', w') \<and> base.over (mq_stream self') \<and>
    w_clock w' = w_clock w \<and> sec_timer (mq_resend_timer self')"
  using base.mqtt_tick_cases [of self w] assms unfolding mqtt_session_def by blast

text \<open>Nothing but the queue of the application and the log of the observer's calls changes.\<close>

definition same_requests :: "'d stream_mqtt \<Rightarrow> 'd stream_mqtt \<Rightarrow> bool" where
  "same_requests self self' \<longleftrightarrow> mq_outgoing self' = mq_outgoing self \<and> mq_stream self' = mq_stream self \<and>
     mq_resend_attempts self' = mq_resend_attempts self \<and> mq_resend_timer self' = mq_resend_timer self"

lemma notify_or_queue_cases:
  assumes "mq_observer self \<noteq> None \<longrightarrow> parsed \<noteq> None" and "fh_body_length frame = length body"
  shows "\<exists>self'. notify_or_queue self frame body parsed = Some self' \<and> same_requests self self'"
  using assms by (cases "mq_observer self"; cases parsed)
    (auto simp: notify_or_queue_def stream_mqtt_notify_observer_def incoming_append_def stream_mqtt_append_frame_def
      mqtt_frame_item_new_def same_requests_def Let_def)

text \<open>C31. An acknowledgement (SUBACK, UNSUBACK, PUBACK, PUBREC or PUBCOMP, with any flags and a body that
  begins with a packet id), received on a well-formed session (\<open>mqtt_session\<close>) over a plain stream, takes exactly
  the requests of the matching type with that id out of the queue of unacknowledged messages,
  keeping the order of the others, and stops the resend timer if it found one. A PUBREC then puts
  a PUBREL for the id at the head of the queue, starts the timer with a fresh attempts counter
  and sends the PUBREL: its bytes follow everything accepted for the descriptor before, unless
  nothing waits for it and the kernel fails with an error other than EAGAIN, when nothing is
  sent. The other acknowledgements send nothing and leave the attempts counter as it was. A
  SUBACK that an observer is to see must have the byte of its return code, which the parser reads
  unchecked.\<close>

theorem mqtt_ack_removes_request:
  assumes "mqtt_session self"
    and "t \<in> {MQTT_SUBACK, MQTT_UNSUBACK, MQTT_PUBACK, MQTT_PUBREC, MQTT_PUBCOMP}"
    and "body = mqtt_put_short pid @ rest" and "frame = \<lparr>fh_type = t, fh_flags = fl, fh_body_length = length body\<rparr>"
    and "t = MQTT_SUBACK \<and> mq_observer self \<noteq> None \<longrightarrow> rest \<noteq> []"
  shows "\<exists>self' w'. stream_mqtt_handle_received_frame base_ops self frame body w = Some (self', w') \<and>
    (let matches = (\<lambda>it. it_type it = mqtt_request_type t \<and> it_id it = pid);
         others = filter (\<lambda>it. \<not> matches it) (mq_outgoing self);
         found = (\<exists>it \<in> set (mq_outgoing self). matches it)
     in if t = MQTT_PUBREC
        then mq_outgoing self' = \<lparr>it_type = MQTT_PUBREL, it_flags = 2, it_id = pid,
                 it_data = mqtt_id_frame MQTT_PUBREL pid\<rparr> # others \<and>
             mq_resend_timer self' = \<lparr>tm_start = clock_s (w_clock w), tm_interval = MQTT_RESEND_TIMEOUT, tm_flags = TIMER_SEC\<rparr> \<and>
             mq_resend_attempts self' = 0 \<and>
             mqtt_sent self' w' = mqtt_sent self w @ (if mqtt_refused self w then [] else mqtt_id_frame MQTT_PUBREL pid)
        else mq_outgoing self' = others \<and> w' = w \<and> mq_stream self' = mq_stream self \<and>
             mq_resend_attempts self' = mq_resend_attempts self \<and>
             mq_resend_timer self' = (if found then timer_stop else mq_resend_timer self))"
proof -
  define q where "q = filter (\<lambda>it. \<not> (it_type it = mqtt_request_type t \<and> it_id it = pid)) (mq_outgoing self)"
  define fnd where "fnd = (\<exists>it \<in> set (mq_outgoing self). it_type it = mqtt_request_type t \<and> it_id it = pid)"
  have p: "mqtt_parse_var_header_id body (length body) = Some (parse_end 2 (length body), pid)"
    by (simp add: mqtt_parse_var_header_id_def assms(3))
  have rm: "stream_mqtt_remove_frame (mq_outgoing self) (mqtt_request_type t) pid = (fnd, q)"
    by (rule prod_eqI) (simp_all add: remove_frame_filter q_def fnd_def)
  define self1 where "self1 = (if fnd then self\<lparr>mq_outgoing := q, mq_resend_timer := timer_stop\<rparr> else self\<lparr>mq_outgoing := q\<rparr>)"
  have s1: "mqtt_session self1" "mq_outgoing self1 = q" "mq_stream self1 = mq_stream self" "mq_observer self1 = mq_observer self"
    "mq_resend_attempts self1 = mq_resend_attempts self"
    "mq_resend_timer self1 = (if fnd then timer_stop else mq_resend_timer self)"
    using assms(1) by (auto simp: self1_def mqtt_session_def q_def)
  have recv: "stream_mqtt_handle_received_frame base_ops self frame body w = handle_ack base_ops self frame body w"
    using assms(2) by (auto simp: stream_mqtt_handle_received_frame_def assms(4))
  show ?thesis
  proof (cases "t = MQTT_PUBREC")
    case True
    let ?f = "mqtt_id_frame 6 pid"
    let ?self = "self1\<lparr>mq_outgoing := \<lparr>it_type = 6, it_flags = 2, it_id = pid, it_data = ?f\<rparr> # q\<rparr>"
    have "mqtt_session ?self" "mqtt_refused ?self w = mqtt_refused self w" "mqtt_sent ?self w = mqtt_sent self w"
      using s1(1-3) by (simp_all add: mqtt_session_def mqtt_refused_def mqtt_sent_def)
    then obtain ret st w' where w: "stream_mqtt_real_write base_ops ?self ?f w = Some (ret, ?self\<lparr>mq_stream := st\<rparr>, w')"
      "mqtt_sent (?self\<lparr>mq_stream := st\<rparr>) w' = mqtt_sent self w @ (if mqtt_refused self w then [] else ?f)"
      "w_clock w' = w_clock w"
      using session_write [of ?self ?f w] by auto
    have "handle_ack base_ops self frame body w = Some (?self\<lparr>mq_stream := st,
        mq_resend_timer := \<lparr>tm_start = clock_s (w_clock w'), tm_interval = MQTT_RESEND_TIMEOUT, tm_flags = TIMER_SEC\<rparr>,
        mq_resend_attempts := 0\<rparr>, w')"
      using True p rm w(1) assms(4) s1(2) by (simp add: handle_ack_def pubrel_eq self1_def Let_def split: if_splits)
    then show ?thesis
      using True w(2,3) unfolding recv q_def Let_def by (simp add: mqtt_sent_def)
  next
    case False
    have un: "mqtt_parse_unsuback body (length body) \<noteq> None"
      by (simp add: mqtt_parse_unsuback_def assms(3))
    have sa: "mqtt_parse_suback body (length body) \<noteq> None" if "rest \<noteq> []"
      using that by (cases rest) (simp_all add: mqtt_parse_suback_def mqtt_get_byte_def mqtt_get_short_def rd_def assms(3) mqtt_put_short_def)
    obtain self' where "handle_ack base_ops self frame body w = Some (self', w)" "same_requests self1 self'"
    proof -
      define rs where "rs = map_option (\<lambda>(_, m). Arg_suback m) (mqtt_parse_suback body (length body))"
      define ru where "ru = map_option (\<lambda>(_, m). Arg_unsuback m) (mqtt_parse_unsuback body (length body))"
      have parsed: "ru \<noteq> None" "t = MQTT_SUBACK \<and> mq_observer self \<noteq> None \<longrightarrow> rs \<noteq> None"
        using un sa assms(5) by (auto simp: rs_def ru_def)
      have self1: "(if fnd then (self\<lparr>mq_outgoing := q\<rparr>)\<lparr>mq_resend_timer := timer_stop\<rparr> else self\<lparr>mq_outgoing := q\<rparr>) = self1"
        by (simp add: self1_def)
      have "handle_ack base_ops self frame body w =
          (if t = MQTT_SUBACK then map_option (\<lambda>s. (s, w)) (notify_or_queue self1 frame body rs)
           else if t = MQTT_UNSUBACK then map_option (\<lambda>s. (s, w)) (notify_or_queue self1 frame body ru) else Some (self1, w))"
        using False p rm
        by (simp add: handle_ack_def assms(4) Let_def self1 rs_def ru_def map_option_case split: option.split)
      moreover have "same_requests self1 self1"
        by (simp add: same_requests_def)
      moreover have "fh_body_length frame = length body"
        by (simp add: assms(4))
      ultimately show ?thesis
        using that notify_or_queue_cases [of self1 rs frame body] notify_or_queue_cases [of self1 ru frame body] parsed s1(4)
        by (auto split: if_splits)
    qed
    then show ?thesis
      using False s1 unfolding recv q_def fnd_def same_requests_def Let_def by (intro exI [of _ self'] exI [of _ w]) simp
  qed
qed

text \<open>A message inherits the attempts of the one before it: when the first of two unacknowledged
  messages has been sent three times and is then acknowledged, the next tick writes the second
  one, and the tick after its deadline drops it without having sent it again.\<close>

lemma mqtt_resend_inherited:
  assumes "mqtt_session self" and "mq_observer self = None" and "mq_outgoing self = [first, second]"
    and "it_type first = MQTT_PUBLISH" and "it_type second = MQTT_PUBLISH" and "it_id first \<noteq> it_id second"
    and "mq_resend_attempts self = 2"
    and "clock_s (w_clock w2) \<ge> clock_s (w_clock w1) + MQTT_RESEND_TIMEOUT"
  shows "\<exists>acked w0 sent1 w1' sent2 w2'.
    stream_mqtt_handle_received_frame base_ops self \<lparr>fh_type = MQTT_PUBACK, fh_flags = 0, fh_body_length = 2\<rparr>
      (mqtt_put_short (it_id first)) w = Some (acked, w0) \<and>
    mqtt_tick base_ops acked w1 = Some (sent1, w1') \<and> mq_outgoing sent1 = [second] \<and>
    mqtt_tick base_ops sent1 w2 = Some (sent2, w2') \<and> mq_outgoing sent2 = [] \<and> w2' = w2"
proof -
  let ?acked = "self\<lparr>mq_outgoing := [second], mq_resend_timer := timer_stop\<rparr>"
  have rq: "mqtt_request_type 4 = 3"
    by (simp add: mqtt_request_type_def)
  have ack: "stream_mqtt_handle_received_frame base_ops self \<lparr>fh_type = 4, fh_flags = 0, fh_body_length = 2\<rparr>
      (mqtt_put_short (it_id first)) w = Some (?acked, w)"
    using assms(2-6) get_short_put [of "it_id first" "[]"]
    by (simp add: stream_mqtt_handle_received_frame_def handle_ack_def mqtt_parse_var_header_id_def rq Let_def)
  have s: "mqtt_session ?acked"
    using assms(1,3) by (simp add: mqtt_session_def sec_timer_def)
  obtain sent1 w1' where t1: "mqtt_tick base_ops ?acked w1 = Some (sent1, w1')" "base.over (mq_stream sent1)"
    "mq_outgoing sent1 = [second]" "mq_resend_attempts sent1 = 2"
    "mq_resend_timer sent1 = \<lparr>tm_start = clock_s (w_clock w1), tm_interval = MQTT_RESEND_TIMEOUT, tm_flags = TIMER_SEC\<rparr>"
    using base.mqtt_tick_cases [of ?acked w1] s assms(7) by (auto simp: mqtt_session_def Let_def)
  have "deadline_passed (mq_resend_timer sent1) w2" "timer_running (mq_resend_timer sent1)" "sec_timer (mq_resend_timer sent1)"
    using assms(8) t1(5) by (simp_all add: deadline_passed_def clock_get_seconds_def MQTT_RESEND_TIMEOUT_def sec_timer_def)
  then obtain sent2 w2' where "mqtt_tick base_ops sent1 w2 = Some (sent2, w2')" "mq_outgoing sent2 = []" "w2' = w2"
    using base.mqtt_tick_cases [of sent1 w2] t1(2-4) s
    by (auto simp: mqtt_session_def Let_def MQTT_RESEND_ATTEMPTS_def)
  then show ?thesis
    using ack t1(1,3) by blast
qed

theorem mqtt_ack_removes_request_witness:
  "\<exists>self' w'. stream_mqtt_handle_received_frame base_ops
      (session0\<lparr>mq_outgoing := [\<lparr>it_type = 3, it_flags = 2, it_id = 1, it_data = [5]\<rparr>,
        \<lparr>it_type = 3, it_flags = 2, it_id = 2, it_data = [6]\<rparr>]\<rparr>)
      \<lparr>fh_type = 4, fh_flags = 0, fh_body_length = 2\<rparr> (mqtt_put_short 1) world0 = Some (self', w') \<and>
    mq_outgoing self' = [\<lparr>it_type = 3, it_flags = 2, it_id = 2, it_data = [6]\<rparr>]"
  using mqtt_ack_removes_request [of "session0\<lparr>mq_outgoing := [\<lparr>it_type = 3, it_flags = 2, it_id = 1, it_data = [5]\<rparr>,
        \<lparr>it_type = 3, it_flags = 2, it_id = 2, it_data = [6]\<rparr>]\<rparr>" 4 "mqtt_put_short 1" 1 "[]"
        "\<lparr>fh_type = 4, fh_flags = 0, fh_body_length = 2\<rparr>" 0 world0]
  by (auto simp: mqtt_session_def wire_simps mqtt_request_type_def)

subsection \<open>Keep-alive\<close>

lemma session_small_frame:
  assumes "mqtt_session self"
  shows "\<exists>ret st w'. stream_mqtt_write_frame base_ops self type 0 [] 0 w = Some (ret, self\<lparr>mq_stream := st\<rparr>, w') \<and>
    ret = (if mqtt_refused self w then -1 else 2) \<and> mqtt_session (self\<lparr>mq_stream := st\<rparr>) \<and> w_clock w' = w_clock w \<and> st_status st = st_status (mq_stream self) \<and>
    mqtt_sent (self\<lparr>mq_stream := st\<rparr>) w' = mqtt_sent self w @ (if mqtt_refused self w then [] else [push_bit 4 type, 0])"
  using session_write [OF assms, of "[push_bit 4 type, 0]" w] write_small_frame [of "[]" base_ops self type 0 w] by auto

text \<open>Keep-alive: before the deadline a time check does nothing. At the deadline a client whose
  last PINGREQ was answered sends a PINGREQ, notes that the answer is outstanding and restarts
  the timer; a client whose answer is outstanding, and a server, begin to close the stream. A
  received PINGRESP clears the outstanding answer; a received PINGREQ is answered by PINGRESP
  and restarts the timer with the session's interval.\<close>

lemma mqtt_keep_alive_cases:
  assumes "mqtt_session self"
  shows "(\<exists>self' w'. mqtt_time_keep_alive base_ops self w = Some (self', w') \<and>
     (if \<not> deadline_passed (mq_keep_alive_timer self) w then self' = self \<and> w' = w
      else if mq_client_role self \<and> mq_keep_alive_responded self
      then \<not> mq_keep_alive_responded self' \<and> st_status (mq_stream self') = st_status (mq_stream self) \<and>
        mq_keep_alive_timer self' = (mq_keep_alive_timer self)\<lparr>tm_start := clock_s (w_clock w)\<rparr> \<and>
        mqtt_sent self' w' = mqtt_sent self w @ (if mqtt_refused self w then [] else [0xC0, 0])
      else self' = stream_mqtt_set_status self STREAM_ST_CLOSING \<and> w' = w)) \<and>
    stream_mqtt_handle_received_frame base_ops self \<lparr>fh_type = MQTT_PINGRESP, fh_flags = 0, fh_body_length = 0\<rparr> rest w =
      Some (self\<lparr>mq_keep_alive_responded := True\<rparr>, w) \<and>
    (\<exists>self' w'. stream_mqtt_handle_received_frame base_ops self
        \<lparr>fh_type = MQTT_PINGREQ, fh_flags = 0, fh_body_length = 0\<rparr> rest w = Some (self', w') \<and>
      mqtt_sent self' w' = mqtt_sent self w @ (if mqtt_refused self w then [] else [0xD0, 0]) \<and>
      mq_keep_alive_timer self' = fst (timer_start TIMER_SEC (int (mq_keep_alive self)) (w_clock w)))"
proof -
  have sec: "timer_expired (mq_keep_alive_timer self) (w_clock w) = (deadline_passed (mq_keep_alive_timer self) w, w_clock w)"
    using assms by (intro timer_expired_world) (simp add: mqtt_session_def)
  obtain ret st w' where p: "stream_mqtt_write_frame base_ops self 12 0 [] 0 w = Some (ret, self\<lparr>mq_stream := st\<rparr>, w')"
    "w_clock w' = w_clock w" "st_status st = st_status (mq_stream self)"
    "mqtt_sent (self\<lparr>mq_stream := st\<rparr>) w' = mqtt_sent self w @ (if mqtt_refused self w then [] else [0xC0, 0])"
    using session_small_frame [OF assms, of 12 w] by auto
  have r: "timer_restart (mq_keep_alive_timer self) (w_clock w) =
      ((mq_keep_alive_timer self)\<lparr>tm_start := clock_s (w_clock w)\<rparr>, w_clock w)"
    if "deadline_passed (mq_keep_alive_timer self) w"
    using that assms
    by (auto simp: timer_restart_def mqtt_session_def sec_timer_def deadline_passed_def timer_running_def timer_stop_def)
  have time: "\<exists>self' w'. mqtt_time_keep_alive base_ops self w = Some (self', w') \<and>
     (if \<not> deadline_passed (mq_keep_alive_timer self) w then self' = self \<and> w' = w
      else if mq_client_role self \<and> mq_keep_alive_responded self
      then \<not> mq_keep_alive_responded self' \<and> st_status (mq_stream self') = st_status (mq_stream self) \<and>
        mq_keep_alive_timer self' = (mq_keep_alive_timer self)\<lparr>tm_start := clock_s (w_clock w)\<rparr> \<and>
        mqtt_sent self' w' = mqtt_sent self w @ (if mqtt_refused self w then [] else [0xC0, 0])
      else self' = stream_mqtt_set_status self STREAM_ST_CLOSING \<and> w' = w)"
    using p r by (auto simp: mqtt_time_keep_alive_def sec mqtt_sent_def)
  obtain ret2 st2 w2 where q: "stream_mqtt_write_frame base_ops self 13 0 [] 0 w = Some (ret2, self\<lparr>mq_stream := st2\<rparr>, w2)"
    "w_clock w2 = w_clock w"
    "mqtt_sent (self\<lparr>mq_stream := st2\<rparr>) w2 = mqtt_sent self w @ (if mqtt_refused self w then [] else [0xD0, 0])"
    using session_small_frame [OF assms, of 13 w] by auto
  then show ?thesis
    using time by (auto simp: stream_mqtt_handle_received_frame_def mqtt_sent_def)
qed

subsection \<open>Publishing and connecting\<close>

lemma fixed_header_size:
  "v < 128 ^ 4 \<Longrightarrow> length (mqtt_format_fixed_header type flags v) \<le> MQTT_MAX_FIXED_HEADER_SIZE"
  using length_encode_le_iff [of v 3] by (simp add: mqtt_format_fixed_header_def MQTT_MAX_FIXED_HEADER_SIZE_def)

text \<open>The bytes of a PUBLISH: flags, topic with its length, packet id for QoS above 0, payload.\<close>

definition mqtt_publish_frame :: "byte \<Rightarrow> byte \<Rightarrow> u16 \<Rightarrow> bytes \<Rightarrow> bytes \<Rightarrow> bytes" where
  "mqtt_publish_frame flags qos pid topic payload =
     (let body = mqtt_put_short (word_of_nat (length topic)) @ topic @
                 (if qos > 0 then mqtt_put_short pid else []) @ payload
      in mqtt_format_fixed_header MQTT_PUBLISH flags (length body) @ body)"

lemma publish_frame:
  assumes "length topic < 65536" and "length payload < 65536"
  shows "stream_mqtt_publish ops self retain dup qos pid topic payload (length payload) w =
      mqtt_send_publish ops self qos (mqtt_publish_flags retain dup qos) pid
        (mqtt_publish_frame (mqtt_publish_flags retain dup qos) qos pid topic payload) w"
    and "mqtt_publish_frame flags qos pid topic payload \<noteq> []"
    and "length (mqtt_publish_frame flags qos pid topic payload) < 2 ^ 31"
proof -
  define body where "body = mqtt_put_short (word_of_nat (length topic)) @ topic @
    (if qos > 0 then mqtt_put_short pid else []) @ payload"
  have b: "mqtt_format_publish qos pid topic payload (length payload) = Some body"
    using assms by (simp add: mqtt_format_publish_def put_string_eq mqtt_put_data_def rd_bytes_def body_def Let_def)
  have l: "mqtt_eval_publish qos topic (length payload) = length body" "length body < 140000"
    using assms by (simp_all add: mqtt_eval_publish_def body_def wire_simps)
  have f: "mqtt_publish_frame flags qos pid topic payload = mqtt_format_fixed_header 3 flags (length body) @ body"
    "length (mqtt_format_fixed_header 3 flags (length body)) \<le> MQTT_MAX_FIXED_HEADER_SIZE" for flags
    using fixed_header_size [of "length body" 3 flags] l(2) by (simp_all add: mqtt_publish_frame_def body_def Let_def)
  show "mqtt_publish_frame flags qos pid topic payload \<noteq> []"
    "length (mqtt_publish_frame flags qos pid topic payload) < 2 ^ 31"
    using f [of flags] l(2) by (simp_all add: mqtt_format_fixed_header_def MQTT_MAX_FIXED_HEADER_SIZE_def)
  show "stream_mqtt_publish ops self retain dup qos pid topic payload (length payload) w =
      mqtt_send_publish ops self qos (mqtt_publish_flags retain dup qos) pid
        (mqtt_publish_frame (mqtt_publish_flags retain dup qos) qos pid topic payload) w"
    using f [of "mqtt_publish_flags retain dup qos"]
    by (simp add: stream_mqtt_publish_def b l(1) heap_block_def Let_def)
qed

text \<open>C32. Publishing a topic and a payload below 64 KiB on a well-formed session (\<open>mqtt_session\<close>) over a plain stream.
  The frame has the QoS in bits 1 and 2 of its flags, RETAIN in bit 0 and DUP in bit 3, and
  contains the topic with its length, the packet id for QoS above 0, and the payload. With no
  unacknowledged message waiting it is written, which puts exactly its bytes behind everything
  accepted for the descriptor and returns their number, unless nothing waits for the descriptor
  and the kernel fails with an error other than EAGAIN (then nothing is written and -1 returned);
  it is kept for resending exactly for QoS above 0, with the resend timer started and no attempt
  counted. With one waiting, nothing is written, the frame is queued behind it whatever its
  QoS, so that a QoS 0 message then waits for an acknowledgement nobody sends, and 1 is
  returned.\<close>

theorem mqtt_publish_queueing:
  assumes "mqtt_session self" and "length topic < 65536" and "length payload < 65536"
    and "flags = push_bit 1 (qos AND 3) OR (if retain then 1 else 0) OR (if dup then 8 else 0)"
    and "item = \<lparr>it_type = MQTT_PUBLISH, it_flags = flags, it_id = pid,
      it_data = mqtt_publish_frame flags qos pid topic payload\<rparr>"
  shows "\<exists>ret self' w'.
    stream_mqtt_publish base_ops self retain dup qos pid topic payload (length payload) w = Some (ret, self', w') \<and>
    (if mq_outgoing self = []
     then mq_outgoing self' = (if qos > 0 then [item] else []) \<and>
       ret = (if mqtt_refused self w then -1 else int (length (it_data item))) \<and>
       mqtt_sent self' w' = mqtt_sent self w @ (if mqtt_refused self w then [] else it_data item) \<and>
       (qos > 0 \<longrightarrow> mq_resend_attempts self' = 0 \<and>
         mq_resend_timer self' = \<lparr>tm_start = clock_s (w_clock w), tm_interval = MQTT_RESEND_TIMEOUT, tm_flags = TIMER_SEC\<rparr>)
     else self' = self\<lparr>mq_outgoing := mq_outgoing self @ [item]\<rparr> \<and> w' = w \<and> ret = 1)"
proof -
  have flags: "mqtt_publish_flags retain dup qos = flags"
    by (simp add: mqtt_publish_flags_def MQTT_QOS_TO_FLAGS_def assms(4) or.assoc)
  define frame where "frame = mqtt_publish_frame flags qos pid topic payload"
  have app: "stream_mqtt_append_frame q 3 flags pid frame (length frame) = Some (q @ [item])" for q
    by (simp add: stream_mqtt_append_frame_def mqtt_frame_item_new_def assms(5) frame_def)
  obtain ret st w' where wr: "stream_mqtt_real_write base_ops self frame w = Some (ret, self\<lparr>mq_stream := st\<rparr>, w')"
    "ret = (if mqtt_refused self w then -1 else int (length frame))" "w_clock w' = w_clock w"
    "mqtt_sent (self\<lparr>mq_stream := st\<rparr>) w' = mqtt_sent self w @ (if mqtt_refused self w then [] else frame)"
    using session_write [OF assms(1) publish_frame(2,3) [OF assms(2,3), of flags qos pid], of w]
    by (auto simp: frame_def)
  have "it_data item = frame"
    by (simp add: assms(5) frame_def)
  then show ?thesis
    using wr unfolding publish_frame(1) [OF assms(2,3)] flags frame_def [symmetric]
    by (cases "mq_outgoing self = []"; cases "qos > 0") (auto simp: mqtt_send_publish_def app Let_def mqtt_sent_def)
qed

theorem mqtt_publish_queueing_witness:
  "\<exists>ret self' w' flags frame.
    stream_mqtt_publish base_ops (session0\<lparr>mq_outgoing := [\<lparr>it_type = 8, it_flags = 2, it_id = 1, it_data = [5]\<rparr>]\<rparr>)
      False False 0 0 [0x74] [1] (length [1 :: byte]) world0 = Some (ret, self', w') \<and>
    mq_outgoing self' = [\<lparr>it_type = 8, it_flags = 2, it_id = 1, it_data = [5]\<rparr>,
      \<lparr>it_type = 3, it_flags = flags, it_id = 0, it_data = frame\<rparr>]"
  using mqtt_publish_queueing [of "session0\<lparr>mq_outgoing := [\<lparr>it_type = 8, it_flags = 2, it_id = 1, it_data = [5]\<rparr>]\<rparr>"
      "[0x74]" "[1]" _ 0 False False _ 0 world0, OF _ _ _ refl refl]
  by (auto simp: mqtt_session_def)

text \<open>The body of a CONNECT: protocol name and level, flags, keep-alive, and those of client id, will
  and credentials that are given, each with its length.\<close>

definition mqtt_connect_body ::
    "bool \<Rightarrow> u16 \<Rightarrow> bytes \<Rightarrow> bytes option \<Rightarrow> bytes option \<Rightarrow> bool \<Rightarrow> byte \<Rightarrow> bytes option \<Rightarrow> bytes option \<Rightarrow> bytes" where
  "mqtt_connect_body cs ka cid wt wm wr wq user pass =
     str_block mqtt_protocol_name @ [4] @
     [mqtt_connect_flags cs (wt \<noteq> None \<and> wm \<noteq> None) wr wq (pass \<noteq> None) (user \<noteq> None)] @
     mqtt_put_short ka @ str_block cid @ opt_block wt @ opt_block wm @ opt_block user @ opt_block pass"

text \<open>C33. Connecting with a client id and strings below 64 KiB, the lengths of will message and password
  given as they are, on a well-formed session (\<open>mqtt_session\<close>) over a plain stream: the block allocated for the
  CONNECT frame is overflowed exactly when the fixed header needs more bytes than are left of the
  five reserved for it after two for a will message, and two for a password, given with length
  0. In every other case the stream becomes a client with the given keep-alive and the frame,
  the fixed header with the evaluated length and all fields in order, is written: exactly its
  bytes follow everything accepted for the descriptor and their number is returned, unless
  nothing waits for the descriptor and the kernel fails with an error other than EAGAIN (then
  nothing is written and -1 returned).\<close>

theorem mqtt_connect_overflow:
  assumes "mqtt_session self" and "length cid < 65536" and "opt_short wt" and "opt_short wm" and "opt_short user" and "opt_short pass"
  shows "let body_len = mqtt_eval_connect (Some cid) wt (word_of_nat (opt_length wm)) user (word_of_nat (opt_length pass));
      header = mqtt_format_fixed_header MQTT_CONNECT 0 body_len;
      excess = (if wm = Some [] then 2 else 0) + (if pass = Some [] then 2 else 0);
      frame = header @ mqtt_connect_body cs ka cid wt wm wr wq user pass;
      result = stream_mqtt_connect base_ops self cs ka (Some cid) wt wm (word_of_nat (opt_length wm)) wr wq user pass
        (word_of_nat (opt_length pass)) w
    in if MQTT_MAX_FIXED_HEADER_SIZE < length header + excess then result = None
       else \<exists>self' w'. result = Some (if mqtt_refused self w then -1 else int (length frame), self', w') \<and>
         mq_client_role self' \<and> mq_keep_alive self' = unat ka \<and>
         mqtt_sent self' w' = mqtt_sent self w @ (if mqtt_refused self w then [] else frame) \<and>
         length frame = length header + body_len + excess"
proof -
  define body_len where "body_len = mqtt_eval_connect (Some cid) wt (word_of_nat (opt_length wm)) user (word_of_nat (opt_length pass))"
  define header where "header = mqtt_format_fixed_header 1 0 body_len"
  define excess where "excess = (if wm = Some [] then 2 else 0) + (if pass = Some [] then 2 else (0::nat))"
  define body where "body = mqtt_connect_body cs ka cid wt wm wr wq user pass"
  have b: "mqtt_format_connect cs ka (Some cid) wt wm (word_of_nat (opt_length wm)) wr wq user pass
      (word_of_nat (opt_length pass)) = Some body" "length body = body_len + excess"
    using connect_body [OF assms(2-4) _ assms(5,6), where wl = "word_of_nat (opt_length wm)" and
        pl = "word_of_nat (opt_length pass)" and cs = cs and ka = ka and wr = wr and wq = wq]
      connect_size [OF assms(2-6), of cs ka wr wq]
    by (simp_all add: body_def mqtt_connect_body_def body_len_def excess_def mqtt_put_byte_def)
  define frame where "frame = header @ body"
  let ?self = "self\<lparr>mq_client_role := True, mq_keep_alive := unat ka\<rparr>"
  have eq: "stream_mqtt_connect base_ops self cs ka (Some cid) wt wm (word_of_nat (opt_length wm)) wr wq user pass
      (word_of_nat (opt_length pass)) w =
    do { buffer \<leftarrow> heap_block (body_len + MQTT_MAX_FIXED_HEADER_SIZE) frame; stream_mqtt_real_write base_ops ?self buffer w }"
    by (simp add: stream_mqtt_connect_def b(1) frame_def header_def body_len_def Let_def)
  have len: "length frame = length header + body_len + excess" "frame \<noteq> []"
    by (simp_all add: frame_def b(2) header_def mqtt_format_fixed_header_def)
  have "opt_str_size s \<le> 2 + 65536" if "opt_short s" for s
    using that by (cases s) (simp_all add: opt_str_size_def)
  from this [OF assms(3)] this [OF assms(5)] have "body_len < 500000"
    using assms(2) unsigned_less [of "word_of_nat (opt_length wm) :: u16", where ?'a = nat]
      unsigned_less [of "word_of_nat (opt_length pass) :: u16", where ?'a = nat]
    by (simp add: body_len_def mqtt_eval_connect_def opt_str_size_def [of "Some cid"] MQTT_CONNECT_VARIABLE_HEADER_SIZE_def)
  then have small: "length frame < 2 ^ 31" if "length header + excess \<le> MQTT_MAX_FIXED_HEADER_SIZE"
    using that len by (simp add: MQTT_MAX_FIXED_HEADER_SIZE_def)
  have s: "mqtt_session ?self" "mqtt_refused ?self w = mqtt_refused self w" "mqtt_sent ?self w = mqtt_sent self w"
    using assms(1) by (simp_all add: mqtt_session_def mqtt_refused_def mqtt_sent_def)
  have "if MQTT_MAX_FIXED_HEADER_SIZE < length header + excess
    then heap_block (body_len + MQTT_MAX_FIXED_HEADER_SIZE) frame = None
    else heap_block (body_len + MQTT_MAX_FIXED_HEADER_SIZE) frame = Some frame \<and>
      (\<exists>self' w'. stream_mqtt_real_write base_ops ?self frame w =
        Some (if mqtt_refused self w then -1 else int (length frame), self', w') \<and>
      mq_client_role self' \<and> mq_keep_alive self' = unat ka \<and>
      mqtt_sent self' w' = mqtt_sent self w @ (if mqtt_refused self w then [] else frame))"
    using session_write [OF s(1) len(2) small, of w] s(2,3) len(1) by (fastforce simp: heap_block_def)
  then show ?thesis
    using len(1) eq unfolding Let_def body_len_def [symmetric] header_def [symmetric] excess_def [symmetric]
      body_def [symmetric] frame_def [symmetric] by (simp split: if_splits)
qed

theorem mqtt_connect_overflow_witness:
  "stream_mqtt_connect base_ops session0 True 60 (Some [0x63]) (Some [0x74]) (Some []) (word_of_nat (opt_length (Some [])))
      False 0 None (Some []) (word_of_nat (opt_length (Some []))) world0 = None"
  using mqtt_connect_overflow [of session0 "[0x63]" "Some [0x74]" "Some []" None "Some []" True 60 False 0 world0]
  by (simp add: mqtt_eval_connect_def opt_str_size_def MQTT_CONNECT_VARIABLE_HEADER_SIZE_def Let_def
      MQTT_MAX_FIXED_HEADER_SIZE_def mqtt_format_fixed_header_def mqtt_encode_length.simps)

end
