(* ===== verification/Cstring.thy ===== *)
theory Cstring
  imports Cmx_Prelude
begin

section \<open>C strings (source/string.c, source/memory.c)\<close>

text \<open>
  A \<open>const char *\<close> is the memory from the address it points to; its string ends at the first
  zero byte. A pointer into the same string is an offset. Functions that write take the memory
  at the destination and return it changed; newly allocated blocks are their contents. The
  functions of \<open>string.h\<close> the code calls come first, as the C standard describes them, with
  \<^const>\<open>None\<close> when they would run past the end of the memory.
\<close>

definition ascii :: "string \<Rightarrow> bytes" where
  "ascii s = map of_char s"

subsection \<open>The C library\<close>

fun c_strlen :: "bytes \<Rightarrow> nat option" where
  "c_strlen [] = None"
| "c_strlen (x # m) = (if x = 0 then Some 0 else map_option Suc (c_strlen m))"

fun c_strchr :: "bytes \<Rightarrow> byte \<Rightarrow> nat option option" where
  "c_strchr [] c = None"
| "c_strchr (x # m) c =
     (if x = c then Some (Some 0) else if x = 0 then Some None
      else map_option (map_option Suc) (c_strchr m c))"

fun c_memchr :: "bytes \<Rightarrow> byte \<Rightarrow> nat \<Rightarrow> nat option option" where
  "c_memchr m c 0 = Some None"
| "c_memchr [] c (Suc n) = None"
| "c_memchr (x # m) c (Suc n) = (if x = c then Some (Some 0) else map_option (map_option Suc) (c_memchr m c n))"

text \<open>The needle of \<open>strstr\<close> is a string literal: its bytes without the zero at the end.\<close>

fun c_prefix :: "bytes \<Rightarrow> bytes \<Rightarrow> bool option" where
  "c_prefix m [] = Some True"
| "c_prefix [] (n # ns) = None"
| "c_prefix (x # m) (n # ns) = (if x = n then c_prefix m ns else Some False)"

fun c_strstr :: "bytes \<Rightarrow> bytes \<Rightarrow> nat option option" where
  "c_strstr [] nd = (if nd = [] then Some (Some 0) else None)"
| "c_strstr (x # m) nd =
     (case c_prefix (x # m) nd of
        None \<Rightarrow> None
      | Some True \<Rightarrow> Some (Some 0)
      | Some False \<Rightarrow> if x = 0 then Some None else map_option (map_option Suc) (c_strstr m nd))"

definition c_tolower :: "byte \<Rightarrow> byte" where
  "c_tolower c = (if 0x41 \<le> c \<and> c \<le> 0x5A then c + 0x20 else c)"

text \<open>Whether the result of \<open>strncmp\<close>, \<open>strcmp\<close>, \<open>strncasecmp\<close> is zero.\<close>

fun c_strneq :: "(byte \<Rightarrow> byte) \<Rightarrow> bytes \<Rightarrow> bytes \<Rightarrow> nat \<Rightarrow> bool option" where
  "c_strneq f a b 0 = Some True"
| "c_strneq f (x # a) (y # b) (Suc n) =
     (if f x \<noteq> f y then Some False else if x = 0 then Some True else c_strneq f a b n)"
| "c_strneq f a b (Suc n) = None"

lemma c_strneq_numeral [simp]:
  "c_strneq f (x # a) (y # b) (numeral k) =
     (if f x \<noteq> f y then Some False else if x = 0 then Some True else c_strneq f a b (pred_numeral k))"
  by (simp add: numeral_eq_Suc)

definition c_strncmp_eq :: "bytes \<Rightarrow> bytes \<Rightarrow> nat \<Rightarrow> bool option" where
  "c_strncmp_eq a b n = c_strneq (\<lambda>x. x) a b n"

definition c_strncasecmp_eq :: "bytes \<Rightarrow> bytes \<Rightarrow> nat \<Rightarrow> bool option" where
  "c_strncasecmp_eq a b n = c_strneq c_tolower a b n"

fun c_streq :: "(byte \<Rightarrow> byte) \<Rightarrow> bytes \<Rightarrow> bytes \<Rightarrow> bool option" where
  "c_streq f (x # a) (y # b) = (if f x \<noteq> f y then Some False else if x = 0 then Some True else c_streq f a b)"
| "c_streq f a b = None"

definition c_isgraph :: "byte \<Rightarrow> bool" where
  "c_isgraph c \<longleftrightarrow> 0x21 \<le> c \<and> c \<le> 0x7E"

definition c_isspace :: "byte \<Rightarrow> bool" where
  "c_isspace c \<longleftrightarrow> c = 0x20 \<or> 0x09 \<le> c \<and> c \<le> 0x0D"

definition c_digit :: "byte \<Rightarrow> nat option" where
  "c_digit c = (if 0x30 \<le> c \<and> c \<le> 0x39 then Some (unat c - 0x30)
     else if 0x41 \<le> c \<and> c \<le> 0x5A then Some (unat c - 0x41 + 10)
     else if 0x61 \<le> c \<and> c \<le> 0x7A then Some (unat c - 0x61 + 10) else None)"

definition mem_write :: "bytes \<Rightarrow> bytes \<Rightarrow> bytes option" where
  "mem_write dst xs = (if length xs \<le> length dst then Some (xs @ drop (length xs) dst) else None)"

text \<open>
  \<open>strtol\<close>: value, saturated to \<open>long\<close>, and offset of the first byte it did not use. The base is
  0 or 2 to 36; for any other base the end pointer is not set.
\<close>

fun c_digits :: "nat \<Rightarrow> bytes \<Rightarrow> int \<Rightarrow> nat \<Rightarrow> (int \<times> nat) option" where
  "c_digits base [] v k = None"
| "c_digits base (c # m) v k =
     (case c_digit c of
        Some d \<Rightarrow> if d < base then c_digits base m (v * int base + int d) (Suc k) else Some (v, k)
      | None \<Rightarrow> Some (v, k))"

fun c_spaces :: "bytes \<Rightarrow> nat option" where
  "c_spaces [] = None"
| "c_spaces (c # m) = (if c_isspace c then map_option Suc (c_spaces m) else Some 0)"

definition c_long :: "int \<Rightarrow> int" where
  "c_long v = (if v < - (2 ^ 63) then - (2 ^ 63) else if 2 ^ 63 - 1 < v then 2 ^ 63 - 1 else v)"

text \<open>Whether the text starts with \<open>0x\<close> and a hexadecimal digit.\<close>

definition c_hex_prefix :: "bytes \<Rightarrow> bool option" where
  "c_hex_prefix m = do {
     c \<leftarrow> rd m 0;
     if c \<noteq> 0x30 then Some False
     else do {
       x \<leftarrow> rd m 1;
       if c_tolower x \<noteq> 0x78 then Some False
       else do { h \<leftarrow> rd m 2; Some (case c_digit h of Some d \<Rightarrow> d < 16 | None \<Rightarrow> False) }
     }
   }"

definition c_strtol :: "bytes \<Rightarrow> nat \<Rightarrow> (int \<times> nat) option" where
  "c_strtol str base =
     (if base = 1 \<or> 36 < base then None
      else do {
        i \<leftarrow> c_spaces str;
        c \<leftarrow> rd str i;
        let neg = (c = 0x2D);
        let i = (if c = 0x2D \<or> c = 0x2B then i + 1 else i);
        m \<leftarrow> adv str i;
        hex \<leftarrow> c_hex_prefix m;
        c \<leftarrow> rd m 0;
        let skip = (if hex \<and> (base = 0 \<or> base = 16) then 2 else 0);
        let base = (if base \<noteq> 0 then base else if hex then 16 else if c = 0x30 then 8 else 10);
        m \<leftarrow> adv m skip;
        (v, k) \<leftarrow> c_digits base m 0 0;
        Some (if k = 0 then (0, 0) else (c_long (if neg then - v else v), i + skip + k))
      })"

subsection \<open>memory.c\<close>

text \<open>
  A failed allocation restarts the process, so allocation succeeds. \<open>size + 1\<close> wraps at
  \<open>SIZE_MAX\<close>; the zero would then be written outside the block.
\<close>

definition xmallocz :: "nat \<Rightarrow> byte option list option" where
  "xmallocz sz = (let total = size_add sz 1; ret = replicate total None
     in if sz < total then Some (ret[sz := Some 0]) else None)"

definition xmemdup :: "bytes \<Rightarrow> nat \<Rightarrow> bytes option" where
  "xmemdup ptr sz = rd_bytes ptr sz"

definition xmemdupz :: "bytes \<Rightarrow> nat \<Rightarrow> bytes option" where
  "xmemdupz ptr sz = do {
     ret \<leftarrow> xmallocz sz;
     xs \<leftarrow> rd_bytes ptr sz;
     Some (xs @ map the (drop sz ret))
   }"

subsection \<open>string.c\<close>

definition xstrmove :: "bytes option \<Rightarrow> bytes option \<times> bytes option" where
  "xstrmove str = (str, None)"

definition xstrcpy :: "bytes \<Rightarrow> bytes \<Rightarrow> (nat \<times> bytes) option" where
  "xstrcpy dst src = do {
     len \<leftarrow> c_strlen src;
     xs \<leftarrow> rd_bytes src (len + 1);
     dst \<leftarrow> mem_write dst xs;
     Some (len, dst)
   }"

definition xstrncpy :: "bytes \<Rightarrow> bytes \<Rightarrow> nat \<Rightarrow> (nat \<times> bytes) option" where
  "xstrncpy dst src maxlen = do {
     p \<leftarrow> c_memchr src 0 maxlen;
     case p of
       Some srclen \<Rightarrow> do {
         xs \<leftarrow> rd_bytes src srclen;
         dst \<leftarrow> mem_write dst (xs @ replicate (maxlen - srclen) 0);
         Some (srclen, dst)
       }
     | None \<Rightarrow> do {
         xs \<leftarrow> rd_bytes src maxlen;
         dst \<leftarrow> mem_write dst xs;
         Some (maxlen, dst)
       }
   }"

definition xstrlcpy :: "bytes \<Rightarrow> bytes \<Rightarrow> nat \<Rightarrow> (nat \<times> bytes) option" where
  "xstrlcpy dst src sz = do {
     ret \<leftarrow> c_strlen src;
     dst \<leftarrow> (if sz > 0 then do {
         let len = (if ret \<ge> sz then sz - 1 else ret);
         xs \<leftarrow> rd_bytes src len;
         mem_write dst (xs @ [0])
       } else Some dst);
     Some (ret, dst)
   }"

text \<open>The old contents of a reallocated block do not matter: all of it is overwritten.\<close>

definition xstrdupex :: "bytes option \<Rightarrow> bytes \<Rightarrow> bytes option" where
  "xstrdupex buffer str = do { n \<leftarrow> c_strlen str; xs \<leftarrow> rd_bytes str (n + 1); Some xs }"

definition xstrdup :: "bytes \<Rightarrow> bytes option" where
  "xstrdup str = xstrdupex None str"

definition xstrndup :: "bytes \<Rightarrow> nat \<Rightarrow> bytes option" where
  "xstrndup str len = do {
     p \<leftarrow> c_memchr str 0 len;
     xmemdupz str (case p of Some n \<Rightarrow> n | None \<Rightarrow> len)
   }"

definition xstrtol :: "bytes \<Rightarrow> nat \<Rightarrow> int option option" where
  "xstrtol str base = do {
     (tmp, k) \<leftarrow> c_strtol str base;
     c \<leftarrow> rd str k;
     Some (if c \<noteq> 0 then None else Some tmp)
   }"

text \<open>Three copies, each to where the one before ended.\<close>

definition xstrjoinex :: "bytes option \<Rightarrow> bytes \<Rightarrow> bytes \<Rightarrow> bytes option \<Rightarrow> bytes option" where
  "xstrjoinex buffer first second third = do {
     n1 \<leftarrow> c_strlen first;
     n2 \<leftarrow> c_strlen second;
     n3 \<leftarrow> (case third of None \<Rightarrow> Some 0 | Some t \<Rightarrow> c_strlen t);
     let buffer = replicate (n1 + n2 + 1 + n3) 0;
     (k1, b1) \<leftarrow> xstrcpy buffer first;
     (k2, b2) \<leftarrow> xstrcpy (drop k1 b1) second;
     b3 \<leftarrow> (case third of None \<Rightarrow> Some (drop k2 b2)
            | Some t \<Rightarrow> map_option snd (xstrcpy (drop k2 b2) t));
     Some (take k1 b1 @ take k2 b2 @ b3)
   }"

definition xstrjoin :: "bytes \<Rightarrow> bytes \<Rightarrow> bytes option \<Rightarrow> bytes option" where
  "xstrjoin first second third = xstrjoinex None first second third"

text \<open>The result is the memory from the first character on.\<close>

fun xstrltrim :: "bytes \<Rightarrow> bytes option" where
  "xstrltrim [] = None"
| "xstrltrim (c # m) = (if c \<noteq> 0 \<and> \<not> c_isgraph c then xstrltrim m else Some (c # m))"

function xstrrtrim_loop :: "bytes \<Rightarrow> nat \<Rightarrow> bytes option" where
  "xstrrtrim_loop str i =
     (if i > 0 then do {
        c \<leftarrow> rd str i;
        if c_isgraph c then Some str else xstrrtrim_loop (str[i := 0]) (i - 1)
      } else Some str)"
  by pat_completeness auto
termination
  by (relation "measure snd") auto

declare xstrrtrim_loop.simps [simp del]

text \<open>For the empty string \<open>strlen(str)-1\<close> is \<open>SIZE_MAX\<close>.\<close>

definition xstrrtrim :: "bytes \<Rightarrow> bytes option" where
  "xstrrtrim str = do { n \<leftarrow> c_strlen str; xstrrtrim_loop str (size_sub n 1) }"

definition xstrstarts :: "bytes \<Rightarrow> bytes \<Rightarrow> bool option" where
  "xstrstarts str prefix = do {
     prefix_len \<leftarrow> c_strlen prefix;
     n \<leftarrow> c_strlen str;
     if n < prefix_len then Some False else c_strncmp_eq str prefix prefix_len
   }"

definition xstrends :: "bytes \<Rightarrow> bytes \<Rightarrow> bool option" where
  "xstrends str postfix = do {
     str_len \<leftarrow> c_strlen str;
     postfix_len \<leftarrow> c_strlen postfix;
     if str_len < postfix_len then Some False
     else c_streq (\<lambda>x. x) (drop (str_len - postfix_len) str) postfix
   }"

text \<open>The tokenizer: the rest of the original string, and the block the last chunk was copied to.\<close>

record xstrtok =
  tk_prev_chunk :: "bytes option"
  tk_chunk :: "bytes option"

definition xstrtok_new :: "bytes \<Rightarrow> xstrtok" where
  "xstrtok_new original = \<lparr>tk_prev_chunk = Some original, tk_chunk = None\<rparr>"

fun xstrtok_find :: "bytes \<Rightarrow> bytes \<Rightarrow> nat option \<Rightarrow> nat option option" where
  "xstrtok_find prev [] separator = None"
| "xstrtok_find prev (c # separators) separator =
     (if c = 0 then Some separator
      else do {
        tmp \<leftarrow> c_strchr prev c;
        xstrtok_find prev separators
          (case tmp of
             None \<Rightarrow> separator
           | Some t \<Rightarrow> (case separator of
               None \<Rightarrow> Some t
             | Some s \<Rightarrow> if t < s then Some t else Some s))
      })"

definition xstrtok_next :: "xstrtok \<Rightarrow> bytes \<Rightarrow> (bytes option \<times> xstrtok) option" where
  "xstrtok_next tkzr separators =
     (case tk_prev_chunk tkzr of
        None \<Rightarrow> Some (None, tkzr)
      | Some prev \<Rightarrow> do {
          separator \<leftarrow> xstrtok_find prev separators None;
          case separator of
            Some chunk_len \<Rightarrow> do {
              xs \<leftarrow> rd_bytes prev chunk_len;
              prev \<leftarrow> adv prev (chunk_len + 1);
              Some (Some (xs @ [0]), \<lparr>tk_prev_chunk = Some prev, tk_chunk = Some (xs @ [0])\<rparr>)
            }
          | None \<Rightarrow> Some (Some prev, tkzr\<lparr>tk_prev_chunk := None\<rparr>)
        })"

fun xstr_span :: "(byte \<Rightarrow> bool option) \<Rightarrow> bytes \<Rightarrow> nat option" where
  "xstr_span stop [] = None"
| "xstr_span stop (ch # m) =
     (if ch = 0 then Some 0
      else do { s \<leftarrow> stop ch; if s then Some 0 else map_option Suc (xstr_span stop m) })"

definition xstr_word_len :: "bytes \<Rightarrow> bytes option \<Rightarrow> nat option" where
  "xstr_word_len str space_chars = xstr_span (\<lambda>ch. case space_chars of
     None \<Rightarrow> Some (\<not> c_isgraph ch)
   | Some cs \<Rightarrow> map_option (\<lambda>p. p \<noteq> None) (c_strchr cs ch)) str"

definition xstr_space_len :: "bytes \<Rightarrow> bytes option \<Rightarrow> nat option" where
  "xstr_space_len str space_chars = xstr_span (\<lambda>ch. case space_chars of
     None \<Rightarrow> Some (c_isgraph ch)
   | Some cs \<Rightarrow> map_option (\<lambda>p. p = None) (c_strchr cs ch)) str"

subsection \<open>Memory that holds a string\<close>

definition holds_str :: "bytes \<Rightarrow> bytes \<Rightarrow> bool" where
  "holds_str m s \<longleftrightarrow> 0 \<notin> set s \<and> (\<exists>r. m = s @ 0 # r)"

lemma holds_strI [intro]: "0 \<notin> set s \<Longrightarrow> holds_str (s @ 0 # r) s"
  by (auto simp: holds_str_def)

lemma c_strlen_str [simp]: "0 \<notin> set s \<Longrightarrow> c_strlen (s @ 0 # r) = Some (length s)"
  by (induction s) auto

lemma c_strchr_found [simp]: "c \<notin> set s \<Longrightarrow> 0 \<notin> set s \<Longrightarrow> c_strchr (s @ c # r) c = Some (Some (length s))"
  by (induction s) auto

lemma c_strchr_missing [simp]: "c \<notin> set s \<Longrightarrow> 0 \<notin> set s \<Longrightarrow> c \<noteq> 0 \<Longrightarrow> c_strchr (s @ 0 # r) c = Some None"
  by (induction s) auto

lemma c_prefix_append [simp]: "c_prefix (nd @ r) nd = Some True"
  by (induction nd) auto

lemma c_strstr_found:
  assumes "n \<notin> set s" and "0 \<notin> set s"
  shows "c_strstr (s @ n # nd @ r) (n # nd) = Some (Some (length s))"
  using assms by (induction s) auto

lemma c_memchr_found [simp]: "c \<notin> set s \<Longrightarrow> length s < n \<Longrightarrow> c_memchr (s @ c # r) c n = Some (Some (length s))"
proof (induction s arbitrary: n)
  case Nil then show ?case by (cases n) auto
next
  case (Cons x s) then show ?case by (cases n) auto
qed

lemma c_memchr_missing [simp]: "c \<notin> set s \<Longrightarrow> c_memchr (s @ r) c (length s) = Some None"
  by (induction s) auto

lemma xmallocz_eq: "sz < size_bound - 1 \<Longrightarrow> xmallocz sz = Some (replicate sz None @ [Some 0])"
proof -
  assume "sz < size_bound - 1"
  then have "size_add sz 1 = Suc sz" by simp
  moreover have "(replicate (Suc sz) None)[sz := Some 0] = replicate sz None @ [Some (0 :: byte)]"
    by (metis length_replicate list_update_length replicate_Suc replicate_append_same)
  ultimately show ?thesis
    by (simp only: xmallocz_def Let_def) simp
qed

lemma xmemdupz_eq: "sz < size_bound - 1 \<Longrightarrow> sz \<le> length ptr \<Longrightarrow> xmemdupz ptr sz = Some (take sz ptr @ [0])"
  by (simp add: xmemdupz_def xmallocz_eq rd_bytes_def)

lemma xstrdup_str [simp]: "0 \<notin> set s \<Longrightarrow> xstrdup (s @ 0 # r) = Some (s @ [0])"
  by (simp add: xstrdup_def xstrdupex_def rd_bytes_def)

lemma xstrndup_word:
  assumes "0 \<notin> set s" and "length s < size_bound - 1"
  shows "xstrndup (s @ r) (length s) = Some (s @ [0])"
  using assms by (simp add: xstrndup_def xmemdupz_eq)

lemma mem_write_append [simp]: "length xs = length ys \<Longrightarrow> mem_write (ys @ zs) xs = Some (xs @ zs)"
  by (simp add: mem_write_def)

subsection \<open>Copying and joining\<close>

lemma xstrcpy_str:
  assumes "0 \<notin> set s" and "length s < length dst"
  shows "xstrcpy dst (s @ 0 # r) = Some (length s, s @ 0 # drop (length s + 1) dst)"
  using assms by (simp add: xstrcpy_def rd_bytes_def mem_write_def)

lemma xstrjoinex_str:
  assumes "0 \<notin> set a" and "0 \<notin> set b" and "0 \<notin> set c"
  shows "xstrjoinex buf (a @ 0 # r) (b @ 0 # s) (Some (c @ 0 # t)) = Some (a @ b @ c @ [0])"
    and "xstrjoinex buf (a @ 0 # r) (b @ 0 # s) None = Some (a @ b @ [0])"
  using assms by (simp_all add: xstrjoinex_def xstrcpy_str)

text \<open>Bounded copy: xstrlcpy into a block of at least sz > 0 bytes writes the longest prefix of the source that fits together with a terminating zero, never a byte beyond sz, leaves the rest of the block as it was, and returns the length of the source, so that truncation can be detected.\<close>

lemma xstrlcpy_truncates:
  assumes "0 \<notin> set s" and "0 < sz" and "sz \<le> length dst"
  shows "\<exists>dst'. xstrlcpy dst (s @ 0 # r) sz = Some (length s, dst') \<and>
    holds_str dst' (take (sz - 1) s) \<and> length dst' = length dst \<and> drop sz dst' = drop sz dst"
proof -
  have t: "0 \<notin> set (take (sz - 1) s)"
    using assms(1) by (meson in_set_takeD)
  show ?thesis
  proof (cases "length s \<ge> sz")
    case True
    with assms have "xstrlcpy dst (s @ 0 # r) sz = Some (length s, take (sz - 1) s @ 0 # drop sz dst)"
      by (simp add: xstrlcpy_def rd_bytes_def mem_write_def Let_def)
    moreover have "length (take (sz - 1) s @ 0 # drop sz dst) = length dst"
      using assms True by simp
    moreover have "drop sz (take (sz - 1) s @ 0 # drop sz dst) = drop sz dst"
      using assms True by simp
    ultimately show ?thesis
      using holds_strI [OF t] by metis
  next
    case False
    with assms t show ?thesis
      by (auto simp: xstrlcpy_def rd_bytes_def mem_write_def drop_Cons')
  qed
qed

subsection \<open>Trimming\<close>

definition rstrip :: "bytes \<Rightarrow> bytes" where
  "rstrip s = rev (dropWhile (\<lambda>c. \<not> c_isgraph c) (rev s))"

lemma rstrip_Nil [simp]: "rstrip [] = []"
  by (simp add: rstrip_def)

lemma rstrip_snoc: "rstrip (s @ [c]) = (if c_isgraph c then s @ [c] else rstrip s)"
  by (simp add: rstrip_def)

lemma length_rstrip: "length (rstrip s) \<le> length s"
  unfolding rstrip_def by (metis length_dropWhile_le length_rev)

lemma xstrrtrim_loop_eq:
  "xstrrtrim_loop (x # t @ r) (length t) = Some (x # rstrip t @ replicate (length t - length (rstrip t)) 0 @ r)"
proof (induction t arbitrary: r rule: rev_induct)
  case Nil
  show ?case by (subst xstrrtrim_loop.simps) simp
next
  case (snoc c t)
  have z: "replicate (length t - length (rstrip t)) 0 @ 0 # r =
      replicate (Suc (length t) - length (rstrip t)) (0 :: byte) @ r"
    using length_rstrip [of t]
    by (metis Suc_diff_le append.assoc append_Cons append_Nil replicate_Suc replicate_append_same)
  show ?case
    using snoc [of "0 # r"] length_rstrip [of t]
    by (subst xstrrtrim_loop.simps)
       (auto simp: rstrip_snoc rd_def nth_append list_update_append z)
qed

lemma xstrrtrim_str:
  assumes "0 \<notin> set (x # t)" and "length t < size_bound - 1"
  shows "xstrrtrim ((x # t) @ 0 # r) = Some ((x # rstrip t) @ replicate (length t - length (rstrip t)) 0 @ 0 # r)"
proof -
  have "size_sub (Suc (length t)) 1 = length t"
    using assms(2) by simp
  moreover have "c_strlen ((x # t) @ 0 # r) = Some (Suc (length t))"
    using assms(1) by simp
  ultimately show ?thesis
    unfolding xstrrtrim_def using xstrrtrim_loop_eq [of x t "0 # r"] by simp
qed

text \<open>On the empty string the first index is \<open>SIZE_MAX\<close>: the access is outside any block.\<close>

lemma xstrrtrim_empty:
  assumes "length r < size_bound - 2"
  shows "xstrrtrim (0 # r) = None"
proof -
  define n where "n = size_bound - 1"
  have "size_sub 0 1 = n" "0 < n" "\<not> n < Suc (length r)"
    using assms by (simp_all add: n_def size_sub_def size_bound_def)
  then show ?thesis
    by (simp add: xstrrtrim_def xstrrtrim_loop.simps [of _ n] rd_def)
qed

text \<open>Trimming both ends of a string that has at least one printable character yields exactly the text from the first to the last printable character: the result starts and ends with printable characters and only blanks were removed around it; nothing outside the string's own bytes is written.\<close>

lemma trim_both:
  assumes "0 \<notin> set (pre @ x # t)" and "\<forall>c \<in> set pre. \<not> c_isgraph c" and "c_isgraph x"
    and "length t < size_bound - 1"
  shows "\<exists>u blanks m'. do { m \<leftarrow> xstrltrim ((pre @ x # t) @ 0 # r); xstrrtrim m } = Some m' \<and>
    holds_str m' u \<and> x # t = u @ blanks \<and> (\<forall>c \<in> set blanks. \<not> c_isgraph c) \<and> c_isgraph (last u) \<and>
    length m' = length ((x # t) @ 0 # r) \<and> drop (length (x # t)) m' = 0 # r"
proof -
  have l: "xstrltrim ((pre @ x # t) @ 0 # r) = Some ((x # t) @ 0 # r)"
    using assms(1,2,3) by (induction pre) auto
  have spl: "t = rstrip t @ rev (takeWhile (\<lambda>c. \<not> c_isgraph c) (rev t))"
    unfolding rstrip_def by (metis rev_append rev_rev_ident takeWhile_dropWhile_id)
  have last: "c_isgraph (last (x # rstrip t))"
  proof (cases "rstrip t = []")
    case False
    then have "dropWhile (\<lambda>c. \<not> c_isgraph c) (rev t) \<noteq> []"
      by (simp add: rstrip_def)
    from hd_dropWhile [OF this] False show ?thesis
      by (auto simp: rstrip_def last_rev)
  qed (simp add: assms(3))
  let ?u = "x # rstrip t" and ?k = "length t - length (rstrip t)"
  let ?m = "?u @ replicate ?k 0 @ 0 # r"
  have run: "do { m \<leftarrow> xstrltrim ((pre @ x # t) @ 0 # r); xstrrtrim m } = Some ?m"
    using xstrrtrim_str [of x t r] assms(1,4) l by simp
  have "0 \<notin> set t"
    using assms(1) by simp
  then have z: "0 \<notin> set (rstrip t)"
    by (subst (asm) spl) auto
  have x0: "x \<noteq> 0"
    using assms(1) by auto
  have u: "holds_str ?m ?u"
    unfolding holds_str_def using z x0
    by (metis (no_types, lifting) append_Cons append_Nil replicate_Suc replicate_append_same
        append.assoc set_ConsD)
  have lens: "length ?m = length ((x # t) @ 0 # r)" "drop (length (x # t)) ?m = 0 # r"
    using length_rstrip [of t] by simp_all
  have "x # t = ?u @ rev (takeWhile (\<lambda>c. \<not> c_isgraph c) (rev t))"
    using spl by simp
  moreover have "\<forall>c \<in> set (rev (takeWhile (\<lambda>c. \<not> c_isgraph c) (rev t))). \<not> c_isgraph c"
    using set_takeWhileD by fastforce
  ultimately show ?thesis
    using run u last lens by blast
qed

subsection \<open>Tokens\<close>

fun first_in :: "bytes \<Rightarrow> bytes \<Rightarrow> nat option" where
  "first_in cs [] = None"
| "first_in cs (x # s) = (if x \<in> set cs then Some 0 else map_option Suc (first_in cs s))"

fun opt_min :: "nat option \<Rightarrow> nat option \<Rightarrow> nat option" where
  "opt_min None b = b"
| "opt_min a None = a"
| "opt_min (Some a) (Some b) = Some (min a b)"

lemma opt_min_None [simp]: "opt_min a None = a"
  by (cases a) auto

lemma opt_min_assoc: "opt_min (opt_min a b) c = opt_min a (opt_min b c)"
  by (cases a; cases b; cases c) auto

lemma c_strchr_first: "0 \<notin> set s \<Longrightarrow> c \<noteq> 0 \<Longrightarrow> c_strchr (s @ 0 # r) c = Some (first_in [c] s)"
  by (induction s) (auto simp: comp_def)

lemma opt_min_Suc: "opt_min (map_option Suc a) (map_option Suc b) = map_option Suc (opt_min a b)"
  by (cases a; cases b) auto

lemma opt_min_0: "opt_min (Some 0) a = Some 0" "opt_min a (Some 0) = Some 0"
  by (cases a; simp)+

lemma first_in_Cons: "first_in (c # cs) s = opt_min (first_in [c] s) (first_in cs s)"
  by (induction s) (auto simp: opt_min_Suc opt_min_0)

lemma first_in_empty [simp]: "first_in [] s = None"
  by (induction s) auto

lemma xstrtok_find_eq:
  assumes "0 \<notin> set s" and "0 \<notin> set seps"
  shows "xstrtok_find (s @ 0 # r) (seps @ 0 # q) sep = Some (opt_min sep (first_in seps s))"
  using assms(2)
proof (induction seps arbitrary: sep)
  case (Cons c cs)
  have "(case first_in [c] s of None \<Rightarrow> sep
      | Some t \<Rightarrow> (case sep of None \<Rightarrow> Some t | Some u \<Rightarrow> if t < u then Some t else Some u)) =
      opt_min sep (first_in [c] s)"
    by (cases sep; cases "first_in [c] s") (auto simp: min_def)
  with Cons assms(1) show ?case
    by (simp add: c_strchr_first opt_min_assoc first_in_Cons [of c cs s])
qed simp

text \<open>
  The tokens a client gets that calls \<open>xstrtok_next\<close> until it returns \<open>NULL\<close>. This is not code of the
  library: \<open>fuel\<close> is the number of calls the client may make, and there is no result when they are
  used up.
\<close>

fun xstrtok_all :: "nat \<Rightarrow> xstrtok \<Rightarrow> bytes \<Rightarrow> bytes list option" where
  "xstrtok_all 0 tkzr separators = None"
| "xstrtok_all (Suc fuel) tkzr separators = do {
     (ret, tkzr) \<leftarrow> xstrtok_next tkzr separators;
     case ret of
       None \<Rightarrow> Some []
     | Some p \<Rightarrow> do { n \<leftarrow> c_strlen p; ts \<leftarrow> xstrtok_all fuel tkzr separators; Some (take n p # ts) }
   }"

lemma first_in_SomeE:
  assumes "first_in cs s = Some n"
  obtains a x b where "s = a @ x # b" and "length a = n" and "x \<in> set cs" and "set a \<inter> set cs = {}"
proof -
  have "\<exists>a x b. s = a @ x # b \<and> length a = n \<and> x \<in> set cs \<and> set a \<inter> set cs = {}"
    using assms
  proof (induction s arbitrary: n)
    case (Cons y s)
    show ?case
    proof (cases "y \<in> set cs")
      case True
      with Cons.prems show ?thesis by (intro exI [of _ "[]"]) auto
    next
      case False
      with Cons.prems obtain m where m: "first_in cs s = Some m" "n = Suc m" by auto
      from Cons.IH [OF m(1)] obtain a x b
        where "s = a @ x # b" "length a = m" "x \<in> set cs" "set a \<inter> set cs = {}" by blast
      with False m(2) show ?thesis by (intro exI [of _ "y # a"]) auto
    qed
  qed simp
  with that show thesis by blast
qed

lemma first_in_NoneD: "first_in cs s = None \<Longrightarrow> set s \<inter> set cs = {}"
  by (induction s) (auto split: if_splits)

lemma first_in_NoneI: "set s \<inter> set cs = {} \<Longrightarrow> first_in cs s = None"
  by (induction s) auto

lemma xstrtok_all_done [simp]:
  "xstrtok_all (Suc n) \<lparr>tk_prev_chunk = None, tk_chunk = c\<rparr> seps = Some []"
  by (simp add: xstrtok_next_def)

lemma xstrtok_all_eq:
  assumes "0 \<notin> set s" and "0 \<notin> set seps" and "length s + 1 < fuel"
  shows "\<exists>ts. xstrtok_all fuel \<lparr>tk_prev_chunk = Some (s @ 0 # r), tk_chunk = c\<rparr> (seps @ 0 # q) = Some ts \<and>
    (\<forall>t \<in> set ts. set t \<inter> set seps = {}) \<and> length ts = length (filter (\<lambda>x. x \<in> set seps) s) + 1 \<and>
    concat ts = filter (\<lambda>x. x \<notin> set seps) s"
  using assms
proof (induction "length s" arbitrary: s fuel c rule: less_induct)
  case less
  obtain f where f: "fuel = Suc f" "length s < f"
    using less.prems(3) by (cases fuel) auto
  show ?case
  proof (cases "first_in seps s")
    case None
    obtain g where g: "f = Suc g" using f(2) by (cases f) auto
    from None less.prems f first_in_NoneD [OF None] show ?thesis
      by (auto simp: xstrtok_next_def xstrtok_find_eq filter_empty_conv g intro!: filter_True [symmetric])
  next
    case (Some n)
    then obtain a x b where s: "s = a @ x # b" "length a = n" "x \<in> set seps" "set a \<inter> set seps = {}"
      by (rule first_in_SomeE)
    have "length b < length s" "0 \<notin> set b" "length b + 1 < f"
      using s(1) less.prems f(2) by auto
    from less.hyps [OF this(1,2) less.prems(2) this(3), of "Some (a @ [0])"] obtain ts
      where ts: "xstrtok_all f \<lparr>tk_prev_chunk = Some (b @ 0 # r), tk_chunk = Some (a @ [0])\<rparr> (seps @ 0 # q) = Some ts"
        "\<forall>t \<in> set ts. set t \<inter> set seps = {}" "length ts = length (filter (\<lambda>x. x \<in> set seps) b) + 1"
        "concat ts = filter (\<lambda>x. x \<notin> set seps) b"
      by blast
    have nx: "xstrtok_next \<lparr>tk_prev_chunk = Some (s @ 0 # r), tk_chunk = c\<rparr> (seps @ 0 # q) =
        Some (Some (a @ [0]), \<lparr>tk_prev_chunk = Some (b @ 0 # r), tk_chunk = Some (a @ [0])\<rparr>)"
      using xstrtok_find_eq [OF less.prems(1,2), of r q None] s(1,2) Some
      by (simp add: xstrtok_next_def rd_bytes_def adv_def)
    have a0: "0 \<notin> set a"
      using s(1) less.prems(1) by simp
    have fa: "filter (\<lambda>x. x \<in> set seps) a = []" "filter (\<lambda>x. x \<notin> set seps) a = a"
      using s(4) by (auto simp: filter_empty_conv intro!: filter_True)
    have "xstrtok_all fuel \<lparr>tk_prev_chunk = Some (s @ 0 # r), tk_chunk = c\<rparr> (seps @ 0 # q) = Some (a # ts)"
      using ts(1) a0 by (simp add: f(1) nx)
    then show ?thesis
      using ts(2-) s(1,3,4) fa by auto
  qed
qed

text \<open>C40. Tokenising: calling xstrtok_next until it returns NULL ends after at most two calls more than the string has characters, and yields the fields of the string: none contains a separator, there is one more of them than there are separators in the string (empty fields included), and put together they are the string without its separators.\<close>

theorem xstrtok_fields:
  assumes "0 \<notin> set s" and "0 \<notin> set seps" and "length s + 1 < fuel"
  shows "\<exists>ts. xstrtok_all fuel (xstrtok_new (s @ 0 # r)) (seps @ 0 # q) = Some ts \<and>
    (\<forall>t \<in> set ts. set t \<inter> set seps = {}) \<and> length ts = length (filter (\<lambda>x. x \<in> set seps) s) + 1 \<and>
    concat ts = filter (\<lambda>x. x \<notin> set seps) s"
  unfolding xstrtok_new_def by (rule xstrtok_all_eq [OF assms])

theorem xstrtok_fields_witness:
  "\<exists>ts. xstrtok_all 12 (xstrtok_new (ascii ''a,b;;c'' @ 0 # [1])) (ascii '',;'' @ 0 # []) = Some ts \<and>
    (\<forall>t \<in> set ts. set t \<inter> set (ascii '',;'') = {}) \<and>
    length ts = length (filter (\<lambda>x. x \<in> set (ascii '',;'')) (ascii ''a,b;;c'')) + 1 \<and>
    concat ts = filter (\<lambda>x. x \<notin> set (ascii '',;'')) (ascii ''a,b;;c'')"
  by (rule xstrtok_fields) (simp_all add: ascii_def)

subsection \<open>Words, blanks, prefixes\<close>

lemma xstr_span_eq:
  assumes "0 \<notin> set w" and "\<And>ch. ch \<in> set w \<Longrightarrow> stop ch = Some False" and "c = 0 \<or> stop c = Some True"
  shows "xstr_span stop (w @ c # r) = Some (length w)"
  using assms by (induction w) auto

lemma xstr_word_len_graph:
  assumes "\<forall>ch \<in> set w. c_isgraph ch" and "\<not> c_isgraph c"
  shows "xstr_word_len (w @ c # r) None = Some (length w)"
  unfolding xstr_word_len_def
  by (rule xstr_span_eq) (use assms in \<open>auto simp: c_isgraph_def\<close>)

lemma xstr_space_len_none:
  assumes "c_strchr cs c = Some None"
  shows "xstr_space_len (c # r) (Some cs) = Some 0"
  using assms by (simp add: xstr_space_len_def)

lemma c_strneq_prefix: "0 \<notin> set p \<Longrightarrow> c_strneq f (p @ s) (p @ t) (length p) = Some True"
  by (induction p) auto

lemma c_streq_same: "0 \<notin> set s \<Longrightarrow> c_streq f (s @ 0 # q) (s @ 0 # r) = Some True"
  by (induction s) auto

end
