(* ===== verification/Url.thy ===== *)
theory Url
  imports Cstring
begin

section \<open>URLs (source/url.c)\<close>

text \<open>
  \<open>url_parse\<close> stores pointers into the URL and lengths; a pointer is an offset, a null pointer
  \<^const>\<open>None\<close>. Fields the code does not assign keep the value they had. Differences of
  pointers are converted to \<open>size_t\<close>, so a negative one wraps.
\<close>

record url_parser =
  ur_scheme :: "nat option"
  ur_scheme_len :: nat
  ur_userinfo :: "nat option"
  ur_userinfo_len :: nat
  ur_host :: "nat option"
  ur_host_len :: nat
  ur_port :: "nat option"
  ur_port_len :: nat
  ur_path :: "nat option"
  ur_path_len :: nat
  ur_query :: "nat option"
  ur_query_len :: nat

abbreviation (input) c_colon :: byte where "c_colon \<equiv> 0x3A"
abbreviation (input) c_slash :: byte where "c_slash \<equiv> 0x2F"
abbreviation (input) c_at :: byte where "c_at \<equiv> 0x40"
abbreviation (input) c_question :: byte where "c_question \<equiv> 0x3F"

record url_scheme =
  us_name :: bytes
  us_port :: nat
  us_encrypted :: bool

definition url_schemes :: "url_scheme list" where
  "url_schemes = [
     \<lparr>us_name = ascii ''mqtts'', us_port = 8883, us_encrypted = True\<rparr>,
     \<lparr>us_name = ascii ''mqtt'', us_port = 1883, us_encrypted = False\<rparr>,
     \<lparr>us_name = ascii ''wss'', us_port = 443, us_encrypted = True\<rparr>,
     \<lparr>us_name = ascii ''ws'', us_port = 80, us_encrypted = False\<rparr>]"

fun url_scheme_loop :: "url_scheme list \<Rightarrow> bytes \<Rightarrow> (nat \<times> bool) option option" where
  "url_scheme_loop [] scheme = Some None"
| "url_scheme_loop (s # ss) scheme = do {
     eq \<leftarrow> c_strncmp_eq scheme (us_name s @ [0]) (length (us_name s));
     if eq then Some (Some (us_port s, us_encrypted s)) else url_scheme_loop ss scheme
   }"

text \<open>\<open>Some None\<close>: the code returns false. The port and flag are stored where a pointer is given.\<close>

definition url_parse_scheme :: "bytes \<Rightarrow> (nat \<times> bool) option option" where
  "url_parse_scheme scheme = url_scheme_loop url_schemes scheme"

definition url_parse_query :: "url_parser \<Rightarrow> bytes \<Rightarrow> url_parser option" where
  "url_parse_query parser url = do {
     path \<leftarrow> ur_path parser;
     m \<leftarrow> adv url path;
     question \<leftarrow> c_strchr m c_question;
     case question of
       None \<Rightarrow> do {
         n \<leftarrow> c_strlen m;
         Some (parser\<lparr>ur_path_len := n, ur_query := None\<rparr>)
       }
     | Some k \<Rightarrow> do {
         n \<leftarrow> c_strlen (drop (k + 1) m);
         Some (parser\<lparr>ur_path_len := k, ur_query := Some (path + k + 1), ur_query_len := n\<rparr>)
       }
   }"

definition url_parse_host :: "url_parser \<Rightarrow> bytes \<Rightarrow> nat \<Rightarrow> url_parser option" where
  "url_parse_host parser url host = do {
     let parser = parser\<lparr>ur_host := Some host\<rparr>;
     m \<leftarrow> adv url host;
     colon \<leftarrow> c_strchr m c_colon;
     slash \<leftarrow> c_strchr m c_slash;
     case colon of
       None \<Rightarrow> do {
         let parser = parser\<lparr>ur_port := None\<rparr>;
         case slash of
           Some s \<Rightarrow> url_parse_query (parser\<lparr>ur_host_len := s, ur_path := Some (host + s)\<rparr>) url
         | None \<Rightarrow> do {
             n \<leftarrow> c_strlen m;
             Some (parser\<lparr>ur_host_len := n, ur_path := None, ur_query := None\<rparr>)
           }
       }
     | Some c \<Rightarrow> do {
         let port = host + c + 1;
         let parser = parser\<lparr>ur_host_len := c, ur_port := Some port\<rparr>;
         case slash of
           Some s \<Rightarrow> url_parse_query (parser\<lparr>ur_port_len := size_sub (host + s) port, ur_path := Some (host + s)\<rparr>) url
         | None \<Rightarrow> do {
             n \<leftarrow> c_strlen (drop (c + 1) m);
             Some (parser\<lparr>ur_port_len := n, ur_path := None, ur_query := None\<rparr>)
           }
       }
   }"

text \<open>The function always returns true.\<close>

definition url_parse :: "url_parser \<Rightarrow> bytes \<Rightarrow> url_parser option" where
  "url_parse parser url = do {
     colon \<leftarrow> c_strstr url (ascii ''://'');
     let (parser, tmp) = (case colon of
         None \<Rightarrow> (parser\<lparr>ur_scheme := None\<rparr>, 0)
       | Some c \<Rightarrow> (parser\<lparr>ur_scheme := Some 0, ur_scheme_len := c\<rparr>, c + 3));
     ch \<leftarrow> rd url tmp;
     if ch = c_slash
     then url_parse_query (parser\<lparr>ur_userinfo := None, ur_host := None, ur_port := None, ur_path := Some tmp\<rparr>) url
     else do {
       m \<leftarrow> adv url tmp;
       at \<leftarrow> c_strchr m c_at;
       let (parser, tmp) = (case at of
           None \<Rightarrow> (parser\<lparr>ur_userinfo := None\<rparr>, tmp)
         | Some a \<Rightarrow> (parser\<lparr>ur_userinfo := Some tmp, ur_userinfo_len := a\<rparr>, tmp + a + 1));
       url_parse_host parser url tmp
     }
   }"

subsection \<open>Components\<close>

text \<open>What a client reads through a pointer and a length.\<close>

definition url_text :: "bytes \<Rightarrow> nat option \<Rightarrow> nat \<Rightarrow> bytes option" where
  "url_text url p n = map_option (\<lambda>p. take n (drop p url)) p"

definition with_prefix :: "bytes \<Rightarrow> bytes option \<Rightarrow> bytes" where
  "with_prefix d x = (case x of None \<Rightarrow> [] | Some s \<Rightarrow> d @ s)"

definition with_suffix :: "bytes option \<Rightarrow> bytes \<Rightarrow> bytes" where
  "with_suffix x d = (case x of None \<Rightarrow> [] | Some s \<Rightarrow> s @ d)"

lemma url_parse_query_eq:
  assumes "ur_path p = Some (length a)" and "0 \<notin> set path" and "c_question \<notin> set path"
    and "\<And>q. query = Some q \<Longrightarrow> 0 \<notin> set q"
  shows "\<exists>p'. url_parse_query p (a @ path @ with_prefix [c_question] query @ 0 # r) = Some p' \<and>
    p' = p\<lparr>ur_path_len := length path, ur_query := map_option (\<lambda>_. length a + length path + 1) query,
           ur_query_len := (case query of None \<Rightarrow> ur_query_len p | Some q \<Rightarrow> length q)\<rparr>"
proof (cases query)
  case None
  then show ?thesis
    using assms by (simp add: url_parse_query_def with_prefix_def)
next
  case (Some q)
  then show ?thesis
    using assms c_strchr_found [of c_question path "q @ 0 # r"]
    by (simp add: url_parse_query_def with_prefix_def)
qed

definition url_tail :: "bytes option \<Rightarrow> bytes option \<Rightarrow> bytes" where
  "url_tail path query = (case path of None \<Rightarrow> [] | Some s \<Rightarrow> c_slash # s @ with_prefix [c_question] query)"

text \<open>The authority and what follows it, with delimiters only where they belong.\<close>

definition url_rest_ok :: "bytes \<Rightarrow> bytes option \<Rightarrow> bytes option \<Rightarrow> bytes option \<Rightarrow> bool" where
  "url_rest_ok host port path query \<longleftrightarrow>
     0 \<notin> set (host @ with_prefix [] port @ url_tail path query) \<and>
     c_colon \<notin> set host \<and> c_slash \<notin> set (host @ with_prefix [] port) \<and>
     (port = None \<longrightarrow> c_colon \<notin> set (url_tail path query)) \<and>
     (case path of None \<Rightarrow> query = None | Some s \<Rightarrow> c_question \<notin> set s)"

lemma url_parse_host_eq:
  assumes ok: "url_rest_ok host port path query"
    and url: "url = a @ host @ with_prefix [c_colon] port @ url_tail path query @ 0 # r"
    and len: "length url < size_bound"
  shows "\<exists>p'. url_parse_host p url (length a) = Some p' \<and>
    ur_scheme p' = ur_scheme p \<and> ur_scheme_len p' = ur_scheme_len p \<and>
    ur_userinfo p' = ur_userinfo p \<and> ur_userinfo_len p' = ur_userinfo_len p \<and>
    url_text url (ur_host p') (ur_host_len p') = Some host \<and>
    url_text url (ur_port p') (ur_port_len p') = port \<and>
    url_text url (ur_path p') (ur_path_len p') = map_option (\<lambda>s. c_slash # s) path \<and>
    url_text url (ur_query p') (ur_query_len p') = query"
proof (cases path)
  case None
  then have q: "query = None" and u: "url = a @ host @ with_prefix [c_colon] port @ 0 # r"
    using ok url by (simp_all add: url_rest_ok_def url_tail_def)
  show ?thesis
  proof (cases port)
    case None
    then show ?thesis
      using ok \<open>path = None\<close> q u
      by (simp add: url_parse_host_def url_rest_ok_def with_prefix_def url_text_def adv_def)
  next
    case (Some t)
    have "c_strchr (host @ c_colon # t @ 0 # r) c_colon = Some (Some (length host))"
      using ok by (simp add: url_rest_ok_def)
    moreover have "c_strchr (host @ c_colon # t @ 0 # r) c_slash = Some None"
      using c_strchr_missing [of c_slash "host @ c_colon # t" r] ok Some
      by (simp add: url_rest_ok_def with_prefix_def)
    ultimately show ?thesis
      using ok \<open>path = None\<close> q u Some
      by (simp add: url_parse_host_def url_rest_ok_def with_prefix_def url_text_def adv_def)
  qed
next
  case (Some s)
  let ?path = "c_slash # s" and ?hp = "host @ with_prefix [c_colon] port"
  have u: "url = (a @ ?hp) @ ?path @ with_prefix [c_question] query @ 0 # r"
    using url Some by (simp add: url_tail_def)
  have cond: "0 \<notin> set ?path" "c_question \<notin> set ?path" "\<And>q. query = Some q \<Longrightarrow> 0 \<notin> set q"
    using ok Some by (auto simp: url_rest_ok_def url_tail_def with_prefix_def)
  have slash: "c_strchr (?hp @ ?path @ with_prefix [c_question] query @ 0 # r) c_slash = Some (Some (length ?hp))"
    using c_strchr_found [of c_slash ?hp] ok by (auto simp: url_rest_ok_def with_prefix_def split: option.splits)
  have tail: "ur_path p1 = Some (length (a @ ?hp)) \<Longrightarrow> \<exists>p'. url_parse_query p1 url = Some p' \<and>
    p' = p1\<lparr>ur_path_len := length ?path, ur_query := map_option (\<lambda>_. length (a @ ?hp) + length ?path + 1) query,
           ur_query_len := (case query of None \<Rightarrow> ur_query_len p1 | Some q \<Rightarrow> length q)\<rparr>" for p1
    unfolding u by (rule url_parse_query_eq) (use cond in auto)
  have ptext: "take (length ?path) (drop (length (a @ ?hp)) url) = ?path"
    unfolding u by simp
  have qtext: "query = Some q \<Longrightarrow> take (length q) (drop (length (a @ ?hp) + length ?path + 1) url) = q" for q
    unfolding u by (simp add: with_prefix_def)
  show ?thesis
  proof (cases port)
    case None
    have "c_strchr (host @ ?path @ with_prefix [c_question] query @ 0 # r) c_colon = Some None"
      using c_strchr_missing [of c_colon "host @ ?path @ with_prefix [c_question] query" r] ok Some None
      by (simp add: url_rest_ok_def url_tail_def)
    then have run: "url_parse_host p url (length a) =
        url_parse_query (p\<lparr>ur_host := Some (length a), ur_port := None, ur_host_len := length host,
          ur_path := Some (length a + length host)\<rparr>) url"
      using slash u None by (simp add: url_parse_host_def with_prefix_def adv_def)
    show ?thesis
      unfolding run
      using tail [of "p\<lparr>ur_host := Some (length a), ur_port := None, ur_host_len := length host,
          ur_path := Some (length a + length host)\<rparr>"] ptext qtext u None Some
      by (auto simp: url_text_def with_prefix_def split: option.splits)
  next
    case (Some t)
    have "c_strchr (host @ c_colon # t @ ?path @ with_prefix [c_question] query @ 0 # r) c_colon =
        Some (Some (length host))"
      using ok by (intro c_strchr_found) (auto simp: url_rest_ok_def)
    moreover have "size_sub (length a + (length host + Suc (length t))) (Suc (length a + length host)) = length t"
      using len u Some by (subst size_sub_le) (auto simp: with_prefix_def)
    ultimately have run: "url_parse_host p url (length a) =
        url_parse_query (p\<lparr>ur_host := Some (length a), ur_host_len := length host,
          ur_port := Some (length a + length host + 1), ur_port_len := length t,
          ur_path := Some (length a + length host + 1 + length t)\<rparr>) url"
      using slash u Some by (simp add: url_parse_host_def with_prefix_def adv_def add.assoc)
    show ?thesis
      unfolding run
      using tail [of "p\<lparr>ur_host := Some (length a), ur_host_len := length host,
          ur_port := Some (length a + length host + 1), ur_port_len := length t,
          ur_path := Some (length a + length host + 1 + length t)\<rparr>"] ptext qtext u Some \<open>path = Some s\<close>
      by (auto simp: url_text_def with_prefix_def split: option.splits)
  qed
qed

text \<open>Scheme and user name: what is left is the host part, at the end of a prefix of the URL.\<close>

lemma url_parse_to_host:
  assumes ok: "url_rest_ok host port path query"
    and scheme: "0 \<notin> set scheme" "c_colon \<notin> set scheme"
    and user: "case user of
        None \<Rightarrow> c_at \<notin> set (host @ with_prefix [] port @ url_tail path query) \<and> host \<noteq> []
      | Some u \<Rightarrow> 0 \<notin> set u \<and> c_at \<notin> set u \<and> (u = [] \<or> hd u \<noteq> c_slash)"
    and url: "url = scheme @ ascii ''://'' @ with_suffix user [c_at] @ host @ with_prefix [c_colon] port @
      url_tail path query @ 0 # r"
  shows "\<exists>p1 a. url_parse p url = url_parse_host p1 url (length a) \<and>
    url = a @ host @ with_prefix [c_colon] port @ url_tail path query @ 0 # r \<and>
    url_text url (ur_scheme p1) (ur_scheme_len p1) = Some scheme \<and>
    url_text url (ur_userinfo p1) (ur_userinfo_len p1) = user"
proof -
  let ?rest = "host @ with_prefix [c_colon] port @ url_tail path query @ 0 # r"
  let ?p1 = "p\<lparr>ur_scheme := Some 0, ur_scheme_len := length scheme\<rparr>"
  have sep: "ascii ''://'' = [c_colon, c_slash, c_slash]"
    by (simp add: ascii_def)
  have s1: "c_strstr url (ascii ''://'') = Some (Some (length scheme))"
    unfolding url sep using c_strstr_found [of c_colon scheme "[c_slash, c_slash]"] scheme by simp
  let ?a = "scheme @ ascii ''://''"
  have la: "length scheme + 3 = length ?a"
    by (simp add: sep)
  show ?thesis
  proof (cases user)
    case None
    have u: "url = ?a @ ?rest"
      using url None by (simp add: with_suffix_def)
    have at: "c_strchr ?rest c_at = Some None"
      using user None ok c_strchr_missing [of c_at "host @ with_prefix [c_colon] port @ url_tail path query" r]
      by (auto simp: url_rest_ok_def with_prefix_def split: option.splits)
    obtain h host' where h: "host = h # host'" "h \<noteq> c_slash"
      using user None ok by (cases host) (auto simp: url_rest_ok_def)
    have "url_parse p url = url_parse_host (?p1\<lparr>ur_userinfo := None\<rparr>) url (length ?a)"
      using s1 at h u la by (simp add: url_parse_def rd_def nth_append adv_def sep numeral_3_eq_3)
    moreover have "url_text url (Some 0) (length scheme) = Some scheme" "url_text url None n = None" for n
      by (simp_all add: url_text_def u)
    ultimately show ?thesis
      using None u by (intro exI [of _ "?p1\<lparr>ur_userinfo := None\<rparr>"] exI [of _ ?a]) simp
  next
    case (Some v)
    let ?b = "?a @ v @ [c_at]"
    let ?p2 = "?p1\<lparr>ur_userinfo := Some (length ?a), ur_userinfo_len := length v\<rparr>"
    have u: "url = ?b @ ?rest"
      using url Some by (simp add: with_suffix_def)
    have at: "c_strchr (v @ c_at # ?rest) c_at = Some (Some (length v))"
      using user Some by simp
    have hd: "rd url (length ?a) = Some (case v of [] \<Rightarrow> c_at | x # _ \<Rightarrow> x)"
      "(case v of [] \<Rightarrow> c_at | x # _ \<Rightarrow> x) \<noteq> c_slash"
      using user Some u by (cases v; simp add: rd_def nth_append)+
    have "url_parse p url = url_parse_host ?p2 url (length ?b)"
      using s1 at hd u la by (simp add: url_parse_def adv_def sep numeral_3_eq_3)
    moreover have "url_text url (Some 0) (length scheme) = Some scheme"
        "url_text url (Some (length ?a)) (length v) = Some v"
      by (simp_all add: url_text_def u)
    ultimately show ?thesis
      using Some u by (intro exI [of _ ?p2] exI [of _ ?b]) simp
  qed
qed

text \<open>C37. Parsing a URL finds its components: for scheme://user@host:port/path?query with any of user, port, path and query left out (and without delimiter characters where they would be read as delimiters), every pointer and length the parser stores delimits exactly that component, and the pointer is null exactly when the component is absent.\<close>

theorem url_parse_components:
  assumes ok: "url_rest_ok host port path query"
    and scheme: "0 \<notin> set scheme" "c_colon \<notin> set scheme"
    and user: "case user of
        None \<Rightarrow> c_at \<notin> set (host @ with_prefix [] port @ url_tail path query) \<and> host \<noteq> []
      | Some u \<Rightarrow> 0 \<notin> set u \<and> c_at \<notin> set u \<and> (u = [] \<or> hd u \<noteq> c_slash)"
    and url: "url = scheme @ ascii ''://'' @ with_suffix user [c_at] @ host @ with_prefix [c_colon] port @
      url_tail path query @ 0 # r"
    and len: "length url < size_bound"
  shows "\<exists>p'. url_parse p url = Some p' \<and>
    url_text url (ur_scheme p') (ur_scheme_len p') = Some scheme \<and>
    url_text url (ur_userinfo p') (ur_userinfo_len p') = user \<and>
    url_text url (ur_host p') (ur_host_len p') = Some host \<and>
    url_text url (ur_port p') (ur_port_len p') = port \<and>
    url_text url (ur_path p') (ur_path_len p') = map_option (\<lambda>s. c_slash # s) path \<and>
    url_text url (ur_query p') (ur_query_len p') = query"
proof -
  obtain p1 a where h: "url_parse p url = url_parse_host p1 url (length a)"
      "url = a @ host @ with_prefix [c_colon] port @ url_tail path query @ 0 # r"
      "url_text url (ur_scheme p1) (ur_scheme_len p1) = Some scheme"
      "url_text url (ur_userinfo p1) (ur_userinfo_len p1) = user"
    using url_parse_to_host [OF ok scheme user url] by blast
  show ?thesis
    using url_parse_host_eq [OF ok h(2) len, of p1] h(1,3,4) by metis
qed

definition url_parser0 :: url_parser where
  "url_parser0 = \<lparr>ur_scheme = None, ur_scheme_len = 0, ur_userinfo = None, ur_userinfo_len = 0, ur_host = None,
     ur_host_len = 0, ur_port = None, ur_port_len = 0, ur_path = None, ur_path_len = 0, ur_query = None, ur_query_len = 0\<rparr>"

theorem url_parse_components_witness:
  "\<exists>p'. url_parse url_parser0 (ascii ''mqtts://me@box:8883/a/b?c=d'' @ 0 # []) = Some p' \<and>
    url_text (ascii ''mqtts://me@box:8883/a/b?c=d'' @ 0 # []) (ur_scheme p') (ur_scheme_len p') = Some (ascii ''mqtts'') \<and>
    url_text (ascii ''mqtts://me@box:8883/a/b?c=d'' @ 0 # []) (ur_userinfo p') (ur_userinfo_len p') = Some (ascii ''me'') \<and>
    url_text (ascii ''mqtts://me@box:8883/a/b?c=d'' @ 0 # []) (ur_host p') (ur_host_len p') = Some (ascii ''box'') \<and>
    url_text (ascii ''mqtts://me@box:8883/a/b?c=d'' @ 0 # []) (ur_port p') (ur_port_len p') = Some (ascii ''8883'') \<and>
    url_text (ascii ''mqtts://me@box:8883/a/b?c=d'' @ 0 # []) (ur_path p') (ur_path_len p') =
      map_option (\<lambda>s. c_slash # s) (Some (ascii ''a/b'')) \<and>
    url_text (ascii ''mqtts://me@box:8883/a/b?c=d'' @ 0 # []) (ur_query p') (ur_query_len p') = Some (ascii ''c=d'')"
  by (rule url_parse_components [of "ascii ''box''" "Some (ascii ''8883'')" "Some (ascii ''a/b'')"
        "Some (ascii ''c=d'')" "ascii ''mqtts''" "Some (ascii ''me'')" _ "[]"])
     (simp_all add: ascii_def url_rest_ok_def url_tail_def with_prefix_def with_suffix_def size_bound_def)

text \<open>The scheme table: each of the four schemes, followed by anything, gives its default port and encryption flag, the longer names taking precedence over their prefixes; and because only a prefix is compared, a scheme that merely starts with a known one (such as wsx) is accepted as well.\<close>

lemma url_parse_scheme_cases:
  "url_parse_scheme (ascii ''mqtts'' @ r) = Some (Some (8883, True)) \<and>
   url_parse_scheme (ascii ''wss'' @ r) = Some (Some (443, True)) \<and>
   url_parse_scheme (ascii ''mqtt://'' @ r) = Some (Some (1883, False)) \<and>
   url_parse_scheme (ascii ''ws://'' @ r) = Some (Some (80, False)) \<and>
   url_parse_scheme (ascii ''http'' @ r) = Some None \<and>
   url_parse_scheme (ascii ''wsx://'' @ r) = Some (Some (80, False))"
  by (simp add: url_parse_scheme_def url_schemes_def ascii_def c_strncmp_eq_def)

text \<open>Without a path, a slash in front of the colon is not expected: for a URL such as mqtt://host/a:b, whose first colon after the host is inside the path, the host is reported as everything up to that colon and the length of the port is the negative distance wrapped to size_t.\<close>

lemma url_parse_colon_in_path:
  "map_option (\<lambda>p. (url_text (ascii ''mqtt://host/a:b'' @ [0]) (ur_host p) (ur_host_len p), ur_port_len p))
     (url_parse url_parser0 (ascii ''mqtt://host/a:b'' @ [0])) = Some (Some (ascii ''host/a''), size_bound - 3)"
  by (simp add: url_parse_def url_parse_host_def url_parse_query_def url_parser0_def ascii_def rd_def adv_def
      url_text_def size_sub_def size_bound_def)

end
