(* ===== verification/Base64.thy ===== *)
theory Base64
  imports Cstring
begin

section \<open>Base64 (source/base64.c)\<close>

text \<open>
  Both functions work as in C: the encoder computes the room it needs in \<open>size_t\<close> arithmetic,
  with the code's overflow check, and then stores through an advancing pointer; the decoder
  builds its reverse table, counts the characters it will use, and decodes groups of four. The
  result is the value returned and the output block after the call. \<^const>\<open>None\<close> is an access
  outside a block, or the overflow of the signed line length counter.
\<close>

definition size_mul :: "nat \<Rightarrow> nat \<Rightarrow> nat" where
  "size_mul a b = a * b mod size_bound"

definition base64_table :: bytes where
  "base64_table = ascii ''ABCDEFGHIJKLMNOPQRSTUVWXYZabcdefghijklmnopqrstuvwxyz0123456789+/''"

definition base64_char :: "byte \<Rightarrow> byte" where
  "base64_char i = base64_table ! unat i"

subsection \<open>Encoding\<close>

definition sextet1 :: "byte \<Rightarrow> byte" where
  "sextet1 a = drop_bit 2 a"

definition sextet2 :: "byte \<Rightarrow> byte \<Rightarrow> byte" where
  "sextet2 a b = push_bit 4 (a AND 0x03) OR drop_bit 4 b"

definition sextet3 :: "byte \<Rightarrow> byte \<Rightarrow> byte" where
  "sextet3 b c = push_bit 2 (b AND 0x0F) OR drop_bit 6 c"

definition sextet4 :: "byte \<Rightarrow> byte" where
  "sextet4 c = c AND 0x3F"

text \<open>\<open>line_len += 4\<close> on an \<open>int\<close>.\<close>

definition line_add4 :: "nat \<Rightarrow> nat option" where
  "line_add4 n = (if n + 4 < 2 ^ 31 then Some (n + 4) else None)"

text \<open>The loop over blocks of three: what it stores, the line length after it, the input left.\<close>

fun base64_blocks :: "bool \<Rightarrow> nat \<Rightarrow> bytes \<Rightarrow> (bytes \<times> nat \<times> bytes) option" where
  "base64_blocks line_feed line_len (a # b # c # xs) = do {
     line_len \<leftarrow> line_add4 line_len;
     let (nl, line_len) = (if line_feed \<and> line_len \<ge> 72 then ([0x0A], 0) else ([], line_len));
     (out, line_len, rest) \<leftarrow> base64_blocks line_feed line_len xs;
     Some (map base64_char [sextet1 a, sextet2 a b, sextet3 b c, sextet4 c] @ nl @ out, line_len, rest)
   }"
| "base64_blocks line_feed line_len xs = Some ([], line_len, xs)"

fun base64_last :: "bytes \<Rightarrow> bytes" where
  "base64_last [a] = [base64_char (sextet1 a), base64_char (push_bit 4 (a AND 0x03)), 0x3D, 0x3D]"
| "base64_last (a # b # _) = [base64_char (sextet1 a), base64_char (sextet2 a b),
     base64_char (push_bit 2 (b AND 0x0F)), 0x3D]"
| "base64_last [] = []"

definition base64_olen :: "nat \<Rightarrow> nat" where
  "base64_olen len =
     (let olen = size_add (size_mul len 4 div 3) 4;
          olen = size_add olen (olen div 72)
      in size_add olen 1)"

definition base64_encode :: "bytes \<Rightarrow> nat \<Rightarrow> bytes \<Rightarrow> nat \<Rightarrow> bool \<Rightarrow> (nat \<times> bytes) option" where
  "base64_encode src len out out_len line_feed =
     (let olen = base64_olen len in
      if olen < len then Some (0, out)
      else if olen > out_len then Some (0, out)
      else do {
        xs \<leftarrow> rd_bytes src len;
        (o1, line_len, rest) \<leftarrow> base64_blocks line_feed 0 xs;
        line_len \<leftarrow> (if rest \<noteq> [] then line_add4 line_len else Some line_len);
        let text = o1 @ base64_last rest @ (if line_feed \<and> line_len > 0 then [0x0A] else []);
        out \<leftarrow> mem_write out (text @ [0]);
        Some (length text, out)
      })"

subsection \<open>Decoding\<close>

definition base64_dtable :: "byte \<Rightarrow> byte" where
  "base64_dtable c = (if c = 0x3D then 0
     else case first_in [c] base64_table of Some i \<Rightarrow> of_nat i | None \<Rightarrow> 0x80)"

definition base64_triple :: "bytes \<Rightarrow> bytes" where
  "base64_triple block =
     [push_bit 2 (block ! 0) OR drop_bit 4 (block ! 1),
      push_bit 4 (block ! 1) OR drop_bit 2 (block ! 2),
      push_bit 6 (block ! 2) OR block ! 3]"

text \<open>\<open>out\<close>: the bytes stored so far; \<open>pos\<close> is moved back over padding after the store.\<close>

fun base64_decode_loop :: "bytes \<Rightarrow> nat \<Rightarrow> bytes \<Rightarrow> bytes \<Rightarrow> nat \<times> bytes" where
  "base64_decode_loop [] pad block out = (length out, out)"
| "base64_decode_loop (c # cs) pad block out =
     (let tmp = base64_dtable c in
      if tmp = 0x80 then base64_decode_loop cs pad block out
      else
        let pad = (if c = 0x3D then pad + 1 else pad);
            block = block @ [tmp]
        in if length block = 4 then
             let out = out @ base64_triple block in
             if pad > 0 then
               (if pad = 1 then (length out - 1, out) else if pad = 2 then (length out - 2, out) else (0, out))
             else base64_decode_loop cs pad [] out
           else base64_decode_loop cs pad block out)"

definition base64_decode :: "bytes \<Rightarrow> nat \<Rightarrow> bytes \<Rightarrow> nat \<Rightarrow> (nat \<times> bytes) option" where
  "base64_decode src len out out_len = do {
     xs \<leftarrow> rd_bytes src len;
     let count = length (filter (\<lambda>c. base64_dtable c \<noteq> 0x80) xs);
     if count = 0 \<or> count mod 4 \<noteq> 0 then Some (0, out)
     else if count div 4 * 3 > out_len then Some (0, out)
     else do {
       let (ret, stored) = base64_decode_loop xs 0 [] [];
       out \<leftarrow> mem_write out stored;
       Some (ret, out)
     }
   }"

subsection \<open>Sextets\<close>

lemma sextet_masks: "(0x03 :: byte) = mask 2" "(0x0F :: byte) = mask 4" "(0x3F :: byte) = mask 6"
  by (simp_all add: mask_eq_exp_minus_1)

lemma sextet_pads: "push_bit 4 (a AND 0x03) = sextet2 a 0" "push_bit 2 (b AND 0x0F) = sextet3 b 0"
  by (simp_all add: sextet2_def sextet3_def)

lemma byte_eqI:
  fixes x y :: byte
  assumes "bit x 0 = bit y 0" "bit x 1 = bit y 1" "bit x 2 = bit y 2" "bit x 3 = bit y 3"
    "bit x 4 = bit y 4" "bit x 5 = bit y 5" "bit x 6 = bit y 6" "bit x 7 = bit y 7"
  shows "x = y"
proof (rule bit_word_eqI)
  fix n assume "n < LENGTH(8)"
  then have "n = 0 \<or> n = 1 \<or> n = 2 \<or> n = 3 \<or> n = 4 \<or> n = 5 \<or> n = 6 \<or> n = 7"
    by simp linarith
  with assms show "bit x n = bit y n" by auto
qed

lemma byte_bit_high [simp]: "\<not> bit (a :: byte) 8" "\<not> bit (a :: byte) 9" "\<not> bit (a :: byte) 10" "\<not> bit (a :: byte) 11" "\<not> bit (a :: byte) 12" "\<not> bit (a :: byte) 13"
  by (auto dest: bit_imp_le_length)

lemmas sextet_bits = bit_simps sextet1_def sextet2_def sextet3_def sextet4_def sextet_masks

lemma sextets_back:
  "push_bit 2 (sextet1 a) OR drop_bit 4 (sextet2 a b) = a"
  "push_bit 4 (sextet2 a b) OR drop_bit 2 (sextet3 b c) = b"
  "push_bit 6 (sextet3 b c) OR sextet4 c = c"
  by (rule byte_eqI; simp add: sextet_bits)+

lemma sextets_take_bit:
  "take_bit 6 (sextet1 a) = sextet1 a" "take_bit 6 (sextet2 a b) = sextet2 a b"
  "take_bit 6 (sextet3 b c) = sextet3 b c" "take_bit 6 (sextet4 c) = sextet4 c"
  by (rule byte_eqI; simp add: sextet_bits)+

lemma take_bit6_less:
  assumes "take_bit 6 (x :: byte) = x"
  shows "unat x < 64"
proof -
  have "unat (take_bit 6 x) = take_bit 6 (unat x)"
    by (simp add: unsigned_take_bit_eq)
  also have "\<dots> < 2 ^ 6"
    by (rule take_bit_nat_less_exp)
  finally show ?thesis using assms by simp
qed

lemmas sextets_less = sextets_take_bit [THEN take_bit6_less]

lemma base64_table_bytes: "base64_table =
   [65, 66, 67, 68, 69, 70, 71, 72, 73, 74, 75, 76, 77, 78, 79, 80, 81, 82, 83, 84, 85, 86,
    87, 88, 89, 90, 97, 98, 99, 100, 101, 102, 103, 104, 105, 106, 107, 108, 109, 110, 111,
    112, 113, 114, 115, 116, 117, 118, 119, 120, 121, 122, 48, 49, 50, 51, 52, 53, 54, 55, 56,
    57, 43, 47]"
  by (simp add: base64_table_def ascii_def)

lemma base64_table_facts:
  "distinct base64_table" "length base64_table = 64" "0x3D \<notin> set base64_table" "0 \<notin> set base64_table"
  "0x0A \<notin> set base64_table"
  by (simp_all add: base64_table_bytes)

lemma first_in_nth: "distinct xs \<Longrightarrow> i < length xs \<Longrightarrow> first_in [xs ! i] xs = Some i"
proof (induction xs arbitrary: i)
  case (Cons x xs)
  then show ?case by (cases i) auto
qed simp

lemma dtable_char:
  assumes "unat i < 64"
  shows "base64_dtable (base64_char i) = i" "base64_char i \<noteq> 0x3D" "base64_char i \<noteq> 0"
proof -
  have "base64_char i \<in> set base64_table"
    using assms by (simp add: base64_char_def base64_table_facts)
  then show n: "base64_char i \<noteq> 0x3D" "base64_char i \<noteq> 0"
    using base64_table_facts by metis+
  have "first_in [base64_table ! unat i] base64_table = Some (unat i)"
    using assms base64_table_facts by (intro first_in_nth) auto
  with n show "base64_dtable (base64_char i) = i"
    by (simp add: base64_dtable_def base64_char_def)
qed

lemma dtable_newline: "base64_dtable 0x0A = 0x80"
proof -
  have "first_in [0x0A] base64_table = None"
    using base64_table_facts(5) by (intro first_in_NoneI) auto
  then show ?thesis by (simp add: base64_dtable_def)
qed

lemma less64_not_invalid: "unat i < 64 \<Longrightarrow> i \<noteq> (0x80 :: byte)"
  by auto

subsection \<open>The encoder's blocks, decoded\<close>

abbreviation (input) "base64_valid \<equiv> \<lambda>c. base64_dtable c \<noteq> 0x80"

lemma base64_decode_block:
  assumes "unat i < 64" "unat j < 64" "unat k < 64" "unat l < 64"
  shows "base64_decode_loop (map base64_char [i, j, k, l] @ cs) 0 [] acc =
    base64_decode_loop cs 0 [] (acc @ base64_triple [i, j, k, l])"
  using assms by (simp add: dtable_char less64_not_invalid Let_def)

lemma base64_decode_newline: "base64_decode_loop (0x0A # cs) pad block acc = base64_decode_loop cs pad block acc"
  by (simp add: dtable_newline)

lemma base64_triple_sextets:
  "base64_triple [sextet1 a, sextet2 a b, sextet3 b c, sextet4 c] = [a, b, c]"
  by (simp add: base64_triple_def sextets_back)

lemma base64_valid_char: "unat i < 64 \<Longrightarrow> base64_valid (base64_char i)"
  by (simp add: dtable_char less64_not_invalid)

definition line_after :: "bool \<Rightarrow> nat \<Rightarrow> nat" where
  "line_after line_feed n = (if line_feed then n mod 72 else n)"

definition lines_in :: "bool \<Rightarrow> nat \<Rightarrow> nat" where
  "lines_in line_feed n = (if line_feed then n div 72 else 0)"

lemma line_add4_break:
  fixes ll :: nat
  assumes "ll < 72" "4 dvd ll"
  shows "ll + 4 \<ge> 72 \<longleftrightarrow> ll + 4 = 72"
  using assms by presburger

text \<open>The four characters of three bytes: none is zero or outside the alphabet, and they decode to the bytes.\<close>

lemma base64_quad:
  defines "quad a b c \<equiv> map base64_char [sextet1 a, sextet2 a b, sextet3 b c, sextet4 c]"
  shows "base64_decode_loop (quad a b c @ cs) 0 [] acc = base64_decode_loop cs 0 [] (acc @ [a, b, c])"
    and "filter base64_valid (quad a b c) = quad a b c" "0 \<notin> set (quad a b c)"
proof -
  show "base64_decode_loop (quad a b c @ cs) 0 [] acc = base64_decode_loop cs 0 [] (acc @ [a, b, c])"
    by (simp only: quad_def base64_decode_block [OF sextets_less] base64_triple_sextets)
  have v: "base64_valid y \<and> y \<noteq> 0" if y: "y \<in> set (quad a b c)" for y
  proof -
    from y obtain x where x: "x \<in> set [sextet1 a, sextet2 a b, sextet3 b c, sextet4 c]" "y = base64_char x"
      by (auto simp only: quad_def set_map image_iff)
    from x(1) have "x = sextet1 a \<or> x = sextet2 a b \<or> x = sextet3 b c \<or> x = sextet4 c" by simp
    then have l: "unat x < 64"
      using sextets_less by (elim disjE) simp_all
    show ?thesis
      unfolding x(2) by (rule conjI [OF base64_valid_char [OF l] dtable_char(3) [OF l]])
  qed
  show "filter base64_valid (quad a b c) = quad a b c" by (rule filter_True) (use v in blast)
  show "0 \<notin> set (quad a b c)" using v by blast
qed

text \<open>What a line feed after a group of four characters does to the position in the line.\<close>

lemma line_after_group:
  assumes "line_feed \<longrightarrow> ll < 72 \<and> 4 dvd ll"
    and "nl = (if line_feed \<and> ll + 4 \<ge> 72 then [0x0A :: byte] else [])" "ll1 = (if line_feed \<and> ll + 4 \<ge> 72 then 0 else ll + 4)"
  shows "line_after line_feed (ll + 4 * Suc n) = line_after line_feed (ll1 + 4 * n)"
    and "lines_in line_feed (ll + 4 * Suc n) = length nl + lines_in line_feed (ll1 + 4 * n)"
proof -
  have "line_after line_feed (ll + 4 * Suc n) = line_after line_feed (ll1 + 4 * n) \<and>
    lines_in line_feed (ll + 4 * Suc n) = length nl + lines_in line_feed (ll1 + 4 * n)"
  proof (cases line_feed)
    case True
    then have e: "ll + 4 * Suc n = ll1 + 4 * n + 72 * length nl"
      using assms line_add4_break [of ll] by auto
    show ?thesis using True unfolding e line_after_def lines_in_def
      by (simp only: if_True mod_mult_self2) simp
  next
    case False
    then have e: "ll + 4 * Suc n = ll1 + 4 * n" "nl = []" using assms by auto
    then show ?thesis using False unfolding e(1) line_after_def lines_in_def by simp
  qed
  then show "line_after line_feed (ll + 4 * Suc n) = line_after line_feed (ll1 + 4 * n)"
    "lines_in line_feed (ll + 4 * Suc n) = length nl + lines_in line_feed (ll1 + 4 * n)" by blast+
qed

lemma drop_take_three:
  "drop (3 * Suc n) (a # b # c # xs) = drop (3 * n) xs" "take (3 * Suc n) (a # b # c # xs) = a # b # c # take (3 * n) xs"
proof -
  have "3 * Suc n = Suc (Suc (Suc (3 * n)))" by simp
  then show "drop (3 * Suc n) (a # b # c # xs) = drop (3 * n) xs"
    "take (3 * Suc n) (a # b # c # xs) = a # b # c # take (3 * n) xs"
    by (simp_all only: drop_Suc_Cons take_Suc_Cons)
qed

lemma base64_blocks_eq:
  assumes "line_feed \<longrightarrow> ll < 72 \<and> 4 dvd ll" and "ll + 4 * (length xs div 3) < 2 ^ 31"
  shows "\<exists>out. base64_blocks line_feed ll xs =
      Some (out, line_after line_feed (ll + 4 * (length xs div 3)), drop (3 * (length xs div 3)) xs) \<and>
    length out = 4 * (length xs div 3) + lines_in line_feed (ll + 4 * (length xs div 3)) \<and>
    0 \<notin> set out \<and> length (filter base64_valid out) = 4 * (length xs div 3) \<and>
    (\<forall>rest acc. base64_decode_loop (out @ rest) 0 [] acc =
      base64_decode_loop rest 0 [] (acc @ take (3 * (length xs div 3)) xs))"
  using assms
proof (induction line_feed ll xs rule: base64_blocks.induct)
  case (1 line_feed ll a b c xs)
  let ?n = "length xs div 3" and ?s = "[sextet1 a, sextet2 a b, sextet3 b c, sextet4 c]"
  have n: "length (a # b # c # xs) div 3 = Suc ?n"
    by simp
  have lim: "ll + 4 + 4 * ?n < 2 ^ 31"
    using "1.prems"(2) unfolding n by simp
  then have add: "line_add4 ll = Some (ll + 4)"
    by (simp add: line_add4_def)
  define nl where "nl = (if line_feed \<and> ll + 4 \<ge> 72 then [0x0A :: byte] else [])"
  define ll1 where "ll1 = (if line_feed \<and> ll + 4 \<ge> 72 then 0 else ll + 4)"
  have new: "(nl, ll1) = (if line_feed \<and> ll + 4 \<ge> 72 then ([0x0A], 0) else ([], ll + 4))"
    by (simp add: nl_def ll1_def)
  have pre: "line_feed \<longrightarrow> ll1 < 72 \<and> 4 dvd ll1" "ll1 + 4 * ?n < 2 ^ 31"
    using "1.prems"(1) lim by (auto simp: ll1_def dvd_add)
  note after = line_after_group [OF "1.prems"(1) nl_def ll1_def, of ?n]
  have nl: "filter base64_valid nl = []" "0 \<notin> set nl"
      "base64_decode_loop (nl @ cs) 0 [] acc = base64_decode_loop cs 0 [] acc" for cs acc
    by (simp_all add: nl_def dtable_newline)
  note tail = drop_take_three [of ?n a b c xs] and dec = base64_quad(1) and val = base64_quad(2,3) [of a b c]
  from "1.IH" [OF add new refl pre] obtain out where
    out: "base64_blocks line_feed ll1 xs = Some (out, line_after line_feed (ll1 + 4 * ?n), drop (3 * ?n) xs)"
      "length out = 4 * ?n + lines_in line_feed (ll1 + 4 * ?n)" "0 \<notin> set out"
      "length (filter base64_valid out) = 4 * ?n"
      "\<And>rest acc. base64_decode_loop (out @ rest) 0 [] acc =
        base64_decode_loop rest 0 [] (acc @ take (3 * ?n) xs)"
    by blast
  let ?out = "map base64_char ?s @ nl @ out"
  have "base64_blocks line_feed ll (a # b # c # xs) =
      Some (?out, line_after line_feed (ll + 4 * Suc ?n), drop (3 * Suc ?n) (a # b # c # xs))"
    using add out(1) by (simp only: base64_blocks.simps bind.bind_lunit Let_def new [symmetric] prod.case after tail)
  moreover have "length ?out = 4 * Suc ?n + lines_in line_feed (ll + 4 * Suc ?n)"
    using out(2) after by simp
  moreover have "0 \<notin> set ?out"
    using out(3) nl(2) val(2) by (simp only: set_append Un_iff) simp
  moreover have "length (filter base64_valid ?out) = 4 * Suc ?n"
    using out(4) nl(1) val(1) by (simp only: filter_append) simp
  moreover have "\<forall>rest acc. base64_decode_loop (?out @ rest) 0 [] acc =
      base64_decode_loop rest 0 [] (acc @ take (3 * Suc ?n) (a # b # c # xs))"
    unfolding tail by (simp only: append_assoc dec nl(3) out(5)) simp
  ultimately show ?case
    unfolding n by blast
qed (auto simp: line_after_def lines_in_def)

lemma dtable_pad [simp]: "base64_dtable 0x3D = 0"
  by (simp add: base64_dtable_def)

lemma base64_last_eq:
  assumes "length rest < 3" and "nl = [] \<or> nl = [0x0A]"
  shows "\<exists>pad. base64_decode_loop (base64_last rest @ nl) 0 [] acc = (length acc + length rest, acc @ rest @ pad) \<and>
      length (rest @ pad) = (if rest = [] then 0 else 3)"
    and "length (filter base64_valid (base64_last rest @ nl)) = (if rest = [] then 0 else 4)"
    and "length (base64_last rest) = (if rest = [] then 0 else 4)" and "0 \<notin> set (base64_last rest @ nl)"
proof -
  have dtn: "base64_decode_loop nl 0 [] acc = (length acc, acc)" "filter base64_valid nl = []" "0 \<notin> set nl" for acc
    using assms(2) by (auto simp: dtable_newline)
  note ch = sextets_less dtable_char base64_valid_char less64_not_invalid
  consider "rest = []" | a where "rest = [a]" | a b where "rest = [a, b]"
    using assms(1) by (cases rest rule: base64_last.cases) auto
  then have concl: "(\<exists>pad. base64_decode_loop (base64_last rest @ nl) 0 [] acc = (length acc + length rest, acc @ rest @ pad) \<and>
      length (rest @ pad) = (if rest = [] then 0 else 3)) \<and>
    length (filter base64_valid (base64_last rest @ nl)) = (if rest = [] then 0 else 4) \<and>
    length (base64_last rest) = (if rest = [] then 0 else 4) \<and> 0 \<notin> set (base64_last rest @ nl)"
  proof cases
    case 1
    then show ?thesis using dtn by simp
  next
    case 2
    have bl: "base64_last rest = [base64_char (sextet1 a), base64_char (sextet2 a 0), 0x3D, 0x3D]"
      by (simp only: 2 base64_last.simps sextet_pads)
    have "base64_decode_loop (base64_last rest @ nl) 0 [] acc =
        (length acc + 1, acc @ base64_triple [sextet1 a, sextet2 a 0, 0, 0])"
      unfolding bl by (simp add: ch Let_def base64_triple_def)
    then have "base64_decode_loop (base64_last rest @ nl) 0 [] acc =
        (length acc + length rest, acc @ rest @ tl (base64_triple [sextet1 a, sextet2 a 0, 0, 0]))"
      using 2 by (simp add: base64_triple_def sextets_back)
    then have ex: "\<exists>pad. base64_decode_loop (base64_last rest @ nl) 0 [] acc = (length acc + length rest, acc @ rest @ pad) \<and>
        length (rest @ pad) = (if rest = [] then 0 else 3)"
      by (intro exI conjI) (assumption, simp add: 2 base64_triple_def)
    show ?thesis
      unfolding bl by (intro conjI ex [unfolded bl]) (simp_all add: 2 ch dtn)
  next
    case 3
    have bl: "base64_last rest = [base64_char (sextet1 a), base64_char (sextet2 a b), base64_char (sextet3 b 0), 0x3D]"
      by (simp only: 3 base64_last.simps sextet_pads)
    have "base64_decode_loop (base64_last rest @ nl) 0 [] acc =
        (length acc + 2, acc @ base64_triple [sextet1 a, sextet2 a b, sextet3 b 0, 0])"
      unfolding bl by (simp add: ch Let_def base64_triple_def)
    then have "base64_decode_loop (base64_last rest @ nl) 0 [] acc =
        (length acc + length rest, acc @ rest @ [push_bit 6 (sextet3 b 0) OR 0])"
      using 3 by (simp add: base64_triple_def sextets_back)
    then have ex: "\<exists>pad. base64_decode_loop (base64_last rest @ nl) 0 [] acc = (length acc + length rest, acc @ rest @ pad) \<and>
        length (rest @ pad) = (if rest = [] then 0 else 3)"
      by (intro exI conjI) (assumption, simp add: 3)
    show ?thesis
      unfolding bl by (intro conjI ex [unfolded bl]) (simp_all add: 3 ch dtn)
  qed
  show "\<exists>pad. base64_decode_loop (base64_last rest @ nl) 0 [] acc = (length acc + length rest, acc @ rest @ pad) \<and>
      length (rest @ pad) = (if rest = [] then 0 else 3)"
    by (rule concl [THEN conjunct1])
  show "length (filter base64_valid (base64_last rest @ nl)) = (if rest = [] then 0 else 4)"
    by (rule concl [THEN conjunct2, THEN conjunct1])
  show "length (base64_last rest) = (if rest = [] then 0 else 4)"
    by (rule concl [THEN conjunct2, THEN conjunct2, THEN conjunct1])
  show "0 \<notin> set (base64_last rest @ nl)"
    by (rule concl [THEN conjunct2, THEN conjunct2, THEN conjunct2])
qed

lemma base64_olen_small:
  assumes "len < 2 ^ 61"
  shows "base64_olen len = (len * 4 div 3 + 4) + (len * 4 div 3 + 4) div 72 + 1"
proof -
  have "(len * 4 div 3 + 4) + (len * 4 div 3 + 4) div 72 + 1 < 2 ^ 64"
    using assms by simp
  then show ?thesis
    using assms by (simp add: base64_olen_def size_mul_def size_bound_def Let_def)
qed

text \<open>The text the encoder stores, and what the decoder makes of it.\<close>

lemma base64_groups: "(len + 2) div 3 = len div 3 + (if len mod 3 = 0 then 0 else 1 :: nat)"
  by (cases "len mod 3 = 0") presburger+

text \<open>The characters of all groups, the line feeds between them and one at the end leave room for the terminating zero.\<close>

lemma base64_room:
  assumes "len < 2 ^ 30" "l1 \<le> 4 * (len div 3) div 72" "l2 \<le> 1"
  shows "4 * ((len + 2) div 3) + l1 + l2 < base64_olen len"
proof -
  have olen: "base64_olen len = (len * 4 div 3 + 4) + (len * 4 div 3 + 4) div 72 + 1"
    using assms(1) by (intro base64_olen_small) simp
  have c: "4 * ((len + 2) div 3) + 1 \<le> len * 4 div 3 + 4" by presburger
  have "4 * (len div 3) \<le> 4 * ((len + 2) div 3)" by (intro mult_le_mono2 div_le_mono) simp
  then have "4 * (len div 3) div 72 \<le> (len * 4 div 3 + 4) div 72"
    using c by (intro div_le_mono) linarith
  then show ?thesis using assms(2,3) c unfolding olen by linarith
qed

lemma base64_encode_eq:
  assumes len: "len \<le> length src" "len < 2 ^ 30" and room: "base64_olen len \<le> out_len" "out_len \<le> length out"
  shows "\<exists>enc. base64_encode src len out out_len line_feed = Some (length enc, enc @ 0 # drop (length enc + 1) out) \<and>
    length enc < base64_olen len \<and> 0 \<notin> set enc \<and>
    length (filter base64_valid enc) = 4 * ((len + 2) div 3) \<and>
    (\<exists>pad. base64_decode_loop enc 0 [] [] = (len, take len src @ pad) \<and> length (take len src @ pad) = 3 * ((len + 2) div 3))"
proof -
  let ?xs = "take len src"
  define n where "n = length ?xs div 3"
  have n: "n = len div 3" "4 * n < 2 ^ 31" using len by (auto simp: n_def min_def)
  have pre: "line_feed \<longrightarrow> (0::nat) < 72 \<and> 4 dvd (0::nat)" "0 + 4 * (length ?xs div 3) < 2 ^ 31"
    using n by (auto simp: n_def)
  from base64_blocks_eq [OF pre, folded n_def] obtain o1 where
    o1: "base64_blocks line_feed 0 ?xs = Some (o1, line_after line_feed (4 * n), drop (3 * n) ?xs)"
      "length o1 = 4 * n + lines_in line_feed (4 * n)" "0 \<notin> set o1" "length (filter base64_valid o1) = 4 * n"
      "\<And>rest acc. base64_decode_loop (o1 @ rest) 0 [] acc = base64_decode_loop rest 0 [] (acc @ take (3 * n) ?xs)"
    by auto
  define rest where "rest = drop (3 * n) ?xs"
  have lr: "length rest = len mod 3" "length rest < 3"
    using len(1) by (simp_all add: rest_def n(1) minus_mult_div_eq_mod)
  define line where "line = line_after line_feed (4 * n) + (if rest \<noteq> [] then 4 else 0)"
  have line: "(if rest \<noteq> [] then line_add4 (line_after line_feed (4 * n)) else Some (line_after line_feed (4 * n))) = Some line"
  proof -
    have "line_after line_feed (4 * n) + 4 < 2 ^ 31"
      using len n by (auto simp: line_after_def intro: le_less_trans [OF add_right_mono [OF mod_less_eq_dividend]])
    then show ?thesis by (auto simp: line_def line_add4_def)
  qed
  define nl where "nl = (if line_feed \<and> line > 0 then [0x0A :: byte] else [])"
  have nl: "nl = [] \<or> nl = [0x0A]" by (simp add: nl_def)
  note last = base64_last_eq [OF lr(2) nl]
  let ?enc = "o1 @ base64_last rest @ nl"
  have k: "(len + 2) div 3 = n + (if rest = [] then 0 else 1)"
    using lr(1) unfolding n(1) base64_groups by auto
  have size: "length ?enc < base64_olen len"
  proof -
    have "4 * ((len + 2) div 3) + lines_in line_feed (4 * n) + length nl < base64_olen len"
      using len(2) unfolding n(1) by (rule base64_room) (simp_all add: lines_in_def nl_def)
    then show ?thesis using o1(2) last(3) k by (auto split: if_splits)
  qed
  have enc: "base64_encode src len out out_len line_feed = Some (length ?enc, ?enc @ 0 # drop (length ?enc + 1) out)"
  proof -
    have "len \<le> base64_olen len" using base64_olen_small [of len] len(2) by simp
    moreover have "mem_write out (?enc @ [0]) = Some (?enc @ 0 # drop (length ?enc + 1) out)"
      using size room by (simp add: mem_write_def)
    ultimately show ?thesis
      using len(1) room(1) o1(1) line by (simp add: base64_encode_def rd_bytes_def rest_def [symmetric] nl_def [symmetric] Let_def)
  qed
  obtain pad where pad: "base64_decode_loop (base64_last rest @ nl) 0 [] (take (3 * n) ?xs) =
      (length (take (3 * n) ?xs) + length rest, take (3 * n) ?xs @ rest @ pad)"
      "length (rest @ pad) = (if rest = [] then 0 else 3)"
    using last(1) by blast
  have xs: "take (3 * n) ?xs @ rest = ?xs" "length (take (3 * n) ?xs) = 3 * n" "3 * n + length rest = len"
    using len(1) lr(1) n(1) by (simp_all only: rest_def append_take_drop_id) auto
  have "base64_decode_loop ?enc 0 [] [] = (len, ?xs @ pad)"
    using o1(5) [of "base64_last rest @ nl" "[]"] pad(1) xs by (metis append_Nil append_assoc)
  moreover have "length (?xs @ pad) = 3 * ((len + 2) div 3)"
    using pad(2) xs(3) k len(1) by (auto split: if_splits)
  moreover have "length (filter base64_valid ?enc) = 4 * ((len + 2) div 3)"
    using o1(4) last(2) k by simp
  moreover have "0 \<notin> set ?enc"
    using o1(3) last(4) by simp
  ultimately show ?thesis
    using enc size by blast
qed
text \<open>C36. Base64 round trip with room to spare: for any data of less than 2^30 bytes, with or without line feeds, if the output block has the size the encoder asks for, encoding succeeds, stores a zero-terminated text inside that size, and decoding this text into a block of the padded size gives back exactly the data and its length.\<close>

theorem base64_roundtrip:
  assumes "len \<le> length src" and "len < 2 ^ 30" and "base64_olen len \<le> length out"
    and "3 * ((len + 2) div 3) \<le> length buf"
  shows "\<exists>n out' buf'. base64_encode src len out (length out) line_feed = Some (n, out') \<and>
    n < base64_olen len \<and> length out' = length out \<and> holds_str out' (take n out') \<and>
    base64_decode out' n buf (length buf) = Some (len, buf') \<and> length buf' = length buf \<and> take len buf' = take len src"
proof -
  from base64_encode_eq [OF assms(1-3) order_refl, of line_feed] obtain enc where
    e: "base64_encode src len out (length out) line_feed = Some (length enc, enc @ 0 # drop (length enc + 1) out)"
      "length enc < base64_olen len" "0 \<notin> set enc" "length (filter base64_valid enc) = 4 * ((len + 2) div 3)"
      "\<exists>pad. base64_decode_loop enc 0 [] [] = (len, take len src @ pad) \<and>
        length (take len src @ pad) = 3 * ((len + 2) div 3)"
    by blast
  then obtain pad where pad: "base64_decode_loop enc 0 [] [] = (len, take len src @ pad)"
      "length (take len src @ pad) = 3 * ((len + 2) div 3)" by blast
  let ?out = "enc @ 0 # drop (length enc + 1) out"
  have o: "length ?out = length out" "take (length enc) ?out = enc"
    using e(2) assms(3) by simp_all
  have "\<exists>buf'. base64_decode ?out (length enc) buf (length buf) = Some (len, buf') \<and>
      length buf' = length buf \<and> take len buf' = take len src"
  proof (cases "len = 0")
    case True
    then show ?thesis using e(4) by (simp add: base64_decode_def)
  next
    case False
    then have c: "4 * ((len + 2) div 3) \<noteq> 0" "4 * ((len + 2) div 3) div 4 * 3 = 3 * ((len + 2) div 3)" by auto
    have "mem_write buf (take len src @ pad) = Some ((take len src @ pad) @ drop (3 * ((len + 2) div 3)) buf)"
      using pad(2) assms(4) by (simp add: mem_write_def)
    moreover have "filter base64_valid enc \<noteq> []"
      using e(4) c(1) by (metis list.size(3))
    ultimately have "base64_decode ?out (length enc) buf (length buf) =
        Some (len, (take len src @ pad) @ drop (3 * ((len + 2) div 3)) buf)"
      using e(4) c pad(1) assms(4) by (simp add: base64_decode_def)
    moreover have "length ((take len src @ pad) @ drop (3 * ((len + 2) div 3)) buf) = length buf"
      using pad(2) assms(4) by simp
    ultimately show ?thesis using assms(1) by simp
  qed
  moreover have "holds_str ?out (take (length enc) ?out)"
    unfolding o(2) using e(3) by (rule holds_strI)
  ultimately show ?thesis
    using e(1,2) o(1) by blast
qed

theorem base64_roundtrip_witness:
  "\<exists>n out' buf'. base64_encode (ascii ''Hello!!'') 7 (replicate 40 9) (length (replicate 40 (9 :: byte))) True = Some (n, out') \<and>
    n < base64_olen 7 \<and> length out' = length (replicate 40 (9 :: byte)) \<and> holds_str out' (take n out') \<and>
    base64_decode out' n (replicate 9 8) (length (replicate 9 (8 :: byte))) = Some (7, buf') \<and>
    length buf' = length (replicate 9 (8 :: byte)) \<and> take 7 buf' = take 7 (ascii ''Hello!!'')"
  by (rule base64_roundtrip) (simp_all add: ascii_def base64_olen_small)

lemma base64_decode_loop_size:
  assumes "length block < 4" and "4 dvd length block + length (filter base64_valid cs)"
  shows "length (snd (base64_decode_loop cs pad block out)) \<le>
      length out + 3 * ((length block + length (filter base64_valid cs)) div 4) \<and>
    fst (base64_decode_loop cs pad block out) \<le> length (snd (base64_decode_loop cs pad block out))"
  using assms
proof (induction cs pad block out rule: base64_decode_loop.induct)
  case (2 c cs pad block out)
  let ?tmp = "base64_dtable c" and ?pad = "if c = 0x3D then pad + 1 else pad"
  show ?case
  proof (cases "?tmp = 0x80")
    case True
    then show ?thesis using 2 by simp
  next
    case valid: False
    show ?thesis
    proof (cases "length (block @ [?tmp]) = 4")
      case True
      then have l: "length block + length (filter base64_valid (c # cs)) = 4 + length (filter base64_valid cs)"
        using valid by simp
      have d: "4 dvd length (filter base64_valid cs)"
        using 2(5) unfolding l by simp
      have t: "length (base64_triple b) = 3" for b by (simp add: base64_triple_def)
      show ?thesis
      proof (cases "?pad > 0")
        case True
        have "1 \<le> (4 + length (filter base64_valid cs)) div 4" by simp
        with True show ?thesis
          using valid \<open>length (block @ [?tmp]) = 4\<close> t unfolding l by (simp add: Let_def)
      next
        case False
        with 2(2) [OF refl valid refl refl True refl] d valid True show ?thesis
          unfolding l using t by (auto simp: Let_def)
      qed
    next
      case False
      then have l: "length (block @ [?tmp]) < 4" using 2(4) by simp
      have m: "length block + length (filter base64_valid (c # cs)) =
          length (block @ [?tmp]) + length (filter base64_valid cs)" using valid by simp
      from 2(3) [OF refl valid refl refl False l] 2(5) valid False show ?thesis
        unfolding m by (simp add: Let_def)
    qed
  qed
qed simp

text \<open>The decoder is memory-safe on every input: whatever the text is (padding anywhere, characters that are not Base64), it never reads outside the text or writes outside an output block of the stated size, and it never claims to have decoded more than fits.\<close>

lemma base64_decode_safe:
  assumes "len \<le> length src"
  shows "\<exists>n out'. base64_decode src len out (length out) = Some (n, out') \<and> length out' = length out \<and>
    n \<le> length out"
proof -
  let ?xs = "take len src" and ?c = "length (filter base64_valid (take len src))"
  show ?thesis
  proof (cases "?c = 0 \<or> ?c mod 4 \<noteq> 0 \<or> ?c div 4 * 3 > length out")
    case True
    then show ?thesis using assms by (auto simp: base64_decode_def rd_bytes_def Let_def)
  next
    case False
    then have "length (snd (base64_decode_loop ?xs 0 [] [])) \<le> length out"
        "fst (base64_decode_loop ?xs 0 [] []) \<le> length (snd (base64_decode_loop ?xs 0 [] []))"
      using base64_decode_loop_size [of "[]" ?xs 0 "[]"] by auto
    then show ?thesis
      using assms False
      by (cases "base64_decode_loop ?xs 0 [] []") (simp add: base64_decode_def rd_bytes_def Let_def mem_write_def)
  qed
qed

end
