(* ===== verification/Sha1.thy ===== *)
theory Sha1
  imports Cmx_Prelude
begin

section \<open>SHA-1 (source/sha1.c)\<close>

text \<open>
  The implementation works in place: the 16 words of a block are overwritten by the message
  schedule, and the five working variables are renamed from one macro call to the next. The
  model keeps both, on a little-endian target. The specification beside it is the hash standard:
  an 80-word schedule, the round functions as written there, padding of the whole message.
\<close>

type_synonym u32 = "32 word"
type_synonym sha1_vars = "u32 \<times> u32 \<times> u32 \<times> u32 \<times> u32"

definition rol :: "u32 \<Rightarrow> nat \<Rightarrow> u32" where
  "rol val bits = push_bit bits val OR drop_bit (32 - bits) val"

definition le32 :: "byte \<Rightarrow> byte \<Rightarrow> byte \<Rightarrow> byte \<Rightarrow> u32" where
  "le32 a b c d = ucast a OR push_bit 8 (ucast b) OR push_bit 16 (ucast c) OR push_bit 24 (ucast d)"

definition be32 :: "byte \<Rightarrow> byte \<Rightarrow> byte \<Rightarrow> byte \<Rightarrow> u32" where
  "be32 a b c d = le32 d c b a"

definition be32_bytes :: "u32 \<Rightarrow> bytes" where
  "be32_bytes v = map (\<lambda>i. ucast (drop_bit ((3 - i) * 8) v AND 255)) [0, 1, 2, 3]"

subsection \<open>The transformation of a block\<close>

text \<open>\<open>memcpy\<close> of the 64 bytes into the union: its words, as a little-endian machine reads them.\<close>

definition sha1_load :: "bytes \<Rightarrow> u32 list option" where
  "sha1_load buffer = map_option
     (\<lambda>c. map (\<lambda>i. le32 (c ! (4 * i)) (c ! (4 * i + 1)) (c ! (4 * i + 2)) (c ! (4 * i + 3))) [0..<16])
     (rd_bytes buffer 64)"

definition blk0 :: "u32 list \<Rightarrow> nat \<Rightarrow> u32 \<times> u32 list" where
  "blk0 l i = (let v = (rol (l ! i) 24 AND 0xFF00FF00) OR (rol (l ! i) 8 AND 0x00FF00FF) in (v, l[i := v]))"

definition blk :: "u32 list \<Rightarrow> nat \<Rightarrow> u32 \<times> u32 list" where
  "blk l i = (let v = rol (l ! ((i + 13) mod 16) XOR l ! ((i + 8) mod 16) XOR l ! ((i + 2) mod 16) XOR l ! (i mod 16)) 1
     in (v, l[i mod 16 := v]))"

text \<open>
  The macros. The arguments of the next call are those of this one rotated by one place, so a
  macro returns the variables in the order in which the next call names them.
\<close>

definition sha1_macro :: "(u32 \<Rightarrow> u32 \<Rightarrow> u32 \<Rightarrow> u32) \<Rightarrow> (u32 list \<Rightarrow> nat \<Rightarrow> u32 \<times> u32 list) \<Rightarrow> u32 \<Rightarrow>
    nat \<Rightarrow> sha1_vars \<times> u32 list \<Rightarrow> sha1_vars \<times> u32 list" where
  "sha1_macro f expand k i = (\<lambda>((v, w, x, y, z), l).
     let (b, l) = expand l i;
         z = z + (f w x y + b + k + rol v 5);
         w = rol w 30
     in ((z, v, w, x, y), l))"

definition R0 where "R0 = sha1_macro (\<lambda>w x y. (w AND (x XOR y)) XOR y) blk0 0x5A827999"
definition R1 where "R1 = sha1_macro (\<lambda>w x y. (w AND (x XOR y)) XOR y) blk 0x5A827999"
definition R2 where "R2 = sha1_macro (\<lambda>w x y. w XOR x XOR y) blk 0x6ED9EBA1"
definition R3 where "R3 = sha1_macro (\<lambda>w x y. ((w OR x) AND y) OR (w AND x)) blk 0x8F1BBCDC"
definition R4 where "R4 = sha1_macro (\<lambda>w x y. w XOR x XOR y) blk 0xCA62C1D6"

definition sha1_round :: "nat \<Rightarrow> sha1_vars \<times> u32 list \<Rightarrow> sha1_vars \<times> u32 list" where
  "sha1_round i = (if i < 16 then R0 i else if i < 20 then R1 i else if i < 40 then R2 i
     else if i < 60 then R3 i else R4 i)"

definition SHA1Transform :: "sha1_vars \<Rightarrow> bytes \<Rightarrow> sha1_vars option" where
  "SHA1Transform state buffer = do {
     l \<leftarrow> sha1_load buffer;
     let ((a, b, c, d, e), l) = fold sha1_round [0..<80] (state, l);
     let (s0, s1, s2, s3, s4) = state;
     Some (s0 + a, s1 + b, s2 + c, s3 + d, s4 + e)
   }"

subsection \<open>The streaming interface\<close>

record SHA1_CTX =
  sx_state :: sha1_vars
  sx_count0 :: u32
  sx_count1 :: u32
  sx_buffer :: bytes

definition SHA1Init :: "SHA1_CTX \<Rightarrow> SHA1_CTX" where
  "SHA1Init context = context\<lparr>
     sx_state := (0x67452301, 0xEFCDAB89, 0x98BADCFE, 0x10325476, 0xC3D2E1F0), sx_count0 := 0, sx_count1 := 0\<rparr>"

text \<open>\<open>memcpy (&buffer[j], &data[i], n)\<close>; nothing is accessed when \<open>n = 0\<close>.\<close>

definition sha1_memcpy :: "bytes \<Rightarrow> nat \<Rightarrow> bytes \<Rightarrow> nat \<Rightarrow> nat \<Rightarrow> bytes option" where
  "sha1_memcpy buffer j data i n =
     (if n = 0 then Some buffer
      else if i + n \<le> length data \<and> j + n \<le> length buffer
      then Some (take j buffer @ take n (drop i data) @ drop (j + n) buffer)
      else None)"

text \<open>The loop over whole blocks in the data; \<open>i + 63 < len\<close> is 32-bit arithmetic.\<close>

partial_function (option) sha1_blocks_loop :: "sha1_vars \<Rightarrow> bytes \<Rightarrow> u32 \<Rightarrow> u32 \<Rightarrow> (sha1_vars \<times> u32) option" where
  "sha1_blocks_loop state data len i =
     (if i + 63 < len then do {
        state \<leftarrow> SHA1Transform state (drop (unat i) data);
        sha1_blocks_loop state data len (i + 64)
      } else Some (state, i))"

text \<open>The bit count, with the carry from its low to its high word.\<close>

definition sha1_add_count :: "SHA1_CTX \<Rightarrow> u32 \<Rightarrow> SHA1_CTX" where
  "sha1_add_count context len =
     (let j = sx_count0 context;
          context = context\<lparr>sx_count0 := sx_count0 context + push_bit 3 len\<rparr>;
          context = (if sx_count0 context < j then context\<lparr>sx_count1 := sx_count1 context + 1\<rparr> else context)
      in context\<lparr>sx_count1 := sx_count1 context + drop_bit 29 len\<rparr>)"

definition SHA1Update :: "SHA1_CTX \<Rightarrow> bytes \<Rightarrow> u32 \<Rightarrow> SHA1_CTX option" where
  "SHA1Update context data len = do {
     let j = sx_count0 context;
     let context = sha1_add_count context len;
     let j = drop_bit 3 j AND 63;
     (context, i, j) \<leftarrow>
       (if j + len > 63 then do {
          let i = 64 - j;
          buffer \<leftarrow> sha1_memcpy (sx_buffer context) (unat j) data 0 (unat i);
          state \<leftarrow> SHA1Transform (sx_state context) buffer;
          (state, i) \<leftarrow> sha1_blocks_loop state data len i;
          Some (context\<lparr>sx_buffer := buffer, sx_state := state\<rparr>, i, 0)
        } else Some (context, 0, j));
     buffer \<leftarrow> sha1_memcpy (sx_buffer context) (unat j) data (unat i) (unat (len - i));
     Some (context\<lparr>sx_buffer := buffer\<rparr>)
   }"

partial_function (option) sha1_pad_loop :: "SHA1_CTX \<Rightarrow> SHA1_CTX option" where
  "sha1_pad_loop context =
     (if sx_count0 context AND 504 \<noteq> 448
      then do { context \<leftarrow> SHA1Update context [0] 1; sha1_pad_loop context }
      else Some context)"

text \<open>The context is wiped at the end; the digest is the result.\<close>

definition SHA1Final :: "SHA1_CTX \<Rightarrow> bytes option" where
  "SHA1Final context = do {
     let finalcount = be32_bytes (sx_count1 context) @ be32_bytes (sx_count0 context);
     context \<leftarrow> SHA1Update context [0x80] 1;
     context \<leftarrow> sha1_pad_loop context;
     context \<leftarrow> SHA1Update context finalcount 8;
     let (s0, s1, s2, s3, s4) = sx_state context;
     Some (concat (map be32_bytes [s0, s1, s2, s3, s4]))
   }"

fun sha1_bytes_loop :: "nat \<Rightarrow> SHA1_CTX \<Rightarrow> bytes \<Rightarrow> SHA1_CTX option" where
  "sha1_bytes_loop 0 ctx str = Some ctx"
| "sha1_bytes_loop (Suc n) ctx str = do {
     ctx \<leftarrow> SHA1Update ctx str 1;
     m \<leftarrow> adv str 1;
     sha1_bytes_loop n ctx m
   }"

text \<open>The context is a local variable: what it holds at first is arbitrary, except its size.\<close>

definition SHA1 :: "SHA1_CTX \<Rightarrow> bytes \<Rightarrow> u32 \<Rightarrow> bytes option" where
  "SHA1 ctx str len = do {
     ctx \<leftarrow> sha1_bytes_loop (unat len) (SHA1Init ctx) str;
     SHA1Final ctx
   }"

subsection \<open>The standard\<close>

fun sha1_schedule :: "bytes \<Rightarrow> nat \<Rightarrow> u32 list" where
  "sha1_schedule c 0 = map (\<lambda>t. be32 (c ! (4 * t)) (c ! (4 * t + 1)) (c ! (4 * t + 2)) (c ! (4 * t + 3))) [0..<16]"
| "sha1_schedule c (Suc k) = (let W = sha1_schedule c k in
     W @ [rol (W ! (k + 13) XOR W ! (k + 8) XOR W ! (k + 2) XOR W ! k) 1])"

definition sha1_f :: "nat \<Rightarrow> u32 \<Rightarrow> u32 \<Rightarrow> u32 \<Rightarrow> u32" where
  "sha1_f t b c d = (if t < 20 then (b AND c) OR (NOT b AND d) else if t < 40 then b XOR c XOR d
     else if t < 60 then (b AND c) XOR (b AND d) XOR (c AND d) else b XOR c XOR d)"

definition sha1_K :: "nat \<Rightarrow> u32" where
  "sha1_K t = (if t < 20 then 0x5A827999 else if t < 40 then 0x6ED9EBA1 else if t < 60 then 0x8F1BBCDC else 0xCA62C1D6)"

fun sha1_rounds :: "u32 list \<Rightarrow> nat \<Rightarrow> sha1_vars \<Rightarrow> sha1_vars" where
  "sha1_rounds [] t s = s"
| "sha1_rounds (w # W) t (a, b, c, d, e) =
     sha1_rounds W (Suc t) (rol a 5 + sha1_f t b c d + e + sha1_K t + w, a, rol b 30, c, d)"

definition sha1_compress :: "sha1_vars \<Rightarrow> bytes \<Rightarrow> sha1_vars" where
  "sha1_compress s c =
     (let (a, b, c', d, e) = sha1_rounds (sha1_schedule c 64) 0 s; (s0, s1, s2, s3, s4) = s
      in (s0 + a, s1 + b, s2 + c', s3 + d, s4 + e))"

function sha1_blocks :: "sha1_vars \<Rightarrow> bytes \<Rightarrow> sha1_vars" where
  "sha1_blocks s m = (if length m < 64 then s else sha1_blocks (sha1_compress s (take 64 m)) (drop 64 m))"
  by pat_completeness auto
termination by (relation "measure (\<lambda>(s, m). length m)") auto

declare sha1_blocks.simps [simp del]

definition sha1_iv :: sha1_vars where
  "sha1_iv = (0x67452301, 0xEFCDAB89, 0x98BADCFE, 0x10325476, 0xC3D2E1F0)"

definition sha1_zeros :: "nat \<Rightarrow> nat" where
  "sha1_zeros n = (119 - n mod 64) mod 64"

definition sha1_pad :: "bytes \<Rightarrow> bytes" where
  "sha1_pad m = m @ 0x80 # replicate (sha1_zeros (length m)) 0 @
     be32_bytes (of_nat (8 * length m div 2 ^ 32)) @ be32_bytes (of_nat (8 * length m))"

definition sha1_digest :: "bytes \<Rightarrow> bytes" where
  "sha1_digest m = (let (s0, s1, s2, s3, s4) = sha1_blocks sha1_iv (sha1_pad m)
     in concat (map be32_bytes [s0, s1, s2, s3, s4]))"

subsection \<open>Rounds\<close>

lemma sha1_choose: "((w AND (x XOR y)) XOR y :: u32) = (w AND x) OR (NOT w AND y)"
  by (rule bit_word_eqI) (auto simp: bit_simps)

lemma sha1_majority: "(((w OR x) AND y) OR (w AND x) :: u32) = (w AND x) XOR (w AND y) XOR (x AND y)"
  by (rule bit_word_eqI) (auto simp: bit_simps)

lemma byte_high: "8 \<le> n \<Longrightarrow> bit (a :: byte) n = False"
  using bit_imp_le_length [of a n] by auto

lemmas sha1_macros = R0_def [unfolded sha1_choose] R1_def [unfolded sha1_choose] R2_def
  R3_def [unfolded sha1_majority] R4_def

lemma less_32_cases:
  "(n :: nat) < 32 \<Longrightarrow> n \<in> {0, 1, 2, 3, 4, 5, 6, 7, 8, 9, 10, 11, 12, 13, 14, 15,
     16, 17, 18, 19, 20, 21, 22, 23, 24, 25, 26, 27, 28, 29, 30, 31}"
  by (simp add: numeral_eq_Suc less_Suc_eq)

lemma sha1_swap: "(rol (le32 a b c d) 24 AND 0xFF00FF00) OR (rol (le32 a b c d) 8 AND 0x00FF00FF) = be32 a b c d"
proof (rule bit_word_eqI)
  fix n assume "n < LENGTH(32)"
  then have "n < 32" by simp
  from less_32_cases [OF this]
  show "bit ((rol (le32 a b c d) 24 AND 0xFF00FF00) OR (rol (le32 a b c d) 8 AND 0x00FF00FF)) n = bit (be32 a b c d) n"
    unfolding rol_def le32_def be32_def
    by (elim insertE emptyE; simp add: bit_simps byte_high)
qed

lemma length_sha1_schedule [simp]: "length (sha1_schedule c k) = 16 + k"
  by (induction k) (simp_all add: Let_def)

lemma sha1_schedule_nth_mono: "t < 16 + k \<Longrightarrow> sha1_schedule c (k + m) ! t = sha1_schedule c k ! t"
  by (induction m) (simp_all add: Let_def nth_append)

text \<open>The schedule as a sequence; a list of any length is its beginning.\<close>

definition sha1_w :: "bytes \<Rightarrow> nat \<Rightarrow> u32" where
  "sha1_w c t = sha1_schedule c t ! t"

lemma sha1_schedule_nth: "t < 16 + k \<Longrightarrow> sha1_schedule c k ! t = sha1_w c t"
  using sha1_schedule_nth_mono [of t k c "t - k"] sha1_schedule_nth_mono [of t t c "k - t"]
  by (cases "k \<le> t") (simp_all add: sha1_w_def)

lemma sha1_w_early:
  assumes "t < 16"
  shows "sha1_w c t = be32 (c ! (4 * t)) (c ! (4 * t + 1)) (c ! (4 * t + 2)) (c ! (4 * t + 3))"
  using sha1_schedule_nth [of t 0 c] assms by simp

lemma sha1_w_late:
  assumes "16 \<le> t"
  shows "sha1_w c t = rol (sha1_w c (t - 3) XOR sha1_w c (t - 8) XOR sha1_w c (t - 14) XOR sha1_w c (t - 16)) 1"
proof -
  obtain k where k: "t = 16 + k"
    using assms le_Suc_ex by blast
  have "sha1_w c t = sha1_schedule c (Suc k) ! t"
    using sha1_schedule_nth [of t "Suc k" c] k by simp
  also have "\<dots> = rol (sha1_schedule c k ! (k + 13) XOR sha1_schedule c k ! (k + 8) XOR
      sha1_schedule c k ! (k + 2) XOR sha1_schedule c k ! k) 1"
    using k by (simp add: Let_def nth_append)
  finally show ?thesis
    using k by (simp add: sha1_schedule_nth add.commute [of k])
qed

text \<open>What the block holds after \<open>i\<close> rounds: the last 16 words of the schedule, at their places.\<close>

definition sha1_block_at :: "bytes \<Rightarrow> nat \<Rightarrow> u32 list \<Rightarrow> bool" where
  "sha1_block_at c i l \<longleftrightarrow> length l = 16 \<and>
     (\<forall>k < 16. i \<le> k \<longrightarrow> l ! k = le32 (c ! (4 * k)) (c ! (4 * k + 1)) (c ! (4 * k + 2)) (c ! (4 * k + 3))) \<and>
     (\<forall>t < i. i \<le> t + 16 \<longrightarrow> l ! (t mod 16) = sha1_w c t)"

lemma sha1_block_expand:
  assumes b: "sha1_block_at c i l" and i: "i < 80"
  shows "\<exists>l'. (if i < 16 then blk0 l i else blk l i) = (sha1_w c i, l') \<and> sha1_block_at c (Suc i) l'"
proof (cases "i < 16")
  case True
  have "blk0 l i = (sha1_w c i, l[i := sha1_w c i])"
    using b True by (simp add: blk0_def Let_def sha1_block_at_def sha1_swap sha1_w_early)
  moreover have "sha1_block_at c (Suc i) (l[i := sha1_w c i])"
    using b True by (auto simp: sha1_block_at_def nth_list_update less_Suc_eq)
  ultimately show ?thesis using True by simp
next
  case False
  have old: "l ! ((i + (16 - d)) mod 16) = sha1_w c (i - d)" if "0 < d" "d \<le> 16" for d
  proof -
    have "i + (16 - d) = (i - d) + 16"
      using that False by linarith
    then have "(i + (16 - d)) mod 16 = (i - d) mod 16"
      by simp
    then show ?thesis
      using b that False by (simp add: sha1_block_at_def)
  qed
  have "blk l i = (sha1_w c i, l[i mod 16 := sha1_w c i])"
    using old [of 3] old [of 8] old [of 14] old [of 16] sha1_w_late [of i c] False
    by (simp add: blk_def Let_def)
  moreover have "sha1_block_at c (Suc i) (l[i mod 16 := sha1_w c i])"
  proof -
    have "t mod 16 \<noteq> i mod 16" if "t < i" "Suc i \<le> t + 16" for t
    proof
      assume "t mod 16 = i mod 16"
      then have "16 dvd i - t" using that by (metis less_imp_le_nat mod_eq_dvd_iff_nat)
      then have "16 \<le> i - t" using that by (intro dvd_imp_le) auto
      then show False using that by linarith
    qed
    note ne = this
    have len: "length l = 16" using b by (simp add: sha1_block_at_def)
    have "l[i mod 16 := sha1_w c i] ! (t mod 16) = sha1_w c t" if t: "t < Suc i" "Suc i \<le> t + 16" for t
    proof (cases "t = i")
      case True
      then show ?thesis using len by simp
    next
      case False
      with t have "t < i" by simp
      with ne [OF this t(2)] b t show ?thesis
        by (metis (no_types, lifting) Suc_leD nth_list_update_neq sha1_block_at_def)
    qed
    then show ?thesis
      using False len unfolding sha1_block_at_def by auto
  qed
  ultimately show ?thesis using False by simp
qed

lemma sha1_round_eq:
  assumes "sha1_block_at c i l" and "i < 80"
  shows "\<exists>l'. sha1_round i ((a, b, c', d, e), l) =
      ((rol a 5 + sha1_f i b c' d + e + sha1_K i + sha1_w c i, a, rol b 30, c', d), l') \<and> sha1_block_at c (Suc i) l'"
proof -
  obtain l' where l: "(if i < 16 then blk0 l i else blk l i) = (sha1_w c i, l')" "sha1_block_at c (Suc i) l'"
    using sha1_block_expand [OF assms] by blast
  then show ?thesis
    by (auto simp: sha1_round_def sha1_macros sha1_macro_def sha1_f_def sha1_K_def add_ac split: if_splits)
qed

lemma sha1_rounds_fold:
  assumes "sha1_block_at c i l" and "i + n \<le> 80"
  shows "\<exists>l'. fold sha1_round [i..<i + n] (s, l) = (sha1_rounds (map (sha1_w c) [i..<i + n]) i s, l')"
  using assms
proof (induction n arbitrary: i l s)
  case (Suc n)
  obtain a b c' d e where s: "s = (a, b, c', d, e)" by (cases s) auto
  have "i < 80" using Suc.prems by simp
  from sha1_round_eq [OF Suc.prems(1) this, of a b c' d e] obtain l' where
    l': "sha1_round i (s, l) = ((rol a 5 + sha1_f i b c' d + e + sha1_K i + sha1_w c i, a, rol b 30, c', d), l')"
      "sha1_block_at c (Suc i) l'" unfolding s by blast
  from Suc.IH [OF l'(2)] Suc.prems(2) show ?case
    by (simp add: upt_conv_Cons l'(1) [unfolded s] s del: upt_Suc)
qed simp

lemma SHA1Transform_eq:
  assumes "64 \<le> length buffer"
  shows "SHA1Transform s buffer = Some (sha1_compress s (take 64 buffer))"
proof -
  let ?c = "take 64 buffer"
  obtain l where l: "sha1_load buffer = Some l" "sha1_block_at ?c 0 l"
    using assms by (auto simp: sha1_load_def rd_bytes_def sha1_block_at_def)
  have "map (sha1_w ?c) [0..<0 + 80] = sha1_schedule ?c 64"
    by (rule nth_equalityI) (simp_all add: sha1_schedule_nth)
  with sha1_rounds_fold [OF l(2), of 80 s] obtain l' where
    "fold sha1_round [0..<80] (s, l) = (sha1_rounds (sha1_schedule ?c 64) 0 s, l')" by auto
  then show ?thesis
    by (simp add: SHA1Transform_def l(1) sha1_compress_def Let_def split: prod.splits)
qed
subsection \<open>The streaming interface computes the blocks of what it was given\<close>

lemma sha1_blocks_short: "length m < 64 \<Longrightarrow> sha1_blocks s m = s"
  by (subst sha1_blocks.simps) simp

lemma sha1_blocks_append: "64 dvd length a \<Longrightarrow> sha1_blocks s (a @ b) = sha1_blocks (sha1_blocks s a) b"
proof (induction s a rule: sha1_blocks.induct)
  case (1 s m)
  show ?case
  proof (cases "length m < 64")
    case True
    with "1.prems" have "m = []" by (auto elim: dvdE)
    then show ?thesis by (simp add: sha1_blocks_short)
  next
    case False
    then have "64 dvd length (drop 64 m)"
      using "1.prems" by (simp add: dvd_diff_nat)
    from "1.IH" [OF False this] False show ?thesis
      by (subst (1 2) sha1_blocks.simps) (simp add: sha1_blocks.simps [of s m])
  qed
qed

lemma sha1_blocks_one: "length c = 64 \<Longrightarrow> sha1_blocks s c = sha1_compress s c"
  by (subst sha1_blocks.simps) (simp add: sha1_blocks_short)

lemma sha1_blocks_loop_eq:
  assumes "unat i \<le> unat len" and "unat len + 64 \<le> 2 ^ 32" and "unat len \<le> length data"
  shows "\<exists>i'. sha1_blocks_loop s data len i = Some (sha1_blocks s (drop (unat i) (take (unat len) data)), i') \<and>
    unat i' = unat i + 64 * ((unat len - unat i) div 64)"
  using assms
proof (induction "unat len - unat i" arbitrary: i s rule: less_induct)
  case less
  have i63: "unat (i + 63) = unat i + 63"
    using less.prems by (subst unat_add_lem [THEN iffD1]) auto
  then have c: "i + 63 < len \<longleftrightarrow> unat i + 63 < unat len"
    by (simp add: word_less_nat_alt)
  let ?d = "drop (unat i) (take (unat len) data)"
  have ld: "length ?d = unat len - unat i"
    using less.prems by simp
  show ?case
  proof (cases "unat i + 63 < unat len")
    case False
    then have "(unat len - unat i) div 64 = 0" "length ?d < 64"
      using ld by auto
    then show ?thesis
      using False c by (subst sha1_blocks_loop.simps) (simp add: sha1_blocks_short)
  next
    case True
    have i64: "unat (i + 64) = unat i + 64"
      using less.prems True by (subst unat_add_lem [THEN iffD1]) auto
    have tr: "SHA1Transform s (drop (unat i) data) = Some (sha1_compress s (take 64 ?d))"
    proof -
      have "take 64 (drop (unat i) data) = take 64 ?d"
        using True by (simp add: take_drop min_def add.commute)
      then show ?thesis
        using True less.prems by (subst SHA1Transform_eq) auto
    qed
    have sub: "unat len - unat (i + 64) < unat len - unat i" "unat (i + 64) \<le> unat len"
      using True i64 by auto
    from less.hyps [OF sub(1) sub(2) less.prems(2,3), of "sha1_compress s (take 64 ?d)"] obtain i' where
      i': "sha1_blocks_loop (sha1_compress s (take 64 ?d)) data len (i + 64) =
          Some (sha1_blocks (sha1_compress s (take 64 ?d)) (drop (unat (i + 64)) (take (unat len) data)), i')"
        "unat i' = unat (i + 64) + 64 * ((unat len - unat (i + 64)) div 64)" by blast
    have "drop (unat (i + 64)) (take (unat len) data) = drop 64 ?d"
      by (simp add: i64 add.commute)
    moreover have "\<not> length ?d < 64"
      using True ld by simp
    ultimately have "sha1_blocks (sha1_compress s (take 64 ?d)) (drop (unat (i + 64)) (take (unat len) data)) = sha1_blocks s ?d"
      by (subst (2) sha1_blocks.simps) simp
    moreover have "(unat len - unat i) div 64 = Suc ((unat len - unat (i + 64)) div 64)"
    proof -
      have "unat len - unat i = (unat len - unat (i + 64)) + 64" using True i64 by simp
      then show ?thesis by simp
    qed
    ultimately show ?thesis
      using True c tr i' i64 by (subst sha1_blocks_loop.simps) simp
  qed
qed

definition sha1_inv :: "SHA1_CTX \<Rightarrow> bytes \<Rightarrow> bool" where
  "sha1_inv ctx m \<longleftrightarrow> sx_state ctx = sha1_blocks sha1_iv m \<and>
     sx_count0 ctx = of_nat (8 * length m) \<and> sx_count1 ctx = of_nat (8 * length m div 2 ^ 32) \<and>
     length (sx_buffer ctx) = 64 \<and>
     take (length m mod 64) (sx_buffer ctx) = drop (length m - length m mod 64) m"

lemma sha1_position: "unat (drop_bit 3 (of_nat (8 * n) :: u32) AND 63) = n mod 64"
proof -
  have m: "(63 :: u32) = mask 6" by (simp add: mask_eq_exp_minus_1)
  have "unat (drop_bit 3 (of_nat (8 * n) :: u32) AND 63) = take_bit 6 (drop_bit 3 (unat (of_nat (8 * n) :: u32)))"
    unfolding m take_bit_eq_mask [symmetric]
    by (simp only: unsigned_take_bit_eq unat_drop_bit_eq)
  also have "\<dots> = (8 * n mod 2 ^ 32) div 2 ^ 3 mod 2 ^ 6"
    by (simp only: take_bit_eq_mod drop_bit_eq_div unat_of_nat) simp
  also have "\<dots> = n mod 64"
    by (simp add: mod_mult_mult1 [of 8 n "2 ^ 29", simplified] mod_mod_cancel)
  finally show ?thesis .
qed

lemma carry_div:
  fixes a b n :: nat
  assumes "0 < n"
  shows "(a + b) div n = a div n + b div n + (if (a + b) mod n < a mod n then 1 else 0)"
proof (cases "a mod n + b mod n < n")
  case True
  then show ?thesis
    by (simp add: div_add1_eq [of a b n] mod_add_eq [of a n b, symmetric])
next
  case False
  have lt: "a mod n < n" "b mod n < n" using assms by simp_all
  with False have d: "(a mod n + b mod n) div n = 1"
    by (intro div_nat_eqI) (use add_strict_mono [OF lt] in auto)
  have "(a + b) mod n = a mod n + b mod n - n"
  proof -
    have "(a + b) mod n = (a mod n + b mod n - n) mod n"
      using False by (simp add: mod_add_eq [of a n b, symmetric] le_mod_geq)
    then show ?thesis using lt by (simp add: mod_less)
  qed
  moreover have "a mod n + b mod n - n < a mod n"
    using lt False by linarith
  ultimately show ?thesis using False lt d
    by (simp add: div_add1_eq [of a b n])
qed

lemma sha1_count:
  fixes len :: u32
  shows "of_nat (8 * n) + push_bit 3 len = (of_nat (8 * (n + unat len)) :: u32)"
    and "(if (of_nat (8 * (n + unat len)) :: u32) < of_nat (8 * n) then of_nat (8 * n div 2 ^ 32) + 1 else of_nat (8 * n div 2 ^ 32)) +
      drop_bit 29 len = (of_nat (8 * (n + unat len) div 2 ^ 32) :: u32)"
proof -
  have "push_bit 3 len = of_nat (8 * unat len)"
    by (simp add: push_bit_eq_mult)
  then show "of_nat (8 * n) + push_bit 3 len = (of_nat (8 * (n + unat len)) :: u32)"
    by (simp add: ring_distribs)
  have "unat (drop_bit 29 len) = unat len div 2 ^ 29"
    using unat_drop_bit_eq [of 29 len] by (simp only: drop_bit_eq_div)
  moreover have "8 * unat len div 2 ^ 32 = unat len div 2 ^ 29"
    using div_mult_mult1 [of 8 "unat len" "2 ^ 29"] by simp
  moreover have "of_nat (unat (drop_bit 29 len)) = drop_bit 29 len"
    by (simp only: of_nat_unat ucast_id)
  ultimately have d: "drop_bit 29 len = of_nat (8 * unat len div 2 ^ 32)"
    by simp
  have c: "(of_nat (8 * (n + unat len)) :: u32) < of_nat (8 * n) \<longleftrightarrow>
      (8 * n + 8 * unat len) mod 2 ^ 32 < 8 * n mod 2 ^ 32"
    by (simp only: word_less_nat_alt unat_of_nat distrib_left) simp
  have "8 * (n + unat len) div 2 ^ 32 = 8 * n div 2 ^ 32 + 8 * unat len div 2 ^ 32 +
      (if (8 * n + 8 * unat len) mod 2 ^ 32 < 8 * n mod 2 ^ 32 then 1 else 0)"
    using carry_div [of "2 ^ 32" "8 * n" "8 * unat len"] by (simp add: distrib_left)
  then show "(if (of_nat (8 * (n + unat len)) :: u32) < of_nat (8 * n) then of_nat (8 * n div 2 ^ 32) + 1 else of_nat (8 * n div 2 ^ 32)) +
      drop_bit 29 len = (of_nat (8 * (n + unat len) div 2 ^ 32) :: u32)"
    unfolding c d by (simp only: of_nat_add) simp
qed

lemma sha1_memcpy_eq:
  "i + n \<le> length data \<Longrightarrow> j + n \<le> length buffer \<Longrightarrow>
   sha1_memcpy buffer j data i n = Some (take j buffer @ take n (drop i data) @ drop (j + n) buffer)"
  by (simp add: sha1_memcpy_def)

lemma sha1_add_count_fields:
  "sx_count0 (sha1_add_count ctx len) = sx_count0 ctx + push_bit 3 len"
  "sx_count1 (sha1_add_count ctx len) =
     (if sx_count0 ctx + push_bit 3 len < sx_count0 ctx then sx_count1 ctx + 1 else sx_count1 ctx) + drop_bit 29 len"
  "sx_buffer (sha1_add_count ctx len) = sx_buffer ctx" "sx_state (sha1_add_count ctx len) = sx_state ctx"
  by (simp_all add: sha1_add_count_def Let_def)

lemma mod_dvd_shift: "64 dvd a \<Longrightarrow> (a + b) mod 64 = b mod (64 :: nat)"
  by (auto elim!: dvdE)

text \<open>The same invariant with the data cut at its last whole block: \<open>B\<close> waits in the buffer.\<close>

definition sha1_cut :: "SHA1_CTX \<Rightarrow> bytes \<Rightarrow> bytes \<Rightarrow> bool" where
  "sha1_cut ctx A B \<longleftrightarrow> 64 dvd length A \<and> length B < 64 \<and> sx_state ctx = sha1_blocks sha1_iv A \<and>
     sx_count0 ctx = of_nat (8 * length (A @ B)) \<and> sx_count1 ctx = of_nat (8 * length (A @ B) div 2 ^ 32) \<and>
     length (sx_buffer ctx) = 64 \<and> take (length B) (sx_buffer ctx) = B"

lemma sha1_cut_mod: "sha1_cut ctx A B \<Longrightarrow> length (A @ B) mod 64 = length B"
  by (simp add: sha1_cut_def mod_dvd_shift)

lemma sha1_cut_inv:
  assumes "sha1_cut ctx A B"
  shows "sha1_inv ctx (A @ B)"
proof -
  have "sha1_blocks sha1_iv (A @ B) = sha1_blocks sha1_iv A"
    using assms by (simp add: sha1_cut_def sha1_blocks_append sha1_blocks_short)
  then show ?thesis
    using assms unfolding sha1_inv_def sha1_cut_mod [OF assms] by (simp add: sha1_cut_def)
qed

lemma sha1_inv_cut:
  assumes "sha1_inv ctx m"
  shows "\<exists>A B. m = A @ B \<and> sha1_cut ctx A B"
proof -
  let ?r = "length m mod 64"
  let ?A = "take (length m - ?r) m" and ?B = "drop (length m - ?r) m"
  have A: "64 dvd length ?A" by (simp add: minus_mod_eq_mult_div)
  have B: "length ?B = ?r" using diff_diff_cancel [OF mod_less_eq_dividend, of "length m" 64] by (simp only: length_drop)
  then have "sha1_blocks sha1_iv (?A @ ?B) = sha1_blocks sha1_iv ?A"
    by (subst sha1_blocks_append [OF A], intro sha1_blocks_short) simp
  then have "sha1_cut ctx ?A ?B"
    using assms A B by (simp only: sha1_cut_def sha1_inv_def append_take_drop_id) simp
  then show ?thesis by (intro exI [of _ ?A] exI [of _ ?B]) simp
qed

lemma sha1_cut_count:
  assumes "sha1_cut ctx A B" "unat len \<le> length data"
  shows "sx_count0 (sha1_add_count ctx len) = of_nat (8 * length (A @ B @ take (unat len) data))"
    and "sx_count1 (sha1_add_count ctx len) = of_nat (8 * length (A @ B @ take (unat len) data) div 2 ^ 32)"
proof -
  have l: "length (A @ B @ take (unat len) data) = length (A @ B) + unat len" using assms(2) by simp
  have c: "sx_count0 ctx = of_nat (8 * length (A @ B))" "sx_count1 ctx = of_nat (8 * length (A @ B) div 2 ^ 32)"
    using assms(1) by (simp_all add: sha1_cut_def)
  show "sx_count0 (sha1_add_count ctx len) = of_nat (8 * length (A @ B @ take (unat len) data))"
    "sx_count1 (sha1_add_count ctx len) = of_nat (8 * length (A @ B @ take (unat len) data) div 2 ^ 32)"
    unfolding l sha1_add_count_fields c sha1_count(1) by (rule refl sha1_count(2))+
qed

lemma sha1_cut_position:
  assumes "sha1_cut ctx A B"
  shows "unat (drop_bit 3 (sx_count0 ctx) AND 63) = length B"
  using assms sha1_position [of "length (A @ B)"] sha1_cut_mod [OF assms] by (simp only: sha1_cut_def)

lemma sha1_cut_crosses:
  assumes "sha1_cut ctx A B" "unat len + 128 \<le> 2 ^ 32"
  shows "(drop_bit 3 (sx_count0 ctx) AND 63) + len > 63 \<longleftrightarrow> length B + unat len > 63"
proof -
  have "unat ((drop_bit 3 (sx_count0 ctx) AND 63) + len) = length B + unat len"
    using sha1_cut_position [OF assms(1)] assms by (subst unat_add_lem [THEN iffD1]) (auto simp: sha1_cut_def)
  then show ?thesis by (simp add: word_less_nat_alt)
qed

lemma sha1_blocks_whole: "sha1_blocks s (take (64 * (length xs div 64)) xs) = sha1_blocks s xs"
proof -
  let ?q = "64 * (length xs div 64)"
  have "length (drop ?q xs) < 64" by (simp add: minus_mult_div_eq_mod)
  moreover have "64 dvd length (take ?q xs)" by simp
  ultimately have "sha1_blocks s (take ?q xs @ drop ?q xs) = sha1_blocks s (take ?q xs)"
    by (simp only: sha1_blocks_append sha1_blocks_short)
  then show ?thesis by simp
qed

text \<open>One call hashes the data it is given, however it was cut: the call does not fill the buffer, or it does.\<close>

lemma sha1_update_short:
  assumes c: "sha1_cut ctx A B" and len: "unat len + 128 \<le> 2 ^ 32" "unat len \<le> length data" "length B + unat len \<le> 63"
  shows "\<exists>ctx'. SHA1Update ctx data len = Some ctx' \<and> sha1_cut ctx' A (B @ take (unat len) data)"
proof -
  let ?n = "unat len" and ?buf = "sx_buffer ctx"
  define ctx1 where "ctx1 = sha1_add_count ctx len"
  let ?ctx' = "ctx1\<lparr>sx_buffer := B @ take ?n data @ drop (length B + ?n) ?buf\<rparr>"
  have "\<not> (drop_bit 3 (sx_count0 ctx) AND 63) + len > 63" using sha1_cut_crosses [OF c len(1)] len(3) by simp
  then have "SHA1Update ctx data len = Some ?ctx'"
    using c len(2,3) sha1_cut_position [OF c]
    by (simp add: SHA1Update_def Let_def ctx1_def sha1_cut_def sha1_memcpy_eq sha1_add_count_fields del: unsigned_and_eq)
  moreover have "sha1_cut ?ctx' A (B @ take ?n data)"
    using c len sha1_cut_count [OF c len(2)] by (simp add: sha1_cut_def ctx1_def sha1_add_count_fields)
  ultimately show ?thesis by blast
qed

lemma sha1_fill_buffer:
  assumes c: "sha1_cut ctx A B" and len: "64 - length B \<le> length data"
  shows "sha1_memcpy (sx_buffer ctx) (length B) data 0 (64 - length B) = Some (B @ take (64 - length B) data)"
    and "length (B @ take (64 - length B) data) = 64"
    and "SHA1Transform (sx_state ctx) (B @ take (64 - length B) data) = Some (sha1_blocks sha1_iv (A @ B @ take (64 - length B) data))"
proof -
  show l: "length (B @ take (64 - length B) data) = 64" using c len by (simp add: sha1_cut_def)
  show "sha1_memcpy (sx_buffer ctx) (length B) data 0 (64 - length B) = Some (B @ take (64 - length B) data)"
    using c len by (simp add: sha1_cut_def sha1_memcpy_eq)
  show "SHA1Transform (sx_state ctx) (B @ take (64 - length B) data) = Some (sha1_blocks sha1_iv (A @ B @ take (64 - length B) data))"
    using c l by (subst SHA1Transform_eq) (simp_all add: sha1_cut_def sha1_blocks_append sha1_blocks_one)
qed

lemma sha1_update_long:
  assumes c: "sha1_cut ctx A B" and len: "unat len + 128 \<le> 2 ^ 32" "unat len \<le> length data" "length B + unat len > 63"
  shows "\<exists>ctx' A' B'. SHA1Update ctx data len = Some ctx' \<and> sha1_cut ctx' A' B' \<and> A' @ B' = A @ B @ take (unat len) data"
proof -
  let ?n = "unat len" and ?j = "drop_bit 3 (sx_count0 ctx) AND 63" and ?k = "64 - length B"
  let ?d = "take ?n data"
  define ctx1 where "ctx1 = sha1_add_count ctx len"
  define buf where "buf = B @ take ?k data"
  define q where "q = 64 * ((?n - ?k) div 64)"
  define t where "t = ?n - (?k + q)"
  have B: "length B < 64" "64 dvd length A" using c by (simp_all add: sha1_cut_def)
  have j: "unat ?j = length B" by (rule sha1_cut_position [OF c])
  have k: "unat (64 - ?j) = ?k" using j B(1) by (subst unat_sub) (auto simp: word_le_nat_alt)
  have kn: "?k \<le> ?n" using len(3) B(1) by simp
  note fill = sha1_fill_buffer [OF c order.trans [OF kn len(2)], folded buf_def]
  obtain i where i: "sha1_blocks_loop (sha1_blocks sha1_iv (A @ buf)) data len (64 - ?j) =
      Some (sha1_blocks (sha1_blocks sha1_iv (A @ buf)) (drop ?k ?d), i)" "unat i = ?k + q"
    using sha1_blocks_loop_eq [of "64 - ?j" len data "sha1_blocks sha1_iv (A @ buf)"] kn len(1,2) unfolding k q_def by auto
  have t: "?k + q + t = ?n" "t < 64" "unat (len - i) = t"
  proof -
    show n: "?k + q + t = ?n" using kn times_div_less_eq_dividend [of 64 "?n - ?k"] by (simp add: t_def q_def)
    have "t = (?n - ?k) mod 64" by (simp add: t_def q_def minus_mult_div_eq_mod [symmetric])
    then show "t < 64" by simp
    show "unat (len - i) = t" using i(2) n by (subst unat_sub) (auto simp: word_le_nat_alt t_def)
  qed
  let ?A = "A @ buf @ take q (drop ?k ?d)" and ?B = "take t (drop (?k + q) data)"
  let ?ctx' = "ctx1\<lparr>sx_state := sha1_blocks (sha1_blocks sha1_iv (A @ buf)) (drop ?k ?d), sx_buffer := ?B @ drop t buf\<rparr>"
  have tail: "sha1_memcpy buf 0 data (unat i) (unat (len - i)) = Some (?B @ drop t buf)"
    unfolding t(3) i(2) using t(1,2) len(2) fill(2) by (simp add: sha1_memcpy_eq)
  have "?j + len > 63" using sha1_cut_crosses [OF c len(1)] len(3) by simp
  then have "SHA1Update ctx data len = Some ?ctx'"
    using fill(1,3) i(1) tail unfolding SHA1Update_def Let_def sha1_add_count_fields buf_def [symmetric]
    by (simp add: k j ctx1_def buf_def del: unsigned_and_eq)
  moreover have "?A @ ?B = A @ B @ ?d"
  proof -
    have b: "?B = drop q (drop ?k ?d)" using t(1) by (simp add: take_drop add.commute)
    have "buf @ drop ?k ?d = B @ ?d"
      using kn append_take_drop_id [of ?k ?d] by (simp add: buf_def min_def del: append_take_drop_id)
    then show ?thesis unfolding b by (simp only: append_assoc append_take_drop_id)
  qed
  moreover have "sha1_cut ?ctx' ?A ?B"
  proof -
    have "length (drop ?k ?d) = ?n - ?k" using len(2) by simp
    then have s: "sha1_blocks (sha1_blocks sha1_iv (A @ buf)) (drop ?k ?d) = sha1_blocks sha1_iv ?A"
      using B(2) fill(2) sha1_blocks_whole [of _ "drop ?k ?d"] unfolding q_def by (simp add: sha1_blocks_append)
    have "sx_count0 ?ctx' = of_nat (8 * length (?A @ ?B))" "sx_count1 ?ctx' = of_nat (8 * length (?A @ ?B) div 2 ^ 32)"
      unfolding \<open>?A @ ?B = A @ B @ ?d\<close> using sha1_cut_count [OF c len(2)] by (simp_all add: ctx1_def)
    moreover have "64 dvd length ?A" using B(2) fill(2) t(1) len(2) by (simp add: q_def)
    moreover have l: "length ?B = t" using t(1) len(2) by simp
    moreover have "length (?B @ drop t buf) = 64" unfolding length_append l using t(2) fill(2) by (simp add: buf_def)
    ultimately show ?thesis using s t(2) unfolding sha1_cut_def by (simp del: length_append length_take drop_append)
  qed
  ultimately show ?thesis by blast
qed

lemma sha1_update_inv:
  assumes inv: "sha1_inv ctx m" and len: "unat len + 128 \<le> 2 ^ 32" "unat len \<le> length data"
  shows "\<exists>ctx'. SHA1Update ctx data len = Some ctx' \<and> sha1_inv ctx' (m @ take (unat len) data)"
proof -
  obtain A B where m: "m = A @ B" "sha1_cut ctx A B" using sha1_inv_cut [OF inv] by blast
  show ?thesis
  proof (cases "length B + unat len > 63")
    case True
    then obtain ctx' A' B' where "SHA1Update ctx data len = Some ctx'" "sha1_cut ctx' A' B'" "A' @ B' = m @ take (unat len) data"
      using sha1_update_long [OF m(2) len] m(1) by auto
    then show ?thesis using sha1_cut_inv by metis
  next
    case False
    then show ?thesis using sha1_update_short [OF m(2) len] sha1_cut_inv m(1) by fastforce
  qed
qed

lemma sha1_init_inv: "length (sx_buffer ctx) = 64 \<Longrightarrow> sha1_inv (SHA1Init ctx) []"
  by (simp add: sha1_inv_def SHA1Init_def sha1_blocks_short sha1_iv_def)

lemma sha1_byte_inv:
  assumes "sha1_inv ctx m"
  shows "\<exists>ctx'. SHA1Update ctx (c # str) 1 = Some ctx' \<and> sha1_inv ctx' (m @ [c])"
  using sha1_update_inv [OF assms, of 1 "c # str"] by simp

lemma sha1_bytes_loop_inv:
  assumes "sha1_inv ctx m" and "n \<le> length str"
  shows "\<exists>ctx'. sha1_bytes_loop n ctx str = Some ctx' \<and> sha1_inv ctx' (m @ take n str)"
  using assms
proof (induction n arbitrary: ctx m str)
  case (Suc n)
  then obtain c cs where str: "str = c # cs" "n \<le> length cs" by (cases str) auto
  obtain ctx1 where u: "SHA1Update ctx str 1 = Some ctx1" "sha1_inv ctx1 (m @ [c])"
    using sha1_byte_inv [OF Suc.prems(1)] str(1) by blast
  from Suc.IH [OF u(2) str(2)] show ?case
    using u(1) unfolding str(1) by (auto simp: adv_def)
qed auto

lemma shifted_mask:
  fixes x :: u32
  shows "x AND push_bit 3 (mask 6) = push_bit 3 (drop_bit 3 x AND mask 6)"
    and "drop_bit 3 (x AND push_bit 3 (mask 6)) = drop_bit 3 x AND mask 6"
  by (rule bit_word_eqI; auto simp: bit_simps simp del: push_bit_mask_eq)+

lemma sha1_pad_test: "(of_nat (8 * n) :: u32) AND 504 = 448 \<longleftrightarrow> n mod 64 = 56"
proof -
  let ?x = "of_nat (8 * n) :: u32"
  have m: "(63 :: u32) = mask 6" "(504 :: u32) = push_bit 3 (mask 6)" "(448 :: u32) = push_bit 3 56"
    by (simp_all add: mask_eq_exp_minus_1)
  have e: "?x AND 504 = push_bit 3 (drop_bit 3 ?x AND 63)" "drop_bit 3 (?x AND 504) = drop_bit 3 ?x AND 63"
    unfolding m by (rule shifted_mask)+
  have "drop_bit 3 (448 :: u32) = 56" by simp
  then have "?x AND 504 = 448 \<longleftrightarrow> drop_bit 3 ?x AND 63 = 56"
    using e m(3) by metis
  also have "\<dots> \<longleftrightarrow> unat (drop_bit 3 ?x AND 63) = 56"
    by (simp only: word_unat_eq_iff) simp
  finally show ?thesis by (simp only: sha1_position)
qed

lemma zeros_cases: "r < 64 \<Longrightarrow> (120 - r) mod 64 = (if r \<le> 56 then 56 - r else 120 - r)" for r :: nat
  by (auto simp: le_mod_geq)

lemma zeros_step: "(120 - n mod 64) mod 64 = (if n mod 64 = 56 then 0 else Suc ((120 - Suc n mod 64) mod 64))" for n :: nat
proof -
  have "n mod 64 < 64" "Suc n mod 64 < 64" by simp_all
  then show ?thesis
    unfolding zeros_cases [OF \<open>n mod 64 < 64\<close>] zeros_cases [OF \<open>Suc n mod 64 < 64\<close>]
    by (auto simp: mod_Suc)
qed

lemma sha1_zeros_Suc: "sha1_zeros n = (120 - Suc n mod 64) mod 64"
proof -
  have "n mod 64 < 64" by simp
  then show ?thesis
    unfolding sha1_zeros_def by (cases "n mod 64 = 63") (auto simp: mod_Suc)
qed

lemma sha1_pad_loop_inv:
  assumes "sha1_inv ctx m" and "k = (120 - length m mod 64) mod 64"
  shows "\<exists>ctx'. sha1_pad_loop ctx = Some ctx' \<and> sha1_inv ctx' (m @ replicate k 0)"
  using assms
proof (induction k arbitrary: ctx m)
  case 0
  then have "length m mod 64 = 56" using zeros_step [of "length m"] by (simp split: if_splits)
  then have "sx_count0 ctx AND 504 = 448"
    using sha1_pad_test [of "length m"] 0(1) by (simp only: sha1_inv_def)
  then show ?case
    using 0(1) by (subst sha1_pad_loop.simps) simp
next
  case (Suc k)
  then have "length m mod 64 \<noteq> 56" using zeros_step [of "length m"] by (simp split: if_splits)
  then have c: "sx_count0 ctx AND 504 \<noteq> 448"
    using sha1_pad_test [of "length m"] Suc.prems(1) by (simp only: sha1_inv_def) blast
  obtain ctx1 where u: "SHA1Update ctx [0] 1 = Some ctx1" "sha1_inv ctx1 (m @ [0])"
    using sha1_byte_inv [OF Suc.prems(1)] by blast
  have "k = (120 - length (m @ [0 :: byte]) mod 64) mod 64"
    using Suc.prems(2) zeros_step [of "length m"] by (simp split: if_splits)
  from Suc.IH [OF u(2) this] show ?case
    using c u(1) by (subst sha1_pad_loop.simps) simp
qed

lemma length_be32_bytes [simp]: "length (be32_bytes v) = 4"
  by (simp add: be32_bytes_def)

lemma sha1_final_eq:
  assumes "sha1_inv ctx m"
  shows "SHA1Final ctx = Some (sha1_digest m)"
proof -
  obtain ctx1 where u1: "SHA1Update ctx [0x80] 1 = Some ctx1" "sha1_inv ctx1 (m @ [0x80])"
    using sha1_byte_inv [OF assms] by blast
  have z: "sha1_zeros (length m) = (120 - length (m @ [0x80 :: byte]) mod 64) mod 64"
    by (simp add: sha1_zeros_Suc)
  obtain ctx2 where u2: "sha1_pad_loop ctx1 = Some ctx2" "sha1_inv ctx2 ((m @ [0x80]) @ replicate (sha1_zeros (length m)) 0)"
    using sha1_pad_loop_inv [OF u1(2) z] by blast
  let ?f = "be32_bytes (sx_count1 ctx) @ be32_bytes (sx_count0 ctx)"
  have f: "?f = be32_bytes (of_nat (8 * length m div 2 ^ 32)) @ be32_bytes (of_nat (8 * length m))"
    using assms by (simp only: sha1_inv_def)
  obtain ctx3 where u3: "SHA1Update ctx2 ?f 8 = Some ctx3" "sha1_inv ctx3 (sha1_pad m)"
    using sha1_update_inv [OF u2(2), of 8 ?f] by (auto simp: sha1_pad_def f)
  have "sx_state ctx3 = sha1_blocks sha1_iv (sha1_pad m)"
    using u3(2) by (simp add: sha1_inv_def)
  then show ?thesis
    by (simp add: SHA1Final_def Let_def u1(1) u2(1) u3(1) sha1_digest_def split: prod.splits)
qed

lemma SHA1_eq:
  assumes "length (sx_buffer ctx) = 64" and "unat len \<le> length str"
  shows "SHA1 ctx str len = Some (sha1_digest (take (unat len) str))"
proof -
  obtain ctx' where "sha1_bytes_loop (unat len) (SHA1Init ctx) str = Some ctx'" "sha1_inv ctx' (take (unat len) str)"
    using sha1_bytes_loop_inv [OF sha1_init_inv [OF assms(1)] assms(2)] by auto
  then show ?thesis
    by (simp add: SHA1_def sha1_final_eq)
qed

fun sha1_updates :: "SHA1_CTX \<Rightarrow> bytes list \<Rightarrow> SHA1_CTX option" where
  "sha1_updates ctx [] = Some ctx"
| "sha1_updates ctx (c # cs) = do { ctx \<leftarrow> SHA1Update ctx c (of_nat (length c)); sha1_updates ctx cs }"

lemma sha1_updates_inv:
  assumes "sha1_inv ctx m" and "\<forall>c \<in> set cs. length c + 128 \<le> 2 ^ 32"
  shows "\<exists>ctx'. sha1_updates ctx cs = Some ctx' \<and> sha1_inv ctx' (m @ concat cs)"
  using assms
proof (induction cs arbitrary: ctx m)
  case (Cons c cs)
  have l: "unat (of_nat (length c) :: u32) = length c"
    using Cons.prems(2) by (simp add: unat_of_nat)
  obtain ctx1 where u: "SHA1Update ctx c (of_nat (length c)) = Some ctx1" "sha1_inv ctx1 (m @ c)"
    using sha1_update_inv [OF Cons.prems(1), of "of_nat (length c)" c] Cons.prems(2) l by auto
  from Cons.IH [OF u(2)] Cons.prems(2) show ?case by (simp add: u(1))
qed auto

text \<open>C35. The hash is SHA-1 however the input is cut: feeding the data to SHA1Update in any pieces (empty ones, pieces that straddle blocks, pieces of many blocks) and calling SHA1Final gives the digest the standard defines for the concatenation, computed there with an 80-word schedule and textbook round functions instead of the 16-word block that is overwritten and the unrolled macros.\<close>

theorem sha1_streaming:
  assumes "length (sx_buffer ctx) = 64" and "\<forall>c \<in> set pieces. length c + 128 \<le> 2 ^ 32"
  shows "do { c \<leftarrow> sha1_updates (SHA1Init ctx) pieces; SHA1Final c } = Some (sha1_digest (concat pieces))"
proof -
  obtain ctx' where "sha1_updates (SHA1Init ctx) pieces = Some ctx'" "sha1_inv ctx' (concat pieces)"
    using sha1_updates_inv [OF sha1_init_inv [OF assms(1)] assms(2)] by auto
  then show ?thesis by (simp add: sha1_final_eq)
qed

definition sha1_ctx0 :: SHA1_CTX where
  "sha1_ctx0 = \<lparr>sx_state = (1, 2, 3, 4, 5), sx_count0 = 6, sx_count1 = 7, sx_buffer = replicate 64 0x55\<rparr>"

theorem sha1_streaming_witness:
  "do { c \<leftarrow> sha1_updates (SHA1Init sha1_ctx0) [[1, 2], [], replicate 130 3]; SHA1Final c } =
    Some (sha1_digest (concat [[1, 2], [], replicate 130 3]))"
  by (rule sha1_streaming) (simp_all add: sha1_ctx0_def)

end
