(* ===== verification/Sha1_Vector.thy ===== *)
theory Sha1_Vector
  imports Sha1
begin

section \<open>A test vector of SHA-1, evaluated\<close>

text \<open>
  The header comment of source/sha1.c lists test vectors. The first is evaluated here in the
  kernel, five rounds at a time, on the standard; by the equivalence in theory \<open>Sha1\<close> it is the
  result of the code.
\<close>

text \<open>The schedule as a window of 16 words, for evaluation in the kernel a few rounds at a time.\<close>

fun sha1_wstep :: "nat \<Rightarrow> u32 list \<times> sha1_vars \<Rightarrow> u32 list \<times> sha1_vars" where
  "sha1_wstep t ([w0, w1, w2, w3, w4, w5, w6, w7, w8, w9, w10, w11, w12, w13, w14, w15], (a, b, c, d, e)) =
     ([w1, w2, w3, w4, w5, w6, w7, w8, w9, w10, w11, w12, w13, w14, w15, rol (w13 XOR w8 XOR w2 XOR w0) 1],
      (rol a 5 + sha1_f t b c d + e + sha1_K t + w0, a, rol b 30, c, d))"
| "sha1_wstep t ws = ws"

definition sha1_phase :: "nat \<Rightarrow> nat" where
  "sha1_phase t = (if t < 20 then 0 else if t < 40 then 20 else if t < 60 then 40 else 60)"

lemma sha1_phase: "sha1_f (sha1_phase t) = sha1_f t" "sha1_K (sha1_phase t) = sha1_K t"
  by (simp_all add: sha1_phase_def sha1_f_def sha1_K_def fun_eq_iff)

lemma sha1_win_eq:
  "snd (fold sha1_wstep (map sha1_phase [t..<t + n])
    ([sha1_w c t, sha1_w c (t + 1), sha1_w c (t + 2), sha1_w c (t + 3), sha1_w c (t + 4), sha1_w c (t + 5), sha1_w c (t + 6), sha1_w c (t + 7),
      sha1_w c (t + 8), sha1_w c (t + 9), sha1_w c (t + 10), sha1_w c (t + 11), sha1_w c (t + 12), sha1_w c (t + 13), sha1_w c (t + 14), sha1_w c (t + 15)], s)) =
   sha1_rounds (map (sha1_w c) [t..<t + n]) t s"
proof (induction n arbitrary: t s)
  case (Suc n)
  obtain a b c' d e where s: "s = (a, b, c', d, e)" by (cases s) auto
  have w: "rol (sha1_w c (t + 13) XOR sha1_w c (t + 8) XOR sha1_w c (t + 2) XOR sha1_w c t) 1 = sha1_w c (t + 16)"
    using sha1_w_late [of "t + 16" c] by (simp add: add.commute)
  have u: "[t..<t + Suc n] = t # [t + 1..<t + 1 + n]"
    by (simp add: upt_conv_Cons del: upt_Suc)
  show ?case
    unfolding u list.map s fold_Cons o_apply sha1_wstep.simps(1) sha1_rounds.simps sha1_phase w
    unfolding Suc_eq_plus1
    using Suc.IH [of "t + 1"] by (simp only: add.assoc one_add_one one_plus_numeral add_num_simps)
qed simp

lemma sha1_abc_1: "fold sha1_wstep (replicate 5 0)
    ([0x61626380, 0, 0, 0, 0, 0, 0, 0,
     0, 0, 0, 0, 0, 0, 0, 0x18],
     (0x67452301, 0xEFCDAB89, 0x98BADCFE, 0x10325476, 0xC3D2E1F0)) =
    ([0, 0, 0, 0, 0, 0, 0, 0,
     0, 0, 0x18, 0xC2C4C700, 0, 0x30, 0x85898E01, 0],
     (0xCFD499DE, 0xCDD8E11B, 0x284E43C2, 0x626414DB, 0xC045BF0C))"
  by code_simp

lemma sha1_abc_2: "fold sha1_wstep (replicate 5 0)
    ([0, 0, 0, 0, 0, 0, 0, 0,
     0, 0, 0x18, 0xC2C4C700, 0, 0x30, 0x85898E01, 0],
     (0xCFD499DE, 0xCDD8E11B, 0x284E43C2, 0x626414DB, 0xC045BF0C)) =
    ([0, 0, 0, 0, 0, 0x18, 0xC2C4C700, 0,
     0x30, 0x85898E01, 0, 0x60, 0xB131C03, 0x30, 0x85898EC1, 0x16263806],
     (0x8351F929, 0x4B6AE328, 0x27A301F5, 0x664F8C30, 0xFF1F290))"
  by code_simp

lemma sha1_abc_3: "fold sha1_wstep (replicate 5 0)
    ([0, 0, 0, 0, 0, 0x18, 0xC2C4C700, 0,
     0x30, 0x85898E01, 0, 0x60, 0xB131C03, 0x30, 0x85898EC1, 0x16263806],
     (0x8351F929, 0x4B6AE328, 0x27A301F5, 0x664F8C30, 0xFF1F290)) =
    ([0x18, 0xC2C4C700, 0, 0x30, 0x85898E01, 0, 0x60, 0xB131C03,
     0x30, 0x85898EC1, 0x16263806, 0, 0x180, 0x2C4C700C, 0xF0, 0x93AFB507],
     (0x196BEE77, 0x9128F695, 0x1181ED99, 0x18C623F9, 0x7EF6A7A2))"
  by code_simp

lemma sha1_abc_4: "fold sha1_wstep (replicate 5 0)
    ([0x18, 0xC2C4C700, 0, 0x30, 0x85898E01, 0, 0x60, 0xB131C03,
     0x30, 0x85898EC1, 0x16263806, 0, 0x180, 0x2C4C700C, 0xF0, 0x93AFB507],
     (0x196BEE77, 0x9128F695, 0x1181ED99, 0x18C623F9, 0x7EF6A7A2)) =
    ([0, 0x60, 0xB131C03, 0x30, 0x85898EC1, 0x16263806, 0, 0x180,
     0x2C4C700C, 0xF0, 0x93AFB507, 0x5898E048, 0x8E9A9202, 0x600, 0xB131C0F0, 0x16263BC6],
     (0xFD9E1D7D, 0xDC64901D, 0x20AA99CA, 0xD3A49608, 0xC82F758B))"
  by code_simp

lemma sha1_abc_5: "fold sha1_wstep (replicate 5 20)
    ([0, 0x60, 0xB131C03, 0x30, 0x85898EC1, 0x16263806, 0, 0x180,
     0x2C4C700C, 0xF0, 0x93AFB507, 0x5898E048, 0x8E9A9202, 0x600, 0xB131C0F0, 0x16263BC6],
     (0xFD9E1D7D, 0xDC64901D, 0x20AA99CA, 0xD3A49608, 0xC82F758B)) =
    ([0x16263806, 0, 0x180, 0x2C4C700C, 0xF0, 0x93AFB507, 0x5898E048, 0x8E9A9202,
     0x600, 0xB131C0F0, 0x16263BC6, 0x4EBED41E, 0x626380A1, 0x16263806, 0x18C0, 0xD2E138C4],
     (0xC7567DC6, 0xD541F12D, 0x884A0D21, 0xCE88EFF, 0x868DEC32))"
  by code_simp

lemma sha1_abc_6: "fold sha1_wstep (replicate 5 20)
    ([0x16263806, 0, 0x180, 0x2C4C700C, 0xF0, 0x93AFB507, 0x5898E048, 0x8E9A9202,
     0x600, 0xB131C0F0, 0x16263BC6, 0x4EBED41E, 0x626380A1, 0x16263806, 0x18C0, 0xD2E138C4],
     (0xC7567DC6, 0xD541F12D, 0x884A0D21, 0xCE88EFF, 0x868DEC32)) =
    ([0x93AFB507, 0x5898E048, 0x8E9A9202, 0x600, 0xB131C0F0, 0x16263BC6, 0x4EBED41E, 0x626380A1,
     0x16263806, 0x18C0, 0xD2E138C4, 0xF00, 0x3AFB5079, 0x898E04E5, 0xE2BA3C2B, 0x60C0],
     (0xC5FBAF5D, 0x8370B52E, 0xD2AA1365, 0x6F8D7EF5, 0x12104EE9))"
  by code_simp

lemma sha1_abc_7: "fold sha1_wstep (replicate 5 20)
    ([0x93AFB507, 0x5898E048, 0x8E9A9202, 0x600, 0xB131C0F0, 0x16263BC6, 0x4EBED41E, 0x626380A1,
     0x16263806, 0x18C0, 0xD2E138C4, 0xF00, 0x3AFB5079, 0x898E04E5, 0xE2BA3C2B, 0x60C0],
     (0xC5FBAF5D, 0x8370B52E, 0xD2AA1365, 0x6F8D7EF5, 0x12104EE9)) =
    ([0x16263BC6, 0x4EBED41E, 0x626380A1, 0x16263806, 0x18C0, 0xD2E138C4, 0xF00, 0x3AFB5079,
     0x898E04E5, 0xE2BA3C2B, 0x60C0, 0x53A37CD, 0x74458547, 0xDA9415ED, 0x26380A16, 0x626383A1],
     (0x21796AD4, 0x2C0EBC11, 0x811BEA82, 0xCEE1174C, 0xC499ED01))"
  by code_simp

lemma sha1_abc_8: "fold sha1_wstep (replicate 5 20)
    ([0x16263BC6, 0x4EBED41E, 0x626380A1, 0x16263806, 0x18C0, 0xD2E138C4, 0xF00, 0x3AFB5079,
     0x898E04E5, 0xE2BA3C2B, 0x60C0, 0x53A37CD, 0x74458547, 0xDA9415ED, 0x26380A16, 0x626383A1],
     (0x21796AD4, 0x2C0EBC11, 0x811BEA82, 0xCEE1174C, 0xC499ED01)) =
    ([0xD2E138C4, 0xF00, 0x3AFB5079, 0x898E04E5, 0xE2BA3C2B, 0x60C0, 0x53A37CD, 0x74458547,
     0xDA9415ED, 0x26380A16, 0x626383A1, 0x4EBF54DE, 0x3835B44B, 0xF600, 0x1E84C7A3, 0x98E04D98],
     (0x32DE1CBA, 0x4C986405, 0xF718E5CF, 0x3D447F6, 0xF72EEC32))"
  by code_simp

lemma sha1_abc_9: "fold sha1_wstep (replicate 5 40)
    ([0xD2E138C4, 0xF00, 0x3AFB5079, 0x898E04E5, 0xE2BA3C2B, 0x60C0, 0x53A37CD, 0x74458547,
     0xDA9415ED, 0x26380A16, 0x626383A1, 0x4EBF54DE, 0x3835B44B, 0xF600, 0x1E84C7A3, 0x98E04D98],
     (0x32DE1CBA, 0x4C986405, 0xF718E5CF, 0x3D447F6, 0xF72EEC32)) =
    ([0x60C0, 0x53A37CD, 0x74458547, 0xDA9415ED, 0x26380A16, 0x626383A1, 0x4EBF54DE, 0x3835B44B,
     0xF600, 0x1E84C7A3, 0x98E04D98, 0x651D16A0, 0x62658CA1, 0x458544D6, 0x44584CB7, 0x7BA06619],
     (0x40F28E09, 0xEE1B1AAF, 0x5FC64F71, 0x25C28357, 0xFF21F7B7))"
  by code_simp

lemma sha1_abc_10: "fold sha1_wstep (replicate 5 40)
    ([0x60C0, 0x53A37CD, 0x74458547, 0xDA9415ED, 0x26380A16, 0x626383A1, 0x4EBF54DE, 0x3835B44B,
     0xF600, 0x1E84C7A3, 0x98E04D98, 0x651D16A0, 0x62658CA1, 0x458544D6, 0x44584CB7, 0x7BA06619],
     (0x40F28E09, 0xEE1B1AAF, 0x5FC64F71, 0x25C28357, 0xFF21F7B7)) =
    ([0x626383A1, 0x4EBF54DE, 0x3835B44B, 0xF600, 0x1E84C7A3, 0x98E04D98, 0x651D16A0, 0x62658CA1,
     0x458544D6, 0x44584CB7, 0x7BA06619, 0x6380AEA2, 0xAE55269, 0x627B49A1, 0x7CD45C9D, 0xF0000],
     (0x120731C5, 0xBAF39337, 0xAFAB40B2, 0x2806E11B, 0x8714787C))"
  by code_simp

lemma sha1_abc_11: "fold sha1_wstep (replicate 5 40)
    ([0x626383A1, 0x4EBF54DE, 0x3835B44B, 0xF600, 0x1E84C7A3, 0x98E04D98, 0x651D16A0, 0x62658CA1,
     0x458544D6, 0x44584CB7, 0x7BA06619, 0x6380AEA2, 0xAE55269, 0x627B49A1, 0x7CD45C9D, 0xF0000],
     (0x120731C5, 0xBAF39337, 0xAFAB40B2, 0x2806E11B, 0x8714787C)) =
    ([0x98E04D98, 0x651D16A0, 0x62658CA1, 0x458544D6, 0x44584CB7, 0x7BA06619, 0x6380AEA2, 0xAE55269,
     0x627B49A1, 0x7CD45C9D, 0xF0000, 0xFB50753A, 0xEC6765E8, 0xBA3C2BE2, 0x60C000, 0x3A37CD05],
     (0x7B71F76D, 0x27E9F1D8, 0x792410DB, 0x8E11EB59, 0x99076CB3))"
  by code_simp

lemma sha1_abc_12: "fold sha1_wstep (replicate 5 40)
    ([0x98E04D98, 0x651D16A0, 0x62658CA1, 0x458544D6, 0x44584CB7, 0x7BA06619, 0x6380AEA2, 0xAE55269,
     0x627B49A1, 0x7CD45C9D, 0xF0000, 0xFB50753A, 0xEC6765E8, 0xBA3C2BE2, 0x60C000, 0x3A37CD05],
     (0x7B71F76D, 0x27E9F1D8, 0x792410DB, 0x8E11EB59, 0x99076CB3)) =
    ([0x7BA06619, 0x6380AEA2, 0xAE55269, 0x627B49A1, 0x7CD45C9D, 0xF0000, 0xFB50753A, 0xEC6765E8,
     0xBA3C2BE2, 0x60C000, 0x3A37CD05, 0x458546F4, 0xB8599DD6, 0x380A1A26, 0x1E02203, 0xE7CC3456],
     (0x3F52DE5A, 0x9D785FD, 0x3498BFD4, 0xF211824F, 0xD79915AB))"
  by code_simp

lemma sha1_abc_13: "fold sha1_wstep (replicate 5 60)
    ([0x7BA06619, 0x6380AEA2, 0xAE55269, 0x627B49A1, 0x7CD45C9D, 0xF0000, 0xFB50753A, 0xEC6765E8,
     0xBA3C2BE2, 0x60C000, 0x3A37CD05, 0x458546F4, 0xB8599DD6, 0x380A1A26, 0x1E02203, 0xE7CC3456],
     (0x3F52DE5A, 0x9D785FD, 0x3498BFD4, 0xF211824F, 0xD79915AB)) =
    ([0xF0000, 0xFB50753A, 0xEC6765E8, 0xBA3C2BE2, 0x60C000, 0x3A37CD05, 0x458546F4, 0xB8599DD6,
     0x380A1A26, 0x1E02203, 0xE7CC3456, 0xE6E60B69, 0xF60A00, 0x5795EF4F, 0x822E0879, 0x7E577CE2],
     (0x19DFA7AC, 0x6B61C9E1, 0xED9B0082, 0x9523272C, 0xF5D5B051))"
  by code_simp

lemma sha1_abc_14: "fold sha1_wstep (replicate 5 60)
    ([0xF0000, 0xFB50753A, 0xEC6765E8, 0xBA3C2BE2, 0x60C000, 0x3A37CD05, 0x458546F4, 0xB8599DD6,
     0x380A1A26, 0x1E02203, 0xE7CC3456, 0xE6E60B69, 0xF60A00, 0x5795EF4F, 0x822E0879, 0x7E577CE2],
     (0x19DFA7AC, 0x6B61C9E1, 0xED9B0082, 0x9523272C, 0xF5D5B051)) =
    ([0x3A37CD05, 0x458546F4, 0xB8599DD6, 0x380A1A26, 0x1E02203, 0xE7CC3456, 0xE6E60B69, 0xF60A00,
     0x5795EF4F, 0x822E0879, 0x7E577CE2, 0x7EF2103, 0x8544E945, 0xEB39DAB8, 0xC205991A, 0x80AECB63],
     (0x3F2588C2, 0x497093C0, 0xDE37534A, 0x30F7CAD, 0x4405957E))"
  by code_simp

lemma sha1_abc_15: "fold sha1_wstep (replicate 5 60)
    ([0x3A37CD05, 0x458546F4, 0xB8599DD6, 0x380A1A26, 0x1E02203, 0xE7CC3456, 0xE6E60B69, 0xF60A00,
     0x5795EF4F, 0x822E0879, 0x7E577CE2, 0x7EF2103, 0x8544E945, 0xEB39DAB8, 0xC205991A, 0x80AECB63],
     (0x3F2588C2, 0x497093C0, 0xDE37534A, 0x30F7CAD, 0x4405957E)) =
    ([0xE7CC3456, 0xE6E60B69, 0xF60A00, 0x5795EF4F, 0x822E0879, 0x7E577CE2, 0x7EF2103, 0x8544E945,
     0xEB39DAB8, 0xC205991A, 0x80AECB63, 0x7D84CA48, 0x7B499B62, 0x8E8010A8, 0x4B5B8A77, 0x3216B69A],
     (0x5EE76897, 0x11793F6F, 0x3B6D0B79, 0xCE616779, 0xF0667E31))"
  by code_simp

lemma sha1_abc_16: "fold sha1_wstep (replicate 5 60)
    ([0xE7CC3456, 0xE6E60B69, 0xF60A00, 0x5795EF4F, 0x822E0879, 0x7E577CE2, 0x7EF2103, 0x8544E945,
     0xEB39DAB8, 0xC205991A, 0x80AECB63, 0x7D84CA48, 0x7B499B62, 0x8E8010A8, 0x4B5B8A77, 0x3216B69A],
     (0x5EE76897, 0x11793F6F, 0x3B6D0B79, 0xCE616779, 0xF0667E31)) =
    ([0x7E577CE2, 0x7EF2103, 0x8544E945, 0xEB39DAB8, 0xC205991A, 0x80AECB63, 0x7D84CA48, 0x7B499B62,
     0x8E8010A8, 0x4B5B8A77, 0x3216B69A, 0x507E88D, 0x705BEE96, 0x60C0FF00, 0xA28362D0, 0x1DA6B91D],
     (0x42541B35, 0x5738D5E1, 0x21834873, 0x681E6DF6, 0xD8FDF6AD))"
  by code_simp

lemmas sha1_abc_run = sha1_abc_1 sha1_abc_2 sha1_abc_3 sha1_abc_4 sha1_abc_5 sha1_abc_6 sha1_abc_7 sha1_abc_8 sha1_abc_9 sha1_abc_10 sha1_abc_11 sha1_abc_12 sha1_abc_13 sha1_abc_14 sha1_abc_15 sha1_abc_16

definition sha1_abc_block :: bytes where
  "sha1_abc_block = [0x61, 0x62, 0x63, 0x80] @ replicate 52 0 @ [0, 0, 0, 0, 0, 0, 0, 0x18]"

lemma sha1_abc_pad: "sha1_pad [0x61, 0x62, 0x63] = sha1_abc_block" "length sha1_abc_block = 64"
  by (simp_all add: sha1_pad_def sha1_zeros_def be32_bytes_def sha1_abc_block_def)

lemma sha1_phases: "map sha1_phase [0..<0 + 80] = replicate 20 0 @ replicate 20 20 @ replicate 20 40 @ replicate 20 60"
  by (rule nth_equalityI) (auto simp: sha1_phase_def nth_append)

lemma replicate_20: "replicate 20 x = replicate 5 x @ replicate 5 x @ replicate 5 x @ replicate 5 x"
  by (simp add: replicate_add [symmetric])

lemma sha1_abc_words:
  "k \<in> {1, 2, 3, 4, 5, 6, 7, 8, 9, 10, 11, 12, 13, 14} \<Longrightarrow> sha1_w sha1_abc_block k = 0"
  "sha1_w sha1_abc_block 0 = 0x61626380" "sha1_w sha1_abc_block 15 = 24"
  unfolding sha1_abc_block_def
  by (elim insertE emptyE; simp add: sha1_w_early be32_def le32_def nth_append)
     (simp_all add: sha1_w_early be32_def le32_def nth_append)

lemma sha1_digest_abc: "sha1_digest [0x61, 0x62, 0x63] =
  [0xA9, 0x99, 0x3E, 0x36, 0x47, 0x06, 0x81, 0x6A, 0xBA, 0x3E, 0x25, 0x71, 0x78, 0x50, 0xC2, 0x6C, 0x9C, 0xD0, 0xD8, 0x9D]"
proof -
  have sch: "map (sha1_w sha1_abc_block) [0..<0 + 80] = sha1_schedule sha1_abc_block 64"
    by (rule nth_equalityI) (simp_all add: sha1_schedule_nth)
  have "sha1_rounds (sha1_schedule sha1_abc_block 64) 0 sha1_iv =
     (0x42541B35, 0x5738D5E1, 0x21834873, 0x681E6DF6, 0xD8FDF6AD)"
    using sha1_win_eq [of 0 80 sha1_abc_block sha1_iv, unfolded sha1_phases sch replicate_20 fold_append o_apply]
    by (simp only: add_0 sha1_abc_words sha1_iv_def sha1_abc_run snd_conv insert_iff simp_thms)
  then have "sha1_blocks sha1_iv sha1_abc_block = (0xA9993E36, 0x4706816A, 0xBA3E2571, 0x7850C26C, 0x9CD0D89D)"
    by (subst sha1_blocks_one) (simp_all add: sha1_abc_pad sha1_compress_def sha1_iv_def)
  then have "sha1_digest [0x61, 0x62, 0x63] =
      concat (map be32_bytes [0xA9993E36, 0x4706816A, 0xBA3E2571, 0x7850C26C, 0x9CD0D89D])"
    by (simp add: sha1_digest_def sha1_abc_pad)
  also have "\<dots> = [0xA9, 0x99, 0x3E, 0x36, 0x47, 0x06, 0x81, 0x6A, 0xBA, 0x3E, 0x25, 0x71, 0x78, 0x50, 0xC2, 0x6C, 0x9C, 0xD0, 0xD8, 0x9D]"
    by code_simp
  finally show ?thesis .
qed

text \<open>The test vector in the source's header comment: the 20-byte digest of abc, starting from a context full of leftovers and with unrelated bytes after the data, is A9993E36 4706816A BA3E2571 7850C26C 9CD0D89D; only the three bytes announced are hashed.\<close>

lemma sha1_test_vector:
  "SHA1 sha1_ctx0 ([0x61, 0x62, 0x63] @ r) 3 = Some
    [0xA9, 0x99, 0x3E, 0x36, 0x47, 0x06, 0x81, 0x6A, 0xBA, 0x3E, 0x25, 0x71, 0x78, 0x50, 0xC2, 0x6C, 0x9C, 0xD0, 0xD8, 0x9D]"
  using SHA1_eq [of sha1_ctx0 3 "[0x61, 0x62, 0x63] @ r"] sha1_digest_abc by (simp add: sha1_ctx0_def)

end
