(* ===== verification/Http.thy ===== *)
theory Http
  imports Cstring Buffer
begin

section \<open>HTTP messages (source/http.c)\<close>

text \<open>
  A view of a message is a set of pointers into the text; a pointer is the memory it points to.
  A message owns copies: its strings are zero-terminated blocks, its headers a linked list with
  the newest in front, its body a \<open>buffer\<close> (theory \<open>Buffer\<close>). A null pointer that is followed,
  or a text that is not terminated where the code relies on it, gives \<^const>\<open>None\<close>.
\<close>

definition HTTP_LINE_END :: bytes where "HTTP_LINE_END = [0x0D, 0x0A]"
definition HTTP_HEADERS_END :: bytes where "HTTP_HEADERS_END = [0x0D, 0x0A, 0x0D, 0x0A]"
definition HTTP_WHITESPACE_CHARS :: bytes where "HTTP_WHITESPACE_CHARS = [0x20, 0x09, 0]"

abbreviation (input) c_space :: byte where "c_space \<equiv> 0x20"
abbreviation (input) c_cr :: byte where "c_cr \<equiv> 0x0D"
abbreviation (input) c_colon :: byte where "c_colon \<equiv> 0x3A"

subsection \<open>Views\<close>

record http_msg_view =
  hv_method :: "bytes option"
  hv_uri :: "bytes option"
  hv_version :: "bytes option"
  hv_status :: "bytes option"
  hv_reason :: "bytes option"
  hv_headers :: bytes
  hv_body :: bytes

text \<open>The three words of the first line, the headers, the body; \<open>Some None\<close> is the result false.\<close>

definition http_view_parse ::
    "bytes \<Rightarrow> (bytes \<times> bytes option \<times> bytes option \<times> bytes \<times> bytes) option option" where
  "http_view_parse buffer = do {
     headers_end \<leftarrow> c_strstr buffer HTTP_HEADERS_END;
     case headers_end of
       None \<Rightarrow> Some None
     | Some e \<Rightarrow> do {
         body \<leftarrow> adv buffer (e + length HTTP_HEADERS_END);
         l \<leftarrow> c_strstr buffer HTTP_LINE_END;
         l \<leftarrow> l;
         headers \<leftarrow> adv buffer (l + length HTTP_LINE_END);
         first \<leftarrow> xstrltrim buffer;
         s \<leftarrow> c_strchr first c_space;
         (second, third) \<leftarrow> (case s of
             None \<Rightarrow> Some (None, None)
           | Some i \<Rightarrow> do {
               second \<leftarrow> xstrltrim (drop i first);
               t \<leftarrow> c_strchr second c_space;
               third \<leftarrow> (case t of
                   None \<Rightarrow> Some None
                 | Some j \<Rightarrow> map_option Some (xstrltrim (drop j second)));
               Some (Some second, third)
             });
         Some (Some (first, second, third, headers, body))
       }
   }"

definition http_msg_view_parse_request :: "bytes \<Rightarrow> http_msg_view option option" where
  "http_msg_view_parse_request buffer =
     map_option (map_option (\<lambda>(method, uri, version, headers, body).
       \<lparr>hv_method = Some method, hv_uri = uri, hv_version = version, hv_status = None, hv_reason = None,
        hv_headers = headers, hv_body = body\<rparr>)) (http_view_parse buffer)"

definition http_msg_view_parse_response :: "bytes \<Rightarrow> http_msg_view option option" where
  "http_msg_view_parse_response buffer =
     map_option (map_option (\<lambda>(version, status, reason, headers, body).
       \<lparr>hv_method = None, hv_uri = None, hv_version = Some version, hv_status = status, hv_reason = reason,
        hv_headers = headers, hv_body = body\<rparr>)) (http_view_parse buffer)"

lemma c_strstr_lt: "c_strstr m nd = Some (Some n) \<Longrightarrow> nd \<noteq> [] \<Longrightarrow> n < length m"
proof (induction m nd arbitrary: n rule: c_strstr.induct)
  case (2 x m nd)
  then show ?case by (auto split: option.splits bool.splits if_splits)
qed simp

text \<open>The result: the line that was found, and the value behind its colon.\<close>

function http_header_find :: "bytes \<Rightarrow> bytes \<Rightarrow> (bytes \<times> bytes) option option" where
  "http_header_find line_start name =
     (case xstr_space_len line_start (Some HTTP_WHITESPACE_CHARS) of
        None \<Rightarrow> None
      | Some sp \<Rightarrow>
          let line_start = drop sp line_start in
          (case c_strstr line_start HTTP_LINE_END of
             None \<Rightarrow> None
           | Some None \<Rightarrow> Some None
           | Some (Some line_len) \<Rightarrow>
               if line_len = 0 then Some None
               else (case (do { name_len \<leftarrow> c_strlen name; c_strncasecmp_eq line_start name name_len }) of
                       None \<Rightarrow> None
                     | Some True \<Rightarrow> do {
                         name_len \<leftarrow> c_strlen name;
                         colon \<leftarrow> adv line_start name_len;
                         sp \<leftarrow> xstr_space_len colon (Some HTTP_WHITESPACE_CHARS);
                         colon \<leftarrow> adv colon sp;
                         c \<leftarrow> rd colon 0;
                         if c \<noteq> c_colon then Some None
                         else do {
                           val \<leftarrow> adv colon 1;
                           sp \<leftarrow> xstr_space_len val (Some HTTP_WHITESPACE_CHARS);
                           val \<leftarrow> adv val sp;
                           Some (Some (line_start, val))
                         }
                       }
                     | Some False \<Rightarrow> http_header_find (drop (line_len + length HTTP_LINE_END) line_start) name)))"
  by pat_completeness auto
termination
proof (relation "measure (\<lambda>(line_start, _). length line_start)", goal_cases)
  case (2 line_start name sp ls a n b)
  then show ?case using c_strstr_lt [of ls HTTP_LINE_END n] by (auto simp: HTTP_LINE_END_def)
qed simp

declare http_header_find.simps [simp del]

subsection \<open>Messages\<close>

record http_header =
  hh_name :: bytes
  hh_value :: "bytes option"

record http_msg =
  hm_method :: "bytes option"
  hm_uri :: "bytes option"
  hm_version :: "bytes option"
  hm_status :: "32 word"
  hm_reason :: "bytes option"
  hm_headers :: "http_header list"
  hm_body :: "buffer option"

definition http_msg_init :: http_msg where
  "http_msg_init = \<lparr>hm_method = None, hm_uri = None, hm_version = None, hm_status = 0, hm_reason = None,
     hm_headers = [], hm_body = None\<rparr>"

definition http_msg_clean :: "http_msg \<Rightarrow> http_msg" where
  "http_msg_clean self = self\<lparr>hm_method := None, hm_uri := None, hm_version := None, hm_reason := None,
     hm_headers := [], hm_body := None\<rparr>"

definition http_header_new :: "bytes \<Rightarrow> bytes option \<Rightarrow> http_header option" where
  "http_header_new name val = do {
     name \<leftarrow> xstrdup name;
     val \<leftarrow> (case val of None \<Rightarrow> Some None | Some v \<Rightarrow> map_option Some (xstrdup v));
     Some \<lparr>hh_name = name, hh_value = val\<rparr>
   }"

definition http_msg_new_request :: "bytes \<Rightarrow> bytes \<Rightarrow> bytes \<Rightarrow> http_msg option" where
  "http_msg_new_request method uri version = do {
     method \<leftarrow> xstrdup method;
     uri \<leftarrow> xstrdup uri;
     version \<leftarrow> xstrdup version;
     Some (http_msg_init\<lparr>hm_method := Some method, hm_uri := Some uri, hm_version := Some version, hm_headers := []\<rparr>)
   }"

definition http_msg_new_response :: "bytes \<Rightarrow> 32 word \<Rightarrow> bytes \<Rightarrow> http_msg option" where
  "http_msg_new_response version status reason = do {
     version \<leftarrow> xstrdup version;
     reason \<leftarrow> xstrdup reason;
     Some (http_msg_init\<lparr>hm_version := Some version, hm_status := status, hm_reason := Some reason, hm_headers := []\<rparr>)
   }"

definition http_msg_add_header :: "http_msg \<Rightarrow> bytes \<Rightarrow> bytes option \<Rightarrow> http_msg option" where
  "http_msg_add_header self name val = do {
     header \<leftarrow> http_header_new name val;
     Some (self\<lparr>hm_headers := header # hm_headers self\<rparr>)
   }"

fun http_remove_loop :: "http_header list \<Rightarrow> bytes \<Rightarrow> http_header list option" where
  "http_remove_loop [] name = Some []"
| "http_remove_loop (header # headers) name = do {
     eq \<leftarrow> c_streq c_tolower (hh_name header) name;
     rest \<leftarrow> http_remove_loop headers name;
     Some (if eq then rest else header # rest)
   }"

definition http_msg_remove_header :: "http_msg \<Rightarrow> bytes \<Rightarrow> http_msg option" where
  "http_msg_remove_header self name = do {
     headers \<leftarrow> http_remove_loop (hm_headers self) name;
     Some (self\<lparr>hm_headers := headers\<rparr>)
   }"

definition http_msg_append_body :: "http_msg \<Rightarrow> bytes \<Rightarrow> nat \<Rightarrow> http_msg option" where
  "http_msg_append_body self buffer len = do {
     let body = (case hm_body self of None \<Rightarrow> buffer_new | Some b \<Rightarrow> b);
     body \<leftarrow> buffer_append body buffer len;
     Some (self\<lparr>hm_body := Some body\<rparr>)
   }"

text \<open>
  One header line, copied with a zero behind it. \<open>xstrrtrim\<close> of the name writes in front of the
  colon only, so the value is trimmed in what the first call left.
\<close>

definition http_parse_line :: "http_msg \<Rightarrow> bytes \<Rightarrow> http_msg option option" where
  "http_parse_line self line = do {
     let buffer = line @ [0];
     colon \<leftarrow> c_strchr buffer c_colon;
     case colon of
       None \<Rightarrow> Some None
     | Some c \<Rightarrow> do {
         buffer \<leftarrow> xstrrtrim (buffer[c := 0]);
         val \<leftarrow> xstrltrim (drop (c + 1) buffer);
         val \<leftarrow> xstrrtrim val;
         self \<leftarrow> http_msg_add_header self buffer (Some val);
         Some (Some self)
       }
   }"

function http_msg_parse_headers :: "http_msg \<Rightarrow> bytes \<Rightarrow> (int \<times> http_msg) option" where
  "http_msg_parse_headers self line_start =
     (case xstr_space_len line_start (Some HTTP_WHITESPACE_CHARS) of
        None \<Rightarrow> None
      | Some sp \<Rightarrow>
          let line_start = drop sp line_start in
          (case c_strstr line_start HTTP_LINE_END of
             None \<Rightarrow> None
           | Some None \<Rightarrow> Some (-1, self)
           | Some (Some line_len) \<Rightarrow>
               if line_len = 0 then Some (1, self)
               else (case http_parse_line self (take line_len line_start) of
                       None \<Rightarrow> None
                     | Some None \<Rightarrow> Some (-1, self)
                     | Some (Some self) \<Rightarrow>
                         http_msg_parse_headers self (drop (line_len + length HTTP_LINE_END) line_start))))"
  by pat_completeness auto
termination
proof (relation "measure (\<lambda>(_, line_start). length line_start)", goal_cases)
  case (2 self line_start sp ls a n b self')
  then show ?case using c_strstr_lt [of ls HTTP_LINE_END n] by (auto simp: HTTP_LINE_END_def)
qed simp

declare http_msg_parse_headers.simps [simp del]

text \<open>Length and copy of the word a pointer of the view points to; following null is undefined.\<close>

definition http_word :: "bytes option \<Rightarrow> (nat \<times> bytes) option" where
  "http_word p = do { m \<leftarrow> p; len \<leftarrow> xstr_word_len m None; w \<leftarrow> xstrndup m len; Some (len, w) }"

definition http_parse_rest :: "http_msg \<Rightarrow> http_msg_view \<Rightarrow> (int \<times> http_msg) option" where
  "http_parse_rest self view = do {
     (ret, self) \<leftarrow> http_msg_parse_headers self (hv_headers view);
     if ret < 0 then Some (-1, self)
     else do {
       len \<leftarrow> c_strlen (hv_body view);
       self \<leftarrow> (if len > 0 then http_msg_append_body self (hv_body view) len else Some self);
       Some (1, self)
     }
   }"

definition http_msg_parse_request :: "http_msg \<Rightarrow> bytes \<Rightarrow> (int \<times> http_msg) option" where
  "http_msg_parse_request self buffer = do {
     view \<leftarrow> http_msg_view_parse_request buffer;
     case view of
       None \<Rightarrow> Some (0, self)
     | Some view \<Rightarrow> do {
         (len, w) \<leftarrow> http_word (hv_method view);
         if len = 0 then Some (-1, self) else do {
         let self = self\<lparr>hm_method := Some w\<rparr>;
         (len, w) \<leftarrow> http_word (hv_uri view);
         if len = 0 then Some (-1, self) else do {
         let self = self\<lparr>hm_uri := Some w\<rparr>;
         (len, w) \<leftarrow> http_word (hv_version view);
         if len = 0 then Some (-1, self) else do {
         let self = self\<lparr>hm_version := Some w\<rparr>;
         http_parse_rest self view
       }}}}
   }"

definition http_msg_parse_response :: "http_msg \<Rightarrow> bytes \<Rightarrow> (int \<times> http_msg) option" where
  "http_msg_parse_response self buffer = do {
     view \<leftarrow> http_msg_view_parse_response buffer;
     case view of
       None \<Rightarrow> Some (0, self)
     | Some view \<Rightarrow> do {
         (len, w) \<leftarrow> http_word (hv_version view);
         if len = 0 then Some (-1, self) else do {
         let self = self\<lparr>hm_version := Some w\<rparr>;
         (len, w) \<leftarrow> http_word (hv_status view);
         if len = 0 then Some (-1, self) else do {
         code \<leftarrow> xstrtol w 10;
         case code of None \<Rightarrow> Some (-1, self) | Some code \<Rightarrow> do {
         let self = self\<lparr>hm_status := word_of_int code\<rparr>;
         (len, w) \<leftarrow> http_word (hv_reason view);
         if len = 0 then Some (-1, self) else do {
         let self = self\<lparr>hm_reason := Some w\<rparr>;
         http_parse_rest self view
       }}}}}
   }"

subsection \<open>Serialising\<close>

definition c_str :: "bytes \<Rightarrow> bytes option" where
  "c_str m = do { n \<leftarrow> c_strlen m; rd_bytes m n }"

function c_decimal :: "nat \<Rightarrow> bytes" where
  "c_decimal n = (if n < 10 then [of_nat (48 + n)] else c_decimal (n div 10) @ [of_nat (48 + n mod 10)])"
  by pat_completeness auto
termination by (relation "measure (\<lambda>n. n)") auto

declare c_decimal.simps [simp del]

text \<open>\<open>snprintf (out + offset, limit, ...)\<close> that formats \<open>s\<close>: truncated, zero-terminated.\<close>

definition c_snprintf :: "bytes \<Rightarrow> nat \<Rightarrow> nat \<Rightarrow> bytes \<Rightarrow> bytes option" where
  "c_snprintf out offset limit s =
     (if limit = 0 then Some out
      else do {
        dst \<leftarrow> adv out offset;
        dst \<leftarrow> mem_write dst (take (limit - 1) s @ [0]);
        Some (take offset out @ dst)
      })"

type_synonym http_out = "bytes \<times> nat \<times> nat"

text \<open>One step: the estimate is compared as \<open>int\<close>, then the text is formatted. \<open>Some None\<close>: return -1.\<close>

definition http_emit :: "nat \<Rightarrow> bytes \<Rightarrow> http_out \<Rightarrow> http_out option option" where
  "http_emit estimate s = (\<lambda>(buffer, offset, buffer_len).
     if c_int (int estimate) \<ge> c_int (int buffer_len) then Some None
     else do {
       buffer \<leftarrow> c_snprintf buffer offset buffer_len s;
       Some (Some (buffer, size_add offset (length s), size_sub buffer_len (length s)))
     })"

definition http_first_line :: "http_msg \<Rightarrow> (nat \<times> bytes) option" where
  "http_first_line self =
     (if hm_method self \<noteq> None \<and> hm_uri self \<noteq> None
      then do {
        method \<leftarrow> hm_method self; uri \<leftarrow> hm_uri self; version \<leftarrow> hm_version self;
        method \<leftarrow> c_str method; uri \<leftarrow> c_str uri; version \<leftarrow> c_str version;
        Some (10 + length method + length uri + length version,
              method @ [c_space] @ uri @ [c_space] @ version @ HTTP_LINE_END)
      }
      else do {
        version \<leftarrow> hm_version self; reason \<leftarrow> hm_reason self;
        version \<leftarrow> c_str version; reason \<leftarrow> c_str reason;
        Some (10 + length version + 3 + length reason,
              version @ [c_space] @ c_decimal (unat (hm_status self)) @ [c_space] @ reason @ HTTP_LINE_END)
      })"

definition http_header_line :: "http_header \<Rightarrow> (nat \<times> bytes) option" where
  "http_header_line header = do {
     name \<leftarrow> c_str (hh_name header);
     val \<leftarrow> (case hh_value header of None \<Rightarrow> Some [] | Some v \<Rightarrow> c_str v);
     Some (8 + length name + length val, name @ [c_colon, c_space] @ val @ HTTP_LINE_END)
   }"

fun http_emit_headers :: "http_header list \<Rightarrow> http_out \<Rightarrow> http_out option option" where
  "http_emit_headers [] out = Some (Some out)"
| "http_emit_headers (header # headers) out = do {
     (estimate, line) \<leftarrow> http_header_line header;
     r \<leftarrow> http_emit estimate line out;
     case r of None \<Rightarrow> Some None | Some out \<Rightarrow> http_emit_headers headers out
   }"

definition http_emit_end :: "http_out \<Rightarrow> http_out option option" where
  "http_emit_end = (\<lambda>(buffer, offset, buffer_len).
     if 2 \<ge> c_int (int buffer_len) then Some None
     else do {
       dst \<leftarrow> adv buffer offset;
       dst \<leftarrow> mem_write dst HTTP_LINE_END;
       Some (Some (take offset buffer @ dst, size_add offset 2, size_sub buffer_len 2))
     })"

text \<open>The data of a buffer as memory: its bytes, which the code has terminated with a zero.\<close>

definition buffer_text :: "buffer \<Rightarrow> bytes option" where
  "buffer_text b = do { m \<leftarrow> bf_alloc b; cs \<leftarrow> cells_read m (bf_off b) (bf_length b); initialised cs }"

definition http_emit_body :: "http_msg \<Rightarrow> http_out \<Rightarrow> (http_out option \<times> http_msg) option" where
  "http_emit_body self out =
     (case hm_body self of
        None \<Rightarrow> Some (Some out, self)
      | Some body \<Rightarrow> do {
          body \<leftarrow> buffer_append body [0] 1;
          m \<leftarrow> buffer_text body;
          s \<leftarrow> c_str m;
          r \<leftarrow> http_emit (2 + bf_length body) s out;
          Some (r, self\<lparr>hm_body := Some body\<rparr>)
        })"

definition http_msg_serialize :: "http_msg \<Rightarrow> bytes \<Rightarrow> nat \<Rightarrow> (int \<times> bytes option \<times> http_msg) option" where
  "http_msg_serialize self buffer buffer_len = do {
     (estimate, line) \<leftarrow> http_first_line self;
     r \<leftarrow> http_emit estimate line (buffer, 0, buffer_len);
     case r of None \<Rightarrow> Some (-1, None, self) | Some out \<Rightarrow> do {
     r \<leftarrow> http_emit_headers (hm_headers self) out;
     case r of None \<Rightarrow> Some (-1, None, self) | Some out \<Rightarrow> do {
     r \<leftarrow> http_emit_end out;
     case r of None \<Rightarrow> Some (-1, None, self) | Some out \<Rightarrow> do {
     (r, self) \<leftarrow> http_emit_body self out;
     case r of None \<Rightarrow> Some (-1, None, self)
     | Some (buffer, offset, _) \<Rightarrow> Some (c_int (int offset), Some buffer, self)
   }}}}"

subsection \<open>Well-formed messages\<close>

definition http_text :: "bytes \<Rightarrow> bool" where
  "http_text w \<longleftrightarrow> w \<noteq> [] \<and> (\<forall>c \<in> set w. c_isgraph c)"

definition http_value_ok :: "bytes \<Rightarrow> bool" where
  "http_value_ok v \<longleftrightarrow> v \<noteq> [] \<and> 0 \<notin> set v \<and> c_cr \<notin> set v \<and> c_isgraph (hd v) \<and> c_isgraph (last v)"

definition http_name_ok :: "bytes \<Rightarrow> bool" where
  "http_name_ok n \<longleftrightarrow> http_text n \<and> c_colon \<notin> set n"

definition zstr :: "bytes \<Rightarrow> bytes" where
  "zstr s = s @ [0]"

fun http_header_of :: "bytes \<times> bytes \<Rightarrow> http_header" where
  "http_header_of (n, v) = \<lparr>hh_name = zstr n, hh_value = Some (zstr v)\<rparr>"

definition http_line :: "bytes \<times> bytes \<Rightarrow> bytes" where
  "http_line h = fst h @ [c_colon, c_space] @ snd h"

definition http_lines :: "(bytes \<times> bytes) list \<Rightarrow> bytes" where
  "http_lines hs = concat (map (\<lambda>h. http_line h @ HTTP_LINE_END) hs)"

subsection \<open>Reading what is well-formed\<close>

definition line_ok :: "bytes \<Rightarrow> bool" where
  "line_ok l \<longleftrightarrow> l \<noteq> [] \<and> c_cr \<notin> set l \<and> 0 \<notin> set l"

definition crlf_lines :: "bytes list \<Rightarrow> bytes" where
  "crlf_lines ls = concat (map (\<lambda>l. l @ HTTP_LINE_END) ls)"

lemma isgraph_plain: "c_isgraph c \<Longrightarrow> c \<noteq> 0 \<and> c \<noteq> c_cr \<and> c \<noteq> 0x0A \<and> c \<noteq> c_space \<and> c \<noteq> 9"
  by (auto simp: c_isgraph_def)

lemma http_text_plain:
  "http_text w \<Longrightarrow> w \<noteq> [] \<and> 0 \<notin> set w \<and> c_cr \<notin> set w \<and> c_space \<notin> set w \<and> line_ok w"
  by (auto simp: http_text_def line_ok_def dest: isgraph_plain)

lemma c_strstr_skip:
  assumes "c_cr \<notin> set l" and "0 \<notin> set l" and "nd = c_cr # nd'"
  shows "c_strstr (l @ m) nd = map_option (map_option (\<lambda>n. length l + n)) (c_strstr m nd)"
  using assms
proof (induction l)
  case Nil
  then show ?case by (simp add: option.map_ident)
next
  case (Cons x l)
  then show ?case
    by (auto simp: option.map_comp comp_def)
qed

lemma c_strstr_line:
  assumes "c_cr \<notin> set l" and "0 \<notin> set l"
  shows "c_strstr (l @ HTTP_LINE_END @ m) HTTP_LINE_END = Some (Some (length l))"
  using c_strstr_found [of c_cr l "[0x0A]" m] assms by (simp add: HTTP_LINE_END_def)

lemma c_strstr_headers_end:
  assumes "\<forall>l \<in> set ls. line_ok l" and "ls \<noteq> []"
  shows "c_strstr (crlf_lines ls @ HTTP_LINE_END @ body) HTTP_HEADERS_END =
    Some (Some (length (crlf_lines ls) - 2))"
  using assms
proof (induction ls)
  case (Cons l ls)
  have l: "c_cr \<notin> set l" "0 \<notin> set l" using Cons.prems(1) by (auto simp: line_ok_def)
  have e: "HTTP_HEADERS_END = c_cr # [0x0A, c_cr, 0x0A]" by (simp add: HTTP_HEADERS_END_def)
  show ?case
  proof (cases ls)
    case Nil
    then show ?thesis
      using c_strstr_found [of c_cr l "[0x0A, c_cr, 0x0A]" body] l
      by (simp add: crlf_lines_def HTTP_LINE_END_def HTTP_HEADERS_END_def)
  next
    case (Cons l2 ls2)
    then obtain x l3 where x: "l2 = x # l3" "x \<noteq> c_cr"
      using Cons.prems(1) by (cases l2) (auto simp: line_ok_def)
    let ?m = "crlf_lines ls @ HTTP_LINE_END @ body"
    obtain t where t: "?m = x # t"
      using Cons x by (simp add: crlf_lines_def)
    have n: "2 \<le> length (crlf_lines ls)"
      using Cons by (simp add: crlf_lines_def HTTP_LINE_END_def)
    have "c_strstr (l @ HTTP_LINE_END @ ?m) HTTP_HEADERS_END =
        map_option (map_option (\<lambda>n. length l + n)) (c_strstr (HTTP_LINE_END @ ?m) HTTP_HEADERS_END)"
      by (rule c_strstr_skip [OF l e])
    also have "c_strstr (HTTP_LINE_END @ ?m) HTTP_HEADERS_END =
        map_option (map_option (\<lambda>n. 2 + n)) (c_strstr ?m HTTP_HEADERS_END)"
      unfolding t using x(2) by (simp add: HTTP_LINE_END_def HTTP_HEADERS_END_def option.map_comp comp_def)
    also have "c_strstr ?m HTTP_HEADERS_END = Some (Some (length (crlf_lines ls) - 2))"
      using Cons.IH Cons.prems(1) Cons by simp
    finally show ?thesis
      using n by (simp add: crlf_lines_def HTTP_LINE_END_def)
  qed
qed simp

lemma xstrltrim_graph: "c_isgraph c \<Longrightarrow> xstrltrim (c # m) = Some (c # m)"
  by simp

lemma not_graph [simp]: "\<not> c_isgraph 0x20" "\<not> c_isgraph 0x0D" "\<not> c_isgraph 0" "\<not> c_isgraph 9"
  by (simp_all add: c_isgraph_def)

lemma http_view_parse_eq:
  assumes a: "http_text a" and b: "http_text b" and c: "line_ok c" "c_isgraph (hd c)"
    and ls: "\<forall>l \<in> set ls. line_ok l"
    and m: "m = a @ c_space # b @ c_space # c @ HTTP_LINE_END @ crlf_lines ls @ HTTP_LINE_END @ body"
  shows "http_view_parse m = Some (Some (m,
      Some (b @ c_space # c @ HTTP_LINE_END @ crlf_lines ls @ HTTP_LINE_END @ body),
      Some (c @ HTTP_LINE_END @ crlf_lines ls @ HTTP_LINE_END @ body),
      crlf_lines ls @ HTTP_LINE_END @ body, body))"
proof -
  note pa = http_text_plain [OF a] and pb = http_text_plain [OF b]
  let ?l0 = "a @ c_space # b @ c_space # c"
  have l0: "line_ok ?l0" using pa pb c by (auto simp: line_ok_def)
  define t3 where "t3 = c @ HTTP_LINE_END @ crlf_lines ls @ HTTP_LINE_END @ body"
  define t2 where "t2 = b @ c_space # t3"
  define n where "n = length (crlf_lines (?l0 # ls)) - 2"
  define k i j where "k = length ?l0" and "i = length a" and "j = length b"
  have all: "crlf_lines (?l0 # ls) @ HTTP_LINE_END @ body = m"
    by (simp add: m crlf_lines_def)
  have e: "c_strstr m HTTP_HEADERS_END = Some (Some n)"
    unfolding all [symmetric] n_def by (rule c_strstr_headers_end) (use l0 ls in auto)
  have n: "n + length HTTP_HEADERS_END = length (crlf_lines (?l0 # ls) @ HTTP_LINE_END)"
    by (simp add: n_def crlf_lines_def HTTP_LINE_END_def HTTP_HEADERS_END_def)
  have body: "adv m (n + length HTTP_HEADERS_END) = Some body"
    unfolding n unfolding all [symmetric] by (metis adv_append append_assoc)
  have l: "c_strstr m HTTP_LINE_END = Some (Some k)"
    using c_strstr_line [of ?l0 "crlf_lines ls @ HTTP_LINE_END @ body"] l0 by (simp add: m line_ok_def k_def)
  have hdr: "adv m (k + length HTTP_LINE_END) = Some (crlf_lines ls @ HTTP_LINE_END @ body)"
    using adv_append [of "?l0 @ HTTP_LINE_END" "crlf_lines ls @ HTTP_LINE_END @ body"]
    by (simp add: m k_def add_ac del: adv_append)
  obtain xa a' where xa: "a = xa # a'" "c_isgraph xa" using a by (cases a) (auto simp: http_text_def)
  obtain xb b' where xb: "b = xb # b'" "c_isgraph xb" using b by (cases b) (auto simp: http_text_def)
  obtain xc c' where xc: "c = xc # c'" "c_isgraph xc" using c by (cases c) (auto simp: line_ok_def)
  have first: "xstrltrim m = Some m"
    by (simp add: m xa)
  have s: "c_strchr m c_space = Some (Some i)"
    unfolding m i_def using pa by (intro c_strchr_found) auto
  have second: "xstrltrim (drop i m) = Some t2"
    by (simp add: m xb t2_def t3_def i_def)
  have t: "c_strchr t2 c_space = Some (Some j)"
    unfolding t2_def j_def using pb by (intro c_strchr_found) auto
  have third: "xstrltrim (drop j t2) = Some t3"
    by (simp add: xc t2_def t3_def j_def)
  have "http_view_parse m = Some (Some (m, Some t2, Some t3, crlf_lines ls @ HTTP_LINE_END @ body, body))"
    by (simp add: http_view_parse_def e body l hdr first s second t third)
  then show ?thesis by (simp only: t2_def t3_def)
qed

lemma rstrip_graph: "t = [] \<or> c_isgraph (last t) \<Longrightarrow> rstrip t = t"
  by (cases t rule: rev_cases) (auto simp: rstrip_snoc)

lemma xstrrtrim_graph:
  assumes "n \<noteq> []" and "0 \<notin> set n" and "c_isgraph (last n)" and "length n < size_bound"
  shows "xstrrtrim (n @ 0 # r) = Some (n @ 0 # r)"
proof -
  obtain x t where n: "n = x # t" using assms(1) by (cases n) auto
  then have "rstrip t = t" using assms(3) by (intro rstrip_graph) (auto split: if_splits)
  moreover have "length t < size_bound - 1" using assms(4) n by simp
  ultimately show ?thesis
    using xstrrtrim_str [of x t r] assms(2) n by simp
qed

lemma http_parse_line_eq:
  assumes n: "http_name_ok n" and v: "http_value_ok v" and len: "length n < size_bound" "length v < size_bound"
  shows "http_parse_line self (http_line (n, v)) =
    Some (Some (self\<lparr>hm_headers := http_header_of (n, v) # hm_headers self\<rparr>))"
proof -
  have n': "n \<noteq> []" "0 \<notin> set n" "c_isgraph (last n)" "c_colon \<notin> set n"
    using n by (auto simp: http_name_ok_def http_text_def dest: isgraph_plain)
  have v': "v \<noteq> []" "0 \<notin> set v" "c_isgraph (last v)" "c_isgraph (hd v)"
    using v by (auto simp: http_value_ok_def)
  obtain y u where y: "v = y # u" using v'(1) by (cases v) auto
  define k where "k = length n"
  let ?b = "n @ c_colon # c_space # v @ [0]"
  have c: "c_strchr ?b c_colon = Some (Some k)"
    unfolding k_def by (rule c_strchr_found) (use n' in auto)
  have up: "?b[k := 0] = n @ 0 # c_space # v @ [0]" and dr: "drop (Suc k) (n @ 0 # c_space # v @ [0]) = c_space # v @ [0]"
    by (simp_all add: k_def list_update_append)
  have l: "xstrltrim (c_space # v @ [0]) = Some (v @ [0])"
    using v'(4) by (simp add: y)
  have "xstrrtrim (n @ 0 # c_space # v @ [0]) = Some (n @ 0 # c_space # v @ [0])"
    by (rule xstrrtrim_graph [OF n'(1-3) len(1)])
  moreover have "xstrrtrim (v @ [0]) = Some (v @ [0])"
    by (rule xstrrtrim_graph [OF v'(1-3) len(2)])
  moreover have "http_line (n, v) @ [0] = ?b"
    by (simp add: http_line_def)
  ultimately show ?thesis
    using n'(2) v'(2) xstrdup_str [of v "[]"]
    by (simp add: http_parse_line_def Let_def c up dr l http_msg_add_header_def http_header_new_def zstr_def
        del: xstrltrim.simps drop_append)
qed

definition http_header_ok :: "bytes \<times> bytes \<Rightarrow> bool" where
  "http_header_ok h \<longleftrightarrow> http_name_ok (fst h) \<and> http_value_ok (snd h) \<and>
     length (fst h) < size_bound \<and> length (snd h) < size_bound"

lemma http_line_ok: "http_header_ok h \<Longrightarrow> line_ok (http_line h) \<and> c_isgraph (hd (http_line h))"
  by (auto simp: http_header_ok_def http_line_def http_name_ok_def http_value_ok_def line_ok_def http_text_def
      dest: isgraph_plain intro!: hd_in_set)

lemma space_len_graph: "c_isgraph c \<or> c = c_cr \<Longrightarrow> xstr_space_len (c # m) (Some HTTP_WHITESPACE_CHARS) = Some 0"
  by (rule xstr_space_len_none) (auto simp: HTTP_WHITESPACE_CHARS_def dest: isgraph_plain)

lemma http_msg_parse_headers_eq:
  assumes "\<forall>h \<in> set hs. http_header_ok h"
  shows "http_msg_parse_headers self (http_lines hs @ HTTP_LINE_END @ body) =
    Some (1, self\<lparr>hm_headers := rev (map http_header_of hs) @ hm_headers self\<rparr>)"
  using assms
proof (induction hs arbitrary: self)
  case Nil
  show ?case
    by (subst http_msg_parse_headers.simps)
       (simp add: http_lines_def HTTP_LINE_END_def space_len_graph)
next
  case (Cons h hs)
  obtain n v where h: "h = (n, v)" by force
  have ok: "http_header_ok h" using Cons.prems by simp
  obtain x l where x: "http_line h = x # l" "c_isgraph x"
    using http_line_ok [OF ok] by (cases "http_line h") (auto simp: line_ok_def)
  let ?rest = "http_lines hs @ HTTP_LINE_END @ body"
  have m: "http_lines (h # hs) @ HTTP_LINE_END @ body = http_line h @ HTTP_LINE_END @ ?rest"
    by (simp add: http_lines_def)
  define k where "k = length (http_line h)"
  have k: "k \<noteq> 0" "take k (http_line h @ HTTP_LINE_END @ ?rest) = http_line h"
    "drop (k + length HTTP_LINE_END) (http_line h @ HTTP_LINE_END @ ?rest) = ?rest"
    using x by (simp_all add: k_def)
  have sp: "xstr_space_len (http_line h @ HTTP_LINE_END @ ?rest) (Some HTTP_WHITESPACE_CHARS) = Some 0"
    using space_len_graph x by simp
  have e: "c_strstr (http_line h @ HTTP_LINE_END @ ?rest) HTTP_LINE_END = Some (Some k)"
    unfolding k_def by (rule c_strstr_line) (use http_line_ok [OF ok] in \<open>auto simp: line_ok_def\<close>)
  have p: "http_parse_line self (http_line h) = Some (Some (self\<lparr>hm_headers := http_header_of h # hm_headers self\<rparr>))"
    unfolding h by (rule http_parse_line_eq) (use ok in \<open>auto simp: h http_header_ok_def\<close>)
  show ?case
    unfolding m by (subst http_msg_parse_headers.simps) (use Cons in \<open>simp add: sp e k p Let_def del: take_append drop_append\<close>)
qed

lemma http_word_text:
  assumes "http_text w" and "length w < size_bound - 1" and "\<not> c_isgraph c"
  shows "http_word (Some (w @ c # r)) = Some (length w, zstr w)"
proof -
  have "0 \<notin> set w" "\<forall>ch \<in> set w. c_isgraph ch" using assms(1) http_text_plain by (auto simp: http_text_def)
  then show ?thesis
    using assms(2,3) by (simp add: http_word_def xstr_word_len_graph xstrndup_word zstr_def)
qed


subsection \<open>Serialising what is well-formed\<close>

lemma http_emit_eq:
  assumes "length s \<le> estimate" and "estimate < left" and "left < 2 ^ 31"
    and "off + left \<le> length out" and "length out < size_bound"
  shows "\<exists>out'. http_emit estimate s (out, off, left) = Some (Some (out', off + length s, left - length s)) \<and>
    take (off + length s) out' = take off out @ s \<and> length out' = length out"
proof -
  have est: "c_int (int estimate) = int estimate" "c_int (int left) = int left"
    using assms(2,3) by (intro c_int_small; simp)+
  have sz: "size_add off (length s) = off + length s" "size_sub left (length s) = left - length s"
    using assms by simp_all
  let ?out = "take off out @ (s @ [0]) @ drop (Suc (length s)) (drop off out)"
  have "c_snprintf out off left s = Some ?out"
    using assms by (simp add: c_snprintf_def adv_def mem_write_def take_all)
  moreover have "take (off + length s) ?out = take off out @ s" "length ?out = length out"
    using assms by simp_all
  ultimately show ?thesis
    using assms(2) est sz by (simp add: http_emit_def)
qed

lemma c_str_zstr [simp]: "0 \<notin> set s \<Longrightarrow> c_str (s @ 0 # r) = Some s"
  by (simp add: c_str_def)

lemma http_header_line_eq:
  assumes "http_header_ok h"
  shows "http_header_line (http_header_of h) =
    Some (4 + length (http_line h @ HTTP_LINE_END), http_line h @ HTTP_LINE_END)"
proof -
  obtain n v where h: "h = (n, v)" by force
  have "0 \<notin> set n" "0 \<notin> set v"
    using assms http_text_plain by (auto simp: h http_header_ok_def http_name_ok_def http_value_ok_def)
  then show ?thesis
    by (simp add: http_header_line_def h zstr_def http_line_def HTTP_LINE_END_def)
qed

lemma http_emit_headers_eq:
  assumes "\<forall>h \<in> set hs. http_header_ok h" and "length (http_lines hs) + 4 < left" and "left < 2 ^ 31"
    and "off + left \<le> length out" and "length out < size_bound"
  shows "\<exists>out'. http_emit_headers (map http_header_of hs) (out, off, left) =
      Some (Some (out', off + length (http_lines hs), left - length (http_lines hs))) \<and>
    take (off + length (http_lines hs)) out' = take off out @ http_lines hs \<and> length out' = length out"
  using assms
proof (induction hs arbitrary: out off left)
  case Nil
  then show ?case by (simp add: http_lines_def)
next
  case (Cons h hs)
  define l n where "l = http_line h @ HTTP_LINE_END" and "n = length l"
  have all: "http_lines (h # hs) = l @ http_lines hs" by (simp add: http_lines_def l_def)
  have len: "4 + n < left" using Cons.prems(2) by (simp add: all n_def)
  obtain out1 where o1: "http_emit (4 + n) l (out, off, left) = Some (Some (out1, off + n, left - n))"
    "take (off + n) out1 = take off out @ l" "length out1 = length out"
    using http_emit_eq [of l "4 + n" left off out] Cons.prems len by (auto simp: n_def)
  have "length (http_lines hs) + 4 < left - n" "left - n < 2 ^ 31" "off + n + (left - n) \<le> length out1"
    "length out1 < size_bound"
    using Cons.prems o1(3) len by (auto simp: all n_def)
  then obtain out2 where o2: "http_emit_headers (map http_header_of hs) (out1, off + n, left - n) =
      Some (Some (out2, off + n + length (http_lines hs), left - n - length (http_lines hs)))"
    "take (off + n + length (http_lines hs)) out2 = take (off + n) out1 @ http_lines hs"
    "length out2 = length out1"
    using Cons.IH [of "left - n" "off + n" out1] Cons.prems(1) by auto
  have "http_header_line (http_header_of h) = Some (4 + n, l)"
    using http_header_line_eq [of h] Cons.prems(1) by (simp add: l_def n_def)
  then have "http_emit_headers (map http_header_of (h # hs)) (out, off, left) =
      Some (Some (out2, off + n + length (http_lines hs), left - n - length (http_lines hs)))"
    using o1(1) o2(1) by simp
  then show ?case
    using o1(2,3) o2(2,3) by (simp add: all n_def add_ac)
qed

lemma http_emit_end_eq:
  assumes "2 < left" and "left < 2 ^ 31" and "off + left \<le> length out" and "length out < size_bound"
  shows "\<exists>out'. http_emit_end (out, off, left) = Some (Some (out', off + 2, left - 2)) \<and>
    take (off + 2) out' = take off out @ HTTP_LINE_END \<and> length out' = length out"
proof -
  let ?out = "take off out @ HTTP_LINE_END @ drop 2 (drop off out)"
  have "c_int (int left) = int left"
    using assms(1,2) by (intro c_int_small) simp_all
  then have "http_emit_end (out, off, left) = Some (Some (?out, off + 2, left - 2))"
    using assms by (simp add: http_emit_end_def adv_def mem_write_def HTTP_LINE_END_def)
  moreover have "take (off + 2) ?out = take off out @ HTTP_LINE_END" "length ?out = length out"
    using assms by (simp_all add: HTTP_LINE_END_def)
  ultimately show ?thesis by blast
qed

lemma buffer_holds_text: "buffer_holds b xs \<Longrightarrow> bf_alloc b \<noteq> None \<Longrightarrow> buffer_text b = Some xs"
  by (auto simp: buffer_holds_def buffer_text_def buffer_cells_def cells_read_def)

lemma buffer_append_alloc: "buffer_append b xs n = Some b' \<Longrightarrow> 0 < n \<Longrightarrow> bf_alloc b' \<noteq> None"
  by (auto simp: buffer_append_def buffer_store_def rd_bytes_def split: prod.splits if_splits bind_splits)

definition http_body_ok :: "buffer option \<Rightarrow> bytes \<Rightarrow> bool" where
  "http_body_ok bo body \<longleftrightarrow> 0 \<notin> set body \<and>
     (case bo of None \<Rightarrow> body = [] | Some b \<Rightarrow> body \<noteq> [] \<and> buffer_holds b body)"

lemma http_emit_body_eq:
  assumes b: "http_body_ok (hm_body self) body" and "length body + 3 < left" and "left < 2 ^ 31"
    and "off + left \<le> length out" and "length out < size_bound"
  shows "\<exists>out' left' self'. http_emit_body self (out, off, left) = Some (Some (out', off + length body, left'), self') \<and>
    take (off + length body) out' = take off out @ body"
proof (cases "hm_body self")
  case None
  then show ?thesis using b by (simp add: http_emit_body_def http_body_ok_def)
next
  case (Some bf)
  then have h: "buffer_holds bf body" and z: "0 \<notin> set body"
    using b by (auto simp: http_body_ok_def)
  have "length body + 1 < size_bound" using assms by linarith
  from buffer_append_holds [OF h this, of "[0]"] obtain b2
    where b2: "buffer_append bf [0] 1 = Some b2" "buffer_holds b2 (body @ [0])" by auto
  have t: "buffer_text b2 = Some (body @ [0])"
    using b2 buffer_append_alloc [of bf "[0]" 1 b2] by (intro buffer_holds_text) auto
  have l: "bf_length b2 = length body + 1"
    using b2(2) by (auto simp: buffer_holds_def)
  obtain out' where "http_emit (2 + bf_length b2) body (out, off, left) =
      Some (Some (out', off + length body, left - length body))"
    "take (off + length body) out' = take off out @ body"
    using http_emit_eq [of body "2 + bf_length b2" left off out] assms l by auto
  then show ?thesis
    using Some b2(1) t z by (simp add: http_emit_body_def)
qed


lemma http_msg_serialize_eq:
  assumes f: "http_first_line self = Some (estimate, l)" "length l \<le> estimate" "estimate \<le> length l + 8"
    and hs: "hm_headers self = map http_header_of hs" "\<forall>h \<in> set hs. http_header_ok h"
    and b: "http_body_ok (hm_body self) body"
    and t: "t = l @ http_lines hs @ HTTP_LINE_END @ body"
    and cap: "length t + 8 < cap" "cap < 2 ^ 31" "cap \<le> length out" "length out < size_bound"
  shows "\<exists>out' self'. http_msg_serialize self out cap = Some (int (length t), Some out', self') \<and>
    take (length t) out' = t"
proof -
  define a e c where "a = length l" and "e = length (http_lines hs)" and "c = cap - a - e"
  have e2: "length HTTP_LINE_END = 2" by (simp add: HTTP_LINE_END_def)
  have tl: "length t = a + e + 2 + length body" by (simp add: t a_def e_def e2)
  obtain o1 where o1: "http_emit estimate l (out, 0, cap) = Some (Some (o1, a, cap - a))"
    "take a o1 = l" "length o1 = length out"
    using http_emit_eq [of l estimate cap 0 out] f cap by (auto simp: a_def t)
  have "e + 4 < cap - a" "cap - a < 2 ^ 31" "a + (cap - a) \<le> length o1" "length o1 < size_bound"
    using cap o1(3) tl by auto
  then obtain o2 where o2: "http_emit_headers (map http_header_of hs) (o1, a, cap - a) = Some (Some (o2, a + e, c))"
    "take (a + e) o2 = l @ http_lines hs" "length o2 = length out"
    using http_emit_headers_eq [OF hs(2), of "cap - a" a o1] o1(2,3) by (auto simp: e_def c_def)
  have c2: "2 < c" "c < 2 ^ 31" "a + e + c \<le> length o2" "length o2 < size_bound"
    using cap o2(3) tl by (auto simp: c_def)
  then obtain o3 where o3: "http_emit_end (o2, a + e, c) = Some (Some (o3, a + e + 2, c - 2))"
    "take (a + e + 2) o3 = l @ http_lines hs @ HTTP_LINE_END" "length o3 = length out"
    using http_emit_end_eq [OF c2] o2(2,3) by auto
  have "length body + 3 < c - 2" "c - 2 < 2 ^ 31" "a + e + 2 + (c - 2) \<le> length o3" "length o3 < size_bound"
    using cap o3(3) tl by (auto simp: c_def)
  from http_emit_body_eq [OF b this] obtain o4 left' self'
    where o4: "http_emit_body self (o3, a + e + 2, c - 2) = Some (Some (o4, length t, left'), self')"
      "take (length t) o4 = take (a + e + 2) o3 @ body"
    unfolding tl by blast
  have "c_int (int (length t)) = int (length t)"
    using cap by (intro c_int_small) auto
  then have "http_msg_serialize self out cap = Some (int (length t), Some o4, self')"
    using o1(1) o2(1) o3(1) o4(1) by (simp add: http_msg_serialize_def f(1) hs(1))
  moreover have "take (length t) o4 = t"
    unfolding o4(2) o3(2) by (simp add: t)
  ultimately show ?thesis by blast
qed

lemma http_parse_rest_eq:
  assumes hs: "\<forall>h \<in> set hs. http_header_ok h" and z: "0 \<notin> set body" "length body < size_bound"
    and view: "hv_headers view = http_lines hs @ HTTP_LINE_END @ body @ 0 # r" "hv_body view = body @ 0 # r"
    and self: "hm_body self = None"
  shows "\<exists>bo. http_parse_rest self view = Some (1, self\<lparr>hm_headers := rev (map http_header_of hs) @ hm_headers self,
      hm_body := bo\<rparr>) \<and> http_body_ok bo body"
proof (cases "body = []")
  case True
  have "http_parse_rest self view = Some (1, self\<lparr>hm_headers := rev (map http_header_of hs) @ hm_headers self\<rparr>)"
    using z by (simp add: http_parse_rest_def view http_msg_parse_headers_eq [OF hs] True)
  then show ?thesis
    using True self by (intro exI [of _ None]) (simp add: http_body_ok_def)
next
  case False
  have "buffer_holds buffer_new []"
    unfolding buffer_new_def buffer_create_def
    by (rule buffer_holds_init) (simp add: BUFFER_INITIAL_SIZE_def size_bound_def)
  from buffer_append_holds [OF this, of "length body" "body @ 0 # r"] obtain b
    where b: "buffer_append buffer_new (body @ 0 # r) (length body) = Some b" "buffer_holds b body"
    using z by auto
  have "http_parse_rest self view = Some (1, self\<lparr>hm_headers := rev (map http_header_of hs) @ hm_headers self, hm_body := Some b\<rparr>)"
    using z b self False
    by (simp add: http_parse_rest_def view http_msg_parse_headers_eq [OF hs] http_msg_append_body_def Let_def)
  then show ?thesis
    using z b False by (intro exI [of _ "Some b"]) (simp add: http_body_ok_def)
qed

text \<open>C38. HTTP requests, there and back: a request whose method, URI and version are words and whose headers and body are well-formed is serialised to the line METHOD URI VERSION, one line per header, an empty line and the body, provided the buffer has room for eight bytes more than the text; parsing this text gives back the method, the URI, the version and the body, and the headers in reverse order.\<close>

theorem http_request_roundtrip:
  assumes req: "hm_method self = Some (zstr m)" "hm_uri self = Some (zstr u)" "hm_version self = Some (zstr v)"
    and ok: "http_text m" "http_text u" "http_text v"
    and hs: "hm_headers self = map http_header_of hs" "\<forall>h \<in> set hs. http_header_ok h"
    and b: "http_body_ok (hm_body self) body"
    and t: "t = m @ c_space # u @ c_space # v @ HTTP_LINE_END @ http_lines hs @ HTTP_LINE_END @ body"
    and cap: "length t + 8 < cap" "cap < 2 ^ 31" "cap \<le> length out" "length out < size_bound"
  shows "\<exists>out' self'. http_msg_serialize self out cap = Some (int (length t), Some out', self') \<and>
    take (length t) out' = t \<and>
    (\<exists>msg. http_msg_parse_request http_msg_init (take (length t) out' @ 0 # r) = Some (1, msg) \<and>
      hm_method msg = hm_method self \<and> hm_uri msg = hm_uri self \<and> hm_version msg = hm_version self \<and>
      hm_headers msg = rev (hm_headers self) \<and> http_body_ok (hm_body msg) body)"
proof -
  let ?l = "m @ [c_space] @ u @ [c_space] @ v @ HTTP_LINE_END"
  have z: "0 \<notin> set m" "0 \<notin> set u" "0 \<notin> set v" "0 \<notin> set body"
    using ok http_text_plain b by (auto simp: http_body_ok_def)
  have "http_first_line self = Some (10 + length m + length u + length v, ?l)"
    using z by (simp add: http_first_line_def req zstr_def)
  from http_msg_serialize_eq [OF this _ _ hs b _ cap] obtain out' self'
    where ser: "http_msg_serialize self out cap = Some (int (length t), Some out', self')" "take (length t) out' = t"
    by (auto simp: t HTTP_LINE_END_def)
  have lens: "length m < size_bound - 1" "length u < size_bound - 1" "length v < size_bound - 1" "length body < size_bound"
    using cap by (auto simp: t)
  let ?p3 = "v @ HTTP_LINE_END @ http_lines hs @ HTTP_LINE_END @ body @ 0 # r"
  have lines: "http_lines hs = crlf_lines (map http_line hs)"
    by (simp add: http_lines_def crlf_lines_def comp_def)
  have view: "http_view_parse (t @ 0 # r) = Some (Some (m @ c_space # u @ c_space # ?p3, Some (u @ c_space # ?p3), Some ?p3,
      http_lines hs @ HTTP_LINE_END @ body @ 0 # r, body @ 0 # r))"
    using http_view_parse_eq [OF ok(1,2), of v "map http_line hs" "t @ 0 # r" "body @ 0 # r"]
      http_text_plain [OF ok(3)] ok(3) hs(2) http_line_ok
    by (auto simp: t lines http_text_def)
  let ?s = "http_msg_init\<lparr>hm_method := Some (zstr m), hm_uri := Some (zstr u), hm_version := Some (zstr v)\<rparr>"
  let ?view = "\<lparr>hv_method = Some (m @ c_space # u @ c_space # ?p3), hv_uri = Some (u @ c_space # ?p3), hv_version = Some ?p3,
    hv_status = None, hv_reason = None, hv_headers = http_lines hs @ HTTP_LINE_END @ body @ 0 # r, hv_body = body @ 0 # r\<rparr>"
  obtain bo where bo: "http_parse_rest ?s ?view = Some (1, ?s\<lparr>hm_headers := rev (map http_header_of hs) @ hm_headers ?s, hm_body := bo\<rparr>)"
    "http_body_ok bo body"
    using http_parse_rest_eq [OF hs(2) z(4) lens(4), of ?view r ?s] by (auto simp: http_msg_init_def)
  have w: "http_word (Some (m @ c_space # u @ c_space # ?p3)) = Some (length m, zstr m)"
    "http_word (Some (u @ c_space # ?p3)) = Some (length u, zstr u)" "http_word (Some ?p3) = Some (length v, zstr v)"
    using ok lens http_word_text [OF ok(3) lens(3), of c_cr]
    by (simp_all add: http_word_text HTTP_LINE_END_def)
  have ne: "m \<noteq> []" "u \<noteq> []" "v \<noteq> []" using ok by (auto simp: http_text_def)
  have "http_msg_parse_request http_msg_init (t @ 0 # r) =
      Some (1, ?s\<lparr>hm_headers := rev (map http_header_of hs) @ hm_headers ?s, hm_body := bo\<rparr>)"
    using bo(1) ne by (simp add: http_msg_parse_request_def http_msg_view_parse_request_def view w Let_def)
  then show ?thesis
    using ser bo(2) by (simp add: req hs(1) rev_map http_msg_init_def)
qed


subsection \<open>Finding a header\<close>

definition ci_prefix :: "bytes \<Rightarrow> bytes \<Rightarrow> bool" where
  "ci_prefix p n \<longleftrightarrow> length p \<le> length n \<and> map c_tolower (take (length p) n) = map c_tolower p"

text \<open>What the code finds: the first line that starts with the name, if that is the whole name.\<close>

fun http_find :: "bytes \<Rightarrow> (bytes \<times> bytes) list \<Rightarrow> (bytes \<times> bytes) list" where
  "http_find name [] = []"
| "http_find name (h # hs) =
     (if ci_prefix name (fst h) then if length (fst h) = length name then h # hs else [] else http_find name hs)"

lemma c_tolower_colon: "c_tolower c = c_colon \<longleftrightarrow> c = c_colon"
proof -
  have "c + 0x20 \<noteq> c_colon" if "0x41 \<le> c"
  proof
    assume "c + 0x20 = c_colon"
    then have "c = c_colon - 0x20" by (metis add_diff_cancel_right')
    with that show False by simp
  qed
  then show ?thesis by (auto simp: c_tolower_def)
qed

lemma c_tolower_0: "c_tolower c = 0 \<longleftrightarrow> c = 0"
proof -
  have "c + 0x20 \<noteq> 0" if "c \<le> 0x5A"
  proof
    assume "c + 0x20 = 0"
    then have "c = - 0x20" by (metis add_eq_0_iff2)
    with that show False by simp
  qed
  then show ?thesis by (auto simp: c_tolower_def)
qed

lemma c_tolower_58: "c_tolower c_colon = c_colon"
  by (simp add: c_tolower_def)

lemma c_strneq_ci:
  assumes "c_colon \<notin> set p" and "0 \<notin> set p" and "0 \<notin> set n"
  shows "c_strneq c_tolower (n @ c_colon # m) (p @ s) (length p) = Some (ci_prefix p n)"
  using assms
proof (induction p arbitrary: n)
  case (Cons x p)
  then show ?case
    by (cases n) (auto simp: ci_prefix_def dest: arg_cong [where f = c_tolower] simp: c_tolower_colon
        c_tolower_58 eq_commute [of c_colon] c_tolower_0)
qed (simp add: ci_prefix_def)


lemma http_find_at_line:
  assumes n: "http_name_ok n" and v: "c_isgraph (hd v)" "v \<noteq> []" and p: "ci_prefix p n"
    and len: "length p < length n \<or> length p = length n"
  shows "(do { colon \<leftarrow> adv (n @ c_colon # c_space # v @ m) (length p);
       sp \<leftarrow> xstr_space_len colon (Some HTTP_WHITESPACE_CHARS);
       colon \<leftarrow> adv colon sp;
       c \<leftarrow> rd colon 0;
       if c \<noteq> c_colon then Some None
       else do {
         val \<leftarrow> adv colon 1;
         sp \<leftarrow> xstr_space_len val (Some HTTP_WHITESPACE_CHARS);
         val \<leftarrow> adv val sp;
         Some (Some (n @ c_colon # c_space # v @ m, val))
       } }) = Some (if length n = length p then Some (n @ c_colon # c_space # v @ m, v @ m) else None)"
proof (cases "length n = length p")
  case True
  then have a: "adv (n @ c_colon # c_space # v @ m) (length p) = Some (c_colon # c_space # v @ m)"
    using adv_append [of n] by simp
  obtain y u where y: "v = y # u" "c_isgraph y" using v by (cases v) auto
  have "xstr_space_len (c_space # v @ m) (Some HTTP_WHITESPACE_CHARS) = Some 1"
    using space_len_graph [of y "u @ m"] y(2)
    by (simp add: xstr_space_len_def y(1) HTTP_WHITESPACE_CHARS_def)
  then show ?thesis
    by (simp add: a True space_len_graph adv_def c_isgraph_def)
next
  case False
  then have "length p < length n" using len by simp
  then obtain a c b where ab: "n = a @ c # b" "length a = length p"
    by (metis id_take_nth_drop length_take min.absorb4)
  have c: "c_isgraph c" "c \<noteq> c_colon"
    using n by (auto simp: ab(1) http_name_ok_def http_text_def)
  have "adv (n @ c_colon # c_space # v @ m) (length p) = Some (c # b @ c_colon # c_space # v @ m)"
    using adv_append [of a "c # b @ c_colon # c_space # v @ m"] by (simp add: ab)
  then show ?thesis
    using c False by (simp add: space_len_graph)
qed

text \<open>C39. Looking up a header in the text of a message: the code returns the first line whose beginning is the wanted name, compared without regard to case, and the value behind the colon and blanks, with everything that follows; it reports that there is none when no line starts with the name, but also when the first such line has a longer name, although the wanted header may follow.\<close>

theorem http_header_find_eq:
  assumes hs: "\<forall>h \<in> set hs. http_header_ok h" and p: "c_colon \<notin> set p" "0 \<notin> set p"
  shows "http_header_find (http_lines hs @ HTTP_LINE_END @ m) (p @ 0 # q) = Some (case http_find p hs of
      [] \<Rightarrow> None
    | h # hs' \<Rightarrow> Some (http_lines (h # hs') @ HTTP_LINE_END @ m, snd h @ HTTP_LINE_END @ http_lines hs' @ HTTP_LINE_END @ m))"
  using hs
proof (induction hs)
  case Nil
  show ?case
    by (subst http_header_find.simps)
       (simp add: http_lines_def HTTP_LINE_END_def space_len_graph)
next
  case (Cons h hs)
  obtain n v where h: "h = (n, v)" by force
  have ok: "http_header_ok h" using Cons.prems by simp
  have nv: "http_name_ok n" "c_isgraph (hd v)" "v \<noteq> []" "0 \<notin> set n"
    using ok http_text_plain by (auto simp: h http_header_ok_def http_value_ok_def http_name_ok_def)
  let ?rest = "http_lines hs @ HTTP_LINE_END @ m"
  define l where "l = n @ c_colon # c_space # v @ HTTP_LINE_END @ ?rest"
  have m: "http_lines (h # hs) @ HTTP_LINE_END @ m = l"
    by (simp add: http_lines_def http_line_def h l_def)
  have l2: "l = http_line h @ HTTP_LINE_END @ ?rest"
    by (simp add: l_def http_line_def h)
  define k where "k = length (http_line h)"
  obtain x l' where x: "http_line h = x # l'" "c_isgraph x"
    using http_line_ok [OF ok] by (cases "http_line h") (auto simp: line_ok_def)
  have k: "k \<noteq> 0" "drop (k + length HTTP_LINE_END) l = ?rest"
    using x by (simp_all add: k_def l2)
  have sp: "xstr_space_len l (Some HTTP_WHITESPACE_CHARS) = Some 0"
    using space_len_graph x by (simp add: l2)
  have e: "c_strstr l HTTP_LINE_END = Some (Some k)"
    unfolding k_def l2 by (rule c_strstr_line) (use http_line_ok [OF ok] in \<open>auto simp: line_ok_def\<close>)
  have cmp: "c_strncasecmp_eq l (p @ 0 # q) (length p) = Some (ci_prefix p n)"
    unfolding c_strncasecmp_eq_def l_def using c_strneq_ci p nv(4) by simp
  show ?case
  proof (cases "ci_prefix p n")
    case True
    then have "length p < length n \<or> length p = length n" by (auto simp: ci_prefix_def)
    from http_find_at_line [OF nv(1-3) True this, of "HTTP_LINE_END @ ?rest", folded l_def] True show ?thesis
      unfolding m by (subst http_header_find.simps) (simp add: sp e k(1) cmp p Let_def h m [unfolded h])
  next
    case False
    then show ?thesis
      unfolding m using Cons by (subst http_header_find.simps) (simp add: sp e k cmp p Let_def h del: drop_append)
  qed
qed

theorem http_header_find_eq_witness:
  "http_header_find (http_lines [(ascii ''Via'', ascii ''p''), (ascii ''Host'', ascii ''a.b'')] @ HTTP_LINE_END @ [0]) (ascii ''hOST'' @ 0 # []) =
    Some (Some (http_lines [(ascii ''Host'', ascii ''a.b'')] @ HTTP_LINE_END @ [0], ascii ''a.b'' @ HTTP_LINE_END @ http_lines [] @ HTTP_LINE_END @ [0])) \<and>
   http_header_find (http_lines [(ascii ''Hostname'', ascii ''p''), (ascii ''Host'', ascii ''a.b'')] @ HTTP_LINE_END @ [0]) (ascii ''Host'' @ 0 # []) =
    Some None"
  using http_header_find_eq [of "[(ascii ''Via'', ascii ''p''), (ascii ''Host'', ascii ''a.b'')]" "ascii ''hOST''" "[0]" "[]"]
    http_header_find_eq [of "[(ascii ''Hostname'', ascii ''p''), (ascii ''Host'', ascii ''a.b'')]" "ascii ''Host''" "[0]" "[]"]
  by (simp add: ascii_def http_header_ok_def http_name_ok_def http_value_ok_def http_text_def c_isgraph_def
      ci_prefix_def c_tolower_def size_bound_def)

theorem http_request_roundtrip_witness:
  "\<exists>out' self'. http_msg_serialize (http_msg_init\<lparr>hm_method := Some (zstr (ascii ''GET'')), hm_uri := Some (zstr (ascii ''/'')),
      hm_version := Some (zstr (ascii ''HTTP/1.1'')), hm_headers := map http_header_of [(ascii ''Host'', ascii ''a'')]\<rparr>)
      (replicate 60 0) 60 = Some (int 27, Some out', self')"
proof -
  let ?self = "http_msg_init\<lparr>hm_method := Some (zstr (ascii ''GET'')), hm_uri := Some (zstr (ascii ''/'')),
      hm_version := Some (zstr (ascii ''HTTP/1.1'')), hm_headers := map http_header_of [(ascii ''Host'', ascii ''a'')]\<rparr>"
  let ?t = "ascii ''GET'' @ c_space # ascii ''/'' @ c_space # ascii ''HTTP/1.1'' @ HTTP_LINE_END @
      http_lines [(ascii ''Host'', ascii ''a'')] @ HTTP_LINE_END @ []"
  have "\<exists>out' self'. http_msg_serialize ?self (replicate 60 0) 60 = Some (int (length ?t), Some out', self') \<and>
    take (length ?t) out' = ?t \<and>
    (\<exists>msg. http_msg_parse_request http_msg_init (take (length ?t) out' @ 0 # []) = Some (1, msg) \<and>
      hm_method msg = hm_method ?self \<and> hm_uri msg = hm_uri ?self \<and> hm_version msg = hm_version ?self \<and>
      hm_headers msg = rev (hm_headers ?self) \<and> http_body_ok (hm_body msg) [])"
    by (rule http_request_roundtrip [of ?self "ascii ''GET''" "ascii ''/''" "ascii ''HTTP/1.1''"
          "[(ascii ''Host'', ascii ''a'')]" "[]" ?t 60 "replicate 60 0"])
       (simp_all add: ascii_def http_header_ok_def http_name_ok_def http_value_ok_def http_text_def c_isgraph_def
          http_body_ok_def http_msg_init_def http_lines_def http_line_def HTTP_LINE_END_def size_bound_def)
  moreover have "length ?t = 27"
    by (simp add: ascii_def http_lines_def http_line_def HTTP_LINE_END_def)
  ultimately show ?thesis by metis
qed


subsection \<open>Responses\<close>

lemma c_digit_of: "d < 10 \<Longrightarrow> c_digit (of_nat (48 + d)) = Some d"
proof -
  assume d: "d < 10"
  have u: "unat (of_nat (48 + d) :: byte) = 48 + d"
    using d by (simp only: unat_of_nat) simp
  then have "0x30 \<le> (of_nat (48 + d) :: byte)" "(of_nat (48 + d) :: byte) \<le> 0x39"
    using d by (simp_all add: word_le_nat_alt)
  then show ?thesis
    using u by (simp add: c_digit_def)
qed

lemma c_digits_decimal:
  "c_digits 10 (c_decimal n @ rest) v k =
   c_digits 10 rest (v * 10 ^ length (c_decimal n) + int n) (k + length (c_decimal n))"
proof (induction n arbitrary: rest v k rule: c_decimal.induct)
  case (1 n)
  show ?case
  proof (cases "n < 10")
    case True
    then show ?thesis
      using c_digit_of [OF True] by (subst (1 2 3) c_decimal.simps) simp
  next
    case False
    have d: "c_digit (of_nat (48 + n mod 10)) = Some (n mod 10)"
      by (rule c_digit_of) simp
    have "int n = 10 * int (n div 10) + int (n mod 10)"
      by presburger
    then have "(v * 10 ^ length (c_decimal (n div 10)) + int (n div 10)) * 10 + int (n mod 10) =
        v * (10 * 10 ^ length (c_decimal (n div 10))) + int n"
      by (simp add: algebra_simps)
    then show ?thesis
      using 1 False d by (subst (1 2 3) c_decimal.simps) (simp del: distrib_right_numeral distrib_right)
  qed
qed

lemma c_decimal_hd: "\<exists>d m. c_decimal n = of_nat (48 + d) # m \<and> d < 10 \<and> (0 < n \<longrightarrow> 0 < d)"
proof (induction n rule: c_decimal.induct)
  case (1 n)
  show ?case
  proof (cases "n < 10")
    case True
    then show ?thesis by (subst c_decimal.simps) auto
  next
    case False
    with 1 have "0 < n div 10" by auto
    then show ?thesis using 1 False by (subst c_decimal.simps) auto
  qed
qed

lemma c_decimal_length: "n < 1000 \<Longrightarrow> length (c_decimal n) \<le> 3"
  by (subst c_decimal.simps, subst c_decimal.simps, subst c_decimal.simps) auto

lemma byte_digit:
  fixes c :: byte
  assumes "c = of_nat (48 + d)" and "d < 10"
  shows "c_isgraph c \<and> \<not> c_isspace c \<and> c \<noteq> 0x2D \<and> c \<noteq> 0x2B \<and> c \<noteq> 0 \<and> (c = 0x30 \<longrightarrow> d = 0)"
proof -
  have "unat c = 48 + d"
    unfolding assms(1) using assms(2) by (simp only: unat_of_nat) simp
  then show ?thesis
    using assms(2) by (auto simp: c_isgraph_def c_isspace_def word_le_nat_alt)
qed

lemma c_decimal_graph: "http_text (c_decimal n)"
proof (induction n rule: c_decimal.induct)
  case (1 n)
  have "c_isgraph (of_nat (48 + n mod 10) :: byte)"
    using byte_digit [OF refl, of "n mod 10"] by simp
  moreover have "n < 10 \<Longrightarrow> c_isgraph (of_nat (48 + n) :: byte)"
    using byte_digit [OF refl, of n] by simp
  ultimately show ?case
    using 1 by (subst c_decimal.simps) (auto simp: http_text_def)
qed

lemma xstrtol_decimal:
  assumes "n < 2 ^ 63"
  shows "xstrtol (c_decimal n @ [0]) 10 = Some (Some (int n))"
proof -
  obtain d m where d: "c_decimal n = of_nat (48 + d) # m" "d < 10" "0 < n \<longrightarrow> 0 < d"
    using c_decimal_hd by blast
  define c where "c = (of_nat (48 + d) :: byte)"
  note c = byte_digit [OF c_def d(2)]
  have m: "c = 0x30 \<Longrightarrow> m = []"
    using c d(1,3) by (auto simp: c_decimal.simps [of 0])
  have "\<exists>h. c_hex_prefix (c # m @ [0]) = Some h"
    using m by (auto simp: c_hex_prefix_def c_tolower_def)
  then obtain h where h: "c_hex_prefix (c # m @ [0]) = Some h" ..
  have dig: "c_digits 10 (c # m @ [0]) 0 0 = Some (int n, Suc (length m))"
    using c_digits_decimal [of n "[0]" 0 0] d(1) by (simp add: c_def c_digit_def)
  have long: "c_long (int n) = int n"
    using assms by (simp add: c_long_def)
  have "c_strtol (c # m @ [0]) 10 = Some (int n, Suc (length m))"
    using c long by (simp add: c_strtol_def h dig Let_def del: c_digits.simps)
  moreover have "c_decimal n = c # m"
    by (simp only: d(1) c_def)
  ultimately show ?thesis
    by (simp add: xstrtol_def nth_append)
qed


lemma first_word:
  assumes "line_ok w" and "c_isgraph (hd w)"
  obtains c u where "http_text (takeWhile c_isgraph w)" and "\<not> c_isgraph c" and
    "w @ HTTP_LINE_END = takeWhile c_isgraph w @ c # u"
proof -
  have t: "http_text (takeWhile c_isgraph w)"
    using assms by (cases w) (auto simp: http_text_def line_ok_def dest: set_takeWhileD)
  show ?thesis
  proof (cases "dropWhile c_isgraph w")
    case Nil
    then have "takeWhile c_isgraph w = w" by (metis append_Nil2 takeWhile_dropWhile_id)
    with t show ?thesis using that [of c_cr "[0x0A]"] by (simp add: HTTP_LINE_END_def del: takeWhile_eq_all_conv)
  next
    case (Cons c u)
    then have "\<not> c_isgraph c" by (metis hd_dropWhile list.discI list.sel(1))
    then show ?thesis
      using that [OF t, of c "u @ HTTP_LINE_END"] Cons by (metis append.assoc append_Cons takeWhile_dropWhile_id)
  qed
qed

lemma http_text_append: "c_isgraph c \<Longrightarrow> http_text w \<Longrightarrow> http_text (c # w)"
  by (simp add: http_text_def)

text \<open>HTTP responses, there and back: a response with a status of at most three digits is serialised to the line VERSION STATUS REASON with the status in decimal, one line per header, an empty line and the body; parsing this text gives back the version, the status and the body, the headers in reverse order, and the first word of the reason only: the rest of a reason phrase is lost.\<close>

lemma http_response_roundtrip:
  assumes resp: "hm_method self = None" "hm_version self = Some (zstr v)" "hm_reason self = Some (zstr w)"
      "unat (hm_status self) < 1000"
    and ok: "http_text v" "line_ok w" "c_isgraph (hd w)"
    and hs: "hm_headers self = map http_header_of hs" "\<forall>h \<in> set hs. http_header_ok h"
    and b: "http_body_ok (hm_body self) body"
    and t: "t = v @ c_space # c_decimal (unat (hm_status self)) @ c_space # w @ HTTP_LINE_END @ http_lines hs @ HTTP_LINE_END @ body"
    and cap: "length t + 8 < cap" "cap < 2 ^ 31" "cap \<le> length out" "length out < size_bound"
  shows "\<exists>out' self'. http_msg_serialize self out cap = Some (int (length t), Some out', self') \<and>
    take (length t) out' = t \<and>
    (\<exists>msg. http_msg_parse_response http_msg_init (take (length t) out' @ 0 # r) = Some (1, msg) \<and>
      hm_version msg = hm_version self \<and> hm_status msg = hm_status self \<and>
      hm_reason msg = Some (zstr (takeWhile c_isgraph w)) \<and>
      hm_headers msg = rev (hm_headers self) \<and> http_body_ok (hm_body msg) body)"
proof -
  define s where "s = c_decimal (unat (hm_status self))"
  have s: "http_text s" "length s \<le> 3" and s2: "xstrtol (zstr s) 10 = Some (Some (int (unat (hm_status self))))"
    using c_decimal_graph c_decimal_length [OF resp(4)] xstrtol_decimal resp(4) by (simp_all add: s_def zstr_def)
  let ?l = "v @ [c_space] @ s @ [c_space] @ w @ HTTP_LINE_END"
  have z: "0 \<notin> set v" "0 \<notin> set w" "0 \<notin> set body"
    using ok http_text_plain b by (auto simp: http_body_ok_def line_ok_def)
  have t': "t = v @ c_space # s @ c_space # w @ HTTP_LINE_END @ http_lines hs @ HTTP_LINE_END @ body"
    by (simp add: t s_def)
  have "http_first_line self = Some (10 + length v + 3 + length w, ?l)"
    using z by (simp add: http_first_line_def resp zstr_def s_def)
  from http_msg_serialize_eq [OF this _ _ hs b _ cap] obtain out' self'
    where ser: "http_msg_serialize self out cap = Some (int (length t), Some out', self')" "take (length t) out' = t"
    using s(2) s(1) by (cases s) (auto simp: t' HTTP_LINE_END_def http_text_def)
  obtain c x where x: "http_text (takeWhile c_isgraph w)" "\<not> c_isgraph c" "w @ HTTP_LINE_END = takeWhile c_isgraph w @ c # x"
    using first_word [OF ok(2,3)] by blast
  define f where "f = takeWhile c_isgraph w"
  have "length f \<le> length w" by (simp add: f_def length_takeWhile_le)
  then have lens: "length v < size_bound - 1" "length s < size_bound - 1" "length f < size_bound - 1" "length body < size_bound"
    using cap by (auto simp: t')
  let ?p3 = "w @ HTTP_LINE_END @ http_lines hs @ HTTP_LINE_END @ body @ 0 # r"
  have lines: "http_lines hs = crlf_lines (map http_line hs)"
    by (simp add: http_lines_def crlf_lines_def comp_def)
  have view: "http_view_parse (t @ 0 # r) = Some (Some (v @ c_space # s @ c_space # ?p3, Some (s @ c_space # ?p3), Some ?p3,
      http_lines hs @ HTTP_LINE_END @ body @ 0 # r, body @ 0 # r))"
    using http_view_parse_eq [OF ok(1) s(1) ok(2,3), of "map http_line hs" "t @ 0 # r" "body @ 0 # r"] hs(2) http_line_ok
    by (auto simp: t' lines)
  let ?s = "http_msg_init\<lparr>hm_version := Some (zstr v), hm_status := hm_status self, hm_reason := Some (zstr f)\<rparr>"
  let ?view = "\<lparr>hv_method = None, hv_uri = None, hv_version = Some (v @ c_space # s @ c_space # ?p3),
    hv_status = Some (s @ c_space # ?p3), hv_reason = Some ?p3, hv_headers = http_lines hs @ HTTP_LINE_END @ body @ 0 # r, hv_body = body @ 0 # r\<rparr>"
  obtain bo where bo: "http_parse_rest ?s ?view = Some (1, ?s\<lparr>hm_headers := rev (map http_header_of hs) @ hm_headers ?s, hm_body := bo\<rparr>)"
    "http_body_ok bo body"
    using http_parse_rest_eq [OF hs(2) z(3) lens(4), of ?view r ?s] by (auto simp: http_msg_init_def)
  have p3: "?p3 = f @ c # x @ http_lines hs @ HTTP_LINE_END @ body @ 0 # r"
    using x(3) by (metis append.assoc append_Cons f_def)
  have w: "http_word (Some (v @ c_space # s @ c_space # ?p3)) = Some (length v, zstr v)"
    "http_word (Some (s @ c_space # ?p3)) = Some (length s, zstr s)" "http_word (Some ?p3) = Some (length f, zstr f)"
    using ok(1) s(1) x(1,2) lens by (simp_all only: p3 http_word_text f_def not_graph not_False_eq_True)
  have ne: "v \<noteq> []" "s \<noteq> []" "f \<noteq> []" using ok(1) s(1) x(1) by (auto simp: http_text_def f_def)
  have "http_msg_parse_response http_msg_init (t @ 0 # r) =
      Some (1, ?s\<lparr>hm_headers := rev (map http_header_of hs) @ hm_headers ?s, hm_body := bo\<rparr>)"
    using bo(1) ne by (simp add: http_msg_parse_response_def http_msg_view_parse_response_def view w s2 Let_def)
  then show ?thesis
    using ser bo(2) by (simp add: resp hs(1) rev_map http_msg_init_def f_def)
qed

text \<open>A header without a value, or one whose name is empty, is read and written outside its copy.\<close>

lemma http_parse_line_no_value:
  assumes "http_name_ok n" and "length n < size_bound"
  shows "http_parse_line self (n @ [c_colon]) = None"
proof -
  have n: "n \<noteq> []" "0 \<notin> set n" "c_isgraph (last n)" "c_colon \<notin> set n"
    using assms(1) by (auto simp: http_name_ok_def http_text_def dest: isgraph_plain)
  define k where "k = length n"
  have c: "c_strchr (n @ c_colon # [0]) c_colon = Some (Some k)"
    unfolding k_def by (rule c_strchr_found) (use n in auto)
  have up: "(n @ c_colon # [0])[k := 0] = n @ 0 # [0]" and dr: "drop (Suc k) (n @ 0 # [0]) = [0]"
    by (simp_all add: k_def list_update_append)
  have "xstrrtrim (n @ 0 # [0]) = Some (n @ 0 # [0])"
    by (rule xstrrtrim_graph [OF n(1-3) assms(2)])
  moreover have "xstrrtrim [0] = None"
    by (rule xstrrtrim_empty) (simp add: size_bound_def)
  ultimately show ?thesis
    by (simp add: http_parse_line_def Let_def c up dr del: drop_append)
qed

end
