(* ===== verification/Stream_Ws.thy ===== *)
theory Stream_Ws
  imports Streams Websocket Http Base64 Sha1
begin

section \<open>WebSocket streams (source/stream_ws.c, ws_calculate_accept_key of source/websocket.c)\<close>

text \<open>
  The WebSocket session on top of any stream: the HTTP upgrade, then frames. Received messages
  wait as slices in the cache. A buffer is its contents (theory \<open>Buffer\<close>); the handshake reads
  it as a string although nothing terminates it, so reading behind the data is undefined here:
  the bytes there were never written. Local arrays that the code leaves uninitialised are zeros;
  nothing is read from them before it is written.
\<close>

definition WS_KEY_BUFFER_SIZE :: nat where "WS_KEY_BUFFER_SIZE = 128"
definition WS_MESSAGE_BUFFER_SIZE :: nat where "WS_MESSAGE_BUFFER_SIZE = 4096"
definition WS_KEEP_ALIVE_SERVER_TIMEOUT :: nat where "WS_KEEP_ALIVE_SERVER_TIMEOUT = 100"
definition WS_KEEP_ALIVE_CLIENT_TIMEOUT :: nat where "WS_KEEP_ALIVE_CLIENT_TIMEOUT = 90"

abbreviation (input) WS_OPCODE_CONTINUE :: byte where "WS_OPCODE_CONTINUE \<equiv> 0"
abbreviation (input) WS_OPCODE_TEXT :: byte where "WS_OPCODE_TEXT \<equiv> 1"
abbreviation (input) WS_OPCODE_BINARY :: byte where "WS_OPCODE_BINARY \<equiv> 2"
abbreviation (input) WS_OPCODE_CLOSE :: byte where "WS_OPCODE_CLOSE \<equiv> 8"
abbreviation (input) WS_OPCODE_PING :: byte where "WS_OPCODE_PING \<equiv> 9"
abbreviation (input) WS_OPCODE_PONG :: byte where "WS_OPCODE_PONG \<equiv> 10"
abbreviation (input) WS_CLOSE_PROTOCOL_ERROR :: u16 where "WS_CLOSE_PROTOCOL_ERROR \<equiv> 1002"

subsection \<open>The accept key\<close>

definition WS_GUID :: bytes where
  "WS_GUID = ascii ''258EAFA5-E914-47DA-95CA-C5AB0DC85B11''"

definition sha1_local :: SHA1_CTX where
  "sha1_local = \<lparr>sx_state = (0, 0, 0, 0, 0), sx_count0 = 0, sx_count1 = 0, sx_buffer = replicate 64 0\<rparr>"

definition SHA1_HASH_SIZE :: nat where "SHA1_HASH_SIZE = 20"

definition ws_calculate_accept_key :: "bytes \<Rightarrow> nat \<Rightarrow> bytes \<Rightarrow> nat \<Rightarrow> (bool \<times> bytes) option" where
  "ws_calculate_accept_key reqkey reqkey_len buffer len = do {
     n \<leftarrow> c_memchr reqkey 0 reqkey_len;
     key \<leftarrow> rd_bytes reqkey (case n of Some n \<Rightarrow> n | None \<Rightarrow> reqkey_len);
     let keyguid = key @ WS_GUID @ [0];
     n \<leftarrow> c_strlen keyguid;
     hash \<leftarrow> SHA1 sha1_local keyguid (word_of_nat n);
     (n, buffer) \<leftarrow> base64_encode hash SHA1_HASH_SIZE buffer len False;
     Some (n \<noteq> 0, buffer)
   }"

subsection \<open>State\<close>

record ws_frame_slice =
  sl_data :: bytes
  sl_fin :: byte
  sl_opcode :: byte

record 'd stream_ws =
  sw_stream :: "'d stream"
  sw_buffer :: bytes
  sw_client_role :: bool
  sw_cache :: "ws_frame_slice list"
  sw_data_type :: byte
  sw_key :: "bytes option"
  sw_mask :: "bytes option"
  sw_keep_alive :: nat
  sw_keep_alive_responded :: bool
  sw_keep_alive_timer :: timer

definition ws_frame_slice_new :: "bytes \<Rightarrow> nat \<Rightarrow> byte \<Rightarrow> byte \<Rightarrow> ws_frame_slice option" where
  "ws_frame_slice_new buffer len fin opcode = do {
     data \<leftarrow> rd_bytes buffer len;
     Some \<lparr>sl_data = data, sl_fin = fin, sl_opcode = opcode\<rparr>
   }"

definition stream_ws_new :: "'d \<Rightarrow> 'd stream_ws" where
  "stream_ws_new decorated =
     \<lparr>sw_stream = stream_init (-1) (Some decorated), sw_buffer = [], sw_client_role = False,
      sw_cache = [], sw_data_type = WS_OPCODE_BINARY, sw_key = None, sw_mask = None,
      sw_keep_alive = 0, sw_keep_alive_responded = True, sw_keep_alive_timer = timer_stop\<rparr>"

definition stream_ws_set_status :: "'d stream_ws \<Rightarrow> stream_status \<Rightarrow> 'd stream_ws" where
  "stream_ws_set_status self status = self\<lparr>sw_stream := stream_set_status (sw_stream self) status\<rparr>"

definition stream_ws_get_status :: "'d stream_ws \<Rightarrow> stream_status" where
  "stream_ws_get_status self = stream_get_status (sw_stream self)"

text \<open>The next \<open>n\<close> values of \<open>rand()\<close> are used up.\<close>

definition w_rand_data :: "nat \<Rightarrow> world \<Rightarrow> bytes \<times> world" where
  "w_rand_data n w = (rand_data n (\<lambda>i. w_rand w (w_rand_pos w + i)), w\<lparr>w_rand_pos := w_rand_pos w + n\<rparr>)"

text \<open>\<open>mask\<close> points to \<open>mask_data\<close>, or is null for a server.\<close>

definition stream_ws_generate_mask :: "'d stream_ws \<Rightarrow> world \<Rightarrow> 'd stream_ws \<times> world" where
  "stream_ws_generate_mask self w =
     (if sw_client_role self
      then let (data, w) = w_rand_data WS_MASK_SIZE w in (self\<lparr>sw_mask := Some data\<rparr>, w)
      else (self\<lparr>sw_mask := None\<rparr>, w))"

definition ws_keep_alive_start :: "'d stream_ws \<Rightarrow> world \<Rightarrow> 'd stream_ws \<times> world" where
  "ws_keep_alive_start self w =
     (let (t, c) = timer_start TIMER_SEC (int (sw_keep_alive self)) (w_clock w)
      in (self\<lparr>sw_keep_alive_timer := t\<rparr>, w\<lparr>w_clock := c\<rparr>))"

subsection \<open>Writing\<close>

definition ws_real_write ::
    "'d stream_ops \<Rightarrow> 'd stream_ws \<Rightarrow> bytes \<Rightarrow> world \<Rightarrow> (int \<times> 'd stream_ws \<times> world) option" where
  "ws_real_write ops self buffer w = do {
     (ret, st, w) \<leftarrow> stream_do_write ops (sw_stream self) buffer w;
     Some (ret, self\<lparr>sw_stream := st\<rparr>, w)
   }"

definition stream_ws_write_frame ::
    "'d stream_ops \<Rightarrow> 'd stream_ws \<Rightarrow> byte \<Rightarrow> byte \<Rightarrow> bytes option \<Rightarrow> bytes \<Rightarrow> nat \<Rightarrow> world \<Rightarrow>
     (int \<times> 'd stream_ws \<times> world) option" where
  "stream_ws_write_frame ops self fin opcode msk buffer len w = do {
     let fin = (if fin \<noteq> 0 then WS_FIN_FLAG else 0);
     outbuffer \<leftarrow> ws_format_frame (fin OR opcode) msk buffer len;
     if length outbuffer \<le> len + WS_MAX_HEADER_SIZE then ws_real_write ops self outbuffer w else None
   }"

definition stream_ws_do_write ::
    "'d stream_ops \<Rightarrow> 'd stream_ws \<Rightarrow> bytes \<Rightarrow> world \<Rightarrow> (int \<times> 'd stream_ws \<times> world) option" where
  "stream_ws_do_write ops self xs w =
     (let (self, w) = stream_ws_generate_mask self w
      in stream_ws_write_frame ops self WS_FIN_FLAG (sw_data_type self) (sw_mask self) xs (length xs) w)"

text \<open>The payload is two \<open>unsigned short\<close>s: four bytes, the first byte of the code, zero, the second, zero.\<close>

definition stream_ws_disconnect ::
    "'d stream_ops \<Rightarrow> 'd stream_ws \<Rightarrow> u16 \<Rightarrow> world \<Rightarrow> ('d stream_ws \<times> world) option" where
  "stream_ws_disconnect ops self code w = do {
     let payload = [be16_hi code, 0, be16_lo code, 0];
     let (self, w) = stream_ws_generate_mask self w;
     (_, self, w) \<leftarrow> stream_ws_write_frame ops self WS_FIN_FLAG WS_OPCODE_CLOSE (sw_mask self) payload (length payload) w;
     Some (stream_ws_set_status self STREAM_ST_CLOSING, w)
   }"

text \<open>\<open>snprintf\<close> into the local message buffer, written up to its zero.\<close>

definition ws_message_text :: "bytes \<Rightarrow> bytes" where
  "ws_message_text s = take (WS_MESSAGE_BUFFER_SIZE - 1) s"

definition ws_request_text :: "bytes \<Rightarrow> bytes \<Rightarrow> bytes \<Rightarrow> bytes" where
  "ws_request_text uri header key =
     ascii ''GET '' @ uri @ ascii '' HTTP/1.1'' @ HTTP_LINE_END @ header @
     ascii ''Upgrade: websocket'' @ HTTP_LINE_END @ ascii ''Connection: Upgrade'' @ HTTP_LINE_END @
     ascii ''Sec-WebSocket-Version: 13'' @ HTTP_LINE_END @
     ascii ''Sec-WebSocket-Key: '' @ key @ HTTP_HEADERS_END"

definition ws_response_text :: "bytes \<Rightarrow> bytes" where
  "ws_response_text accept_key =
     ascii ''HTTP/1.1 101 Switching Protocols'' @ HTTP_LINE_END @
     ascii ''Upgrade: websocket'' @ HTTP_LINE_END @ ascii ''Connection: Upgrade'' @ HTTP_LINE_END @
     ascii ''Sec-WebSocket-Accept: '' @ accept_key @ HTTP_HEADERS_END"

definition ws_new_key :: "world \<Rightarrow> (bytes option \<times> world) option" where
  "ws_new_key w = do {
     let (random, w) = w_rand_data 16 w;
     (n, ws_key) \<leftarrow> base64_encode random 16 (replicate WS_KEY_BUFFER_SIZE 0) WS_KEY_BUFFER_SIZE False;
     if n = 0 then Some (None, w) else do { key \<leftarrow> xstrdup ws_key; Some (Some key, w) }
   }"

definition stream_ws_connect ::
    "'d stream_ops \<Rightarrow> 'd stream_ws \<Rightarrow> bytes option \<Rightarrow> bytes option \<Rightarrow> bytes option \<Rightarrow> world \<Rightarrow>
     ('d stream_ws \<times> world) option" where
  "stream_ws_connect ops self uri key header w = do {
     let self = self\<lparr>sw_client_role := True\<rparr>;
     (key, w) \<leftarrow> (case key of
         Some key \<Rightarrow> do { key \<leftarrow> xstrdup key; Some (Some key, w) }
       | None \<Rightarrow> ws_new_key w);
     case key of
       None \<Rightarrow> Some (self, w)
     | Some key \<Rightarrow> do {
         let self = self\<lparr>sw_key := Some key\<rparr>;
         uri \<leftarrow> (case uri of None \<Rightarrow> Some (ascii ''/'') | Some u \<Rightarrow> c_str u);
         header \<leftarrow> (case header of None \<Rightarrow> Some [] | Some h \<Rightarrow> c_str h);
         key \<leftarrow> c_str key;
         let request = ws_message_text (ws_request_text uri header key);
         (_, self, w) \<leftarrow> ws_real_write ops self request w;
         Some (self, w)
       }
   }"

subsection \<open>The handshake\<close>

definition ws_again :: "'d stream_ws \<Rightarrow> world \<Rightarrow> int \<times> 'd stream_ws \<times> world" where
  "ws_again self w = (-1, self, w\<lparr>w_errno := E_AGAIN\<rparr>)"

text \<open>The value of a header, with a zero written behind its first word.\<close>

definition ws_header_word :: "bytes \<Rightarrow> bytes \<Rightarrow> (nat \<times> bytes) option option" where
  "ws_header_word headers name = do {
     found \<leftarrow> http_header_find headers name;
     case found of
       None \<Rightarrow> Some None
     | Some (_, key) \<Rightarrow> do {
         key_len \<leftarrow> xstr_word_len key None;
         Some (Some (key_len, key[key_len := 0]))
       }
   }"

definition stream_ws_handle_handshake_request ::
    "'d stream_ops \<Rightarrow> 'd stream_ws \<Rightarrow> world \<Rightarrow> (int \<times> 'd stream_ws \<times> world) option" where
  "stream_ws_handle_handshake_request ops self w = do {
     view \<leftarrow> http_msg_view_parse_request (sw_buffer self);
     case view of
       None \<Rightarrow> Some (ws_again self w)
     | Some view \<Rightarrow> do {
         key \<leftarrow> ws_header_word (hv_headers view) (ascii ''Sec-WebSocket-Key'' @ [0]);
         case key of
           None \<Rightarrow> Some (0, self\<lparr>sw_buffer := []\<rparr>, w)
         | Some (key_len, key) \<Rightarrow> do {
             (ok, accept_key) \<leftarrow> ws_calculate_accept_key key key_len (replicate WS_KEY_BUFFER_SIZE 0) WS_KEY_BUFFER_SIZE;
             if \<not> ok then Some (0, self\<lparr>sw_buffer := []\<rparr>, w)
             else do {
               accept_key \<leftarrow> c_str accept_key;
               (_, self, w) \<leftarrow> ws_real_write ops self (ws_message_text (ws_response_text accept_key)) w;
               let self = stream_ws_set_status self STREAM_ST_READY;
               let self = self\<lparr>sw_buffer := [], sw_keep_alive := WS_KEEP_ALIVE_SERVER_TIMEOUT\<rparr>;
               let (self, w) = ws_keep_alive_start self w;
               Some (ws_again self w)
             }
           }
       }
   }"

definition stream_ws_handle_handshake_accept :: "'d stream_ws \<Rightarrow> world \<Rightarrow> (int \<times> 'd stream_ws \<times> world) option" where
  "stream_ws_handle_handshake_accept self w = do {
     view \<leftarrow> http_msg_view_parse_response (sw_buffer self);
     case view of
       None \<Rightarrow> Some (ws_again self w)
     | Some view \<Rightarrow>
         (case sw_key self of
            None \<Rightarrow> Some (0, self\<lparr>sw_buffer := []\<rparr>, w)
          | Some self_key \<Rightarrow> do {
              key \<leftarrow> ws_header_word (hv_headers view) (ascii ''Sec-WebSocket-Accept'' @ [0]);
              case key of
                None \<Rightarrow> Some (0, self\<lparr>sw_buffer := []\<rparr>, w)
              | Some (key_len, key) \<Rightarrow> do {
                  n \<leftarrow> c_strlen self_key;
                  (ok, accept_key) \<leftarrow> ws_calculate_accept_key self_key n (replicate WS_KEY_BUFFER_SIZE 0) WS_KEY_BUFFER_SIZE;
                  if \<not> ok then Some (0, self\<lparr>sw_buffer := []\<rparr>, w)
                  else do {
                    eq \<leftarrow> c_strncmp_eq accept_key key key_len;
                    if \<not> eq then Some (0, self\<lparr>sw_buffer := []\<rparr>, w)
                    else do {
                      let self = stream_ws_set_status self STREAM_ST_READY;
                      let self = self\<lparr>sw_buffer := [], sw_key := None, sw_keep_alive := WS_KEEP_ALIVE_CLIENT_TIMEOUT\<rparr>;
                      let (self, w) = ws_keep_alive_start self w;
                      Some (ws_again self w)
                    }
                  }
                }
            })
   }"

subsection \<open>Received frames\<close>

text \<open>
  \<open>data\<close> is the memory from the frame to the end of the buffered data. Unmasking writes into
  this memory, but only into the payload, which is cut off with the frame.
\<close>

definition ws_unmask ::
    "'d stream_ops \<Rightarrow> 'd stream_ws \<Rightarrow> ws_frame \<Rightarrow> bytes \<Rightarrow> world \<Rightarrow> (bytes \<times> 'd stream_ws \<times> world) option" where
  "ws_unmask ops self frame data w = do {
     payload \<leftarrow> adv data (wf_payload_offset frame);
     if wf_mask_flag frame \<noteq> 0 then
       (if sw_client_role self then do {
          (self, w) \<leftarrow> stream_ws_disconnect ops self WS_CLOSE_PROTOCOL_ERROR w;
          Some (payload, self, w)
        } else do {
          msk \<leftarrow> adv data (wf_mask_offset frame);
          payload \<leftarrow> ws_apply_mask payload (wf_payload_length frame) msk;
          Some (payload, self, w)
        })
     else Some (payload, self, w)
   }"

definition ws_handle_data :: "'d stream_ws \<Rightarrow> ws_frame \<Rightarrow> bytes \<Rightarrow> 'd stream_ws option" where
  "ws_handle_data self frame payload = do {
     let self = self\<lparr>sw_data_type := wf_opcode frame\<rparr>;
     slc \<leftarrow> ws_frame_slice_new payload (wf_payload_length frame) (wf_fin_flag frame) (wf_opcode frame);
     Some (self\<lparr>sw_cache := sw_cache self @ [slc]\<rparr>)
   }"

definition ws_handle_continue :: "'d stream_ws \<Rightarrow> ws_frame \<Rightarrow> bytes \<Rightarrow> 'd stream_ws option" where
  "ws_handle_continue self frame payload =
     (if sw_cache self = [] then Some self
      else do {
        data \<leftarrow> rd_bytes payload (wf_payload_length frame);
        let slc = last (sw_cache self);
        let slc = slc\<lparr>sl_data := sl_data slc @ data, sl_fin := wf_fin_flag frame\<rparr>;
        Some (self\<lparr>sw_cache := butlast (sw_cache self) @ [slc]\<rparr>)
      })"

definition ws_handle_ping ::
    "'d stream_ops \<Rightarrow> 'd stream_ws \<Rightarrow> ws_frame \<Rightarrow> bytes \<Rightarrow> world \<Rightarrow> ('d stream_ws \<times> world) option" where
  "ws_handle_ping ops self frame payload w = do {
     let (self, w) = stream_ws_generate_mask self w;
     (_, self, w) \<leftarrow> stream_ws_write_frame ops self WS_FIN_FLAG WS_OPCODE_PONG (sw_mask self) payload (wf_payload_length frame) w;
     Some (ws_keep_alive_start self w)
   }"

definition stream_ws_handle_received_frame ::
    "'d stream_ops \<Rightarrow> 'd stream_ws \<Rightarrow> ws_frame \<Rightarrow> bytes \<Rightarrow> world \<Rightarrow> ('d stream_ws \<times> world) option" where
  "stream_ws_handle_received_frame ops self frame data w = do {
     (payload, self, w) \<leftarrow> ws_unmask ops self frame data w;
     if wf_opcode frame = WS_OPCODE_TEXT \<or> wf_opcode frame = WS_OPCODE_BINARY
     then map_option (\<lambda>self. (self, w)) (ws_handle_data self frame payload)
     else if wf_opcode frame = WS_OPCODE_CONTINUE
     then map_option (\<lambda>self. (self, w)) (ws_handle_continue self frame payload)
     else if wf_opcode frame = WS_OPCODE_PING then ws_handle_ping ops self frame payload w
     else if wf_opcode frame = WS_OPCODE_PONG then Some (self\<lparr>sw_keep_alive_responded := True\<rparr>, w)
     else Some (self, w)
   }"

text \<open>
  The inner loop of \<open>stream_ws_peek_frame\<close>, on the buffered bytes; what is left of them is
  stored. A frame length may wrap to zero: the loop then never ends.
\<close>

partial_function (option) ws_frames_loop ::
    "'d stream_ops \<Rightarrow> bytes \<Rightarrow> 'd stream_ws \<Rightarrow> world \<Rightarrow> ('d stream_ws \<times> world) option" where
  "ws_frames_loop ops b self w =
     (if b = [] then Some (self\<lparr>sw_buffer := b\<rparr>, w)
      else do {
        (ok, frame, frame_length) \<leftarrow> ws_parse_frame \<lparr>wf_fin_flag = 0, wf_opcode = 0, wf_mask_flag = 0,
          wf_payload_length = 0, wf_mask_offset = 0, wf_payload_offset = 0\<rparr> b (length b);
        if \<not> ok then Some (self\<lparr>sw_buffer := b\<rparr>, w)
        else do {
          (self, w) \<leftarrow> stream_ws_handle_received_frame ops self frame b w;
          ws_frames_loop ops (drop frame_length b) self w
        }
      })"

definition ws_message_waiting :: "'d stream_ws \<Rightarrow> bool" where
  "ws_message_waiting self \<longleftrightarrow> (case sw_cache self of [] \<Rightarrow> False | slc # _ \<Rightarrow> sl_fin slc \<noteq> 0)"

text \<open>\<^const>\<open>None\<close> in the first component: the loop was left with \<open>break\<close>.\<close>

partial_function (option) ws_peek_loop ::
    "'d stream_ops \<Rightarrow> 'd stream_ws \<Rightarrow> world \<Rightarrow> (int option \<times> 'd stream_ws \<times> world) option" where
  "ws_peek_loop ops self w =
     (if ws_message_waiting self then Some (None, self, w)
      else do {
        d \<leftarrow> st_decorated (sw_stream self);
        (ret, xs, d, w) \<leftarrow> op_read ops d WS_MESSAGE_BUFFER_SIZE w;
        let self = self\<lparr>sw_stream := (sw_stream self)\<lparr>st_decorated := Some d\<rparr>\<rparr>;
        if ret \<le> 0 then
          (if ret = 0 \<or> w_errno w \<noteq> E_AGAIN then Some (Some ret, self, w) else Some (None, self, w))
        else let self = self\<lparr>sw_buffer := sw_buffer self @ xs\<rparr> in
          if stream_ws_get_status self \<noteq> STREAM_ST_READY then
            map_option (\<lambda>(ret, self, w). (Some ret, self, w))
              (if sw_client_role self then stream_ws_handle_handshake_accept self w
               else stream_ws_handle_handshake_request ops self w)
          else do {
            (self, w) \<leftarrow> ws_frames_loop ops (sw_buffer self) self w;
            ws_peek_loop ops self w
          }
      })"

definition stream_ws_peek_frame ::
    "'d stream_ops \<Rightarrow> 'd stream_ws \<Rightarrow> world \<Rightarrow> (int \<times> 'd stream_ws \<times> world) option" where
  "stream_ws_peek_frame ops self w = do {
     (r, self, w) \<leftarrow> ws_peek_loop ops self w;
     case r of
       Some ret \<Rightarrow> Some (ret, self, w)
     | None \<Rightarrow>
         (if ws_message_waiting self
          then Some (int (length (sl_data (hd (sw_cache self)))), self, w)
          else Some (ws_again self w))
   }"

subsection \<open>Reading\<close>

definition stream_ws_read_frame ::
    "'d stream_ws \<Rightarrow> nat \<Rightarrow> world \<Rightarrow> int \<times> (byte \<times> byte \<times> bytes) option \<times> 'd stream_ws \<times> world" where
  "stream_ws_read_frame self len w =
     (case sw_cache self of
        [] \<Rightarrow> (-1, None, self, w\<lparr>w_errno := E_AGAIN\<rparr>)
      | slc # cache \<Rightarrow>
          if sl_fin slc = 0 then (-1, None, self, w\<lparr>w_errno := E_AGAIN\<rparr>)
          else if length (sl_data slc) > len then (-1, None, self, w\<lparr>w_errno := E_NOMEM\<rparr>)
          else (int (length (sl_data slc)), Some (sl_fin slc, sl_opcode slc, sl_data slc),
                self\<lparr>sw_cache := cache\<rparr>, w))"

text \<open>\<open>errno\<close> is looked at for a result of zero as well, whatever the last failed call left in it.\<close>

definition stream_ws_do_read ::
    "'d stream_ops \<Rightarrow> 'd stream_ws \<Rightarrow> nat \<Rightarrow> world \<Rightarrow> (int \<times> bytes \<times> 'd stream_ws \<times> world) option" where
  "stream_ws_do_read ops self len w = do {
     (ret, self, w) \<leftarrow> stream_ws_peek_frame ops self w;
     if ret \<le> 0 \<and> w_errno w \<noteq> E_AGAIN then Some (ret, [], self, w)
     else (case sw_cache self of
         [] \<Rightarrow> Some (-1, [], self, w\<lparr>w_errno := E_AGAIN\<rparr>)
       | slc # cache \<Rightarrow>
           let data = take len (sl_data slc);
               slc = slc\<lparr>sl_data := drop len (sl_data slc)\<rparr>;
               self = self\<lparr>sw_cache := (if sl_data slc = [] then cache else slc # cache)\<rparr>
           in Some (int (length data), data, self, w))
   }"

subsection \<open>Time, and the operations of the class\<close>

definition ws_time_keep_alive ::
    "'d stream_ops \<Rightarrow> 'd stream_ws \<Rightarrow> world \<Rightarrow> ('d stream_ws \<times> world) option" where
  "ws_time_keep_alive ops self w =
     (let (expired, c) = timer_expired (sw_keep_alive_timer self) (w_clock w);
          w = w\<lparr>w_clock := c\<rparr>
      in if expired then
           (if sw_client_role self then
              (if sw_keep_alive_responded self then do {
                 let (self, w) = stream_ws_generate_mask self w;
                 (_, self, w) \<leftarrow> stream_ws_write_frame ops self WS_FIN_FLAG WS_OPCODE_PING (sw_mask self) [] 0 w;
                 let (t, c) = timer_restart (sw_keep_alive_timer self) (w_clock w);
                 Some (self\<lparr>sw_keep_alive_responded := False, sw_keep_alive_timer := t\<rparr>, w\<lparr>w_clock := c\<rparr>)
               } else Some (stream_ws_set_status self STREAM_ST_CLOSING, w))
            else Some (stream_ws_set_status self STREAM_ST_CLOSING, w))
         else Some (self, w))"

definition stream_ws_do_time ::
    "'d stream_ops \<Rightarrow> 'd stream_ws \<Rightarrow> world \<Rightarrow> (int \<times> 'd stream_ws \<times> world) option" where
  "stream_ws_do_time ops self w = do {
     (self, w) \<leftarrow> ws_time_keep_alive ops self w;
     (ret, st, w) \<leftarrow> stream_do_time ops (sw_stream self) w;
     Some (ret, self\<lparr>sw_stream := st\<rparr>, w)
   }"

definition stream_ws_flush_impl ::
    "'d stream_ops \<Rightarrow> 'd stream_ws \<Rightarrow> world \<Rightarrow> (int \<times> 'd stream_ws \<times> world) option" where
  "stream_ws_flush_impl ops self w = do {
     (ret, st, w) \<leftarrow> stream_do_flush ops (sw_stream self) w;
     Some (ret, self\<lparr>sw_stream := st\<rparr>, w)
   }"

definition ws_ops :: "'d stream_ops \<Rightarrow> 'd stream_ws stream_ops" where
  "ws_ops ops =
     \<lparr>op_read = stream_ws_do_read ops, op_write = stream_ws_do_write ops,
      op_flush = stream_ws_flush_impl ops, op_time = stream_ws_do_time ops,
      op_get_fd = (\<lambda>self. stream_get_fd ops (sw_stream self)),
      op_get_status = (\<lambda>self. stream_get_status (sw_stream self)),
      op_has_outgoing_data = (\<lambda>self. stream_has_outgoing_data ops (sw_stream self)),
      op_handle_outgoing_data = (\<lambda>self w. do {
        (ret, st, w) \<leftarrow> stream_handle_outgoing_data ops (sw_stream self) w;
        Some (ret, self\<lparr>sw_stream := st\<rparr>, w) }),
      op_reset_outgoing_data = (\<lambda>self. self\<lparr>sw_stream := stream_reset_outgoing_data ops (sw_stream self)\<rparr>)\<rparr>"

subsection \<open>Ready streams\<close>

definition ws_ready :: "'d stream_ws \<Rightarrow> nat \<Rightarrow> world \<Rightarrow> 'd stream_ws" where
  "ws_ready self secs w = (stream_ws_set_status self STREAM_ST_READY)\<lparr>sw_buffer := [], sw_keep_alive := secs,
     sw_keep_alive_timer := \<lparr>tm_start = clock_s (w_clock w), tm_interval = int secs, tm_flags = TIMER_SEC\<rparr>\<rparr>"

lemma ws_keep_alive_start_eq [simp]:
  "ws_keep_alive_start self w = (self\<lparr>sw_keep_alive_timer := \<lparr>tm_start = clock_s (w_clock w), tm_interval = int (sw_keep_alive self),
     tm_flags = TIMER_SEC\<rparr>\<rparr>, w)"
  by (simp add: ws_keep_alive_start_def)

subsection \<open>Over a descriptor whose kernel accepts everything\<close>

definition ws_over :: "int \<Rightarrow> unit stream stream \<Rightarrow> world \<Rightarrow> bool" where
  "ws_over fd s w \<longleftrightarrow> st_outgoing s = [] \<and> w_wr w fd = [] \<and>
     (\<exists>d. st_decorated s = Some d \<and> st_fd d = fd \<and> st_decorated d = None \<and> st_outgoing d = [])"

definition w_wrote :: "int \<Rightarrow> bytes \<Rightarrow> world \<Rightarrow> world" where
  "w_wrote fd xs w = w\<lparr>w_out := (w_out w)(fd := w_out w fd @ xs)\<rparr>"

lemma w_wrote_sel [simp]: "w_out (w_wrote fd xs w) fd = w_out w fd @ xs" "w_clock (w_wrote fd xs w) = w_clock w"
  "w_rd (w_wrote fd xs w) = w_rd w" "w_wr (w_wrote fd xs w) = w_wr w" "w_errno (w_wrote fd xs w) = w_errno w"
  "w_rand (w_wrote fd xs w) = w_rand w" "w_rand_pos (w_wrote fd xs w) = w_rand_pos w"
  by (simp_all add: w_wrote_def)

lemma ws_over_write:
  assumes "ws_over fd s w" and "length xs < 2 ^ 31"
  shows "stream_do_write base_ops s xs w = Some (int (length xs), s, w_wrote fd xs w)"
proof -
  obtain d where d: "st_decorated s = Some d" "st_fd d = fd" "st_decorated d = None" "st_outgoing d = []"
    and s: "st_outgoing s = []" "w_wr w fd = []"
    using assms(1) by (auto simp: ws_over_def)
  have c: "c_int (int (length xs)) = int (length xs)"
    using assms(2) by (intro c_int_small) auto
  have "stream_do_write no_ops d xs w = Some (int (length xs), d, w_wrote fd xs w)"
    using d s by (simp add: stream_do_write_def stream_real_write_def sys_write_def c w_wrote_def)
  then show ?thesis
    using d s by (simp add: stream_do_write_def [of base_ops] stream_real_write_def c)
qed

lemma ws_over_new: "w_wr w fd = [] \<Longrightarrow> ws_over fd (sw_stream (stream_ws_new (stream_new fd))) w"
  by (simp add: ws_over_def stream_ws_new_def stream_new_def stream_init_def)

lemma ws_over_stable [simp]:
  "ws_over fd (stream_set_status s x) w = ws_over fd s w" "ws_over fd (s\<lparr>st_status := x\<rparr>) w = ws_over fd s w" "ws_over fd s (w_wrote fd xs w) = ws_over fd s w"
  "ws_over fd s (w\<lparr>w_errno := e\<rparr>) = ws_over fd s w" "ws_over fd s (w\<lparr>w_rd := r\<rparr>) = ws_over fd s w"
  "ws_over fd s (w\<lparr>w_rand_pos := n\<rparr>) = ws_over fd s w"
  by (simp_all add: ws_over_def stream_set_status_def)

text \<open>One read that returns data, or that finds none.\<close>

lemma ws_over_read:
  assumes "ws_over fd s w"
  obtains d where "st_decorated s = Some d" and
    "\<And>xs es. w_rd w fd = RdData xs # es \<Longrightarrow> length xs \<le> n \<Longrightarrow>
      op_read base_ops d n w = Some (int (length xs), xs, d, w\<lparr>w_rd := (w_rd w)(fd := es)\<rparr>)" and
    "w_rd w fd = [] \<Longrightarrow> op_read base_ops d n w = Some (-1, [], d, w\<lparr>w_errno := E_AGAIN\<rparr>)"
proof -
  obtain d where "st_decorated s = Some d" "st_fd d = fd" "st_decorated d = None"
    using assms by (auto simp: ws_over_def)
  then show thesis
    by (intro that [of d]) (simp_all add: stream_do_read_def stream_real_read_def sys_read_def)
qed

lemma stream_same [simp]: "st_decorated s = Some d \<Longrightarrow> s\<lparr>st_decorated := Some d\<rparr> = s"
  by simp

end
