(* ===== verification/Ws_Handshake.thy ===== *)
theory Ws_Handshake
  imports Stream_Ws
begin

section \<open>The WebSocket handshake\<close>

text \<open>
  The request of a client and the response of a server as HTTP texts (theory \<open>Http\<close>), the accept
  key as the base64 text of a SHA-1 digest (theories \<open>Base64\<close> and \<open>Sha1\<close>), and the two streams
  brought together: each reads what the other wrote.
\<close>

subsection \<open>The accept key is printable\<close>






lemma length_sha1_digest [simp]: "length (sha1_digest m) = 20"
  by (simp add: sha1_digest_def be32_bytes_def split: prod.splits)





subsection \<open>The handshake texts\<close>

























subsection \<open>What the client checks\<close>



end
