(* ===== verification/Ws_Session.thy ===== *)
theory Ws_Session
  imports Stream_Ws
begin

section \<open>The WebSocket session\<close>

text \<open>
  What a ready stream does with the frames it gets, by way of the frame recogniser of theory
  \<open>Websocket\<close>: messages from one stream to its peer, the keep-alive of both roles, and a frame
  that hangs the reader.
\<close>

subsection \<open>Frames are delivered\<close>

definition ws_slice :: "ws_message \<Rightarrow> ws_frame_slice" where
  "ws_slice m = \<lparr>sl_data = ws_payload m, sl_fin = (if ws_fin m then 1 else 0), sl_opcode = ws_opcode m\<rparr>"

definition ws_effect :: "'d stream_ws \<Rightarrow> ws_message \<Rightarrow> 'd stream_ws" where
  "ws_effect self m =
     (if ws_opcode m = WS_OPCODE_TEXT \<or> ws_opcode m = WS_OPCODE_BINARY
      then self\<lparr>sw_data_type := ws_opcode m, sw_cache := sw_cache self @ [ws_slice m]\<rparr>
      else if ws_opcode m = WS_OPCODE_CONTINUE
      then (if sw_cache self = [] then self
            else self\<lparr>sw_cache := butlast (sw_cache self) @ [(last (sw_cache self))\<lparr>sl_data := sl_data (last (sw_cache self)) @ ws_payload m,
                   sl_fin := (if ws_fin m then 1 else 0)\<rparr>]\<rparr>)
      else if ws_opcode m = WS_OPCODE_PONG then self\<lparr>sw_keep_alive_responded := True\<rparr>
      else self)"

text \<open>The frames a stream takes without answering: a client must not be sent masked ones.\<close>

definition ws_plain :: "bool \<Rightarrow> ws_message \<Rightarrow> bool" where
  "ws_plain client m \<longleftrightarrow> ws_opcode m \<noteq> WS_OPCODE_PING \<and> \<not> (client \<and> ws_mask m \<noteq> None)"

lemma ws_masked_take: "ws_masked (take WS_MASK_SIZE k) xs = ws_masked k xs"
  by (simp add: ws_masked_def WS_MASK_SIZE_def)

lemma ws_unmask_eq:
  assumes b: "ws_header_size b + pl \<le> length b" and m: "m = ws_content b pl"
    and p: "\<not> (sw_client_role self \<and> ws_mask m \<noteq> None)"
  shows "ws_unmask ops self (ws_header b pl) b w = Some (ws_payload m @ drop (ws_header_size b + pl) b, self, w)"
    and "length (ws_payload m) = pl"
proof -
  let ?h = "ws_header_size b" and ?o = "WS_MIN_HEADER_SIZE + ws_ext (ws_len7 b)"
  have adv: "adv b ?h = Some (drop ?h b)" "adv b ?o = Some (drop ?o b)"
    using b by (simp_all add: adv_def ws_header_size_def)
  have len: "pl \<le> length (drop ?h b)" "ws_is_masked b \<Longrightarrow> WS_MASK_SIZE \<le> length (drop ?o b)"
    using b by (auto simp: ws_header_size_def)
  have dr: "drop pl (drop ?h b) = drop (?h + pl) b" by (simp add: add.commute)
  show "ws_unmask ops self (ws_header b pl) b w = Some (ws_payload m @ drop (?h + pl) b, self, w)"
  proof (cases "ws_is_masked b")
    case True
    then have c: "\<not> sw_client_role self"
      using p m by (simp add: ws_content_def Let_def)
    have "ws_apply_mask (drop ?h b) pl (drop ?o b) = Some (ws_payload m @ drop (?h + pl) b)"
      using ws_apply_mask_eq [OF len(1) len(2) [OF True]] True dr m
      by (simp add: ws_content_def Let_def ws_masked_take)
    then show ?thesis
      using True c adv by (simp add: ws_unmask_def ws_header_def)
  next
    case False
    then have "ws_payload m = take pl (drop ?h b)"
      using m by (simp add: ws_content_def Let_def)
    then show ?thesis
      using False adv dr append_take_drop_id [of pl "drop ?h b"] by (simp add: ws_unmask_def ws_header_def)
  qed
  show "length (ws_payload m) = pl"
    using m len(1) by (simp add: ws_content_def Let_def)
qed

abbreviation (input) ws_frame0 :: ws_frame where
  "ws_frame0 \<equiv> \<lparr>wf_fin_flag = 0, wf_opcode = 0, wf_mask_flag = 0, wf_payload_length = 0, wf_mask_offset = 0, wf_payload_offset = 0\<rparr>"

lemma ws_handle_frame:
  assumes "ws_scan b = Frame m n" and "ws_plain (sw_client_role self) m"
  shows "\<exists>f. ws_parse_frame ws_frame0 b (length b) = Some (True, f, n) \<and>
    stream_ws_handle_received_frame ops self f b w = Some (ws_effect self m, w)"
proof (cases b rule: ws_scan_cases)
  case (body pl)
  then have ok: "ws_header_size b + pl < size_bound" "ws_header_size b + pl \<le> length b" "m = ws_content b pl"
    "n = ws_header_size b + pl"
    using assms(1) by (auto split: if_splits)
  note u = ws_unmask_eq(1) [OF ok(2,3), of self ops w] ws_unmask_eq(2) [OF ok(2,3), of self]
  have p: "ws_parse_frame ws_frame0 b (length b) = Some (True, ws_header b pl, n)"
    using ws_parse_frame_full [OF order.refl body(2,3)] ok by simp
  have op: "wf_opcode (ws_header b pl) = ws_opcode m" "wf_fin_flag (ws_header b pl) = (if ws_fin m then 1 else 0)"
    "wf_payload_length (ws_header b pl) = length (ws_payload m)"
    using u assms(2) by (simp_all add: ok(3) ws_header_def ws_content_def Let_def ws_plain_def)
  have "stream_ws_handle_received_frame ops self (ws_header b pl) b w = Some (ws_effect self m, w)"
    using u(1) assms(2) op
    by (auto simp: stream_ws_handle_received_frame_def ws_plain_def ws_effect_def ws_handle_data_def ws_handle_continue_def
        ws_frame_slice_new_def ws_slice_def Let_def)
  with p show ?thesis by blast
qed (use assms(1) in simp_all)

lemma ws_scan_wait:
  assumes "ws_scan b = Need_more"
  shows "\<exists>f n. ws_parse_frame ws_frame0 b (length b) = Some (False, f, n)"
  using assms by (auto simp: ws_scan_def Let_def split: option.splits prod.splits if_splits)

lemma ws_effect_role [simp]: "sw_client_role (ws_effect self m) = sw_client_role self"
  "sw_stream (ws_effect self m) = sw_stream self"
  by (simp_all add: ws_effect_def)

lemma ws_frames_loop_eq:
  assumes "drain ws_scan b = (fs, r)" and "ws_scan r \<noteq> Bad" and "\<forall>m \<in> set fs. ws_plain (sw_client_role self) m"
  shows "ws_frames_loop ops b self w = Some ((foldl ws_effect self fs)\<lparr>sw_buffer := r\<rparr>, w)"
  using assms
proof (induction b arbitrary: fs self rule: measure_induct_rule [of length])
  case (less b)
  show ?case
  proof (cases "b = []")
    case True
    then show ?thesis using less.prems by (subst ws_frames_loop.simps) simp
  next
    case ne: False
    show ?thesis
    proof (cases "ws_scan b")
      case Need_more
      then obtain f n where "ws_parse_frame ws_frame0 b (length b) = Some (False, f, n)" using ws_scan_wait by blast
      moreover have "fs = [] \<and> r = b" using less.prems(1) drain_stop [of ws_scan b] Need_more by simp
      ultimately show ?thesis using ne by (subst ws_frames_loop.simps) simp
    next
      case Bad
      then have "r = b" using less.prems(1) drain_stop [of ws_scan b] by simp
      then show ?thesis using Bad less.prems(2) by simp
    next
      case (Frame m n)
      then have n: "0 < n" "n \<le> length b" using ws.frame_bounds by auto
      obtain fs' where fs: "fs = m # fs'" "drain ws_scan (drop n b) = (fs', r)"
        using less.prems(1) drain_Frame [of ws_scan b m n] Frame n by (cases "drain ws_scan (drop n b)") auto
      obtain f where f: "ws_parse_frame ws_frame0 b (length b) = Some (True, f, n)"
        "stream_ws_handle_received_frame ops self f b w = Some (ws_effect self m, w)"
        using ws_handle_frame [OF Frame, of self ops w] less.prems(3) fs(1) by auto
      have "ws_frames_loop ops (drop n b) (ws_effect self m) w =
          Some ((foldl ws_effect (ws_effect self m) fs')\<lparr>sw_buffer := r\<rparr>, w)"
        using less.IH [of "drop n b" fs' "ws_effect self m"] n fs less.prems(2,3) by simp
      then show ?thesis using ne f fs(1) by (subst ws_frames_loop.simps) simp
    qed
  qed
qed


subsection \<open>Messages are delivered\<close>

definition ws_data_message :: "ws_message \<Rightarrow> bool" where
  "ws_data_message m \<longleftrightarrow> ws_fin m \<and> (ws_opcode m = WS_OPCODE_TEXT \<or> ws_opcode m = WS_OPCODE_BINARY) \<and> ws_payload m \<noteq> []"

lemma foldl_ws_effect:
  "\<forall>m \<in> set fs. ws_data_message m \<Longrightarrow> sw_cache (foldl ws_effect self fs) = sw_cache self @ map ws_slice fs"
  "sw_stream (foldl ws_effect self fs) = sw_stream self" "sw_client_role (foldl ws_effect self fs) = sw_client_role self"
  by (induction fs arbitrary: self) (auto simp: ws_effect_def ws_data_message_def)

lemma drain_rest: "drain ws_scan b = (fs, r) \<Longrightarrow> drain ws_scan r = ([], r)"
proof (induction b arbitrary: fs rule: measure_induct_rule [of length])
  case (less b)
  show ?case
  proof (cases "ws_scan b")
    case (Frame m n)
    then have n: "0 < n" "n \<le> length b" using ws.frame_bounds by auto
    then show ?thesis
      using less.IH [of "drop n b"] less.prems drain_Frame [of ws_scan b m n] Frame
      by (cases "drain ws_scan (drop n b)") auto
  qed (use less.prems drain_stop [of ws_scan b] in auto)
qed

lemma ws_scan_Nil: "ws_scan [] = Need_more"
  by (simp add: ws_scan_def ws_parse_frame_def ws_sizes)

text \<open>A ready stream whose peer's messages \<open>ms\<close> are partly in the cache, partly in the buffer, partly on their way.\<close>

definition ws_receiving :: "int \<Rightarrow> ws_message list \<Rightarrow> unit stream stream_ws \<Rightarrow> world \<Rightarrow> bool" where
  "ws_receiving fd ms self w \<longleftrightarrow> ws_over fd (sw_stream self) w \<and> st_status (sw_stream self) = STREAM_ST_READY \<and>
     (\<forall>m \<in> set ms. ws_data_message m \<and> ws_plain (sw_client_role self) m) \<and>
     (\<exists>got rest chunks. ms = got @ rest \<and> sw_cache self = map ws_slice got \<and> w_rd w fd = map RdData chunks \<and>
        (\<forall>c \<in> set chunks. c \<noteq> [] \<and> length c \<le> WS_MESSAGE_BUFFER_SIZE) \<and>
        drain ws_scan (sw_buffer self) = ([], sw_buffer self) \<and>
        drain ws_scan (sw_buffer self @ concat chunks) = (rest, []))"

lemma ws_waiting_slice: "sw_cache self = map ws_slice (m # ms) \<Longrightarrow> ws_data_message m \<Longrightarrow> ws_message_waiting self"
  by (simp add: ws_message_waiting_def ws_slice_def ws_data_message_def)

lemma ws_peek_step:
  assumes o: "ws_over fd (sw_stream self) w" and st: "st_status (sw_stream self) = STREAM_ST_READY"
    and c: "sw_cache self = []" and rd: "w_rd w fd = RdData x # es" "x \<noteq> []" "length x \<le> WS_MESSAGE_BUFFER_SIZE"
    and d: "drain ws_scan (sw_buffer self @ x) = (fs, r)" "ws_scan r \<noteq> Bad"
    and fs: "\<forall>m \<in> set fs. ws_plain (sw_client_role self) m"
  shows "ws_peek_loop base_ops self w = ws_peek_loop base_ops ((foldl ws_effect (self\<lparr>sw_buffer := sw_buffer self @ x\<rparr>) fs)\<lparr>sw_buffer := r\<rparr>)
    (w\<lparr>w_rd := (w_rd w)(fd := es)\<rparr>)"
proof -
  let ?self = "self\<lparr>sw_buffer := sw_buffer self @ x\<rparr>" and ?w = "w\<lparr>w_rd := (w_rd w)(fd := es)\<rparr>"
  obtain e where e: "st_decorated (sw_stream self) = Some e"
    "op_read base_ops e WS_MESSAGE_BUFFER_SIZE w = Some (int (length x), x, e, ?w)"
    using ws_over_read [OF o, of WS_MESSAGE_BUFFER_SIZE] rd by metis
  have "ws_frames_loop base_ops (sw_buffer self @ x) ?self ?w = Some ((foldl ws_effect ?self fs)\<lparr>sw_buffer := r\<rparr>, ?w)"
    by (rule ws_frames_loop_eq [OF d]) (use fs in simp)
  then show ?thesis
    using e c st rd
    by (subst ws_peek_loop.simps)
       (simp add: ws_message_waiting_def stream_ws_get_status_def stream_get_status_def Let_def del: base_sel)
qed

lemma ws_receiving_peek:
  assumes "ws_receiving fd ms self w" and "ms \<noteq> []"
  shows "\<exists>self' w'. ws_peek_loop base_ops self w = Some (None, self', w') \<and> ws_receiving fd ms self' w' \<and> sw_cache self' \<noteq> []"
  using assms(1)
proof (induction "length (w_rd w fd)" arbitrary: self w rule: less_induct)
  case less
  then obtain got rest chunks where r: "ms = got @ rest" "sw_cache self = map ws_slice got" "w_rd w fd = map RdData chunks"
    "\<forall>c \<in> set chunks. c \<noteq> [] \<and> length c \<le> WS_MESSAGE_BUFFER_SIZE"
    "drain ws_scan (sw_buffer self) = ([], sw_buffer self)" "drain ws_scan (sw_buffer self @ concat chunks) = (rest, [])"
    and s: "ws_over fd (sw_stream self) w" "st_status (sw_stream self) = STREAM_ST_READY"
      "\<forall>m \<in> set ms. ws_data_message m \<and> ws_plain (sw_client_role self) m"
    unfolding ws_receiving_def by blast
  show ?case
  proof (cases got)
    case (Cons m got')
    then have "ws_message_waiting self"
      using r(1,2) s(3) ws_waiting_slice [of self m got'] by simp
    then have "ws_peek_loop base_ops self w = Some (None, self, w)"
      by (subst ws_peek_loop.simps) simp
    then show ?thesis
      using less.prems r(2) Cons by auto
  next
    case Nil
    then have c: "sw_cache self = []" "rest = ms" using r(1,2) by simp_all
    then obtain x cs where x: "chunks = x # cs"
      using r(5,6) assms(2) by (cases chunks) auto
    obtain fs b where d: "drain ws_scan (sw_buffer self @ x) = (fs, b)" by fastforce
    have all: "ms = fs @ fst (drain ws_scan (b @ concat cs))" "snd (drain ws_scan (b @ concat cs)) = []"
      using ws.drain_append [OF d, of "concat cs"] r(6) c(2) x by simp_all
    have bad: "ws_scan b \<noteq> Bad"
    proof
      assume "ws_scan b = Bad"
      then have "drain ws_scan (b @ concat cs) = ([], b @ concat cs)"
        using ws.bad_stable drain_stop by blast
      then show False
        using all(2) \<open>ws_scan b = Bad\<close> by (simp add: ws_scan_Nil)
    qed
    let ?self = "(foldl ws_effect (self\<lparr>sw_buffer := sw_buffer self @ x\<rparr>) fs)\<lparr>sw_buffer := b\<rparr>"
    let ?w = "w\<lparr>w_rd := (w_rd w)(fd := map RdData cs)\<rparr>"
    have step: "ws_peek_loop base_ops self w = ws_peek_loop base_ops ?self ?w"
      using r(3,4) x s(3) all(1) by (intro ws_peek_step [OF s(1,2) c(1) _ _ _ d bad]) auto
    have "drain ws_scan (b @ concat cs) = (fst (drain ws_scan (b @ concat cs)), [])"
      using all(2) by (metis prod.collapse)
    then have "ws_receiving fd ms ?self ?w"
      unfolding ws_receiving_def using s r(4) x all(1) drain_rest [OF d] c(1)
      by (intro conjI exI [of _ fs] exI [of _ "fst (drain ws_scan (b @ concat cs))"] exI [of _ cs])
        (auto simp: foldl_ws_effect)
    moreover have "length (w_rd ?w fd) < length (w_rd w fd)"
      using r(3) x by simp
    ultimately show ?thesis
      using less.hyps step by metis
  qed
qed


lemma ws_receiving_read:
  assumes "ws_receiving fd (m # ms) self w" and "length (ws_payload m) \<le> n"
  shows "\<exists>self' w'. stream_ws_do_read base_ops self n w = Some (int (length (ws_payload m)), ws_payload m, self', w') \<and>
    ws_receiving fd ms self' w'"
proof -
  obtain s1 w1 where p: "ws_peek_loop base_ops self w = Some (None, s1, w1)" "ws_receiving fd (m # ms) s1 w1" "sw_cache s1 \<noteq> []"
    using ws_receiving_peek [OF assms(1)] by auto
  then obtain got rest chunks where r: "m # ms = got @ rest" "sw_cache s1 = map ws_slice got"
    "w_rd w1 fd = map RdData chunks" "\<forall>c \<in> set chunks. c \<noteq> [] \<and> length c \<le> WS_MESSAGE_BUFFER_SIZE"
    "drain ws_scan (sw_buffer s1) = ([], sw_buffer s1)" "drain ws_scan (sw_buffer s1 @ concat chunks) = (rest, [])"
    and s: "ws_over fd (sw_stream s1) w1" "st_status (sw_stream s1) = STREAM_ST_READY"
      "\<forall>m \<in> set (m # ms). ws_data_message m \<and> ws_plain (sw_client_role s1) m"
    unfolding ws_receiving_def by blast
  then obtain got' where got: "got = m # got'" "ms = got' @ rest" using p(3) by (cases got) auto
  have m: "ws_message_waiting s1" "ws_payload m \<noteq> []" "sw_cache s1 = ws_slice m # map ws_slice got'"
    using ws_waiting_slice [of s1 m got'] r(2) got(1) s(3) by (auto simp: ws_data_message_def)
  let ?s = "s1\<lparr>sw_cache := map ws_slice got'\<rparr>"
  have "stream_ws_do_read base_ops self n w = Some (int (length (ws_payload m)), ws_payload m, ?s, w1)"
    using p(1) m assms(2) by (simp add: stream_ws_do_read_def stream_ws_peek_frame_def ws_slice_def Let_def)
  moreover have "ws_receiving fd ms ?s w1"
    unfolding ws_receiving_def using s r got(2) by (intro conjI exI [of _ got'] exI [of _ rest] exI [of _ chunks]) auto
  ultimately show ?thesis by blast
qed

text \<open>A client that writes several messages, and a reader that reads several times.\<close>

fun ws_writes :: "bytes list \<Rightarrow> unit stream stream_ws \<Rightarrow> world \<Rightarrow> (unit stream stream_ws \<times> world) option" where
  "ws_writes [] self w = Some (self, w)"
| "ws_writes (xs # xss) self w = do { (ret, self, w) \<leftarrow> stream_ws_do_write base_ops self xs w; ws_writes xss self w }"

fun ws_reads :: "nat \<Rightarrow> nat \<Rightarrow> unit stream stream_ws \<Rightarrow> world \<Rightarrow> ((int \<times> bytes) list \<times> unit stream stream_ws \<times> world) option" where
  "ws_reads n 0 self w = Some ([], self, w)"
| "ws_reads n (Suc k) self w = do {
     (ret, xs, self, w) \<leftarrow> stream_ws_do_read base_ops self n w;
     (rest, self, w) \<leftarrow> ws_reads n k self w;
     Some ((ret, xs) # rest, self, w)
   }"

lemma ws_receiving_reads:
  assumes "ws_receiving fd ms self w" and "\<forall>m \<in> set ms. length (ws_payload m) \<le> n"
  shows "\<exists>self' w'. ws_reads n (length ms) self w = Some (map (\<lambda>m. (int (length (ws_payload m)), ws_payload m)) ms, self', w')"
  using assms
proof (induction ms arbitrary: self w)
  case (Cons m ms)
  then obtain s1 w1 where "stream_ws_do_read base_ops self n w = Some (int (length (ws_payload m)), ws_payload m, s1, w1)"
    "ws_receiving fd ms s1 w1"
    using ws_receiving_read [OF Cons.prems(1), of n] Cons.prems(2) by auto
  then show ?case using Cons.IH [of s1 w1] Cons.prems(2) by auto
qed simp

lemma w_rand_data_length: "w_rand_data n w = (xs, w') \<Longrightarrow> length xs = n \<and> w' = w\<lparr>w_rand_pos := w_rand_pos w + n\<rparr>"
  by (auto simp: w_rand_data_def rand_data_def)

lemma ws_flags_or: "ws_fin m \<Longrightarrow> ws_flags m = WS_FIN_FLAG OR ws_opcode m"
  by (simp add: ws_flags_def)

lemma ws_write_frame_over:
  assumes o: "ws_over fd (sw_stream self) w" and g: "stream_ws_generate_mask self w = (s1, w1)"
    and op: "op < 16" and xs: "length xs < 2 ^ 30"
    and m: "m = \<lparr>ws_fin = True, ws_opcode = op, ws_mask = sw_mask s1, ws_payload = xs\<rparr>"
  shows "stream_ws_write_frame base_ops s1 WS_FIN_FLAG op (sw_mask s1) xs (length xs) w1 =
      Some (int (length (ws_wire m)), s1, w_wrote fd (ws_wire m) w1)"
    and "ws_valid m" and "s1 = self\<lparr>sw_mask := sw_mask s1\<rparr>" and "w1 = w\<lparr>w_rand_pos := w_rand_pos w1\<rparr>"
    and "sw_mask s1 \<noteq> None \<longleftrightarrow> sw_client_role self"
proof -
  have s1: "s1 = self\<lparr>sw_mask := sw_mask s1\<rparr>" "w1 = w\<lparr>w_rand_pos := w_rand_pos w1\<rparr>"
    "sw_mask s1 \<noteq> None \<longleftrightarrow> sw_client_role self" "pred_option (\<lambda>k. length k = WS_MASK_SIZE) (sw_mask s1)"
    using g by (auto simp: stream_ws_generate_mask_def w_rand_data_def rand_data_def split: if_splits)
  then show "s1 = self\<lparr>sw_mask := sw_mask s1\<rparr>" "w1 = w\<lparr>w_rand_pos := w_rand_pos w1\<rparr>"
    "sw_mask s1 \<noteq> None \<longleftrightarrow> sw_client_role self" by blast+
  show v: "ws_valid m"
    using op xs s1(4) by (auto simp: ws_valid_def m WS_MAX_HEADER_SIZE_def size_bound_def)
  have fmt: "ws_format_frame (WS_FIN_FLAG OR op) (sw_mask s1) xs (length xs) = Some (ws_wire m)"
    using ws_format_frame_wire [OF v] ws_flags_or [of m] by (simp add: m)
  have "length (ws_wire m) \<le> length xs + 14"
    using ws_size_field_length [of "ws_mask m \<noteq> None" "length xs"] s1(4)
    by (cases "sw_mask s1") (auto simp: ws_wire_def m WS_MASK_SIZE_def)
  then have len: "length (ws_wire m) \<le> length xs + WS_MAX_HEADER_SIZE" "length (ws_wire m) < 2 ^ 31"
    using xs by (simp_all add: WS_MAX_HEADER_SIZE_def)
  have "sw_stream s1 = sw_stream self"
    by (subst s1(1)) simp
  moreover have "ws_over fd (sw_stream self) w1"
    by (subst s1(2)) (simp add: o)
  ultimately show "stream_ws_write_frame base_ops s1 WS_FIN_FLAG op (sw_mask s1) xs (length xs) w1 =
      Some (int (length (ws_wire m)), s1, w_wrote fd (ws_wire m) w1)"
    using fmt len ws_over_write [OF _ len(2), of fd "sw_stream self" w1]
    by (simp add: stream_ws_write_frame_def ws_real_write_def Let_def)
qed

lemma ws_write_message:
  assumes o: "ws_over fd (sw_stream self) w" and op: "sw_data_type self = WS_OPCODE_TEXT \<or> sw_data_type self = WS_OPCODE_BINARY"
    and xs: "length xs < 2 ^ 30"
  obtains m self' w' where "stream_ws_do_write base_ops self xs w = Some (int (length (ws_wire m)), self', w')"
    and "ws_valid m" "ws_fin m" "ws_opcode m = sw_data_type self" "ws_payload m = xs" "ws_mask m \<noteq> None \<longleftrightarrow> sw_client_role self"
    and "w_out w' fd = w_out w fd @ ws_wire m" "ws_over fd (sw_stream self') w'" "sw_stream self' = sw_stream self"
      "sw_data_type self' = sw_data_type self" "sw_client_role self' = sw_client_role self"
proof -
  obtain s1 w1 where g: "stream_ws_generate_mask self w = (s1, w1)" by fastforce
  define m where "m = \<lparr>ws_fin = True, ws_opcode = sw_data_type self, ws_mask = sw_mask s1, ws_payload = xs\<rparr>"
  have op: "sw_data_type self < 16" using op by auto
  note f = ws_write_frame_over [OF o g op xs m_def]
  obtain k where s1: "s1 = self\<lparr>sw_mask := k\<rparr>" using f(3) by metis
  obtain p where w1: "w1 = w\<lparr>w_rand_pos := p\<rparr>" using f(4) by metis
  have "stream_ws_do_write base_ops self xs w = Some (int (length (ws_wire m)), s1, w_wrote fd (ws_wire m) w1)"
    using f(1) g by (simp add: stream_ws_do_write_def s1)
  then show thesis
    using f(2,5) o by (intro that [of m s1 "w_wrote fd (ws_wire m) w1"]) (simp_all add: m_def s1 w1)
qed

lemma ws_writes_eq:
  assumes "ws_over fd (sw_stream self) w" and "sw_data_type self = WS_OPCODE_TEXT \<or> sw_data_type self = WS_OPCODE_BINARY"
    and "\<forall>xs \<in> set xss. xs \<noteq> [] \<and> length xs < 2 ^ 30"
  shows "\<exists>ms self' w'. ws_writes xss self w = Some (self', w') \<and> w_out w' fd = w_out w fd @ concat (map ws_wire ms) \<and>
    map ws_payload ms = xss \<and> (\<forall>m \<in> set ms. ws_valid m \<and> ws_data_message m \<and> (ws_mask m \<noteq> None \<longleftrightarrow> sw_client_role self))"
  using assms
proof (induction xss arbitrary: self w)
  case Nil
  then show ?case by (intro exI [of _ "[]"]) simp
next
  case (Cons xs xss)
  have len: "length xs < 2 ^ 30" "xs \<noteq> []" using Cons.prems(3) by simp_all
  obtain m s1 w1 where m: "stream_ws_do_write base_ops self xs w = Some (int (length (ws_wire m)), s1, w1)"
    "ws_valid m" "ws_fin m" "ws_opcode m = sw_data_type self" "ws_payload m = xs" "ws_mask m \<noteq> None \<longleftrightarrow> sw_client_role self"
    "w_out w1 fd = w_out w fd @ ws_wire m" "ws_over fd (sw_stream s1) w1" "sw_data_type s1 = sw_data_type self"
    "sw_client_role s1 = sw_client_role self"
    using ws_write_message [OF Cons.prems(1,2) len(1)] by metis
  obtain ms s2 w2 where r: "ws_writes xss s1 w1 = Some (s2, w2)" "w_out w2 fd = w_out w1 fd @ concat (map ws_wire ms)"
    "map ws_payload ms = xss" "\<forall>m \<in> set ms. ws_valid m \<and> ws_data_message m \<and> (ws_mask m \<noteq> None \<longleftrightarrow> sw_client_role s1)"
    using Cons.IH [of s1 w1] m(8-10) Cons.prems(2,3) by auto
  have "ws_data_message m"
    using m(3-5) Cons.prems(2) len(2) by (simp add: ws_data_message_def)
  then show ?case
    using m r by (intro exI [of _ "m # ms"] exI [of _ s2] exI [of _ w2]) simp
qed

text \<open>C4. WebSocket messages are delivered: whatever non-empty messages a ready stream writes (masked by a client with random masks, unmasked by a server), and however the bytes on the wire are cut into chunks of at most 4096 bytes, the ready peer of the other role gets exactly these messages, one per read, in order and unmasked, provided it reads with room for the longest.\<close>

theorem ws_messages_delivered:
  assumes sender: "ws_over cfd (sw_stream c) cw" "sw_data_type c = WS_OPCODE_TEXT \<or> sw_data_type c = WS_OPCODE_BINARY" "w_out cw cfd = []"
    and receiver: "ws_over sfd (sw_stream s) sw" "stream_ws_get_status s = STREAM_ST_READY" "sw_buffer s = []" "sw_cache s = []"
      "sw_client_role s = (\<not> sw_client_role c)"
    and msgs: "\<forall>xs \<in> set xss. xs \<noteq> [] \<and> length xs < 2 ^ 30 \<and> length xs \<le> n"
  shows "\<exists>c' cw'. ws_writes xss c cw = Some (c', cw') \<and>
    (\<forall>chunks. concat chunks = w_out cw' cfd \<and> (\<forall>x \<in> set chunks. x \<noteq> [] \<and> length x \<le> 4096) \<longrightarrow>
      (\<exists>s' sw'. ws_reads n (length xss) s (sw\<lparr>w_rd := (\<lambda>_. map RdData chunks)\<rparr>) =
        Some (map (\<lambda>xs. (int (length xs), xs)) xss, s', sw')))"
proof -
  obtain ms c' cw' where w: "ws_writes xss c cw = Some (c', cw')" "w_out cw' cfd = concat (map ws_wire ms)" "map ws_payload ms = xss"
    "\<forall>m \<in> set ms. ws_valid m \<and> ws_data_message m \<and> (ws_mask m \<noteq> None \<longleftrightarrow> sw_client_role c)"
    using ws_writes_eq [OF sender(1,2), of xss] msgs sender(3) by auto
  have enc: "concat (map ws_wire ms) = concat (map ws_enc ms)"
    using w(4) ws_enc_wire by (auto intro!: arg_cong [where f = concat])
  have plain: "\<forall>m \<in> set ms. ws_data_message m \<and> ws_plain (sw_client_role s) m"
    using w(4) receiver(5) by (auto simp: ws_plain_def ws_data_message_def)
  have "\<exists>s' sw'. ws_reads n (length xss) s (sw\<lparr>w_rd := (\<lambda>_. map RdData chunks)\<rparr>) =
      Some (map (\<lambda>xs. (int (length xs), xs)) xss, s', sw')"
    if ch: "concat chunks = w_out cw' cfd" "\<forall>x \<in> set chunks. x \<noteq> [] \<and> length x \<le> 4096" for chunks
  proof -
    have "drain ws_scan (concat chunks) = (ms, [])"
      unfolding ch(1) w(2) enc using ws.drain_encoded [of ms "[]"] w(4) by simp
    then have "ws_receiving sfd ms s (sw\<lparr>w_rd := (\<lambda>_. map RdData chunks)\<rparr>)"
      unfolding ws_receiving_def using receiver plain ch(2)
      by (intro conjI exI [of _ "[]"] exI [of _ ms] exI [of _ chunks])
         (auto simp: stream_ws_get_status_def stream_get_status_def WS_MESSAGE_BUFFER_SIZE_def)
    moreover have "\<forall>m \<in> set ms. length (ws_payload m) \<le> n"
      using msgs w(3) by auto
    ultimately have "\<exists>s' sw'. ws_reads n (length ms) s (sw\<lparr>w_rd := (\<lambda>_. map RdData chunks)\<rparr>) =
        Some (map (\<lambda>m. (int (length (ws_payload m)), ws_payload m)) ms, s', sw')"
      by (rule ws_receiving_reads)
    moreover have "length xss = length ms" "map (\<lambda>m. (int (length (ws_payload m)), ws_payload m)) ms = map (\<lambda>xs. (int (length xs), xs)) xss"
      using w(3) by (auto simp: comp_def)
    ultimately show ?thesis by simp
  qed
  with w(1) show ?thesis by blast
qed


subsection \<open>Keep-alive\<close>

text \<open>A time check when the clock stands at \<open>t\<close> seconds.\<close>

definition ws_check :: "unit stream stream_ws \<Rightarrow> int \<Rightarrow> world \<Rightarrow> (int \<times> unit stream stream_ws \<times> world) option" where
  "ws_check self t w = stream_ws_do_time base_ops self (w\<lparr>w_clock := (w_clock w)\<lparr>clock_s := t\<rparr>\<rparr>)"

lemma ws_over_time: "ws_over fd s w \<Longrightarrow> stream_do_time base_ops s w' = Some (1, s, w')"
  by (auto simp: ws_over_def stream_do_time_def base_ops_def stream_ops_of_def)

lemma ws_over_clock [simp]: "ws_over fd s (w\<lparr>w_clock := c\<rparr>) = ws_over fd s w"
  by (simp add: ws_over_def)

lemma ws_check_eq:
  assumes o: "ws_over fd (sw_stream self) w"
    and t: "sw_keep_alive_timer self = \<lparr>tm_start = t0, tm_interval = k, tm_flags = TIMER_SEC\<rparr>" "0 < k"
  shows "\<exists>ret self' w'. ws_check self t w = Some (ret, self', w') \<and> ws_over fd (sw_stream self') w' \<and>
    sw_client_role self' = sw_client_role self \<and> sw_buffer self' = sw_buffer self \<and>
    (if t < t0 + k then self' = self \<and> w_out w' fd = w_out w fd
     else if sw_client_role self \<and> sw_keep_alive_responded self
     then stream_ws_get_status self' = stream_ws_get_status self \<and> \<not> sw_keep_alive_responded self' \<and>
       sw_keep_alive_timer self' = \<lparr>tm_start = t, tm_interval = k, tm_flags = TIMER_SEC\<rparr> \<and>
       (\<exists>key. length key = 4 \<and> w_out w' fd = w_out w fd @ [0x89, 0x80] @ key)
     else stream_ws_get_status self' = STREAM_ST_CLOSING \<and> w_out w' fd = w_out w fd)"
proof -
  let ?c = "(w_clock w)\<lparr>clock_s := t\<rparr>" and ?w = "w\<lparr>w_clock := (w_clock w)\<lparr>clock_s := t\<rparr>\<rparr>"
  have o2: "ws_over fd (sw_stream self) ?w" using o by simp
  have e: "timer_expired (sw_keep_alive_timer self) ?c = (\<not> t < t0 + k, ?c)"
    using t timer_expired_world [of "sw_keep_alive_timer self" ?w]
    by (auto simp: sec_timer_def deadline_passed_def timer_running_def clock_get_seconds_def)
  show ?thesis
  proof (cases "\<not> t < t0 + k \<and> sw_client_role self \<and> sw_keep_alive_responded self")
    case False
    let ?s = "if t < t0 + k then self else stream_ws_set_status self STREAM_ST_CLOSING"
    have "ws_time_keep_alive base_ops self ?w = Some (?s, ?w)"
      using False by (auto simp: ws_time_keep_alive_def e Let_def)
    moreover have "ws_over fd (sw_stream ?s) w"
      using o by (simp add: stream_ws_set_status_def)
    ultimately have "ws_check self t w = Some (1, ?s, ?w)"
      using ws_over_time [of fd "sw_stream ?s" w] by (simp add: ws_check_def stream_ws_do_time_def)
    then show ?thesis
      using False o by (auto simp: stream_ws_set_status_def stream_set_status_def stream_ws_get_status_def stream_get_status_def)
  next
    case True
    obtain s1 w1 where g: "stream_ws_generate_mask self ?w = (s1, w1)" by fastforce
    define m where "m = \<lparr>ws_fin = True, ws_opcode = 9, ws_mask = sw_mask s1, ws_payload = []\<rparr>"
    note f = ws_write_frame_over [OF o2 g _ _ m_def]
    obtain key where s1: "s1 = self\<lparr>sw_mask := Some key\<rparr>" using f(3,5) True by auto
    obtain p where w1: "w1 = ?w\<lparr>w_rand_pos := p\<rparr>" using f(4) by auto
    have key: "length key = 4" using f(2) by (auto simp: ws_valid_def m_def s1 WS_MASK_SIZE_def)
    have wire: "ws_wire m = [0x89, 0x80] @ key"
      by (simp add: ws_wire_def m_def s1 ws_flags_def ws_size_field_def ws_masked_def)
    have r: "timer_restart (sw_keep_alive_timer self) ?c =
        (\<lparr>tm_start = t, tm_interval = k, tm_flags = TIMER_SEC\<rparr>, ?c)"
      using t by (simp add: timer_restart_def clock_get_seconds_def)
    let ?w2 = "w_wrote fd (ws_wire m) w1"
    let ?s = "s1\<lparr>sw_keep_alive_responded := False, sw_keep_alive_timer := \<lparr>tm_start = t, tm_interval = k, tm_flags = TIMER_SEC\<rparr>\<rparr>"
    have "ws_time_keep_alive base_ops self ?w = Some (?s, ?w2)"
      using f(1) g True r by (simp add: ws_time_keep_alive_def e Let_def s1 w1)
    then have "ws_check self t w = Some (1, ?s, ?w2)"
      using ws_over_time [OF o] by (simp add: ws_check_def stream_ws_do_time_def s1)
    then show ?thesis
      using True o key by (simp add: s1 w1 wire stream_ws_get_status_def)
  qed
qed

text \<open>C7. A dead peer is noticed: a ready client whose last ping was answered sends a ping at the first time check after its deadline and stays open; if nothing arrives, the first check after another interval closes the stream; if the pong arrives, the stream stays open and the next check sends another ping. A server closes at the first check after its deadline. Before a deadline a check changes nothing.\<close>

theorem ws_dead_peer_noticed:
  assumes o: "ws_over fd (sw_stream self) w" "stream_ws_get_status self = STREAM_ST_READY" "sw_keep_alive_responded self"
    and t: "sw_keep_alive_timer self = \<lparr>tm_start = t0, tm_interval = k, tm_flags = TIMER_SEC\<rparr>" "0 < k"
    and times: "t < t0 + k" "t0 + k \<le> t1" "t1 + k \<le> t2"
  shows "(\<exists>ret w'. ws_check self t w = Some (ret, self, w') \<and> w_out w' fd = w_out w fd) \<and>
    (\<exists>ret s1 w1. ws_check self t1 w = Some (ret, s1, w1) \<and>
      (if sw_client_role self
       then stream_ws_get_status s1 = STREAM_ST_READY \<and>
         (\<exists>key. length key = 4 \<and> w_out w1 fd = w_out w fd @ [0x89, 0x80] @ key) \<and>
         (\<exists>ret s2 w2. ws_check s1 t2 w1 = Some (ret, s2, w2) \<and> stream_ws_get_status s2 = STREAM_ST_CLOSING) \<and>
         (\<exists>s2 s3 w3 ret. ws_frames_loop base_ops [0x8A, 0x00] s1 w1 = Some (s2, w1) \<and>
            ws_check s2 t2 w1 = Some (ret, s3, w3) \<and> stream_ws_get_status s3 = STREAM_ST_READY \<and>
            (\<exists>key. length key = 4 \<and> w_out w3 fd = w_out w1 fd @ [0x89, 0x80] @ key))
       else stream_ws_get_status s1 = STREAM_ST_CLOSING \<and> w_out w1 fd = w_out w fd))"
proof -
  have before: "\<exists>ret w'. ws_check self t w = Some (ret, self, w') \<and> w_out w' fd = w_out w fd"
    using ws_check_eq [OF o(1) t, of t] times(1) by auto
  obtain ret s1 w1 where c1: "ws_check self t1 w = Some (ret, s1, w1)" "ws_over fd (sw_stream s1) w1"
    "sw_client_role s1 = sw_client_role self" and
    r1: "if sw_client_role self
     then stream_ws_get_status s1 = STREAM_ST_READY \<and> \<not> sw_keep_alive_responded s1 \<and>
       sw_keep_alive_timer s1 = \<lparr>tm_start = t1, tm_interval = k, tm_flags = TIMER_SEC\<rparr> \<and>
       (\<exists>key. length key = 4 \<and> w_out w1 fd = w_out w fd @ [0x89, 0x80] @ key)
     else stream_ws_get_status s1 = STREAM_ST_CLOSING \<and> w_out w1 fd = w_out w fd"
    using ws_check_eq [OF o(1) t, of t1] times(2) o(2,3) by auto
  show ?thesis
  proof (cases "sw_client_role self")
    case False
    then show ?thesis using before c1(1) r1 by auto
  next
    case True
    then have t1: "sw_keep_alive_timer s1 = \<lparr>tm_start = t1, tm_interval = k, tm_flags = TIMER_SEC\<rparr>"
      "\<not> sw_keep_alive_responded s1" "stream_ws_get_status s1 = STREAM_ST_READY"
      using r1 by simp_all
    have silent: "\<exists>ret s2 w2. ws_check s1 t2 w1 = Some (ret, s2, w2) \<and> stream_ws_get_status s2 = STREAM_ST_CLOSING"
      using ws_check_eq [OF c1(2) t1(1) t(2), of t2] times(3) t1(2) by auto
    let ?m = "\<lparr>ws_fin = True, ws_opcode = 10, ws_mask = None, ws_payload = []\<rparr>"
    have "ws_valid ?m" "ws_wire ?m = [0x8A, 0]"
      by (simp_all add: ws_valid_def ws_wire_def ws_flags_def ws_size_field_def WS_MAX_HEADER_SIZE_def size_bound_def)
    then have d: "drain ws_scan [0x8A, 0] = ([?m], [])"
      using ws.drain_encoded [of "[?m]" "[]"] ws_enc_wire [of ?m] by simp
    then have loop: "ws_frames_loop base_ops [0x8A, 0] s1 w1 = Some (s1\<lparr>sw_keep_alive_responded := True, sw_buffer := []\<rparr>, w1)"
      using ws_frames_loop_eq [OF d, of s1 base_ops w1] by (simp add: ws_plain_def ws_effect_def ws_scan_Nil)
    let ?s2 = "s1\<lparr>sw_keep_alive_responded := True, sw_buffer := []\<rparr>"
    have "\<exists>ret s3 w3. ws_check ?s2 t2 w1 = Some (ret, s3, w3) \<and> stream_ws_get_status s3 = STREAM_ST_READY \<and>
        (\<exists>key. length key = 4 \<and> w_out w3 fd = w_out w1 fd @ [0x89, 0x80] @ key)"
      using ws_check_eq [of fd ?s2 w1 t1 k t2] c1(2,3) t1 t(2) times(3) True by (auto simp: stream_ws_get_status_def)
    then show ?thesis
      using before c1(1) r1 True silent loop by auto
  qed
qed

subsection \<open>A frame that hangs the reader\<close>

definition ws_hang :: bytes where
  "ws_hang = [0x88, 0x7F, 0xFF, 0xFF, 0xFF, 0xFF, 0xFF, 0xFF, 0xFF, 0xF6]"

lemma ws_hang_frame:
  assumes "length r < 2 ^ 32"
  shows "ws_parse_frame f0 (ws_hang @ r) (length (ws_hang @ r)) = Some (True, ws_header (ws_hang @ r) (2 ^ 64 - 10), 0)"
    and "stream_ws_handle_received_frame ops self (ws_header (ws_hang @ r) (2 ^ 64 - 10)) (ws_hang @ r) w = Some (self, w)"
proof -
  have h: "ws_header_size (ws_hang @ r) = 10" "ws_announced (ws_hang @ r) = Some (2 ^ 64 - 10)" "\<not> ws_is_masked (ws_hang @ r)"
    by (simp_all add: ws_hang_def ws_header_size_def ws_is_masked_def ws_ext_def ws_len7_def ws_sizes ws_announced_def ws_get64_def)
  have "size_add 10 (2 ^ 64 - 10) = 0"
    by (simp add: size_add_def size_bound_def)
  then show "ws_parse_frame f0 (ws_hang @ r) (length (ws_hang @ r)) = Some (True, ws_header (ws_hang @ r) (2 ^ 64 - 10), 0)"
    using ws_parse_frame_full [of "length (ws_hang @ r)" "ws_hang @ r" "2 ^ 64 - 10" f0] h by (simp add: ws_hang_def)
  show "stream_ws_handle_received_frame ops self (ws_header (ws_hang @ r) (2 ^ 64 - 10)) (ws_hang @ r) w = Some (self, w)"
    using h by (simp add: stream_ws_handle_received_frame_def ws_unmask_def ws_header_def adv_def ws_hang_def)
qed

lemma ws_frames_loop_hangs:
  assumes "length r < 2 ^ 32"
  shows "ws_frames_loop ops (ws_hang @ r) self w = None"
proof -
  have "b \<noteq> ws_hang @ r" if "ws_frames_loop ops b self w = Some y" for b self w y
    apply (rule ws_frames_loop.raw_induct [where P = "\<lambda>ops b self w y. b \<noteq> ws_hang @ r", OF _ that])
    subgoal premises step for loop ops b self w y
    proof
      assume b: "b = ws_hang @ r"
      have "loop ops (ws_hang @ r) self w = Some y"
        using step(2) ws_hang_frame(1) [OF assms, of ws_frame0] ws_hang_frame(2) [OF assms, of ops self w]
        by (simp add: b ws_hang_def)
      then show False using step(1) by blast
    qed
    done
  then show ?thesis by (cases "ws_frames_loop ops (ws_hang @ r) self w") blast+
qed


text \<open>C8. Ten bytes hang a reader: a CLOSE header that announces a payload of 2^64 - 10 bytes is taken for a complete frame of length zero, handling it changes nothing and nothing is cut from the buffer, so that the loop over received frames sees the same frame for ever: the read of a ready stream, client or server, that gets these bytes never returns.\<close>

theorem ws_close_header_hangs:
  assumes "ws_over fd (sw_stream self) w" and "stream_ws_get_status self = STREAM_ST_READY"
    and "sw_buffer self = []" and "sw_cache self = []"
    and "w_rd w fd = RdData (ws_hang @ r) # es" and "length (ws_hang @ r) \<le> WS_MESSAGE_BUFFER_SIZE"
  shows "(\<exists>f. ws_parse_frame ws_frame0 (ws_hang @ r) (length (ws_hang @ r)) = Some (True, f, 0) \<and>
      (\<forall>self' w'. stream_ws_handle_received_frame base_ops self' f (ws_hang @ r) w' = Some (self' :: unit stream stream_ws, w'))) \<and>
    stream_ws_do_read base_ops self n w = None"
proof -
  have len: "length r < 2 ^ 32"
    using assms(6) by (simp add: WS_MESSAGE_BUFFER_SIZE_def)
  let ?w = "w\<lparr>w_rd := (w_rd w)(fd := es)\<rparr>"
  define x where "x = ws_hang @ r"
  have x: "x \<noteq> []" and loop: "ws_frames_loop base_ops x s v = None" for s :: "unit stream stream_ws" and v
    using ws_frames_loop_hangs [OF len] by (simp_all add: x_def ws_hang_def [symmetric], simp add: ws_hang_def)
  obtain d where d: "st_decorated (sw_stream self) = Some d"
    "op_read base_ops d WS_MESSAGE_BUFFER_SIZE w = Some (int (length x), x, d, ?w)"
    using ws_over_read [OF assms(1), of WS_MESSAGE_BUFFER_SIZE] assms(5,6) unfolding x_def by metis
  have "ws_peek_loop base_ops self w = None"
    using d assms(2-4) x
    by (subst ws_peek_loop.simps)
       (simp add: ws_message_waiting_def stream_ws_get_status_def stream_get_status_def Let_def loop del: base_sel)
  then have "stream_ws_do_read base_ops self n w = None"
    by (simp add: stream_ws_do_read_def stream_ws_peek_frame_def)
  then show ?thesis
    using ws_hang_frame [OF len] by blast
qed

subsection \<open>What a close frame carries\<close>

lemma ws_disconnect_wire:
  assumes "ws_over fd (sw_stream self) w" and "\<not> sw_client_role self"
  shows "stream_ws_disconnect base_ops self code w =
    Some ((stream_ws_set_status self STREAM_ST_CLOSING)\<lparr>sw_mask := None\<rparr>, w_wrote fd [0x88, 4, be16_hi code, 0, be16_lo code, 0] w)"
proof -
  let ?p = "[be16_hi code, 0, be16_lo code, 0]"
  have g: "stream_ws_generate_mask self w = (self\<lparr>sw_mask := None\<rparr>, w)"
    using assms(2) by (simp add: stream_ws_generate_mask_def)
  define m where "m = \<lparr>ws_fin = True, ws_opcode = 8, ws_mask = sw_mask (self\<lparr>sw_mask := None\<rparr>), ws_payload = ?p\<rparr>"
  have "ws_wire m = [0x88, 4] @ ?p"
    by (simp add: m_def ws_wire_def ws_flags_def ws_size_field_def)
  then have "stream_ws_write_frame base_ops (self\<lparr>sw_mask := None\<rparr>) 128 8 None ?p (length ?p) w =
      Some (int (length ([0x88, 4] @ ?p)), self\<lparr>sw_mask := None\<rparr>, w_wrote fd ([0x88, 4] @ ?p) w)"
    using ws_write_frame_over(1) [OF assms(1) g _ _ m_def] by simp
  then show ?thesis
    by (simp add: stream_ws_disconnect_def g stream_ws_set_status_def)
qed

definition ws_peer :: "bool \<Rightarrow> unit stream stream_ws" where
  "ws_peer client = (ws_ready (stream_ws_new (stream_new 3)) 90 world0)\<lparr>sw_client_role := client\<rparr>"

lemma ws_peer_sel [simp]:
  "ws_over 3 (sw_stream (ws_peer c)) world0" "stream_ws_get_status (ws_peer c) = STREAM_ST_READY" "sw_buffer (ws_peer c) = []"
  "sw_cache (ws_peer c) = []" "sw_client_role (ws_peer c) = c" "sw_data_type (ws_peer c) = 2" "sw_keep_alive_responded (ws_peer c)"
  "sw_keep_alive_timer (ws_peer c) = \<lparr>tm_start = 0, tm_interval = 90, tm_flags = TIMER_SEC\<rparr>"
  by (simp_all add: ws_peer_def ws_ready_def stream_ws_set_status_def stream_set_status_def stream_ws_get_status_def
      stream_get_status_def stream_ws_new_def stream_new_def stream_init_def ws_over_def world0_def)

theorem ws_close_header_hangs_witness:
  "stream_ws_do_read base_ops (ws_peer False) 100 (world0\<lparr>w_rd := (\<lambda>_. [RdData (ws_hang @ [])])\<rparr>) = None"
  using ws_close_header_hangs [of 3 "ws_peer False" "world0\<lparr>w_rd := (\<lambda>_. [RdData (ws_hang @ [])])\<rparr>" "[]" "[]" 100]
  by (simp add: ws_hang_def WS_MESSAGE_BUFFER_SIZE_def)

theorem ws_dead_peer_noticed_witness:
  "\<exists>ret s1 w1 ret2 s2 w2. ws_check (ws_peer True) 90 world0 = Some (ret, s1, w1) \<and>
     ws_check s1 180 w1 = Some (ret2, s2, w2) \<and> stream_ws_get_status s2 = STREAM_ST_CLOSING"
proof -
  have "\<exists>ret s1 w1. ws_check (ws_peer True) 90 world0 = Some (ret, s1, w1) \<and>
      (\<exists>ret s2 w2. ws_check s1 180 w1 = Some (ret, s2, w2) \<and> stream_ws_get_status s2 = STREAM_ST_CLOSING)"
    using ws_dead_peer_noticed [of 3 "ws_peer True" world0 0 90 5 90 180] by auto
  then show ?thesis by blast
qed

theorem ws_messages_delivered_witness:
  "\<exists>c' cw'. ws_writes [[1, 2, 3], [4]] (ws_peer True) world0 = Some (c', cw') \<and>
    (\<forall>chunks. concat chunks = w_out cw' 3 \<and> (\<forall>x \<in> set chunks. x \<noteq> [] \<and> length x \<le> 4096) \<longrightarrow>
      (\<exists>s' sw'. ws_reads 10 (length [[1, 2, 3], [4 :: byte]]) (ws_peer False) (world0\<lparr>w_rd := (\<lambda>_. map RdData chunks)\<rparr>) =
        Some (map (\<lambda>xs. (int (length xs), xs)) [[1, 2, 3], [4]], s', sw')))"
  by (rule ws_messages_delivered [of 3 "ws_peer True" world0 3 "ws_peer False" world0 "[[1, 2, 3], [4]]" 10])
     (simp_all, simp add: world0_def)

end
