(* ===== verification/Store.thy ===== *)
theory Store
  imports Cmx_Prelude
begin

section \<open>Allocated objects and pointers to them\<close>

text \<open>
  The part of memory.c that hands out and takes back objects, for code whose correctness is about
  who owns what: an address stands for one allocated object (a structure or a block of bytes), a
  pointer is an address or \<open>NULL\<close>. Reading, writing or freeing an address that is not allocated
  has no result. Allocation always finds an address that no live object has
  (\<open>store_ok\<close>); it does not fail, because the wrappers restart the process when \<open>malloc\<close> does.
\<close>

type_synonym ptr = "nat option"

record 'o store =
  st_obj :: "nat \<rightharpoonup> 'o"
  st_next :: nat

definition store_empty :: "'o store" where
  "store_empty = \<lparr>st_obj = Map.empty, st_next = 0\<rparr>"

definition store_ok :: "'o store \<Rightarrow> bool" where
  "store_ok h \<longleftrightarrow> (\<forall>a. st_next h \<le> a \<longrightarrow> st_obj h a = None)"

definition load :: "'o store \<Rightarrow> ptr \<Rightarrow> 'o option" where
  "load h p = Option.bind p (st_obj h)"

definition assign :: "ptr \<Rightarrow> 'o \<Rightarrow> 'o store \<Rightarrow> 'o store option" where
  "assign p x h = (case p of
     Some a \<Rightarrow> if st_obj h a = None then None else Some (h\<lparr>st_obj := (st_obj h)(a \<mapsto> x)\<rparr>)
   | None \<Rightarrow> None)"

text \<open>\<open>xmalloc\<close> with the object that is then written to the new block.\<close>

definition xmalloc :: "'o \<Rightarrow> 'o store \<Rightarrow> ptr \<times> 'o store" where
  "xmalloc x h =
     (Some (st_next h), h\<lparr>st_obj := (st_obj h)(st_next h \<mapsto> x), st_next := Suc (st_next h)\<rparr>)"

text \<open>\<open>free\<close> ignores a null pointer; the result of \<open>xfree\<close> is always \<open>NULL\<close>.\<close>

definition xfree :: "ptr \<Rightarrow> 'o store \<Rightarrow> (ptr \<times> 'o store) option" where
  "xfree p h = (case p of
     None \<Rightarrow> Some (None, h)
   | Some a \<Rightarrow> if st_obj h a = None then None else Some (None, h\<lparr>st_obj := (st_obj h)(a := None)\<rparr>))"

named_theorems store_simps \<open>loads, assignments, allocation and release, by address\<close>

lemma load_None [simp]: "load h None = None"
  by (simp add: load_def)

lemma load_Some [simp]: "load h (Some a) = st_obj h a"
  by (simp add: load_def)

lemma store_ok_empty [simp]: "store_ok store_empty"
  by (simp add: store_ok_def store_empty_def)

lemma store_ok_fresh [simp]: "store_ok h \<Longrightarrow> st_obj h (st_next h) = None"
  by (simp add: store_ok_def)

lemma store_ok_less: "store_ok h \<Longrightarrow> st_obj h a = Some x \<Longrightarrow> a < st_next h"
  by (metis linorder_not_le option.distinct(1) store_ok_def)

lemma store_ok_neq: "store_ok h \<Longrightarrow> st_obj h a = Some x \<Longrightarrow> a \<noteq> st_next h"
  by auto

lemma store_ok_neq_Suc: "store_ok h \<Longrightarrow> st_obj h a = Some x \<Longrightarrow> a \<noteq> Suc (st_next h)"
  using store_ok_less by fastforce

lemma assign_Some [store_simps]:
  "st_obj h a = Some y \<Longrightarrow> assign (Some a) x h = Some (h\<lparr>st_obj := (st_obj h)(a \<mapsto> x)\<rparr>)"
  by (simp add: assign_def)

lemma xfree_Some [store_simps]:
  "st_obj h a = Some y \<Longrightarrow> xfree (Some a) h = Some (None, h\<lparr>st_obj := (st_obj h)(a := None)\<rparr>)"
  by (simp add: xfree_def)

lemma xfree_None [store_simps]: "xfree None h = Some (None, h)"
  by (simp add: xfree_def)

lemma store_ok_assign: "store_ok h \<Longrightarrow> assign p x h = Some h' \<Longrightarrow> store_ok h'"
  by (auto simp: assign_def store_ok_def split: option.splits if_splits)

lemma store_ok_xmalloc: "store_ok h \<Longrightarrow> xmalloc x h = (p, h') \<Longrightarrow> store_ok h'"
  by (auto simp: xmalloc_def store_ok_def)

lemma store_ok_xfree: "store_ok h \<Longrightarrow> xfree p h = Some (q, h') \<Longrightarrow> store_ok h'"
  by (auto simp: xfree_def store_ok_def split: option.splits if_splits)

text \<open>A second release of an address fails, until it is allocated again.\<close>

lemma xfree_twice: "xfree (Some a) h = Some (q, h') \<Longrightarrow> xfree (Some a) h' = None"
  by (auto simp: xfree_def split: if_splits)

end
