(* ===== verification/Mqtt_Msg.thy ===== *)
theory Mqtt_Msg
  imports Cstring Store
begin

section \<open>MQTT messages and configurations\<close>

text \<open>
  mqtt.c, \<open>mqtt_msg_*\<close> and \<open>mqtt_conf_*\<close>: the two structures that own strings, with their
  constructors, destructors, copy and move operators over the store of allocated objects. The
  structures themselves live in the store, so \<open>self\<close> and \<open>other\<close> may be the same object.
  Arguments of the constructors are given as the memory they point to (\<open>None\<close> for \<open>NULL\<close>).
  Copying no bytes from a null pointer is taken to be harmless, as it is in every C library.
\<close>

record mqtt_msg =
  msg_topic :: ptr
  msg_payload :: ptr
  msg_payload_len :: u16
  msg_qos :: byte
  msg_retain :: bool

record mqtt_conf =
  conf_client_id :: ptr
  conf_user_name :: ptr
  conf_password :: ptr
  conf_password_len :: u16
  conf_keep_alive :: u16

datatype mqtt_obj = Uninit | Block bytes | Msg mqtt_msg | Conf mqtt_conf

type_synonym mqtt_store = "mqtt_obj store"

definition MQTT_DEFAULT_KEEP_ALIVE :: u16 where
  "MQTT_DEFAULT_KEEP_ALIVE = 3 * 60"

subsection \<open>Reading and writing through pointers\<close>

definition msg_at :: "mqtt_store \<Rightarrow> ptr \<Rightarrow> mqtt_msg option" where
  "msg_at h p = (case load h p of Some (Msg m) \<Rightarrow> Some m | _ \<Rightarrow> None)"

definition conf_at :: "mqtt_store \<Rightarrow> ptr \<Rightarrow> mqtt_conf option" where
  "conf_at h p = (case load h p of Some (Conf c) \<Rightarrow> Some c | _ \<Rightarrow> None)"

definition block_at :: "mqtt_store \<Rightarrow> ptr \<Rightarrow> bytes option" where
  "block_at h p = (case load h p of Some (Block xs) \<Rightarrow> Some xs | _ \<Rightarrow> None)"

definition msg_update :: "(mqtt_msg \<Rightarrow> mqtt_msg) \<Rightarrow> ptr \<Rightarrow> mqtt_store \<Rightarrow> mqtt_store option" where
  "msg_update f p h = do { m \<leftarrow> msg_at h p; assign p (Msg (f m)) h }"

definition conf_update :: "(mqtt_conf \<Rightarrow> mqtt_conf) \<Rightarrow> ptr \<Rightarrow> mqtt_store \<Rightarrow> mqtt_store option" where
  "conf_update f p h = do { c \<leftarrow> conf_at h p; assign p (Conf (f c)) h }"

definition dup_string :: "bytes option \<Rightarrow> mqtt_store \<Rightarrow> (ptr \<times> mqtt_store) option" where
  "dup_string src h = do { s \<leftarrow> src; t \<leftarrow> xstrdup s; Some (xmalloc (Block t) h) }"

definition dup_memory :: "bytes option \<Rightarrow> u16 \<Rightarrow> mqtt_store \<Rightarrow> (ptr \<times> mqtt_store) option" where
  "dup_memory src n h = do {
     t \<leftarrow> (case src of Some s \<Rightarrow> xmemdup s (unat n) | None \<Rightarrow> if n = 0 then Some [] else None);
     Some (xmalloc (Block t) h)
   }"

subsection \<open>Messages\<close>

definition mqtt_msg_init :: "ptr \<Rightarrow> mqtt_store \<Rightarrow> mqtt_store option" where
  "mqtt_msg_init self h =
     (if load h self = Some Uninit \<or> msg_at h self \<noteq> None
      then assign self (Msg \<lparr>msg_topic = None, msg_payload = None, msg_payload_len = 0,
                             msg_qos = 0, msg_retain = False\<rparr>) h
      else None)"

definition mqtt_msg_clean :: "ptr \<Rightarrow> mqtt_store \<Rightarrow> mqtt_store option" where
  "mqtt_msg_clean self h = do {
     m \<leftarrow> msg_at h self;
     h \<leftarrow> (if msg_topic m \<noteq> None
          then do { (q, h) \<leftarrow> xfree (msg_topic m) h; msg_update (msg_topic_update (\<lambda>_. q)) self h }
          else Some h);
     m \<leftarrow> msg_at h self;
     if msg_payload m \<noteq> None
     then do { (q, h) \<leftarrow> xfree (msg_payload m) h; msg_update (msg_payload_update (\<lambda>_. q)) self h }
     else Some h
   }"

definition mqtt_msg_new :: "mqtt_store \<Rightarrow> (ptr \<times> mqtt_store) option" where
  "mqtt_msg_new h = (let (self, h) = xmalloc Uninit h in do { h \<leftarrow> mqtt_msg_init self h; Some (self, h) })"

text \<open>\<open>qos\<close> is passed as an \<open>unsigned short\<close> and stored as an \<open>unsigned char\<close>.\<close>

definition mqtt_msg_create ::
  "bytes option \<Rightarrow> bytes option \<Rightarrow> u16 \<Rightarrow> u16 \<Rightarrow> bool \<Rightarrow> mqtt_store \<Rightarrow> (ptr \<times> mqtt_store) option" where
  "mqtt_msg_create topic payload payload_len qos retain h = do {
     (self, h) \<leftarrow> mqtt_msg_new h;
     (t, h) \<leftarrow> dup_string topic h;
     h \<leftarrow> msg_update (msg_topic_update (\<lambda>_. t)) self h;
     (d, h) \<leftarrow> dup_memory payload payload_len h;
     h \<leftarrow> msg_update (msg_payload_update (\<lambda>_. d)) self h;
     h \<leftarrow> msg_update (msg_payload_len_update (\<lambda>_. payload_len)) self h;
     h \<leftarrow> msg_update (msg_qos_update (\<lambda>_. ucast qos)) self h;
     h \<leftarrow> msg_update (msg_retain_update (\<lambda>_. retain)) self h;
     Some (self, h)
   }"

definition mqtt_msg_delete :: "ptr \<Rightarrow> mqtt_store \<Rightarrow> (ptr \<times> mqtt_store) option" where
  "mqtt_msg_delete self h = do { h \<leftarrow> mqtt_msg_clean self h; xfree self h }"

definition mqtt_msg_copy :: "ptr \<Rightarrow> ptr \<Rightarrow> mqtt_store \<Rightarrow> mqtt_store option" where
  "mqtt_msg_copy self other h = do {
     m \<leftarrow> msg_at h other;
     (t, h) \<leftarrow> dup_string (block_at h (msg_topic m)) h;
     h \<leftarrow> msg_update (msg_topic_update (\<lambda>_. t)) self h;
     m \<leftarrow> msg_at h other;
     (d, h) \<leftarrow> dup_memory (block_at h (msg_payload m)) (msg_payload_len m) h;
     h \<leftarrow> msg_update (msg_payload_update (\<lambda>_. d)) self h;
     m \<leftarrow> msg_at h other;
     h \<leftarrow> msg_update (msg_payload_len_update (\<lambda>_. msg_payload_len m)) self h;
     m \<leftarrow> msg_at h other;
     h \<leftarrow> msg_update (msg_qos_update (\<lambda>_. msg_qos m)) self h;
     m \<leftarrow> msg_at h other;
     msg_update (msg_retain_update (\<lambda>_. msg_retain m)) self h
   }"

definition mqtt_msg_move :: "ptr \<Rightarrow> ptr \<Rightarrow> mqtt_store \<Rightarrow> mqtt_store option" where
  "mqtt_msg_move self other h = do {
     m \<leftarrow> msg_at h other;
     h \<leftarrow> msg_update (msg_topic_update (\<lambda>_. msg_topic m)) self h;
     h \<leftarrow> msg_update (msg_topic_update (\<lambda>_. None)) other h;
     m \<leftarrow> msg_at h other;
     h \<leftarrow> msg_update (msg_payload_update (\<lambda>_. msg_payload m)) self h;
     h \<leftarrow> msg_update (msg_payload_update (\<lambda>_. None)) other h;
     m \<leftarrow> msg_at h other;
     h \<leftarrow> msg_update (msg_payload_len_update (\<lambda>_. msg_payload_len m)) self h;
     h \<leftarrow> msg_update (msg_payload_len_update (\<lambda>_. 0)) other h;
     m \<leftarrow> msg_at h other;
     h \<leftarrow> msg_update (msg_qos_update (\<lambda>_. msg_qos m)) self h;
     m \<leftarrow> msg_at h other;
     msg_update (msg_retain_update (\<lambda>_. msg_retain m)) self h
   }"

subsection \<open>Configurations\<close>

definition mqtt_conf_init :: "ptr \<Rightarrow> mqtt_store \<Rightarrow> mqtt_store option" where
  "mqtt_conf_init self h =
     (if load h self = Some Uninit \<or> conf_at h self \<noteq> None
      then assign self (Conf \<lparr>conf_client_id = None, conf_user_name = None, conf_password = None,
                              conf_password_len = 0, conf_keep_alive = MQTT_DEFAULT_KEEP_ALIVE\<rparr>) h
      else None)"

definition mqtt_conf_clean :: "ptr \<Rightarrow> mqtt_store \<Rightarrow> mqtt_store option" where
  "mqtt_conf_clean self h = do {
     c \<leftarrow> conf_at h self;
     h \<leftarrow> (if conf_client_id c \<noteq> None
          then do { (q, h) \<leftarrow> xfree (conf_client_id c) h; conf_update (conf_client_id_update (\<lambda>_. q)) self h }
          else Some h);
     c \<leftarrow> conf_at h self;
     h \<leftarrow> (if conf_user_name c \<noteq> None
          then do { (q, h) \<leftarrow> xfree (conf_user_name c) h; conf_update (conf_user_name_update (\<lambda>_. q)) self h }
          else Some h);
     c \<leftarrow> conf_at h self;
     if conf_password c \<noteq> None
     then do { (q, h) \<leftarrow> xfree (conf_password c) h; conf_update (conf_password_update (\<lambda>_. q)) self h }
     else Some h
   }"

definition mqtt_conf_new :: "mqtt_store \<Rightarrow> (ptr \<times> mqtt_store) option" where
  "mqtt_conf_new h = (let (self, h) = xmalloc Uninit h in do { h \<leftarrow> mqtt_conf_init self h; Some (self, h) })"

definition mqtt_conf_create ::
  "bytes option \<Rightarrow> u16 \<Rightarrow> bytes option \<Rightarrow> bytes option \<Rightarrow> u16 \<Rightarrow> mqtt_store \<Rightarrow> (ptr \<times> mqtt_store) option" where
  "mqtt_conf_create client_id keep_alive user_name password password_len h = do {
     (self, h) \<leftarrow> mqtt_conf_new h;
     h \<leftarrow> (if client_id \<noteq> None
          then do { (q, h) \<leftarrow> dup_string client_id h; conf_update (conf_client_id_update (\<lambda>_. q)) self h }
          else Some h);
     h \<leftarrow> conf_update (conf_keep_alive_update (\<lambda>_. keep_alive)) self h;
     h \<leftarrow> (if user_name \<noteq> None
          then do { (q, h) \<leftarrow> dup_string user_name h; conf_update (conf_user_name_update (\<lambda>_. q)) self h }
          else Some h);
     h \<leftarrow> (if password \<noteq> None \<and> password_len > 0
          then do {
            (q, h) \<leftarrow> dup_memory password password_len h;
            h \<leftarrow> conf_update (conf_password_update (\<lambda>_. q)) self h;
            conf_update (conf_password_len_update (\<lambda>_. password_len)) self h
          }
          else Some h);
     Some (self, h)
   }"

definition mqtt_conf_delete :: "ptr \<Rightarrow> mqtt_store \<Rightarrow> (ptr \<times> mqtt_store) option" where
  "mqtt_conf_delete self h = do { h \<leftarrow> mqtt_conf_clean self h; xfree self h }"

text \<open>The branch of the copy operator for one of the strings.\<close>

definition conf_copy_string ::
  "ptr \<Rightarrow> ((ptr \<Rightarrow> ptr) \<Rightarrow> mqtt_conf \<Rightarrow> mqtt_conf) \<Rightarrow> ptr \<Rightarrow> mqtt_store \<Rightarrow> mqtt_store option" where
  "conf_copy_string p f self h =
     (if p \<noteq> None
      then do { (q, h) \<leftarrow> dup_string (block_at h p) h; conf_update (f (\<lambda>_. q)) self h }
      else Some h)"

definition mqtt_conf_copy :: "ptr \<Rightarrow> ptr \<Rightarrow> mqtt_store \<Rightarrow> mqtt_store option" where
  "mqtt_conf_copy self other h = do {
     c \<leftarrow> conf_at h other;
     h \<leftarrow> conf_copy_string (conf_client_id c) conf_client_id_update self h;
     c \<leftarrow> conf_at h other;
     h \<leftarrow> conf_update (conf_keep_alive_update (\<lambda>_. conf_keep_alive c)) self h;
     c \<leftarrow> conf_at h other;
     h \<leftarrow> conf_copy_string (conf_user_name c) conf_user_name_update self h;
     c \<leftarrow> conf_at h other;
     if conf_password c \<noteq> None \<and> conf_password_len c > 0
     then do {
       (q, h) \<leftarrow> dup_memory (block_at h (conf_password c)) (conf_password_len c) h;
       h \<leftarrow> conf_update (conf_password_update (\<lambda>_. q)) self h;
       c \<leftarrow> conf_at h other;
       conf_update (conf_password_len_update (\<lambda>_. conf_password_len c)) self h
     }
     else Some h
   }"

definition mqtt_conf_move :: "ptr \<Rightarrow> ptr \<Rightarrow> mqtt_store \<Rightarrow> mqtt_store option" where
  "mqtt_conf_move self other h = do {
     c \<leftarrow> conf_at h other;
     h \<leftarrow> conf_update (conf_client_id_update (\<lambda>_. conf_client_id c)) self h;
     h \<leftarrow> conf_update (conf_client_id_update (\<lambda>_. None)) other h;
     c \<leftarrow> conf_at h other;
     h \<leftarrow> conf_update (conf_keep_alive_update (\<lambda>_. conf_keep_alive c)) self h;
     c \<leftarrow> conf_at h other;
     h \<leftarrow> conf_update (conf_user_name_update (\<lambda>_. conf_user_name c)) self h;
     h \<leftarrow> conf_update (conf_user_name_update (\<lambda>_. None)) other h;
     c \<leftarrow> conf_at h other;
     h \<leftarrow> conf_update (conf_password_update (\<lambda>_. conf_password c)) self h;
     h \<leftarrow> conf_update (conf_password_update (\<lambda>_. None)) other h;
     c \<leftarrow> conf_at h other;
     conf_update (conf_password_len_update (\<lambda>_. conf_password_len c)) self h
   }"

subsection \<open>Symbolic evaluation\<close>

lemma msg_at_eq [store_simps]: "st_obj h a = Some (Msg m) \<Longrightarrow> msg_at h (Some a) = Some m"
  by (simp add: msg_at_def)

lemma conf_at_eq [store_simps]: "st_obj h a = Some (Conf c) \<Longrightarrow> conf_at h (Some a) = Some c"
  by (simp add: conf_at_def)

lemma block_at_eq [store_simps]: "st_obj h a = Some (Block xs) \<Longrightarrow> block_at h (Some a) = Some xs"
  by (simp add: block_at_def)

lemma block_at_None [store_simps]: "block_at h None = None"
  by (simp add: block_at_def)

lemma msg_update_eq [store_simps]:
  "st_obj h a = Some (Msg m) \<Longrightarrow>
   msg_update f (Some a) h = Some (h\<lparr>st_obj := (st_obj h)(a \<mapsto> Msg (f m))\<rparr>)"
  by (simp add: msg_update_def store_simps)

lemma conf_update_eq [store_simps]:
  "st_obj h a = Some (Conf c) \<Longrightarrow>
   conf_update f (Some a) h = Some (h\<lparr>st_obj := (st_obj h)(a \<mapsto> Conf (f c))\<rparr>)"
  by (simp add: conf_update_def store_simps)

text \<open>A C string: its characters, the terminating zero, and whatever the block holds after it.\<close>

definition zstring :: "bytes \<Rightarrow> bytes \<Rightarrow> bool" where
  "zstring xs s \<longleftrightarrow> (\<exists>r. xs = s @ 0 # r) \<and> 0 \<notin> set s"

lemma dup_string_eq [store_simps]:
  "zstring xs s \<Longrightarrow> dup_string (Some xs) h = Some (xmalloc (Block (s @ [0])) h)"
  by (auto simp: zstring_def dup_string_def xstrdup_def xstrdupex_def rd_bytes_def)

lemma dup_memory_eq [store_simps]:
  "unat n \<le> length xs \<Longrightarrow> dup_memory (Some xs) n h = Some (xmalloc (Block (take (unat n) xs)) h)"
  by (simp add: dup_memory_def xmemdup_def rd_bytes_def)

lemma dup_memory_nothing [store_simps]: "dup_memory None 0 h = Some (xmalloc (Block []) h)"
  by (simp add: dup_memory_def)

lemma dup_string_NULL [store_simps]: "dup_string None h = None"
  by (simp add: dup_string_def)

lemma mqtt_msg_new_eq [store_simps]:
  "mqtt_msg_new h = Some (Some (st_next h),
     h\<lparr>st_obj := (st_obj h)(st_next h \<mapsto> Msg \<lparr>msg_topic = None, msg_payload = None, msg_payload_len = 0,
        msg_qos = 0, msg_retain = False\<rparr>), st_next := Suc (st_next h)\<rparr>)"
  by (simp add: mqtt_msg_new_def xmalloc_def mqtt_msg_init_def assign_def)

lemma mqtt_conf_new_eq [store_simps]:
  "mqtt_conf_new h = Some (Some (st_next h),
     h\<lparr>st_obj := (st_obj h)(st_next h \<mapsto> Conf \<lparr>conf_client_id = None, conf_user_name = None,
        conf_password = None, conf_password_len = 0, conf_keep_alive = MQTT_DEFAULT_KEEP_ALIVE\<rparr>),
       st_next := Suc (st_next h)\<rparr>)"
  by (simp add: mqtt_conf_new_def xmalloc_def mqtt_conf_init_def assign_def)

subsection \<open>Ownership of messages\<close>

text \<open>
  The object at \<open>p\<close> is a message with this topic, payload, quality of service and retain flag, and it
  owns two different blocks.
\<close>

definition msg_holds :: "mqtt_store \<Rightarrow> ptr \<Rightarrow> bytes \<Rightarrow> bytes \<Rightarrow> byte \<Rightarrow> bool \<Rightarrow> bool" where
  "msg_holds h p s d q r \<longleftrightarrow> (\<exists>a t n len xs ys. p = Some a \<and> t \<noteq> n \<and>
     st_obj h a = Some (Msg \<lparr>msg_topic = Some t, msg_payload = Some n, msg_payload_len = len,
                            msg_qos = q, msg_retain = r\<rparr>) \<and>
     st_obj h t = Some (Block xs) \<and> zstring xs s \<and>
     st_obj h n = Some (Block ys) \<and> unat len \<le> length ys \<and> take (unat len) ys = d)"

lemma c_str_dup [simp]: "zstring xs s \<Longrightarrow> zstring (s @ [0]) s"
  by (auto simp: zstring_def)

lemma msg_holds_other:
  "msg_holds h p s d q r \<Longrightarrow>
   \<forall>a x. st_obj h a = Some x \<longrightarrow> st_obj h' a = Some x \<Longrightarrow> msg_holds h' p s d q r"
  unfolding msg_holds_def by blast

lemma mqtt_msg_delete_eq:
  assumes "st_obj h a = Some (Msg m)" and "msg_topic m = Some t" and "msg_payload m = Some n"
    and "st_obj h t = Some (Block xs)" and "st_obj h n = Some (Block ys)" and "t \<noteq> n"
  shows "mqtt_msg_delete (Some a) h = Some (None, h\<lparr>st_obj := (st_obj h)(t := None, n := None, a := None)\<rparr>)"
proof -
  have "a \<noteq> t" "a \<noteq> n"
    using assms by auto
  then show ?thesis
    using assms by (simp add: mqtt_msg_delete_def mqtt_msg_clean_def store_simps fun_upd_twist fun_eq_iff)
qed

lemma mqtt_msg_copy_eq:
  assumes ok: "store_ok h" and ne: "a \<noteq> b"
    and a: "st_obj h a = Some (Msg m)"
    and b: "st_obj h b = Some (Msg \<lparr>msg_topic = Some t, msg_payload = Some n, msg_payload_len = len,
                                   msg_qos = q, msg_retain = r\<rparr>)"
    and t: "st_obj h t = Some (Block xs)" "zstring xs s"
    and n: "st_obj h n = Some (Block ys)" "unat len \<le> length ys"
  shows "mqtt_msg_copy (Some a) (Some b) h = Some
    (h\<lparr>st_obj := (st_obj h)(st_next h \<mapsto> Block (s @ [0]), Suc (st_next h) \<mapsto> Block (take (unat len) ys),
        a \<mapsto> Msg \<lparr>msg_topic = Some (st_next h), msg_payload = Some (Suc (st_next h)), msg_payload_len = len,
                  msg_qos = q, msg_retain = r\<rparr>), st_next := Suc (Suc (st_next h))\<rparr>)"
proof -
  have x: "a \<noteq> st_next h" "b \<noteq> st_next h" "n \<noteq> st_next h"
      "a \<noteq> Suc (st_next h)" "b \<noteq> Suc (st_next h)"
    using ok a b n by (auto dest: store_ok_neq store_ok_neq_Suc)
  have y: "a \<noteq> t" "a \<noteq> n" using a t n by auto
  show ?thesis
    unfolding mqtt_msg_copy_def using ne a b t n x y
    by (cases h, cases m) (simp add: store_simps xmalloc_def fun_upd_twist cong: if_cong)
qed

text \<open>C18. Copying a message into a newly constructed one gives a message with the same topic, payload,
  quality of service and retain flag that owns its own blocks: the original still holds its value,
  and deleting the copy succeeds, frees no block twice and leaves every object of the store exactly
  as it was before the copy was made, so nothing is shared and nothing is leaked.\<close>

theorem mqtt_msg_copy_owns:
  assumes "store_ok h" and "msg_holds h other s d q r"
  shows "\<exists>self h1 h2 h3. mqtt_msg_new h = Some (self, h1) \<and> mqtt_msg_copy self other h1 = Some h2 \<and>
           msg_holds h2 self s d q r \<and> msg_holds h2 other s d q r \<and>
           mqtt_msg_delete self h2 = Some (None, h3) \<and> st_obj h3 = st_obj h"
proof -
  obtain b t n len xs ys where o: "other = Some b" "t \<noteq> n"
      "st_obj h b = Some (Msg \<lparr>msg_topic = Some t, msg_payload = Some n, msg_payload_len = len,
                              msg_qos = q, msg_retain = r\<rparr>)"
      "st_obj h t = Some (Block xs)" "zstring xs s"
      "st_obj h n = Some (Block ys)" "unat len \<le> length ys" and d: "d = take (unat len) ys"
    using assms(2) unfolding msg_holds_def by blast
  obtain self h1 where new: "mqtt_msg_new h = Some (self, h1)"
    by (simp add: mqtt_msg_new_eq)
  have ok: "store_ok h1" and ob: "st_obj h1 = (st_obj h)(st_next h \<mapsto> Msg \<lparr>msg_topic = None,
      msg_payload = None, msg_payload_len = 0, msg_qos = 0, msg_retain = False\<rparr>)"
    and nx: "st_next h1 = Suc (st_next h)" and self: "self = Some (st_next h)"
    using new assms(1) by (auto simp: mqtt_msg_new_eq store_ok_def)
  have ne: "st_next h \<noteq> b" "st_next h \<noteq> t" "st_next h \<noteq> n"
    using assms(1) o by auto
  obtain h2 where copy: "mqtt_msg_copy self other h1 = Some h2"
    and ob2: "st_obj h2 = (st_obj h1)(st_next h1 \<mapsto> Block (s @ [0]), Suc (st_next h1) \<mapsto> Block d,
       st_next h \<mapsto> Msg \<lparr>msg_topic = Some (st_next h1), msg_payload = Some (Suc (st_next h1)),
         msg_payload_len = len, msg_qos = q, msg_retain = r\<rparr>)"
    using mqtt_msg_copy_eq [OF ok ne(1), of _ t n len q r xs s ys] o ne unfolding self d by (simp add: ob)
  have "msg_holds h2 self s d q r"
    unfolding msg_holds_def self
    by (rule exI [of _ "st_next h"], rule exI [of _ "st_next h1"], rule exI [of _ "Suc (st_next h1)"],
        rule exI [of _ len], rule exI [of _ "s @ [0]"], rule exI [of _ d])
      (use o(5,7) d in \<open>simp add: ob2 nx\<close>)
  moreover have "msg_holds h2 other s d q r"
    unfolding msg_holds_def o(1)
    by (rule exI [of _ b], rule exI [of _ t], rule exI [of _ n], rule exI [of _ len],
        rule exI [of _ xs], rule exI [of _ ys])
      (use o d ne assms(1) in \<open>auto simp: ob2 ob nx dest: store_ok_less\<close>)
  moreover have "mqtt_msg_delete self h2 = Some (None, h2\<lparr>st_obj := (st_obj h2)
      (st_next h1 := None, Suc (st_next h1) := None, st_next h := None)\<rparr>)"
    unfolding self
    by (rule mqtt_msg_delete_eq [where t = "st_next h1" and n = "Suc (st_next h1)"]) (simp add: ob2 nx)+
  moreover have "(st_obj h2)(st_next h1 := None, Suc (st_next h1) := None, st_next h := None) = st_obj h"
    using assms(1) by (auto simp: ob2 ob nx fun_eq_iff store_ok_def)
  ultimately show ?thesis
    using new copy by (intro exI conjI) (assumption | simp)+
qed

lemma mqtt_msg_move_eq:
  assumes "a \<noteq> b" and "st_obj h a = Some (Msg m)" and "st_obj h b = Some (Msg n)"
  shows "mqtt_msg_move (Some a) (Some b) h = Some (h\<lparr>st_obj := (st_obj h)
    (a \<mapsto> Msg n, b \<mapsto> Msg (n\<lparr>msg_topic := None, msg_payload := None, msg_payload_len := 0\<rparr>))\<rparr>)"
  unfolding mqtt_msg_move_def using assms
  by (cases h, cases m, cases n) (simp add: store_simps fun_upd_twist)

text \<open>Moving hands the blocks over: the new owner holds the value, the old one holds nothing.\<close>

lemma mqtt_msg_move_holds:
  assumes "msg_holds h other s d q r" and "st_obj h a = Some (Msg m)" and "other \<noteq> Some a"
  shows "\<exists>h'. mqtt_msg_move (Some a) other h = Some h' \<and> msg_holds h' (Some a) s d q r \<and>
    (\<exists>n. msg_at h' other = Some n \<and> msg_topic n = None \<and> msg_payload n = None \<and> msg_payload_len n = 0)"
proof -
  obtain b t n len xs ys where o: "other = Some b" "t \<noteq> n"
      "st_obj h b = Some (Msg \<lparr>msg_topic = Some t, msg_payload = Some n, msg_payload_len = len,
                              msg_qos = q, msg_retain = r\<rparr>)"
      "st_obj h t = Some (Block xs)" "zstring xs s"
      "st_obj h n = Some (Block ys)" "unat len \<le> length ys" and d: "d = take (unat len) ys"
    using assms(1) unfolding msg_holds_def by blast
  have ne: "a \<noteq> b" "a \<noteq> t" "a \<noteq> n" "b \<noteq> t" "b \<noteq> n"
    using assms o by auto
  show ?thesis
    unfolding o(1) mqtt_msg_move_eq [OF ne(1) assms(2) o(3)] msg_holds_def
    using o d ne by (fastforce simp: store_simps)
qed

text \<open>Copying over a message that already holds blocks leaks them: the copy operator overwrites the
  pointers without releasing what they pointed to. Whatever value each message holds, deleting the
  target after the copy gives back exactly the store of before the copy without the structure itself,
  so the blocks the target owned are still allocated and no pointer leads to them.\<close>

lemma mqtt_msg_copy_leaks:
  assumes "store_ok h" and "msg_holds h (Some a) s' d' q' r'" and "msg_holds h other s d q r"
    and "other \<noteq> Some a"
  shows "\<exists>h1 h2. mqtt_msg_copy (Some a) other h = Some h1 \<and> msg_holds h1 (Some a) s d q r \<and>
           mqtt_msg_delete (Some a) h1 = Some (None, h2) \<and> st_obj h2 = (st_obj h)(a := None)"
proof -
  obtain b t n len xs ys where o: "other = Some b" "t \<noteq> n"
      "st_obj h b = Some (Msg \<lparr>msg_topic = Some t, msg_payload = Some n, msg_payload_len = len,
                              msg_qos = q, msg_retain = r\<rparr>)"
      "st_obj h t = Some (Block xs)" "zstring xs s"
      "st_obj h n = Some (Block ys)" "unat len \<le> length ys" and d: "d = take (unat len) ys"
    using assms(3) unfolding msg_holds_def by blast
  obtain m where a: "st_obj h a = Some (Msg m)"
    using assms(2) unfolding msg_holds_def by auto
  have ne: "a \<noteq> b" "a \<noteq> st_next h" "a \<noteq> Suc (st_next h)"
    using assms(1,4) o(1) a by (auto dest: store_ok_neq store_ok_neq_Suc)
  obtain h1 where copy: "mqtt_msg_copy (Some a) other h = Some h1"
    and ob: "st_obj h1 = (st_obj h)(st_next h \<mapsto> Block (s @ [0]), Suc (st_next h) \<mapsto> Block d,
       a \<mapsto> Msg \<lparr>msg_topic = Some (st_next h), msg_payload = Some (Suc (st_next h)),
         msg_payload_len = len, msg_qos = q, msg_retain = r\<rparr>)"
    using mqtt_msg_copy_eq [OF assms(1) ne(1) a o(3,4,5,6,7)] unfolding o(1) d by simp
  have "msg_holds h1 (Some a) s d q r"
    unfolding msg_holds_def
    by (rule exI [of _ a], rule exI [of _ "st_next h"], rule exI [of _ "Suc (st_next h)"],
        rule exI [of _ len], rule exI [of _ "s @ [0]"], rule exI [of _ d])
      (use o(5,7) d ne in \<open>simp add: ob\<close>)
  moreover have "mqtt_msg_delete (Some a) h1 = Some (None, h1\<lparr>st_obj := (st_obj h1)
      (st_next h := None, Suc (st_next h) := None, a := None)\<rparr>)"
    by (rule mqtt_msg_delete_eq [where t = "st_next h" and n = "Suc (st_next h)"]) (use ne in \<open>simp add: ob\<close>)+
  moreover have "(st_obj h1)(st_next h := None, Suc (st_next h) := None, a := None) = (st_obj h)(a := None)"
    using assms(1) by (auto simp: ob fun_eq_iff store_ok_def)
  ultimately show ?thesis
    using copy by (intro exI conjI) (assumption | simp)+
qed

text \<open>A message without a topic cannot be copied: \<open>xstrdup\<close> reads through the null pointer.\<close>

lemma mqtt_msg_copy_no_topic: "msg_at h other = Some m \<Longrightarrow> msg_topic m = None \<Longrightarrow> mqtt_msg_copy self other h = None"
  by (simp add: mqtt_msg_copy_def store_simps)

subsection \<open>Ownership of configurations\<close>

definition str_holds :: "mqtt_store \<Rightarrow> ptr \<Rightarrow> bytes option \<Rightarrow> bool" where
  "str_holds h p v \<longleftrightarrow> (case v of None \<Rightarrow> p = None
     | Some s \<Rightarrow> \<exists>t xs. p = Some t \<and> st_obj h t = Some (Block xs) \<and> zstring xs s)"

definition mem_holds :: "mqtt_store \<Rightarrow> ptr \<Rightarrow> u16 \<Rightarrow> bytes option \<Rightarrow> bool" where
  "mem_holds h p n v \<longleftrightarrow> (case v of None \<Rightarrow> p = None
     | Some d \<Rightarrow> \<exists>t ys. p = Some t \<and> st_obj h t = Some (Block ys) \<and> 0 < n \<and>
                    unat n \<le> length ys \<and> d = take (unat n) ys)"

text \<open>Client id, user name, password and keep-alive time of the configuration at \<open>p\<close>.\<close>

definition conf_holds ::
  "mqtt_store \<Rightarrow> ptr \<Rightarrow> bytes option \<Rightarrow> bytes option \<Rightarrow> bytes option \<Rightarrow> u16 \<Rightarrow> bool" where
  "conf_holds h p i u w k \<longleftrightarrow> (\<exists>c. conf_at h p = Some c \<and> str_holds h (conf_client_id c) i \<and>
     str_holds h (conf_user_name c) u \<and> mem_holds h (conf_password c) (conf_password_len c) w \<and>
     conf_keep_alive c = k)"

text \<open>Growing the store and rewriting structures keeps every string where it is.\<close>

definition blocks_kept :: "mqtt_store \<Rightarrow> mqtt_store \<Rightarrow> bool" where
  "blocks_kept h h' \<longleftrightarrow> (\<forall>a xs. st_obj h a = Some (Block xs) \<longrightarrow> st_obj h' a = Some (Block xs))"

lemma blocks_kept_refl [simp]: "blocks_kept h h"
  by (simp add: blocks_kept_def)

lemma blocks_kept_trans: "blocks_kept h h' \<Longrightarrow> blocks_kept h' h'' \<Longrightarrow> blocks_kept h h''"
  by (simp add: blocks_kept_def)

lemma blocks_kept_alloc [simp]:
  "store_ok h \<Longrightarrow> blocks_kept h (h\<lparr>st_obj := (st_obj h)(st_next h \<mapsto> x), st_next := n\<rparr>)"
  by (auto simp: blocks_kept_def)

lemma blocks_kept_conf [simp]:
  "st_obj h a = Some (Conf c) \<Longrightarrow> blocks_kept h (h\<lparr>st_obj := (st_obj h)(a \<mapsto> Conf c')\<rparr>)"
  by (auto simp: blocks_kept_def)

lemma str_holds_kept: "str_holds h p v \<Longrightarrow> blocks_kept h h' \<Longrightarrow> str_holds h' p v"
  unfolding str_holds_def blocks_kept_def by (auto split: option.splits)

lemma mem_holds_kept: "mem_holds h p n v \<Longrightarrow> blocks_kept h h' \<Longrightarrow> mem_holds h' p n v"
  unfolding mem_holds_def blocks_kept_def by (auto split: option.splits)

text \<open>The step that \<open>mqtt_conf_create\<close> and \<open>mqtt_conf_copy\<close> make for each string they find.\<close>

lemma dup_string_step:
  assumes "store_ok h" and "st_obj h a = Some (Conf c)" and "zstring xs s"
  shows "\<exists>t h'. do { (q, h) \<leftarrow> dup_string (Some xs) h; conf_update (f (\<lambda>_. q)) (Some a) h } = Some h' \<and>
    store_ok h' \<and> blocks_kept h h' \<and> st_obj h' t = Some (Block (s @ [0])) \<and>
    st_obj h' a = Some (Conf (f (\<lambda>_. Some t) c)) \<and>
    (\<forall>b d. b \<noteq> a \<longrightarrow> st_obj h b = Some (Conf d) \<longrightarrow> st_obj h' b = Some (Conf d))"
proof -
  have ne: "a \<noteq> st_next h"
    using assms by auto
  define h' where "h' = h\<lparr>st_obj := (st_obj h)(st_next h \<mapsto> Block (s @ [0]),
      a \<mapsto> Conf (f (\<lambda>_. Some (st_next h)) c)), st_next := Suc (st_next h)\<rparr>"
  have "do { (q, h) \<leftarrow> dup_string (Some xs) h; conf_update (f (\<lambda>_. q)) (Some a) h } = Some h'"
    unfolding h'_def using assms ne by (cases h) (simp add: store_simps xmalloc_def)
  moreover have "store_ok h'"
    using assms(1) ne store_ok_less [OF assms(1,2)] by (auto simp: h'_def store_ok_def)
  moreover have "blocks_kept h h'"
    using assms by (auto simp: h'_def blocks_kept_def)
  ultimately show ?thesis
    using ne assms(1) by (intro exI [of _ "st_next h"] exI [of _ h']) (auto simp: h'_def)
qed

text \<open>
  A copy has what the other configuration has, and keeps its own value for every string the other
  one lacks: the copy operator only ever sets.
\<close>

text \<open>One string of a configuration: it is duplicated if the source has it, and kept otherwise.\<close>

lemma conf_copy_string_step:
  assumes ok: "store_ok h" and ne: "a \<noteq> b" and a: "st_obj h a = Some (Conf c)" and b: "st_obj h b = Some (Conf e)"
    and s: "str_holds h src s" and s0: "str_holds h old s0" and upd: "upd (\<lambda>_. old) c = c"
  shows "\<exists>h' p. conf_copy_string src upd (Some a) h = Some h' \<and> store_ok h' \<and> blocks_kept h h' \<and>
    st_obj h' a = Some (Conf (upd (\<lambda>_. p) c)) \<and> st_obj h' b = Some (Conf e) \<and> str_holds h' p (if s = None then s0 else s)"
proof (cases s)
  case None
  then show ?thesis
    using s s0 ok a b upd by (intro exI [of _ h] exI [of _ old]) (simp add: conf_copy_string_def str_holds_def)
next
  case (Some r)
  then obtain t xs where t: "src = Some t" "st_obj h t = Some (Block xs)" "zstring xs r"
    using s by (auto simp: str_holds_def)
  obtain p h' where p: "do { (q, h) \<leftarrow> dup_string (Some xs) h; conf_update (upd (\<lambda>_. q)) (Some a) h } = Some h'"
    "store_ok h'" "blocks_kept h h'" "st_obj h' p = Some (Block (r @ [0]))" "st_obj h' a = Some (Conf (upd (\<lambda>_. Some p) c))"
    "st_obj h' b = Some (Conf e)"
    using dup_string_step [OF ok a t(3), of upd] b ne by metis
  have "str_holds h' (Some p) (Some r)" using p(4) t(3) by (auto simp: str_holds_def)
  moreover have "conf_copy_string src upd (Some a) h = Some h'"
    using p(1) t by (simp add: conf_copy_string_def block_at_eq)
  ultimately show ?thesis using p(2,3,5,6) Some by (intro exI [of _ h'] exI [of _ "Some p"]) simp
qed

lemma mqtt_conf_copy_sets:
  assumes ok: "store_ok h" and ne: "a \<noteq> b" and a: "st_obj h a = Some (Conf c)"
    and b: "st_obj h b = Some (Conf e)"
    and i: "str_holds h (conf_client_id e) i" and i0: "str_holds h (conf_client_id c) i0"
    and u: "str_holds h (conf_user_name e) u" and u0: "str_holds h (conf_user_name c) u0"
    and w: "mem_holds h (conf_password e) (conf_password_len e) w"
    and w0: "mem_holds h (conf_password c) (conf_password_len c) w0"
  shows "\<exists>h'. mqtt_conf_copy (Some a) (Some b) h = Some h' \<and> store_ok h' \<and>
    conf_holds h' (Some a) (if i = None then i0 else i) (if u = None then u0 else u)
      (if w = None then w0 else w) (conf_keep_alive e)"
proof -
  define step1 where "step1 = conf_copy_string (conf_client_id e) conf_client_id_update (Some a) h"
  obtain h1 p where h1: "step1 = Some h1" "store_ok h1" "blocks_kept h h1"
      "st_obj h1 a = Some (Conf (c\<lparr>conf_client_id := p\<rparr>))" "st_obj h1 b = Some (Conf e)"
      and p: "str_holds h1 p (if i = None then i0 else i)"
    using conf_copy_string_step [where upd = conf_client_id_update, OF ok ne a b i i0] unfolding step1_def by auto
  define c1 where "c1 = c\<lparr>conf_client_id := p, conf_keep_alive := conf_keep_alive e\<rparr>"
  define h2 where "h2 = h1\<lparr>st_obj := (st_obj h1)(a \<mapsto> Conf c1)\<rparr>"
  have h2: "conf_update (conf_keep_alive_update (\<lambda>_. conf_keep_alive e)) (Some a) h1 = Some h2"
      "store_ok h2" "blocks_kept h1 h2" "st_obj h2 a = Some (Conf c1)" "st_obj h2 b = Some (Conf e)"
    using h1 ne store_ok_less [OF h1(2,4)]
    by (auto simp: h2_def c1_def store_simps store_ok_def)
  define step3 where "step3 = conf_copy_string (conf_user_name e) conf_user_name_update (Some a) h2"
  have kept2: "blocks_kept h h2"
    using h1(3) h2(3) by (rule blocks_kept_trans)
  have u0': "str_holds h2 (conf_user_name c1) u0" using str_holds_kept [OF u0 kept2] by (simp add: c1_def)
  obtain h3 r where h3: "step3 = Some h3" "store_ok h3" "blocks_kept h2 h3"
      "st_obj h3 a = Some (Conf (c1\<lparr>conf_user_name := r\<rparr>))" "st_obj h3 b = Some (Conf e)"
      and r: "str_holds h3 r (if u = None then u0 else u)"
    using conf_copy_string_step [where upd = conf_user_name_update, OF h2(2) ne h2(4,5) str_holds_kept [OF u kept2] u0']
    unfolding step3_def by auto
  have kept3: "blocks_kept h h3"
    using kept2 h3(3) by (rule blocks_kept_trans)
  have at3: "conf_at h (Some b) = Some e" "conf_at h1 (Some b) = Some e" "conf_at h2 (Some b) = Some e"
      "conf_at h3 (Some b) = Some e"
    using b h1 h2 h3 by (simp_all add: conf_at_eq)
  note start = mqtt_conf_copy_def at3(1) step1_def [symmetric] h1(1) at3(2) h2(1) at3(3) step3_def [symmetric]
    h3(1) at3(4)
  show ?thesis
  proof (cases w)
    case None
    then have "conf_password e = None"
      using w by (simp add: mem_holds_def)
    then have "mqtt_conf_copy (Some a) (Some b) h = Some h3"
      by (simp add: start)
    moreover have "conf_holds h3 (Some a) (if i = None then i0 else i) (if u = None then u0 else u) w0 (conf_keep_alive e)"
      unfolding conf_holds_def conf_at_eq [OF h3(4)]
      using str_holds_kept [OF str_holds_kept [OF p h2(3)] h3(3)] r mem_holds_kept [OF w0 kept3]
      by (simp add: c1_def)
    ultimately show ?thesis
      using h3(2) None by simp
  next
    case (Some d)
    then obtain t ys where t: "conf_password e = Some t" "st_obj h3 t = Some (Block ys)"
        "0 < conf_password_len e" "unat (conf_password_len e) \<le> length ys" "d = take (unat (conf_password_len e)) ys"
      using mem_holds_kept [OF w kept3] by (auto simp: mem_holds_def)
    have neq: "a \<noteq> st_next h3" "b \<noteq> st_next h3"
      using h3 by (auto dest: store_ok_neq)
    define h4 where "h4 = h3\<lparr>st_obj := (st_obj h3)(st_next h3 \<mapsto> Block d,
      a \<mapsto> Conf (c1\<lparr>conf_user_name := r, conf_password := Some (st_next h3), conf_password_len := conf_password_len e\<rparr>)),
      st_next := Suc (st_next h3)\<rparr>"
    have "mqtt_conf_copy (Some a) (Some b) h = Some h4"
      using t ne neq h3(4,5) unfolding h4_def
      by (cases h3, cases c1) (simp add: start store_simps xmalloc_def fun_upd_twist)
    moreover have "store_ok h4"
      using h3(2) store_ok_less [OF h3(2,4)] by (auto simp: h4_def store_ok_def)
    moreover have kept4: "blocks_kept h3 h4"
      using h3(2,4) by (auto simp: h4_def blocks_kept_def)
    moreover have "mem_holds h4 (Some (st_next h3)) (conf_password_len e) (Some d)"
      using t neq by (auto simp: mem_holds_def h4_def)
    ultimately show ?thesis
      using str_holds_kept [OF str_holds_kept [OF str_holds_kept [OF p h2(3)] h3(3)] kept4]
        str_holds_kept [OF r kept4] Some
      by (intro exI [of _ h4]) (simp add: conf_holds_def conf_at_def c1_def h4_def)
  qed
qed

text \<open>The copy operator of configurations merges: afterwards the target has every string the other
  configuration has, in blocks of its own, together with the other's keep-alive time, and for each of
  client id, user name and password that the other lacks it still has its own old value. Copying
  a configuration without credentials over one with credentials therefore leaves the credentials in
  place; into a newly initialised configuration the operator does make a copy.\<close>

lemma mqtt_conf_copy_merges:
  assumes "store_ok h" and "a \<noteq> b"
    and "conf_holds h (Some a) i0 u0 w0 k0" and "conf_holds h (Some b) i u w k"
  shows "\<exists>h'. mqtt_conf_copy (Some a) (Some b) h = Some h' \<and> store_ok h' \<and>
    conf_holds h' (Some a) (if i = None then i0 else i) (if u = None then u0 else u)
      (if w = None then w0 else w) k"
proof -
  obtain c e where ce: "conf_at h (Some a) = Some c" "conf_at h (Some b) = Some e"
    and c: "str_holds h (conf_client_id c) i0" "str_holds h (conf_user_name c) u0"
      "mem_holds h (conf_password c) (conf_password_len c) w0"
    and e: "str_holds h (conf_client_id e) i" "str_holds h (conf_user_name e) u"
      "mem_holds h (conf_password e) (conf_password_len e) w" "conf_keep_alive e = k"
    using assms(3,4) unfolding conf_holds_def by blast
  have "st_obj h a = Some (Conf c)" "st_obj h b = Some (Conf e)"
    using ce by (auto simp: conf_at_def split: option.splits mqtt_obj.splits)
  from mqtt_conf_copy_sets [OF assms(1,2) this e(1) c(1) e(2) c(2) e(3) c(3)] e(4)
  show ?thesis by simp
qed

lemma mqtt_conf_move_eq:
  assumes "a \<noteq> b" and "st_obj h a = Some (Conf c)" and "st_obj h b = Some (Conf e)"
  shows "mqtt_conf_move (Some a) (Some b) h = Some (h\<lparr>st_obj := (st_obj h)
    (a \<mapsto> Conf e, b \<mapsto> Conf (e\<lparr>conf_client_id := None, conf_user_name := None, conf_password := None\<rparr>))\<rparr>)"
  unfolding mqtt_conf_move_def using assms
  by (cases h, cases c, cases e) (simp add: store_simps fun_upd_twist)

subsection \<open>Constructors with arguments\<close>

lemma mqtt_msg_create_holds:
  assumes "store_ok h" and "zstring xs s" and "unat n \<le> length ys"
  shows "\<exists>self h'. mqtt_msg_create (Some xs) (Some ys) n q r h = Some (self, h') \<and>
    msg_holds h' self s (take (unat n) ys) (ucast q) r"
proof -
  let ?a = "st_next h"
  have "mqtt_msg_create (Some xs) (Some ys) n q r h = Some (Some ?a, h\<lparr>st_obj := (st_obj h)
      (Suc ?a \<mapsto> Block (s @ [0]), Suc (Suc ?a) \<mapsto> Block (take (unat n) ys),
       ?a \<mapsto> Msg \<lparr>msg_topic = Some (Suc ?a), msg_payload = Some (Suc (Suc ?a)), msg_payload_len = n,
                  msg_qos = ucast q, msg_retain = r\<rparr>), st_next := Suc (Suc (Suc ?a))\<rparr>)"
    unfolding mqtt_msg_create_def using assms
    by (cases h) (simp add: store_simps xmalloc_def fun_upd_twist)
  moreover have "zstring (s @ [0]) s"
    using assms(2) by simp
  ultimately show ?thesis
    using assms(3) unfolding msg_holds_def by (fastforce simp: min_def)
qed

lemma mqtt_conf_create_anonymous:
  assumes "zstring xs s"
  shows "\<exists>self h'. mqtt_conf_create (Some xs) k None password 0 h = Some (self, h') \<and>
    conf_holds h' self (Some s) None None k"
  using assms
  by (cases h) (auto simp: mqtt_conf_create_def store_simps xmalloc_def conf_holds_def str_holds_def mem_holds_def)

subsection \<open>Witnesses\<close>

text \<open>Two messages, at 0 and 3, and two configurations, at 6 (with credentials) and 9 (without).\<close>

definition demo_store :: mqtt_store where
  "demo_store = \<lparr>st_obj = [
     0 \<mapsto> Msg \<lparr>msg_topic = Some 1, msg_payload = Some 2, msg_payload_len = 2, msg_qos = 1, msg_retain = False\<rparr>,
     1 \<mapsto> Block [0x61, 0], 2 \<mapsto> Block [7, 8],
     3 \<mapsto> Msg \<lparr>msg_topic = Some 4, msg_payload = Some 5, msg_payload_len = 1, msg_qos = 0, msg_retain = True\<rparr>,
     4 \<mapsto> Block [0x62, 0], 5 \<mapsto> Block [9],
     6 \<mapsto> Conf \<lparr>conf_client_id = Some 7, conf_user_name = Some 8, conf_password = None,
                conf_password_len = 0, conf_keep_alive = 5\<rparr>,
     7 \<mapsto> Block [0x63, 0], 8 \<mapsto> Block [0x64, 0],
     9 \<mapsto> Conf \<lparr>conf_client_id = Some 10, conf_user_name = None, conf_password = None,
                conf_password_len = 0, conf_keep_alive = 60\<rparr>,
     10 \<mapsto> Block [0x65, 0]], st_next = 11\<rparr>"

lemma demo_store_ok [simp]: "store_ok demo_store"
  by (simp add: store_ok_def demo_store_def)

lemma c_str_char: "x \<noteq> 0 \<Longrightarrow> zstring [x, 0] [x]"
  by (simp add: zstring_def)

lemma demo_msg_0: "msg_holds demo_store (Some 0) [0x61] [7, 8] 1 False"
  unfolding msg_holds_def
  by (rule exI [of _ 0], rule exI [of _ 1], rule exI [of _ 2], rule exI [of _ 2],
      rule exI [of _ "[0x61, 0]"], rule exI [of _ "[7, 8]"]) (simp add: demo_store_def c_str_char)

theorem mqtt_msg_copy_owns_witness:
  "\<exists>self h1 h2 h3. mqtt_msg_new demo_store = Some (self, h1) \<and> mqtt_msg_copy self (Some 0) h1 = Some h2 \<and>
     msg_holds h2 self [0x61] [7, 8] 1 False \<and> msg_holds h2 (Some 0) [0x61] [7, 8] 1 False \<and>
     mqtt_msg_delete self h2 = Some (None, h3) \<and> st_obj h3 = st_obj demo_store"
  by (rule mqtt_msg_copy_owns [OF demo_store_ok demo_msg_0])

end
