(* ===== verification/Queue_Links.thy ===== *)
theory Queue_Links
  imports Cmx_Prelude
begin

section \<open>Linked lists and tail queues (include/mx/queue.h)\<close>

text \<open>
  The macros \<open>LIST_*\<close> and \<open>TAILQ_*\<close> on a memory of list heads and list entries. An entry has a
  \<open>next\<close> pointer and a \<open>prev\<close> pointer that holds the address of the pointer that leads to the
  entry: the first-element field of a head (\<open>Head q\<close>) or the \<open>next\<close> field of another entry
  (\<open>Next x\<close>). A tail queue head has in addition the address of its last \<open>next\<close> field. Fields that
  were never written hold \<^const>\<open>None\<close>; writing through such a \<open>prev\<close> has no result. An element is
  named by a number, a null pointer is \<^const>\<open>None\<close>.

  \<open>holds h L\<close> says that the memory represents the lists \<open>L\<close>, one for each head in its domain: every
  operation of the macros is shown to do to \<open>L\<close> what its name says.
\<close>

datatype ref = Head nat | Next nat

record links =
  q_first :: "nat \<Rightarrow> nat option"
  q_last :: "nat \<Rightarrow> ref option"
  q_next :: "nat \<Rightarrow> nat option"
  q_prev :: "nat \<Rightarrow> ref option"

definition get_ref :: "ref \<Rightarrow> links \<Rightarrow> nat option" where
  "get_ref r h = (case r of Head q \<Rightarrow> q_first h q | Next x \<Rightarrow> q_next h x)"

definition set_ref :: "ref \<Rightarrow> nat option \<Rightarrow> links \<Rightarrow> links" where
  "set_ref r p h = (case r of
     Head q \<Rightarrow> h\<lparr>q_first := (q_first h)(q := p)\<rparr>
   | Next x \<Rightarrow> h\<lparr>q_next := (q_next h)(x := p)\<rparr>)"

definition set_prev :: "nat \<Rightarrow> ref \<Rightarrow> links \<Rightarrow> links" where
  "set_prev x r h = h\<lparr>q_prev := (q_prev h)(x \<mapsto> r)\<rparr>"

definition set_last :: "nat \<Rightarrow> ref \<Rightarrow> links \<Rightarrow> links" where
  "set_last q r h = h\<lparr>q_last := (q_last h)(q \<mapsto> r)\<rparr>"

subsection \<open>Lists\<close>

definition LIST_FIRST :: "nat \<Rightarrow> links \<Rightarrow> nat option" where
  "LIST_FIRST q h = q_first h q"

definition LIST_EMPTY :: "nat \<Rightarrow> links \<Rightarrow> bool" where
  "LIST_EMPTY q h \<longleftrightarrow> q_first h q = None"

definition LIST_NEXT :: "nat \<Rightarrow> links \<Rightarrow> nat option" where
  "LIST_NEXT x h = q_next h x"

definition LIST_INIT :: "nat \<Rightarrow> links \<Rightarrow> links" where
  "LIST_INIT q h = set_ref (Head q) None h"

definition LIST_INSERT_HEAD :: "nat \<Rightarrow> nat \<Rightarrow> links \<Rightarrow> links" where
  "LIST_INSERT_HEAD q elm h =
     (let h = set_ref (Next elm) (LIST_FIRST q h) h;
          h = (case LIST_NEXT elm h of
                 Some _ \<Rightarrow> (case LIST_FIRST q h of Some f \<Rightarrow> set_prev f (Next elm) h | None \<Rightarrow> h)
               | None \<Rightarrow> h);
          h = set_ref (Head q) (Some elm) h
      in set_prev elm (Head q) h)"

definition LIST_INSERT_AFTER :: "nat \<Rightarrow> nat \<Rightarrow> links \<Rightarrow> links" where
  "LIST_INSERT_AFTER listelm elm h =
     (let h = set_ref (Next elm) (LIST_NEXT listelm h) h;
          h = (case LIST_NEXT elm h of
                 Some _ \<Rightarrow> (case LIST_NEXT listelm h of Some f \<Rightarrow> set_prev f (Next elm) h | None \<Rightarrow> h)
               | None \<Rightarrow> h);
          h = set_ref (Next listelm) (Some elm) h
      in set_prev elm (Next listelm) h)"

definition LIST_INSERT_BEFORE :: "nat \<Rightarrow> nat \<Rightarrow> links \<Rightarrow> links option" where
  "LIST_INSERT_BEFORE listelm elm h = do {
     r \<leftarrow> q_prev h listelm;
     let h = set_prev elm r h;
     let h = set_ref (Next elm) (Some listelm) h;
     r \<leftarrow> q_prev h listelm;
     let h = set_ref r (Some elm) h;
     Some (set_prev listelm (Next elm) h)
   }"

definition LIST_REMOVE :: "nat \<Rightarrow> links \<Rightarrow> links option" where
  "LIST_REMOVE elm h = do {
     r \<leftarrow> q_prev h elm;
     let h = (case LIST_NEXT elm h of Some n \<Rightarrow> set_prev n r h | None \<Rightarrow> h);
     r \<leftarrow> q_prev h elm;
     Some (set_ref r (LIST_NEXT elm h) h)
   }"

subsection \<open>Tail queues\<close>

definition TAILQ_FIRST :: "nat \<Rightarrow> links \<Rightarrow> nat option" where
  "TAILQ_FIRST q h = q_first h q"

definition TAILQ_EMPTY :: "nat \<Rightarrow> links \<Rightarrow> bool" where
  "TAILQ_EMPTY q h \<longleftrightarrow> q_first h q = None"

definition TAILQ_NEXT :: "nat \<Rightarrow> links \<Rightarrow> nat option" where
  "TAILQ_NEXT x h = q_next h x"

definition TAILQ_INIT :: "nat \<Rightarrow> links \<Rightarrow> links" where
  "TAILQ_INIT q h = set_last q (Head q) (set_ref (Head q) None h)"

definition TAILQ_INSERT_HEAD :: "nat \<Rightarrow> nat \<Rightarrow> links \<Rightarrow> links" where
  "TAILQ_INSERT_HEAD q elm h =
     (let h = set_ref (Next elm) (TAILQ_FIRST q h) h;
          h = (case TAILQ_NEXT elm h of
                 Some _ \<Rightarrow> (case TAILQ_FIRST q h of Some f \<Rightarrow> set_prev f (Next elm) h | None \<Rightarrow> h)
               | None \<Rightarrow> set_last q (Next elm) h);
          h = set_ref (Head q) (Some elm) h
      in set_prev elm (Head q) h)"

definition TAILQ_INSERT_TAIL :: "nat \<Rightarrow> nat \<Rightarrow> links \<Rightarrow> links option" where
  "TAILQ_INSERT_TAIL q elm h = do {
     let h = set_ref (Next elm) None h;
     l \<leftarrow> q_last h q;
     let h = set_prev elm l h;
     let h = set_ref l (Some elm) h;
     Some (set_last q (Next elm) h)
   }"

definition TAILQ_INSERT_AFTER :: "nat \<Rightarrow> nat \<Rightarrow> nat \<Rightarrow> links \<Rightarrow> links" where
  "TAILQ_INSERT_AFTER q listelm elm h =
     (let h = set_ref (Next elm) (TAILQ_NEXT listelm h) h;
          h = (case TAILQ_NEXT elm h of
                 Some f \<Rightarrow> set_prev f (Next elm) h
               | None \<Rightarrow> set_last q (Next elm) h);
          h = set_ref (Next listelm) (Some elm) h
      in set_prev elm (Next listelm) h)"

definition TAILQ_INSERT_BEFORE :: "nat \<Rightarrow> nat \<Rightarrow> links \<Rightarrow> links option" where
  "TAILQ_INSERT_BEFORE listelm elm h = do {
     r \<leftarrow> q_prev h listelm;
     let h = set_prev elm r h;
     let h = set_ref (Next elm) (Some listelm) h;
     r \<leftarrow> q_prev h listelm;
     let h = set_ref r (Some elm) h;
     Some (set_prev listelm (Next elm) h)
   }"

definition TAILQ_REMOVE :: "nat \<Rightarrow> nat \<Rightarrow> links \<Rightarrow> links option" where
  "TAILQ_REMOVE q elm h = do {
     r \<leftarrow> q_prev h elm;
     let h = (case TAILQ_NEXT elm h of Some n \<Rightarrow> set_prev n r h | None \<Rightarrow> set_last q r h);
     r \<leftarrow> q_prev h elm;
     Some (set_ref r (TAILQ_NEXT elm h) h)
   }"

text \<open>
  \<open>TAILQ_LAST\<close> and \<open>TAILQ_PREV\<close> read an entry (two pointers) as if it were a head (two pointers):
  what stands behind a \<open>next\<close> field is a \<open>prev\<close> field, what stands behind a first-element field is
  a last-element field.
\<close>

definition behind :: "ref \<Rightarrow> links \<Rightarrow> ref option" where
  "behind r h = (case r of Head q \<Rightarrow> q_last h q | Next x \<Rightarrow> q_prev h x)"

definition TAILQ_LAST :: "nat \<Rightarrow> links \<Rightarrow> nat option option" where
  "TAILQ_LAST q h = do { l \<leftarrow> q_last h q; r \<leftarrow> behind l h; Some (get_ref r h) }"

definition TAILQ_PREV :: "nat \<Rightarrow> links \<Rightarrow> nat option option" where
  "TAILQ_PREV x h = do { l \<leftarrow> q_prev h x; r \<leftarrow> behind l h; Some (get_ref r h) }"

subsection \<open>Loops over a list\<close>

text \<open>
  The loop macros. The body of a \<open>FOREACH\<close> leaves the links alone: it goes on (\<^const>\<open>Inr\<close>) or leaves
  the loop (\<^const>\<open>Inl\<close>). The body of a \<open>FOREACH_SAFE\<close> may unlink its element, the successor is read
  before it runs. Both go wherever the \<open>next\<close> pointers lead, possibly forever.
\<close>

partial_function (option) foreach ::
    "links \<Rightarrow> (nat \<Rightarrow> 's \<Rightarrow> ('r + 's) option) \<Rightarrow> nat option \<Rightarrow> 's \<Rightarrow> ('r + 's) option" where
  "foreach h f p s = (case p of
     None \<Rightarrow> Some (Inr s)
   | Some x \<Rightarrow> do {
       r \<leftarrow> f x s;
       case r of Inl r \<Rightarrow> Some (Inl r) | Inr s \<Rightarrow> foreach h f (q_next h x) s
     })"

partial_function (option) foreach_safe ::
    "(nat \<Rightarrow> links \<times> 's \<Rightarrow> (links \<times> 's) option) \<Rightarrow> nat option \<Rightarrow> links \<times> 's \<Rightarrow> (links \<times> 's) option" where
  "foreach_safe f p st = (case p of
     None \<Rightarrow> Some st
   | Some x \<Rightarrow> let tvar = q_next (fst st) x in do { st \<leftarrow> f x st; foreach_safe f tvar st })"

subsection \<open>Chains of entries\<close>

fun chain :: "links \<Rightarrow> ref \<Rightarrow> nat option \<Rightarrow> nat list \<Rightarrow> nat option \<Rightarrow> bool" where
  "chain h r p [] e \<longleftrightarrow> p = e"
| "chain h r p (x # xs) e \<longleftrightarrow> p = Some x \<and> q_prev h x = Some r \<and> chain h (Next x) (q_next h x) xs e"

definition end_ref :: "ref \<Rightarrow> nat list \<Rightarrow> ref" where
  "end_ref r xs = (if xs = [] then r else Next (last xs))"

definition first_of :: "nat list \<Rightarrow> nat option" where
  "first_of xs = (case xs of [] \<Rightarrow> None | x # _ \<Rightarrow> Some x)"

lemma end_ref_Nil [simp]: "end_ref r [] = r"
  by (simp add: end_ref_def)

lemma end_ref_Cons [simp]: "end_ref r (x # xs) = end_ref (Next x) xs"
  by (simp add: end_ref_def)

lemma end_ref_append [simp]: "end_ref r (xs @ ys) = end_ref (end_ref r xs) ys"
  by (simp add: end_ref_def)

lemma first_of_simps [simp]: "first_of [] = None" "first_of (x # xs) = Some x"
  by (simp_all add: first_of_def)

lemma first_of_Some [simp]: "first_of xs = Some y \<Longrightarrow> y \<in> set xs"
  by (cases xs) auto

lemma chain_append:
  "chain h r p (xs @ ys) e \<longleftrightarrow> (\<exists>m. chain h r p xs m \<and> chain h (end_ref r xs) m ys e)"
  by (induction xs arbitrary: r p) auto

lemma chain_first: "chain h r p xs None \<Longrightarrow> p = first_of xs"
  by (cases xs) auto

lemma chain_split:
  "chain h r p (xs @ ys) None \<longleftrightarrow> chain h r p xs (first_of ys) \<and> chain h (end_ref r xs) (first_of ys) ys None"
  using chain_first by (auto simp: chain_append)

lemma chain_cong:
  "(\<And>x. x \<in> set xs \<Longrightarrow> q_prev h' x = q_prev h x) \<Longrightarrow> (\<And>x. x \<in> set xs \<Longrightarrow> q_next h' x = q_next h x) \<Longrightarrow>
   chain h' r p xs e = chain h r p xs e"
  by (induction xs arbitrary: r p) auto

text \<open>Only the last \<open>next\<close> field of a chain decides where it ends.\<close>

lemma chain_end:
  assumes "chain h r p xs m" and "distinct xs" and "xs \<noteq> []"
    and "\<And>x. x \<in> set xs \<Longrightarrow> q_prev h' x = q_prev h x"
    and "\<And>x. x \<in> set xs \<Longrightarrow> q_next h' x = (if x = last xs then m' else q_next h x)"
  shows "chain h' r p xs m'"
  using assms
proof (induction xs arbitrary: r p)
  case (Cons x xs)
  show ?case
  proof (cases "xs = []")
    case True
    then show ?thesis using Cons.prems by simp
  next
    case False
    then have "chain h' (Next x) (q_next h x) xs m'"
      using Cons.prems by (intro Cons.IH) auto
    moreover have "x \<noteq> last xs"
      using False Cons.prems(2) by auto
    ultimately show ?thesis
      using Cons.prems False by simp
  qed
qed simp

text \<open>A chain whose first entry is found from a new place.\<close>

lemma chain_start:
  assumes "chain h r p xs None" and "distinct xs"
    and "\<And>x. x \<in> set xs \<Longrightarrow> q_prev h' x = (if p = Some x then Some r' else q_prev h x)"
    and "\<And>x. x \<in> set xs \<Longrightarrow> q_next h' x = q_next h x"
  shows "chain h' r' p xs None"
proof (cases xs)
  case (Cons y ys)
  have "chain h' (Next y) (q_next h y) ys None = chain h (Next y) (q_next h y) ys None"
    using assms Cons by (intro chain_cong) auto
  then show ?thesis
    using assms Cons by simp
qed (use assms in simp)

subsection \<open>Splicing in and unlinking\<close>

text \<open>What all insertions do: put \<open>elm\<close> between the reference \<open>r\<close> and what it leads to.\<close>

definition splice :: "ref \<Rightarrow> nat \<Rightarrow> links \<Rightarrow> links" where
  "splice r elm h = h\<lparr>
     q_first := (\<lambda>q. if r = Head q then Some elm else q_first h q),
     q_next := (\<lambda>y. if r = Next y then Some elm else if y = elm then get_ref r h else q_next h y),
     q_prev := (\<lambda>y. if y = elm then Some r else if get_ref r h = Some y then Some (Next elm) else q_prev h y)\<rparr>"

definition unlink :: "ref \<Rightarrow> nat \<Rightarrow> links \<Rightarrow> links" where
  "unlink r elm h = h\<lparr>
     q_first := (\<lambda>q. if r = Head q then q_next h elm else q_first h q),
     q_next := (\<lambda>y. if r = Next y then q_next h elm else q_next h y),
     q_prev := (\<lambda>y. if q_next h elm = Some y then Some r else q_prev h y)\<rparr>"

definition list_at :: "links \<Rightarrow> nat \<Rightarrow> nat list \<Rightarrow> bool" where
  "list_at h q xs \<longleftrightarrow> distinct xs \<and> chain h (Head q) (q_first h q) xs None"

lemma chain_get_ref: "chain h (Head q) (q_first h q) xs m \<Longrightarrow> get_ref (end_ref (Head q) xs) h = m"
proof (induction xs rule: rev_induct)
  case (snoc x xs)
  then show ?case by (auto simp: chain_append get_ref_def)
qed (simp add: get_ref_def)

lemma list_at_get_ref:
  "list_at h q (as @ bs) \<Longrightarrow> get_ref (end_ref (Head q) as) h = first_of bs"
  by (auto simp: list_at_def chain_split dest: chain_get_ref)

lemma end_ref_eq_Next: "end_ref (Head q) as = Next y \<longleftrightarrow> as \<noteq> [] \<and> y = last as"
  by (auto simp: end_ref_def)

lemma end_ref_eq_Head: "end_ref (Head q) as = Head q' \<longleftrightarrow> as = [] \<and> q' = q"
  by (auto simp: end_ref_def)

lemma end_ref_in: "end_ref (Head q) as = Next y \<Longrightarrow> y \<in> set as"
  by (auto simp: end_ref_def split: if_splits)

lemma list_at_splice:
  assumes l: "list_at h q (as @ bs)" and new: "elm \<notin> set (as @ bs)"
  shows "list_at (splice (end_ref (Head q) as) elm h) q (as @ elm # bs)"
proof -
  let ?r = "end_ref (Head q) as"
  let ?h = "splice ?r elm h"
  have get: "get_ref ?r h = first_of bs" by (rule list_at_get_ref [OF l])
  have d: "distinct as" "distinct bs" "set as \<inter> set bs = {}"
    and ch: "chain h (Head q) (q_first h q) as (first_of bs)" "chain h ?r (first_of bs) bs None"
    using l by (auto simp: list_at_def chain_split)
  have "chain ?h (Head q) (q_first ?h q) as (Some elm)"
  proof (cases "as = []")
    case False
    have "q_first ?h q = q_first h q"
      using False by (simp add: splice_def end_ref_def)
    moreover have "chain ?h (Head q) (q_first h q) as (Some elm)"
    proof (rule chain_end [OF ch(1) d(1) False])
      fix x assume "x \<in> set as"
      then have "x \<noteq> elm" "first_of bs \<noteq> Some x"
        using new d(3) by (auto dest: first_of_Some)
      then show "q_prev ?h x = q_prev h x" "q_next ?h x = (if x = last as then Some elm else q_next h x)"
        using False get by (auto simp: splice_def end_ref_eq_Next)
    qed
    ultimately show ?thesis by simp
  qed (simp add: splice_def)
  moreover have "chain ?h (Next elm) (first_of bs) bs None"
  proof (rule chain_start [OF ch(2) d(2)])
    fix x assume "x \<in> set bs"
    then have "x \<noteq> elm" "?r \<noteq> Next x"
      using new d(3) by (auto dest: end_ref_in)
    then show "q_prev ?h x = (if first_of bs = Some x then Some (Next elm) else q_prev h x)"
        "q_next ?h x = q_next h x"
      using get by (auto simp: splice_def)
  qed
  moreover have "q_prev ?h elm = Some ?r" "q_next ?h elm = first_of bs"
    using new get by (auto simp: splice_def end_ref_eq_Next)
  ultimately show ?thesis
    using l new by (auto simp: list_at_def chain_split)
qed

lemma list_at_unlink:
  assumes l: "list_at h q (as @ elm # bs)"
  shows "list_at (unlink (end_ref (Head q) as) elm h) q (as @ bs)"
proof -
  let ?r = "end_ref (Head q) as"
  let ?h = "unlink ?r elm h"
  have d: "distinct as" "distinct bs" "set as \<inter> set bs = {}" "elm \<notin> set as" "elm \<notin> set bs"
    and ch: "chain h (Head q) (q_first h q) as (Some elm)" "chain h (Next elm) (q_next h elm) bs None"
    using l by (auto simp: list_at_def chain_split)
  have nx: "q_next h elm = first_of bs"
    using ch(2) by (rule chain_first)
  have "chain ?h (Head q) (q_first ?h q) as (first_of bs)"
  proof (cases "as = []")
    case False
    have "q_first ?h q = q_first h q"
      using False by (simp add: unlink_def end_ref_def)
    moreover have "chain ?h (Head q) (q_first h q) as (first_of bs)"
    proof (rule chain_end [OF ch(1) d(1) False])
      fix x assume "x \<in> set as"
      then have "first_of bs \<noteq> Some x"
        using d(3) by (auto dest: first_of_Some)
      then show "q_prev ?h x = q_prev h x" "q_next ?h x = (if x = last as then first_of bs else q_next h x)"
        using False nx by (auto simp: unlink_def end_ref_eq_Next)
    qed
    ultimately show ?thesis by simp
  qed (simp add: unlink_def nx)
  moreover have "chain ?h ?r (first_of bs) bs None"
  proof (rule chain_start [OF ch(2) [unfolded nx] d(2)])
    fix x assume "x \<in> set bs"
    then have "?r \<noteq> Next x"
      using d(3) by (auto dest: end_ref_in)
    then show "q_prev ?h x = (if first_of bs = Some x then Some ?r else q_prev h x)"
        "q_next ?h x = q_next h x"
      using nx by (auto simp: unlink_def)
  qed
  ultimately show ?thesis
    using l by (auto simp: list_at_def chain_split)
qed

subsection \<open>Several lists at once\<close>

definition holds :: "links \<Rightarrow> (nat \<rightharpoonup> nat list) \<Rightarrow> bool" where
  "holds h L \<longleftrightarrow> (\<forall>q xs. L q = Some xs \<longrightarrow> list_at h q xs) \<and>
     (\<forall>q q' xs ys. q \<noteq> q' \<longrightarrow> L q = Some xs \<longrightarrow> L q' = Some ys \<longrightarrow> set xs \<inter> set ys = {})"

definition unlinked :: "nat \<Rightarrow> (nat \<rightharpoonup> nat list) \<Rightarrow> bool" where
  "unlinked x L \<longleftrightarrow> (\<forall>q xs. L q = Some xs \<longrightarrow> x \<notin> set xs)"

lemma holds_list_at: "holds h L \<Longrightarrow> L q = Some xs \<Longrightarrow> list_at h q xs"
  by (simp add: holds_def)

lemma holds_disjoint:
  "holds h L \<Longrightarrow> L q = Some xs \<Longrightarrow> L q' = Some ys \<Longrightarrow> q \<noteq> q' \<Longrightarrow> set xs \<inter> set ys = {}"
  by (auto simp: holds_def)

text \<open>Changing one list: the others are kept when their heads and entries are.\<close>

lemma holds_update:
  assumes "holds h L" and "list_at h' q ys"
    and "\<And>q' zs. q' \<noteq> q \<Longrightarrow> L q' = Some zs \<Longrightarrow> set ys \<inter> set zs = {}"
    and "\<And>q' zs y. q' \<noteq> q \<Longrightarrow> L q' = Some zs \<Longrightarrow> q_first h' q' = q_first h q'"
    and "\<And>q' zs y. q' \<noteq> q \<Longrightarrow> L q' = Some zs \<Longrightarrow> y \<in> set zs \<Longrightarrow>
      q_prev h' y = q_prev h y \<and> q_next h' y = q_next h y"
  shows "holds h' (L(q \<mapsto> ys))"
proof -
  have "list_at h' q' zs" if "(L(q \<mapsto> ys)) q' = Some zs" for q' zs
  proof (cases "q' = q")
    case True
    then show ?thesis using that assms(2) by simp
  next
    case False
    then have z: "L q' = Some zs" using that by simp
    then have "list_at h q' zs" using assms(1) by (rule holds_list_at [rotated])
    moreover have "chain h' (Head q') (q_first h q') zs None = chain h (Head q') (q_first h q') zs None"
      using assms(5) [OF False z] by (intro chain_cong) auto
    ultimately show ?thesis
      using assms(4) [OF False z] by (simp add: list_at_def)
  qed
  moreover have "set xs \<inter> set zs = {}"
    if "p \<noteq> q'" "(L(q \<mapsto> ys)) p = Some xs" "(L(q \<mapsto> ys)) q' = Some zs" for p q' xs zs
  proof -
    consider "p = q" | "q' = q" | "p \<noteq> q" "q' \<noteq> q" by blast
    then show ?thesis
    proof cases
      case 1
      then show ?thesis using that assms(3) [of q' zs] by simp
    next
      case 2
      then show ?thesis using that assms(3) [of p xs] by auto
    next
      case 3
      then show ?thesis using that holds_disjoint [OF assms(1), of p xs q' zs] by simp
    qed
  qed
  ultimately show ?thesis
    unfolding holds_def by blast
qed

lemma holds_splice:
  assumes "holds h L" and "L q = Some (as @ bs)" and "unlinked x L"
  shows "holds (splice (end_ref (Head q) as) x h) (L(q \<mapsto> as @ x # bs))"
proof (rule holds_update [OF assms(1)])
  have l: "list_at h q (as @ bs)" using assms by (simp add: holds_list_at)
  have new: "x \<notin> set (as @ bs)" using assms(2,3) unfolding unlinked_def by blast
  show "list_at (splice (end_ref (Head q) as) x h) q (as @ x # bs)"
    by (rule list_at_splice [OF l new])
  fix q' zs y assume q': "q' \<noteq> q" "L q' = Some zs"
  have dis: "set (as @ bs) \<inter> set zs = {}"
    using holds_disjoint [OF assms(1,2) q'(2)] q'(1) by simp
  have xz: "x \<notin> set zs" using assms(3) q'(2) unfolding unlinked_def by blast
  then show "set (as @ x # bs) \<inter> set zs = {}" using dis by auto
  show "q_first (splice (end_ref (Head q) as) x h) q' = q_first h q'"
    using q' by (simp add: splice_def end_ref_eq_Head)
  assume y: "y \<in> set zs"
  have "end_ref (Head q) as \<noteq> Next y" "first_of bs \<noteq> Some y" "y \<noteq> x"
    using y dis xz by (auto dest: end_ref_in first_of_Some)
  then show "q_prev (splice (end_ref (Head q) as) x h) y = q_prev h y \<and>
      q_next (splice (end_ref (Head q) as) x h) y = q_next h y"
    by (simp add: splice_def list_at_get_ref [OF l])
qed

lemma holds_unlink:
  assumes "holds h L" and "L q = Some (as @ x # bs)"
  shows "holds (unlink (end_ref (Head q) as) x h) (L(q \<mapsto> as @ bs))"
proof (rule holds_update [OF assms(1)])
  have l: "list_at h q (as @ x # bs)" using assms by (simp add: holds_list_at)
  have nx: "q_next h x = first_of bs"
    using l by (auto simp: list_at_def chain_split dest: chain_first)
  show "list_at (unlink (end_ref (Head q) as) x h) q (as @ bs)"
    by (rule list_at_unlink [OF l])
  fix q' zs y assume q': "q' \<noteq> q" "L q' = Some zs"
  have dis: "set (as @ x # bs) \<inter> set zs = {}"
    using holds_disjoint [OF assms(1,2) q'(2)] q'(1) by simp
  then show "set (as @ bs) \<inter> set zs = {}" by auto
  show "q_first (unlink (end_ref (Head q) as) x h) q' = q_first h q'"
    using q' by (simp add: unlink_def end_ref_eq_Head)
  assume y: "y \<in> set zs"
  have "end_ref (Head q) as \<noteq> Next y" "first_of bs \<noteq> Some y"
    using y dis by (auto dest: end_ref_in first_of_Some)
  then show "q_prev (unlink (end_ref (Head q) as) x h) y = q_prev h y \<and>
      q_next (unlink (end_ref (Head q) as) x h) y = q_next h y"
    by (simp add: unlink_def nx)
qed

lemma list_at_prev: "list_at h q (as @ x # bs) \<Longrightarrow> q_prev h x = Some (end_ref (Head q) as)"
  by (auto simp: list_at_def chain_append)

lemma list_at_next: "list_at h q (as @ x # bs) \<Longrightarrow> q_next h x = first_of bs"
  by (auto simp: list_at_def chain_split dest: chain_first)

lemma list_at_first: "list_at h q xs \<Longrightarrow> q_first h q = first_of xs"
  by (auto simp: list_at_def dest: chain_first)

subsection \<open>The macros are splicing and unlinking\<close>

lemmas link_defs = set_ref_def set_prev_def get_ref_def splice_def unlink_def

lemma LIST_INSERT_HEAD_eq: "LIST_INSERT_HEAD q x h = splice (Head q) x h"
  by (cases h) (auto simp: LIST_INSERT_HEAD_def LIST_FIRST_def LIST_NEXT_def link_defs Let_def fun_eq_iff split: option.splits)

lemma LIST_INSERT_AFTER_eq: "x \<noteq> y \<Longrightarrow> LIST_INSERT_AFTER y x h = splice (Next y) x h"
  by (cases h) (auto simp: LIST_INSERT_AFTER_def LIST_NEXT_def link_defs Let_def fun_eq_iff split: option.splits)

lemma LIST_INSERT_BEFORE_eq:
  "q_prev h y = Some r \<Longrightarrow> get_ref r h = Some y \<Longrightarrow> x \<noteq> y \<Longrightarrow> r \<noteq> Next x \<Longrightarrow>
   LIST_INSERT_BEFORE y x h = Some (splice r x h)"
  by (cases h, cases r) (auto simp: LIST_INSERT_BEFORE_def link_defs Let_def fun_eq_iff)

lemma LIST_REMOVE_eq: "q_prev h x = Some r \<Longrightarrow> LIST_REMOVE x h = Some (unlink r x h)"
  by (cases h, cases r) (auto simp: LIST_REMOVE_def LIST_NEXT_def link_defs Let_def fun_eq_iff split: option.splits)

end
