(* ===== verification/Queue_Spec.thy ===== *)
theory Queue_Spec
  imports Queue_Links
begin

section \<open>What the queue macros promise\<close>

text \<open>
  The refinement lemmas of the macros over \<open>holds\<close>, the contracts \<open>linked_lists\<close> and
  \<open>tail_queues\<close> that the users of the macros rely on, and both contracts discharged by the macros.
\<close>

subsection \<open>Lists\<close>

lemma holds_LIST_INIT:
  assumes "holds h L"
  shows "holds (LIST_INIT q h) (L(q \<mapsto> []))"
  by (rule holds_update [OF assms]) (auto simp: LIST_INIT_def set_ref_def list_at_def)

lemma holds_LIST_INSERT_HEAD:
  "holds h L \<Longrightarrow> L q = Some xs \<Longrightarrow> unlinked x L \<Longrightarrow> holds (LIST_INSERT_HEAD q x h) (L(q \<mapsto> x # xs))"
  using holds_splice [of h L q "[]" xs x] by (simp add: LIST_INSERT_HEAD_eq)

lemma holds_LIST_INSERT_AFTER:
  assumes "holds h L" and "L q = Some (as @ y # bs)" and "unlinked x L"
  shows "holds (LIST_INSERT_AFTER y x h) (L(q \<mapsto> as @ y # x # bs))"
proof -
  have "x \<noteq> y" using assms(2,3) unfolding unlinked_def by fastforce
  then show ?thesis
    using holds_splice [of h L q "as @ [y]" bs x] assms by (simp add: LIST_INSERT_AFTER_eq)
qed

lemma insert_before_parts:
  assumes "holds h L" and "L q = Some (as @ y # bs)" and "unlinked x L"
  shows "q_prev h y = Some (end_ref (Head q) as)" and "get_ref (end_ref (Head q) as) h = Some y"
    and "x \<noteq> y" and "end_ref (Head q) as \<noteq> Next x"
proof -
  have l: "list_at h q (as @ y # bs)" using assms(1,2) by (rule holds_list_at)
  show "q_prev h y = Some (end_ref (Head q) as)" by (rule list_at_prev [OF l])
  show "get_ref (end_ref (Head q) as) h = Some y" using list_at_get_ref [OF l] by simp
  have x: "x \<notin> set (as @ y # bs)" using assms(2,3) unfolding unlinked_def by blast
  then show "x \<noteq> y" by auto
  show "end_ref (Head q) as \<noteq> Next x" using x by (auto dest: end_ref_in)
qed

lemma holds_LIST_INSERT_BEFORE:
  assumes "holds h L" and "L q = Some (as @ y # bs)" and "unlinked x L"
  shows "\<exists>h'. LIST_INSERT_BEFORE y x h = Some h' \<and> holds h' (L(q \<mapsto> as @ x # y # bs))"
  using insert_before_parts [OF assms] holds_splice [OF assms] by (simp add: LIST_INSERT_BEFORE_eq)

lemma holds_LIST_REMOVE:
  assumes "holds h L" and "L q = Some (as @ x # bs)"
  shows "\<exists>h'. LIST_REMOVE x h = Some h' \<and> holds h' (L(q \<mapsto> as @ bs))"
  using holds_unlink [OF assms] list_at_prev [OF holds_list_at [OF assms]] by (simp add: LIST_REMOVE_eq)

subsection \<open>Tail queues\<close>

text \<open>A tail queue is a list whose head also knows its last \<open>next\<close> field.\<close>

definition tails :: "links \<Rightarrow> (nat \<rightharpoonup> nat list) \<Rightarrow> bool" where
  "tails h L \<longleftrightarrow> holds h L \<and> (\<forall>q xs. L q = Some xs \<longrightarrow> q_last h q = Some (end_ref (Head q) xs))"

lemma tails_last: "tails h L \<Longrightarrow> L q = Some xs \<Longrightarrow> q_last h q = Some (end_ref (Head q) xs)"
  by (simp add: tails_def)

lemma tails_holds: "tails h L \<Longrightarrow> holds h L"
  by (simp add: tails_def)

lemma list_at_q_last [simp]: "list_at (h\<lparr>q_last := l\<rparr>) q xs = list_at h q xs"
proof -
  have "chain (h\<lparr>q_last := l\<rparr>) r p xs e = chain h r p xs e" for r p e
    by (rule chain_cong) simp_all
  then show ?thesis by (simp add: list_at_def)
qed

lemma holds_set_last [simp]: "holds (set_last q r h) L = holds h L"
  by (simp add: holds_def set_last_def)

lemma tails_update:
  "tails h L \<Longrightarrow> holds h' (L(q \<mapsto> ys)) \<Longrightarrow> q_last h' = (q_last h)(q \<mapsto> end_ref (Head q) ys) \<Longrightarrow>
   tails h' (L(q \<mapsto> ys))"
  by (auto simp: tails_def)

lemma q_last_simps [simp]:
  "q_last (splice r x h) = q_last h" "q_last (unlink r x h) = q_last h"
  "q_last (set_ref r p h) = q_last h" "q_last (set_prev x r h) = q_last h"
  "q_last (set_last q r h) = (q_last h)(q \<mapsto> r)"
  by (simp_all add: splice_def unlink_def set_ref_def set_prev_def set_last_def split: ref.split)

lemma tails_TAILQ_INIT:
  assumes "tails h L"
  shows "tails (TAILQ_INIT q h) (L(q \<mapsto> []))"
  using holds_LIST_INIT [OF tails_holds [OF assms], of q]
  by (intro tails_update [OF assms]) (simp_all add: TAILQ_INIT_def LIST_INIT_def)

lemma same_last: "(f :: nat \<rightharpoonup> ref) q = Some r \<Longrightarrow> f = f(q \<mapsto> r)"
  by auto

lemma TAILQ_INSERT_HEAD_eq:
  "TAILQ_INSERT_HEAD q x h =
     (if q_first h q = None then set_last q (Next x) (splice (Head q) x h) else splice (Head q) x h)"
  by (cases h) (auto simp: TAILQ_INSERT_HEAD_def TAILQ_FIRST_def TAILQ_NEXT_def link_defs set_last_def Let_def fun_eq_iff
      split: option.splits)

lemma tails_TAILQ_INSERT_HEAD:
  assumes "tails h L" and "L q = Some xs" and "unlinked x L"
  shows "tails (TAILQ_INSERT_HEAD q x h) (L(q \<mapsto> x # xs))"
proof (rule tails_update [OF assms(1)])
  have f: "q_first h q = first_of xs"
    using list_at_first [OF holds_list_at [OF tails_holds [OF assms(1)] assms(2)]] .
  show "holds (TAILQ_INSERT_HEAD q x h) (L(q \<mapsto> x # xs))"
    using holds_splice [of h L q "[]" xs x] tails_holds [OF assms(1)] assms(2,3)
    by (simp add: TAILQ_INSERT_HEAD_eq)
  show "q_last (TAILQ_INSERT_HEAD q x h) = (q_last h)(q \<mapsto> end_ref (Head q) (x # xs))"
    using tails_last [OF assms(1,2)] f
    by (cases xs) (simp_all add: TAILQ_INSERT_HEAD_eq same_last end_ref_def)
qed

lemma TAILQ_INSERT_TAIL_eq:
  "q_last h q = Some r \<Longrightarrow> get_ref r h = None \<Longrightarrow> r \<noteq> Next x \<Longrightarrow>
   TAILQ_INSERT_TAIL q x h = Some (set_last q (Next x) (splice r x h))"
  by (cases h, cases r) (auto simp: TAILQ_INSERT_TAIL_def link_defs set_last_def Let_def fun_eq_iff)

lemma tails_TAILQ_INSERT_TAIL:
  assumes "tails h L" and "L q = Some xs" and "unlinked x L"
  shows "\<exists>h'. TAILQ_INSERT_TAIL q x h = Some h' \<and> tails h' (L(q \<mapsto> xs @ [x]))"
proof -
  let ?r = "end_ref (Head q) xs"
  have l: "list_at h q (xs @ [])"
    using holds_list_at [OF tails_holds [OF assms(1)] assms(2)] by simp
  have "x \<notin> set xs" using assms(2,3) unfolding unlinked_def by blast
  then have "TAILQ_INSERT_TAIL q x h = Some (set_last q (Next x) (splice ?r x h))"
    using tails_last [OF assms(1,2)] list_at_get_ref [OF l]
    by (intro TAILQ_INSERT_TAIL_eq) (auto dest: end_ref_in)
  moreover have "tails (set_last q (Next x) (splice ?r x h)) (L(q \<mapsto> xs @ [x]))"
    using holds_splice [of h L q xs "[]" x] tails_holds [OF assms(1)] assms(2,3)
    by (intro tails_update [OF assms(1)]) simp_all
  ultimately show ?thesis by blast
qed

lemma TAILQ_INSERT_AFTER_eq:
  "x \<noteq> y \<Longrightarrow> TAILQ_INSERT_AFTER q y x h =
     (if q_next h y = None then set_last q (Next x) (splice (Next y) x h) else splice (Next y) x h)"
  by (cases h) (auto simp: TAILQ_INSERT_AFTER_def TAILQ_NEXT_def link_defs set_last_def Let_def fun_eq_iff split: option.splits)

lemma tails_TAILQ_INSERT_AFTER:
  assumes "tails h L" and "L q = Some (as @ y # bs)" and "unlinked x L"
  shows "tails (TAILQ_INSERT_AFTER q y x h) (L(q \<mapsto> as @ y # x # bs))"
proof (rule tails_update [OF assms(1)])
  have "x \<noteq> y" using assms(2,3) unfolding unlinked_def by fastforce
  note eq = TAILQ_INSERT_AFTER_eq [OF this]
  have n: "q_next h y = first_of bs"
    using list_at_next [OF holds_list_at [OF tails_holds [OF assms(1)] assms(2)]] .
  show "holds (TAILQ_INSERT_AFTER q y x h) (L(q \<mapsto> as @ y # x # bs))"
    using holds_splice [of h L q "as @ [y]" bs x] tails_holds [OF assms(1)] assms(2,3) by (simp add: eq)
  show "q_last (TAILQ_INSERT_AFTER q y x h) = (q_last h)(q \<mapsto> end_ref (Head q) (as @ y # x # bs))"
    using tails_last [OF assms(1,2)] n by (cases bs) (simp_all add: eq same_last end_ref_def)
qed

lemma tails_TAILQ_INSERT_BEFORE:
  assumes "tails h L" and "L q = Some (as @ y # bs)" and "unlinked x L"
  shows "\<exists>h'. TAILQ_INSERT_BEFORE y x h = Some h' \<and> tails h' (L(q \<mapsto> as @ x # y # bs))"
proof -
  note parts = insert_before_parts [OF tails_holds [OF assms(1)] assms(2,3)]
  have "TAILQ_INSERT_BEFORE y x h = Some (splice (end_ref (Head q) as) x h)"
    using LIST_INSERT_BEFORE_eq [OF parts] by (simp add: TAILQ_INSERT_BEFORE_def LIST_INSERT_BEFORE_def)
  moreover have "tails (splice (end_ref (Head q) as) x h) (L(q \<mapsto> as @ x # y # bs))"
    using holds_splice [OF tails_holds [OF assms(1)] assms(2,3)] tails_last [OF assms(1,2)]
    by (intro tails_update [OF assms(1)]) (simp_all add: same_last end_ref_def)
  ultimately show ?thesis by blast
qed

lemma TAILQ_REMOVE_eq:
  "q_prev h x = Some r \<Longrightarrow> TAILQ_REMOVE q x h =
     Some (if q_next h x = None then set_last q r (unlink r x h) else unlink r x h)"
  by (cases h, cases r) (auto simp: TAILQ_REMOVE_def TAILQ_NEXT_def link_defs set_last_def Let_def fun_eq_iff split: option.splits)

lemma tails_TAILQ_REMOVE:
  assumes "tails h L" and "L q = Some (as @ x # bs)"
  shows "\<exists>h'. TAILQ_REMOVE q x h = Some h' \<and> tails h' (L(q \<mapsto> as @ bs))"
proof -
  let ?r = "end_ref (Head q) as"
  have l: "list_at h q (as @ x # bs)"
    using holds_list_at [OF tails_holds [OF assms(1)] assms(2)] .
  define h' where "h' = (if q_next h x = None then set_last q ?r (unlink ?r x h) else unlink ?r x h)"
  have "TAILQ_REMOVE q x h = Some h'"
    using TAILQ_REMOVE_eq [OF list_at_prev [OF l]] by (simp add: h'_def)
  moreover have "tails h' (L(q \<mapsto> as @ bs))"
  proof (rule tails_update [OF assms(1)])
    show "holds h' (L(q \<mapsto> as @ bs))"
      using holds_unlink [OF tails_holds [OF assms(1)] assms(2)] by (simp add: h'_def)
    show "q_last h' = (q_last h)(q \<mapsto> end_ref (Head q) (as @ bs))"
      using tails_last [OF assms] list_at_next [OF l]
      by (cases bs) (simp_all add: h'_def same_last end_ref_def)
  qed
  ultimately show ?thesis by blast
qed

text \<open>Reading entries as heads does find the last element, and the one before an element.\<close>

lemma TAILQ_LAST_eq:
  assumes "tails h L" and "L q = Some xs"
  shows "TAILQ_LAST q h = Some (if xs = [] then None else Some (last xs))"
proof (cases xs rule: rev_cases)
  case Nil
  then have "q_first h q = None"
    using list_at_first [OF holds_list_at [OF tails_holds [OF assms(1)] assms(2)]] by simp
  then show ?thesis
    using tails_last [OF assms] Nil by (simp add: TAILQ_LAST_def behind_def get_ref_def)
next
  case (snoc ys y)
  then have l: "list_at h q (ys @ y # [])"
    using holds_list_at [OF tails_holds [OF assms(1)] assms(2)] by simp
  then show ?thesis
    using tails_last [OF assms] snoc list_at_prev [OF l] list_at_get_ref [OF l]
    by (simp add: TAILQ_LAST_def behind_def)
qed

lemma TAILQ_PREV_eq:
  assumes "tails h L" and "L q = Some (as @ y # x # bs)"
  shows "TAILQ_PREV x h = Some (Some y)"
proof -
  have l: "list_at h q (as @ y # x # bs)"
    using holds_list_at [OF tails_holds [OF assms(1)] assms(2)] .
  then show ?thesis
    using list_at_prev [of h q "as @ [y]" x bs] list_at_prev [OF l] list_at_get_ref [OF l]
    by (simp add: TAILQ_PREV_def behind_def)
qed

subsection \<open>The contracts\<close>

text \<open>
  What a user of the macros relies on: \<open>rep\<close> relates the memory to the lists, and every operation
  acts on the list of its head as expected, leaving all other lists alone.
\<close>

fun loop :: "(nat \<Rightarrow> 's \<Rightarrow> ('r + 's) option) \<Rightarrow> nat list \<Rightarrow> 's \<Rightarrow> ('r + 's) option" where
  "loop f [] s = Some (Inr s)"
| "loop f (x # xs) s = do { r \<leftarrow> f x s; case r of Inl r \<Rightarrow> Some (Inl r) | Inr s \<Rightarrow> loop f xs s }"

fun each :: "(nat \<Rightarrow> 's \<Rightarrow> 's option) \<Rightarrow> nat list \<Rightarrow> 's \<Rightarrow> 's option" where
  "each g [] s = Some s"
| "each g (x # xs) s = do { s \<leftarrow> g x s; each g xs s }"

locale linked_lists =
  fixes rep :: "links \<Rightarrow> (nat \<rightharpoonup> nat list) \<Rightarrow> bool"
    and init :: "nat \<Rightarrow> links \<Rightarrow> links"
    and first :: "nat \<Rightarrow> links \<Rightarrow> nat option"
    and insert_head :: "nat \<Rightarrow> nat \<Rightarrow> links \<Rightarrow> links"
    and remove :: "nat \<Rightarrow> nat \<Rightarrow> links \<Rightarrow> links option"
  assumes init_law: "rep h L \<Longrightarrow> rep (init q h) (L(q \<mapsto> []))"
    and first_law: "rep h L \<Longrightarrow> L q = Some xs \<Longrightarrow> first q h = first_of xs"
    and next_law: "rep h L \<Longrightarrow> L q = Some (as @ x # bs) \<Longrightarrow> q_next h x = first_of bs"
    and insert_head_law: "rep h L \<Longrightarrow> L q = Some xs \<Longrightarrow> unlinked x L \<Longrightarrow>
      rep (insert_head q x h) (L(q \<mapsto> x # xs))"
    and remove_law: "rep h L \<Longrightarrow> L q = Some (as @ x # bs) \<Longrightarrow>
      \<exists>h'. remove q x h = Some h' \<and> rep h' (L(q \<mapsto> as @ bs))"
begin

text \<open>A \<open>FOREACH\<close> loop visits the elements of the list, in order.\<close>

lemma foreach_from:
  assumes "rep h L" and "L q = Some (as @ bs)"
  shows "foreach h f (first_of bs) s = loop f bs s"
  using assms(2)
proof (induction bs arbitrary: as s)
  case Nil
  then show ?case by (simp add: foreach.simps)
next
  case (Cons x bs)
  have "foreach h f (first_of bs) = loop f bs"
    using Cons.IH [of "as @ [x]"] Cons.prems by (simp add: fun_eq_iff)
  moreover have "q_next h x = first_of bs"
    using next_law [OF assms(1) Cons.prems] .
  ultimately show ?case
    by (subst foreach.simps) simp
qed

lemma foreach_loop:
  "rep h L \<Longrightarrow> L q = Some xs \<Longrightarrow> foreach h f (first q h) s = loop f xs s"
  using foreach_from [of h L q "[]" xs f s] first_law by simp

text \<open>A \<open>FOREACH_SAFE\<close> loop that unlinks every element visits all of them and leaves an empty list.\<close>

lemma drain_from:
  assumes "rep h L" and "L q = Some xs"
  shows "\<exists>h'. foreach_safe (\<lambda>x (h, s). do { h \<leftarrow> remove q x h; s \<leftarrow> g x s; Some (h, s) }) (first_of xs) (h, s) =
      map_option (\<lambda>s. (h', s)) (each g xs s) \<and> rep h' (L(q \<mapsto> []))"
  using assms
proof (induction xs arbitrary: h L s)
  case Nil
  then have "L(q \<mapsto> []) = L" by auto
  then show ?case using Nil by (auto simp: foreach_safe.simps)
next
  case (Cons x xs)
  obtain h1 where h1: "remove q x h = Some h1" "rep h1 (L(q \<mapsto> xs))"
    using remove_law [OF Cons.prems(1), of q "[]" x xs] Cons.prems(2) by auto
  have n: "q_next h x = first_of xs"
    using next_law [OF Cons.prems(1), of q "[]" x xs] Cons.prems(2) by simp
  have IH: "\<exists>h'. foreach_safe (\<lambda>x (h, s). do { h \<leftarrow> remove q x h; s \<leftarrow> g x s; Some (h, s) }) (first_of xs) (h1, t) =
      map_option (\<lambda>s. (h', s)) (each g xs t) \<and> rep h' (L(q \<mapsto> []))" for t
    using Cons.IH [OF h1(2), of t] by (simp add: fun_upd_def cong: if_cong)
  show ?case
  proof (cases "g x s")
    case None
    then show ?thesis using IH [of s] h1 n by (subst foreach_safe.simps) auto
  next
    case (Some s1)
    then show ?thesis using IH [of s1] h1 n by (subst foreach_safe.simps) simp
  qed
qed

lemma drain:
  assumes "rep h L" and "L q = Some xs"
  shows "\<exists>h'. foreach_safe (\<lambda>x (h, s). do { h \<leftarrow> remove q x h; s \<leftarrow> g x s; Some (h, s) }) (first q h) (h, s) =
      map_option (\<lambda>s. (h', s)) (each g xs s) \<and> rep h' (L(q \<mapsto> []))"
  unfolding first_law [OF assms] by (rule drain_from [OF assms])

end

locale tail_queues = linked_lists +
  fixes insert_tail :: "nat \<Rightarrow> nat \<Rightarrow> links \<Rightarrow> links option"
    and last_elem :: "nat \<Rightarrow> links \<Rightarrow> nat option option"
  assumes insert_tail_law: "rep h L \<Longrightarrow> L q = Some xs \<Longrightarrow> unlinked x L \<Longrightarrow>
      \<exists>h'. insert_tail q x h = Some h' \<and> rep h' (L(q \<mapsto> xs @ [x]))"
    and last_law: "rep h L \<Longrightarrow> L q = Some xs \<Longrightarrow>
      last_elem q h = Some (if xs = [] then None else Some (last xs))"
begin

text \<open>
  First in, first out: after any elements are appended, the first element is still the oldest one,
  and removing it leaves the others in order.
\<close>

lemma append_all:
  assumes "rep h L" and "L q = Some xs" and "distinct ys" and "\<And>y. y \<in> set ys \<Longrightarrow> unlinked y L"
  shows "\<exists>h'. fold (\<lambda>y s. Option.bind s (insert_tail q y)) ys (Some h) = Some h' \<and> rep h' (L(q \<mapsto> xs @ ys))"
  using assms
proof (induction ys arbitrary: h L xs)
  case Nil
  then have "L(q \<mapsto> xs) = L" by auto
  then show ?case using Nil by simp
next
  case (Cons y ys)
  obtain h1 where h1: "insert_tail q y h = Some h1" "rep h1 (L(q \<mapsto> xs @ [y]))"
    using insert_tail_law [OF Cons.prems(1,2)] Cons.prems(4) by auto
  have "unlinked z (L(q \<mapsto> xs @ [y]))" if z: "z \<in> set ys" for z
  proof -
    have "unlinked z L" using Cons.prems(4) z by simp
    then have "z \<notin> set xs" "z \<noteq> y" using Cons.prems(2,3) z by (auto simp: unlinked_def)
    then show ?thesis using \<open>unlinked z L\<close> by (auto simp: unlinked_def)
  qed
  from Cons.IH [OF h1(2) _ _ this] Cons.prems(3) obtain h2 where
    "fold (\<lambda>y s. Option.bind s (insert_tail q y)) ys (Some h1) = Some h2"
    "rep h2 (L(q \<mapsto> xs @ y # ys))" by (auto simp: fun_upd_def cong: if_cong)
  then show ?case
    using h1(1) by (simp add: fun_upd_def)
qed

end

interpretation lists: linked_lists holds LIST_INIT LIST_FIRST LIST_INSERT_HEAD "\<lambda>_. LIST_REMOVE"
proof unfold_locales
  show "holds h L \<Longrightarrow> L q = Some xs \<Longrightarrow> LIST_FIRST q h = first_of xs" for h L q xs
    using list_at_first [OF holds_list_at] by (simp add: LIST_FIRST_def)
  show "holds h L \<Longrightarrow> L q = Some (as @ x # bs) \<Longrightarrow> q_next h x = first_of bs" for h L q as x bs
    using list_at_next [OF holds_list_at] .
qed (simp_all add: holds_LIST_INIT holds_LIST_INSERT_HEAD holds_LIST_REMOVE)

interpretation tailqs: tail_queues tails TAILQ_INIT TAILQ_FIRST TAILQ_INSERT_HEAD TAILQ_REMOVE
  TAILQ_INSERT_TAIL TAILQ_LAST
proof unfold_locales
  show "tails h L \<Longrightarrow> L q = Some xs \<Longrightarrow> TAILQ_FIRST q h = first_of xs" for h L q xs
    using list_at_first [OF holds_list_at [OF tails_holds]] by (simp add: TAILQ_FIRST_def)
  show "tails h L \<Longrightarrow> L q = Some (as @ x # bs) \<Longrightarrow> q_next h x = first_of bs" for h L q as x bs
    using list_at_next [OF holds_list_at [OF tails_holds]] .
qed (simp_all add: tails_TAILQ_INIT tails_TAILQ_INSERT_HEAD tails_TAILQ_REMOVE tails_TAILQ_INSERT_TAIL TAILQ_LAST_eq)

subsection \<open>Linking an element twice\<close>

text \<open>Nothing checks that an element is not linked already; inserting it again closes a cycle.\<close>

lemma foreach_closed:
  assumes "\<And>y. y \<in> C \<Longrightarrow> \<exists>z \<in> C. q_next h y = Some z" and "y \<in> C"
  shows "foreach h (\<lambda>_ s. Some (Inr s)) (Some y) s = (None :: ('r + 's) option)"
proof (cases "foreach h (\<lambda>_ s. Some (Inr s)) (Some y) s :: ('r + 's) option")
  case (Some r)
  have "h' = h \<longrightarrow> f = (\<lambda>_ s. Some (Inr s)) \<longrightarrow> p \<notin> Some ` C"
    if "foreach h' f p s = Some r" for h' f p and s :: 's and r :: "'r + 's"
  proof (rule foreach.raw_induct [where P = "\<lambda>h' f p s r. h' = h \<longrightarrow> f = (\<lambda>_ s. Some (Inr s)) \<longrightarrow> p \<notin> Some ` C", OF _ that])
    fix go h' f p and s :: 's and r :: "'r + 's"
    assume IH: "\<And>h' f p s r. go h' f p s = Some r \<Longrightarrow> h' = h \<longrightarrow> f = (\<lambda>_ s. Some (Inr s)) \<longrightarrow> p \<notin> Some ` C"
      and st: "(case p of None \<Rightarrow> Some (Inr s) | Some x \<Rightarrow> f x s \<bind> (\<lambda>r. case r of Inl r \<Rightarrow> Some (Inl r) | Inr s \<Rightarrow> go h' f (q_next h' x) s)) = Some r"
    show "h' = h \<longrightarrow> f = (\<lambda>_ s. Some (Inr s)) \<longrightarrow> p \<notin> Some ` C"
    proof (intro impI notI)
      assume "h' = h" "f = (\<lambda>_ s. Some (Inr s))" "p \<in> Some ` C"
      then show False using IH [of h' f] st assms(1) by fastforce
    qed
  qed
  from this [OF Some] assms(2) show ?thesis by blast
qed

lemma LIST_INSERT_HEAD_twice:
  assumes "list_at h q xs" and "x \<in> set xs"
  shows "foreach (LIST_INSERT_HEAD q x h) (\<lambda>_ s. Some (Inr s)) (LIST_FIRST q (LIST_INSERT_HEAD q x h)) s = None"
proof -
  obtain as bs where xs: "xs = as @ x # bs" "x \<notin> set as"
    using split_list_first [OF assms(2)] by blast
  have "\<exists>z \<in> insert x (set as). q_next (splice (Head q) x h) y = Some z" if y: "y \<in> insert x (set as)" for y
  proof (cases "y = x")
    case True
    then show ?thesis
      using list_at_first [OF assms(1)] xs(1) by (cases as) (simp_all add: splice_def get_ref_def)
  next
    case False
    then obtain cs ds where as: "as = cs @ y # ds"
      using y split_list [of y as] by auto
    then have "list_at h q (cs @ y # (ds @ x # bs))"
      using assms(1) xs(1) by simp
    from list_at_next [OF this] show ?thesis
      using False as by (cases ds) (simp_all add: splice_def)
  qed
  note loops = foreach_closed [where C = "insert x (set as)", OF this]
  have "LIST_FIRST q (LIST_INSERT_HEAD q x h) = Some x"
    by (simp add: LIST_INSERT_HEAD_eq LIST_FIRST_def splice_def)
  then show ?thesis
    unfolding LIST_INSERT_HEAD_eq by (simp only:) (rule loops; simp)
qed

subsection \<open>Tail queues as lists\<close>

text \<open>C12. The tail queues of \<open>queue.h\<close>, kept by two pointers per element, implement lists. From any memory
  that represents the lists \<open>L\<close>, inserting an unlinked element at the tail of one gives a memory that
  represents \<open>L\<close> with the element appended to that list; the first element is the oldest one, the
  last-element macro (which reads an entry as if it were a head) finds the new one, the loop macro
  visits the elements in order, and removing the element again gives back the lists \<open>L\<close>.
\<close>

theorem tail_queue_refines_list:
  assumes "tails h L" and "L q = Some xs" and "unlinked x L"
  shows "\<exists>h1 h2. TAILQ_INSERT_TAIL q x h = Some h1 \<and> tails h1 (L(q \<mapsto> xs @ [x])) \<and>
    TAILQ_FIRST q h1 = first_of (xs @ [x]) \<and> TAILQ_LAST q h1 = Some (Some x) \<and>
    (\<forall>(f :: nat \<Rightarrow> 's \<Rightarrow> ('r + 's) option) s. foreach h1 f (TAILQ_FIRST q h1) s = loop f (xs @ [x]) s) \<and>
    TAILQ_REMOVE q x h1 = Some h2 \<and> tails h2 L"
proof -
  obtain h1 where h1: "TAILQ_INSERT_TAIL q x h = Some h1" "tails h1 (L(q \<mapsto> xs @ [x]))"
    using tailqs.insert_tail_law [OF assms] by blast
  have at: "(L(q \<mapsto> xs @ [x])) q = Some (xs @ [x])" by simp
  have "(L(q \<mapsto> xs @ [x]))(q \<mapsto> xs) = L" using assms(2) by auto
  then obtain h2 where "TAILQ_REMOVE q x h1 = Some h2" "tails h2 L"
    using tailqs.remove_law [OF h1(2), of q xs x "[]"] by auto
  then show ?thesis
    using h1 tailqs.first_law [OF h1(2) at] tailqs.last_law [OF h1(2) at]
    by - (rule exI [of _ h1], rule exI [of _ h2],
      simp add: tailqs.foreach_from [OF h1(2), of q "[]" "xs @ [x]"])
qed

definition no_links :: links where
  "no_links = \<lparr>q_first = \<lambda>_. None, q_last = \<lambda>_. None, q_next = \<lambda>_. None, q_prev = \<lambda>_. None\<rparr>"

lemma tails_no_links: "tails (TAILQ_INIT 0 no_links) [0 \<mapsto> []]"
  using tails_TAILQ_INIT [of no_links Map.empty 0] by (simp add: tails_def holds_def)

theorem tail_queue_refines_list_witness:
  "\<exists>h1 h2. TAILQ_INSERT_TAIL 0 5 (TAILQ_INIT 0 no_links) = Some h1 \<and> tails h1 ([0 \<mapsto> []](0 \<mapsto> [] @ [5])) \<and>
    TAILQ_FIRST 0 h1 = first_of ([] @ [5]) \<and> TAILQ_LAST 0 h1 = Some (Some 5) \<and>
    (\<forall>f s. foreach h1 f (TAILQ_FIRST 0 h1) (s :: nat) = (loop f ([] @ [5]) s :: (nat + nat) option)) \<and>
    TAILQ_REMOVE 0 5 h1 = Some h2 \<and> tails h2 [0 \<mapsto> []]"
  by (rule tail_queue_refines_list [OF tails_no_links]) (simp_all add: unlinked_def)

end
