(* ===== verification/Observer.thy ===== *)
theory Observer
  imports Queue_Spec Store
begin

section \<open>Observers (source/observer.c)\<close>

text \<open>
  An observer is an object, a notification type and a handler; a list of observers links the
  observers themselves, newest first. Observers and list heads are allocated objects: the links of
  the observer at address \<open>x\<close> are entry \<open>x\<close>, the head of the list at address \<open>q\<close> is head \<open>q\<close>. Objects and
  handlers are only compared, so they are pointers with nothing behind them. The links are kept apart
  from the objects, but an entry belongs to its observer and a head to its list: an operation that
  reads or writes a link of an object that is not allocated (any more) has no result.
\<close>

record observer =
  ob_object :: ptr
  ob_notify_type :: int
  ob_notify_handler :: ptr

datatype observer_obj = Uninit | Obs observer | ObsList

record observers =
  obs_links :: links
  obs_objs :: "observer_obj store"

definition observer_at :: "observers \<Rightarrow> ptr \<Rightarrow> observer option" where
  "observer_at st p = (case load (obs_objs st) p of Some (Obs x) \<Rightarrow> Some x | _ \<Rightarrow> None)"

definition observer_init :: "ptr \<Rightarrow> observers \<Rightarrow> observers option" where
  "observer_init self st = do {
     objs \<leftarrow> assign self (Obs \<lparr>ob_object = None, ob_notify_type = 0, ob_notify_handler = None\<rparr>) (obs_objs st);
     Some (st\<lparr>obs_objs := objs\<rparr>)
   }"

definition observer_clean :: "ptr \<Rightarrow> observers \<Rightarrow> observers option" where
  "observer_clean self st = Some st"

definition observer_new :: "observers \<Rightarrow> (ptr \<times> observers) option" where
  "observer_new st = (let (self, objs) = xmalloc Uninit (obs_objs st) in do {
     st \<leftarrow> observer_init self (st\<lparr>obs_objs := objs\<rparr>);
     Some (self, st)
   })"

definition observer_update :: "(observer \<Rightarrow> observer) \<Rightarrow> ptr \<Rightarrow> observers \<Rightarrow> observers option" where
  "observer_update f p st = do {
     x \<leftarrow> observer_at st p;
     objs \<leftarrow> assign p (Obs (f x)) (obs_objs st);
     Some (st\<lparr>obs_objs := objs\<rparr>)
   }"

definition observer_create :: "ptr \<Rightarrow> int \<Rightarrow> ptr \<Rightarrow> observers \<Rightarrow> (ptr \<times> observers) option" where
  "observer_create object type handler st = do {
     (self, st) \<leftarrow> observer_new st;
     st \<leftarrow> observer_update (ob_object_update (\<lambda>_. object)) self st;
     st \<leftarrow> observer_update (ob_notify_type_update (\<lambda>_. type)) self st;
     st \<leftarrow> observer_update (ob_notify_handler_update (\<lambda>_. handler)) self st;
     Some (self, st)
   }"

definition observer_delete :: "ptr \<Rightarrow> observers \<Rightarrow> (ptr \<times> observers) option" where
  "observer_delete self st = do {
     st \<leftarrow> observer_clean self st;
     (p, objs) \<leftarrow> xfree self (obs_objs st);
     Some (p, st\<lparr>obs_objs := objs\<rparr>)
   }"

definition observer_is_available :: "ptr \<Rightarrow> observers \<Rightarrow> bool option" where
  "observer_is_available self st =
     (if self = None then Some False
      else do { x \<leftarrow> observer_at st self; Some (ob_notify_handler x \<noteq> None) })"

subsection \<open>Lists of observers\<close>

definition observer_list_init :: "nat \<Rightarrow> observers \<Rightarrow> observers" where
  "observer_list_init self st = st\<lparr>obs_links := LIST_INIT self (obs_links st)\<rparr>"

definition observer_list_new :: "observers \<Rightarrow> (nat \<times> observers) option" where
  "observer_list_new st = (let (p, objs) = xmalloc ObsList (obs_objs st) in do {
     self \<leftarrow> p;
     Some (self, observer_list_init self (st\<lparr>obs_objs := objs\<rparr>))
   })"

text \<open>
  An entry is there as long as its observer is, and so is what the back link of an entry refers to: the
  head of the list or the entry before. \<open>LIST_REMOVE\<close> touches the entry and both its neighbours.
\<close>

definition entry_live :: "observer_obj store \<Rightarrow> nat \<Rightarrow> bool" where
  "entry_live objs x = (case st_obj objs x of Some (Obs ob) \<Rightarrow> True | _ \<Rightarrow> False)"

definition ref_live :: "observer_obj store \<Rightarrow> ref \<Rightarrow> bool" where
  "ref_live objs r = (case r of Head q \<Rightarrow> st_obj objs q = Some ObsList | Next x \<Rightarrow> entry_live objs x)"

definition unlink_live :: "observer_obj store \<Rightarrow> links \<Rightarrow> nat \<Rightarrow> bool" where
  "unlink_live objs l x \<longleftrightarrow> entry_live objs x \<and> pred_option (entry_live objs) (q_next l x) \<and>
     pred_option (ref_live objs) (q_prev l x)"

text \<open>
  The loop unlinks and deletes; the body runs on the links and on the objects. The loop reads the next
  link of an observer before the body, where the observer must be there.
\<close>

definition observer_list_clean :: "nat \<Rightarrow> observers \<Rightarrow> observers option" where
  "observer_list_clean self st =
     (if ref_live (obs_objs st) (Head self) then do {
        (l, objs) \<leftarrow> foreach_safe
          (\<lambda>x (l, objs).
             if unlink_live objs l x then do {
               l \<leftarrow> LIST_REMOVE x l;
               objs \<leftarrow> (do { (_, st) \<leftarrow> observer_delete (Some x) (st\<lparr>obs_objs := objs\<rparr>); Some (obs_objs st) });
               Some (l, objs)
             } else None)
          (LIST_FIRST self (obs_links st)) (obs_links st, obs_objs st);
        Some (st\<lparr>obs_links := l, obs_objs := objs\<rparr>)
      } else None)"

definition observer_list_delete :: "nat \<Rightarrow> observers \<Rightarrow> (ptr \<times> observers) option" where
  "observer_list_delete self st = do {
     st \<leftarrow> observer_list_clean self st;
     (p, objs) \<leftarrow> xfree (Some self) (obs_objs st);
     Some (p, st\<lparr>obs_objs := objs\<rparr>)
   }"

definition observer_list_add_observer :: "nat \<Rightarrow> nat \<Rightarrow> observers \<Rightarrow> observers option" where
  "observer_list_add_observer self observer st =
     (if ref_live (obs_objs st) (Head self) \<and> entry_live (obs_objs st) observer \<and>
         pred_option (entry_live (obs_objs st)) (LIST_FIRST self (obs_links st))
      then Some (st\<lparr>obs_links := LIST_INSERT_HEAD self observer (obs_links st)\<rparr>) else None)"

definition observer_list_remove_observer :: "nat \<Rightarrow> nat \<Rightarrow> observers \<Rightarrow> observers option" where
  "observer_list_remove_observer self observer st =
     (if unlink_live (obs_objs st) (obs_links st) observer then do {
        l \<leftarrow> LIST_REMOVE observer (obs_links st);
        Some (st\<lparr>obs_links := l\<rparr>)
      } else None)"

definition observer_list_find_observer :: "nat \<Rightarrow> ptr \<Rightarrow> int \<Rightarrow> ptr \<Rightarrow> observers \<Rightarrow> ptr option" where
  "observer_list_find_observer self object notify_type handler st =
     (if ref_live (obs_objs st) (Head self) then do {
        r \<leftarrow> foreach (obs_links st)
          (\<lambda>tmp (). do {
             x \<leftarrow> observer_at st (Some tmp);
             if ob_object x \<noteq> object then Some (Inr ())
             else if notify_type > 0 \<and> ob_notify_type x \<noteq> notify_type then Some (Inr ())
             else if handler \<noteq> None \<and> ob_notify_handler x \<noteq> handler then Some (Inr ())
             else Some (Inl tmp)
           })
          (LIST_FIRST self (obs_links st)) ();
        Some (case r of Inl tmp \<Rightarrow> Some tmp | Inr _ \<Rightarrow> None)
      } else None)"

subsection \<open>The representation invariant\<close>

text \<open>
  \<open>obs_holds st L\<close>: the lists \<open>L\<close> are linked in memory, each head is a live list object, each element
  a live observer, and new addresses are new.
\<close>

definition obs_holds :: "observers \<Rightarrow> (nat \<rightharpoonup> nat list) \<Rightarrow> bool" where
  "obs_holds st L \<longleftrightarrow> holds (obs_links st) L \<and> store_ok (obs_objs st) \<and>
     (\<forall>q xs. L q = Some xs \<longrightarrow> st_obj (obs_objs st) q = Some ObsList \<and>
        (\<forall>x \<in> set xs. \<exists>ob. st_obj (obs_objs st) x = Some (Obs ob)))"

definition obs_matches :: "ptr \<Rightarrow> int \<Rightarrow> ptr \<Rightarrow> observer \<Rightarrow> bool" where
  "obs_matches object notify_type handler x \<longleftrightarrow> ob_object x = object \<and>
     (notify_type > 0 \<longrightarrow> ob_notify_type x = notify_type) \<and> (handler \<noteq> None \<longrightarrow> ob_notify_handler x = handler)"

definition obs_of :: "observers \<Rightarrow> nat \<Rightarrow> observer" where
  "obs_of st x = the (observer_at st (Some x))"

lemma obs_at:
  "obs_holds st L \<Longrightarrow> L q = Some xs \<Longrightarrow> x \<in> set xs \<Longrightarrow> observer_at st (Some x) = Some (obs_of st x)"
  unfolding obs_holds_def obs_of_def observer_at_def by fastforce

lemma obs_live:
  assumes "obs_holds st L" and "L q = Some xs"
  shows "ref_live (obs_objs st) (Head q)" and "x \<in> set xs \<Longrightarrow> entry_live (obs_objs st) x"
  using assms by (fastforce simp: obs_holds_def ref_live_def entry_live_def)+

lemma first_live: "\<forall>x \<in> set xs. entry_live objs x \<Longrightarrow> pred_option (entry_live objs) (first_of xs)"
  by (cases xs) simp_all

lemma unlink_live_list:
  assumes "holds l L" and "L q = Some (as @ x # bs)" and "ref_live objs (Head q)"
    and "\<forall>y \<in> set (as @ x # bs). entry_live objs y"
  shows "unlink_live objs l x"
proof -
  have "q_prev l x = Some (end_ref (Head q) as)" "q_next l x = first_of bs"
    using list_at_prev [OF holds_list_at [OF assms(1,2)]] lists.next_law [OF assms(1,2)] by simp_all
  moreover have "ref_live objs (end_ref (Head q) as)"
    using assms(3,4) by (cases as rule: rev_cases) (simp_all add: end_ref_def ref_live_def)
  ultimately show ?thesis
    using assms(4) by (simp add: unlink_live_def first_live)
qed

lemma find_loop:
  assumes "\<forall>x \<in> set xs. observer_at st (Some x) = Some (obs_of st x)"
  shows "loop (\<lambda>tmp (). do {
          x \<leftarrow> observer_at st (Some tmp);
          if ob_object x \<noteq> object then Some (Inr ())
          else if notify_type > 0 \<and> ob_notify_type x \<noteq> notify_type then Some (Inr ())
          else if handler \<noteq> None \<and> ob_notify_handler x \<noteq> handler then Some (Inr ())
          else Some (Inl tmp)
        }) xs () =
    Some (case find (\<lambda>x. obs_matches object notify_type handler (obs_of st x)) xs of
        Some x \<Rightarrow> Inl x | None \<Rightarrow> Inr ())"
  using assms by (induction xs) (auto simp: obs_matches_def)

lemma observer_list_find_eq:
  assumes "obs_holds st L" and "L q = Some xs"
  shows "observer_list_find_observer q object notify_type handler st =
    Some (find (\<lambda>x. obs_matches object notify_type handler (obs_of st x)) xs)"
proof -
  have h: "holds (obs_links st) L" using assms(1) by (simp add: obs_holds_def)
  have "\<forall>x \<in> set xs. observer_at st (Some x) = Some (obs_of st x)"
    using obs_at [OF assms] by blast
  from find_loop [OF this] show ?thesis
    unfolding observer_list_find_observer_def lists.foreach_loop [OF h assms(2)]
    by (simp add: obs_live(1) [OF assms] split: option.split)
qed

lemma observer_create_eq:
  "observer_create object type handler st = Some (Some (st_next (obs_objs st)),
     st\<lparr>obs_objs := (obs_objs st)\<lparr>
       st_obj := (st_obj (obs_objs st))(st_next (obs_objs st) \<mapsto>
         Obs \<lparr>ob_object = object, ob_notify_type = type, ob_notify_handler = handler\<rparr>),
       st_next := Suc (st_next (obs_objs st))\<rparr>\<rparr>)"
  by (cases st, cases "obs_objs st")
    (simp add: observer_create_def observer_new_def observer_init_def observer_update_def observer_at_def
      xmalloc_def assign_def)

lemma obs_holds_fresh: "obs_holds st L \<Longrightarrow> unlinked (st_next (obs_objs st)) L"
  unfolding obs_holds_def unlinked_def by (metis option.distinct(1) store_ok_fresh)

lemma obs_holds_create:
  assumes "obs_holds st L" and "observer_create object type handler st = Some (Some x, st')"
  shows "obs_holds st' L" and "unlinked x L"
    and "obs_of st' x = \<lparr>ob_object = object, ob_notify_type = type, ob_notify_handler = handler\<rparr>"
    and "st_obj (obs_objs st') x = Some (Obs (obs_of st' x))"
    and "\<And>y. y \<noteq> x \<Longrightarrow> obs_of st' y = obs_of st y"
proof -
  have x: "x = st_next (obs_objs st)" and st': "st' = st\<lparr>obs_objs := (obs_objs st)\<lparr>
       st_obj := (st_obj (obs_objs st))(x \<mapsto>
         Obs \<lparr>ob_object = object, ob_notify_type = type, ob_notify_handler = handler\<rparr>),
       st_next := Suc x\<rparr>\<rparr>"
    using assms(2) by (auto simp: observer_create_eq)
  have fresh: "st_obj (obs_objs st) x = None" and ok: "store_ok (obs_objs st)"
    using assms(1) by (simp_all add: obs_holds_def x)
  have "L x = None"
    using assms(1) fresh by (cases "L x") (auto simp: obs_holds_def)
  then show "obs_holds st' L"
    unfolding obs_holds_def st'
    using assms(1) fresh x by (auto simp: obs_holds_def store_ok_def)
  show "unlinked x L"
    using obs_holds_fresh [OF assms(1)] x by simp
  show "obs_of st' x = \<lparr>ob_object = object, ob_notify_type = type, ob_notify_handler = handler\<rparr>"
      "st_obj (obs_objs st') x = Some (Obs (obs_of st' x))"
    by (simp_all add: st' obs_of_def observer_at_def)
  show "\<And>y. y \<noteq> x \<Longrightarrow> obs_of st' y = obs_of st y"
    by (simp add: st' obs_of_def observer_at_def)
qed

lemma obs_holds_add:
  assumes "obs_holds st L" and "L q = Some xs" and "unlinked x L" and "st_obj (obs_objs st) x = Some (Obs ob)"
  shows "\<exists>st'. observer_list_add_observer q x st = Some st' \<and> obs_holds st' (L(q \<mapsto> x # xs)) \<and>
    obs_objs st' = obs_objs st"
proof -
  have "LIST_FIRST q (obs_links st) = first_of xs"
    using assms lists.first_law [of "obs_links st" L q xs] by (simp add: obs_holds_def)
  moreover have "obs_holds (st\<lparr>obs_links := LIST_INSERT_HEAD q x (obs_links st)\<rparr>) (L(q \<mapsto> x # xs))"
    using assms lists.insert_head_law [of "obs_links st" L q xs x] by (auto simp: obs_holds_def)
  ultimately show ?thesis
    using obs_live [OF assms(1,2)] assms(4)
    by (simp add: observer_list_add_observer_def first_live entry_live_def [of _ x])
qed

lemma obs_holds_remove:
  assumes "obs_holds st L" and "L q = Some (as @ x # bs)"
  shows "\<exists>st'. observer_list_remove_observer q x st = Some st' \<and> obs_holds st' (L(q \<mapsto> as @ bs)) \<and>
    obs_objs st' = obs_objs st"
proof -
  obtain h where "LIST_REMOVE x (obs_links st) = Some h" "holds h (L(q \<mapsto> as @ bs))"
    using lists.remove_law [of "obs_links st" L q as x bs] assms by (auto simp: obs_holds_def)
  moreover have "unlink_live (obs_objs st) (obs_links st) x"
    using unlink_live_list [of "obs_links st" L q as x bs "obs_objs st"] obs_live [OF assms] assms by (simp add: obs_holds_def)
  ultimately show ?thesis
    using assms by (auto simp: obs_holds_def observer_list_remove_observer_def)
qed

text \<open>Whatever the lists of observers are, a newly created observer is live and on no list; once
  added to a list it stands at the head and searching for its object, type and handler returns it
  before any older match; and removing it gives back a memory that represents the same lists as
  before and answers every search as before.\<close>

lemma observer_add_remove:
  assumes "obs_holds st L" and "L q = Some xs"
  shows "\<exists>x st1 st2 st3. observer_create object type handler st = Some (Some x, st1) \<and>
    observer_list_add_observer q x st1 = Some st2 \<and> obs_holds st2 (L(q \<mapsto> x # xs)) \<and>
    observer_list_find_observer q object type handler st2 = Some (Some x) \<and>
    observer_list_remove_observer q x st2 = Some st3 \<and> obs_holds st3 L \<and>
    (\<forall>ob t h. observer_list_find_observer q ob t h st3 = observer_list_find_observer q ob t h st)"
proof -
  obtain x st1 where c: "observer_create object type handler st = Some (Some x, st1)"
    by (simp add: observer_create_eq)
  note cr = obs_holds_create [OF assms(1) c]
  obtain st2 where add: "observer_list_add_observer q x st1 = Some st2" "obs_holds st2 (L(q \<mapsto> x # xs))"
    "obs_objs st2 = obs_objs st1"
    using obs_holds_add [OF cr(1) assms(2) cr(2) cr(4)] by blast
  have of1: "obs_of st2 y = obs_of st1 y" for y
    by (simp add: add(3) obs_of_def observer_at_def)
  have find: "observer_list_find_observer q object type handler st2 = Some (Some x)"
    using observer_list_find_eq [OF add(2), of q "x # xs"] of1 cr(3) by (simp add: obs_matches_def)
  obtain st3 where rm: "observer_list_remove_observer q x st2 = Some st3"
      "obs_holds st3 ((L(q \<mapsto> x # xs))(q \<mapsto> [] @ xs))" "obs_objs st3 = obs_objs st2"
    using obs_holds_remove [OF add(2), of q "[]" x xs] by auto
  have L: "(L(q \<mapsto> x # xs))(q \<mapsto> [] @ xs) = L"
    using assms(2) by auto
  have "obs_of st3 y = obs_of st y" if "y \<in> set xs" for y
  proof -
    have "y \<noteq> x" using that cr(2) assms(2) by (auto simp: unlinked_def)
    then show ?thesis using cr(5) rm(3) add(3) by (simp add: obs_of_def observer_at_def)
  qed
  then have "find (\<lambda>x. obs_matches ob t h (obs_of st3 x)) xs = find (\<lambda>x. obs_matches ob t h (obs_of st x)) xs" for ob t h
    by (intro find_cong) auto
  then have "observer_list_find_observer q ob t h st3 = observer_list_find_observer q ob t h st" for ob t h
    using observer_list_find_eq [OF rm(2) [unfolded L] assms(2)] observer_list_find_eq [OF assms] by simp
  then show ?thesis
    using c add(1,2) find rm(1) rm(2) [unfolded L] by blast
qed

text \<open>Releasing every element of a list of observers, each once.\<close>

lemma each_delete:
  assumes "distinct xs" and "\<forall>x \<in> set xs. st_obj objs x \<noteq> None"
  shows "\<exists>objs'. each (\<lambda>x objs. do { (_, st) \<leftarrow> observer_delete (Some x) (st\<lparr>obs_objs := objs\<rparr>); Some (obs_objs st) })
      xs objs = Some objs' \<and> st_next objs' = st_next objs \<and>
    st_obj objs' = (\<lambda>a. if a \<in> set xs then None else st_obj objs a)"
  using assms
proof (induction xs arbitrary: objs)
  case (Cons x xs)
  obtain ob where x: "st_obj objs x = Some ob" using Cons.prems(2) by auto
  define objs1 where "objs1 = objs\<lparr>st_obj := (st_obj objs)(x := None)\<rparr>"
  have "do { (_, st) \<leftarrow> observer_delete (Some x) (st\<lparr>obs_objs := objs\<rparr>); Some (obs_objs st) } = Some objs1"
    using x by (simp add: observer_delete_def observer_clean_def store_simps objs1_def)
  moreover have "\<forall>y \<in> set xs. st_obj objs1 y \<noteq> None"
    using Cons.prems by (auto simp: objs1_def)
  ultimately show ?case
    using Cons.IH [of objs1] Cons.prems(1) by (auto simp: objs1_def fun_eq_iff)
qed auto

text \<open>No iteration touches an entry that a former one has released.\<close>

lemma clean_loop:
  assumes "holds l L" and "L q = Some xs" and "ref_live objs (Head q)" and "\<forall>x \<in> set xs. entry_live objs x"
  shows "foreach_safe
       (\<lambda>x (l, objs). if unlink_live objs l x then do { l \<leftarrow> LIST_REMOVE x l;
          objs \<leftarrow> do { (_, st) \<leftarrow> observer_delete (Some x) (st\<lparr>obs_objs := objs\<rparr>); Some (obs_objs st) };
          Some (l, objs) } else None)
       (first_of xs) (l, objs) =
     foreach_safe
       (\<lambda>x (l, objs). do { l \<leftarrow> LIST_REMOVE x l;
          objs \<leftarrow> do { (_, st) \<leftarrow> observer_delete (Some x) (st\<lparr>obs_objs := objs\<rparr>); Some (obs_objs st) };
          Some (l, objs) })
       (first_of xs) (l, objs)" (is "?lhs (first_of xs) (l, objs) = ?rhs (first_of xs) (l, objs)")
  using assms
proof (induction xs arbitrary: l L objs)
  case Nil
  then show ?case by (simp add: foreach_safe.simps)
next
  case (Cons x xs)
  have live: "unlink_live objs l x"
    using unlink_live_list [of l L q "[]" x xs objs] Cons.prems by simp
  obtain l1 where l1: "LIST_REMOVE x l = Some l1" "holds l1 (L(q \<mapsto> xs))"
    using lists.remove_law [OF Cons.prems(1), of q "[]" x xs] Cons.prems(2) by auto
  have n: "q_next l x = first_of xs"
    using lists.next_law [OF Cons.prems(1), of q "[]" x xs] Cons.prems(2) by simp
  obtain ob where x: "st_obj objs x = Some (Obs ob)"
    using Cons.prems(4) by (auto simp: entry_live_def split: option.splits observer_obj.splits)
  define objs1 where "objs1 = objs\<lparr>st_obj := (st_obj objs)(x := None)\<rparr>"
  have del: "observer_delete (Some x) (st\<lparr>obs_objs := objs\<rparr>) = Some (None, st\<lparr>obs_objs := objs1\<rparr>)"
    using x by (simp add: observer_delete_def observer_clean_def store_simps objs1_def)
  have "x \<notin> set xs" "x \<noteq> q"
    using holds_list_at [OF Cons.prems(1,2)] Cons.prems(3) x by (auto simp: list_at_def ref_live_def)
  then have "?lhs (first_of xs) (l1, objs1) = ?rhs (first_of xs) (l1, objs1)"
    using Cons.prems(3,4) by (intro Cons.IH [OF l1(2)]) (auto simp: objs1_def ref_live_def entry_live_def)
  then show ?case
    using live l1(1) n del by (subst (1 2) foreach_safe.simps) simp
qed

lemma observer_list_clean_eq:
  assumes "obs_holds st L" and "L q = Some xs"
  shows "observer_list_clean q st = do {
     (l, objs) \<leftarrow> foreach_safe
       (\<lambda>x (l, objs). do { l \<leftarrow> LIST_REMOVE x l;
          objs \<leftarrow> do { (_, st) \<leftarrow> observer_delete (Some x) (st\<lparr>obs_objs := objs\<rparr>); Some (obs_objs st) };
          Some (l, objs) })
       (LIST_FIRST q (obs_links st)) (obs_links st, obs_objs st);
     Some (st\<lparr>obs_links := l, obs_objs := objs\<rparr>) }"
proof -
  have h: "holds (obs_links st) L" using assms(1) by (simp add: obs_holds_def)
  have "\<forall>x \<in> set xs. entry_live (obs_objs st) x"
    using obs_live(2) [OF assms] by blast
  from clean_loop [OF h assms(2) obs_live(1) [OF assms] this, of st] show ?thesis
    by (simp add: observer_list_clean_def obs_live(1) [OF assms] lists.first_law [OF h assms(2)])
qed

text \<open>C19. Cleaning a list of observers ends, unlinks every observer of the list, releases each of them
  exactly once and releases nothing else: the list is empty afterwards, every other list and
  every other object is as it was. No link of an observer is touched after it was released. The
  invariant of the memory is kept.\<close>

theorem observer_list_clean_frees:
  assumes "obs_holds st L" and "L q = Some xs"
  shows "\<exists>st'. observer_list_clean q st = Some st' \<and> obs_holds st' (L(q \<mapsto> [])) \<and>
    st_obj (obs_objs st') = (\<lambda>a. if a \<in> set xs then None else st_obj (obs_objs st) a)"
proof -
  have h: "holds (obs_links st) L" using assms(1) by (simp add: obs_holds_def)
  have alive: "\<forall>x \<in> set xs. st_obj (obs_objs st) x \<noteq> None" and d: "distinct xs"
    using assms holds_list_at [OF h assms(2)] by (fastforce simp: obs_holds_def, simp add: list_at_def)
  obtain objs where objs: "each (\<lambda>x objs. do { (_, st) \<leftarrow> observer_delete (Some x) (st\<lparr>obs_objs := objs\<rparr>); Some (obs_objs st) })
      xs (obs_objs st) = Some objs" "st_next objs = st_next (obs_objs st)"
    and ob: "st_obj objs = (\<lambda>a. if a \<in> set xs then None else st_obj (obs_objs st) a)"
    using each_delete [OF d alive] by blast
  obtain l where l: "holds l (L(q \<mapsto> []))"
    and "observer_list_clean q st = Some (st\<lparr>obs_links := l, obs_objs := objs\<rparr>)"
    using lists.drain [OF h assms(2),
        of "\<lambda>x objs. do { (_, st) \<leftarrow> observer_delete (Some x) (st\<lparr>obs_objs := objs\<rparr>); Some (obs_objs st) }" "obs_objs st"] objs(1)
    unfolding observer_list_clean_eq [OF assms] by auto
  moreover have "obs_holds (st\<lparr>obs_links := l, obs_objs := objs\<rparr>) (L(q \<mapsto> []))"
  proof -
    have "st_obj objs p = Some ObsList \<and> (\<forall>x \<in> set ys. \<exists>ob. st_obj objs x = Some (Obs ob))"
      if "(L(q \<mapsto> [])) p = Some ys" for p ys
    proof -
      obtain zs where p: "L p = Some zs" "set ys \<subseteq> set zs" "p = q \<or> ys = zs" "p = q \<longrightarrow> ys = []"
        using \<open>(L(q \<mapsto> [])) p = Some ys\<close> assms(2) by (auto split: if_splits)
      then have "st_obj (obs_objs st) p = Some ObsList"
        using assms(1) by (auto simp: obs_holds_def)
      moreover have "p \<notin> set xs"
        using calculation assms by (fastforce simp: obs_holds_def)
      moreover have "x \<notin> set xs" "\<exists>ob. st_obj (obs_objs st) x = Some (Obs ob)" if "x \<in> set ys" for x
        using that p assms holds_disjoint [OF h assms(2) p(1)] by (auto simp: obs_holds_def)
      ultimately show ?thesis by (simp add: ob)
    qed
    then show ?thesis
      using l assms(1) objs(2) unfolding obs_holds_def by (auto simp: store_ok_def ob)
  qed
  ultimately show ?thesis using ob by auto
qed

subsection \<open>A list with one observer\<close>

definition demo_observers :: observers where
  "demo_observers = (case observer_list_new \<lparr>obs_links = \<lparr>q_first = \<lambda>_. None, q_last = \<lambda>_. None,
       q_next = \<lambda>_. None, q_prev = \<lambda>_. None\<rparr>, obs_objs = store_empty\<rparr> of
     Some (q, st) \<Rightarrow> (case observer_create (Some 7) 1 (Some 8) st of
       Some (Some x, st) \<Rightarrow> the (observer_list_add_observer q x st)))"

lemma demo_observers_holds: "obs_holds demo_observers [0 \<mapsto> [1]]"
proof -
  let ?st = "\<lparr>obs_links = LIST_INIT 0 \<lparr>q_first = \<lambda>_. None, q_last = \<lambda>_. None,
       q_next = \<lambda>_. None, q_prev = \<lambda>_. None\<rparr>, obs_objs = \<lparr>st_obj = [0 \<mapsto> ObsList], st_next = 1\<rparr>\<rparr>"
  have "obs_holds ?st [0 \<mapsto> []]"
    using holds_LIST_INIT [of "\<lparr>q_first = \<lambda>_. None, q_last = \<lambda>_. None, q_next = \<lambda>_. None, q_prev = \<lambda>_. None\<rparr>" Map.empty 0]
    by (simp add: obs_holds_def store_ok_def holds_def)
  moreover obtain x st where c: "observer_create (Some 7) 1 (Some 8) ?st = Some (Some x, st)"
    by (simp add: observer_create_eq)
  ultimately have "obs_holds (the (observer_list_add_observer 0 x st)) ([0 \<mapsto> []](0 \<mapsto> [x]))"
    using obs_holds_create [OF _ c] obs_holds_add [of st "[0 \<mapsto> []]" 0 "[]" x] by auto
  moreover have "x = 1"
    using c by (simp add: observer_create_eq)
  moreover have "demo_observers = the (observer_list_add_observer 0 x st)"
    using c by (simp add: demo_observers_def observer_list_new_def xmalloc_def store_empty_def observer_list_init_def)
  ultimately show ?thesis by simp
qed

theorem observer_list_clean_frees_witness:
  "\<exists>st'. observer_list_clean 0 demo_observers = Some st' \<and> obs_holds st' ([0 \<mapsto> [1]](0 \<mapsto> [])) \<and>
    st_obj (obs_objs st') = (\<lambda>a. if a \<in> set [1] then None else st_obj (obs_objs demo_observers) a)"
  by (rule observer_list_clean_frees [OF demo_observers_holds]) simp

end
