(* ===== verification/Idler.thy ===== *)
theory Idler
  imports Queue_Spec Streams
begin

section \<open>The idler (source/idler.c)\<close>

text \<open>
  An idler waits for any of its streams to become readable or writable. Streams are objects at
  addresses, linked through the entry they contain, so a stream can be in one idler at a time;
  \<open>streams\<close> gives the stream at an address and \<open>ops\<close> its operations (theory \<open>Streams\<close>).
  Descriptor sets are sets of the numbers that \<open>fd_set\<close> has room for; they hold nothing meaningful
  before the first wait. The system call \<open>select\<close> is a parameter: it is given the number of
  descriptors to look at, the two sets and the timeout, and answers with its result and the sets it
  leaves behind.
\<close>

type_synonym fd_set = "int set"

definition FD_SETSIZE :: int where
  "FD_SETSIZE = 1024"

text \<open>Outside of its range \<open>FD_SET\<close> writes beyond the array.\<close>

definition fd_ok :: "int \<Rightarrow> bool" where
  "fd_ok fd \<longleftrightarrow> 0 \<le> fd \<and> fd < FD_SETSIZE"

definition FD_SET :: "int \<Rightarrow> fd_set \<Rightarrow> fd_set option" where
  "FD_SET fd s = (if fd_ok fd then Some (insert fd s) else None)"

definition FD_ISSET :: "int \<Rightarrow> fd_set \<Rightarrow> bool option" where
  "FD_ISSET fd s = (if fd_ok fd then Some (fd \<in> s) else None)"

record idler =
  id_read_fds :: "fd_set option"
  id_write_fds :: "fd_set option"
  id_streams :: nat

type_synonym 'd streams = "nat \<Rightarrow> 'd option"
type_synonym select = "int \<Rightarrow> fd_set \<Rightarrow> fd_set \<Rightarrow> nat \<times> nat \<Rightarrow> world \<Rightarrow> int \<times> fd_set \<times> fd_set \<times> world"

definition IDLER_ERROR :: int where "IDLER_ERROR = -2"
definition IDLER_INTERRUPT :: int where "IDLER_INTERRUPT = -1"
definition IDLER_TIMEOUT :: int where "IDLER_TIMEOUT = 0"
definition IDLER_OPERATION :: int where "IDLER_OPERATION = 1"

definition STREAM_INCOMING_READY :: "32 word" where "STREAM_INCOMING_READY = push_bit 0 1"
definition STREAM_OUTGOING_READY :: "32 word" where "STREAM_OUTGOING_READY = push_bit 1 1"

definition idler_new :: "nat \<Rightarrow> links \<Rightarrow> idler \<times> links" where
  "idler_new q h = (\<lparr>id_read_fds = None, id_write_fds = None, id_streams = q\<rparr>, LIST_INIT q h)"

definition idler_delete :: "idler \<Rightarrow> links \<Rightarrow> links option" where
  "idler_delete self h = do {
     (h, _) \<leftarrow> foreach_safe (\<lambda>x (h, s). do { h \<leftarrow> LIST_REMOVE x h; s \<leftarrow> Some s; Some (h, s) })
       (LIST_FIRST (id_streams self) h) (h, ());
     Some h
   }"

definition idler_add_stream :: "idler \<Rightarrow> nat \<Rightarrow> links \<Rightarrow> links" where
  "idler_add_stream self stream h = LIST_INSERT_HEAD (id_streams self) stream h"

definition idler_remove_stream :: "idler \<Rightarrow> nat \<Rightarrow> links \<Rightarrow> links option" where
  "idler_remove_stream self stream h = LIST_REMOVE stream h"

definition idler_find_stream ::
    "'d stream_ops \<Rightarrow> 'd streams \<Rightarrow> idler \<Rightarrow> int \<Rightarrow> links \<Rightarrow> nat option option" where
  "idler_find_stream ops streams self fd h = do {
     r \<leftarrow> foreach h (\<lambda>tmp (). do {
         s \<leftarrow> streams tmp;
         Some (if op_get_fd ops s = fd then Inl tmp else Inr ())
       }) (LIST_FIRST (id_streams self) h) ();
     Some (case r of Inl tmp \<Rightarrow> Some tmp | Inr _ \<Rightarrow> None)
   }"

text \<open>The body of the loop of \<open>idler_prepare\<close>.\<close>

definition idler_watch ::
    "'d stream_ops \<Rightarrow> 'd streams \<Rightarrow> nat \<Rightarrow> int \<times> fd_set \<times> fd_set \<Rightarrow> (int \<times> fd_set \<times> fd_set) option" where
  "idler_watch ops streams tmp = (\<lambda>(max_fd, readfds, writefds). do {
     s \<leftarrow> streams tmp;
     let fd = op_get_fd ops s;
     let max_fd = (if fd > max_fd then fd else max_fd);
     readfds \<leftarrow> FD_SET fd readfds;
     writefds \<leftarrow> (if op_has_outgoing_data ops s then FD_SET fd writefds else Some writefds);
     Some (max_fd, readfds, writefds)
   })"

definition idler_prepare ::
    "'d stream_ops \<Rightarrow> 'd streams \<Rightarrow> idler \<Rightarrow> links \<Rightarrow> (int \<times> fd_set \<times> fd_set) option" where
  "idler_prepare ops streams self h = do {
     r \<leftarrow> foreach h (\<lambda>tmp st. do { st \<leftarrow> idler_watch ops streams tmp st; Some (Inr st) })
       (LIST_FIRST (id_streams self) h) (0, {}, {});
     Some (case r of Inr st \<Rightarrow> st | Inl st \<Rightarrow> st)
   }"

definition idler_wait ::
    "select \<Rightarrow> 'd stream_ops \<Rightarrow> 'd streams \<Rightarrow> idler \<Rightarrow> nat \<Rightarrow> links \<Rightarrow> world \<Rightarrow> (int \<times> idler \<times> world) option" where
  "idler_wait sel ops streams self time_ms h w = do {
     let tv = (time_ms div 1000, time_ms mod 1000 * 1000);
     (max_fd, readfds, writefds) \<leftarrow> idler_prepare ops streams self h;
     let (ret, readfds, writefds, w) = sel (c_int (max_fd + 1)) readfds writefds tv w;
     let self = self\<lparr>id_read_fds := Some readfds, id_write_fds := Some writefds\<rparr>;
     Some (if ret > 0 then IDLER_OPERATION
           else if ret = 0 then IDLER_TIMEOUT
           else if w_errno w = E_INTR then IDLER_INTERRUPT
           else IDLER_ERROR, self, w)
   }"

text \<open>The status word is built up by the same two tests in both functions.\<close>

definition idler_add_status :: "idler \<Rightarrow> int \<Rightarrow> 32 word \<Rightarrow> (32 word) option" where
  "idler_add_status self fd status = do {
     wfds \<leftarrow> id_write_fds self;
     out \<leftarrow> FD_ISSET fd wfds;
     let status = (if out then status OR STREAM_OUTGOING_READY else status);
     rfds \<leftarrow> id_read_fds self;
     inc \<leftarrow> FD_ISSET fd rfds;
     Some (if inc then status OR STREAM_INCOMING_READY else status)
   }"

definition idler_get_stream_status ::
    "'d stream_ops \<Rightarrow> 'd streams \<Rightarrow> idler \<Rightarrow> nat \<Rightarrow> (32 word) option" where
  "idler_get_stream_status ops streams self stream = do {
     s \<leftarrow> streams stream;
     idler_add_status self (op_get_fd ops s) 0
   }"

text \<open>Returns the next stream that needs attention with its status; \<open>prev = NULL\<close> starts.\<close>

definition idler_get_next_stream ::
    "'d stream_ops \<Rightarrow> 'd streams \<Rightarrow> idler \<Rightarrow> links \<Rightarrow> nat option \<Rightarrow> ((nat \<times> 32 word) option) option" where
  "idler_get_next_stream ops streams self h prev = do {
     let current = (case prev of Some p \<Rightarrow> LIST_NEXT p h | None \<Rightarrow> LIST_FIRST (id_streams self) h);
     r \<leftarrow> foreach h (\<lambda>current current_status. do {
         s \<leftarrow> streams current;
         current_status \<leftarrow> idler_add_status self (op_get_fd ops s) current_status;
         Some (if current_status \<noteq> 0 then Inl (current, current_status) else Inr current_status)
       }) current 0;
     Some (case r of Inl found \<Rightarrow> Some found | Inr _ \<Rightarrow> None)
   }"

text \<open>The loop that a caller runs over the iterator.\<close>

partial_function (option) idler_iterate ::
    "'d stream_ops \<Rightarrow> 'd streams \<Rightarrow> idler \<Rightarrow> links \<Rightarrow> nat option \<Rightarrow> (nat \<times> 32 word) list option" where
  "idler_iterate ops streams self h prev = do {
     r \<leftarrow> idler_get_next_stream ops streams self h prev;
     case r of
       None \<Rightarrow> Some []
     | Some (x, status) \<Rightarrow> do { rest \<leftarrow> idler_iterate ops streams self h (Some x); Some ((x, status) # rest) }
   }"

subsection \<open>What an idler watches\<close>

definition streams_ok :: "'d stream_ops \<Rightarrow> 'd streams \<Rightarrow> nat list \<Rightarrow> bool" where
  "streams_ok ops streams xs \<longleftrightarrow> (\<forall>x \<in> set xs. \<exists>s. streams x = Some s \<and> fd_ok (op_get_fd ops s))"

definition fd_of :: "'d stream_ops \<Rightarrow> 'd streams \<Rightarrow> nat \<Rightarrow> int" where
  "fd_of ops streams x = op_get_fd ops (the (streams x))"

definition wants_write :: "'d stream_ops \<Rightarrow> 'd streams \<Rightarrow> nat \<Rightarrow> bool" where
  "wants_write ops streams x \<longleftrightarrow> op_has_outgoing_data ops (the (streams x))"

definition status_of :: "fd_set \<Rightarrow> fd_set \<Rightarrow> int \<Rightarrow> 32 word" where
  "status_of rfds wfds fd = (if fd \<in> wfds then 2 else 0) OR (if fd \<in> rfds then 1 else 0)"

lemma status_bits [simp]: "STREAM_INCOMING_READY = 1" "STREAM_OUTGOING_READY = 2"
  by (simp_all add: STREAM_INCOMING_READY_def STREAM_OUTGOING_READY_def)

lemma idler_add_status_eq:
  "id_read_fds self = Some rfds \<Longrightarrow> id_write_fds self = Some wfds \<Longrightarrow> fd_ok fd \<Longrightarrow>
   idler_add_status self fd 0 = Some (status_of rfds wfds fd)"
  by (simp add: idler_add_status_def FD_ISSET_def status_of_def)

lemma status_of_0: "status_of rfds wfds fd = 0 \<longleftrightarrow> fd \<notin> rfds \<and> fd \<notin> wfds"
  by (simp add: status_of_def)

lemma idler_watch_eq:
  assumes "streams x = Some s" and "fd_ok (op_get_fd ops s)"
  shows "idler_watch ops streams x (m, rfds, wfds) = Some (max m (fd_of ops streams x),
    insert (fd_of ops streams x) rfds,
    if wants_write ops streams x then insert (fd_of ops streams x) wfds else wfds)"
  using assms by (simp add: idler_watch_def FD_SET_def fd_of_def wants_write_def Let_def max_def)

lemma prepare_loop:
  assumes "streams_ok ops streams xs" and "0 \<le> m"
  shows "loop (\<lambda>tmp st. do { st \<leftarrow> idler_watch ops streams tmp st; Some (Inr st :: 'r + _) }) xs (m, rfds, wfds) =
    Some (Inr (Max (insert m (fd_of ops streams ` set xs)), fd_of ops streams ` set xs \<union> rfds,
      fd_of ops streams ` {x \<in> set xs. wants_write ops streams x} \<union> wfds))"
  using assms
proof (induction xs arbitrary: m rfds wfds)
  case (Cons x xs)
  obtain s where s: "streams x = Some s" "fd_ok (op_get_fd ops s)"
    using Cons.prems(1) by (auto simp: streams_ok_def)
  let ?fd = "fd_of ops streams x" and ?w = "wants_write ops streams x"
  have ok: "streams_ok ops streams xs" "0 \<le> max m ?fd"
    using Cons.prems by (auto simp: streams_ok_def)
  have M: "Max (insert (max m ?fd) (fd_of ops streams ` set xs)) = Max (insert m (fd_of ops streams ` set (x # xs)))"
    by (cases "set xs = {}") (simp_all add: max.assoc)
  have W: "fd_of ops streams ` {y \<in> set xs. wants_write ops streams y} \<union> (if ?w then insert ?fd wfds else wfds) =
      fd_of ops streams ` {y \<in> set (x # xs). wants_write ops streams y} \<union> wfds"
    by auto
  have R: "fd_of ops streams ` set xs \<union> insert ?fd rfds = fd_of ops streams ` set (x # xs) \<union> rfds"
    by auto
  have "loop (\<lambda>tmp st. do { st \<leftarrow> idler_watch ops streams tmp st; Some (Inr st :: 'r + _) }) (x # xs) (m, rfds, wfds) =
      loop (\<lambda>tmp st. do { st \<leftarrow> idler_watch ops streams tmp st; Some (Inr st :: 'r + _) }) xs
        (max m ?fd, insert ?fd rfds, if ?w then insert ?fd wfds else wfds)"
    by (simp add: idler_watch_eq [where streams = streams and x = x and ops = ops, OF s])
  then show ?case
    unfolding Cons.IH [OF ok] M W R .
qed simp

text \<open>One descriptor that \<open>fd_set\<close> has no room for spoils the whole wait.\<close>

lemma prepare_loop_bad:
  assumes "x \<in> set xs" and "\<And>s. streams x = Some s \<Longrightarrow> \<not> fd_ok (op_get_fd ops s)"
  shows "loop (\<lambda>tmp st. do { st \<leftarrow> idler_watch ops streams tmp st; Some (Inr st :: 'r + _) }) xs st = None"
  using assms(1)
proof (induction xs arbitrary: st)
  case (Cons y ys)
  have "idler_watch ops streams x st = None"
    using assms(2) by (cases st) (auto simp: idler_watch_def FD_SET_def split: Option.bind_splits)
  then show ?case
    using Cons by (cases "idler_watch ops streams y st") auto
qed simp

lemma idler_prepare_eq:
  assumes "holds h L" and "L (id_streams self) = Some xs" and "streams_ok ops streams xs"
  shows "idler_prepare ops streams self h = Some (Max (insert 0 (fd_of ops streams ` set xs)),
    fd_of ops streams ` set xs, fd_of ops streams ` {x \<in> set xs. wants_write ops streams x})"
  unfolding idler_prepare_def lists.foreach_loop [OF assms(1,2)]
  by (simp add: prepare_loop [OF assms(3)])

lemma next_loop:
  assumes "streams_ok ops streams xs" and "id_read_fds self = Some rfds" and "id_write_fds self = Some wfds"
  shows "loop (\<lambda>current current_status. do {
         s \<leftarrow> streams current;
         current_status \<leftarrow> idler_add_status self (op_get_fd ops s) current_status;
         Some (if current_status \<noteq> 0 then Inl (current, current_status) else Inr current_status)
       }) xs 0 =
    Some (case find (\<lambda>x. status_of rfds wfds (fd_of ops streams x) \<noteq> 0) xs of
        Some x \<Rightarrow> Inl (x, status_of rfds wfds (fd_of ops streams x)) | None \<Rightarrow> Inr 0)"
  using assms(1)
proof (induction xs)
  case (Cons x xs)
  obtain s where s: "streams x = Some s" "fd_ok (op_get_fd ops s)"
    using Cons.prems(1) by (auto simp: streams_ok_def)
  have "streams_ok ops streams xs" using Cons.prems by (simp add: streams_ok_def)
  then show ?case
    using s Cons.IH by (simp add: idler_add_status_eq [OF assms(2,3) s(2)] fd_of_def)
qed simp

lemma idler_get_next_eq:
  assumes "holds h L" and "L (id_streams self) = Some (as @ bs)" and "streams_ok ops streams bs"
    and "id_read_fds self = Some rfds" and "id_write_fds self = Some wfds"
  shows "idler_get_next_stream ops streams self h (if as = [] then None else Some (last as)) =
    Some (map_option (\<lambda>x. (x, status_of rfds wfds (fd_of ops streams x)))
      (find (\<lambda>x. status_of rfds wfds (fd_of ops streams x) \<noteq> 0) bs))"
proof -
  have "(case if as = [] then None else Some (last as) of Some p \<Rightarrow> LIST_NEXT p h
      | None \<Rightarrow> LIST_FIRST (id_streams self) h) = first_of bs"
  proof (cases as rule: rev_cases)
    case Nil
    then show ?thesis using lists.first_law [OF assms(1,2)] by simp
  next
    case (snoc cs c)
    then show ?thesis
      using lists.next_law [OF assms(1), of "id_streams self" cs c bs] assms(2) by (simp add: LIST_NEXT_def)
  qed
  then show ?thesis
    unfolding idler_get_next_stream_def
    by (simp add: lists.foreach_from [OF assms(1,2)] next_loop [OF assms(3,4,5)] split: option.split)
qed

lemma idler_iterate_from:
  assumes "holds h L" and "L (id_streams self) = Some (as @ bs)" and "streams_ok ops streams bs"
    and "id_read_fds self = Some rfds" and "id_write_fds self = Some wfds"
  shows "idler_iterate ops streams self h (if as = [] then None else Some (last as)) =
    Some [(x, status_of rfds wfds (fd_of ops streams x)). x \<leftarrow> bs, status_of rfds wfds (fd_of ops streams x) \<noteq> 0]"
  using assms(2,3)
proof (induction bs arbitrary: as rule: length_induct)
  case (1 bs)
  let ?P = "\<lambda>x. status_of rfds wfds (fd_of ops streams x) \<noteq> 0"
  note nx = idler_get_next_eq [OF assms(1) 1(2,3) assms(4,5)]
  show ?case
  proof (cases "find ?P bs")
    case None
    then have "\<forall>x \<in> set bs. \<not> ?P x" by (simp add: find_None_iff)
    then show ?thesis
      using None nx by (subst idler_iterate.simps) (auto simp: concat_eq_Nil_conv)
  next
    case (Some x)
    then obtain cs ds where bs: "bs = cs @ x # ds" and x: "?P x" and cs: "\<forall>y \<in> set cs. \<not> ?P y"
      by (auto simp: find_Some_iff) (metis id_take_nth_drop in_set_conv_nth length_take min.absorb4 nth_take)
    have eq: "as @ bs = (as @ cs @ [x]) @ ds" by (simp add: bs)
    have "idler_iterate ops streams self h (Some x) =
        Some [(x, status_of rfds wfds (fd_of ops streams x)). x \<leftarrow> ds, ?P x]"
      using 1(1) [rule_format, of ds "as @ cs @ [x]"] 1(2,3) eq by (simp add: bs streams_ok_def)
    moreover have "concat (map (\<lambda>y. if ?P y then [(y, status_of rfds wfds (fd_of ops streams y))] else []) cs) = []"
      using cs by (auto simp: concat_eq_Nil_conv)
    ultimately show ?thesis
      using nx Some x by (subst idler_iterate.simps) (simp add: bs)
  qed
qed

subsection \<open>The idler as a component\<close>

text \<open>C15. Waiting watches the right descriptors and reports the right streams. For an idler whose streams
  have descriptors that fit a descriptor set, one call of \<open>select\<close> is made: it is told to look at every
  descriptor below one more than the largest, it gets the descriptors of all streams for reading and
  exactly those of the streams with outgoing data for writing, and the time in seconds and
  microseconds. Its result becomes the result of the wait, and iterating over the idler
  afterwards visits exactly the streams whose descriptor is in one of the sets \<open>select\<close> left, in the
  order of the idler, each once and with its own status, and then ends.
\<close>

theorem idler_wait_reports:
  assumes "holds h L" and "L (id_streams self) = Some xs" and "streams_ok ops streams xs"
    and sel: "sel (Max (insert 0 (fd_of ops streams ` set xs)) + 1) (fd_of ops streams ` set xs)
      (fd_of ops streams ` {x \<in> set xs. wants_write ops streams x})
      (time_ms div 1000, time_ms mod 1000 * 1000) w = (ret, rfds, wfds, w')"
  shows "\<exists>self'. idler_wait sel ops streams self time_ms h w = Some (
        if ret > 0 then IDLER_OPERATION else if ret = 0 then IDLER_TIMEOUT
        else if w_errno w' = E_INTR then IDLER_INTERRUPT else IDLER_ERROR, self', w') \<and>
      idler_iterate ops streams self' h None =
        Some [(x, status_of rfds wfds (fd_of ops streams x)). x \<leftarrow> xs, status_of rfds wfds (fd_of ops streams x) \<noteq> 0]"
proof -
  define self' where "self' = self\<lparr>id_read_fds := Some rfds, id_write_fds := Some wfds\<rparr>"
  define M where "M = Max (insert 0 (fd_of ops streams ` set xs))"
  have "M \<in> insert 0 (fd_of ops streams ` set xs)"
    unfolding M_def by (rule Max_in) simp_all
  then have "0 \<le> M" "M < 1024"
    using assms(3) by (auto simp: streams_ok_def fd_of_def fd_ok_def FD_SETSIZE_def)
  then have "c_int (M + 1) = M + 1"
    by simp
  then have "idler_wait sel ops streams self time_ms h w = Some (
        if ret > 0 then IDLER_OPERATION else if ret = 0 then IDLER_TIMEOUT
        else if w_errno w' = E_INTR then IDLER_INTERRUPT else IDLER_ERROR, self', w')"
    using sel by (simp add: idler_wait_def idler_prepare_eq [OF assms(1-3)] M_def [symmetric] self'_def)
  moreover have "idler_iterate ops streams self' h None =
      Some [(x, status_of rfds wfds (fd_of ops streams x)). x \<leftarrow> xs, status_of rfds wfds (fd_of ops streams x) \<noteq> 0]"
    using idler_iterate_from [of h L self' "[]" xs ops streams rfds wfds] assms(1-3) by (simp add: self'_def)
  ultimately show ?thesis by blast
qed

text \<open>An idler never checks descriptors: as soon as one of its streams reports a descriptor that a
  descriptor set has no room for (a negative one, as every closed or not yet opened stream
  has, or one from 1024 on) the wait writes outside the set.\<close>

lemma idler_wait_bad_descriptor:
  assumes "holds h L" and "L (id_streams self) = Some xs" and "x \<in> set xs"
    and "streams x = Some s" and "\<not> fd_ok (op_get_fd ops s)"
  shows "idler_wait sel ops streams self time_ms h w = None"
proof -
  have "\<And>t. streams x = Some t \<Longrightarrow> \<not> fd_ok (op_get_fd ops t)"
    using assms(4,5) by simp
  note bad = prepare_loop_bad [where streams = streams and ops = ops, OF assms(3) this]
  have "idler_prepare ops streams self h = None"
    by (simp add: idler_prepare_def lists.foreach_loop [OF assms(1,2)] bad)
  then show ?thesis by (simp add: idler_wait_def)
qed

lemma idler_operations:
  assumes "holds h L" and "L (id_streams self) = Some xs"
  shows "unlinked x L \<Longrightarrow> holds (idler_add_stream self x h) (L(id_streams self \<mapsto> x # xs))"
    and "xs = as @ x # bs \<Longrightarrow> \<exists>h'. idler_remove_stream self x h = Some h' \<and> holds h' (L(id_streams self \<mapsto> as @ bs))"
    and "\<exists>h'. idler_delete self h = Some h' \<and> holds h' (L(id_streams self \<mapsto> []))"
    and "\<forall>x \<in> set xs. streams x \<noteq> None \<Longrightarrow>
      idler_find_stream ops streams self fd h = Some (find (\<lambda>x. fd_of ops streams x = fd) xs)"
proof -
  show "unlinked x L \<Longrightarrow> holds (idler_add_stream self x h) (L(id_streams self \<mapsto> x # xs))"
    using lists.insert_head_law [OF assms] by (simp add: idler_add_stream_def)
  show "xs = as @ x # bs \<Longrightarrow> \<exists>h'. idler_remove_stream self x h = Some h' \<and> holds h' (L(id_streams self \<mapsto> as @ bs))"
    using lists.remove_law [OF assms(1)] assms(2) by (simp add: idler_remove_stream_def)
  have "each (\<lambda>x. Some) xs () = Some ()"
    by (induction xs) auto
  then show "\<exists>h'. idler_delete self h = Some h' \<and> holds h' (L(id_streams self \<mapsto> []))"
    using lists.drain [OF assms, of "\<lambda>x. Some" "()"] by (auto simp: idler_delete_def)
  assume "\<forall>x \<in> set xs. streams x \<noteq> None"
  then have "loop (\<lambda>tmp (). do { s \<leftarrow> streams tmp; Some (if op_get_fd ops s = fd then Inl tmp else Inr ()) }) xs () =
      Some (case find (\<lambda>x. fd_of ops streams x = fd) xs of Some x \<Rightarrow> Inl x | None \<Rightarrow> Inr ())"
    by (induction xs) (auto simp: fd_of_def)
  then show "idler_find_stream ops streams self fd h = Some (find (\<lambda>x. fd_of ops streams x = fd) xs)"
    by (simp add: idler_find_stream_def lists.foreach_loop [OF assms] split: option.split)
qed

subsection \<open>An idler with two streams\<close>

definition demo_links :: links where
  "demo_links = LIST_INSERT_HEAD 0 3 (LIST_INSERT_HEAD 0 2 (LIST_INIT 0
     \<lparr>q_first = \<lambda>_. None, q_last = \<lambda>_. None, q_next = \<lambda>_. None, q_prev = \<lambda>_. None\<rparr>))"

lemma demo_links_hold: "holds demo_links [0 \<mapsto> [3, 2]]"
proof -
  have "holds (LIST_INIT 0 \<lparr>q_first = \<lambda>_. None, q_last = \<lambda>_. None, q_next = \<lambda>_. None, q_prev = \<lambda>_. None\<rparr>) [0 \<mapsto> []]"
    using holds_LIST_INIT [of _ Map.empty 0] by (simp add: holds_def)
  then have "holds (LIST_INSERT_HEAD 0 2 (LIST_INIT 0
      \<lparr>q_first = \<lambda>_. None, q_last = \<lambda>_. None, q_next = \<lambda>_. None, q_prev = \<lambda>_. None\<rparr>)) [0 \<mapsto> [2]]"
    using holds_LIST_INSERT_HEAD [of _ "[0 \<mapsto> []]" 0 "[]" 2] by (simp add: unlinked_def)
  then show ?thesis
    unfolding demo_links_def
    using holds_LIST_INSERT_HEAD [of _ "[0 \<mapsto> [2]]" 0 "[2]" 3] by (simp add: unlinked_def)
qed

definition demo_streams :: "unit stream streams" where
  "demo_streams = [2 \<mapsto> stream_new 5, 3 \<mapsto> stream_new 7]"

lemma demo_fds [simp]: "fd_of base_ops demo_streams 2 = 5" "fd_of base_ops demo_streams 3 = 7"
  by (simp_all add: fd_of_def demo_streams_def base_ops_def stream_ops_of_def stream_get_fd_def stream_new_def stream_init_def)

lemma demo_no_outgoing [simp]: "{x. (x = 3 \<or> x = 2) \<and> wants_write base_ops demo_streams x} = {}"
  by (auto simp: wants_write_def demo_streams_def base_ops_def stream_ops_of_def stream_has_outgoing_data_def
      stream_new_def stream_init_def)

lemma demo_streams_ok: "streams_ok base_ops demo_streams [3, 2]"
  by (simp add: streams_ok_def demo_streams_def base_ops_def stream_ops_of_def stream_get_fd_def stream_new_def
      stream_init_def fd_ok_def FD_SETSIZE_def)

theorem idler_wait_reports_witness:
  "\<exists>self'. idler_wait (\<lambda>n r w tv world. (1, {5}, {}, world)) base_ops demo_streams
        \<lparr>id_read_fds = None, id_write_fds = None, id_streams = 0\<rparr> 1500 demo_links world0 =
      Some (IDLER_OPERATION, self', world0) \<and>
    idler_iterate base_ops demo_streams self' demo_links None = Some [(2, 1)]"
  using idler_wait_reports [OF demo_links_hold, of "\<lparr>id_read_fds = None, id_write_fds = None, id_streams = 0\<rparr>" "[3, 2]"
      base_ops demo_streams "\<lambda>n r w tv world. (1, {5}, {}, world)" 1500 world0 1 "{5}" "{}" world0, OF _ demo_streams_ok]
  by (simp add: status_of_def)

end
