(* ===== verification/Net.thy ===== *)
theory Net
  imports Cstring
begin

section \<open>Addresses and interfaces (source/net.c)\<close>

text \<open>
  Socket addresses are the bytes of the structures \<open>sockaddr_in\<close> (16 bytes: family, port, address)
  and \<open>sockaddr_in6\<close> (28 bytes: family, port, flow, address, scope), as Linux lays them out on
  a little-endian host; a cast is a reading at the offsets of the other structure. Interface lists
  come from \<open>getifaddrs\<close> and \<open>if_nameindex\<close>; \<open>inet_pton\<close> and \<open>inet_ntop\<close> are parameters.
\<close>

type_synonym sockaddr = bytes

definition AF_UNSPEC :: u16 where "AF_UNSPEC = 0"
definition AF_INET :: u16 where "AF_INET = 2"
definition AF_INET6 :: u16 where "AF_INET6 = 10"
definition AF_PACKET :: u16 where "AF_PACKET = 17"

definition sa_family :: "sockaddr \<Rightarrow> u16 option" where
  "sa_family sa = do { lo \<leftarrow> rd sa 0; hi \<leftarrow> rd sa 1; Some (be16 hi lo) }"

definition rd_at :: "bytes \<Rightarrow> nat \<Rightarrow> nat \<Rightarrow> bytes option" where
  "rd_at m i n = do { m \<leftarrow> adv m i; rd_bytes m n }"

text \<open>\<open>ntohs(sin_port)\<close>, \<open>sin_addr\<close> and \<open>sin6_addr\<close>.\<close>

definition sin_port :: "sockaddr \<Rightarrow> u16 option" where
  "sin_port sa = do { hi \<leftarrow> rd sa 2; lo \<leftarrow> rd sa 3; Some (be16 hi lo) }"

definition sin_addr :: "sockaddr \<Rightarrow> bytes option" where
  "sin_addr sa = rd_at sa 4 4"

definition sin6_addr :: "sockaddr \<Rightarrow> bytes option" where
  "sin6_addr sa = rd_at sa 8 16"

definition net_be32 :: "bytes \<Rightarrow> 32 word" where
  "net_be32 xs = foldl (\<lambda>v x. push_bit 8 v OR ucast x) 0 xs"

definition INADDR_LOOPBACK :: "32 word" where "INADDR_LOOPBACK = 0x7F000001"
definition INET_LINK_LOCAL_ADDR :: "32 word" where "INET_LINK_LOCAL_ADDR = 0xA9FE0000"
definition INET_LINK_LOCAL_MASK :: "32 word" where "INET_LINK_LOCAL_MASK = 0xFFFF0000"
definition INET6_LINK_LOCAL_ADDR :: u16 where "INET6_LINK_LOCAL_ADDR = 0xFE80"
definition INET6_LINK_LOCAL_MASK :: u16 where "INET6_LINK_LOCAL_MASK = 0xFFC0"
definition in6addr_loopback :: bytes where "in6addr_loopback = replicate 15 0 @ [1]"

subsection \<open>Address functions\<close>

definition net_addr_copy :: "bytes \<Rightarrow> sockaddr \<Rightarrow> (int \<times> bytes) option" where
  "net_addr_copy to from = do {
     fam \<leftarrow> sa_family from;
     let len = (if fam = AF_INET then 16 else if fam = AF_INET6 then 28 else 0);
     if len > 0
     then do { xs \<leftarrow> rd_bytes from len; to \<leftarrow> mem_write to xs; Some (0, to) }
     else Some (-1, to)
   }"

definition net_addr_get_port :: "sockaddr \<Rightarrow> int option" where
  "net_addr_get_port sa = do {
     fam \<leftarrow> sa_family sa;
     if fam = AF_INET then map_option uint (sin_port sa)
     else if fam = AF_INET6 then map_option uint (sin_port sa)
     else Some (-1)
   }"

definition net_addr_is_loopback :: "sockaddr \<Rightarrow> bool option" where
  "net_addr_is_loopback sa = do {
     fam \<leftarrow> sa_family sa;
     if fam = AF_INET then do { a \<leftarrow> sin_addr sa; Some (net_be32 a = INADDR_LOOPBACK) }
     else if fam = AF_INET6 then do { a \<leftarrow> sin6_addr sa; Some (a = in6addr_loopback) }
     else Some False
   }"

definition net_addr_is_local_link :: "sockaddr \<Rightarrow> bool option" where
  "net_addr_is_local_link sa = do {
     fam \<leftarrow> sa_family sa;
     if fam = AF_INET then do {
       a \<leftarrow> sin_addr sa;
       Some (net_be32 a AND INET_LINK_LOCAL_MASK = INET_LINK_LOCAL_ADDR)
     }
     else if fam = AF_INET6 then do {
       a \<leftarrow> sin6_addr sa;
       x \<leftarrow> rd a 0;
       y \<leftarrow> rd a 1;
       Some ((push_bit 8 (ucast x) OR ucast y) AND INET6_LINK_LOCAL_MASK = INET6_LINK_LOCAL_ADDR)
     }
     else Some False
   }"

text \<open>
  \<open>inet_ntop\<close> gives the text with its zero, or nothing when the buffer is too short for it;
  \<open>inet_pton\<close> gives the bytes of the address when the text is one.
\<close>

definition net_addr_to_str ::
    "(u16 \<Rightarrow> bytes \<Rightarrow> nat \<Rightarrow> bytes option) \<Rightarrow> sockaddr \<Rightarrow> bytes \<Rightarrow> nat \<Rightarrow> (bool \<times> bytes) option" where
  "net_addr_to_str inet_ntop sa buffer buffer_len = do {
     fam \<leftarrow> sa_family sa;
     addr_ptr \<leftarrow> (if fam = AF_INET then map_option Some (sin_addr sa)
                 else if fam = AF_INET6 then map_option Some (sin6_addr sa)
                 else Some None);
     case addr_ptr of
       Some a \<Rightarrow> (case inet_ntop fam a buffer_len of
           Some s \<Rightarrow> do { buffer \<leftarrow> mem_write buffer s; Some (True, buffer) }
         | None \<Rightarrow> Some (False, buffer))
     | None \<Rightarrow> Some (False, buffer)
   }"

definition net_addr_from_str ::
    "(u16 \<Rightarrow> bytes \<Rightarrow> bytes option) \<Rightarrow> sockaddr \<Rightarrow> bytes \<Rightarrow> (bool \<times> sockaddr) option" where
  "net_addr_from_str inet_pton sa buffer = do {
     n \<leftarrow> c_strlen buffer;
     let fam = (if 0x3A \<in> set (take n buffer) then AF_INET6 else AF_INET);
     let off = (if 0x3A \<in> set (take n buffer) then 8 else 4 :: nat);
     sa \<leftarrow> mem_write sa [be16_lo fam, be16_hi fam];
     case inet_pton fam buffer of
       Some a \<Rightarrow> do { m \<leftarrow> adv sa off; m \<leftarrow> mem_write m a; Some (True, take off sa @ m) }
     | None \<Rightarrow> Some (False, sa)
   }"

fun match_bytes :: "bytes \<Rightarrow> bytes \<Rightarrow> bytes \<Rightarrow> nat \<Rightarrow> bool option" where
  "match_bytes a b m 0 = Some True"
| "match_bytes a b m (Suc n) = do {
     x \<leftarrow> rd a 0; y \<leftarrow> rd b 0; z \<leftarrow> rd m 0;
     if x AND z \<noteq> y AND z then Some False
     else do { a \<leftarrow> adv a 1; b \<leftarrow> adv b 1; m \<leftarrow> adv m 1; match_bytes a b m n }
   }"

definition net_addr_match :: "sockaddr \<Rightarrow> sockaddr \<Rightarrow> sockaddr \<Rightarrow> bool option" where
  "net_addr_match sa1 sa2 netmask = do {
     f1 \<leftarrow> sa_family sa1;
     f2 \<leftarrow> sa_family sa2;
     if f1 \<noteq> f2 then Some False
     else do {
       f3 \<leftarrow> sa_family netmask;
       if f2 \<noteq> f3 then Some False
       else if f1 = AF_INET then do {
         addr1 \<leftarrow> sin_addr sa1; addr2 \<leftarrow> sin_addr sa2; msk \<leftarrow> sin_addr netmask;
         Some (net_be32 addr1 AND net_be32 msk = net_be32 addr2 AND net_be32 msk)
       }
       else if f1 = AF_INET6 then do {
         addr1 \<leftarrow> sin6_addr sa1; addr2 \<leftarrow> sin6_addr sa2; msk \<leftarrow> sin6_addr netmask;
         match_bytes addr1 addr2 msk 16
       }
       else Some False
     }
   }"

subsection \<open>Interfaces\<close>

record ifaddrs =
  ifa_name :: bytes
  ifa_flags :: "32 word"
  ifa_addr :: "sockaddr option"
  ifa_netmask :: "sockaddr option"
  ifa_data :: "nat option" \<comment> \<open>the address of the statistics, for a packet address\<close>

definition IFF_UP :: "32 word" where "IFF_UP = 0x1"
definition IFF_LOOPBACK :: "32 word" where "IFF_LOOPBACK = 0x8"
definition IFF_POINTOPOINT :: "32 word" where "IFF_POINTOPOINT = 0x10"
definition IFF_RUNNING :: "32 word" where "IFF_RUNNING = 0x40"
definition IFF_MULTICAST :: "32 word" where "IFF_MULTICAST = 0x1000"

text \<open>
  The iterator: \<open>it_ifa\<close> is the rest of the list from the current interface on, empty for the null
  pointer. The interface handed out is the iterator's own, so its functions read the head of \<open>it_ifa\<close>.
\<close>

record net_iface_iterator =
  it_addr_family :: u16
  it_ifaddrs :: "ifaddrs list"
  it_ifa :: "ifaddrs list"

definition current_iface :: "net_iface_iterator \<Rightarrow> ifaddrs option" where
  "current_iface self = (case it_ifa self of [] \<Rightarrow> None | x # _ \<Rightarrow> Some x)"

definition net_iface_is_up :: "ifaddrs \<Rightarrow> bool" where
  "net_iface_is_up ifa \<longleftrightarrow> ifa_flags ifa AND IFF_UP \<noteq> 0"

definition net_iface_is_running :: "ifaddrs \<Rightarrow> bool" where
  "net_iface_is_running ifa \<longleftrightarrow> ifa_flags ifa AND IFF_RUNNING \<noteq> 0"

definition net_iface_is_loopback :: "ifaddrs \<Rightarrow> bool" where
  "net_iface_is_loopback ifa \<longleftrightarrow> ifa_flags ifa AND IFF_LOOPBACK \<noteq> 0"

definition net_iface_is_point_to_point :: "ifaddrs \<Rightarrow> bool" where
  "net_iface_is_point_to_point ifa \<longleftrightarrow> ifa_flags ifa AND IFF_POINTOPOINT \<noteq> 0"

definition net_iface_supports_multicast :: "ifaddrs \<Rightarrow> bool" where
  "net_iface_supports_multicast ifa \<longleftrightarrow> ifa_flags ifa AND IFF_MULTICAST \<noteq> 0"

definition net_iface_get_address :: "ifaddrs \<Rightarrow> sockaddr option" where
  "net_iface_get_address ifa = ifa_addr ifa"

definition net_iface_get_netmask :: "ifaddrs \<Rightarrow> sockaddr option" where
  "net_iface_get_netmask ifa = ifa_netmask ifa"

definition net_iface_get_name :: "ifaddrs \<Rightarrow> bytes" where
  "net_iface_get_name ifa = ifa_name ifa"

text \<open>The text of the address in the buffer of the interface (\<open>INET6_ADDRSTRLEN + 1\<close> bytes), or null.\<close>

definition net_iface_get_ip ::
    "(u16 \<Rightarrow> bytes \<Rightarrow> nat \<Rightarrow> bytes option) \<Rightarrow> ifaddrs \<Rightarrow> bytes \<Rightarrow> bytes option option" where
  "net_iface_get_ip inet_ntop ifa buffer = do {
     sa \<leftarrow> ifa_addr ifa;
     (ok, buffer) \<leftarrow> net_addr_to_str inet_ntop sa buffer 47;
     Some (if ok then Some buffer else None)
   }"

definition net_iface_get_index :: "(bytes \<Rightarrow> 32 word) \<Rightarrow> ifaddrs \<Rightarrow> 32 word" where
  "net_iface_get_index if_nametoindex ifa = if_nametoindex (ifa_name ifa)"

text \<open>The statistics, or null; an interface without an address is not expected here.\<close>

definition net_iface_get_stats :: "ifaddrs \<Rightarrow> nat option option" where
  "net_iface_get_stats ifa = do {
     sa \<leftarrow> ifa_addr ifa;
     fam \<leftarrow> sa_family sa;
     Some (if fam = AF_PACKET then ifa_data ifa else None)
   }"

text \<open>\<open>getifaddrs\<close> gives the list, or fails.\<close>

definition net_iface_iterator_new :: "ifaddrs list option \<Rightarrow> u16 \<Rightarrow> net_iface_iterator option" where
  "net_iface_iterator_new getifaddrs addr_family =
     (case getifaddrs of
        Some l \<Rightarrow> Some \<lparr>it_addr_family = addr_family, it_ifaddrs = l, it_ifa = []\<rparr>
      | None \<Rightarrow> None)"

definition net_iface_iterator_prepare_next :: "net_iface_iterator \<Rightarrow> bool \<times> net_iface_iterator" where
  "net_iface_iterator_prepare_next self =
     (let self = self\<lparr>it_ifa := (case it_ifa self of ifa # nxt \<Rightarrow> nxt | [] \<Rightarrow> it_ifaddrs self)\<rparr>
      in (it_ifa self \<noteq> [], self))"

function net_iface_iterator_has_next :: "net_iface_iterator \<Rightarrow> (bool \<times> net_iface_iterator) option" where
  "net_iface_iterator_has_next self =
     (case net_iface_iterator_prepare_next self of
        (False, self) \<Rightarrow> Some (False, self)
      | (True, self) \<Rightarrow>
          if it_addr_family self = AF_UNSPEC then Some (True, self)
          else (case Option.bind (current_iface self) ifa_addr of
              None \<Rightarrow> net_iface_iterator_has_next self
            | Some sa \<Rightarrow> (case sa_family sa of
                None \<Rightarrow> None
              | Some fam \<Rightarrow> if fam = it_addr_family self then Some (True, self)
                            else net_iface_iterator_has_next self)))"
  by pat_completeness auto
termination
  by (relation "measure (\<lambda>self. case it_ifa self of [] \<Rightarrow> Suc (length (it_ifaddrs self)) | ifa # nxt \<Rightarrow> length (it_ifa self))")
    (auto simp: net_iface_iterator_prepare_next_def split: list.splits)

declare net_iface_iterator_has_next.simps [simp del]

definition net_iface_iterator_get_next :: "net_iface_iterator \<Rightarrow> ifaddrs option" where
  "net_iface_iterator_get_next self = current_iface self"

text \<open>The loop of \<open>net_addr_find_matching_iface\<close>; it ends with the iterator, or never.\<close>

partial_function (option) find_iface_loop ::
    "sockaddr \<Rightarrow> bytes \<Rightarrow> net_iface_iterator \<Rightarrow> (int \<times> bytes) option" where
  "find_iface_loop sa_dest sa_iface nit = do {
     (more, nit) \<leftarrow> net_iface_iterator_has_next nit;
     if \<not> more then Some (0, sa_iface)
     else do {
       iface \<leftarrow> net_iface_iterator_get_next nit;
       if \<not> net_iface_is_up iface \<or> \<not> net_iface_is_running iface
       then find_iface_loop sa_dest sa_iface nit
       else do {
         sa \<leftarrow> net_iface_get_address iface;
         sa_mask \<leftarrow> net_iface_get_netmask iface;
         m \<leftarrow> net_addr_match sa sa_dest sa_mask;
         if m then do { (_, sa_iface) \<leftarrow> net_addr_copy sa_iface sa; Some (1, sa_iface) }
         else find_iface_loop sa_dest sa_iface nit
       }
     }
   }"

definition net_addr_find_matching_iface ::
    "ifaddrs list option \<Rightarrow> bytes \<Rightarrow> sockaddr \<Rightarrow> (int \<times> bytes) option" where
  "net_addr_find_matching_iface getifaddrs sa_iface sa_dest = do {
     fam \<leftarrow> sa_family sa_dest;
     case net_iface_iterator_new getifaddrs fam of
       None \<Rightarrow> Some (-1, sa_iface)
     | Some nit \<Rightarrow> find_iface_loop sa_dest sa_iface nit
   }"

subsection \<open>Interface names and single interfaces\<close>

text \<open>
  \<open>if_nameindex\<close> gives an array that ends with an entry whose index is 0 and whose name is null.
\<close>

record net_ifname_iterator =
  nm_ifnameindex :: "(32 word \<times> bytes option) list"
  nm_ifni :: "nat option"

definition net_ifname_iterator_new :: "(32 word \<times> bytes option) list option \<Rightarrow> net_ifname_iterator option" where
  "net_ifname_iterator_new if_nameindex =
     (case if_nameindex of
        Some l \<Rightarrow> Some \<lparr>nm_ifnameindex = l, nm_ifni = None\<rparr>
      | None \<Rightarrow> None)"

definition net_ifname_iterator_has_next :: "net_ifname_iterator \<Rightarrow> (bool \<times> net_ifname_iterator) option" where
  "net_ifname_iterator_has_next self = do {
     let i = (case nm_ifni self of None \<Rightarrow> 0 | Some i \<Rightarrow> i + 1);
     let self = self\<lparr>nm_ifni := Some i\<rparr>;
     (index, name) \<leftarrow> (if i < length (nm_ifnameindex self) then Some (nm_ifnameindex self ! i) else None);
     Some (\<not> (index = 0 \<or> name = None), self)
   }"

definition net_ifname_get_index :: "net_ifname_iterator \<Rightarrow> (32 word) option" where
  "net_ifname_get_index self = do {
     i \<leftarrow> nm_ifni self;
     if i < length (nm_ifnameindex self) then Some (fst (nm_ifnameindex self ! i)) else None
   }"

definition net_ifname_get_name :: "net_ifname_iterator \<Rightarrow> bytes option option" where
  "net_ifname_get_name self = do {
     i \<leftarrow> nm_ifni self;
     if i < length (nm_ifnameindex self) then Some (snd (nm_ifnameindex self ! i)) else None
   }"

definition net_if_get_index :: "(bytes \<Rightarrow> 32 word) \<Rightarrow> bytes \<Rightarrow> bool \<times> 32 word" where
  "net_if_get_index if_nametoindex ifname = (let index = if_nametoindex ifname in (index > 0, index))"

text \<open>
  \<open>socket\<close> is the descriptor it returned, \<open>ioctl\<close> the 16 bytes of \<open>ifr_addr\<close> when the call succeeds.
  The last component of the result is the descriptor when it is left open.
\<close>

definition net_if_get_addr ::
    "int \<Rightarrow> (bytes \<Rightarrow> bytes option) \<Rightarrow> bytes \<Rightarrow> bytes \<Rightarrow> (bool \<times> bytes \<times> int option) option" where
  "net_if_get_addr socket ioctl ifname addr =
     (if socket > 0 then do {
        (_, ifr_name) \<leftarrow> xstrcpy (replicate 16 0) ifname;
        case ioctl ifr_name of
          None \<Rightarrow> Some (False, addr, None)
        | Some xs \<Rightarrow> do { addr \<leftarrow> mem_write addr xs; Some (True, addr, None) }
      }
      else Some (False, addr, if socket = 0 then Some 0 else None))"

subsection \<open>Matching\<close>

text \<open>A well-formed address and the bytes that masking is about.\<close>

definition addr_ok :: "sockaddr \<Rightarrow> bool" where
  "addr_ok sa \<longleftrightarrow> (\<exists>fam. sa_family sa = Some fam \<and> (fam = AF_INET \<longrightarrow> length sa = 16) \<and>
     (fam = AF_INET6 \<longrightarrow> length sa = 28))"

definition addr_bytes :: "sockaddr \<Rightarrow> bytes" where
  "addr_bytes sa = (if sa_family sa = Some AF_INET then take 4 (drop 4 sa)
     else if sa_family sa = Some AF_INET6 then take 16 (drop 8 sa) else [])"

definition masked :: "bytes \<Rightarrow> bytes \<Rightarrow> bytes" where
  "masked xs ms = map2 (AND) xs ms"

lemma match_bytes_eq:
  "length a = n \<Longrightarrow> length b = n \<Longrightarrow> length m = n \<Longrightarrow>
   match_bytes a b m n = Some (masked a m = masked b m)"
proof (induction n arbitrary: a b m)
  case (Suc n)
  obtain x a' y b' z m' where "a = x # a'" "b = y # b'" "m = z # m'"
    using Suc.prems by (cases a; cases b; cases m) auto
  then show ?case
    using Suc.IH [of a' b' m'] Suc.prems by (simp add: masked_def adv_def)
qed (simp add: masked_def)

lemma net_be32_eq: "net_be32 [a, b, c, d] = push_bit 24 (ucast a) OR push_bit 16 (ucast b) OR push_bit 8 (ucast c) OR ucast d"
  by (simp add: net_be32_def push_bit_or push_bit_push_bit or.assoc)

lemma net_be32_get:
  "(ucast (drop_bit 24 (net_be32 [a, b, c, d])) :: byte) = a" "(ucast (drop_bit 16 (net_be32 [a, b, c, d])) :: byte) = b"
  "(ucast (drop_bit 8 (net_be32 [a, b, c, d])) :: byte) = c" "(ucast (net_be32 [a, b, c, d]) :: byte) = d"
  by (rule bit_word_eqI, auto simp: net_be32_eq bit_simps dest: bit_imp_le_length)+

lemma net_be32_inject: "net_be32 [a, b, c, d] = net_be32 [e, f, g, h] \<longleftrightarrow> a = e \<and> b = f \<and> c = g \<and> d = h"
  by (metis net_be32_get)

lemma net_be32_split:
  "net_be32 [ucast (drop_bit 24 x), ucast (drop_bit 16 x), ucast (drop_bit 8 x), ucast x] = x"
proof (rule bit_word_eqI)
  fix n assume n: "n < LENGTH(32)"
  consider "n < 8" | "8 \<le> n" "n < 16" | "16 \<le> n" "n < 24" | "24 \<le> n" "n < 32"
    using n by fastforce
  then show "bit (net_be32 [ucast (drop_bit 24 x), ucast (drop_bit 16 x), ucast (drop_bit 8 x), ucast x]) n = bit x n"
    by cases (auto simp: net_be32_eq bit_simps)
qed

lemma net_be32_and: "net_be32 [a, b, c, d] AND net_be32 [e, f, g, h] = net_be32 [a AND e, b AND f, c AND g, d AND h]"
  using net_be32_split [of "net_be32 [a, b, c, d] AND net_be32 [e, f, g, h]"]
  by (simp only: drop_bit_and unsigned_and_eq net_be32_get)

lemma list4: "length xs = 4 \<Longrightarrow> \<exists>a b c d. xs = [a, b, c, d]"
  by (auto simp: numeral_eq_Suc length_Suc_conv)

lemma net_be32_masked:
  assumes "length a = 4" and "length b = 4" and "length m = 4"
  shows "net_be32 a AND net_be32 m = net_be32 b AND net_be32 m \<longleftrightarrow> masked a m = masked b m"
  using list4 [OF assms(1)] list4 [OF assms(2)] list4 [OF assms(3)]
  by (auto simp: net_be32_and net_be32_inject masked_def)

text \<open>Matching two addresses under a mask is what it should be, for IPv4 (one 32-bit comparison) and
  IPv6 (a loop over sixteen bytes) alike: for well-formed addresses the answer is yes exactly when
  all three have the same internet family and the two addresses agree in every bit of the mask.\<close>

lemma net_addr_match_spec:
  assumes "addr_ok sa1" and "addr_ok sa2" and "addr_ok netmask"
  shows "net_addr_match sa1 sa2 netmask = Some (sa_family sa1 = sa_family sa2 \<and> sa_family sa2 = sa_family netmask \<and>
    sa_family sa1 \<in> {Some AF_INET, Some AF_INET6} \<and>
    masked (addr_bytes sa1) (addr_bytes netmask) = masked (addr_bytes sa2) (addr_bytes netmask))"
proof -
  obtain f1 f2 f3 where f: "sa_family sa1 = Some f1" "sa_family sa2 = Some f2" "sa_family netmask = Some f3"
    using assms by (auto simp: addr_ok_def)
  consider "f1 \<noteq> f2 \<or> f2 \<noteq> f3" | "f2 = f1" "f3 = f1" "f1 = AF_INET" | "f2 = f1" "f3 = f1" "f1 = AF_INET6"
    | "f2 = f1" "f3 = f1" "f1 \<noteq> AF_INET" "f1 \<noteq> AF_INET6" by blast
  then show ?thesis
  proof cases
    case 2
    then have "length sa1 = 16" "length sa2 = 16" "length netmask = 16"
      using assms f by (auto simp: addr_ok_def)
    then show ?thesis
      using 2 f net_be32_masked [of "take 4 (drop 4 sa1)" "take 4 (drop 4 sa2)" "take 4 (drop 4 netmask)"]
      by (simp add: net_addr_match_def sin_addr_def rd_at_def adv_def rd_bytes_def addr_bytes_def)
  next
    case 3
    have ne: "AF_INET6 \<noteq> AF_INET" by (simp add: AF_INET_def AF_INET6_def)
    from 3 have "length sa1 = 28" "length sa2 = 28" "length netmask = 28"
      using assms f by (auto simp: addr_ok_def)
    then show ?thesis
      using 3 f ne match_bytes_eq [of "take 16 (drop 8 sa1)" 16 "take 16 (drop 8 sa2)" "take 16 (drop 8 netmask)"]
      by (simp add: net_addr_match_def sin6_addr_def rd_at_def adv_def rd_bytes_def addr_bytes_def)
  qed (use f in \<open>auto simp: net_addr_match_def\<close>)
qed

subsection \<open>Iterating over interfaces\<close>

definition next_ifaces :: "net_iface_iterator \<Rightarrow> ifaddrs list" where
  "next_ifaces self = (case it_ifa self of [] \<Rightarrow> it_ifaddrs self | _ # r \<Rightarrow> r)"

definition of_family :: "u16 \<Rightarrow> ifaddrs \<Rightarrow> bool" where
  "of_family fam x \<longleftrightarrow> fam = AF_UNSPEC \<or> (\<exists>sa. ifa_addr x = Some sa \<and> sa_family sa = Some fam)"

definition ifaces_ok :: "ifaddrs list \<Rightarrow> bool" where
  "ifaces_ok xs \<longleftrightarrow> (\<forall>x \<in> set xs. \<forall>sa. ifa_addr x = Some sa \<longrightarrow> addr_ok sa)"

text \<open>One call moves to the next interface of the family; from the null pointer it starts over.\<close>

lemma net_iface_iterator_has_next_eq:
  "ifaces_ok (next_ifaces self) \<Longrightarrow>
   net_iface_iterator_has_next self =
     (let rest = dropWhile (\<lambda>x. \<not> of_family (it_addr_family self) x) (next_ifaces self)
      in Some (rest \<noteq> [], self\<lparr>it_ifa := rest\<rparr>))"
proof (induction self rule: net_iface_iterator_has_next.induct)
  case (1 self)
  let ?self = "self\<lparr>it_ifa := next_ifaces self\<rparr>"
  have p: "net_iface_iterator_prepare_next self = (next_ifaces self \<noteq> [], ?self)"
    by (simp add: net_iface_iterator_prepare_next_def next_ifaces_def Let_def split: list.split)
  show ?case
  proof (cases "next_ifaces self")
    case Nil
    then show ?thesis using p by (subst net_iface_iterator_has_next.simps) simp
  next
    case (Cons x xs)
    have nx: "next_ifaces ?self = xs" by (simp add: next_ifaces_def Cons [unfolded next_ifaces_def])
    have ok: "ifaces_ok (next_ifaces ?self)" using 1(3) Cons nx by (simp add: ifaces_ok_def)
    have cur: "current_iface ?self = Some x" using Cons by (simp add: current_iface_def)
    show ?thesis
    proof (cases "of_family (it_addr_family self) x")
      case True
      then show ?thesis
        using p Cons cur by (subst net_iface_iterator_has_next.simps) (auto simp: of_family_def)
    next
      case False
      have "net_iface_iterator_has_next ?self =
          Some (dropWhile (\<lambda>x. \<not> of_family (it_addr_family self) x) xs \<noteq> [],
            ?self\<lparr>it_ifa := dropWhile (\<lambda>x. \<not> of_family (it_addr_family self) x) xs\<rparr>)"
      proof (cases "ifa_addr x")
        case None
        then show ?thesis
          using 1(1) [of True ?self] p Cons cur ok nx False by (simp add: of_family_def Let_def)
      next
        case (Some sa)
        then obtain fam where "sa_family sa = Some fam" "fam \<noteq> it_addr_family self"
          using 1(3) Cons False by (auto simp: ifaces_ok_def addr_ok_def of_family_def)
        then show ?thesis
          using 1(2) [of True ?self] p Cons cur ok nx False Some by (simp add: of_family_def Let_def)
      qed
      moreover have "net_iface_iterator_has_next self = net_iface_iterator_has_next ?self"
        using p Cons cur False 1(3)
        by (subst net_iface_iterator_has_next.simps)
          (auto simp: of_family_def ifaces_ok_def addr_ok_def split: option.split)
      ultimately show ?thesis
        using Cons False by simp
    qed
  qed
qed

subsection \<open>Finding the interface for a destination\<close>

text \<open>An interface that is up and running, with an address the destination matches under its mask.\<close>

definition iface_reaches :: "sockaddr \<Rightarrow> ifaddrs \<Rightarrow> bool" where
  "iface_reaches dest x \<longleftrightarrow> net_iface_is_up x \<and> net_iface_is_running x \<and>
     (\<exists>sa nm. ifa_addr x = Some sa \<and> ifa_netmask x = Some nm \<and> sa_family sa = sa_family dest \<and>
        sa_family nm = sa_family dest \<and> masked (addr_bytes sa) (addr_bytes nm) = masked (addr_bytes dest) (addr_bytes nm))"

definition masks_ok :: "u16 \<Rightarrow> ifaddrs list \<Rightarrow> bool" where
  "masks_ok fam xs \<longleftrightarrow> (\<forall>x \<in> set xs. net_iface_is_up x \<longrightarrow> net_iface_is_running x \<longrightarrow> of_family fam x \<longrightarrow>
     (\<exists>nm. ifa_netmask x = Some nm \<and> addr_ok nm))"

lemma net_addr_copy_ok:
  assumes "addr_ok sa" and "sa_family sa = Some AF_INET \<or> sa_family sa = Some AF_INET6" and "28 \<le> length to"
  shows "net_addr_copy to sa = Some (0, sa @ drop (length sa) to)"
proof -
  have "AF_INET6 \<noteq> AF_INET" by (simp add: AF_INET_def AF_INET6_def)
  then show ?thesis
    using assms by (auto simp: net_addr_copy_def addr_ok_def rd_bytes_def mem_write_def)
qed

lemma dropWhile_found:
  "dropWhile (\<lambda>x. \<not> P x) xs = y # ys \<Longrightarrow> P y \<and> (\<exists>zs. xs = zs @ y # ys \<and> (\<forall>z \<in> set zs. \<not> P z))"
  using hd_dropWhile [of "\<lambda>x. \<not> P x" xs] takeWhile_dropWhile_id [of "\<lambda>x. \<not> P x" xs]
  by (intro conjI exI [of _ "takeWhile (\<lambda>x. \<not> P x) xs"]) (auto dest: set_takeWhileD)

lemma find_append_skip: "\<forall>z \<in> set zs. \<not> P z \<Longrightarrow> find P (zs @ xs) = find P xs"
  by (induction zs) auto

lemma find_iface_loop_eq:
  assumes dest: "addr_ok dest" "sa_family dest = Some fam" "fam = AF_INET \<or> fam = AF_INET6"
    and "28 \<le> length buf"
    and "it_addr_family nit = fam" and "ifaces_ok (next_ifaces nit)" and "masks_ok fam (next_ifaces nit)"
  shows "find_iface_loop dest buf nit = Some (case find (iface_reaches dest) (next_ifaces nit) of
      Some x \<Rightarrow> (1, the (ifa_addr x) @ drop (length (the (ifa_addr x))) buf) | None \<Rightarrow> (0, buf))"
  using assms(5-7)
proof (induction "next_ifaces nit" arbitrary: nit rule: length_induct)
  case (1 nit)
  let ?fam = "of_family (it_addr_family nit)"
  have nu: "fam \<noteq> AF_UNSPEC" using dest(3) by (auto simp: AF_INET_def AF_INET6_def AF_UNSPEC_def)
  note hn = net_iface_iterator_has_next_eq [OF 1(3), unfolded Let_def]
  have miss: "\<not> iface_reaches dest x" if "\<not> of_family fam x" for x
    using that dest(2) by (auto simp: iface_reaches_def of_family_def)
  show ?case
  proof (cases "dropWhile (\<lambda>x. \<not> ?fam x) (next_ifaces nit)")
    case Nil
    then have "\<forall>x \<in> set (next_ifaces nit). \<not> of_family fam x"
      using 1(2) by (simp add: dropWhile_eq_Nil_conv)
    then have "find (iface_reaches dest) (next_ifaces nit) = None"
      using miss by (simp add: find_None_iff)
    then show ?thesis
      by (subst find_iface_loop.simps) (simp add: hn Nil)
  next
    case (Cons x xs)
    let ?nit = "nit\<lparr>it_ifa := x # xs\<rparr>"
    obtain zs where x: "of_family fam x" and l: "next_ifaces nit = zs @ x # xs" and zs: "\<forall>z \<in> set zs. \<not> of_family fam z"
      using dropWhile_found [OF Cons] 1(2) by auto
    have skip: "find (iface_reaches dest) (next_ifaces nit) = find (iface_reaches dest) (x # xs)"
      unfolding l by (rule find_append_skip) (use zs miss in blast)
    have nx: "next_ifaces ?nit = xs" by (simp add: next_ifaces_def)
    have IH: "find_iface_loop dest buf ?nit = Some (case find (iface_reaches dest) xs of
        Some x \<Rightarrow> (1, the (ifa_addr x) @ drop (length (the (ifa_addr x))) buf) | None \<Rightarrow> (0, buf))"
    proof (rule 1(1) [rule_format, of xs ?nit, unfolded nx])
      show "ifaces_ok xs" "masks_ok fam xs"
        using 1(3,4) l by (auto simp: ifaces_ok_def masks_ok_def)
    qed (use 1(2) l in simp_all)
    obtain sa where sa: "ifa_addr x = Some sa" "sa_family sa = Some fam" "addr_ok sa"
      using x nu 1(3) l by (auto simp: of_family_def ifaces_ok_def)
    have step: "find_iface_loop dest buf nit =
       (if \<not> net_iface_is_up x \<or> \<not> net_iface_is_running x then find_iface_loop dest buf ?nit
        else do { nm \<leftarrow> ifa_netmask x; m \<leftarrow> net_addr_match sa dest nm;
          if m then do { (_, sa_iface) \<leftarrow> net_addr_copy buf sa; Some (1, sa_iface) }
          else find_iface_loop dest buf ?nit })"
      by (subst find_iface_loop.simps)
        (simp add: hn Cons net_iface_iterator_get_next_def current_iface_def net_iface_get_address_def
          net_iface_get_netmask_def sa)
    show ?thesis
    proof (cases "net_iface_is_up x \<and> net_iface_is_running x")
      case False
      then show ?thesis
        using step IH unfolding skip by (auto simp: iface_reaches_def)
    next
      case True
      then obtain nm where nm: "ifa_netmask x = Some nm" "addr_ok nm"
        using 1(4) x l by (auto simp: masks_ok_def)
      have "sa_family sa \<in> {Some AF_INET, Some AF_INET6}" using sa(2) dest(3) by auto
      then have "net_addr_match sa dest nm = Some (iface_reaches dest x)"
        using net_addr_match_spec [OF sa(3) dest(1) nm(2)] True sa nm dest(2) by (auto simp: iface_reaches_def)
      moreover have "net_addr_copy buf sa = Some (0, sa @ drop (length sa) buf)"
        using net_addr_copy_ok [OF sa(3) _ assms(4)] sa(2) dest(3) by auto
      ultimately show ?thesis
        using step IH True nm sa unfolding skip by simp
    qed
  qed
qed

text \<open>C16. The search for an outgoing interface is a linear search: for an internet destination, a buffer
  with room for any address, and interfaces that all have well-formed addresses and, when they are up
  and running in the destination's family, netmasks, it ends and returns 1 with the address of the
  first interface that is up and running and whose network contains the destination, or 0 with the
  buffer untouched when there is none.\<close>

theorem net_find_matching_iface:
  assumes "addr_ok dest" and "sa_family dest = Some fam" and "fam \<in> {AF_INET, AF_INET6}"
    and "28 \<le> length buf" and "ifaces_ok l" and "masks_ok fam l"
  shows "net_addr_find_matching_iface (Some l) buf dest = Some (case find (iface_reaches dest) l of
      Some x \<Rightarrow> (1, the (ifa_addr x) @ drop (length (the (ifa_addr x))) buf) | None \<Rightarrow> (0, buf))"
  using find_iface_loop_eq [of dest fam buf "\<lparr>it_addr_family = fam, it_ifaddrs = l, it_ifa = []\<rparr>"] assms
  by (simp add: net_addr_find_matching_iface_def net_iface_iterator_new_def next_ifaces_def)

lemma find_matching_no_list: "sa_family dest = Some fam \<Longrightarrow> net_addr_find_matching_iface None buf dest = Some (-1, buf)"
  by (simp add: net_addr_find_matching_iface_def net_iface_iterator_new_def)

text \<open>The code reads the netmask of the first candidate without looking whether there is one.\<close>

lemma find_matching_no_netmask:
  assumes "sa_family dest = Some fam" and "fam \<noteq> AF_UNSPEC" and "net_iface_is_up x" and "net_iface_is_running x"
    and "ifa_addr x = Some sa" and "sa_family sa = Some fam" and "ifa_netmask x = None"
  shows "net_addr_find_matching_iface (Some (x # l)) buf dest = None"
proof -
  have "net_iface_iterator_has_next \<lparr>it_addr_family = fam, it_ifaddrs = x # l, it_ifa = []\<rparr> =
      Some (True, \<lparr>it_addr_family = fam, it_ifaddrs = x # l, it_ifa = x # l\<rparr>)"
    using assms(2,5,6) by (subst net_iface_iterator_has_next.simps)
      (simp add: net_iface_iterator_prepare_next_def current_iface_def)
  then show ?thesis
    using assms by (subst net_addr_find_matching_iface_def, simp add: net_iface_iterator_new_def,
        subst find_iface_loop.simps)
      (simp add: net_iface_iterator_get_next_def current_iface_def net_iface_get_address_def net_iface_get_netmask_def)
qed

subsection \<open>Interfaces of a small machine\<close>

definition ipv4 :: "byte \<Rightarrow> byte \<Rightarrow> byte \<Rightarrow> byte \<Rightarrow> sockaddr" where
  "ipv4 a b c d = [2, 0, 0, 0, a, b, c, d, 0, 0, 0, 0, 0, 0, 0, 0]"

definition demo_ifaces :: "ifaddrs list" where
  "demo_ifaces =
     [\<lparr>ifa_name = [0x6C, 0x6F, 0], ifa_flags = 0x49, ifa_addr = Some (ipv4 127 0 0 1), ifa_netmask = Some (ipv4 255 0 0 0), ifa_data = None\<rparr>,
      \<lparr>ifa_name = [0x74, 0], ifa_flags = 0x1, ifa_addr = None, ifa_netmask = None, ifa_data = None\<rparr>,
      \<lparr>ifa_name = [0x65, 0], ifa_flags = 0x1041, ifa_addr = Some (ipv4 10 0 0 7), ifa_netmask = Some (ipv4 255 255 0 0), ifa_data = None\<rparr>]"

lemma ipv4_family [simp]: "sa_family (ipv4 a b c d) = Some AF_INET"
  by (simp add: sa_family_def ipv4_def be16_def AF_INET_def)

lemma ipv4_ok [simp]: "addr_ok (ipv4 a b c d)"
  by (simp add: addr_ok_def ipv4_def [of a b c d, THEN arg_cong [of _ _ length]] AF_INET_def AF_INET6_def)

lemma ipv4_bytes [simp]: "addr_bytes (ipv4 a b c d) = [a, b, c, d]"
  by (simp add: addr_bytes_def) (simp add: ipv4_def)

theorem net_find_matching_iface_witness:
  "net_addr_find_matching_iface (Some demo_ifaces) (replicate 28 0) (ipv4 10 0 3 4) =
     Some (1, ipv4 10 0 0 7 @ replicate 12 0)"
proof -
  have "ifaces_ok demo_ifaces" "masks_ok AF_INET demo_ifaces"
    by (simp_all add: demo_ifaces_def ifaces_ok_def masks_ok_def net_iface_is_running_def IFF_RUNNING_def)
  moreover have "find (iface_reaches (ipv4 10 0 3 4)) demo_ifaces = Some (demo_ifaces ! 2)"
    by (simp add: demo_ifaces_def iface_reaches_def masked_def net_iface_is_up_def net_iface_is_running_def
        IFF_UP_def IFF_RUNNING_def)
  moreover have "ifa_addr (demo_ifaces ! 2) = Some (ipv4 10 0 0 7)" "length (ipv4 10 0 0 7) = 16"
    by (simp_all add: demo_ifaces_def ipv4_def)
  ultimately show ?thesis
    using net_find_matching_iface [of "ipv4 10 0 3 4" AF_INET "replicate 28 0" demo_ifaces] by simp
qed

end
