(* ===== verification/Socket.thy ===== *)
theory Socket
  imports Net Streams
begin

section \<open>Sockets (source/socket.c)\<close>

text \<open>
  The blocking transfer loops and the length-prefixed messages run over the scripted kernel of
  theory \<open>Streams\<close>; creating, connecting and binding sockets are in theory
  \<open>Socket_Setup\<close>.
\<close>

subsection \<open>Transfer loops\<close>

lemma sys_write_le: "sys_write fd xs w = (r, w') \<Longrightarrow> -1 \<le> r \<and> r \<le> int (length xs)"
  by (auto simp: sys_write_def split: list.splits wr_event.splits)

lemma sys_read_le: "sys_read fd n w = (r, xs, w') \<Longrightarrow> -1 \<le> r \<and> r \<le> int n"
  by (auto simp: sys_read_def split: list.splits rd_event.splits)

lemma c_int_le: "0 < c_int x \<Longrightarrow> -1 \<le> x \<Longrightarrow> c_int x \<le> x"
  using zmod_le_nonneg_dividend [of "x + 2 ^ 31" "2 ^ 32"] by (simp add: c_int_def)

text \<open>The count that remains goes down.\<close>

lemma remain_less:
  assumes "0 < c_int r" and "-1 \<le> r" and "r \<le> int remain"
  shows "nat ((int remain - c_int r) mod 2 ^ 32) < remain"
proof -
  have "c_int r \<le> int remain" using c_int_le [OF assms(1,2)] assms(3) by simp
  then have "(int remain - c_int r) mod 2 ^ 32 \<le> int remain - c_int r"
    by (intro zmod_le_nonneg_dividend) simp
  then show ?thesis using assms(1) \<open>c_int r \<le> int remain\<close> by linarith
qed

text \<open>\<open>remain\<close> is an \<open>unsigned int\<close>; \<open>None\<close> as first component means that the loop is done.\<close>

function socket_send_loop :: "int \<Rightarrow> bytes \<Rightarrow> nat \<Rightarrow> world \<Rightarrow> (int option \<times> world) option" where
  "socket_send_loop sock ptr remain w =
     (if remain = 0 then Some (None, w)
      else (case rd_bytes ptr remain of
          None \<Rightarrow> None
        | Some xs \<Rightarrow> (case sys_write sock xs w of (r, w) \<Rightarrow>
            if c_int r \<le> 0 then Some (Some (c_int r), w)
            else socket_send_loop sock (drop (nat (c_int r)) ptr) (nat ((int remain - c_int r) mod 2 ^ 32)) w)))"
  by pat_completeness auto
termination
proof (relation "measure (\<lambda>(_, _, remain, _). remain)", goal_cases)
  case (2 sock ptr remain w xs r w')
  then show ?case
    using remain_less [of r remain] sys_write_le [of sock xs w r w'] rd_bytes_length [of ptr remain xs] by simp
qed simp

declare socket_send_loop.simps [simp del]

definition socket_send :: "int \<Rightarrow> bytes \<Rightarrow> nat \<Rightarrow> world \<Rightarrow> (int \<times> world) option" where
  "socket_send sock buffer len w = do {
     (r, w) \<leftarrow> socket_send_loop sock buffer (len mod 2 ^ 32) w;
     Some (case r of Some ret \<Rightarrow> ret | None \<Rightarrow> c_int (int len), w)
   }"

text \<open>What is received goes to consecutive places of the buffer; the buffer has room for \<open>len\<close> bytes.\<close>

function socket_receive_loop :: "int \<Rightarrow> nat \<Rightarrow> world \<Rightarrow> int option \<times> bytes \<times> world" where
  "socket_receive_loop sock remain w =
     (if remain = 0 then (None, [], w)
      else (case sys_read sock remain w of (r, xs, w) \<Rightarrow>
        if c_int r \<le> 0 then (Some (c_int r), xs, w)
        else (case socket_receive_loop sock (nat ((int remain - c_int r) mod 2 ^ 32)) w of
          (res, ys, w) \<Rightarrow> (res, xs @ ys, w))))"
  by pat_completeness auto
termination
proof (relation "measure (\<lambda>(_, remain, _). remain)", goal_cases)
  case (2 sock remain w r y xs w')
  then show ?case
    using remain_less [of r remain] sys_read_le [of sock remain w r xs w'] by simp
qed simp

declare socket_receive_loop.simps [simp del]

definition socket_receive :: "int \<Rightarrow> nat \<Rightarrow> world \<Rightarrow> int \<times> bytes \<times> world" where
  "socket_receive sock len w =
     (let (r, xs, w) = socket_receive_loop sock (len mod 2 ^ 32) w
      in (case r of Some ret \<Rightarrow> ret | None \<Rightarrow> c_int (int len), xs, w))"

subsection \<open>Messages\<close>

text \<open>\<open>htonl\<close> and the four bytes it leaves in memory; \<open>net_be32\<close> is the way back.\<close>

definition htonl_bytes :: "nat \<Rightarrow> bytes" where
  "htonl_bytes n = (let v = (of_nat n :: 32 word)
     in [ucast (drop_bit 24 v), ucast (drop_bit 16 v), ucast (drop_bit 8 v), ucast v])"

definition socket_send_msg :: "int \<Rightarrow> bytes \<Rightarrow> nat \<Rightarrow> world \<Rightarrow> (int \<times> world) option" where
  "socket_send_msg sock buffer len w = do {
     (ret, w) \<leftarrow> socket_send sock (htonl_bytes len) 4 w;
     if ret > 0 then socket_send sock buffer len w else Some (ret, w)
   }"

text \<open>\<open>netLen\<close> starts as zero; bytes that were not received stay zero.\<close>

definition socket_receive_msg_len :: "int \<Rightarrow> world \<Rightarrow> int \<times> world" where
  "socket_receive_msg_len sock w =
     (let (ret, xs, w) = socket_receive sock 4 w;
          netLen = xs @ replicate (4 - length xs) 0
      in (if ret > 0 then c_int (uint (net_be32 netLen)) else ret, w))"

definition socket_receive_msg :: "int \<Rightarrow> nat \<Rightarrow> world \<Rightarrow> int \<times> bytes \<times> world" where
  "socket_receive_msg sock len w = socket_receive sock len w"

subsection \<open>Everything arrives\<close>

text \<open>A peer that keeps accepting, and one whose data comes in any pieces.\<close>

definition accepting :: "world \<Rightarrow> int \<Rightarrow> bool" where
  "accepting w fd \<longleftrightarrow> (\<forall>e \<in> set (w_wr w fd). \<exists>n. e = WrSome n \<and> 0 < n)"

definition feeding :: "world \<Rightarrow> int \<Rightarrow> bytes \<Rightarrow> bool" where
  "feeding w fd bs \<longleftrightarrow> (\<exists>cs. w_rd w fd = map RdData cs \<and> concat cs = bs \<and> [] \<notin> set cs)"

lemma sys_write_accepting:
  assumes "accepting w fd" and "xs \<noteq> []"
  shows "\<exists>n w'. sys_write fd xs w = (int n, w') \<and> 0 < n \<and> n \<le> length xs \<and> accepting w' fd \<and>
    w_out w' fd = w_out w fd @ take n xs"
proof (cases "w_wr w fd")
  case (Cons e es)
  then obtain n where n: "e = WrSome n" "0 < n"
    using assms(1) by (auto simp: accepting_def)
  then show ?thesis
    using Cons assms by (intro exI [of _ "min n (length xs)"])
      (auto simp: sys_write_def accepting_def min_def)
qed (use assms in \<open>auto simp: sys_write_def accepting_def\<close>)

lemma socket_send_loop_all:
  assumes "accepting w sock" and "length xs < 2 ^ 31"
  shows "\<exists>w'. socket_send_loop sock (xs @ r) (length xs) w = Some (None, w') \<and> accepting w' sock \<and>
    w_out w' sock = w_out w sock @ xs"
  using assms
proof (induction xs arbitrary: w rule: length_induct)
  case (1 xs)
  show ?case
  proof (cases "xs = []")
    case True
    then show ?thesis using 1(2) by (subst socket_send_loop.simps) simp
  next
    case False
    obtain n w1 where n: "sys_write sock xs w = (int n, w1)" "0 < n" "n \<le> length xs" "accepting w1 sock"
        "w_out w1 sock = w_out w sock @ take n xs"
      using sys_write_accepting [OF 1(2) False] by blast
    have c: "c_int (int n) = int n" using n(3) 1(3) by simp
    have m: "nat ((int (length xs) - int n) mod 2 ^ 32) = length (drop n xs)"
      using n(3) 1(3) by (simp add: mod_pos_pos_trivial nat_diff_distrib' of_nat_diff [symmetric] del: of_nat_diff)
    obtain w2 where w2: "socket_send_loop sock (drop n xs @ r) (length (drop n xs)) w1 = Some (None, w2)"
        "accepting w2 sock" "w_out w2 sock = w_out w1 sock @ drop n xs"
      using 1(1) [rule_format, of "drop n xs" w1] n 1(3) False less_imp_diff_less [OF 1(3), of n] by auto
    have d: "drop n (xs @ r) = drop n xs @ r" using n(3) by simp
    have "socket_send_loop sock (xs @ r) (length xs) w = Some (None, w2)"
      using False n(1-3) c m w2(1) by (subst socket_send_loop.simps) (simp del: length_drop add: d)
    then show ?thesis using w2 n(5) by simp
  qed
qed

lemma sys_read_feeding:
  assumes "feeding w fd bs" and "bs \<noteq> []" and "0 < n"
  shows "\<exists>k w'. sys_read fd n w = (int k, take k bs, w') \<and> 0 < k \<and> k \<le> n \<and> k \<le> length bs \<and>
    feeding w' fd (drop k bs)"
proof -
  obtain cs where cs: "w_rd w fd = map RdData cs" "concat cs = bs" "[] \<notin> set cs"
    using assms(1) by (auto simp: feeding_def)
  obtain c ds where c: "cs = c # ds" using cs(2) assms(2) by (cases cs) auto
  have ne: "c \<noteq> []" "[] \<notin> set ds" using cs(3) c by auto
  show ?thesis
  proof (cases "length c \<le> n")
    case True
    then show ?thesis
      using cs c ne by (intro exI [of _ "length c"]) (auto simp: sys_read_def feeding_def)
  next
    case False
    then have "feeding (w\<lparr>w_rd := (w_rd w)(fd := RdData (drop n c) # map RdData ds)\<rparr>) fd (drop n bs)"
      using cs c ne unfolding feeding_def by (intro exI [of _ "drop n c # ds"]) auto
    then show ?thesis
      using False cs c assms(3) by (intro exI [of _ n]) (auto simp: sys_read_def min_def)
  qed
qed

lemma socket_receive_loop_all:
  assumes "feeding w sock bs" and "n \<le> length bs" and "n < 2 ^ 31"
  shows "\<exists>w'. socket_receive_loop sock n w = (None, take n bs, w') \<and> feeding w' sock (drop n bs)"
  using assms
proof (induction n arbitrary: w bs rule: less_induct)
  case (less n)
  show ?case
  proof (cases "n = 0")
    case True
    then show ?thesis using less.prems by (subst socket_receive_loop.simps) simp
  next
    case False
    then have "bs \<noteq> []" "0 < n" using less.prems(2) by auto
    then obtain k w1 where k: "sys_read sock n w = (int k, take k bs, w1)" "0 < k" "k \<le> n" "k \<le> length bs"
        "feeding w1 sock (drop k bs)"
      using sys_read_feeding [OF less.prems(1)] by blast
    have c: "c_int (int k) = int k" using k(3) less.prems(3) by simp
    have m: "nat ((int n - int k) mod 2 ^ 32) = n - k"
      using k(3) less.prems(3) by (simp add: mod_pos_pos_trivial nat_diff_distrib' of_nat_diff [symmetric] del: of_nat_diff)
    obtain w2 where w2: "socket_receive_loop sock (n - k) w1 = (None, take (n - k) (drop k bs), w2)"
        "feeding w2 sock (drop (n - k) (drop k bs))"
      using less.IH [of "n - k" w1 "drop k bs"] k less.prems by fastforce
    have "take n bs = take k bs @ take (n - k) (drop k bs)"
      using k(3) by (metis le_add_diff_inverse take_add)
    moreover have "nat (int n - int k) = n - k" by linarith
    ultimately show ?thesis
      using False k c m w2 by (subst socket_receive_loop.simps) simp
  qed
qed

lemma net_be32_htonl: "net_be32 (htonl_bytes n) = of_nat n"
  unfolding htonl_bytes_def Let_def by (rule net_be32_split)

lemma length_htonl [simp]: "length (htonl_bytes n) = 4"
  by (simp add: htonl_bytes_def Let_def)

lemma uint_of_nat_32: "n < 2 ^ 32 \<Longrightarrow> uint (of_nat n :: 32 word) = int n"
  by (simp add: uint_nat unat_of_nat)

lemma socket_send_msg_all:
  assumes "accepting w sock" and "0 < length xs" and "length xs < 2 ^ 31"
  shows "\<exists>w'. socket_send_msg sock xs (length xs) w = Some (int (length xs), w') \<and> accepting w' sock \<and>
    w_out w' sock = w_out w sock @ htonl_bytes (length xs) @ xs"
proof -
  obtain w1 where w1: "socket_send_loop sock (htonl_bytes (length xs)) 4 w = Some (None, w1)" "accepting w1 sock"
      "w_out w1 sock = w_out w sock @ htonl_bytes (length xs)"
    using socket_send_loop_all [OF assms(1), of "htonl_bytes (length xs)" "[]"] by auto
  obtain w2 where w2: "socket_send_loop sock xs (length xs) w1 = Some (None, w2)" "accepting w2 sock"
      "w_out w2 sock = w_out w1 sock @ xs"
    using socket_send_loop_all [OF w1(2) assms(3), of "[]"] by auto
  show ?thesis
    using assms(3) w1 w2 by (simp add: socket_send_msg_def socket_send_def)
qed

lemma socket_receive_all:
  assumes "feeding w sock bs" and "n \<le> length bs" and "n < 2 ^ 31"
  shows "\<exists>w'. socket_receive sock n w = (int n, take n bs, w') \<and> feeding w' sock (drop n bs)"
  using socket_receive_loop_all [OF assms] assms(3) by (auto simp: socket_receive_def)

text \<open>C22. Messages survive the wire: a non-empty message below 2 GiB sent to a peer that keeps accepting,
  however few bytes at a time, is sent completely, after its length; and whoever is fed what was
  sent, in pieces of any size and followed by anything, first receives the length, then with that
  length exactly the message, and is left with exactly what follows.\<close>

theorem socket_msg_roundtrip:
  assumes "accepting w sock" and "w_out w sock = []" and "0 < length xs" and "length xs < 2 ^ 31"
  shows "\<exists>w'. socket_send_msg sock xs (length xs) w = Some (int (length xs), w') \<and>
    (\<forall>v peer rest. feeding v peer (w_out w' sock @ rest) \<longrightarrow>
      (\<exists>v1 v2. socket_receive_msg_len peer v = (int (length xs), v1) \<and>
         socket_receive_msg peer (length xs) v1 = (int (length xs), xs, v2) \<and> feeding v2 peer rest))"
proof -
  obtain w' where w': "socket_send_msg sock xs (length xs) w = Some (int (length xs), w')"
      "w_out w' sock = htonl_bytes (length xs) @ xs"
    using socket_send_msg_all [OF assms(1,3,4)] assms(2) by auto
  have "\<exists>v1 v2. socket_receive_msg_len peer v = (int (length xs), v1) \<and>
         socket_receive_msg peer (length xs) v1 = (int (length xs), xs, v2) \<and> feeding v2 peer rest"
    if f: "feeding v peer (w_out w' sock @ rest)" for v peer rest
  proof -
    obtain v1 where v1: "socket_receive peer 4 v = (4, htonl_bytes (length xs), v1)" "feeding v1 peer (xs @ rest)"
      using socket_receive_all [OF f, of 4] w'(2) by auto
    have "socket_receive_msg_len peer v = (int (length xs), v1)"
      using v1(1) assms(4) by (simp add: socket_receive_msg_len_def net_be32_htonl uint_of_nat_32)
    then show ?thesis
      using socket_receive_all [OF v1(2), of "length xs"] assms(4) by (auto simp: socket_receive_msg_def)
  qed
  then show ?thesis using w'(1) by blast
qed

text \<open>An empty message cannot be told from a closed connection.\<close>

lemma socket_empty_message:
  assumes "feeding v peer (htonl_bytes 0 @ rest)" and "w_rd v' peer = RdEof # es"
  shows "fst (socket_receive_msg_len peer v) = 0" and "fst (socket_receive_msg_len peer v') = 0"
proof -
  show "fst (socket_receive_msg_len peer v) = 0"
    using socket_receive_all [OF assms(1), of 4] net_be32_htonl [of 0] by (auto simp: socket_receive_msg_len_def)
  show "fst (socket_receive_msg_len peer v') = 0"
    using assms(2) by (simp add: socket_receive_msg_len_def socket_receive_def socket_receive_loop.simps sys_read_def)
qed

text \<open>A multiple of 4 GiB is reported as sent without a single byte being written.\<close>

lemma socket_send_truncates: "len mod 2 ^ 32 = 0 \<Longrightarrow> socket_send sock buffer len w = Some (c_int (int len), w)"
  by (simp add: socket_send_def socket_send_loop.simps)

theorem socket_msg_roundtrip_witness:
  "\<exists>w'. socket_send_msg 3 [7, 8, 9] 3 (world0\<lparr>w_wr := (\<lambda>_. [WrSome 1, WrSome 2])\<rparr>) = Some (3, w') \<and>
    (\<forall>v peer rest. feeding v peer (w_out w' 3 @ rest) \<longrightarrow>
      (\<exists>v1 v2. socket_receive_msg_len peer v = (3, v1) \<and>
         socket_receive_msg peer 3 v1 = (3, [7, 8, 9], v2) \<and> feeding v2 peer rest))"
  using socket_msg_roundtrip [of "world0\<lparr>w_wr := (\<lambda>_. [WrSome 1, WrSome 2])\<rparr>" 3 "[7, 8, 9]"]
  by (simp add: accepting_def world0_def numeral_3_eq_3)

end
