(* ===== verification/Socket_Setup.thy ===== *)
theory Socket_Setup
  imports Net
begin

section \<open>Creating, connecting and binding sockets (source/socket.c)\<close>

text \<open>
  The functions of socket.c around \<open>socket\<close>, \<open>connect\<close>, \<open>bind\<close>, \<open>listen\<close> and the socket options, over
  a kernel that is a parameter: a record of system calls on a state of type \<open>'k\<close>. \<open>ns_open\<close> is the
  list of the sockets that were created here and not closed. \<open>RESET\<close> ends the process unless
  the logger is configured otherwise (\<open>k_reset_returns\<close>); a process that ended has no result.
  Addresses are bytes, as in theory \<open>Net\<close>.
\<close>

datatype sockopt = SO_REUSEADDR int | SO_REUSEPORT int | TCP_NODELAY int | IP_TTL byte
  | SO_RCVTIMEO nat "nat option" \<comment> \<open>seconds, microseconds (or whatever was in memory)\<close>
datatype fcntl_cmd = F_GETFL | F_SETFL "32 word"

record 'k net_api =
  k_socket :: "u16 \<Rightarrow> int \<Rightarrow> 'k \<Rightarrow> int \<times> 'k"
  k_close :: "int \<Rightarrow> 'k \<Rightarrow> 'k"
  k_connect :: "int \<Rightarrow> bytes \<Rightarrow> 'k \<Rightarrow> int \<times> 'k"
  k_bind :: "int \<Rightarrow> bytes \<Rightarrow> 'k \<Rightarrow> int \<times> 'k"
  k_listen :: "int \<Rightarrow> int \<Rightarrow> 'k \<Rightarrow> int \<times> 'k"
  k_getaddrinfo :: "bytes \<Rightarrow> u16 \<Rightarrow> 'k \<Rightarrow> (int \<times> (u16 \<times> sockaddr) list) \<times> 'k"
  k_so_domain :: "int \<Rightarrow> 'k \<Rightarrow> u16 option \<times> 'k"
  k_setsockopt :: "int \<Rightarrow> sockopt \<Rightarrow> 'k \<Rightarrow> int \<times> 'k"
  k_fcntl :: "int \<Rightarrow> fcntl_cmd \<Rightarrow> 'k \<Rightarrow> int \<times> 'k"
  k_sendto :: "int \<Rightarrow> bytes \<Rightarrow> bytes \<Rightarrow> 'k \<Rightarrow> int \<times> 'k"
  k_reset_returns :: bool

record 'k net_state =
  ns_kernel :: 'k
  ns_open :: "int list"

definition kernel :: "('k \<Rightarrow> 'a \<times> 'k) \<Rightarrow> 'k net_state \<Rightarrow> 'a \<times> 'k net_state" where
  "kernel f st = (let (x, k) = f (ns_kernel st) in (x, st\<lparr>ns_kernel := k\<rparr>))"

definition SOCKET_INVALID :: int where "SOCKET_INVALID = -1"
definition SOCK_STREAM :: int where "SOCK_STREAM = 1"
definition SOCK_DGRAM :: int where "SOCK_DGRAM = 2"
definition AF_UNIX :: u16 where "AF_UNIX = 1"
definition O_NONBLOCK :: "32 word" where "O_NONBLOCK = 0x800"

definition socket_is_valid :: "int \<Rightarrow> bool" where
  "socket_is_valid sock \<longleftrightarrow> sock \<ge> 0"

definition socket_open :: "'k net_api \<Rightarrow> u16 \<Rightarrow> int \<Rightarrow> 'k net_state \<Rightarrow> (int \<times> 'k net_state) option" where
  "socket_open api family type st =
     (let (sock, st) = kernel (k_socket api family type) st
      in if sock = SOCKET_INVALID then (if k_reset_returns api then Some (sock, st) else None)
         else Some (sock, st\<lparr>ns_open := sock # ns_open st\<rparr>))"

definition socket_close :: "'k net_api \<Rightarrow> int \<Rightarrow> 'k net_state \<Rightarrow> int \<times> 'k net_state" where
  "socket_close api sock st =
     (SOCKET_INVALID, st\<lparr>ns_kernel := k_close api sock (ns_kernel st), ns_open := remove1 sock (ns_open st)\<rparr>)"

definition socket_create_inet_stream :: "'k net_api \<Rightarrow> 'k net_state \<Rightarrow> (int \<times> 'k net_state) option" where
  "socket_create_inet_stream api = socket_open api AF_INET SOCK_STREAM"

definition socket_create_inet_datagram :: "'k net_api \<Rightarrow> 'k net_state \<Rightarrow> (int \<times> 'k net_state) option" where
  "socket_create_inet_datagram api = socket_open api AF_INET SOCK_DGRAM"

definition socket_create_unix_stream :: "'k net_api \<Rightarrow> 'k net_state \<Rightarrow> (int \<times> 'k net_state) option" where
  "socket_create_unix_stream api = socket_open api AF_UNIX SOCK_STREAM"

text \<open>When \<open>getsockopt\<close> fails the result keeps its initial value, zero.\<close>

definition socket_get_addr_family :: "'k net_api \<Rightarrow> int \<Rightarrow> 'k net_state \<Rightarrow> u16 \<times> 'k net_state" where
  "socket_get_addr_family api sock st =
     (let (fam, st) = kernel (k_so_domain api sock) st in (case fam of Some f \<Rightarrow> f | None \<Rightarrow> 0, st))"

subsection \<open>Options\<close>

definition socket_set_reuse_addr :: "'k net_api \<Rightarrow> int \<Rightarrow> int \<Rightarrow> 'k net_state \<Rightarrow> int \<times> 'k net_state" where
  "socket_set_reuse_addr api sock on = kernel (k_setsockopt api sock (SO_REUSEADDR on))"

definition socket_set_reuse_port :: "'k net_api \<Rightarrow> int \<Rightarrow> int \<Rightarrow> 'k net_state \<Rightarrow> int \<times> 'k net_state" where
  "socket_set_reuse_port api sock on = kernel (k_setsockopt api sock (SO_REUSEPORT on))"

definition socket_set_tcp_no_delay :: "'k net_api \<Rightarrow> int \<Rightarrow> int \<Rightarrow> 'k net_state \<Rightarrow> int \<times> 'k net_state" where
  "socket_set_tcp_no_delay api sock on = kernel (k_setsockopt api sock (TCP_NODELAY on))"

definition socket_set_non_blocking :: "'k net_api \<Rightarrow> int \<Rightarrow> int \<Rightarrow> 'k net_state \<Rightarrow> int \<times> 'k net_state" where
  "socket_set_non_blocking api sock on st =
     (let (ret, st) = kernel (k_fcntl api sock F_GETFL) st
      in if ret \<noteq> -1
         then kernel (k_fcntl api sock (F_SETFL
           (if on = 1 then word_of_int ret OR O_NONBLOCK else word_of_int ret AND NOT O_NONBLOCK))) st
         else (ret, st))"

text \<open>Only the seconds of the time value are written before it is passed on.\<close>

definition socket_set_timeout :: "'k net_api \<Rightarrow> int \<Rightarrow> nat \<Rightarrow> 'k net_state \<Rightarrow> int \<times> 'k net_state" where
  "socket_set_timeout api sock timeout = kernel (k_setsockopt api sock (SO_RCVTIMEO timeout None))"

definition socket_set_ttl :: "'k net_api \<Rightarrow> int \<Rightarrow> byte \<Rightarrow> 'k net_state \<Rightarrow> int \<times> 'k net_state" where
  "socket_set_ttl api sock value = kernel (k_setsockopt api sock (IP_TTL value))"

subsection \<open>Addresses\<close>

definition wr_at :: "bytes \<Rightarrow> nat \<Rightarrow> bytes \<Rightarrow> bytes option" where
  "wr_at m i xs = do { r \<leftarrow> adv m i; r \<leftarrow> mem_write r xs; Some (take i m @ r) }"

text \<open>\<open>sin_port\<close> and \<open>sin6_port\<close> are at the same place; the port is truncated to 16 bits.\<close>

definition set_port :: "sockaddr \<Rightarrow> 32 word \<Rightarrow> sockaddr option" where
  "set_port sa port = (let p = (ucast port :: u16) in wr_at sa 2 [be16_hi p, be16_lo p])"

definition family_bytes :: "u16 \<Rightarrow> bytes" where
  "family_bytes fam = [be16_lo fam, be16_hi fam]"

text \<open>A path must leave room for its zero in the 108 bytes of \<open>sun_path\<close>; otherwise \<open>RESET\<close>.\<close>

definition unix_addr :: "bytes \<Rightarrow> bytes option option" where
  "unix_addr path = do {
     n \<leftarrow> c_strlen path;
     if n \<ge> 108 then Some None
     else do { p \<leftarrow> rd_bytes path (n + 1); Some (Some (family_bytes AF_UNIX @ p)) }
   }"

text \<open>
  The address that \<open>bind\<close> and \<open>sendto\<close> get: laid out for the family of the socket, with the address
  part copied from the place where that family has it.
\<close>

definition place_addr :: "u16 \<Rightarrow> sockaddr option \<Rightarrow> u16 \<Rightarrow> sockaddr option" where
  "place_addr fam addr port =
     (let sz = (if fam = AF_INET then 16 else 28); off = (if fam = AF_INET then 4 else 8);
          len = (if fam = AF_INET then 4 else 16 :: nat);
          m = family_bytes fam @ [be16_hi port, be16_lo port] @ replicate (sz - 4) 0
      in case addr of None \<Rightarrow> Some m | Some a \<Rightarrow> do { x \<leftarrow> rd_at a off len; wr_at m off x })"

definition socket_bind_inet ::
    "'k net_api \<Rightarrow> int \<Rightarrow> sockaddr option \<Rightarrow> u16 \<Rightarrow> 'k net_state \<Rightarrow> (int \<times> 'k net_state) option" where
  "socket_bind_inet api sock addr port st = do {
     let (addr_family, st) = socket_get_addr_family api sock st;
     bind_addr \<leftarrow> (if addr_family = AF_INET \<or> addr_family = AF_INET6
                  then place_addr addr_family addr port else Some []);
     Some (kernel (k_bind api sock bind_addr) st)
   }"

definition socket_sendto ::
    "'k net_api \<Rightarrow> int \<Rightarrow> sockaddr \<Rightarrow> u16 \<Rightarrow> bytes \<Rightarrow> nat \<Rightarrow> 'k net_state \<Rightarrow> (int \<times> 'k net_state) option" where
  "socket_sendto api sock addr port data len st = do {
     let (addr_family, st) = socket_get_addr_family api sock st;
     dest_addr \<leftarrow> (if addr_family = AF_INET \<or> addr_family = AF_INET6
                  then place_addr addr_family (Some addr) port else Some []);
     xs \<leftarrow> rd_bytes data len;
     Some (kernel (k_sendto api sock xs dest_addr) st)
   }"

subsection \<open>Connecting\<close>

text \<open>The loop over the results of \<open>getaddrinfo\<close>, with the variables \<open>ret\<close> and \<open>sock\<close>.\<close>

fun connect_loop ::
    "'k net_api \<Rightarrow> 32 word \<Rightarrow> (u16 \<times> sockaddr) list \<Rightarrow> int \<Rightarrow> int \<Rightarrow> 'k net_state \<Rightarrow> (int \<times> int \<times> 'k net_state) option" where
  "connect_loop api port [] ret sock st = Some (ret, sock, st)"
| "connect_loop api port ((fam, sockaddr) # res) ret sock st =
     (if fam = AF_INET \<or> fam = AF_INET6 then do {
        sockaddr \<leftarrow> set_port sockaddr port;
        (sock, st) \<leftarrow> socket_open api fam SOCK_STREAM st;
        a \<leftarrow> rd_bytes sockaddr (if fam = AF_INET then 16 else 28);
        let (ret, st) = kernel (k_connect api sock a) st;
        if ret = 0 then Some (ret, sock, st)
        else let (sock, st) = socket_close api sock st in connect_loop api port res ret sock st
      }
      else connect_loop api port res (-1) sock st)"

definition socket_connect_inet ::
    "'k net_api \<Rightarrow> u16 \<Rightarrow> bytes \<Rightarrow> 32 word \<Rightarrow> 'k net_state \<Rightarrow> (int \<times> 'k net_state) option" where
  "socket_connect_inet api sock_family addr port st = do {
     let ((ret, res), st) = kernel (k_getaddrinfo api addr sock_family) st;
     if ret \<noteq> 0 then Some (-1, st)
     else do {
       (ret, sock, st) \<leftarrow> connect_loop api port res ret (-1) st;
       Some (if ret = -1 then -1 else sock, st)
     }
   }"

definition socket_connect_unix ::
    "'k net_api \<Rightarrow> bytes \<Rightarrow> 'k net_state \<Rightarrow> (int \<times> 'k net_state) option" where
  "socket_connect_unix api path st = do {
     a \<leftarrow> unix_addr path;
     case a of
       None \<Rightarrow> if k_reset_returns api then Some (-1, st) else None
     | Some saddr \<Rightarrow> do {
         (sock, st) \<leftarrow> socket_open api AF_UNIX SOCK_STREAM st;
         let (ret, st) = kernel (k_connect api sock saddr) st;
         Some (if ret = 0 then (sock, st) else socket_close api sock st)
       }
   }"

subsection \<open>Listening\<close>

fun listen_loop ::
    "'k net_api \<Rightarrow> bool \<Rightarrow> u16 \<Rightarrow> (u16 \<times> sockaddr) list \<Rightarrow> int \<Rightarrow> int \<Rightarrow> 'k net_state \<Rightarrow> (int \<times> int \<times> 'k net_state) option" where
  "listen_loop api create_socket port [] ret sock st = Some (ret, sock, st)"
| "listen_loop api create_socket port ((fam, sockaddr) # res) ret sock st =
     (if fam \<noteq> AF_INET \<and> fam \<noteq> AF_INET6 then listen_loop api create_socket port res (-1) sock st
      else do {
        (sock, st) \<leftarrow> (if create_socket \<and> \<not> socket_is_valid sock
                      then socket_open api fam SOCK_STREAM st else Some (sock, st));
        (ret, st) \<leftarrow> socket_bind_inet api sock (Some sockaddr) port st;
        if ret = 0 then Some (ret, sock, st)
        else let (sock, st) = (if create_socket then socket_close api sock st else (sock, st))
             in listen_loop api create_socket port res ret sock st
      })"

text \<open>The address family of the search: none for a given socket, the socket's for an invalid one.\<close>

definition socket_listen_inet ::
    "'k net_api \<Rightarrow> int \<Rightarrow> bytes \<Rightarrow> 32 word \<Rightarrow> 'k net_state \<Rightarrow> (int \<times> 'k net_state) option" where
  "socket_listen_inet api sock addr port st = do {
     let create_socket = (\<not> socket_is_valid sock);
     let (fam, st) = (if socket_is_valid sock then (AF_UNSPEC, st) else socket_get_addr_family api sock st);
     let ((ret, res), st) = kernel (k_getaddrinfo api addr fam) st;
     if ret \<noteq> 0 then Some (ret, st)
     else do {
       (ret, sock, st) \<leftarrow> listen_loop api create_socket (ucast port) res ret sock st;
       if ret = -1 then Some (ret, st)
       else let (ret, st) = kernel (k_listen api sock 5) st
            in if ret = -1 then Some (ret, st) else Some (sock, st)
     }
   }"

definition socket_listen_unix ::
    "'k net_api \<Rightarrow> int \<Rightarrow> bytes \<Rightarrow> 'k net_state \<Rightarrow> (int \<times> 'k net_state) option" where
  "socket_listen_unix api sock path st = do {
     let create_socket = (\<not> socket_is_valid sock);
     a \<leftarrow> unix_addr path;
     case a of
       None \<Rightarrow> if k_reset_returns api then Some (-1, st) else None
     | Some saddr \<Rightarrow> do {
         (sock, st) \<leftarrow> (if create_socket then socket_open api AF_UNIX SOCK_STREAM st else Some (sock, st));
         let (ret, st) = kernel (k_bind api sock saddr) st;
         let (ret, st) = (if ret = -1 then (ret, st) else kernel (k_listen api sock 5) st);
         if ret \<noteq> -1 then Some (sock, st)
         else Some (-1, if create_socket then snd (socket_close api sock st) else st)
       }
   }"

definition socket_listen ::
    "'k net_api \<Rightarrow> bytes \<Rightarrow> 32 word \<Rightarrow> 'k net_state \<Rightarrow> (int \<times> 'k net_state) option" where
  "socket_listen api addr port st =
     (if port = 0 then socket_listen_unix api SOCKET_INVALID addr st
      else socket_listen_inet api SOCKET_INVALID addr port st)"

subsection \<open>No socket is lost\<close>

text \<open>What the manual pages say: \<open>socket\<close> gives a descriptor or -1, connecting -1 fails.\<close>

definition kernel_ok :: "'k net_api \<Rightarrow> bool" where
  "kernel_ok api \<longleftrightarrow> (\<forall>fam type k. -1 \<le> fst (k_socket api fam type k)) \<and>
     (\<forall>a k. fst (k_connect api (-1) a k) \<noteq> 0)"

lemma ns_open_kernel: "kernel f st = (x, st') \<Longrightarrow> ns_open st' = ns_open st"
  by (auto simp: kernel_def Let_def split: prod.splits)

lemma socket_open_cases:
  assumes "kernel_ok api" and "socket_open api fam type st = Some (sock, st')"
  shows "sock = -1 \<and> ns_open st' = ns_open st \<or> 0 \<le> sock \<and> ns_open st' = sock # ns_open st"
proof -
  obtain k where "k_socket api fam type (ns_kernel st) = (sock, k)"
    using assms(2) by (auto simp: socket_open_def kernel_def Let_def split: prod.splits if_splits)
  then have "-1 \<le> sock"
    using assms(1) by (metis fst_conv kernel_ok_def)
  then show ?thesis
    using assms(2) by (auto simp: socket_open_def kernel_def Let_def SOCKET_INVALID_def split: prod.splits if_splits)
qed

lemma connect_loop_accounts:
  assumes "kernel_ok api" and "-1 \<notin> set (ns_open st)" and "connect_loop api port res ret (-1) st = Some (r, s, st')"
  shows "0 \<le> s \<and> r = 0 \<and> ns_open st' = s # ns_open st \<or> s = -1 \<and> ns_open st' = ns_open st"
  using assms(2,3)
proof (induction res arbitrary: ret st)
  case (Cons x res)
  obtain fam sa where x: "x = (fam, sa)" by fastforce
  show ?case
  proof (cases "fam = AF_INET \<or> fam = AF_INET6")
    case False
    then show ?thesis using Cons x by simp
  next
    case True
    obtain sa' sock st1 a where 1: "set_port sa port = Some sa'" "socket_open api fam SOCK_STREAM st = Some (sock, st1)"
        "rd_bytes sa' (if fam = AF_INET then 16 else 28) = Some a"
      using Cons.prems(2) True by (auto simp: x split: Option.bind_splits if_splits)
    obtain c st2 where 2: "kernel (k_connect api sock a) st1 = (c, st2)" by fastforce
    have o: "sock = -1 \<and> ns_open st2 = ns_open st \<or> 0 \<le> sock \<and> ns_open st2 = sock # ns_open st"
      using socket_open_cases [OF assms(1) 1(2)] ns_open_kernel [OF 2] by simp
    show ?thesis
    proof (cases "c = 0")
      case True
      then have "sock \<noteq> -1"
        using 2 assms(1) by (auto simp: kernel_ok_def kernel_def Let_def split: prod.splits) (metis fst_conv)
      moreover have "connect_loop api port (x # res) ret (-1) st = Some (0, sock, st2)"
        using 1 2 True \<open>fam = AF_INET \<or> fam = AF_INET6\<close> by (auto simp: x)
      ultimately show ?thesis using o Cons.prems(2) by auto
    next
      case False
      let ?st = "snd (socket_close api sock st2)"
      have op: "ns_open ?st = ns_open st"
        using o Cons.prems(1) by (auto simp: socket_close_def remove1_idem)
      have "connect_loop api port res c (-1) ?st = Some (r, s, st')"
        using 1 2 False True Cons.prems(2) by (auto simp: x socket_close_def SOCKET_INVALID_def)
      then show ?thesis
        using Cons.IH [of ?st c] op Cons.prems(1) by simp
    qed
  qed
qed simp

text \<open>C23. Connecting leaves no socket behind, whatever the kernel and the resolver answer: it returns
  either -1 and every socket that was created on the way has been closed again, or a valid
  descriptor, which is then the only socket that is open beyond those that were before.\<close>

theorem socket_connect_accounts:
  assumes "kernel_ok api" and "-1 \<notin> set (ns_open st)"
    and "socket_connect_inet api fam addr port st = Some (ret, st')"
  shows "ret = -1 \<and> ns_open st' = ns_open st \<or> 0 \<le> ret \<and> ns_open st' = ret # ns_open st"
proof -
  obtain g res st1 where g: "kernel (k_getaddrinfo api addr fam) st = ((g, res), st1)" by (metis surj_pair)
  show ?thesis
  proof (cases "g = 0")
    case False
    then show ?thesis using assms(3) g ns_open_kernel [OF g] by (simp add: socket_connect_inet_def)
  next
    case True
    then obtain r s where l: "connect_loop api port res 0 (-1) st1 = Some (r, s, st')" "ret = (if r = -1 then -1 else s)"
      using assms(3) g by (auto simp: socket_connect_inet_def split: Option.bind_splits)
    show ?thesis
      using connect_loop_accounts [OF assms(1) _ l(1)] assms(2) l(2) ns_open_kernel [OF g] by auto
  qed
qed

text \<open>C26. A socket that is given to \<open>socket_listen_inet\<close> is bound with addresses of the wrong family: the
  search for addresses is restricted to the family of the socket only when there is no valid socket.
  When the socket is an IPv6 one and the first result is an IPv4 address, the address is read beyond
  its end, whatever else the kernel does.
\<close>

theorem socket_listen_family_mixup:
  assumes "socket_is_valid sock"
    and "k_getaddrinfo api addr AF_UNSPEC (ns_kernel st) = ((0, (AF_INET, sa) # res), k)" and "length sa = 16"
    and "fst (k_so_domain api sock k) = Some AF_INET6"
  shows "socket_listen_inet api sock addr port st = None"
proof -
  have ne: "AF_INET6 \<noteq> AF_INET" by (simp add: AF_INET_def AF_INET6_def)
  have "place_addr AF_INET6 (Some sa) p = None" for p
    using assms(3) ne by (simp add: place_addr_def rd_at_def adv_def rd_bytes_def)
  moreover obtain k2 where "k_so_domain api sock k = (Some AF_INET6, k2)"
    using assms(4) by (metis prod.collapse)
  ultimately have "socket_bind_inet api sock (Some sa) p (st\<lparr>ns_kernel := k\<rparr>) = None" for p
    using ne by (simp add: socket_bind_inet_def socket_get_addr_family_def kernel_def Let_def)
  then show ?thesis
    using assms(1,2) by (simp add: socket_listen_inet_def kernel_def)
qed

text \<open>When listening fails, the socket that was created for it stays open and unknown to the caller.\<close>

lemma socket_listen_leaks:
  assumes "k_getaddrinfo api addr 0 k = ((0, [(AF_INET, sa)]), k)" and "length sa = 16"
    and "\<And>s. k_so_domain api s k = (if s = 4 then Some AF_INET else None, k)"
    and "\<And>fam t. k_socket api fam t k = (4, k)" and "\<And>a. k_bind api 4 a k = (0, k)" and "k_listen api 4 5 k = (-1, k)"
  shows "socket_listen_inet api (-1) addr port \<lparr>ns_kernel = k, ns_open = []\<rparr> =
    Some (-1, \<lparr>ns_kernel = k, ns_open = [4]\<rparr>)"
proof -
  have "\<exists>a. place_addr AF_INET (Some sa) p = Some a" for p
    using assms(2) by (simp add: place_addr_def rd_at_def adv_def rd_bytes_def wr_at_def mem_write_def family_bytes_def)
  then obtain f where f: "place_addr AF_INET (Some sa) p = Some (f p)" for p by metis
  show ?thesis
    by (simp add: socket_listen_inet_def socket_is_valid_def socket_get_addr_family_def kernel_def assms socket_open_def
        SOCKET_INVALID_def socket_bind_inet_def f Let_def)
qed

subsection \<open>A small kernel\<close>

text \<open>Descriptors count up; only the IPv6 address of the two that are found can be connected.\<close>

definition demo_api :: "int net_api" where
  "demo_api = \<lparr>k_socket = \<lambda>fam t k. (max 0 k, k + 1), k_close = \<lambda>s k. k,
     k_connect = \<lambda>s a k. (if s \<ge> 0 \<and> length a = 28 then 0 else -1, k), k_bind = \<lambda>s a k. (0, k), k_listen = \<lambda>s n k. (0, k),
     k_getaddrinfo = \<lambda>a fam k. ((0, [(AF_INET, replicate 16 0), (AF_INET6, replicate 28 0)]), k),
     k_so_domain = \<lambda>s k. (Some AF_INET6, k), k_setsockopt = \<lambda>s v k. (0, k), k_fcntl = \<lambda>s c k. (0, k),
     k_sendto = \<lambda>s d a k. (int (length d), k), k_reset_returns = False\<rparr>"

lemma demo_kernel_ok: "kernel_ok demo_api"
  by (auto simp: kernel_ok_def demo_api_def max_def)

lemma families_differ: "AF_INET6 \<noteq> AF_INET"
  by (simp add: AF_INET_def AF_INET6_def)

lemma demo_connect:
  "socket_connect_inet demo_api AF_UNSPEC [0] 80 \<lparr>ns_kernel = 3, ns_open = []\<rparr> = Some (4, \<lparr>ns_kernel = 5, ns_open = [4]\<rparr>)"
  by (simp add: socket_connect_inet_def demo_api_def kernel_def socket_open_def socket_close_def SOCKET_INVALID_def
      set_port_def wr_at_def adv_def mem_write_def rd_bytes_def families_differ Let_def)

theorem socket_connect_accounts_witness:
  "\<exists>ret st'. socket_connect_inet demo_api AF_UNSPEC [0] 80 \<lparr>ns_kernel = 3, ns_open = []\<rparr> = Some (ret, st') \<and>
     (ret = -1 \<and> ns_open st' = [] \<or> 0 \<le> ret \<and> ns_open st' = [ret])"
  using socket_connect_accounts [OF demo_kernel_ok _ demo_connect] demo_connect by auto

theorem socket_listen_family_mixup_witness:
  "socket_listen_inet demo_api 7 [0] 80 \<lparr>ns_kernel = 3, ns_open = []\<rparr> = None"
  by (rule socket_listen_family_mixup [of 7 demo_api "[0]" "\<lparr>ns_kernel = 3, ns_open = []\<rparr>" "replicate 16 0" _ 3])
    (simp_all add: socket_is_valid_def demo_api_def)

end
