(* ===== verification/Json.thy ===== *)
theory Json
  imports Cstring
begin

section \<open>Comparing JSON values (source/json.c)\<close>

text \<open>
  The library json-c is a parameter: a record of its access functions on an abstract type of objects
  (null pointers included, which json-c takes for JSON's null). The comparison walks over
  objects through these functions only; each loop of the C code is a task of one recursive function,
  which ends or not depending on what the library says. \<open>json_lib_ok\<close> states the documented
  behaviour of the library by the value each object stands for. Reference counting is not modelled.
\<close>

datatype json_type = json_type_null | json_type_boolean | json_type_double | json_type_int
  | json_type_object | json_type_array | json_type_string

record ('j, 'f) json_lib =
  json_object_get_type :: "'j \<Rightarrow> json_type"
  json_object_get_boolean :: "'j \<Rightarrow> bool"
  json_object_get_int :: "'j \<Rightarrow> int"
  json_object_get_double :: "'j \<Rightarrow> 'f"
  json_object_get_string :: "'j \<Rightarrow> bytes"
  json_object_get_string_len :: "'j \<Rightarrow> int"
  json_object_array_length :: "'j \<Rightarrow> nat"
  json_object_array_get_idx :: "'j \<Rightarrow> nat \<Rightarrow> 'j"
  json_object_object_length :: "'j \<Rightarrow> nat"
  json_object_object_entries :: "'j \<Rightarrow> (bytes \<times> 'j) list"
  json_object_object_get_ex :: "'j \<Rightarrow> bytes \<Rightarrow> 'j option"
  double_eq :: "'f \<Rightarrow> 'f \<Rightarrow> bool"

definition JSON_COMPARE_FLAG_STRICT_OBJECTS :: "32 word" where "JSON_COMPARE_FLAG_STRICT_OBJECTS = push_bit 0 1"
definition JSON_COMPARE_FLAG_STRICT_ARRAYS :: "32 word" where "JSON_COMPARE_FLAG_STRICT_ARRAYS = push_bit 1 1"

text \<open>\<open>type\<close> is \<^const>\<open>None\<close> for \<open>json_type_any\<close>.\<close>

definition json_get :: "('j, 'f) json_lib \<Rightarrow> 'j \<Rightarrow> bytes \<Rightarrow> json_type option \<Rightarrow> 'j option" where
  "json_get lib obj name type =
     (case json_object_object_get_ex lib obj name of
        None \<Rightarrow> None
      | Some ret \<Rightarrow> (case type of
          None \<Rightarrow> Some ret
        | Some t \<Rightarrow> if json_object_get_type lib ret \<noteq> t then None else Some ret))"

text \<open>The same with a message: the key that was not found, or the field of a wrong type.\<close>

datatype json_error = Key_not_found bytes | Wrong_type bytes

definition json_get_verbose ::
    "('j, 'f) json_lib \<Rightarrow> 'j \<Rightarrow> bytes \<Rightarrow> json_type option \<Rightarrow> json_error + 'j" where
  "json_get_verbose lib obj name type =
     (case json_object_object_get_ex lib obj name of
        None \<Rightarrow> Inl (Key_not_found name)
      | Some ret \<Rightarrow> (case type of
          None \<Rightarrow> Inr ret
        | Some t \<Rightarrow> if json_object_get_type lib ret \<noteq> t then Inl (Wrong_type name) else Inr ret))"

definition json_compare_string :: "('j, 'f) json_lib \<Rightarrow> 'j \<Rightarrow> 'j \<Rightarrow> bool option" where
  "json_compare_string lib obj pattern =
     (if json_object_get_string_len lib pattern \<noteq> json_object_get_string_len lib obj then Some False
      else c_streq (\<lambda>c. c) (json_object_get_string lib pattern) (json_object_get_string lib obj))"

subsection \<open>The comparison\<close>

text \<open>
  The calls and loops still to do: a comparison, the strict loop over two arrays from an index on, the
  loop over the patterns of an array and the search for one of them, and the loop over the entries
  of a pattern object.
\<close>

datatype 'j task = Compare 'j 'j | Array_strict 'j 'j nat | Array_any 'j 'j nat | Array_find 'j 'j nat nat
  | Object_entries 'j "(bytes \<times> 'j) list"

partial_function (option) json_run ::
    "('j, 'f) json_lib \<Rightarrow> bool \<Rightarrow> bool \<Rightarrow> 'j task \<Rightarrow> bool option" where
  "json_run lib strict_objects strict_arrays task = (case task of
     Compare obj pattern \<Rightarrow>
       if json_object_get_type lib pattern \<noteq> json_object_get_type lib obj then Some False
       else (case json_object_get_type lib pattern of
           json_type_object \<Rightarrow>
             if strict_objects \<and> json_object_object_length lib obj \<noteq> json_object_object_length lib pattern
             then Some False
             else do {
               b \<leftarrow> json_run lib strict_objects strict_arrays
                     (Object_entries obj (json_object_object_entries lib pattern));
               if \<not> b then Some False
               else Some (strict_objects \<longrightarrow>
                 list_all (\<lambda>(key, _). json_object_object_get_ex lib pattern key \<noteq> None)
                   (json_object_object_entries lib obj))
             }
         | json_type_array \<Rightarrow>
             if strict_arrays
             then (if json_object_array_length lib obj \<noteq> json_object_array_length lib pattern then Some False
                   else json_run lib strict_objects strict_arrays (Array_strict obj pattern 0))
             else json_run lib strict_objects strict_arrays (Array_any obj pattern 0)
         | json_type_string \<Rightarrow> json_compare_string lib obj pattern
         | json_type_boolean \<Rightarrow> Some (json_object_get_boolean lib obj = json_object_get_boolean lib pattern)
         | json_type_int \<Rightarrow> Some (json_object_get_int lib obj = json_object_get_int lib pattern)
         | json_type_double \<Rightarrow> Some (double_eq lib (json_object_get_double lib obj) (json_object_get_double lib pattern))
         | json_type_null \<Rightarrow> Some True)
   | Array_strict obj pattern idx \<Rightarrow>
       if idx < json_object_array_length lib pattern then do {
         b \<leftarrow> json_run lib strict_objects strict_arrays
               (Compare (json_object_array_get_idx lib obj idx) (json_object_array_get_idx lib pattern idx));
         if \<not> b then Some False
         else json_run lib strict_objects strict_arrays (Array_strict obj pattern (idx + 1))
       }
       else Some True
   | Array_any obj pattern pat_idx \<Rightarrow>
       if pat_idx < json_object_array_length lib pattern then do {
         found \<leftarrow> json_run lib strict_objects strict_arrays (Array_find obj pattern pat_idx 0);
         if \<not> found then Some False
         else json_run lib strict_objects strict_arrays (Array_any obj pattern (pat_idx + 1))
       }
       else Some True
   | Array_find obj pattern pat_idx obj_idx \<Rightarrow>
       if obj_idx < json_object_array_length lib obj then do {
         b \<leftarrow> json_run lib strict_objects strict_arrays
               (Compare (json_object_array_get_idx lib obj obj_idx) (json_object_array_get_idx lib pattern pat_idx));
         if b then Some True
         else json_run lib strict_objects strict_arrays (Array_find obj pattern pat_idx (obj_idx + 1))
       }
       else Some False
   | Object_entries obj entries \<Rightarrow>
       (case entries of
          [] \<Rightarrow> Some True
        | e # rest \<Rightarrow>
            (case json_object_object_get_ex lib obj (fst e) of
               None \<Rightarrow> Some False
             | Some objval \<Rightarrow> do {
                 b \<leftarrow> json_run lib strict_objects strict_arrays (Compare objval (snd e));
                 if \<not> b then Some False
                 else json_run lib strict_objects strict_arrays (Object_entries obj rest)
               })))"

definition json_compare :: "('j, 'f) json_lib \<Rightarrow> 'j \<Rightarrow> 'j \<Rightarrow> 32 word \<Rightarrow> bool option" where
  "json_compare lib obj pattern flags =
     json_run lib (flags AND JSON_COMPARE_FLAG_STRICT_OBJECTS \<noteq> 0) (flags AND JSON_COMPARE_FLAG_STRICT_ARRAYS \<noteq> 0)
       (Compare obj pattern)"

subsection \<open>Values\<close>

datatype 'f jval = JNull | JBool bool | JInt int | JDouble 'f | JString bytes
  | JArray "'f jval list" | JObject "(bytes \<times> 'f jval) list"

fun jtype :: "'f jval \<Rightarrow> json_type" where
  "jtype JNull = json_type_null" | "jtype (JBool _) = json_type_boolean" | "jtype (JInt _) = json_type_int"
| "jtype (JDouble _) = json_type_double" | "jtype (JString _) = json_type_string"
| "jtype (JArray _) = json_type_array" | "jtype (JObject _) = json_type_object"

text \<open>\<open>json_object_get_int\<close> is the 32-bit reader: values out of range are moved to its limits.\<close>

definition sat32 :: "int \<Rightarrow> int" where
  "sat32 i = max (- (2 ^ 31)) (min (2 ^ 31 - 1) i)"

text \<open>What the documentation of json-c says, for objects that stand for the values \<open>val\<close>.\<close>

definition json_lib_ok :: "('j, 'f) json_lib \<Rightarrow> ('j \<Rightarrow> 'f jval) \<Rightarrow> bool" where
  "json_lib_ok lib val \<longleftrightarrow> (\<forall>j. json_object_get_type lib j = jtype (val j) \<and>
     (\<forall>b. val j = JBool b \<longrightarrow> json_object_get_boolean lib j = b) \<and>
     (\<forall>i. val j = JInt i \<longrightarrow> json_object_get_int lib j = sat32 i) \<and>
     (\<forall>x. val j = JDouble x \<longrightarrow> json_object_get_double lib j = x) \<and>
     (\<forall>s. val j = JString s \<longrightarrow> json_object_get_string lib j = s @ [0] \<and> json_object_get_string_len lib j = int (length s)) \<and>
     (\<forall>vs. val j = JArray vs \<longrightarrow> json_object_array_length lib j = length vs \<and>
        (\<forall>i < length vs. val (json_object_array_get_idx lib j i) = vs ! i)) \<and>
     (\<forall>kvs. val j = JObject kvs \<longrightarrow> json_object_object_length lib j = length kvs \<and>
        map (\<lambda>(k, v). (k, val v)) (json_object_object_entries lib j) = kvs \<and>
        (\<forall>k. map_option val (json_object_object_get_ex lib j k) = map_of kvs k)))"

subsection \<open>What the comparison decides\<close>

text \<open>
  Every value of the pattern has to be matched by the object. Numbers are compared after the 32-bit
  reader, strings by length and then up to their first zero byte, arrays element by element (strict)
  or each element of the pattern by some element of the object, objects by the keys of the pattern.
\<close>

lemma size_array_element: "p \<in> set ps \<Longrightarrow> size p < size (JArray ps)"
  by (induction ps) auto

lemma size_object_entry: "(k, p) \<in> set ps \<Longrightarrow> size p < size (JObject ps)"
  by (induction ps) auto

function jmatches :: "('f \<Rightarrow> 'f \<Rightarrow> bool) \<Rightarrow> bool \<Rightarrow> bool \<Rightarrow> 'f jval \<Rightarrow> 'f jval \<Rightarrow> bool" where
  "jmatches deq so sa v p = (case (v, p) of
      (JNull, JNull) \<Rightarrow> True
    | (JBool a, JBool b) \<Rightarrow> a = b
    | (JInt a, JInt b) \<Rightarrow> sat32 a = sat32 b
    | (JDouble a, JDouble b) \<Rightarrow> deq a b
    | (JString a, JString b) \<Rightarrow> length a = length b \<and> takeWhile (\<lambda>c. c \<noteq> 0) a = takeWhile (\<lambda>c. c \<noteq> 0) b
    | (JArray vs, JArray ps) \<Rightarrow>
        if sa then length vs = length ps \<and> (\<forall>(v, p) \<in> set (zip vs ps). jmatches deq so sa v p)
        else (\<forall>p \<in> set ps. \<exists>v \<in> set vs. jmatches deq so sa v p)
    | (JObject kvs, JObject pats) \<Rightarrow>
        (so \<longrightarrow> length kvs = length pats) \<and>
        (\<forall>(k, p) \<in> set pats. case map_of kvs k of None \<Rightarrow> False | Some v \<Rightarrow> jmatches deq so sa v p) \<and>
        (so \<longrightarrow> (\<forall>k \<in> fst ` set kvs. map_of pats k \<noteq> None))
    | _ \<Rightarrow> False)"
  by pat_completeness auto

termination
  by (relation "measure (\<lambda>(_, _, _, _, p). size p)")
     (auto dest: set_zip_rightD intro: size_array_element size_object_entry simp del: jval.size)

declare jmatches.simps [simp del]

lemma jmatches_array:
  "jmatches deq so sa (JArray vs) (JArray ps) =
     (if sa then length vs = length ps \<and> (\<forall>(v, p) \<in> set (zip vs ps). jmatches deq so sa v p)
      else (\<forall>p \<in> set ps. \<exists>v \<in> set vs. jmatches deq so sa v p))"
  by (subst jmatches.simps) simp

lemma jmatches_object:
  "jmatches deq so sa (JObject kvs) (JObject pats) =
     ((so \<longrightarrow> length kvs = length pats) \<and>
      (\<forall>(k, p) \<in> set pats. case map_of kvs k of None \<Rightarrow> False | Some v \<Rightarrow> jmatches deq so sa v p) \<and>
      (so \<longrightarrow> (\<forall>k \<in> fst ` set kvs. map_of pats k \<noteq> None)))"
  by (subst jmatches.simps) simp

lemma jmatches_int: "jmatches deq so sa (JInt a) (JInt b) = (sat32 a = sat32 b)"
  by (subst jmatches.simps) simp

lemma jmatches_types: "jtype v \<noteq> jtype p \<Longrightarrow> \<not> jmatches deq so sa v p"
  by (subst jmatches.simps) (cases v; cases p; simp)

lemma c_streq_strings:
  "c_streq (\<lambda>c. c) (s @ [0]) (t @ [0]) = Some (takeWhile (\<lambda>c. c \<noteq> 0) s = takeWhile (\<lambda>c. c \<noteq> 0) t)"
proof (induction s arbitrary: t)
  case Nil
  then show ?case by (cases t) auto
next
  case (Cons x s)
  then show ?case by (cases t) auto
qed

text \<open>One step of each loop.\<close>

lemmas json_run_Compare = json_run.simps [where task = "Compare obj pattern" for obj pattern, simplified]
lemmas json_run_strict = json_run.simps [where task = "Array_strict obj pattern idx" for obj pattern idx, simplified]
lemmas json_run_any = json_run.simps [where task = "Array_any obj pattern idx" for obj pattern idx, simplified]
lemmas json_run_find = json_run.simps [where task = "Array_find obj pattern pidx idx" for obj pattern pidx idx, simplified]
lemmas json_run_entries = json_run.simps [where task = "Object_entries obj entries" for obj entries, simplified]

text \<open>
  What each loop answers once the comparisons it makes are known: \<open>m i j\<close> stands for the answer on
  the elements \<open>i\<close> of the object and \<open>j\<close> of the pattern.
\<close>

lemma range_all_step: "i < n \<Longrightarrow> (\<forall>k. i \<le> k \<and> k < n \<longrightarrow> P k) = (P i \<and> (\<forall>k. Suc i \<le> k \<and> k < n \<longrightarrow> P k))"
  by (metis Suc_leI Suc_leD le_eq_less_or_eq)

lemma range_ex_step: "i < n \<Longrightarrow> (\<exists>k. i \<le> k \<and> k < n \<and> P k) = (P i \<or> (\<exists>k. Suc i \<le> k \<and> k < n \<and> P k))"
  by (metis Suc_leI Suc_leD le_eq_less_or_eq)

lemma json_strict_loop:
  assumes "\<And>k. k < json_object_array_length lib pattern \<Longrightarrow>
      json_run lib so sa (Compare (json_object_array_get_idx lib obj k) (json_object_array_get_idx lib pattern k)) = Some (m k)"
  shows "json_run lib so sa (Array_strict obj pattern idx) =
      Some (\<forall>k. idx \<le> k \<and> k < json_object_array_length lib pattern \<longrightarrow> m k)"
proof (induction "json_object_array_length lib pattern - idx" arbitrary: idx)
  case 0
  then show ?case by (subst json_run_strict) auto
next
  case (Suc n)
  then have "idx < json_object_array_length lib pattern" "n = json_object_array_length lib pattern - Suc idx"
    by auto
  with Suc.hyps(1) [of "Suc idx"] assms [of idx] show ?case
    by (subst json_run_strict) (simp add: range_all_step)
qed

lemma json_find_loop:
  assumes "\<And>k. k < json_object_array_length lib obj \<Longrightarrow>
      json_run lib so sa (Compare (json_object_array_get_idx lib obj k) (json_object_array_get_idx lib pattern pidx)) = Some (m k)"
  shows "json_run lib so sa (Array_find obj pattern pidx idx) =
      Some (\<exists>k. idx \<le> k \<and> k < json_object_array_length lib obj \<and> m k)"
proof (induction "json_object_array_length lib obj - idx" arbitrary: idx)
  case 0
  then show ?case by (subst json_run_find) auto
next
  case (Suc n)
  then have "idx < json_object_array_length lib obj" "n = json_object_array_length lib obj - Suc idx"
    by auto
  with Suc.hyps(1) [of "Suc idx"] assms [of idx] show ?case
    by (subst json_run_find) (simp add: range_ex_step)
qed

lemma json_any_loop:
  assumes "\<And>k j. k < json_object_array_length lib pattern \<Longrightarrow> j < json_object_array_length lib obj \<Longrightarrow>
      json_run lib so sa (Compare (json_object_array_get_idx lib obj j) (json_object_array_get_idx lib pattern k)) = Some (m k j)"
  shows "json_run lib so sa (Array_any obj pattern idx) =
      Some (\<forall>k. idx \<le> k \<and> k < json_object_array_length lib pattern \<longrightarrow>
        (\<exists>j < json_object_array_length lib obj. m k j))"
proof (induction "json_object_array_length lib pattern - idx" arbitrary: idx)
  case 0
  then show ?case by (subst json_run_any) auto
next
  case (Suc n)
  then have i: "idx < json_object_array_length lib pattern" "n = json_object_array_length lib pattern - Suc idx"
    by auto
  have "json_run lib so sa (Array_find obj pattern idx 0) = Some (\<exists>j < json_object_array_length lib obj. m idx j)"
    using json_find_loop [of lib obj so sa pattern idx "m idx" 0] assms [OF i(1)] by simp
  with Suc.hyps(1) [OF i(2)] i show ?case
    by (subst json_run_any) (simp add: range_all_step)
qed

lemma json_entries_loop:
  assumes "\<And>k q v. (k, q) \<in> set es \<Longrightarrow> json_object_object_get_ex lib obj k = Some v \<Longrightarrow>
      json_run lib so sa (Compare v q) = Some (m v q)"
  shows "json_run lib so sa (Object_entries obj es) =
      Some (\<forall>(k, q) \<in> set es. case json_object_object_get_ex lib obj k of None \<Rightarrow> False | Some v \<Rightarrow> m v q)"
  using assms
proof (induction es)
  case Nil
  then show ?case by (simp add: json_run_entries)
next
  case (Cons e es)
  obtain k q where e: "e = (k, q)" by (cases e)
  have "json_run lib so sa (Object_entries obj es) =
      Some (\<forall>(k, q) \<in> set es. case json_object_object_get_ex lib obj k of None \<Rightarrow> False | Some v \<Rightarrow> m v q)"
    by (rule Cons.IH) (auto intro: Cons.prems)
  with Cons.prems [of k q] show ?case
    by (subst json_run_entries) (auto simp: e split: option.splits)
qed

lemma json_lib_type: "json_lib_ok lib val \<Longrightarrow> json_object_get_type lib j = jtype (val j)"
  by (simp add: json_lib_ok_def)

lemma json_lib_scalars:
  assumes "json_lib_ok lib val"
  shows "val j = JBool b \<Longrightarrow> json_object_get_boolean lib j = b"
    and "val j = JInt i \<Longrightarrow> json_object_get_int lib j = sat32 i"
    and "val j = JDouble x \<Longrightarrow> json_object_get_double lib j = x"
    and "val j = JString s \<Longrightarrow> json_object_get_string lib j = s @ [0]"
    and "val j = JString s \<Longrightarrow> json_object_get_string_len lib j = int (length s)"
  using assms by (simp_all add: json_lib_ok_def)

lemma json_lib_array:
  assumes "json_lib_ok lib val" "val j = JArray vs"
  shows "json_object_array_length lib j = length vs"
    and "i < length vs \<Longrightarrow> val (json_object_array_get_idx lib j i) = vs ! i"
  using assms by (simp_all add: json_lib_ok_def)

lemma json_lib_object:
  assumes "json_lib_ok lib val" "val j = JObject kvs"
  shows "json_object_object_length lib j = length kvs"
    and "kvs = map (\<lambda>(k, v). (k, val v)) (json_object_object_entries lib j)"
    and "map_of kvs k = map_option val (json_object_object_get_ex lib j k)"
  using assms by (simp_all add: json_lib_ok_def)

lemma json_run_array:
  assumes ok: "json_lib_ok lib val" and v: "val obj = JArray vs" and p: "val pattern = JArray ps"
    and IH: "\<And>o' p'. val p' \<in> set ps \<Longrightarrow> json_run lib so sa (Compare o' p') = Some (jmatches (double_eq lib) so sa (val o') (val p'))"
  shows "json_run lib so sa (Compare obj pattern) = Some (jmatches (double_eq lib) so sa (JArray vs) (JArray ps))"
proof -
  note lv = json_lib_array [OF ok v] and lp = json_lib_array [OF ok p]
  let ?m = "\<lambda>v p. jmatches (double_eq lib) so sa v p"
  have c: "json_run lib so sa (Compare o' (json_object_array_get_idx lib pattern k)) = Some (?m (val o') (ps ! k))"
    if "k < length ps" for o' k
    using IH [of "json_object_array_get_idx lib pattern k" o'] that by (simp add: lp)
  have strict: "length vs = length ps \<Longrightarrow>
      json_run lib so sa (Array_strict obj pattern 0) = Some (\<forall>(v, p) \<in> set (zip vs ps). ?m v p)"
    using json_strict_loop [of lib pattern so sa obj "\<lambda>k. ?m (vs ! k) (ps ! k)" 0]
    by (auto simp: lv lp c set_zip)
  have "(\<exists>j<length vs. ?m (vs ! j) q) = (\<exists>v \<in> set vs. ?m v q)" for q
    by (metis in_set_conv_nth)
  moreover have "(\<forall>k<length ps. P (ps ! k)) = (\<forall>p \<in> set ps. P p)" for P
    by (metis in_set_conv_nth)
  ultimately have any: "json_run lib so sa (Array_any obj pattern 0) = Some (\<forall>p \<in> set ps. \<exists>v \<in> set vs. ?m v p)"
    using json_any_loop [of lib pattern obj so sa "\<lambda>k j. ?m (vs ! j) (ps ! k)" 0]
    by (simp add: lv lp c)
  show ?thesis
    using strict any
    by (subst json_run_Compare) (cases sa; simp add: json_lib_type [OF ok] v p lv lp jmatches_array)
qed

lemma json_run_object:
  assumes ok: "json_lib_ok lib val" and v: "val obj = JObject kvs" and p: "val pattern = JObject pats"
    and IH: "\<And>o' p'. val p' \<in> snd ` set pats \<Longrightarrow> json_run lib so sa (Compare o' p') = Some (jmatches (double_eq lib) so sa (val o') (val p'))"
  shows "json_run lib so sa (Compare obj pattern) = Some (jmatches (double_eq lib) so sa (JObject kvs) (JObject pats))"
proof -
  note lv = json_lib_object [OF ok v] and lp = json_lib_object [OF ok p]
  let ?m = "\<lambda>v p. jmatches (double_eq lib) so sa v p"
  have c: "json_run lib so sa (Compare o' q) = Some (?m (val o') (val q))"
    if "(k, q) \<in> set (json_object_object_entries lib pattern)" for o' k q
  proof (rule IH)
    show "val q \<in> snd ` set pats" using that by (subst lp(2)) force
  qed
  have entries: "json_run lib so sa (Object_entries obj (json_object_object_entries lib pattern)) =
      Some (\<forall>(k, q) \<in> set (json_object_object_entries lib pattern).
        case json_object_object_get_ex lib obj k of None \<Rightarrow> False | Some v \<Rightarrow> ?m (val v) (val q))"
    by (rule json_entries_loop) (rule c)
  have "(\<forall>(k, q) \<in> set (json_object_object_entries lib pattern).
        case json_object_object_get_ex lib obj k of None \<Rightarrow> False | Some v \<Rightarrow> ?m (val v) (val q)) =
      (\<forall>(k, q) \<in> set pats. case map_of kvs k of None \<Rightarrow> False | Some v \<Rightarrow> ?m v q)"
    by (subst lp(2)) (auto simp: lv(3) split: option.splits)
  moreover have "list_all (\<lambda>(key, _). json_object_object_get_ex lib pattern key \<noteq> None) (json_object_object_entries lib obj) =
      (\<forall>k \<in> fst ` set kvs. map_of pats k \<noteq> None)"
    by (subst lv(2)) (auto simp: lp(3) list_all_iff)
  ultimately show ?thesis
    using entries by (subst json_run_Compare) (simp add: json_lib_type [OF ok] v p lv(1) lp(1) jmatches_object)
qed

lemma json_run_matches:
  assumes ok: "json_lib_ok lib val"
  shows "json_run lib so sa (Compare obj pattern) = Some (jmatches (double_eq lib) so sa (val obj) (val pattern))"
proof (induction "size (val pattern)" arbitrary: obj pattern rule: less_induct)
  case less
  note simps = json_lib_type [OF ok] json_lib_scalars [OF ok] json_compare_string_def c_streq_strings
  show ?case
  proof (cases "jtype (val pattern) = jtype (val obj)")
    case False
    then show ?thesis
      by (subst json_run_Compare) (simp add: simps jmatches_types)
  next
    case True
    show ?thesis
    proof (cases "val pattern")
      case (JArray ps)
      with True obtain vs where v: "val obj = JArray vs" by (cases "val obj") auto
      show ?thesis
        unfolding v JArray
        by (rule json_run_array [OF ok v JArray], rule less.hyps)
           (use JArray in \<open>simp del: jval.size add: size_array_element\<close>)
    next
      case (JObject pats)
      with True obtain kvs where v: "val obj = JObject kvs" by (cases "val obj") auto
      show ?thesis
        unfolding v JObject
        by (rule json_run_object [OF ok v JObject], rule less.hyps)
           (use JObject in \<open>auto simp del: jval.size intro: size_object_entry\<close>)
    qed (use True in \<open>(subst json_run_Compare; cases "val obj"; auto simp: simps jmatches.simps)+\<close>)
  qed
qed

subsection \<open>A library over the values themselves\<close>

definition jval_lib :: "('f \<Rightarrow> 'f \<Rightarrow> bool) \<Rightarrow> 'f \<Rightarrow> ('f jval, 'f) json_lib" where
  "jval_lib deq zero = \<lparr>
     json_object_get_type = jtype,
     json_object_get_boolean = (\<lambda>j. case j of JBool b \<Rightarrow> b | _ \<Rightarrow> False),
     json_object_get_int = (\<lambda>j. case j of JInt i \<Rightarrow> sat32 i | _ \<Rightarrow> 0),
     json_object_get_double = (\<lambda>j. case j of JDouble x \<Rightarrow> x | _ \<Rightarrow> zero),
     json_object_get_string = (\<lambda>j. case j of JString s \<Rightarrow> s @ [0] | _ \<Rightarrow> [0]),
     json_object_get_string_len = (\<lambda>j. case j of JString s \<Rightarrow> int (length s) | _ \<Rightarrow> 0),
     json_object_array_length = (\<lambda>j. case j of JArray vs \<Rightarrow> length vs | _ \<Rightarrow> 0),
     json_object_array_get_idx = (\<lambda>j i. case j of JArray vs \<Rightarrow> vs ! i | _ \<Rightarrow> JNull),
     json_object_object_length = (\<lambda>j. case j of JObject kvs \<Rightarrow> length kvs | _ \<Rightarrow> 0),
     json_object_object_entries = (\<lambda>j. case j of JObject kvs \<Rightarrow> kvs | _ \<Rightarrow> []),
     json_object_object_get_ex = (\<lambda>j k. case j of JObject kvs \<Rightarrow> map_of kvs k | _ \<Rightarrow> None),
     double_eq = deq \<rparr>"

lemma jval_lib_ok: "json_lib_ok (jval_lib deq zero) (\<lambda>j. j)"
  by (simp add: json_lib_ok_def jval_lib_def option.map_ident)

lemma double_eq_jval_lib [simp]: "double_eq (jval_lib deq zero) = deq"
  by (simp add: jval_lib_def)

text \<open>C21. Over every library that behaves as json-c documents, the comparison returns, whatever the
  depth of the values, and answers true exactly when the object matches the pattern in the sense of
  \<open>jmatches\<close>, with the two flags read off the low two bits.\<close>

theorem json_compare_matches:
  assumes "json_lib_ok lib val"
  shows "json_compare lib obj pattern flags =
      Some (jmatches (double_eq lib) (flags AND 1 \<noteq> 0) (flags AND 2 \<noteq> 0) (val obj) (val pattern))"
  by (simp add: json_compare_def json_run_matches [OF assms] JSON_COMPARE_FLAG_STRICT_OBJECTS_def
      JSON_COMPARE_FLAG_STRICT_ARRAYS_def push_bit_eq_mult)

theorem json_compare_matches_witness:
  "json_compare (jval_lib (=) (0::int)) (JObject [([97], JArray [JInt 1, JInt 2]), ([98], JNull)])
     (JObject [([97], JArray [JInt 2])]) 0 = Some True \<and>
   json_compare (jval_lib (=) (0::int)) (JObject [([97], JArray [JInt 1, JInt 2]), ([98], JNull)])
     (JObject [([97], JArray [JInt 2])]) 2 = Some False"
  using json_compare_matches [OF jval_lib_ok, of "(=)" "0::int" "JObject [([97], JArray [JInt 1, JInt 2]), ([98], JNull)]"
      "JObject [([97], JArray [JInt 2])]" 0]
    json_compare_matches [OF jval_lib_ok, of "(=)" "0::int" "JObject [([97], JArray [JInt 1, JInt 2]), ([98], JNull)]"
      "JObject [([97], JArray [JInt 2])]" 2]
  by (simp add: jmatches_object jmatches_array jmatches_int sat32_def)

subsection \<open>The relation it decides\<close>

fun jval_keys_ok :: "'f jval \<Rightarrow> bool" where
  "jval_keys_ok (JArray vs) = (\<forall>v \<in> set vs. jval_keys_ok v)"
| "jval_keys_ok (JObject kvs) = (distinct (map fst kvs) \<and> (\<forall>(k, v) \<in> set kvs. jval_keys_ok v))"
| "jval_keys_ok _ = True"

text \<open>A value matches itself, unless it holds a number that is not equal to itself.\<close>

lemma jmatches_refl:
  assumes "\<And>x. deq x x"
  shows "jval_keys_ok v \<Longrightarrow> jmatches deq so sa v v"
proof (induction v rule: jval_keys_ok.induct)
  case (1 vs)
  then show ?case by (simp add: jmatches_array set_zip) (metis in_set_conv_nth)
next
  case (2 kvs)
  have "case map_of kvs k of None \<Rightarrow> False | Some v \<Rightarrow> jmatches deq so sa v p" if "(k, p) \<in> set kvs" for k p
    using 2 that map_of_is_SomeI [of kvs k p] by force
  then show ?case by (auto simp: jmatches_object map_of_eq_None_iff)
qed (use assms in \<open>simp_all add: jmatches.simps\<close>)

text \<open>What the strict comparison accepts, the others accept too.\<close>

lemma jmatches_strict: "jmatches deq True True v p \<Longrightarrow> jmatches deq so sa v p"
proof (induction "size p" arbitrary: v p rule: less_induct)
  case less
  show ?case
  proof (cases "jtype v = jtype p")
    case True
    show ?thesis
    proof (cases p)
      case (JArray ps)
      with True obtain vs where v: "v = JArray vs" by (cases v) auto
      have IH: "jmatches deq so sa v' p'" if "jmatches deq True True v' p'" "p' \<in> set ps" for v' p'
        using less.hyps [of p' v'] that size_array_element [of p' ps] unfolding JArray by blast
      have len: "length vs = length ps" and "\<forall>(v, p) \<in> set (zip vs ps). jmatches deq True True v p"
        using less.prems unfolding v JArray jmatches_array by auto
      then have each: "\<And>i. i < length ps \<Longrightarrow> jmatches deq True True (vs ! i) (ps ! i)"
        unfolding set_zip by fastforce
      show ?thesis
        unfolding v JArray jmatches_array
        using IH each len by (auto simp: set_zip) (metis in_set_conv_nth)
    next
      case (JObject pats)
      with True obtain kvs where v: "v = JObject kvs" by (cases v) auto
      have IH: "jmatches deq so sa v' p'" if "jmatches deq True True v' p'" "(k, p') \<in> set pats" for k v' p'
        using less.hyps [of p' v'] that size_object_entry [of k p' pats] unfolding JObject by blast
      show ?thesis
        using less.prems IH unfolding v JObject jmatches_object by (fastforce split: option.splits)
    qed (use True less.prems in \<open>(cases v; simp add: jmatches.simps)+\<close>)
  qed (use less.prems jmatches_types in blast)
qed

text \<open>Integers beyond 32 bits are all alike, and one element can match two of the pattern.\<close>

lemma json_compare_saturates:
  "json_compare (jval_lib deq zero) (JInt 2147483648) (JInt 4294967296) flags = Some True"
  by (simp add: json_compare_matches [OF jval_lib_ok] jmatches_int sat32_def)

lemma json_compare_one_for_two:
  "json_compare (jval_lib deq zero) (JArray [JBool b]) (JArray [JBool b, JBool b]) 0 = Some True"
  by (simp add: json_compare_matches [OF jval_lib_ok] jmatches_array jmatches.simps)

end
