(* ===== verification/Log.thy ===== *)
theory Log
  imports Http
begin

section \<open>The logger (source/log.c)\<close>

text \<open>
  A logger has a configuration word, read both as the mask \<open>cfgmask\<close> and through bit fields, a name,
  the path of its file and what to do on \<open>RESET\<close>. Messages go to the error stream, to a file
  that is opened and closed for each of them and to the system log. The text of a message is
  the one that \<open>printf\<close> makes of the format and its arguments. The clock, the terminal, and
  whether opening, flushing and rebooting work, are readings of the environment.
\<close>

definition LOG_COLOR_RED :: bytes where "LOG_COLOR_RED = 0x1B # ascii ''[0;31m''"
definition LOG_COLOR_RED_BOLD :: bytes where "LOG_COLOR_RED_BOLD = 0x1B # ascii ''[1;31m''"
definition LOG_COLOR_GREEN :: bytes where "LOG_COLOR_GREEN = 0x1B # ascii ''[0;32m''"
definition LOG_COLOR_OFF :: bytes where "LOG_COLOR_OFF = 0x1B # ascii ''[00m''"
definition LOG_COLOR_RESET :: bytes where "LOG_COLOR_RESET = LOG_COLOR_RED_BOLD"
definition LOG_COLOR_ERROR :: bytes where "LOG_COLOR_ERROR = LOG_COLOR_RED_BOLD"
definition LOG_COLOR_WARN :: bytes where "LOG_COLOR_WARN = LOG_COLOR_RED"
definition LOG_COLOR_INFO :: bytes where "LOG_COLOR_INFO = []"
definition LOG_COLOR_DEBUG :: bytes where "LOG_COLOR_DEBUG = LOG_COLOR_GREEN"

definition RESET_LEVEL :: "32 word" where "RESET_LEVEL = 0"
definition ERROR_LEVEL :: "32 word" where "ERROR_LEVEL = 1"
definition WARNING_LEVEL :: "32 word" where "WARNING_LEVEL = 2"
definition INFO_LEVEL :: "32 word" where "INFO_LEVEL = 3"
definition DEBUG_LEVEL :: "32 word" where "DEBUG_LEVEL = 4"

subsection \<open>The configuration word\<close>

text \<open>Bit fields are laid out from the lowest bit on.\<close>

definition bits_get :: "nat \<Rightarrow> nat \<Rightarrow> 32 word \<Rightarrow> 32 word" where
  "bits_get pos len w = drop_bit pos w AND mask len"

definition bits_set :: "nat \<Rightarrow> nat \<Rightarrow> 32 word \<Rightarrow> 32 word \<Rightarrow> 32 word" where
  "bits_set pos len v w = (w AND NOT (push_bit pos (mask len))) OR push_bit pos (v AND mask len)"

definition conf_verbosity :: "32 word \<Rightarrow> 32 word" where "conf_verbosity = bits_get 0 4"
definition conf_console :: "32 word \<Rightarrow> 32 word" where "conf_console = bits_get 4 1"
definition conf_syslog :: "32 word \<Rightarrow> 32 word" where "conf_syslog = bits_get 5 1"
definition conf_file :: "32 word \<Rightarrow> 32 word" where "conf_file = bits_get 6 1"
definition conf_timestamp :: "32 word \<Rightarrow> 32 word" where "conf_timestamp = bits_get 7 1"
definition conf_debugtype :: "32 word \<Rightarrow> 32 word" where "conf_debugtype = bits_get 8 8"

definition LOG_VERBOSITY_MASK :: "32 word" where "LOG_VERBOSITY_MASK = 0xF"
definition LOG_CONSOLE_MASK :: "32 word" where "LOG_CONSOLE_MASK = push_bit 4 1"
definition LOG_SYSLOG_MASK :: "32 word" where "LOG_SYSLOG_MASK = push_bit 5 1"
definition LOG_FILE_MASK :: "32 word" where "LOG_FILE_MASK = push_bit 6 1"
definition LOG_TIME_STAMP :: "32 word" where "LOG_TIME_STAMP = push_bit 7 1"
definition LOG_DEBUGTYPE_MASK :: "32 word" where "LOG_DEBUGTYPE_MASK = push_bit 8 0xFF"
definition LOG_DEFAULT_VALUE :: "32 word" where "LOG_DEFAULT_VALUE = 0xFF13"
definition LOG_DEFAULT_DEBUGTYPE :: u16 where "LOG_DEFAULT_DEBUGTYPE = 0xFF"

record logger =
  lg_conf :: "32 word"
  lg_name :: bytes
  lg_file :: bytes
  lg_terminal :: bool
  lg_reset_result :: int

record log_data_t =
  ld_color :: bytes
  ld_stamp :: bytes
  ld_file :: bytes
  ld_line :: nat
  ld_syslog_type :: int
  ld_details :: bool

definition liblogger :: logger where
  "liblogger = \<lparr>lg_conf = LOG_DEFAULT_VALUE, lg_name = ascii ''mxc'', lg_file = ascii ''/tmp/cmx-lib.log'',
     lg_terminal = True, lg_reset_result = 0\<rparr>"

subsection \<open>The environment and the outputs\<close>

record tm = tm_year :: nat tm_mon :: nat tm_mday :: nat tm_hour :: nat tm_min :: nat tm_sec :: nat

record log_env =
  le_time :: tm
  le_usec :: nat
  le_can_open :: "bytes \<Rightarrow> bool"
  le_can_flush :: "bytes \<Rightarrow> bool"
  le_stderr_tty :: bool
  le_can_reboot :: bool

text \<open>\<open>lw_open\<close> counts the log files that were opened and not closed.\<close>

record log_world =
  lw_stderr :: bytes
  lw_files :: "bytes \<Rightarrow> bytes"
  lw_syslog :: "(int \<times> bytes) list"
  lw_open :: nat

definition put_stderr :: "bytes \<Rightarrow> log_world \<Rightarrow> log_world" where
  "put_stderr s w = w\<lparr>lw_stderr := lw_stderr w @ s\<rparr>"

definition put_file :: "bytes \<Rightarrow> bytes \<Rightarrow> log_world \<Rightarrow> log_world" where
  "put_file path s w = w\<lparr>lw_files := (lw_files w)(path := lw_files w path @ s)\<rparr>"

definition put_syslog :: "int \<Rightarrow> bytes \<Rightarrow> log_world \<Rightarrow> log_world" where
  "put_syslog type s w = w\<lparr>lw_syslog := lw_syslog w @ [(type, s)]\<rparr>"

definition newline :: bytes where "newline = [10]"

subsection \<open>The time stamp\<close>

definition LOG_DATE_PATTERN :: bytes where "LOG_DATE_PATTERN = ascii ''[%y-%m-%d %H:%M:%S''"
definition LOG_MS_PATTERN :: bytes where "LOG_MS_PATTERN = ascii ''.%03u] ''"

text \<open>\<open>sizeof\<close> counts the terminating zero of each pattern.\<close>

definition LOG_BUFFER_DATE_LEN :: nat where
  "LOG_BUFFER_DATE_LEN = (length LOG_DATE_PATTERN + 1) + (length LOG_MS_PATTERN + 1) + 1"

definition LOG_BUFFER_SYSLOG_LEN :: nat where "LOG_BUFFER_SYSLOG_LEN = 256"

definition two_digits :: "nat \<Rightarrow> bytes" where
  "two_digits n = [of_nat (48 + n div 10 mod 10), of_nat (48 + n mod 10)]"

text \<open>What \<open>strftime\<close> writes for the pattern; it returns 0 when the text does not fit.\<close>

definition date_text :: "tm \<Rightarrow> bytes" where
  "date_text t = ascii ''['' @ two_digits (tm_year t) @ ascii ''-'' @ two_digits (tm_mon t) @ ascii ''-'' @
     two_digits (tm_mday t) @ ascii '' '' @ two_digits (tm_hour t) @ ascii '':'' @ two_digits (tm_min t) @
     ascii '':'' @ two_digits (tm_sec t)"

definition c_strftime :: "bytes \<Rightarrow> nat \<Rightarrow> tm \<Rightarrow> (nat \<times> bytes) option" where
  "c_strftime buffer sz t =
     (let s = date_text t in
      if sz < length s + 1 then Some (0, buffer)
      else do { buffer \<leftarrow> mem_write buffer (s @ [0]); Some (length s, buffer) })"

text \<open>\<open>%03u\<close>.\<close>

definition ms_text :: "nat \<Rightarrow> bytes" where
  "ms_text n = ascii ''.'' @
     (if n < 1000 then [of_nat (48 + n div 100)] @ two_digits n else c_decimal n) @ ascii ''] ''"

definition calculate_datetime ::
    "log_env \<Rightarrow> bytes \<Rightarrow> nat \<Rightarrow> log_world \<Rightarrow> (bool \<times> bytes \<times> log_world) option" where
  "calculate_datetime env buffer sz w = do {
     (n, buffer) \<leftarrow> c_strftime buffer sz (le_time env);
     if n = 0
     then Some (False, buffer, put_stderr (LOG_COLOR_WARN @ ascii ''(WRN) Cannot convert timestamp'' @ LOG_COLOR_OFF @ newline) w)
     else do {
       buffer \<leftarrow> c_snprintf buffer (length LOG_DATE_PATTERN) (size_sub sz (length LOG_DATE_PATTERN + 1))
                   (ms_text (le_usec env div 1000));
       Some (True, buffer, w)
     }
   }"

text \<open>A local array whose bytes are not set yet; reading it as a string stops at the zero written.\<close>

definition date_buffer :: bytes where "date_buffer = replicate LOG_BUFFER_DATE_LEN 0"

subsection \<open>The three destinations\<close>

definition message_head :: "bytes \<Rightarrow> log_data_t \<Rightarrow> logger \<Rightarrow> bytes" where
  "message_head curr_time d logger = curr_time @ ld_stamp d @ ascii '' '' @ lg_name logger"

definition details_text :: "log_data_t \<Rightarrow> bytes" where
  "details_text d = ld_file d @ ascii '' : '' @ c_decimal (ld_line d)"

definition logfile_open :: "log_env \<Rightarrow> bytes \<Rightarrow> log_world \<Rightarrow> bool \<times> log_world" where
  "logfile_open env path w =
     (if le_can_open env path then (True, w\<lparr>lw_open := lw_open w + 1\<rparr>)
      else (False, put_stderr (LOG_COLOR_WARN @ ascii ''(WRN) Cannot open log file '' @ path @ LOG_COLOR_OFF @ newline) w))"

definition logfile_close :: "log_env \<Rightarrow> bytes \<Rightarrow> log_world \<Rightarrow> log_world" where
  "logfile_close env path w =
     (if \<not> le_can_flush env path
      then put_stderr (LOG_COLOR_WARN @ ascii ''(WRN) Cannot flush log file'' @ LOG_COLOR_OFF @ newline) w
      else w\<lparr>lw_open := lw_open w - 1\<rparr>)"

definition log_file :: "log_env \<Rightarrow> logger \<Rightarrow> log_data_t \<Rightarrow> bytes \<Rightarrow> log_world \<Rightarrow> log_world option" where
  "log_file env logger d msg w = do {
     (b, buffer, w) \<leftarrow> calculate_datetime env date_buffer LOG_BUFFER_DATE_LEN w;
     if \<not> b then Some w
     else do {
       curr_time \<leftarrow> c_str buffer;
       let (logfile, w) = logfile_open env (lg_file logger) w;
       if \<not> logfile then Some w
       else Some (logfile_close env (lg_file logger) (put_file (lg_file logger)
         (message_head curr_time d logger @ ascii '': '' @ msg @
          (if ld_details d
           then newline @ message_head curr_time d logger @ ascii '':     '' @ details_text d @ newline
           else newline)) w))
     }
   }"

definition log_syslog :: "logger \<Rightarrow> log_data_t \<Rightarrow> bytes \<Rightarrow> log_world \<Rightarrow> log_world" where
  "log_syslog logger d msg w =
     (let buffer = take (LOG_BUFFER_SYSLOG_LEN - 1) msg;
          w = put_syslog (ld_syslog_type d) (ld_stamp d @ ascii '' '' @ buffer) w
      in if ld_details d then put_syslog (ld_syslog_type d) (ld_stamp d @ ascii ''   '' @ details_text d) w else w)"

definition log_console :: "log_env \<Rightarrow> logger \<Rightarrow> log_data_t \<Rightarrow> bytes \<Rightarrow> log_world \<Rightarrow> log_world option" where
  "log_console env logger d msg w = do {
     (_, buffer, w) \<leftarrow> (if conf_timestamp (lg_conf logger) \<noteq> 0
       then calculate_datetime env (date_buffer[0 := 0]) LOG_BUFFER_DATE_LEN w
       else Some (True, date_buffer[0 := 0], w));
     curr_time \<leftarrow> c_str buffer;
     let w = (if lg_terminal logger then put_stderr (ld_color d) w else w);
     let w = put_stderr (message_head curr_time d logger @ ascii '': '') w;
     let w = put_stderr msg w;
     let w = (if ld_details d
       then put_stderr (newline @ message_head curr_time d logger @ ascii '':     '' @ details_text d) w else w);
     let w = (if lg_terminal logger then put_stderr LOG_COLOR_OFF w else w);
     Some (put_stderr newline w)
   }"

text \<open>The destinations the configuration asks for, in the order of the code.\<close>

definition log_sinks :: "log_env \<Rightarrow> logger \<Rightarrow> log_data_t \<Rightarrow> bytes \<Rightarrow> log_world \<Rightarrow> log_world option" where
  "log_sinks env logger d msg w = do {
     w \<leftarrow> (if conf_file (lg_conf logger) \<noteq> 0 then log_file env logger d msg w else Some w);
     let w = (if conf_syslog (lg_conf logger) \<noteq> 0 then log_syslog logger d msg w else w);
     if conf_console (lg_conf logger) \<noteq> 0 then log_console env logger d msg w else Some w
   }"

subsection \<open>The levels\<close>

text \<open>Where the fields of a message come from: its level, and file and line for the severe ones.\<close>

definition reset_data :: "bytes \<Rightarrow> nat \<Rightarrow> log_data_t" where
  "reset_data file line = \<lparr>ld_color = LOG_COLOR_RESET, ld_stamp = ascii ''(RST)'', ld_file = file, ld_line = line,
     ld_syslog_type = 0, ld_details = True\<rparr>"

definition error_data :: "bytes \<Rightarrow> nat \<Rightarrow> log_data_t" where
  "error_data file line = \<lparr>ld_color = LOG_COLOR_ERROR, ld_stamp = ascii ''(ERR)'', ld_file = file, ld_line = line,
     ld_syslog_type = 3, ld_details = True\<rparr>"

definition warn_data :: log_data_t where
  "warn_data = \<lparr>ld_color = LOG_COLOR_WARN, ld_stamp = ascii ''(WRN)'', ld_file = [], ld_line = 0,
     ld_syslog_type = 4, ld_details = False\<rparr>"

definition info_data :: log_data_t where
  "info_data = \<lparr>ld_color = LOG_COLOR_INFO, ld_stamp = ascii ''(LOG)'', ld_file = [], ld_line = 0,
     ld_syslog_type = 6, ld_details = False\<rparr>"

definition debug_data :: log_data_t where
  "debug_data = \<lparr>ld_color = LOG_COLOR_DEBUG, ld_stamp = ascii ''(DBG)'', ld_file = [], ld_line = 0,
     ld_syslog_type = 7, ld_details = False\<rparr>"

definition log_error ::
    "log_env \<Rightarrow> logger \<Rightarrow> bytes \<Rightarrow> nat \<Rightarrow> bytes \<Rightarrow> log_world \<Rightarrow> log_world option" where
  "log_error env logger file line msg w =
     (if conf_verbosity (lg_conf logger) < ERROR_LEVEL then Some w
      else log_sinks env logger (error_data file line) msg w)"

definition log_warn :: "log_env \<Rightarrow> logger \<Rightarrow> bytes \<Rightarrow> log_world \<Rightarrow> log_world option" where
  "log_warn env logger msg w =
     (if conf_verbosity (lg_conf logger) < WARNING_LEVEL then Some w else log_sinks env logger warn_data msg w)"

definition log_info :: "log_env \<Rightarrow> logger \<Rightarrow> bytes \<Rightarrow> log_world \<Rightarrow> log_world option" where
  "log_info env logger msg w =
     (if conf_verbosity (lg_conf logger) < INFO_LEVEL then Some w else log_sinks env logger info_data msg w)"

definition log_debug :: "log_env \<Rightarrow> logger \<Rightarrow> u16 \<Rightarrow> bytes \<Rightarrow> log_world \<Rightarrow> log_world option" where
  "log_debug env logger debugtype msg w =
     (if conf_verbosity (lg_conf logger) < DEBUG_LEVEL then Some w
      else if conf_debugtype (lg_conf logger) AND ucast debugtype = 0 then Some w
      else log_sinks env logger debug_data msg w)"

text \<open>\<open>RESET\<close> is written everywhere; then the process ends, the system restarts, or the call returns.\<close>

datatype outcome = Returns | Exits | Reboots

definition log_reset ::
    "log_env \<Rightarrow> logger \<Rightarrow> bytes \<Rightarrow> nat \<Rightarrow> bytes \<Rightarrow> log_world \<Rightarrow> (outcome \<times> log_world) option" where
  "log_reset env logger file line msg w = do {
     w \<leftarrow> log_file env logger (reset_data file line) msg w;
     let w = log_syslog logger (reset_data file line) msg w;
     w \<leftarrow> log_console env logger (reset_data file line) msg w;
     Some (if lg_reset_result logger = 1 then Exits
           else if lg_reset_result logger = 2 \<and> le_can_reboot env then Reboots
           else Returns, w)
   }"

definition log_init :: "log_env \<Rightarrow> logger \<Rightarrow> bytes \<Rightarrow> logger" where
  "log_init env logger name =
     (let logger = logger\<lparr>lg_name := name\<rparr>;
          logger = logger\<lparr>lg_conf := bits_set 0 4 INFO_LEVEL (lg_conf logger)\<rparr>;
          logger = logger\<lparr>lg_conf := bits_set 4 1 1 (lg_conf logger)\<rparr>;
          logger = logger\<lparr>lg_conf := bits_set 8 8 0xFF (lg_conf logger)\<rparr>;
          logger = (if \<not> le_stderr_tty env then logger\<lparr>lg_terminal := False\<rparr> else logger)
      in logger\<lparr>lg_reset_result := 1\<rparr>)"

definition log_log :: "bytes \<Rightarrow> bytes \<Rightarrow> log_world \<Rightarrow> log_world" where
  "log_log color msg w = put_stderr (LOG_COLOR_OFF @ newline) (put_stderr msg (put_stderr color w))"

text \<open>\<open>%02X\<close>.\<close>

definition hex_digit :: "nat \<Rightarrow> byte" where
  "hex_digit n = of_nat (if n < 10 then 48 + n else 55 + n)"

definition hex_byte :: "byte \<Rightarrow> bytes" where
  "hex_byte b = [hex_digit (unat b div 16), hex_digit (unat b mod 16), 32]"

fun log_data_loop :: "bytes \<Rightarrow> nat \<Rightarrow> nat \<Rightarrow> log_world \<Rightarrow> log_world option" where
  "log_data_loop data i 0 w = Some w"
| "log_data_loop data i (Suc n) w = do {
     b \<leftarrow> rd data i;
     log_data_loop data (i + 1) n (put_stderr (hex_byte b) w)
   }"

definition log_data :: "bytes \<Rightarrow> bytes \<Rightarrow> bytes \<Rightarrow> nat \<Rightarrow> log_world \<Rightarrow> log_world option" where
  "log_data color prefix data len w = do {
     let w = put_stderr color w;
     let w = put_stderr prefix w;
     w \<leftarrow> log_data_loop data 0 len w;
     Some (put_stderr (LOG_COLOR_OFF @ newline) w)
   }"

text \<open>\<open>xmalloc\<close> of source/memory.c when there is no memory left: it restarts, or returns a null pointer.\<close>

definition xmalloc_fails :: "log_env \<Rightarrow> logger \<Rightarrow> bytes \<Rightarrow> nat \<Rightarrow> log_world \<Rightarrow> (outcome \<times> log_world) option" where
  "xmalloc_fails env logger file line w = log_reset env logger file line (ascii ''Out of memory'') w"

subsection \<open>The time stamp is complete\<close>

definition time_stamp :: "log_env \<Rightarrow> bytes" where
  "time_stamp env = date_text (le_time env) @ ms_text (le_usec env div 1000)"

lemma digit_nonzero: "d < 100 \<Longrightarrow> (of_nat (48 + d) :: byte) \<noteq> 0"
proof -
  assume "d < 100"
  then have "unat (of_nat (48 + d) :: byte) = 48 + d"
    by (simp only: unat_of_nat) simp
  then show ?thesis by force
qed

lemma two_digits_nonzero: "0 \<notin> set (two_digits n)"
  using digit_nonzero [of "n div 10 mod 10"] digit_nonzero [of "n mod 10"]
  by (auto simp: two_digits_def simp del: of_nat_add)

lemma length_date: "length (date_text t) = 18" and length_pattern: "length LOG_DATE_PATTERN = 18"
  by (simp_all add: date_text_def two_digits_def ascii_def LOG_DATE_PATTERN_def)

lemma length_ms: "n < 1000 \<Longrightarrow> length (ms_text n) = 6"
  by (simp add: ms_text_def two_digits_def ascii_def)

lemma date_len: "LOG_BUFFER_DATE_LEN = 28"
  by (simp add: LOG_BUFFER_DATE_LEN_def LOG_DATE_PATTERN_def LOG_MS_PATTERN_def ascii_def)

lemma date_nonzero: "0 \<notin> set (date_text t)"
  by (simp add: date_text_def ascii_def two_digits_nonzero)

lemma ms_nonzero: "n < 1000 \<Longrightarrow> 0 \<notin> set (ms_text n)"
  using digit_nonzero [of "n div 100"] by (auto simp: ms_text_def ascii_def two_digits_nonzero simp del: of_nat_add)

lemma time_stamp_nonzero: "le_usec env < 1000000 \<Longrightarrow> 0 \<notin> set (time_stamp env)"
  by (simp add: time_stamp_def date_nonzero ms_nonzero)

lemma calculate_datetime_ok:
  assumes "le_usec env < 1000000" "length buffer = 28"
  shows "\<exists>r. calculate_datetime env buffer LOG_BUFFER_DATE_LEN w = Some (True, time_stamp env @ 0 # r, w)"
proof -
  have "le_usec env div 1000 < 1000" using assms(1) by simp
  then show ?thesis
    using assms(2)
    by (simp add: calculate_datetime_def c_strftime_def c_snprintf_def mem_write_def adv_def length_date length_ms
        length_pattern date_len time_stamp_def Let_def size_bound_def)
qed

subsection \<open>The configuration word and its fields\<close>

lemma bits_get_bit: "bits_get n 1 c = of_bool (bit c n)"
  by (simp add: bits_get_def bit_iff_odd_drop_bit odd_iff_mod_2_eq_one and_one_eq flip: take_bit_eq_mask)

lemma flag_mask: "(bits_get n 1 c \<noteq> 0) = (c AND push_bit n 1 \<noteq> 0)"
  unfolding bits_get_bit bit_iff_and_push_bit_not_eq_0 [symmetric] by simp

lemma get_set: "pos + len \<le> 32 \<Longrightarrow> bits_get pos len (bits_set pos len v c) = v AND mask len"
  by (rule bit_word_eqI) (auto simp: bits_get_def bits_set_def bit_simps)

lemma get_set_other:
  assumes "pos + len \<le> p \<or> p + l \<le> pos" "p + l \<le> 32"
  shows "bits_get p l (bits_set pos len v c) = bits_get p l c"
  by (rule bit_word_eqI) (use assms in \<open>auto simp: bits_get_def bits_set_def bit_simps\<close>)

text \<open>C25. The bit fields and the masks name the same parts of the configuration word, and
  \<open>log_init\<close> sets the verbosity to INFO, turns the console and every debug type on and leaves the
  other switches as they were.\<close>

theorem log_conf_fields:
  "conf_verbosity c = c AND LOG_VERBOSITY_MASK \<and>
   (conf_console c \<noteq> 0) = (c AND LOG_CONSOLE_MASK \<noteq> 0) \<and>
   (conf_syslog c \<noteq> 0) = (c AND LOG_SYSLOG_MASK \<noteq> 0) \<and>
   (conf_file c \<noteq> 0) = (c AND LOG_FILE_MASK \<noteq> 0) \<and>
   (conf_timestamp c \<noteq> 0) = (c AND LOG_TIME_STAMP \<noteq> 0) \<and>
   push_bit 8 (conf_debugtype c) = c AND LOG_DEBUGTYPE_MASK \<and>
   (let c' = lg_conf (log_init env logger name) in
      conf_verbosity c' = INFO_LEVEL \<and> conf_console c' = 1 \<and> conf_debugtype c' = 0xFF \<and>
      conf_syslog c' = conf_syslog (lg_conf logger) \<and> conf_file c' = conf_file (lg_conf logger) \<and>
      conf_timestamp c' = conf_timestamp (lg_conf logger))"
proof -
  have "push_bit 8 (bits_get 8 8 c) = c AND push_bit 8 (mask 8)"
    by (rule bit_word_eqI) (auto simp: bits_get_def bit_simps)
  moreover have m: "(mask 8 :: 32 word) = 0xFF" "(mask 4 :: 32 word) = 0xF" "(mask (Suc 0) :: 32 word) = 1"
    by (simp_all add: mask_eq_exp_minus_1)
  ultimately have "push_bit 8 (conf_debugtype c) = c AND LOG_DEBUGTYPE_MASK" "conf_verbosity c = c AND LOG_VERBOSITY_MASK"
    by (simp_all add: conf_debugtype_def LOG_DEBUGTYPE_MASK_def conf_verbosity_def LOG_VERBOSITY_MASK_def bits_get_def)
  moreover have "(conf_console c \<noteq> 0) = (c AND LOG_CONSOLE_MASK \<noteq> 0)" "(conf_syslog c \<noteq> 0) = (c AND LOG_SYSLOG_MASK \<noteq> 0)"
    "(conf_file c \<noteq> 0) = (c AND LOG_FILE_MASK \<noteq> 0)" "(conf_timestamp c \<noteq> 0) = (c AND LOG_TIME_STAMP \<noteq> 0)"
    unfolding conf_console_def conf_syslog_def conf_file_def conf_timestamp_def LOG_CONSOLE_MASK_def LOG_SYSLOG_MASK_def
      LOG_FILE_MASK_def LOG_TIME_STAMP_def by (rule flag_mask)+
  moreover have "lg_conf (log_init env logger name) = bits_set 8 8 0xFF (bits_set 4 1 1 (bits_set 0 4 3 (lg_conf logger)))"
    by (simp add: log_init_def Let_def INFO_LEVEL_def)
  ultimately show ?thesis
    by (simp add: Let_def conf_verbosity_def conf_console_def conf_syslog_def conf_file_def conf_timestamp_def
        conf_debugtype_def get_set get_set_other INFO_LEVEL_def m)
qed

lemma log_default_fields:
  "conf_verbosity LOG_DEFAULT_VALUE = INFO_LEVEL" "conf_console LOG_DEFAULT_VALUE = 1" "conf_syslog LOG_DEFAULT_VALUE = 0"
  "conf_file LOG_DEFAULT_VALUE = 0" "conf_timestamp LOG_DEFAULT_VALUE = 0" "conf_debugtype LOG_DEFAULT_VALUE = 0xFF"
  by (simp_all add: conf_verbosity_def conf_console_def conf_syslog_def conf_file_def conf_timestamp_def
      conf_debugtype_def LOG_DEFAULT_VALUE_def INFO_LEVEL_def bits_get_def mask_eq_exp_minus_1)

lemma one_le_word: "(1 :: 32 word) \<le> x \<longleftrightarrow> x \<noteq> 0"
  by (simp flip: not_less)

lemma debug_types:
  "((drop_bit 8 c AND mask 8) AND ucast t = 0) = ((c AND push_bit 8 0xFF) AND push_bit 8 (ucast (t :: u16)) = (0 :: 32 word))"
proof -
  have m: "(0xFF :: 32 word) = mask 8" by (simp add: mask_eq_exp_minus_1)
  have "(c AND push_bit 8 (mask 8)) AND push_bit 8 (ucast t) = push_bit 8 ((drop_bit 8 c AND mask 8) AND (ucast t :: 32 word))"
    by (rule bit_word_eqI) (auto simp: bit_simps)
  moreover have "drop_bit 8 (push_bit 8 ((drop_bit 8 c AND mask 8) AND (ucast t :: 32 word))) = (drop_bit 8 c AND mask 8) AND ucast t"
    by (rule bit_word_eqI) (auto simp: bit_simps)
  ultimately show ?thesis unfolding m by (metis drop_bit_of_0 push_bit_of_0)
qed

subsection \<open>Where a message goes\<close>

text \<open>The lines of a message in a file, in the system log and on the console.\<close>

definition file_lines :: "log_env \<Rightarrow> logger \<Rightarrow> log_data_t \<Rightarrow> bytes \<Rightarrow> bytes" where
  "file_lines env logger d msg =
     (let h = message_head (time_stamp env) d logger
      in h @ ascii '': '' @ msg @ newline @ (if ld_details d then h @ ascii '':     '' @ details_text d @ newline else []))"

definition syslog_lines :: "log_data_t \<Rightarrow> bytes \<Rightarrow> (int \<times> bytes) list" where
  "syslog_lines d msg = (ld_syslog_type d, ld_stamp d @ ascii '' '' @ take 255 msg) #
     (if ld_details d then [(ld_syslog_type d, ld_stamp d @ ascii ''   '' @ details_text d)] else [])"

definition console_lines :: "log_env \<Rightarrow> logger \<Rightarrow> log_data_t \<Rightarrow> bytes \<Rightarrow> bytes" where
  "console_lines env logger d msg =
     (let h = message_head (if conf_timestamp (lg_conf logger) \<noteq> 0 then time_stamp env else []) d logger
      in (if lg_terminal logger then ld_color d else []) @ h @ ascii '': '' @ msg @
         (if ld_details d then newline @ h @ ascii '':     '' @ details_text d else []) @
         (if lg_terminal logger then LOG_COLOR_OFF else []) @ newline)"

definition env_ok :: "log_env \<Rightarrow> bytes \<Rightarrow> bool" where
  "env_ok env path \<longleftrightarrow> le_usec env < 1000000 \<and> le_can_open env path \<and> le_can_flush env path"

definition delivered :: "bool \<Rightarrow> bool \<Rightarrow> bool \<Rightarrow> log_env \<Rightarrow> logger \<Rightarrow> log_data_t \<Rightarrow> bytes \<Rightarrow> log_world \<Rightarrow> log_world" where
  "delivered file sys console env logger d msg w = w\<lparr>
     lw_files := (if file then (lw_files w)(lg_file logger := lw_files w (lg_file logger) @ file_lines env logger d msg) else lw_files w),
     lw_syslog := lw_syslog w @ (if sys then syslog_lines d msg else []),
     lw_stderr := lw_stderr w @ (if console then console_lines env logger d msg else [])\<rparr>"

lemma file_stamp:
  assumes "le_usec env < 1000000"
  obtains r where "calculate_datetime env date_buffer LOG_BUFFER_DATE_LEN w = Some (True, time_stamp env @ 0 # r, w)"
  using calculate_datetime_ok [OF assms, of date_buffer w] by (auto simp: date_buffer_def date_len)

lemma log_file_delivered:
  assumes "env_ok env (lg_file logger)"
  shows "log_file env logger d msg w = Some (delivered True False False env logger d msg w)"
proof -
  obtain r where "calculate_datetime env date_buffer LOG_BUFFER_DATE_LEN w = Some (True, time_stamp env @ 0 # r, w)"
    using assms by (auto simp: env_ok_def intro: file_stamp)
  then show ?thesis
    using assms
    by (simp add: log_file_def env_ok_def time_stamp_nonzero logfile_open_def logfile_close_def
        put_file_def delivered_def file_lines_def Let_def)
qed

text \<open>A file that cannot be flushed is not closed: each message leaves one more open.\<close>

lemma log_file_leaks:
  assumes "le_usec env < 1000000" "le_can_open env (lg_file logger)" "\<not> le_can_flush env (lg_file logger)"
  shows "\<exists>w'. log_file env logger d msg w = Some w' \<and> lw_open w' = lw_open w + 1"
proof -
  obtain r where "calculate_datetime env date_buffer LOG_BUFFER_DATE_LEN w = Some (True, time_stamp env @ 0 # r, w)"
    by (rule file_stamp [OF assms(1)])
  then show ?thesis
    using assms by (simp add: log_file_def time_stamp_nonzero logfile_open_def logfile_close_def
        put_file_def put_stderr_def Let_def)
qed

lemma log_syslog_delivered: "log_syslog logger d msg w = delivered False True False env logger d msg w"
  by (simp add: log_syslog_def delivered_def syslog_lines_def put_syslog_def LOG_BUFFER_SYSLOG_LEN_def Let_def)

lemma log_console_delivered:
  assumes "le_usec env < 1000000"
  shows "log_console env logger d msg w = Some (delivered False False True env logger d msg w)"
proof -
  have b: "date_buffer[0 := 0] = date_buffer" "date_buffer = [] @ 0 # replicate 27 0"
    by (simp_all add: date_buffer_def date_len numeral_eq_Suc)
  obtain r where "calculate_datetime env date_buffer LOG_BUFFER_DATE_LEN w = Some (True, time_stamp env @ 0 # r, w)"
    by (rule file_stamp [OF assms])
  moreover have "c_str date_buffer = Some []"
    unfolding b(2) by (rule c_str_zstr) simp
  ultimately show ?thesis
    by (simp add: log_console_def b(1) time_stamp_nonzero assms put_stderr_def delivered_def
        console_lines_def Let_def)
qed

lemma log_sinks_delivered:
  assumes "env_ok env (lg_file logger)"
  shows "log_sinks env logger d msg w = Some (delivered (conf_file (lg_conf logger) \<noteq> 0)
     (conf_syslog (lg_conf logger) \<noteq> 0) (conf_console (lg_conf logger) \<noteq> 0) env logger d msg w)"
proof -
  have "le_usec env < 1000000" using assms by (simp add: env_ok_def)
  then show ?thesis
    by (simp add: log_sinks_def log_file_delivered [OF assms] log_syslog_delivered [where env = env]
        log_console_delivered delivered_def console_lines_def file_lines_def syslog_lines_def Let_def)
qed

text \<open>C24. A message below the verbosity leaves no trace; any other one, debug messages only when one
  of their types is selected, goes exactly to the destinations whose bits are set in the
  configuration word: completely to the log file and to the console, cut to its first 255 bytes to
  syslog; provided the log file can be opened and flushed and the clock gives less than a million
  microseconds.\<close>

theorem log_levels:
  assumes "env_ok env (lg_file logger)"
  shows "let c = lg_conf logger; level = c AND LOG_VERBOSITY_MASK;
             emit = (\<lambda>d. delivered (c AND LOG_FILE_MASK \<noteq> 0) (c AND LOG_SYSLOG_MASK \<noteq> 0) (c AND LOG_CONSOLE_MASK \<noteq> 0)
               env logger d msg w)
         in log_error env logger file line msg w = Some (if 1 \<le> level then emit (error_data file line) else w) \<and>
            log_warn env logger msg w = Some (if 2 \<le> level then emit warn_data else w) \<and>
            log_info env logger msg w = Some (if 3 \<le> level then emit info_data else w) \<and>
            log_debug env logger types msg w = Some (if 4 \<le> level \<and>
              (c AND LOG_DEBUGTYPE_MASK) AND push_bit 8 (ucast types) \<noteq> 0 then emit debug_data else w)"
proof -
  let ?c = "lg_conf logger"
  have flags: "(conf_console ?c \<noteq> 0) = (?c AND LOG_CONSOLE_MASK \<noteq> 0)"
    "(conf_syslog ?c \<noteq> 0) = (?c AND LOG_SYSLOG_MASK \<noteq> 0)"
    "(conf_file ?c \<noteq> 0) = (?c AND LOG_FILE_MASK \<noteq> 0)"
    unfolding conf_console_def conf_syslog_def conf_file_def LOG_CONSOLE_MASK_def LOG_SYSLOG_MASK_def LOG_FILE_MASK_def
    by (rule flag_mask)+
  have level: "conf_verbosity ?c = ?c AND LOG_VERBOSITY_MASK"
    by (simp add: conf_verbosity_def bits_get_def LOG_VERBOSITY_MASK_def mask_eq_exp_minus_1)
  have types: "(conf_debugtype ?c AND ucast types = 0) = ((?c AND LOG_DEBUGTYPE_MASK) AND push_bit 8 (ucast types) = 0)"
    unfolding conf_debugtype_def bits_get_def LOG_DEBUGTYPE_MASK_def by (rule debug_types)
  show ?thesis
    by (simp add: Let_def log_error_def log_warn_def log_info_def log_debug_def log_sinks_delivered [OF assms] flags level types
        ERROR_LEVEL_def WARNING_LEVEL_def INFO_LEVEL_def DEBUG_LEVEL_def not_less one_le_word)
qed

definition demo_env :: log_env where
  "demo_env = \<lparr>le_time = \<lparr>tm_year = 24, tm_mon = 2, tm_mday = 29, tm_hour = 23, tm_min = 59, tm_sec = 58\<rparr>,
     le_usec = 7000, le_can_open = (\<lambda>_. True), le_can_flush = (\<lambda>_. True), le_stderr_tty = False, le_can_reboot = True\<rparr>"

definition demo_world :: log_world where
  "demo_world = \<lparr>lw_stderr = [], lw_files = (\<lambda>_. []), lw_syslog = [], lw_open = 0\<rparr>"

theorem log_levels_witness:
  "log_info demo_env (liblogger\<lparr>lg_terminal := False\<rparr>) (ascii ''up'') demo_world =
     Some (demo_world\<lparr>lw_stderr := ascii ''(LOG) mxc: up'' @ newline\<rparr>) \<and>
   log_debug demo_env (liblogger\<lparr>lg_terminal := False\<rparr>) 1 (ascii ''up'') demo_world = Some demo_world"
proof -
  have ok: "env_ok demo_env (lg_file (liblogger\<lparr>lg_terminal := False\<rparr>))"
    by (simp add: env_ok_def demo_env_def)
  show ?thesis
    using log_levels [OF ok, of "ascii ''up''" demo_world "[]" 0 1]
    by (simp add: liblogger_def LOG_DEFAULT_VALUE_def LOG_VERBOSITY_MASK_def LOG_FILE_MASK_def LOG_SYSLOG_MASK_def
        LOG_CONSOLE_MASK_def delivered_def demo_world_def console_lines_def message_head_def info_data_def
        conf_timestamp_def bits_get_def mask_eq_exp_minus_1 LOG_COLOR_INFO_def ascii_def Let_def)
qed

lemma log_reset_eq:
  assumes "env_ok env (lg_file logger)"
  shows "log_reset env logger file line msg w =
      Some (if lg_reset_result logger = 1 then Exits
            else if lg_reset_result logger = 2 \<and> le_can_reboot env then Reboots else Returns,
          delivered True True True env logger (reset_data file line) msg w)"
proof -
  have "le_usec env < 1000000" using assms by (simp add: env_ok_def)
  then show ?thesis
    by (simp add: log_reset_def log_file_delivered [OF assms] log_syslog_delivered [where env = env]
        log_console_delivered delivered_def console_lines_def file_lines_def syslog_lines_def Let_def)
qed

text \<open>\<open>RESET\<close> is written to the file, the system log and the console whatever the
  configuration says, and ends the process exactly for the reset result 1. The library's own logger
  starts with 0: until \<open>log_init\<close> is called, \<open>RESET\<close> returns to its caller.\<close>

lemma log_reset_outcome:
  assumes "env_ok env (lg_file logger)"
  shows "log_reset env logger file line msg w =
      Some (if lg_reset_result logger = 1 then Exits
            else if lg_reset_result logger = 2 \<and> le_can_reboot env then Reboots else Returns,
          delivered True True True env logger (reset_data file line) msg w) \<and>
    lg_reset_result (log_init env logger name) = 1 \<and> lg_reset_result liblogger = 0"
  using log_reset_eq [OF assms] by (simp add: log_init_def liblogger_def Let_def)

lemma xmalloc_fails_returns:
  assumes "env_ok env (lg_file liblogger)"
  shows "map_option fst (xmalloc_fails env liblogger file line w) = Some Returns"
  using log_reset_eq [OF assms] by (simp add: xmalloc_fails_def liblogger_def)

subsection \<open>The hex dump\<close>

definition unhex :: "byte \<Rightarrow> nat" where
  "unhex c = (if c \<ge> 65 then unat c - 55 else unat c - 48)"

fun read_hex :: "bytes \<Rightarrow> bytes" where
  "read_hex (h # l # s # r) = of_nat (unhex h * 16 + unhex l) # read_hex r"
| "read_hex _ = []"

lemma unhex_digit: "n < 16 \<Longrightarrow> unhex (hex_digit n) = n"
proof -
  assume "n < 16"
  then have "unat (of_nat (48 + n) :: byte) = 48 + n" "unat (of_nat (55 + n) :: byte) = 55 + n"
    by (simp_all only: unat_of_nat) simp_all
  then show ?thesis
    using \<open>n < 16\<close> by (auto simp: unhex_def hex_digit_def word_le_nat_alt simp del: of_nat_add)
qed

lemma read_hex_dump: "read_hex (concat (map hex_byte xs)) = xs"
proof (induction xs)
  case (Cons x xs)
  have "unat x < 16 * 16" using unsigned_less [of x] by simp
  then have "unat x div 16 < 16" by (rule less_mult_imp_div_less)
  with Cons show ?case by (simp add: hex_byte_def unhex_digit flip: of_nat_mult of_nat_add)
qed simp

lemma log_data_loop_eq:
  "i + n \<le> length data \<Longrightarrow> log_data_loop data i n w = Some (put_stderr (concat (map hex_byte (take n (drop i data)))) w)"
proof (induction n arbitrary: i w)
  case 0
  then show ?case by (simp add: put_stderr_def)
next
  case (Suc n)
  then have "drop i data = data ! i # drop (Suc i) data" by (simp add: Cons_nth_drop_Suc)
  with Suc show ?case by (simp add: put_stderr_def)
qed

lemma log_data_reads_back:
  assumes "len \<le> length data"
  shows "\<exists>dump. log_data color prefix data len w = Some (put_stderr (color @ prefix @ dump @ LOG_COLOR_OFF @ newline) w) \<and>
    read_hex dump = take len data"
  using assms by (intro exI [of _ "concat (map hex_byte (take len data))"])
    (simp add: log_data_def log_data_loop_eq read_hex_dump put_stderr_def)

end
