(* ===== verification/Stream_Ssl.thy ===== *)
theory Stream_Ssl
  imports Streams
begin

section \<open>TLS streams (source/stream_ssl.c)\<close>

text \<open>
  A TLS stream decorates another stream: OpenSSL reads and writes the decorated stream through a BIO
  whose methods are here, the stream above calls OpenSSL. OpenSSL itself is a parameter, a record of
  the functions the code calls; each of them gets the BIO methods and changes the stream below only
  through the state it is given. Messages to the log have no effect on the stream and are left out.
\<close>

subsection \<open>The BIO\<close>

text \<open>\<open>bio_data\<close>: whether the data pointer is set; it then points to the TLS stream.\<close>

record bio =
  bio_init :: bool
  bio_shutdown :: int
  bio_data :: bool
  bio_retry_read :: bool

text \<open>What a BIO method works on: the BIO and the stream part of the TLS stream it points to.\<close>

type_synonym 'd ssl_side = "bio \<times> 'd stream"

datatype bio_cmd = BIO_CTRL_GET_CLOSE | BIO_CTRL_SET_CLOSE | BIO_CTRL_FLUSH | BIO_CTRL_DUP | BIO_CTRL_OTHER int

record 'd bio_method =
  bm_read :: "int \<Rightarrow> 'd ssl_side \<Rightarrow> world \<Rightarrow> (int \<times> bytes \<times> 'd ssl_side \<times> world) option"
  bm_write :: "bytes \<Rightarrow> 'd ssl_side \<Rightarrow> world \<Rightarrow> (int \<times> 'd ssl_side \<times> world) option"
  bm_ctrl :: "bio_cmd \<Rightarrow> int \<Rightarrow> 'd ssl_side \<Rightarrow> world \<Rightarrow> (int \<times> 'd ssl_side \<times> world) option"

definition bio_stream_ssl_new :: "bio \<Rightarrow> int \<times> bio" where
  "bio_stream_ssl_new b = (1, b\<lparr>bio_init := False, bio_data := False\<rparr>)"

text \<open>An \<open>int\<close> passed as a \<open>size_t\<close>.\<close>

definition size_of_int :: "int \<Rightarrow> nat" where
  "size_of_int n = nat (n mod 2 ^ 64)"

definition bio_stream_ssl_read ::
    "'d stream_ops \<Rightarrow> int \<Rightarrow> 'd ssl_side \<Rightarrow> world \<Rightarrow> (int \<times> bytes \<times> 'd ssl_side \<times> world) option" where
  "bio_stream_ssl_read ops outl = (\<lambda>(b, st) w.
     if outl = 0 then Some (0, [], (b, st), w)
     else if \<not> bio_data b then Some (0, [], (b, st), w)
     else do {
       let b = b\<lparr>bio_retry_read := False\<rparr>;
       d \<leftarrow> st_decorated st;
       (r, xs, d, w) \<leftarrow> op_read ops d (size_of_int outl) w;
       let st = st\<lparr>st_decorated := Some d\<rparr>;
       let ret = c_int r;
       let b = (if ret > 0 \<and> ret \<noteq> outl then b\<lparr>bio_retry_read := True\<rparr>
                else if ret < 0 then (if w_errno w = E_AGAIN then b\<lparr>bio_retry_read := True\<rparr> else b)
                else b);
       Some (ret, xs, (b, st), w)
     })"

definition bio_stream_ssl_write ::
    "'d stream_ops \<Rightarrow> bytes \<Rightarrow> 'd ssl_side \<Rightarrow> world \<Rightarrow> (int \<times> 'd ssl_side \<times> world) option" where
  "bio_stream_ssl_write ops xs = (\<lambda>(b, st) w.
     if xs = [] then Some (0, (b, st), w)
     else if \<not> bio_data b then Some (0, (b, st), w)
     else do {
       d \<leftarrow> st_decorated st;
       (r, d, w) \<leftarrow> op_write ops d xs w;
       Some (c_int r, (b, st\<lparr>st_decorated := Some d\<rparr>), w)
     })"

text \<open>\<open>BIO_CTRL_FLUSH\<close> flushes the TLS stream, whose flush is the one of a plain stream.\<close>

definition bio_stream_ssl_ctrl ::
    "'d stream_ops \<Rightarrow> bio_cmd \<Rightarrow> int \<Rightarrow> 'd ssl_side \<Rightarrow> world \<Rightarrow> (int \<times> 'd ssl_side \<times> world) option" where
  "bio_stream_ssl_ctrl ops cmd num = (\<lambda>(b, st) w.
     if \<not> bio_data b then Some (0, (b, st), w)
     else case cmd of
         BIO_CTRL_GET_CLOSE \<Rightarrow> Some (bio_shutdown b, (b, st), w)
       | BIO_CTRL_SET_CLOSE \<Rightarrow> Some (1, (b\<lparr>bio_shutdown := num\<rparr>, st), w)
       | BIO_CTRL_FLUSH \<Rightarrow> do { (_, st, w) \<leftarrow> stream_do_flush ops st w; Some (1, (b, st), w) }
       | BIO_CTRL_DUP \<Rightarrow> Some (1, (b, st), w)
       | BIO_CTRL_OTHER _ \<Rightarrow> Some (0, (b, st), w))"

text \<open>The text up to the zero of \<open>str\<close>.\<close>

definition bio_stream_ssl_puts ::
    "'d stream_ops \<Rightarrow> bytes \<Rightarrow> 'd ssl_side \<Rightarrow> world \<Rightarrow> (int \<times> 'd ssl_side \<times> world) option" where
  "bio_stream_ssl_puts ops str side w =
     (if 0 \<in> set str then bio_stream_ssl_write ops (takeWhile (\<lambda>c. c \<noteq> 0) str) side w else None)"

text \<open>
  \<open>delete\<close> is the destruction of the stream the BIO points to, \<open>BIO_free\<close> the one of the BIO; a null BIO
  is \<open>None\<close>. The state \<open>'w\<close> is what they work on.
\<close>

definition bio_stream_ssl_free ::
    "('w \<Rightarrow> 'w option) \<Rightarrow> (bio \<Rightarrow> 'w \<Rightarrow> 'w option) \<Rightarrow> bio option \<Rightarrow> 'w \<Rightarrow> (int \<times> 'w) option" where
  "bio_stream_ssl_free delete BIO_free bo w = (case bo of
     None \<Rightarrow> Some (0, w)
   | Some b \<Rightarrow>
       if bio_shutdown b \<noteq> 0 then do {
         (b, w) \<leftarrow> (if bio_init b then do {
             (b, w) \<leftarrow> (if bio_data b then do { w \<leftarrow> delete w; Some (b\<lparr>bio_data := False\<rparr>, w) } else Some (b, w));
             Some (b\<lparr>bio_init := False\<rparr>, w)
           } else Some (b, w));
         w \<leftarrow> BIO_free b w;
         Some (1, w)
       } else Some (1, w))"

definition bio_stream_ssl_method :: "'d stream_ops \<Rightarrow> 'd bio_method" where
  "bio_stream_ssl_method ops = \<lparr>bm_read = bio_stream_ssl_read ops, bm_write = bio_stream_ssl_write ops,
     bm_ctrl = bio_stream_ssl_ctrl ops\<rparr>"

subsection \<open>OpenSSL\<close>

datatype ssl_error = SSL_ERROR_NONE | SSL_ERROR_SSL | SSL_ERROR_WANT_READ | SSL_ERROR_WANT_WRITE
  | SSL_ERROR_WANT_X509_LOOKUP | SSL_ERROR_SYSCALL | SSL_ERROR_ZERO_RETURN | SSL_ERROR_OTHER int

record ('s, 'd) ssl_api =
  SSL_new :: 's
  SSL_set_accept_state :: "'s \<Rightarrow> 's"
  SSL_set_connect_state :: "'s \<Rightarrow> 's"
  SSL_renegotiate :: "'s \<Rightarrow> 's"
  SSL_is_init_finished :: "'s \<Rightarrow> bool"
  SSL_get_error :: "'s \<Rightarrow> bio \<Rightarrow> int \<Rightarrow> world \<Rightarrow> ssl_error"
  SSL_do_handshake :: "'d bio_method \<Rightarrow> 's \<Rightarrow> 'd ssl_side \<Rightarrow> world \<Rightarrow> (int \<times> 's \<times> 'd ssl_side \<times> world) option"
  SSL_read :: "'d bio_method \<Rightarrow> int \<Rightarrow> 's \<Rightarrow> 'd ssl_side \<Rightarrow> world \<Rightarrow> (int \<times> bytes \<times> 's \<times> 'd ssl_side \<times> world) option"
  SSL_write :: "'d bio_method \<Rightarrow> bytes \<Rightarrow> int \<Rightarrow> 's \<Rightarrow> 'd ssl_side \<Rightarrow> world \<Rightarrow> (int \<times> 's \<times> 'd ssl_side \<times> world) option"

subsection \<open>The stream\<close>

record ('s, 'd) stream_ssl =
  sl_stream :: "'d stream"
  sl_ssl :: 's
  sl_bio :: bio

text \<open>\<open>BIO_new\<close> gives a BIO that its create method has set up.\<close>

definition stream_ssl_new :: "('s, 'd) ssl_api \<Rightarrow> 'd \<Rightarrow> ('s, 'd) stream_ssl" where
  "stream_ssl_new api decorated =
     (let b = snd (bio_stream_ssl_new \<lparr>bio_init = False, bio_shutdown = 1, bio_data = False, bio_retry_read = False\<rparr>);
          b = b\<lparr>bio_shutdown := 0\<rparr>;
          b = b\<lparr>bio_data := True\<rparr>;
          b = b\<lparr>bio_init := True\<rparr>
      in \<lparr>sl_stream = stream_init (-1) (Some decorated), sl_ssl = SSL_new api, sl_bio = b\<rparr>)"

text \<open>
  The BIO of a new stream does not delete the stream when OpenSSL frees it, and no control command but
  \<open>BIO_CTRL_SET_CLOSE\<close> changes that.
\<close>

lemma bio_free_keeps_stream:
  "bio_stream_ssl_free delete BIO_free (Some (sl_bio (stream_ssl_new api d))) w = Some (1, w)"
  by (simp add: bio_stream_ssl_free_def stream_ssl_new_def Let_def)

lemma bio_ctrl_shutdown:
  "bio_stream_ssl_ctrl ops cmd num (b, st) w = Some (r, (b', st'), w') \<Longrightarrow> cmd \<noteq> BIO_CTRL_SET_CLOSE \<Longrightarrow>
   bio_shutdown b' = bio_shutdown b"
  by (auto simp: bio_stream_ssl_ctrl_def bind_eq_Some_conv split: if_splits bio_cmd.splits)

definition stream_ssl_get_decorated :: "('s, 'd) stream_ssl \<Rightarrow> 'd option" where
  "stream_ssl_get_decorated self = st_decorated (sl_stream self)"

definition stream_ssl_accept :: "('s, 'd) ssl_api \<Rightarrow> ('s, 'd) stream_ssl \<Rightarrow> ('s, 'd) stream_ssl" where
  "stream_ssl_accept api self = self\<lparr>sl_ssl := SSL_set_accept_state api (sl_ssl self)\<rparr>"

definition stream_ssl_renegotiate :: "('s, 'd) ssl_api \<Rightarrow> ('s, 'd) stream_ssl \<Rightarrow> ('s, 'd) stream_ssl" where
  "stream_ssl_renegotiate api self = self\<lparr>sl_ssl := SSL_renegotiate api (sl_ssl self)\<rparr>"

definition after_ssl :: "('s, 'd) stream_ssl \<Rightarrow> 's \<Rightarrow> 'd ssl_side \<Rightarrow> ('s, 'd) stream_ssl" where
  "after_ssl self s side = self\<lparr>sl_ssl := s, sl_bio := fst side, sl_stream := snd side\<rparr>"

definition ssl_get_error :: "('s, 'd) ssl_api \<Rightarrow> ('s, 'd) stream_ssl \<Rightarrow> int \<Rightarrow> world \<Rightarrow> ssl_error" where
  "ssl_get_error api self ret w = SSL_get_error api (sl_ssl self) (sl_bio self) ret w"

definition stream_ssl_do_handshake ::
    "('s, 'd) ssl_api \<Rightarrow> 'd stream_ops \<Rightarrow> ('s, 'd) stream_ssl \<Rightarrow> world \<Rightarrow> (int \<times> ('s, 'd) stream_ssl \<times> world) option" where
  "stream_ssl_do_handshake api ops self w = do {
     (ret, s, side, w) \<leftarrow> SSL_do_handshake api (bio_stream_ssl_method ops) (sl_ssl self) (sl_bio self, sl_stream self) w;
     let self = after_ssl self s side;
     let finish = (\<lambda>w. Some (ret,
           if SSL_is_init_finished api (sl_ssl self)
           then self\<lparr>sl_stream := stream_set_status (sl_stream self) STREAM_ST_READY\<rparr> else self, w));
     if ret \<le> 0
     then (case ssl_get_error api self ret w of
         SSL_ERROR_WANT_WRITE \<Rightarrow> finish (w\<lparr>w_errno := E_AGAIN\<rparr>)
       | SSL_ERROR_WANT_READ \<Rightarrow> finish (w\<lparr>w_errno := E_AGAIN\<rparr>)
       | SSL_ERROR_SYSCALL \<Rightarrow> Some (0, self, w)
       | _ \<Rightarrow> finish w)
     else finish w
   }"

definition stream_ssl_connect ::
    "('s, 'd) ssl_api \<Rightarrow> 'd stream_ops \<Rightarrow> ('s, 'd) stream_ssl \<Rightarrow> world \<Rightarrow> (('s, 'd) stream_ssl \<times> world) option" where
  "stream_ssl_connect api ops self w = do {
     let self = self\<lparr>sl_ssl := SSL_set_connect_state api (sl_ssl self)\<rparr>;
     (_, self, w) \<leftarrow> stream_ssl_do_handshake api ops self w;
     Some (self, w)
   }"

text \<open>The first lines of reading and writing: the result to return at once, if any.\<close>

definition ssl_ready ::
    "('s, 'd) ssl_api \<Rightarrow> 'd stream_ops \<Rightarrow> ('s, 'd) stream_ssl \<Rightarrow> world \<Rightarrow> (int option \<times> ('s, 'd) stream_ssl \<times> world) option" where
  "ssl_ready api ops self w =
     (if \<not> SSL_is_init_finished api (sl_ssl self) then do {
        (ret, self, w) \<leftarrow> stream_ssl_do_handshake api ops self w;
        Some (if ret \<le> 0 then Some ret else None, self, w)
      }
      else Some (None, self, w))"

definition stream_ssl_do_read ::
    "('s, 'd) ssl_api \<Rightarrow> 'd stream_ops \<Rightarrow> ('s, 'd) stream_ssl \<Rightarrow> nat \<Rightarrow> world \<Rightarrow>
      (int \<times> bytes \<times> ('s, 'd) stream_ssl \<times> world) option" where
  "stream_ssl_do_read api ops self len w = do {
     (early, self, w) \<leftarrow> ssl_ready api ops self w;
     case early of
       Some ret \<Rightarrow> Some (ret, [], self, w)
     | None \<Rightarrow>
         if SSL_is_init_finished api (sl_ssl self) then do {
           (ret, xs, s, side, w) \<leftarrow> SSL_read api (bio_stream_ssl_method ops) (c_int (int len)) (sl_ssl self)
                                    (sl_bio self, sl_stream self) w;
           let self = after_ssl self s side;
           if ret > 0 then Some (ret, xs, self, w)
           else case ssl_get_error api self ret w of
               SSL_ERROR_ZERO_RETURN \<Rightarrow> Some (0, [], self, w)
             | SSL_ERROR_NONE \<Rightarrow> Some (-1, [], self, w\<lparr>w_errno := E_AGAIN\<rparr>)
             | SSL_ERROR_WANT_WRITE \<Rightarrow> Some (-1, [], self, w\<lparr>w_errno := E_AGAIN\<rparr>)
             | SSL_ERROR_WANT_READ \<Rightarrow> Some (-1, [], self, w\<lparr>w_errno := E_AGAIN\<rparr>)
             | SSL_ERROR_SYSCALL \<Rightarrow> Some (ret, [], self, w)
             | SSL_ERROR_SSL \<Rightarrow> Some (-1, [], self, w)
             | _ \<Rightarrow> Some (-1, [], self, w)
         }
         else Some (-1, [], self, w\<lparr>w_errno := E_AGAIN\<rparr>)
   }"

definition stream_ssl_do_write ::
    "('s, 'd) ssl_api \<Rightarrow> 'd stream_ops \<Rightarrow> ('s, 'd) stream_ssl \<Rightarrow> bytes \<Rightarrow> world \<Rightarrow>
      (int \<times> ('s, 'd) stream_ssl \<times> world) option" where
  "stream_ssl_do_write api ops self xs w = do {
     (early, self, w) \<leftarrow> ssl_ready api ops self w;
     case early of
       Some ret \<Rightarrow> Some (ret, self, w)
     | None \<Rightarrow>
         if SSL_is_init_finished api (sl_ssl self) then do {
           (ret, s, side, w) \<leftarrow> SSL_write api (bio_stream_ssl_method ops) xs (c_int (int (length xs))) (sl_ssl self)
                                (sl_bio self, sl_stream self) w;
           let self = after_ssl self s side;
           if ret > 0 then Some (ret, self, w)
           else case ssl_get_error api self ret w of
               SSL_ERROR_ZERO_RETURN \<Rightarrow> Some (0, self, w)
             | SSL_ERROR_NONE \<Rightarrow> Some (ret, self, w\<lparr>w_errno := E_AGAIN\<rparr>)
             | SSL_ERROR_WANT_WRITE \<Rightarrow> Some (ret, self, w\<lparr>w_errno := E_AGAIN\<rparr>)
             | SSL_ERROR_WANT_READ \<Rightarrow> Some (ret, self, w\<lparr>w_errno := E_AGAIN\<rparr>)
             | SSL_ERROR_SYSCALL \<Rightarrow> Some (0, self, w)
             | SSL_ERROR_SSL \<Rightarrow> Some (-1, self, w)
             | _ \<Rightarrow> Some (-1, self, w)
         }
         else Some (-1, self, w\<lparr>w_errno := E_AGAIN\<rparr>)
   }"

text \<open>The vtable; everything else works on the stream part.\<close>

definition ssl_ops :: "('s, 'd) ssl_api \<Rightarrow> 'd stream_ops \<Rightarrow> ('s, 'd) stream_ssl stream_ops" where
  "ssl_ops api ops =
     (let on_stream = (\<lambda>f self w. do { (ret, st, w) \<leftarrow> f (sl_stream self) w; Some (ret :: int, self\<lparr>sl_stream := st\<rparr>, w :: world) })
      in \<lparr>op_read = stream_ssl_do_read api ops, op_write = stream_ssl_do_write api ops,
          op_flush = on_stream (stream_do_flush ops), op_time = on_stream (stream_do_time ops),
          op_get_fd = (\<lambda>self. stream_get_fd ops (sl_stream self)),
          op_get_status = (\<lambda>self. stream_get_status (sl_stream self)),
          op_has_outgoing_data = (\<lambda>self. stream_has_outgoing_data ops (sl_stream self)),
          op_handle_outgoing_data = on_stream (stream_handle_outgoing_data ops),
          op_reset_outgoing_data = (\<lambda>self. self\<lparr>sl_stream := stream_reset_outgoing_data ops (sl_stream self)\<rparr>)\<rparr>)"

subsection \<open>Nothing but the handshake before it is finished\<close>

lemma ssl_ready_unfinished:
  assumes "\<not> SSL_is_init_finished api (sl_ssl self)"
    and "stream_ssl_do_handshake api ops self w = Some (ret, self', w')"
  shows "ssl_ready api ops self w = Some (if ret \<le> 0 then Some ret else None, self', w')"
  using assms by (simp add: ssl_ready_def)

text \<open>C17. As long as the handshake is not finished no application data passes: when an attempt at
  it fails or leaves it unfinished, writing and reading do nothing but that attempt. They do not
  accept or deliver a single byte, leave the state the attempt left, and report its result, or
  try again.\<close>

theorem ssl_no_data_before_handshake:
  assumes "\<not> SSL_is_init_finished api (sl_ssl self)"
    and "stream_ssl_do_handshake api ops self w = Some (ret, self', w')"
    and "ret \<le> 0 \<or> \<not> SSL_is_init_finished api (sl_ssl self')"
  shows "op_write (ssl_ops api ops) self xs w =
      Some (if ret \<le> 0 then (ret, self', w') else (-1, self', w'\<lparr>w_errno := E_AGAIN\<rparr>)) \<and>
    op_read (ssl_ops api ops) self len w =
      Some (if ret \<le> 0 then (ret, [], self', w') else (-1, [], self', w'\<lparr>w_errno := E_AGAIN\<rparr>))"
  using assms(3) ssl_ready_unfinished [OF assms(1, 2)]
  by (auto simp: ssl_ops_def Let_def stream_ssl_do_write_def stream_ssl_do_read_def)

subsection \<open>Errors of OpenSSL as results of the stream\<close>

definition ssl_try_again :: "ssl_error \<Rightarrow> bool" where
  "ssl_try_again e \<longleftrightarrow> e = SSL_ERROR_NONE \<or> e = SSL_ERROR_WANT_READ \<or> e = SSL_ERROR_WANT_WRITE"

text \<open>What a reader sees when OpenSSL delivers nothing: end of file exactly for a closed
  connection or a system error without data, and try again for the three errors that mean it, but
  also for every fatal error that finds \<open>EAGAIN\<close> in \<open>errno\<close>, which nothing on the way resets.\<close>

lemma ssl_read_errors:
  assumes "SSL_is_init_finished api (sl_ssl self)"
    and "SSL_read api (bio_stream_ssl_method ops) (c_int (int len)) (sl_ssl self) (sl_bio self, sl_stream self) w =
      Some (ret, xs, s, side, w')"
    and "ret \<le> 0" and "e = ssl_get_error api (after_ssl self s side) ret w'"
  shows "\<exists>r w''. op_read (ssl_ops api ops) self len w = Some (r, [], after_ssl self s side, w'') \<and> r \<le> 0 \<and>
    (r = 0 \<longleftrightarrow> e = SSL_ERROR_ZERO_RETURN \<or> e = SSL_ERROR_SYSCALL \<and> ret = 0) \<and>
    (r < 0 \<and> w_errno w'' = E_AGAIN \<longleftrightarrow> ssl_try_again e \<or>
      w_errno w' = E_AGAIN \<and> e \<noteq> SSL_ERROR_ZERO_RETURN \<and> (e = SSL_ERROR_SYSCALL \<longrightarrow> ret < 0))"
  using assms(1-3) unfolding assms(4)
  by (auto simp: ssl_ops_def Let_def stream_ssl_do_read_def ssl_ready_def ssl_try_again_def split: ssl_error.split)

subsection \<open>The retry flag of the BIO\<close>

text \<open>
  The flag is right after every read. Writing leaves it alone, so a refused write must not mean try
  again: the layers below never refuse that way, they queue what they cannot send.
\<close>

lemma bio_read_retry:
  assumes "outl \<noteq> 0" "bio_data b" "bio_stream_ssl_read ops outl (b, st) w = Some (ret, xs, (b', st'), w')"
  shows "bio_retry_read b' \<longleftrightarrow> 0 < ret \<and> ret \<noteq> outl \<or> ret < 0 \<and> w_errno w' = E_AGAIN"
  using assms by (auto simp: bio_stream_ssl_read_def Let_def split: Option.bind_splits if_splits)

lemma bio_write_flags:
  "bio_stream_ssl_write ops xs (b, st) w = Some (ret, (b', st'), w') \<Longrightarrow> b' = b"
  by (auto simp: bio_stream_ssl_write_def split: Option.bind_splits if_splits)

context stream_writer
begin

lemma bio_write_never_retry:
  assumes "over st" "bio_data b" "xs \<noteq> []" "length xs < limit"
  shows "\<exists>ret st' w'. bio_stream_ssl_write ops xs (b, st) w = Some (ret, (b, st'), w') \<and> over st' \<and>
    (int (length xs) \<le> ret \<and> (\<exists>ys. wire xs ys \<and> sent_over st' w' = sent_over st w @ ys) \<or>
     ret < 0 \<and> w_errno w' \<noteq> E_AGAIN \<and> sent_over st' w' = sent_over st w)"
proof -
  obtain d where d: "st_decorated st = Some d" "inv d" "st_outgoing st = []"
    using assms(1) by (auto simp: over_def)
  obtain ret d' w' where w: "op_write ops d xs w = Some (ret, d', w')" "inv d'"
    and r: "int (length xs) \<le> ret \<and> ret < 2 ^ 31 \<and> (\<exists>ys. wire xs ys \<and> sent d' w' = sent d w @ ys) \<or>
      ret < 0 \<and> - (2 ^ 31) \<le> ret \<and> w_errno w' \<noteq> E_AGAIN \<and> sent d' w' = sent d w"
    using write_law [OF d(2) assms(3,4), of w] by blast
  have "c_int ret = ret" using r by (intro c_int_small) auto
  with d w r assms(2,3) show ?thesis
    by (auto simp: bio_stream_ssl_write_def over_def sent_over_def)
qed

end

subsection \<open>A protocol without encryption\<close>

text \<open>The handshake waits for one byte of the peer, then the data passes as it is.\<close>

definition plain_api :: "(bool, 'd) ssl_api" where
  "plain_api = \<lparr>SSL_new = False, SSL_set_accept_state = (\<lambda>s. s), SSL_set_connect_state = (\<lambda>s. s),
     SSL_renegotiate = (\<lambda>_. False), SSL_is_init_finished = (\<lambda>s. s),
     SSL_get_error = (\<lambda>s b ret w. if bio_retry_read b then SSL_ERROR_WANT_READ
        else if ret = 0 then SSL_ERROR_ZERO_RETURN else SSL_ERROR_SYSCALL),
     SSL_do_handshake = (\<lambda>m s side w. do { (ret, xs, side, w) \<leftarrow> bm_read m 1 side w; Some (ret, 0 < ret, side, w) }),
     SSL_read = (\<lambda>m n s side w. do { (ret, xs, side, w) \<leftarrow> bm_read m n side w; Some (ret, xs, s, side, w) }),
     SSL_write = (\<lambda>m xs n s side w. do { (ret, side, w) \<leftarrow> bm_write m (take (nat n) xs) side w; Some (ret, s, side, w) })\<rparr>"

text \<open>Over such a protocol the stream writes what the decorated stream would.\<close>

lemma ssl_write_through:
  assumes "sl_ssl self" "bio_data (sl_bio self)" "st_decorated (sl_stream self) = Some d"
    and "xs \<noteq> []" "length xs < 2 ^ 31" "op_write ops d xs w = Some (ret, d', w')" "0 < c_int ret"
  shows "op_write (ssl_ops plain_api ops) self xs w =
    Some (c_int ret, self\<lparr>sl_stream := (sl_stream self)\<lparr>st_decorated := Some d'\<rparr>\<rparr>, w')"
  using assms
  by (simp add: ssl_ops_def Let_def stream_ssl_do_write_def ssl_ready_def plain_api_def bio_stream_ssl_method_def
      bio_stream_ssl_write_def after_ssl_def)

definition world_idle :: world where
  "world_idle = \<lparr>w_errno = E_NONE, w_rd = \<lambda>_. [], w_wr = \<lambda>_. [], w_out = \<lambda>_. [],
     w_clock = \<lparr>clock_ms = 0, clock_s = 0, clock_chrono = 0, sys_sec = 0, sys_nsec = 0, sys_time = 0\<rparr>,
     w_rand = \<lambda>_. 0, w_rand_pos = 0\<rparr>"

lemmas plain_simps = ssl_ops_def Let_def stream_ssl_do_handshake_def stream_ssl_new_def bio_stream_ssl_new_def
  plain_api_def bio_stream_ssl_method_def bio_stream_ssl_read_def after_ssl_def ssl_get_error_def base_ops_def
  stream_ops_of_def stream_do_read_def stream_real_read_def sys_read_def stream_new_def stream_init_def
  size_of_int_def world_idle_def

lemma plain_handshake_waits:
  "\<exists>self'. stream_ssl_do_handshake plain_api base_ops (stream_ssl_new plain_api (stream_new 5)) world_idle =
     Some (-1, self', world_idle\<lparr>w_errno := E_AGAIN\<rparr>)"
  by (simp add: plain_simps)

theorem ssl_no_data_before_handshake_witness:
  "\<exists>self'. op_write (ssl_ops plain_api base_ops) (stream_ssl_new plain_api (stream_new 5)) [1, 2] world_idle =
     Some (-1, self', world_idle\<lparr>w_errno := E_AGAIN\<rparr>)"
proof -
  obtain self' where h: "stream_ssl_do_handshake plain_api base_ops (stream_ssl_new plain_api (stream_new 5)) world_idle =
     Some (-1, self', world_idle\<lparr>w_errno := E_AGAIN\<rparr>)"
    using plain_handshake_waits by blast
  have "\<not> SSL_is_init_finished plain_api (sl_ssl (stream_ssl_new plain_api (stream_new 5)))"
    by (simp add: plain_api_def stream_ssl_new_def Let_def)
  from ssl_no_data_before_handshake [OF this h] show ?thesis by simp
qed

end
