(* ===== verification/Ssl.thy ===== *)
theory Ssl
  imports Http
begin

section \<open>TLS contexts (source/ssl.c)\<close>

text \<open>
  The OpenSSL context is a parameter: a record of the functions the code calls on it. The count of
  contexts, the certificate callback and the callbacks for pre-shared keys are the code's own.
  Text printed by the callbacks is left out.
\<close>

definition SSL_VERIFY_NONE :: int where "SSL_VERIFY_NONE = 0"
definition SSL_VERIFY_PEER :: int where "SSL_VERIFY_PEER = 1"
definition SSL_VERIFY_FAIL_IF_NO_PEER_CERT :: int where "SSL_VERIFY_FAIL_IF_NO_PEER_CERT = 2"
definition SSL_VERIFY_CLIENT_ONCE :: int where "SSL_VERIFY_CLIENT_ONCE = 4"

subsection \<open>The certificate callback\<close>

record verify_options =
  vo_depth :: int
  vo_quiet :: int
  vo_error :: int
  vo_return_error :: int

definition X509_V_OK :: int where "X509_V_OK = 0"
definition X509_V_ERR_CERT_CHAIN_TOO_LONG :: int where "X509_V_ERR_CERT_CHAIN_TOO_LONG = 22"

definition verify_args0 :: verify_options where
  "verify_args0 = \<lparr>vo_depth = -1, vo_quiet = 0, vo_error = X509_V_OK, vo_return_error = 0\<rparr>"

text \<open>
  What the callback reads from the certificate store: whether there is a certificate, the line
  OpenSSL makes of its subject, if it can, the error and the depth.
\<close>

record x509_store_ctx =
  xs_current_cert :: "bytes option option"
  xs_error :: int
  xs_error_depth :: int

definition verify_callback :: "int \<Rightarrow> x509_store_ctx \<Rightarrow> verify_options \<Rightarrow> int \<times> verify_options" where
  "verify_callback ok ctx args =
     (let early = (if vo_quiet args = 0 \<or> ok = 0
           then (case xs_current_cert ctx of
               None \<Rightarrow> None
             | Some None \<Rightarrow> Some 0
             | Some (Some b) \<Rightarrow> if b = [] then Some 1 else None)
           else None)
      in case early of
           Some r \<Rightarrow> (r, args)
         | None \<Rightarrow>
             if ok = 0
             then (if vo_depth args < 0 \<or> vo_depth args \<ge> xs_error_depth ctx
                   then (if vo_return_error args = 0 then 1 else 0, args\<lparr>vo_error := xs_error ctx\<rparr>)
                   else (0, args\<lparr>vo_error := X509_V_ERR_CERT_CHAIN_TOO_LONG\<rparr>))
             else (ok, args))"

subsection \<open>Pre-shared keys\<close>

definition psk_identity :: bytes where "psk_identity = ascii ''PSK-IDENTITY''"
definition psk_key :: bytes where "psk_key = [1, 2, 3, 4, 5, 6, 7, 8, 9, 0, 1]"

text \<open>The result is the length of the key, 0 for none, with both output blocks.\<close>

definition psk_client_cb :: "bytes \<Rightarrow> nat \<Rightarrow> bytes \<Rightarrow> nat \<Rightarrow> (nat \<times> bytes \<times> bytes) option" where
  "psk_client_cb identity max_identity_len psk max_psk_len = do {
     let ret = length psk_identity;
     identity \<leftarrow> c_snprintf identity 0 max_identity_len psk_identity;
     if ret > max_identity_len then Some (0, identity, psk)
     else if length psk_key > max_psk_len then Some (0, identity, psk)
     else do { psk \<leftarrow> mem_write psk psk_key; Some (length psk_key, identity, psk) }
   }"

definition psk_server_cb :: "bytes \<Rightarrow> nat \<Rightarrow> (nat \<times> bytes) option" where
  "psk_server_cb psk max_psk_len =
     (if length psk_key > max_psk_len then Some (0, psk)
      else do { psk \<leftarrow> mem_write psk psk_key; Some (length psk_key, psk) })"

subsection \<open>Contexts\<close>

record 'c ssl_ctx_api =
  SSL_CTX_new :: "'c option"
  SSL_CTX_set_options :: "'c \<Rightarrow> 'c"
  SSL_CTX_set_mode :: "'c \<Rightarrow> 'c"
  SSL_CTX_set_verify :: "'c \<Rightarrow> int \<Rightarrow> 'c"
  SSL_CTX_load_verify_locations :: "'c \<Rightarrow> bytes \<Rightarrow> 'c"
  SSL_CTX_use_certificate_file :: "'c \<Rightarrow> bytes \<Rightarrow> int \<times> 'c"
  SSL_CTX_use_PrivateKey_file :: "'c \<Rightarrow> bytes \<Rightarrow> int \<times> 'c"
  SSL_CTX_check_private_key :: "'c \<Rightarrow> int"

text \<open>\<open>ssl_usage\<close>, and how often the library was set up and torn down.\<close>

record ssl_global =
  ssl_usage :: "32 word"
  ssl_inits :: nat
  ssl_cleans :: nat

text \<open>A context that cannot be made restarts the process.\<close>

definition ssl_init :: "'c ssl_ctx_api \<Rightarrow> ssl_global \<Rightarrow> ('c \<times> ssl_global) option" where
  "ssl_init api g = do {
     let first = (ssl_usage g = 0);
     let g = g\<lparr>ssl_usage := ssl_usage g + 1\<rparr>;
     let g = (if first then g\<lparr>ssl_inits := ssl_inits g + 1\<rparr> else g);
     ctx \<leftarrow> SSL_CTX_new api;
     let ctx = SSL_CTX_set_options api ctx;
     let ctx = SSL_CTX_set_mode api ctx;
     Some (ctx, g)
   }"

definition ssl_clean :: "ssl_global \<Rightarrow> ssl_global" where
  "ssl_clean g =
     (if ssl_usage g > 0
      then let g = g\<lparr>ssl_usage := ssl_usage g - 1\<rparr>
           in if ssl_usage g = 0 then g\<lparr>ssl_cleans := ssl_cleans g + 1\<rparr> else g
      else g)"

definition ssl_new :: "'c ssl_ctx_api \<Rightarrow> ssl_global \<Rightarrow> ('c \<times> ssl_global) option" where
  "ssl_new api g = ssl_init api g"

definition ssl_delete :: "ssl_global \<Rightarrow> ssl_global" where
  "ssl_delete g = ssl_clean g"

text \<open>Which of the three messages about an error are written, and the last one if all is well.\<close>

definition ssl_set_certfile :: "'c ssl_ctx_api \<Rightarrow> 'c \<Rightarrow> bytes \<Rightarrow> bytes \<Rightarrow> (bool \<times> bool \<times> bool) \<times> 'c" where
  "ssl_set_certfile api ctx certfile keyfile =
     (let (r1, ctx) = SSL_CTX_use_certificate_file api ctx certfile;
          (r2, ctx) = SSL_CTX_use_PrivateKey_file api ctx keyfile;
          r3 = SSL_CTX_check_private_key api ctx
      in ((r1 \<noteq> 1, r2 \<noteq> 1, r3 \<noteq> 1), ctx))"

definition ssl_set_cafile :: "'c ssl_ctx_api \<Rightarrow> 'c \<Rightarrow> bytes \<Rightarrow> 'c" where
  "ssl_set_cafile api ctx cafile = SSL_CTX_load_verify_locations api ctx cafile"

text \<open>\<open>verify\<close> is assigned where \<open>verify_flags\<close> was meant; as a \<open>bool\<close> it becomes true.\<close>

definition ssl_set_verify_peer :: "'c ssl_ctx_api \<Rightarrow> 'c \<Rightarrow> bool \<Rightarrow> 'c" where
  "ssl_set_verify_peer api ctx verify =
     (let verify_flags = SSL_VERIFY_NONE;
          verify = (if verify
            then or (or SSL_VERIFY_PEER SSL_VERIFY_FAIL_IF_NO_PEER_CERT) SSL_VERIFY_CLIENT_ONCE \<noteq> 0 else verify)
      in SSL_CTX_set_verify api ctx verify_flags)"

subsection \<open>Peers are not verified\<close>

text \<open>Asking for the certificate of the peer to be verified has no effect: the verification mode
  is set to none whatever the argument is. Even if the callback were called, with the options the
  file starts with it turns every verification error of a certificate that can be printed, at any
  depth, into acceptance.\<close>

lemma ssl_peer_never_verified:
  "ssl_set_verify_peer api ctx verify = SSL_CTX_set_verify api ctx SSL_VERIFY_NONE \<and>
   (xs_current_cert store \<noteq> Some None \<longrightarrow> fst (verify_callback 0 store verify_args0) = 1)"
  by (auto simp: ssl_set_verify_peer_def verify_callback_def verify_args0_def Let_def split: option.splits)

text \<open>With \<open>return_error\<close> set the callback would refuse, and a depth limit refuses beyond it.\<close>

lemma verify_callback_refuses:
  assumes "xs_current_cert store \<noteq> Some (Some [])"
    and "vo_return_error args \<noteq> 0 \<or> 0 \<le> vo_depth args \<and> vo_depth args < xs_error_depth store"
  shows "fst (verify_callback 0 store args) = 0"
  using assms by (auto simp: verify_callback_def Let_def split: option.splits)

subsection \<open>The count of contexts\<close>

text \<open>\<open>ssl_live g n\<close>: \<open>n\<close> contexts are in use, and the library is set up exactly when there is one.\<close>

definition ssl_live :: "ssl_global \<Rightarrow> nat \<Rightarrow> bool" where
  "ssl_live g n \<longleftrightarrow> n < 2 ^ 32 \<and> unat (ssl_usage g) = n \<and> ssl_inits g = ssl_cleans g + (if n = 0 then 0 else 1)"

lemma ssl_new_live:
  assumes "ssl_live g n" "n + 1 < 2 ^ 32" "SSL_CTX_new api = Some c"
  shows "\<exists>ctx g'. ssl_new api g = Some (ctx, g') \<and> ssl_live g' (n + 1)"
proof -
  have "unat (ssl_usage g + 1) = n + 1"
    using assms(1,2) by (simp add: ssl_live_def unat_word_ariths)
  then show ?thesis
    using assms by (auto simp: ssl_new_def ssl_init_def ssl_live_def Let_def word_unat_eq_iff)
qed

lemma ssl_delete_live:
  assumes "ssl_live g (Suc n)"
  shows "ssl_live (ssl_delete g) n"
proof -
  have "unat (ssl_usage g) = Suc n" using assms by (simp add: ssl_live_def)
  then have "ssl_usage g > 0" "unat (ssl_usage g - 1) = n"
    by (auto simp: word_less_nat_alt unat_sub word_le_nat_alt)
  then show ?thesis
    using assms by (auto simp: ssl_delete_def ssl_clean_def ssl_live_def Let_def word_unat_eq_iff)
qed

subsection \<open>Keys\<close>

text \<open>
  The identity needs its length and a zero, but a block of just its length passes the check: the
  client then sends a truncated identity.
\<close>

lemma psk_client_truncates:
  "psk_client_cb (replicate 12 0) 12 (replicate 11 0) 11 = Some (11, ascii ''PSK-IDENTIT'' @ [0], psk_key)"
  by (simp add: psk_client_cb_def psk_identity_def psk_key_def ascii_def c_snprintf_def mem_write_def adv_def
      numeral_eq_Suc)

lemma psk_client_writes:
  assumes "length identity = n" "length psk = m" "0 < n"
  shows "\<exists>k identity' psk'. psk_client_cb identity n psk m = Some (k, identity', psk') \<and>
    length identity' = n \<and> length psk' = m \<and> (k = 0 \<or> k = 11 \<and> take 11 psk' = psk_key)"
  using assms by (cases identity) (auto simp: psk_client_cb_def psk_key_def c_snprintf_def mem_write_def adv_def min_def)

end
