(* ===== verification/Mqtt_Over_Ws.thy ===== *)
theory Mqtt_Over_Ws
  imports Stream_Mqtt Ws_Session "HOL-Library.Sublist"
begin

section \<open>An MQTT stream over a WebSocket stream over a file descriptor\<close>

text \<open>
  A WebSocket stream over any layer that keeps the writing contract keeps it too: what is written
  to it goes down as one whole message or not at all. Reading is not part of the contract here,
  because a WebSocket stream can be made to read forever (\<open>ws_close_header_hangs\<close>). The lemmas on
  MQTT streams, proved once over the contract, then hold over WebSocket streams.
\<close>

subsection \<open>WebSocket streams keep the writing contract\<close>

definition ws_carries :: "ws_message \<Rightarrow> bytes \<Rightarrow> bool" where
  "ws_carries m xs \<longleftrightarrow> ws_valid m \<and> ws_fin m \<and> ws_data_message m \<and> ws_payload m = xs"

lemma ws_wire_bounds:
  assumes "ws_carries m xs"
  shows "length xs \<le> length (ws_wire m)" "length (ws_wire m) \<le> length xs + WS_MAX_HEADER_SIZE"
proof -
  have "pred_option (\<lambda>k. length k = WS_MASK_SIZE) (ws_mask m)" "ws_payload m = xs"
    using assms by (auto simp: ws_carries_def ws_valid_def)
  then show "length xs \<le> length (ws_wire m)" "length (ws_wire m) \<le> length xs + WS_MAX_HEADER_SIZE"
    using ws_size_field_length [of "ws_mask m \<noteq> None" "length xs"]
    by (cases "ws_mask m"; auto simp: ws_wire_def WS_MASK_SIZE_def WS_MAX_HEADER_SIZE_def)+
qed

context stream_writer
begin

definition ws_inv :: "'d stream_ws \<Rightarrow> bool" where
  "ws_inv self \<longleftrightarrow> over (sw_stream self) \<and> (sw_data_type self = WS_OPCODE_TEXT \<or> sw_data_type self = WS_OPCODE_BINARY)"

definition ws_sent :: "'d stream_ws \<Rightarrow> world \<Rightarrow> bytes" where
  "ws_sent self w = sent_over (sw_stream self) w"

definition ws_pending :: "'d stream_ws \<Rightarrow> world \<Rightarrow> nat" where
  "ws_pending self w = pending_over (sw_stream self) w"

definition ws_message_wire :: "bytes \<Rightarrow> bytes \<Rightarrow> bool" where
  "ws_message_wire xs zs \<longleftrightarrow> (\<exists>m. ws_carries m xs \<and> wire (ws_wire m) zs)"

lemma over_rand: "sent_over s (w\<lparr>w_rand_pos := n\<rparr>) = sent_over s w" "pending_over s (w\<lparr>w_rand_pos := n\<rparr>) = pending_over s w"
  by (simp_all add: sent_over_def pending_over_def rand_law split: option.split)

lemma ws_generate_mask_eq:
  assumes "stream_ws_generate_mask self w = (s1, w1)"
  obtains k n where "s1 = self\<lparr>sw_mask := k\<rparr>" "w1 = w\<lparr>w_rand_pos := n\<rparr>" "pred_option (\<lambda>k. length k = WS_MASK_SIZE) k"
proof (cases "sw_client_role self")
  case True
  show thesis
    by (rule that [of "Some (fst (w_rand_data WS_MASK_SIZE w))" "w_rand_pos w + WS_MASK_SIZE"])
       (use assms True in \<open>auto simp: stream_ws_generate_mask_def w_rand_data_def rand_data_def\<close>)
next
  case False
  show thesis
    by (rule that [of None "w_rand_pos w"]) (use assms False in \<open>auto simp: stream_ws_generate_mask_def\<close>)
qed

lemma ws_write:
  assumes inv: "ws_inv self" and xs: "xs \<noteq> []" "length xs + WS_MAX_HEADER_SIZE < limit"
  shows "\<exists>ret self' w'. stream_ws_do_write ops self xs w = Some (ret, self', w') \<and> ws_inv self' \<and> w_clock w' = w_clock w \<and>
    ws_pending self' w' \<le> ws_pending self w \<and>
    (int (length xs) \<le> ret \<and> ret < 2 ^ 31 \<and> (\<exists>zs. ws_message_wire xs zs \<and> ws_sent self' w' = ws_sent self w @ zs) \<or>
     ret < 0 \<and> - (2 ^ 31) \<le> ret \<and> w_errno w' \<noteq> E_AGAIN \<and> ws_sent self' w' = ws_sent self w)"
proof -
  obtain s1 w1 where g: "stream_ws_generate_mask self w = (s1, w1)" by fastforce
  obtain k n where s1: "s1 = self\<lparr>sw_mask := k\<rparr>" "w1 = w\<lparr>w_rand_pos := n\<rparr>" and k: "pred_option (\<lambda>k. length k = WS_MASK_SIZE) k"
    using ws_generate_mask_eq [OF g] by metis
  define m where "m = \<lparr>ws_fin = True, ws_opcode = sw_data_type self, ws_mask = k, ws_payload = xs\<rparr>"
  have op: "sw_data_type self < 16" "sw_data_type self = WS_OPCODE_TEXT \<or> sw_data_type self = WS_OPCODE_BINARY"
    using inv by (auto simp: ws_inv_def)
  have v: "ws_valid m"
    using op k xs limit_int by (simp add: ws_valid_def m_def size_bound_def)
  then have c: "ws_carries m xs"
    using op xs(1) by (simp add: ws_carries_def ws_data_message_def m_def)
  have fmt: "ws_format_frame (WS_FIN_FLAG OR sw_data_type self) k xs (length xs) = Some (ws_wire m)"
    using ws_format_frame_wire [OF v] ws_flags_or [of m] by (simp add: m_def)
  note b = ws_wire_bounds [OF c]
  have "over (sw_stream self)" "ws_wire m \<noteq> []" "length (ws_wire m) < limit"
    using inv b xs by (auto simp: ws_inv_def)
  from do_write_over [OF this, of w1] obtain ret st w' where
    wr: "stream_do_write ops (sw_stream self) (ws_wire m) w1 = Some (ret, st, w')" "over st" "w_clock w' = w_clock w1"
      "pending_over st w' \<le> pending_over (sw_stream self) w1"
    and r: "ret = int (length (ws_wire m)) \<and> (\<exists>ys. wire (ws_wire m) ys \<and> sent_over st w' = sent_over (sw_stream self) w1 @ ys) \<or>
      ret < 0 \<and> - (2 ^ 31) \<le> ret \<and> w_errno w' \<noteq> E_AGAIN \<and> sent_over st w' = sent_over (sw_stream self) w1"
    by blast
  have eq: "stream_ws_do_write ops self xs w = Some (ret, s1\<lparr>sw_stream := st\<rparr>, w')"
    using fmt b(2) wr(1) g
    by (simp add: stream_ws_do_write_def stream_ws_write_frame_def ws_real_write_def s1 Let_def)
  have "length (ws_wire m) < 2 ^ 31"
    using b(2) xs(2) limit_int by linarith
  then show ?thesis
    using eq wr r b(1) c op(2)
    by (auto simp: ws_inv_def ws_sent_def ws_pending_def ws_message_wire_def s1 over_rand)
qed

lemma ws_writer: "stream_writer (ws_ops ops) ws_inv ws_sent ws_message_wire ws_pending (limit - WS_MAX_HEADER_SIZE)"
proof
  fix d :: "'d stream_ws" and w
  assume "ws_inv d"
  then have "over (sw_stream d)" by (simp add: ws_inv_def)
  from handle_over [OF this, of w]
  show "\<exists>ret d' w'. op_handle_outgoing_data (ws_ops ops) d w = Some (ret, d', w') \<and> ws_inv d' \<and>
      w_clock w' = w_clock w \<and> ws_pending d' w' \<le> ws_pending d w \<and> ws_sent d' w' = ws_sent d w"
    using \<open>ws_inv d\<close> by (fastforce simp: ws_ops_def ws_inv_def ws_pending_def ws_sent_def)
next
  fix d :: "'d stream_ws" and xs :: bytes and w
  assume "ws_inv d" "xs \<noteq> []" "length xs < limit - WS_MAX_HEADER_SIZE"
  then show "\<exists>ret d' w'. op_write (ws_ops ops) d xs w = Some (ret, d', w') \<and> ws_inv d' \<and> w_clock w' = w_clock w \<and>
      ws_pending d' w' \<le> ws_pending d w \<and>
      (int (length xs) \<le> ret \<and> ret < 2 ^ 31 \<and> (\<exists>ys. ws_message_wire xs ys \<and> ws_sent d' w' = ws_sent d w @ ys) \<or>
       ret < 0 \<and> - (2 ^ 31) \<le> ret \<and> w_errno w' \<noteq> E_AGAIN \<and> ws_sent d' w' = ws_sent d w)"
    using ws_write [of d xs w] by (simp add: ws_ops_def)
qed (use limit_int in \<open>simp_all add: ws_sent_def ws_pending_def over_rand\<close>)

end

interpretation ws_base: stream_writer "ws_ops base_ops" base.ws_inv base.ws_sent base.ws_message_wire base.ws_pending
    "2 ^ 31 - WS_MAX_HEADER_SIZE"
  by (rule base.ws_writer)

subsection \<open>Three layers\<close>

text \<open>An MQTT stream over a ready WebSocket stream over a plain one, and the bytes accepted for its descriptor.\<close>

definition mqtt_ws_session :: "unit stream stream_ws stream_mqtt \<Rightarrow> bool" where
  "mqtt_ws_session self \<longleftrightarrow> ws_base.over (mq_stream self)"

definition mqtt_ws_sent :: "unit stream stream_ws stream_mqtt \<Rightarrow> world \<Rightarrow> bytes" where
  "mqtt_ws_sent self w = ws_base.sent_over (mq_stream self) w"

text \<open>Writes frames one after the other; the result holds the ones that were accepted.\<close>

fun mqtt_writes :: "'d stream_ops \<Rightarrow> (mqtt_fixed_header \<times> bytes) list \<Rightarrow> 'd stream_mqtt \<Rightarrow> world \<Rightarrow>
    ((mqtt_fixed_header \<times> bytes) list \<times> 'd stream_mqtt \<times> world) option" where
  "mqtt_writes ops [] self w = Some ([], self, w)"
| "mqtt_writes ops (f # fs) self w = do {
     (ret, self, w) \<leftarrow> stream_mqtt_write_frame ops self (fh_type (fst f)) (fh_flags (fst f)) (snd f) (length (snd f)) w;
     (gs, self, w) \<leftarrow> mqtt_writes ops fs self w;
     Some (if ret < 0 then gs else f # gs, self, w)
   }"

lemma mqtt_enc_bounds:
  assumes "mqtt_valid f"
  shows "mqtt_enc f \<noteq> []" "length (mqtt_enc f) \<le> length (snd f) + MQTT_MAX_FIXED_HEADER_SIZE"
    "length (mqtt_enc f) < 2 ^ 31 - WS_MAX_HEADER_SIZE"
proof -
  show "mqtt_enc f \<noteq> []"
    using mqtt.enc_nonempty [OF assms] by blast
  show l: "length (mqtt_enc f) \<le> length (snd f) + MQTT_MAX_FIXED_HEADER_SIZE"
    using assms fixed_header_size [of "length (snd f)" "fh_type (fst f)" "fh_flags (fst f)"]
    by (simp add: mqtt_enc_def mqtt_valid_def)
  then show "length (mqtt_enc f) < 2 ^ 31 - WS_MAX_HEADER_SIZE"
    using assms by (simp add: mqtt_valid_def WS_MAX_HEADER_SIZE_def MQTT_MAX_FIXED_HEADER_SIZE_def)
qed

lemma mqtt_ws_write_frame:
  assumes "mqtt_ws_session self" "mqtt_valid f"
  shows "\<exists>ret self' w'. stream_mqtt_write_frame (ws_ops base_ops) self (fh_type (fst f)) (fh_flags (fst f)) (snd f) (length (snd f)) w =
      Some (ret, self', w') \<and> mqtt_ws_session self' \<and>
    (0 \<le> ret \<and> (\<exists>m. ws_carries m (mqtt_enc f) \<and> mqtt_ws_sent self' w' = mqtt_ws_sent self w @ ws_wire m) \<or>
     ret < 0 \<and> mqtt_ws_sent self' w' = mqtt_ws_sent self w)"
proof -
  note b = mqtt_enc_bounds [OF assms(2)]
  from ws_base.mqtt_write_over [OF _ b(1,3), of self w] assms(1) obtain ret st w' where
    "stream_mqtt_real_write (ws_ops base_ops) self (mqtt_enc f) w = Some (ret, self\<lparr>mq_stream := st\<rparr>, w')" "ws_base.over st"
    "ret = int (length (mqtt_enc f)) \<and> (\<exists>ys. base.ws_message_wire (mqtt_enc f) ys \<and>
        ws_base.sent_over st w' = ws_base.sent_over (mq_stream self) w @ ys) \<or>
     ret < 0 \<and> ws_base.sent_over st w' = ws_base.sent_over (mq_stream self) w"
    unfolding mqtt_ws_session_def by blast
  then show ?thesis
    using b(2) by (auto simp: stream_mqtt_write_frame_def mqtt_format_frame_enc [OF assms(2)] heap_block_def
        mqtt_ws_session_def mqtt_ws_sent_def base.ws_message_wire_def)
qed

text \<open>C6. Three layers together: MQTT frames written through a WebSocket stream over a descriptor,
  whatever the kernel answers, are each accepted whole or refused whole. The bytes that leave are a
  sequence of complete WebSocket messages; however they are cut into chunks, decoding them gives
  the messages back, and the payloads of these, decoded as MQTT, are exactly the accepted frames
  in the order they were written.\<close>

theorem mqtt_over_ws:
  assumes "mqtt_ws_session self" and "\<forall>f \<in> set fs. mqtt_valid f"
  shows "\<exists>gs self' w' zs ms. mqtt_writes (ws_ops base_ops) fs self w = Some (gs, self', w') \<and> mqtt_ws_session self' \<and>
    subseq gs fs \<and> mqtt_ws_sent self' w' = mqtt_ws_sent self w @ zs \<and>
    (\<forall>cs. concat cs = zs \<longrightarrow> foldl (feed ws_scan) ([], []) cs = (ms, [])) \<and>
    drain mqtt_scan (concat (map ws_payload ms)) = (gs, [])"
proof -
  have "\<exists>gs self' w' ms. mqtt_writes (ws_ops base_ops) fs self w = Some (gs, self', w') \<and> mqtt_ws_session self' \<and>
    subseq gs fs \<and> mqtt_ws_sent self' w' = mqtt_ws_sent self w @ concat (map ws_wire ms) \<and>
    list_all2 (\<lambda>m g. ws_carries m (mqtt_enc g)) ms gs"
    using assms
  proof (induction fs arbitrary: self w)
    case (Cons f fs)
    obtain ret s1 w1 where 1: "stream_mqtt_write_frame (ws_ops base_ops) self (fh_type (fst f)) (fh_flags (fst f)) (snd f) (length (snd f)) w =
        Some (ret, s1, w1)" "mqtt_ws_session s1"
      and r: "0 \<le> ret \<and> (\<exists>m. ws_carries m (mqtt_enc f) \<and> mqtt_ws_sent s1 w1 = mqtt_ws_sent self w @ ws_wire m) \<or>
        ret < 0 \<and> mqtt_ws_sent s1 w1 = mqtt_ws_sent self w"
      using mqtt_ws_write_frame [of self f w] Cons.prems by auto
    obtain gs s2 w2 ms where 2: "mqtt_writes (ws_ops base_ops) fs s1 w1 = Some (gs, s2, w2)" "mqtt_ws_session s2" "subseq gs fs"
      "mqtt_ws_sent s2 w2 = mqtt_ws_sent s1 w1 @ concat (map ws_wire ms)" "list_all2 (\<lambda>m g. ws_carries m (mqtt_enc g)) ms gs"
      using Cons.IH [OF 1(2), of w1] Cons.prems(2) by auto
    from r show ?case
    proof
      assume "0 \<le> ret \<and> (\<exists>m. ws_carries m (mqtt_enc f) \<and> mqtt_ws_sent s1 w1 = mqtt_ws_sent self w @ ws_wire m)"
      then obtain m where "0 \<le> ret" "ws_carries m (mqtt_enc f)" "mqtt_ws_sent s1 w1 = mqtt_ws_sent self w @ ws_wire m"
        by blast
      with 1 2 show ?thesis
        by (intro exI [of _ "f # gs"] exI [of _ s2] exI [of _ w2] exI [of _ "m # ms"]) simp
    next
      assume "ret < 0 \<and> mqtt_ws_sent s1 w1 = mqtt_ws_sent self w"
      with 1 2 show ?thesis
        by (intro exI [of _ gs] exI [of _ s2] exI [of _ w2] exI [of _ ms]) (simp add: list_emb_Cons)
    qed
  qed auto
  then obtain gs self' w' ms where r: "mqtt_writes (ws_ops base_ops) fs self w = Some (gs, self', w')" "mqtt_ws_session self'"
    "subseq gs fs" "mqtt_ws_sent self' w' = mqtt_ws_sent self w @ concat (map ws_wire ms)"
    and m: "list_all2 (\<lambda>m g. ws_carries m (mqtt_enc g)) ms gs"
    by blast
  have v: "\<forall>m \<in> set ms. ws_valid m" and p: "map ws_payload ms = map mqtt_enc gs"
    using m by (auto simp: list_all2_conv_all_nth ws_carries_def in_set_conv_nth intro: nth_equalityI)
  then have "map ws_wire ms = map ws_enc ms" by (simp add: ws_enc_wire)
  then have "\<forall>cs. concat cs = concat (map ws_wire ms) \<longrightarrow> foldl (feed ws_scan) ([], []) cs = (ms, [])"
    using v ws.reassembly [of ms _ "[]"] by (simp del: map_eq_conv)
  moreover have "drain mqtt_scan (concat (map ws_payload ms)) = (gs, [])"
    using p r(3) assms(2) list_emb_set [of "(=)"] mqtt.drain_encoded [of gs "[]"] by fastforce
  ultimately show ?thesis
    using r by blast
qed

definition mqtt_ws_client :: "unit stream stream_ws stream_mqtt" where
  "mqtt_ws_client = stream_mqtt_new (ws_peer True)"

lemma mqtt_ws_client: "mqtt_ws_session mqtt_ws_client"
  by (simp add: mqtt_ws_session_def mqtt_ws_client_def ws_base.over_def base.ws_inv_def base.over_def base_inv_def
      stream_mqtt_new_def stream_init_def ws_peer_def ws_ready_def stream_ws_set_status_def stream_set_status_def
      stream_ws_new_def stream_new_def)

theorem mqtt_over_ws_witness:
  "\<exists>gs self' w' zs ms. mqtt_writes (ws_ops base_ops) [(\<lparr>fh_type = 12, fh_flags = 0, fh_body_length = 0\<rparr>, [])] mqtt_ws_client world0 =
      Some (gs, self', w') \<and> drain mqtt_scan (concat (map ws_payload ms)) = (gs, []) \<and>
      mqtt_ws_sent self' w' = mqtt_ws_sent mqtt_ws_client world0 @ zs \<and> foldl (feed ws_scan) ([], []) [zs] = (ms, [])"
proof -
  have "\<forall>f \<in> set [(\<lparr>fh_type = 12, fh_flags = 0, fh_body_length = 0\<rparr>, [] :: bytes)]. mqtt_valid f"
    by (simp add: mqtt_valid_def)
  from mqtt_over_ws [OF mqtt_ws_client this, of world0] show ?thesis
    by (metis append.right_neutral concat.simps)
qed

end
