(* ===== verification/Stream_Life.thy ===== *)
theory Stream_Life
  imports Store
begin

section \<open>Construction and destruction of streams (source/stream.c, stream_ws.c, stream_mqtt.c, stream_ssl.c)\<close>

text \<open>
  What the theories of the streams leave out: constructors and destructors, casts, and the observer of
  a stream. Streams, their observers, the blocks of their buffers, the items of their queues and the
  blocks with the bytes of these are objects of a store, a queue is the list of its items (theory \<open>Queue_Spec\<close>). What a
  class of streams adds to a plain one is its \<open>life_part\<close>, which also says which vtable the stream has.
  The handler of an observer is application code and \<open>SSL_free\<close> belongs to OpenSSL: parameters.
\<close>

text \<open>
  WebSocket: buffer, key, cached slices. MQTT: buffer, incoming, outgoing and inbound items, observer.
  TLS: the \<open>SSL\<close> object, which owns its BIO.
\<close>

datatype life_part = Plain_part | Ws_part ptr ptr "nat list"
  | Mqtt_part ptr "nat list" "nat list" "nat list" ptr | Ssl_part ptr

record life_stream =
  ls_fd :: int
  ls_decorated :: ptr
  ls_observer :: ptr
  ls_outgoing :: "nat list"
  ls_part :: life_part

text \<open>
  \<open>Slice alloc\<close>: an item of a queue with the \<open>alloc\<close> pointer of its buffer; the bytes are a block of
  their own, \<open>Data\<close>. \<open>Cells\<close>: the block of a stream's buffer or key. \<open>Tls_obj\<close>: an \<open>SSL\<close> object, with
  the shutdown flag of its BIO.
\<close>

datatype life_obj = Stream life_stream | Watch "nat option" "nat option" | Slice ptr | Data bytes | Cells nat | Tls_obj int

type_synonym life_store = "life_obj store"

definition stream_at :: "life_store \<Rightarrow> ptr \<Rightarrow> life_stream option" where
  "stream_at h p = (case load h p of Some (Stream s) \<Rightarrow> Some s | _ \<Rightarrow> None)"

definition stream_update :: "(life_stream \<Rightarrow> life_stream) \<Rightarrow> ptr \<Rightarrow> life_store \<Rightarrow> life_store option" where
  "stream_update f p h = do { s \<leftarrow> stream_at h p; assign p (Stream (f s)) h }"

text \<open>What \<open>buffer_clean\<close> does to the block of a buffer.\<close>

definition release_cells :: "ptr \<Rightarrow> life_store \<Rightarrow> (ptr \<times> life_store) option" where
  "release_cells alloc h = (if alloc \<noteq> None then xfree alloc h else Some (None, h))"

text \<open>\<open>buffer_clean(&self->buffer)\<close> of an item.\<close>

definition slice_clean :: "ptr \<Rightarrow> life_store \<Rightarrow> life_store option" where
  "slice_clean self h = (case load h self of
     Some (Slice alloc) \<Rightarrow> do { (alloc, h) \<leftarrow> release_cells alloc h; assign self (Slice alloc) h }
   | _ \<Rightarrow> None)"

definition buffer_slice_new :: "bytes \<Rightarrow> life_store \<Rightarrow> ptr \<times> life_store" where
  "buffer_slice_new xs h =
     (let (self, h) = xmalloc (Slice None) h;
          (alloc, h) = xmalloc (Data xs) h
      in (self, h\<lparr>st_obj := (st_obj h)(the self \<mapsto> Slice alloc)\<rparr>))"

definition buffer_slice_delete :: "ptr \<Rightarrow> life_store \<Rightarrow> (ptr \<times> life_store) option" where
  "buffer_slice_delete self h = do { h \<leftarrow> slice_clean self h; xfree self h }"

subsection \<open>The observer of a stream\<close>

definition stream_set_observer :: "ptr \<Rightarrow> nat option \<Rightarrow> nat option \<Rightarrow> life_store \<Rightarrow> life_store option" where
  "stream_set_observer self object handler h = do {
     s \<leftarrow> stream_at h self;
     if ls_observer s = None
     then let (p, h) = xmalloc (Watch object handler) h in stream_update (ls_observer_update (\<lambda>_. p)) self h
     else Some h
   }"

definition stream_remove_observer :: "ptr \<Rightarrow> life_store \<Rightarrow> life_store option" where
  "stream_remove_observer self h = do {
     s \<leftarrow> stream_at h self;
     if ls_observer s \<noteq> None
     then do { (p, h) \<leftarrow> xfree (ls_observer s) h; stream_update (ls_observer_update (\<lambda>_. p)) self h }
     else Some h
   }"

text \<open>The handler is called with its object and the stream.\<close>

definition stream_handle_incoming_data ::
    "(nat \<Rightarrow> nat option \<Rightarrow> ptr \<Rightarrow> life_store \<Rightarrow> (int \<times> life_store) option) \<Rightarrow> ptr \<Rightarrow> life_store \<Rightarrow> (int \<times> life_store) option" where
  "stream_handle_incoming_data call self h = do {
     s \<leftarrow> stream_at h self;
     case ls_observer s of
       None \<Rightarrow> Some (0, h)
     | Some o' \<Rightarrow> (case st_obj h o' of
         Some (Watch object (Some handler)) \<Rightarrow> call handler object self h
       | Some (Watch object None) \<Rightarrow> Some (0, h)
       | _ \<Rightarrow> None)
   }"

subsection \<open>Destruction\<close>

fun delete_slices :: "nat list \<Rightarrow> life_store \<Rightarrow> life_store option" where
  "delete_slices [] h = Some h"
| "delete_slices (x # xs) h = do { (_, h) \<leftarrow> buffer_slice_delete (Some x) h; delete_slices xs h }"

partial_function (option) reset_outgoing :: "ptr \<Rightarrow> life_store \<Rightarrow> life_store option" where
  "reset_outgoing self h = do {
     s \<leftarrow> stream_at h self;
     h \<leftarrow> (if ls_decorated s \<noteq> None then reset_outgoing (ls_decorated s) h else Some h);
     s \<leftarrow> stream_at h self;
     h \<leftarrow> delete_slices (ls_outgoing s) h;
     stream_update (ls_outgoing_update (\<lambda>_. [])) self h
   }"

text \<open>The cleaners of the derived classes. \<open>stream_ssl_clean\<close> leaves its pointer as it is.\<close>

definition ws_frame_slice_delete :: "ptr \<Rightarrow> life_store \<Rightarrow> (ptr \<times> life_store) option" where
  "ws_frame_slice_delete self h = do { h \<leftarrow> slice_clean self h; xfree self h }"

definition mqtt_frame_item_delete :: "ptr \<Rightarrow> life_store \<Rightarrow> (ptr \<times> life_store) option" where
  "mqtt_frame_item_delete self h = do { h \<leftarrow> slice_clean self h; xfree self h }"

fun delete_cache :: "nat list \<Rightarrow> life_store \<Rightarrow> life_store option" where
  "delete_cache [] h = Some h"
| "delete_cache (x # xs) h = do { (_, h) \<leftarrow> ws_frame_slice_delete (Some x) h; delete_cache xs h }"

fun delete_items :: "nat list \<Rightarrow> life_store \<Rightarrow> life_store option" where
  "delete_items [] h = Some h"
| "delete_items (x # xs) h = do { (_, h) \<leftarrow> mqtt_frame_item_delete (Some x) h; delete_items xs h }"

definition stream_ws_clean :: "ptr \<Rightarrow> life_store \<Rightarrow> life_store option" where
  "stream_ws_clean self h = do {
     s \<leftarrow> stream_at h self;
     case ls_part s of
       Ws_part buffer key cache \<Rightarrow> do {
         (buffer, h) \<leftarrow> release_cells buffer h;
         (key, h) \<leftarrow> (if key \<noteq> None then xfree key h else Some (key, h));
         h \<leftarrow> delete_cache cache h;
         stream_update (ls_part_update (\<lambda>_. Ws_part buffer key [])) self h
       }
     | _ \<Rightarrow> None
   }"

definition stream_mqtt_clean :: "ptr \<Rightarrow> life_store \<Rightarrow> life_store option" where
  "stream_mqtt_clean self h = do {
     s \<leftarrow> stream_at h self;
     case ls_part s of
       Mqtt_part buffer incoming outgoing inbound mqtt_observer \<Rightarrow> do {
         (buffer, h) \<leftarrow> release_cells buffer h;
         h \<leftarrow> delete_items incoming h;
         h \<leftarrow> delete_items outgoing h;
         h \<leftarrow> delete_items inbound h;
         (mqtt_observer, h) \<leftarrow> (if mqtt_observer \<noteq> None then xfree mqtt_observer h else Some (mqtt_observer, h));
         stream_update (ls_part_update (\<lambda>_. Mqtt_part buffer [] [] [] mqtt_observer)) self h
       }
     | _ \<Rightarrow> None
   }"

definition stream_ssl_clean ::
    "(nat \<Rightarrow> life_store \<Rightarrow> life_store option) \<Rightarrow> ptr \<Rightarrow> life_store \<Rightarrow> life_store option" where
  "stream_ssl_clean SSL_free self h = do {
     s \<leftarrow> stream_at h self;
     case ls_part s of
       Ssl_part (Some ssl) \<Rightarrow> SSL_free ssl h
     | Ssl_part None \<Rightarrow> Some h
     | _ \<Rightarrow> None
   }"

text \<open>
  The destructors of the four vtables differ in the cleaner they call first. \<open>stream_clean\<close> is written
  out, because it deletes the decorated stream.
\<close>

definition destructor_clean ::
    "(nat \<Rightarrow> life_store \<Rightarrow> life_store option) \<Rightarrow> ptr \<Rightarrow> life_store \<Rightarrow> life_store option" where
  "destructor_clean SSL_free self h = do {
     s \<leftarrow> stream_at h self;
     case ls_part s of
       Plain_part \<Rightarrow> Some h
     | Ws_part _ _ _ \<Rightarrow> stream_ws_clean self h
     | Mqtt_part _ _ _ _ _ \<Rightarrow> stream_mqtt_clean self h
     | Ssl_part _ \<Rightarrow> stream_ssl_clean SSL_free self h
   }"

partial_function (option) stream_delete ::
    "(nat \<Rightarrow> life_store \<Rightarrow> life_store option) \<Rightarrow> ptr \<Rightarrow> life_store \<Rightarrow> (ptr \<times> life_store) option" where
  "stream_delete SSL_free self h = do {
     h \<leftarrow> destructor_clean SSL_free self h;
     h \<leftarrow> reset_outgoing self h;
     h \<leftarrow> stream_remove_observer self h;
     h \<leftarrow> stream_update (ls_fd_update (\<lambda>_. -1)) self h;
     s \<leftarrow> stream_at h self;
     h \<leftarrow> (if ls_decorated s \<noteq> None
          then do { (q, h) \<leftarrow> stream_delete SSL_free (ls_decorated s) h; stream_update (ls_decorated_update (\<lambda>_. q)) self h }
          else Some h);
     xfree self h
   }"

subsection \<open>Constructors and casts\<close>

definition stream_obj_init :: "int \<Rightarrow> ptr \<Rightarrow> life_part \<Rightarrow> life_stream" where
  "stream_obj_init fd decorated part =
     \<lparr>ls_fd = fd, ls_decorated = decorated, ls_observer = None, ls_outgoing = [], ls_part = part\<rparr>"

definition stream_obj_new :: "int \<Rightarrow> life_store \<Rightarrow> ptr \<times> life_store" where
  "stream_obj_new fd h = xmalloc (Stream (stream_obj_init fd None Plain_part)) h"

text \<open>\<open>mk\<close> is the rest of the initialiser, once the block of its buffer or its \<open>SSL\<close> object is there.\<close>

definition derived_obj_new :: "ptr \<Rightarrow> life_obj \<Rightarrow> (ptr \<Rightarrow> life_part) \<Rightarrow> life_store \<Rightarrow> ptr \<times> life_store" where
  "derived_obj_new decorated x mk h =
     (let (self, h) = xmalloc (Stream (stream_obj_init (-1) decorated (mk None))) h;
          (p, h) = xmalloc x h
      in (self, h\<lparr>st_obj := (st_obj h)(the self \<mapsto> Stream (stream_obj_init (-1) decorated (mk p)))\<rparr>))"

definition stream_ws_obj_new :: "ptr \<Rightarrow> life_store \<Rightarrow> ptr \<times> life_store" where
  "stream_ws_obj_new decorated h = derived_obj_new decorated (Cells 4096) (\<lambda>buffer. Ws_part buffer None []) h"

definition stream_mqtt_obj_new :: "ptr \<Rightarrow> life_store \<Rightarrow> ptr \<times> life_store" where
  "stream_mqtt_obj_new decorated h =
     derived_obj_new decorated (Cells 1024) (\<lambda>buffer. Mqtt_part buffer [] [] [] None) h"

text \<open>The BIO must not delete the stream: its shutdown flag is set to 0.\<close>

definition stream_ssl_obj_new :: "ptr \<Rightarrow> life_store \<Rightarrow> ptr \<times> life_store" where
  "stream_ssl_obj_new decorated h = derived_obj_new decorated (Tls_obj 0) Ssl_part h"

definition stream_ws_from_stream :: "ptr \<Rightarrow> life_store \<Rightarrow> ptr option" where
  "stream_ws_from_stream self h = do {
     s \<leftarrow> stream_at h self; Some (case ls_part s of Ws_part _ _ _ \<Rightarrow> self | _ \<Rightarrow> None) }"

definition stream_mqtt_from_stream :: "ptr \<Rightarrow> life_store \<Rightarrow> ptr option" where
  "stream_mqtt_from_stream self h = do {
     s \<leftarrow> stream_at h self; Some (case ls_part s of Mqtt_part _ _ _ _ _ \<Rightarrow> self | _ \<Rightarrow> None) }"

definition stream_ssl_from_stream :: "ptr \<Rightarrow> life_store \<Rightarrow> ptr option" where
  "stream_ssl_from_stream self h = do {
     s \<leftarrow> stream_at h self; Some (case ls_part s of Ssl_part _ \<Rightarrow> self | _ \<Rightarrow> None) }"

subsection \<open>A stack of streams\<close>

text \<open>
  \<open>B x\<close> is the block of the buffer of the item \<open>x\<close> (no address or one); \<open>items B xs\<close> are the items \<open>xs\<close> with
  their blocks. \<open>stack B h ss\<close>: the streams \<open>ss\<close>, given with their addresses from the top down, decorate
  each other in the store \<open>h\<close>, and their observers, slices and the bytes of these are live objects.
  \<open>owned B ss\<close> are the addresses that belong to the stack.
\<close>

definition opt :: "ptr \<Rightarrow> nat list" where
  "opt p = (case p of None \<Rightarrow> [] | Some a \<Rightarrow> [a])"

lemma opt_simps [simp]: "opt None = []" "opt (Some a) = [a]"
  by (simp_all add: opt_def)

text \<open>The block of an item, as the item says.\<close>

definition slice_block :: "life_store \<Rightarrow> nat \<Rightarrow> nat list" where
  "slice_block h x = (case st_obj h x of Some (Slice alloc) \<Rightarrow> opt alloc | _ \<Rightarrow> [])"

definition slice_ok :: "(nat \<Rightarrow> nat list) \<Rightarrow> life_store \<Rightarrow> nat \<Rightarrow> bool" where
  "slice_ok B h x \<longleftrightarrow> (\<exists>alloc. st_obj h x = Some (Slice alloc) \<and> B x = opt alloc)"

definition items :: "(nat \<Rightarrow> nat list) \<Rightarrow> nat list \<Rightarrow> nat list" where
  "items B xs = concat (map (\<lambda>x. x # B x) xs)"

lemma items_simps [simp]: "items B [] = []" "items B (x # xs) = x # B x @ items B xs"
  by (simp_all add: items_def)

lemma items_mem: "x \<in> set xs \<Longrightarrow> x \<in> set (items B xs)"
  by (auto simp: items_def)

definition owns :: "(nat \<Rightarrow> nat list) \<Rightarrow> nat \<times> life_stream \<Rightarrow> nat list" where
  "owns B as = (case ls_observer (snd as) of None \<Rightarrow> [] | Some o' \<Rightarrow> [o']) @ items B (ls_outgoing (snd as))"

definition owned :: "(nat \<Rightarrow> nat list) \<Rightarrow> (nat \<times> life_stream) list \<Rightarrow> nat list" where
  "owned B ss = concat (map (\<lambda>as. fst as # owns B as) ss)"

fun stack :: "(nat \<Rightarrow> nat list) \<Rightarrow> life_store \<Rightarrow> (nat \<times> life_stream) list \<Rightarrow> bool" where
  "stack B h [] = True"
| "stack B h (as # ss) = (st_obj h (fst as) = Some (Stream (snd as)) \<and>
     ls_decorated (snd as) = (case ss of [] \<Rightarrow> None | bs # _ \<Rightarrow> Some (fst bs)) \<and>
     (\<forall>x \<in> set (owns B as). st_obj h x \<noteq> None \<and> (\<forall>s. st_obj h x \<noteq> Some (Stream s))) \<and>
     (\<forall>x \<in> set (ls_outgoing (snd as)). slice_ok B h x) \<and> stack B h ss)"

definition emptied :: "nat \<times> life_stream \<Rightarrow> nat \<times> life_stream" where
  "emptied as = (fst as, (snd as)\<lparr>ls_outgoing := []\<rparr>)"

text \<open>The store without some addresses.\<close>

definition without :: "nat set \<Rightarrow> life_store \<Rightarrow> life_store" where
  "without A h = h\<lparr>st_obj := (\<lambda>x. if x \<in> A then None else st_obj h x)\<rparr>"

lemma without_obj [simp]: "st_obj (without A h) x = (if x \<in> A then None else st_obj h x)"
  by (simp add: without_def)

lemma without_empty [simp]: "without {} h = h"
  by (simp add: without_def)

lemma without_without [simp]: "without A (without B h) = without (A \<union> B) h"
  by (auto simp: without_def intro!: arg_cong [where f = "\<lambda>f. h\<lparr>st_obj := f\<rparr>"])

lemma xfree_without: "st_obj h a \<noteq> None \<Longrightarrow> xfree (Some a) h = Some (None, without {a} h)"
  by (auto simp: xfree_def without_def intro!: arg_cong [where f = "\<lambda>f. h\<lparr>st_obj := f\<rparr>"])

lemma slice_delete_eq:
  assumes "slice_ok B h x" and "\<forall>y \<in> set (x # B x). st_obj h y \<noteq> None" and "distinct (x # B x)"
  shows "buffer_slice_delete (Some x) h = Some (None, without (set (x # B x)) h)"
proof -
  obtain alloc where a: "st_obj h x = Some (Slice alloc)" "B x = opt alloc"
    using assms(1) by (auto simp: slice_ok_def)
  show ?thesis
    using a assms(2,3) by (cases alloc)
      (auto simp: buffer_slice_delete_def slice_clean_def release_cells_def xfree_def assign_def without_def fun_eq_iff
        intro!: arg_cong [where f = "\<lambda>f. h\<lparr>st_obj := f\<rparr>"])
qed

lemma slice_ok_cong: "slice_ok B h x \<Longrightarrow> st_obj h' x = st_obj h x \<Longrightarrow> slice_ok B h' x"
  by (simp add: slice_ok_def)

lemma slice_ok_block: "slice_ok (slice_block h) h x \<longleftrightarrow> (\<exists>alloc. st_obj h x = Some (Slice alloc))"
  by (auto simp: slice_ok_def slice_block_def)

lemma delete_slices_eq:
  "\<forall>x \<in> set xs. slice_ok B h x \<Longrightarrow> \<forall>x \<in> set (items B xs). st_obj h x \<noteq> None \<Longrightarrow> distinct (items B xs) \<Longrightarrow>
   delete_slices xs h = Some (without (set (items B xs)) h)"
proof (induction xs arbitrary: h)
  case (Cons x xs)
  let ?h = "without (set (x # B x)) h"
  have "y \<notin> set (x # B x)" if "y \<in> set (items B xs)" for y
    using Cons.prems(3) that by auto
  then have out: "st_obj ?h y = st_obj h y" if "y \<in> set (items B xs)" for y
    using that by simp
  have "delete_slices xs ?h = Some (without (set (items B xs)) ?h)"
  proof (rule Cons.IH)
    show "\<forall>y \<in> set xs. slice_ok B ?h y"
      using Cons.prems(1) slice_ok_cong [OF _ out [OF items_mem]] by auto
    show "\<forall>y \<in> set (items B xs). st_obj ?h y \<noteq> None"
      using Cons.prems(2) out by simp
  qed (use Cons.prems(3) in simp)
  moreover have "buffer_slice_delete (Some x) h = Some (None, ?h)"
    using Cons.prems by (intro slice_delete_eq) auto
  ultimately show ?case
    by (simp add: Un_commute Un_left_commute)
qed simp

subsection \<open>Emptying the queues\<close>

text \<open>The store after the queues of a stack have been emptied, from the bottom up.\<close>

fun reset_store :: "(nat \<Rightarrow> nat list) \<Rightarrow> (nat \<times> life_stream) list \<Rightarrow> life_store \<Rightarrow> life_store" where
  "reset_store B [] h = h"
| "reset_store B (as # ss) h =
     (let h = without (set (items B (ls_outgoing (snd as)))) (reset_store B ss h)
      in h\<lparr>st_obj := (st_obj h)(fst as \<mapsto> Stream (snd (emptied as)))\<rparr>)"

lemma owned_Cons: "owned B (as # ss) = fst as # owns B as @ owned B ss"
  by (simp add: owned_def)

lemma owned_member: "as \<in> set ss \<Longrightarrow> fst as \<in> set (owned B ss) \<and> set (owns B as) \<subseteq> set (owned B ss)"
  by (force simp: owned_def)

lemma outgoing_mem: "x \<in> set (ls_outgoing (snd as)) \<Longrightarrow> x \<in> set (owns B as)"
  by (simp add: owns_def items_mem)

lemma outgoing_owns: "set (items B (ls_outgoing (snd as))) \<subseteq> set (owns B as)"
  by (simp add: owns_def)

lemma reset_store_other: "x \<notin> set (owned B ss) \<Longrightarrow> st_obj (reset_store B ss h) x = st_obj h x"
  using outgoing_owns by (induction ss) (auto simp: owned_Cons Let_def)

lemma reset_store_above:
  "x \<noteq> fst as \<Longrightarrow> x \<notin> set (items B (ls_outgoing (snd as))) \<Longrightarrow> st_obj (reset_store B (as # ss) h) x = st_obj (reset_store B ss h) x"
  by (simp add: Let_def)

lemma reset_store_top: "st_obj (reset_store B (as # ss) h) (fst as) = Some (Stream (snd (emptied as)))"
  by (simp add: Let_def)

lemma reset_store_eq:
  "reset_store B (as # ss) h = (without (set (items B (ls_outgoing (snd as)))) (reset_store B ss h))
     \<lparr>st_obj := (st_obj (without (set (items B (ls_outgoing (snd as)))) (reset_store B ss h)))(fst as \<mapsto> Stream (snd (emptied as)))\<rparr>"
  by (simp add: Let_def)

declare reset_store.simps(2) [simp del]

lemma owned_emptied: "set (owned B (map emptied ss)) \<subseteq> set (owned B ss)"
  by (induction ss) (auto simp: owned_Cons owns_def emptied_def split: option.splits)

lemma distinct_emptied: "distinct (owned B ss) \<Longrightarrow> distinct (owned B (map emptied ss))"
  using owned_emptied by (induction ss) (fastforce simp: owned_Cons owns_def emptied_def split: option.splits)+

lemma stack_cong:
  "stack B h ss \<Longrightarrow> (\<And>x. x \<in> set (owned B ss) \<Longrightarrow> st_obj h' x = st_obj h x) \<Longrightarrow> stack B h' ss"
  by (induction ss) (auto simp: owned_Cons intro: slice_ok_cong outgoing_mem)

lemma fst_emptied [simp]: "fst (emptied as) = fst as" "ls_outgoing (snd (emptied as)) = []"
  by (simp_all add: emptied_def)

lemma owns_emptied: "set (owns B (emptied as)) \<subseteq> set (owns B as)"
  by (auto simp: owns_def emptied_def)

lemma stack_reset_store:
  "stack B h ss \<Longrightarrow> distinct (owned B ss) \<Longrightarrow> stack B (reset_store B ss h) (map emptied ss)"
proof (induction ss)
  case (Cons as ss)
  then have IH: "stack B (reset_store B ss h) (map emptied ss)" and d: "fst as \<notin> set (owned B ss)" "set (owns B as) \<inter> set (owned B ss) = {}"
    "fst as \<notin> set (owns B as)" "distinct (owns B as)"
    by (auto simp: owned_Cons)
  let ?h = "reset_store B (as # ss) h"
  have "st_obj ?h x = st_obj (reset_store B ss h) x" if "x \<in> set (owned B (map emptied ss))" for x
  proof (rule reset_store_above)
    have "x \<in> set (owned B ss)" using that owned_emptied by blast
    then show "x \<noteq> fst as" "x \<notin> set (items B (ls_outgoing (snd as)))"
      using d outgoing_owns [of B as] by auto
  qed
  then have "stack B ?h (map emptied ss)"
    using stack_cong [OF IH] by blast
  moreover have "st_obj ?h x = st_obj h x" if x: "x \<in> set (owns B (emptied as))" for x
  proof -
    have "x \<notin> set (items B (ls_outgoing (snd as)))"
      using x d(4) by (auto simp: owns_def emptied_def split: option.splits)
    moreover have "x \<in> set (owns B as)" using x owns_emptied by blast
    ultimately have "st_obj ?h x = st_obj (reset_store B ss h) x"
      using d(3) by (intro reset_store_above) auto
    then show ?thesis
      using d(2) \<open>x \<in> set (owns B as)\<close> reset_store_other [of x B ss h] by auto
  qed
  moreover have "\<forall>x \<in> set (owns B (emptied as)). st_obj h x \<noteq> None \<and> (\<forall>s. st_obj h x \<noteq> Some (Stream s))"
    using Cons.prems(1) owns_emptied [of B as] by auto
  moreover have "ls_decorated (snd (emptied as)) = (case map emptied ss of [] \<Rightarrow> None | bs # _ \<Rightarrow> Some (fst bs))"
    using Cons.prems(1) by (simp add: emptied_def split: list.splits)
  ultimately show ?case
    using reset_store_top [of B as ss h] by simp
qed simp

lemma stream_at_Stream: "st_obj h a = Some (Stream s) \<Longrightarrow> stream_at h (Some a) = Some s"
  by (simp add: stream_at_def)

lemma stream_update_Stream:
  "st_obj h a = Some (Stream s) \<Longrightarrow> stream_update f (Some a) h = Some (h\<lparr>st_obj := (st_obj h)(a \<mapsto> Stream (f s))\<rparr>)"
  by (simp add: stream_update_def stream_at_def assign_def)

lemma reset_outgoing_eq:
  "stack B h (as # ss) \<Longrightarrow> distinct (owned B (as # ss)) \<Longrightarrow>
   reset_outgoing (Some (fst as)) h = Some (reset_store B (as # ss) h)"
proof (induction ss arbitrary: as)
  case Nil
  have q: "\<forall>x \<in> set (ls_outgoing (snd as)). slice_ok B h x" "\<forall>x \<in> set (items B (ls_outgoing (snd as))). st_obj h x \<noteq> None" "distinct (items B (ls_outgoing (snd as)))"
    "fst as \<notin> set (items B (ls_outgoing (snd as)))" "st_obj h (fst as) = Some (Stream (snd as))" "ls_decorated (snd as) = None"
    using Nil by (auto simp: owned_def owns_def)
  show ?case
    by (subst reset_outgoing.simps)
       (simp add: q stream_at_Stream delete_slices_eq [OF q(1-3)] stream_update_Stream emptied_def reset_store_eq)
next
  case (Cons bs ss)
  let ?h = "reset_store B (bs # ss) h"
  have d: "fst as \<notin> set (owned B (bs # ss))" "set (owns B as) \<inter> set (owned B (bs # ss)) = {}" "fst as \<notin> set (owns B as)"
    "distinct (owns B as)" "distinct (owned B (bs # ss))"
    using Cons.prems(2) by (auto simp: owned_Cons)
  have a: "st_obj h (fst as) = Some (Stream (snd as))" "ls_decorated (snd as) = Some (fst bs)" "stack B h (bs # ss)"
    "\<forall>x \<in> set (owns B as). st_obj h x \<noteq> None" "\<forall>x \<in> set (ls_outgoing (snd as)). slice_ok B h x"
    using Cons.prems(1) by auto
  have "reset_outgoing (Some (fst bs)) h = Some ?h"
    using Cons.IH a(3) d(5) by blast
  moreover have "st_obj ?h (fst as) = Some (Stream (snd as))"
    using reset_store_other [OF d(1)] a(1) by simp
  moreover have del: "delete_slices (ls_outgoing (snd as)) ?h = Some (without (set (items B (ls_outgoing (snd as)))) ?h)"
  proof (rule delete_slices_eq)
    have keep: "st_obj ?h x = st_obj h x" if "x \<in> set (owns B as)" for x
      by (rule reset_store_other) (use that d(2) in blast)
    then show "\<forall>x \<in> set (items B (ls_outgoing (snd as))). st_obj ?h x \<noteq> None"
      using outgoing_owns [of B as] a(4) by (metis subsetD)
    show "\<forall>x \<in> set (ls_outgoing (snd as)). slice_ok B ?h x"
      using a(5) slice_ok_cong [OF _ keep [OF outgoing_mem]] by blast
  qed (use d(4) in \<open>simp add: owns_def\<close>)
  moreover have "fst as \<notin> set (items B (ls_outgoing (snd as)))"
    using d(3) by (auto simp: owns_def)
  ultimately show ?case
    by (subst reset_outgoing.simps)
       (simp add: a stream_at_Stream stream_update_Stream emptied_def reset_store_eq [of B as])
qed

subsection \<open>Deleting a stack\<close>

lemma reset_store_gone:
  "distinct (owned B ss) \<Longrightarrow> x \<in> set (owned B ss) \<Longrightarrow> x \<notin> set (owned B (map emptied ss)) \<Longrightarrow> st_obj (reset_store B ss h) x = None"
proof (induction ss)
  case (Cons as ss)
  then have x: "x \<noteq> fst as" "x \<in> set (owns B as) \<or> x \<in> set (owned B ss)" "x \<notin> set (owns B (emptied as))"
    "x \<notin> set (owned B (map emptied ss))"
    by (auto simp: owned_Cons)
  show ?case
  proof (cases "x \<in> set (items B (ls_outgoing (snd as)))")
    case False
    then have "x \<in> set (owned B ss)"
      using x(2,3) by (auto simp: owns_def emptied_def)
    then show ?thesis
      using Cons.IH Cons.prems(1) x False by (simp add: reset_store_above owned_Cons)
  qed (simp add: reset_store_eq x)
qed (simp add: owned_def)

lemma clean_front:
  assumes "stack B h (as # ss)" "distinct (owned B (as # ss))"
  shows "\<exists>h1 h2 h3 s. reset_outgoing (Some (fst as)) h = Some h1 \<and> stream_remove_observer (Some (fst as)) h1 = Some h2 \<and>
    stream_update (ls_fd_update (\<lambda>_. -1)) (Some (fst as)) h2 = Some h3 \<and> st_obj h3 (fst as) = Some (Stream s) \<and>
    ls_decorated s = ls_decorated (snd as) \<and>
    (\<forall>x. x \<noteq> fst as \<longrightarrow> st_obj h3 x = (if x \<in> set (owns B as) then None else st_obj (reset_store B ss h) x))"
proof -
  let ?h1 = "reset_store B (as # ss) h" and ?s = "snd (emptied as)"
  have 1: "reset_outgoing (Some (fst as)) h = Some ?h1"
    by (rule reset_outgoing_eq [OF assms])
  have top: "st_obj ?h1 (fst as) = Some (Stream ?s)" by (rule reset_store_top)
  have h1: "st_obj ?h1 x = (if x \<in> set (items B (ls_outgoing (snd as))) then None else st_obj (reset_store B ss h) x)"
    if "x \<noteq> fst as" for x
    using that by (simp add: reset_store_eq)
  show ?thesis
  proof (cases "ls_observer (snd as)")
    case None
    then have "stream_remove_observer (Some (fst as)) ?h1 = Some ?h1"
      using top by (simp add: stream_remove_observer_def stream_at_def emptied_def)
    moreover have "owns B as = items B (ls_outgoing (snd as))" using None by (simp add: owns_def)
    ultimately show ?thesis
      using 1 top h1 by (simp add: stream_update_Stream emptied_def)
  next
    case (Some ob)
    have o: "owns B as = ob # items B (ls_outgoing (snd as))" using Some by (simp add: owns_def)
    then have ob: "ob \<noteq> fst as" "ob \<notin> set (items B (ls_outgoing (snd as)))" "ob \<notin> set (owned B ss)"
      using assms(2) by (auto simp: owned_Cons)
    have "st_obj h ob \<noteq> None" using assms(1) o by simp
    then have "st_obj ?h1 ob \<noteq> None"
      using h1 [OF ob(1)] ob reset_store_other by simp
    then have "xfree (Some ob) ?h1 = Some (None, without {ob} ?h1)" by (rule xfree_without)
    then show ?thesis
      using 1 top h1 o ob(1) Some
      by (simp add: stream_remove_observer_def stream_at_def emptied_def stream_update_def assign_def)
  qed
qed

subsection \<open>What the derived classes own\<close>

fun part_owns :: "(nat \<Rightarrow> nat list) \<Rightarrow> life_part \<Rightarrow> nat list" where
  "part_owns B Plain_part = []"
| "part_owns B (Ws_part buffer key cache) = opt buffer @ opt key @ items B cache"
| "part_owns B (Mqtt_part buffer incoming outgoing inbound mqtt_observer) =
     opt buffer @ items B incoming @ items B outgoing @ items B inbound @ opt mqtt_observer"
| "part_owns B (Ssl_part ssl) = opt ssl"

fun part_items :: "life_part \<Rightarrow> nat list" where
  "part_items (Ws_part buffer key cache) = cache"
| "part_items (Mqtt_part buffer incoming outgoing inbound mqtt_observer) = incoming @ outgoing @ inbound"
| "part_items _ = []"

lemma part_items_owns: "x \<in> set (part_items p) \<Longrightarrow> x \<in> set (part_owns B p)"
  by (cases p) (auto simp: items_mem)

definition parts :: "(nat \<Rightarrow> nat list) \<Rightarrow> nat \<times> life_stream \<Rightarrow> nat list" where
  "parts B as = part_owns B (ls_part (snd as))"

text \<open>Everything that belongs to a stack, and a stack with all of it alive.\<close>

definition all_owned :: "(nat \<Rightarrow> nat list) \<Rightarrow> (nat \<times> life_stream) list \<Rightarrow> nat list" where
  "all_owned B ss = concat (map (\<lambda>as. fst as # owns B as @ parts B as) ss)"

definition part_alive :: "(nat \<Rightarrow> nat list) \<Rightarrow> life_store \<Rightarrow> nat \<times> life_stream \<Rightarrow> bool" where
  "part_alive B h as \<longleftrightarrow> (\<forall>x \<in> set (parts B as). st_obj h x \<noteq> None) \<and>
     (\<forall>x \<in> set (part_items (ls_part (snd as))). slice_ok B h x) \<and>
     (\<forall>p. ls_part (snd as) = Ssl_part (Some p) \<longrightarrow> st_obj h p = Some (Tls_obj 0))"

definition full_stack :: "(nat \<Rightarrow> nat list) \<Rightarrow> life_store \<Rightarrow> (nat \<times> life_stream) list \<Rightarrow> bool" where
  "full_stack B h ss \<longleftrightarrow> stack B h ss \<and> list_all (part_alive B h) ss"

text \<open>
  What \<open>SSL_free\<close> is relied on to do: an \<open>SSL\<close> object whose BIO must not delete the stream is released,
  with its BIO, and nothing else.
\<close>

definition ssl_free_ok :: "(nat \<Rightarrow> life_store \<Rightarrow> life_store option) \<Rightarrow> bool" where
  "ssl_free_ok SSL_free \<longleftrightarrow> (\<forall>h p. st_obj h p = Some (Tls_obj 0) \<longrightarrow> SSL_free p h = Some (without {p} h))"

lemma all_owned_Cons: "all_owned B (as # ss) = fst as # owns B as @ parts B as @ all_owned B ss"
  by (simp add: all_owned_def)

lemma owned_all: "set (owned B ss) \<subseteq> set (all_owned B ss)"
  by (auto simp: owned_def all_owned_def)

lemma distinct_owned: "distinct (all_owned B ss) \<Longrightarrow> distinct (owned B ss)"
proof (induction ss)
  case (Cons as ss)
  then show ?case
    using owned_all [of B ss] by (auto simp: all_owned_Cons owned_Cons)
qed (simp add: owned_def)

lemma parts_all: "as \<in> set ss \<Longrightarrow> set (parts B as) \<subseteq> set (all_owned B ss)"
  by (auto simp: all_owned_def)

lemma parts_emptied [simp]: "parts B (emptied as) = parts B as"
  by (simp add: parts_def emptied_def)

lemma all_owned_emptied: "set (all_owned B (map emptied ss)) \<subseteq> set (all_owned B ss)"
  using owns_emptied [of B] by (induction ss) (auto simp: all_owned_Cons)

lemma distinct_all_emptied: "distinct (all_owned B ss) \<Longrightarrow> distinct (all_owned B (map emptied ss))"
  using all_owned_emptied
  by (induction ss) (fastforce simp: all_owned_Cons owns_def emptied_def parts_def split: option.splits)+

lemma parts_not_owned:
  "distinct (all_owned B ss) \<Longrightarrow> as \<in> set ss \<Longrightarrow> set (parts B as) \<inter> set (owned B ss) = {}"
proof (induction ss)
  case (Cons bs ss)
  have "set (parts B bs) \<inter> set (owned B (bs # ss)) = {}"
    using Cons.prems(1) owned_all [of B ss] by (auto simp: all_owned_Cons owned_Cons)
  moreover have "set (parts B as) \<inter> set (owned B (bs # ss)) = {}" if as: "as \<in> set ss"
  proof -
    have "set (parts B as) \<inter> set (owned B ss) = {}"
      using Cons.IH Cons.prems(1) as by (simp add: all_owned_Cons)
    moreover have "set (parts B as) \<subseteq> set (all_owned B ss)" by (rule parts_all [OF as])
    moreover have "(insert (fst bs) (set (owns B bs))) \<inter> set (all_owned B ss) = {}"
      using Cons.prems(1) by (auto simp: all_owned_Cons)
    ultimately show ?thesis by (auto simp only: owned_Cons set_append list.set)
  qed
  ultimately show ?case using Cons.prems(2) by auto
qed simp

lemma all_owned_split:
  "x \<in> set (all_owned B ss) \<longleftrightarrow> x \<in> set (owned B ss) \<or> (\<exists>as \<in> set ss. x \<in> set (parts B as))"
  by (auto simp: all_owned_def owned_def)

lemma part_alive_emptied: "part_alive B h (emptied as) = part_alive B h as"
  unfolding part_alive_def parts_emptied by (simp add: emptied_def)

lemma part_alive_cong:
  "part_alive B h as \<Longrightarrow> (\<And>x. x \<in> set (parts B as) \<Longrightarrow> st_obj h' x = st_obj h x) \<Longrightarrow> part_alive B h' as"
  by (auto simp: part_alive_def parts_def part_items_owns intro: slice_ok_cong)

lemma full_stack_cong:
  assumes "full_stack B h ss" and "\<And>x. x \<in> set (all_owned B ss) \<Longrightarrow> st_obj h' x = st_obj h x"
  shows "full_stack B h' ss"
proof -
  have "stack B h' ss"
    using assms stack_cong [of B h ss h'] owned_all [of B ss] by (auto simp: full_stack_def)
  moreover have "part_alive B h' as" if "as \<in> set ss" for as
    using assms parts_all [OF that] that part_alive_cong [of B h as h']
    by (auto simp: full_stack_def list_all_iff)
  ultimately show ?thesis by (simp add: full_stack_def list_all_iff)
qed

text \<open>Emptying the queues leaves what the derived classes own.\<close>

lemma full_stack_reset:
  assumes "full_stack B h ss" and "distinct (all_owned B ss)"
  shows "full_stack B (reset_store B ss h) (map emptied ss)"
proof -
  have "part_alive B (reset_store B ss h) as" if as: "as \<in> set ss" for as
  proof (rule part_alive_cong)
    show "part_alive B h as" using assms(1) as by (simp add: full_stack_def list_all_iff)
    show "st_obj (reset_store B ss h) x = st_obj h x" if "x \<in> set (parts B as)" for x
      by (rule reset_store_other) (use parts_not_owned [OF assms(2) as] that in blast)
  qed
  moreover have "stack B (reset_store B ss h) (map emptied ss)"
    using assms stack_reset_store [of B h ss] distinct_owned [of B ss] by (simp add: full_stack_def)
  ultimately show ?thesis
    by (simp add: full_stack_def list_all_iff part_alive_emptied)
qed

subsection \<open>The cleaners\<close>

lemma delete_cache_eq: "delete_cache xs h = delete_slices xs h"
  by (induction xs arbitrary: h) (simp_all add: ws_frame_slice_delete_def buffer_slice_delete_def split_def)

lemma delete_items_eq: "delete_items xs h = delete_slices xs h"
  by (induction xs arbitrary: h) (simp_all add: mqtt_frame_item_delete_def buffer_slice_delete_def split_def)

lemma delete_slices_without:
  assumes "\<forall>x \<in> set xs. slice_ok B h x" and "\<forall>x \<in> set (items B xs). x \<notin> A \<and> st_obj h x \<noteq> None"
    and "distinct (items B xs)"
  shows "delete_slices xs (without A h) = Some (without (set (items B xs) \<union> A) h)"
proof -
  have "slice_ok B (without A h) x" if "x \<in> set xs" for x
    using assms(1,2) that items_mem [OF that, of B] by (auto intro!: slice_ok_cong [of B h x "without A h"])
  then show ?thesis
    using assms(2,3) by (subst delete_slices_eq [where B = B]) auto
qed

lemma release_opt:
  "\<forall>x \<in> set (opt p). st_obj h x \<noteq> None \<Longrightarrow> release_cells p h = Some (None, without (set (opt p)) h)"
  "\<forall>x \<in> set (opt p). st_obj h x \<noteq> None \<Longrightarrow>
     (if p \<noteq> None then xfree p h else Some (p, h)) = Some (None, without (set (opt p)) h)"
  by (cases p; simp add: release_cells_def xfree_without)+

lemma without_stream_update:
  "st_obj h a = Some (Stream s) \<Longrightarrow> a \<notin> A \<Longrightarrow> stream_update f (Some a) (without A h) =
     Some ((without A h)\<lparr>st_obj := (st_obj (without A h))(a \<mapsto> Stream (f s))\<rparr>)"
  by (rule stream_update_Stream) simp

lemma destructor_clean_eq:
  assumes "ssl_free_ok SSL_free" "st_obj h a = Some (Stream s)" "part_alive B h (a, s)"
    "distinct (part_owns B (ls_part s))" "a \<notin> set (part_owns B (ls_part s))"
  shows "\<exists>h' p. destructor_clean SSL_free (Some a) h = Some h' \<and> st_obj h' a = Some (Stream (s\<lparr>ls_part := p\<rparr>)) \<and>
    (\<forall>x. x \<noteq> a \<longrightarrow> st_obj h' x = (if x \<in> set (part_owns B (ls_part s)) then None else st_obj h x))"
proof (cases "ls_part s")
  case Plain_part
  then have "s\<lparr>ls_part := Plain_part\<rparr> = s" by simp
  then show ?thesis
    using assms(2) Plain_part by (intro exI [of _ h] exI [of _ Plain_part]) (simp add: destructor_clean_def stream_at_Stream)
next
  case (Ws_part b k c)
  let ?h = "without (set (part_owns B (ls_part s))) h"
  have "delete_cache c (without (set (opt k)) (without (set (opt b)) h)) = Some ?h"
    unfolding delete_cache_eq without_without
    by (subst delete_slices_without [where B = B]) (use assms(3,4) Ws_part in \<open>auto simp: part_alive_def parts_def Un_ac\<close>)
  then have "destructor_clean SSL_free (Some a) h = stream_update (ls_part_update (\<lambda>_. Ws_part None None [])) (Some a) ?h"
    using assms(2-4) Ws_part
    by (cases k; cases b; simp add: destructor_clean_def stream_ws_clean_def stream_at_Stream release_opt xfree_without
        part_alive_def parts_def Un_ac)
  then show ?thesis
    using without_stream_update [OF assms(2,5)] by (simp add: Ws_part) (rule exI, rule refl)
next
  case (Mqtt_part b i o' n ob)
  let ?h = "without (set (part_owns B (ls_part s))) h"
  let ?b = "set (opt b)"
  let ?i = "set (items B i)" and ?o = "set (items B o')" and ?n = "set (items B n)"
  have f: "release_cells b h = Some (None, without ?b h)"
    "delete_items i (without ?b h) = Some (without (?i \<union> ?b) h)"
    "delete_items o' (without (?i \<union> ?b) h) = Some (without (?o \<union> (?i \<union> ?b)) h)"
    "delete_items n (without (?o \<union> (?i \<union> ?b)) h) = Some (without (?n \<union> (?o \<union> (?i \<union> ?b))) h)"
    using assms(3,4) Mqtt_part
    by (auto simp: delete_items_eq part_alive_def parts_def intro!: release_opt(1) delete_slices_without)
  let ?A = "?n \<union> (?o \<union> (?i \<union> ?b))"
  have e: "set (part_owns B (ls_part s)) = set (opt ob) \<union> ?A"
    using Mqtt_part by auto
  have g: "\<And>x. ob = Some x \<Longrightarrow> st_obj (without ?A h) x \<noteq> None"
    using assms(3,4) Mqtt_part by (auto simp: part_alive_def parts_def)
  have xf: "\<And>x. ob = Some x \<Longrightarrow> xfree (Some x) (without ?A h) = Some (None, without (insert x ?A) h)"
    using xfree_without [OF g] by simp
  have "destructor_clean SSL_free (Some a) h = stream_update (ls_part_update (\<lambda>_. Mqtt_part None [] [] [] None)) (Some a) ?h"
    unfolding e
    by (cases ob) (simp_all add: destructor_clean_def stream_mqtt_clean_def stream_at_Stream assms(2) Mqtt_part f xf)
  then show ?thesis
    using without_stream_update [OF assms(2,5)] by (simp add: Mqtt_part) (rule exI, rule refl)
next
  case (Ssl_part p)
  have "s\<lparr>ls_part := Ssl_part p\<rparr> = s" using Ssl_part by simp
  then show ?thesis
    using assms Ssl_part
    by (cases p; intro exI [of _ "without (set (opt p)) h"] exI [of _ "Ssl_part p"])
       (auto simp: destructor_clean_def stream_ssl_clean_def stream_at_Stream ssl_free_ok_def part_alive_def parts_def)
qed

subsection \<open>Deleting a stack of any streams\<close>

text \<open>After its own part has been cleaned, a stream on top of its stack is a plain one.\<close>

lemma delete_front:
  assumes "ssl_free_ok SSL_free" "full_stack B h (as # ss)" "distinct (all_owned B (as # ss))"
  shows "\<exists>h1 h2 h3 h4 s. destructor_clean SSL_free (Some (fst as)) h = Some h1 \<and>
    reset_outgoing (Some (fst as)) h1 = Some h2 \<and> stream_remove_observer (Some (fst as)) h2 = Some h3 \<and>
    stream_update (ls_fd_update (\<lambda>_. -1)) (Some (fst as)) h3 = Some h4 \<and> st_obj h4 (fst as) = Some (Stream s) \<and>
    ls_decorated s = ls_decorated (snd as) \<and> full_stack B h4 (map emptied ss) \<and>
    (\<forall>x. x \<notin> set (all_owned B ss) \<and> x \<noteq> fst as \<longrightarrow>
       st_obj h4 x = (if x \<in> set (owns B as) \<union> set (parts B as) then None else st_obj h x)) \<and>
    (\<forall>x. x \<in> set (all_owned B ss) \<and> x \<notin> set (all_owned B (map emptied ss)) \<longrightarrow> st_obj h4 x = None)"
proof -
  obtain a s where as: "as = (a, s)" by (cases as)
  have d: "distinct (parts B as)" "a \<notin> set (parts B as)" "a \<notin> set (owns B as)" "set (owns B as) \<inter> set (parts B as) = {}"
    "a \<notin> set (all_owned B ss)" "(set (owns B as) \<union> set (parts B as)) \<inter> set (all_owned B ss) = {}" "distinct (all_owned B ss)"
    "distinct (owns B as)"
    using assms(3) by (auto simp: all_owned_Cons as)
  have st: "stack B h (as # ss)" "part_alive B h as" "full_stack B h ss"
    using assms(2) by (auto simp: full_stack_def)
  have a: "st_obj h a = Some (Stream s)" using st(1) by (simp add: as)
  obtain h1 p where h1: "destructor_clean SSL_free (Some a) h = Some h1" "st_obj h1 a = Some (Stream (s\<lparr>ls_part := p\<rparr>))"
    "\<And>x. x \<noteq> a \<Longrightarrow> st_obj h1 x = (if x \<in> set (parts B as) then None else st_obj h x)"
    using destructor_clean_eq [OF assms(1) a, of B] st(2) d(1,2) unfolding as parts_def by auto
  let ?as = "(a, s\<lparr>ls_part := p\<rparr>)"
  have o: "owns B ?as = owns B as" by (simp add: owns_def as)
  have ss1: "st_obj h1 x = st_obj h x" if "x \<in> set (all_owned B ss)" for x
  proof -
    have "x \<noteq> a" "x \<notin> set (parts B as)" using that d(5,6) by auto
    then show ?thesis using h1(3) by simp
  qed
  have f1: "full_stack B h1 ss" using full_stack_cong [OF st(3)] ss1 by blast
  have s1: "stack B h1 (?as # ss)"
  proof -
    have keep: "st_obj h1 x = st_obj h x" if "x \<in> set (owns B as)" for x
    proof -
      have "x \<noteq> a" "x \<notin> set (parts B as)" using that d(3,4) by auto
      then show ?thesis using h1(3) by simp
    qed
    have "\<forall>x \<in> set (owns B ?as). st_obj h1 x \<noteq> None \<and> (\<forall>t. st_obj h1 x \<noteq> Some (Stream t))"
      using st(1) keep by (simp add: o)
    moreover have "\<forall>x \<in> set (ls_outgoing s). slice_ok B h1 x"
      using st(1) slice_ok_cong [OF _ keep [OF outgoing_mem]] by (simp add: as)
    ultimately show ?thesis
      using st(1) f1 h1(2) by (simp add: full_stack_def as)
  qed
  have d1: "distinct (owned B (?as # ss))"
    using d distinct_owned [OF d(7)] owned_all [of B ss] by (auto simp: owned_Cons o)
  obtain h2 h3 h4 t where f: "reset_outgoing (Some a) h1 = Some h2" "stream_remove_observer (Some a) h2 = Some h3"
    "stream_update (ls_fd_update (\<lambda>_. -1)) (Some a) h3 = Some h4" "st_obj h4 a = Some (Stream t)"
    "ls_decorated t = ls_decorated s"
    and x: "\<And>x. x \<noteq> a \<Longrightarrow> st_obj h4 x = (if x \<in> set (owns B as) then None else st_obj (reset_store B ss h1) x)"
    using clean_front [OF s1 d1] o by auto
  have x4: "st_obj h4 y = st_obj (reset_store B ss h1) y" if "y \<in> set (all_owned B ss)" for y
  proof -
    have "y \<noteq> a" "y \<notin> set (owns B as)" using that d(5,6) by auto
    then show ?thesis using x by simp
  qed
  have "full_stack B h4 (map emptied ss)"
    by (rule full_stack_cong [OF full_stack_reset [OF f1 d(7)]]) (use x4 all_owned_emptied in auto)
  moreover have "st_obj h4 y = (if y \<in> set (owns B as) \<union> set (parts B as) then None else st_obj h y)"
    if "y \<notin> set (all_owned B ss)" "y \<noteq> a" for y
  proof -
    have "y \<notin> set (owned B ss)" using that(1) owned_all by blast
    then show ?thesis using x [OF that(2)] h1(3) [OF that(2)] reset_store_other by simp
  qed
  moreover have "st_obj h4 y = None" if "y \<in> set (all_owned B ss)" "y \<notin> set (all_owned B (map emptied ss))" for y
  proof -
    have "y \<in> set (owned B ss)"
      using that unfolding all_owned_split by auto
    moreover have "y \<notin> set (owned B (map emptied ss))" using that(2) owned_all by blast
    ultimately show ?thesis
      using x4 [OF that(1)] reset_store_gone [OF distinct_owned [OF d(7)]] by simp
  qed
  ultimately show ?thesis
    using h1(1) f unfolding as by fastforce
qed

lemma stream_delete_stack:
  assumes "ssl_free_ok SSL_free"
  shows "full_stack B h (as # ss) \<Longrightarrow> distinct (all_owned B (as # ss)) \<Longrightarrow>
   \<exists>h'. stream_delete SSL_free (Some (fst as)) h = Some (None, h') \<and>
     (\<forall>x. st_obj h' x = (if x \<in> set (all_owned B (as # ss)) then None else st_obj h x))"
proof (induction ss arbitrary: as h rule: length_induct)
  case (1 ss)
  obtain h1 h2 h3 h4 s where f: "destructor_clean SSL_free (Some (fst as)) h = Some h1"
    "reset_outgoing (Some (fst as)) h1 = Some h2" "stream_remove_observer (Some (fst as)) h2 = Some h3"
    "stream_update (ls_fd_update (\<lambda>_. -1)) (Some (fst as)) h3 = Some h4" "st_obj h4 (fst as) = Some (Stream s)"
    "ls_decorated s = ls_decorated (snd as)" "full_stack B h4 (map emptied ss)"
    and out: "\<And>x. x \<notin> set (all_owned B ss) \<Longrightarrow> x \<noteq> fst as \<Longrightarrow>
       st_obj h4 x = (if x \<in> set (owns B as) \<union> set (parts B as) then None else st_obj h x)"
    and gone: "\<And>x. x \<in> set (all_owned B ss) \<Longrightarrow> x \<notin> set (all_owned B (map emptied ss)) \<Longrightarrow> st_obj h4 x = None"
    using delete_front [OF assms 1(2,3)] by auto
  have d: "fst as \<notin> set (all_owned B ss)" "distinct (all_owned B ss)"
    using 1(3) by (auto simp: all_owned_Cons)
  show ?case
  proof (cases ss)
    case Nil
    then have "ls_decorated s = None" using 1(2) f(6) by (simp add: full_stack_def)
    then have "stream_delete SSL_free (Some (fst as)) h = Some (None, without {fst as} h4)"
      by (subst stream_delete.simps) (simp add: f(1-5) stream_at_Stream xfree_without)
    then show ?thesis
      using out Nil by (auto simp: all_owned_def)
  next
    case (Cons bs rest)
    then have dec: "ls_decorated s = Some (fst bs)" using 1(2) f(6) by (simp add: full_stack_def)
    obtain h5 where h5: "stream_delete SSL_free (Some (fst bs)) h4 = Some (None, h5)"
      "\<And>x. st_obj h5 x = (if x \<in> set (all_owned B (map emptied ss)) then None else st_obj h4 x)"
    proof -
      have "length (map emptied rest) < length ss" using Cons by simp
      from mp [OF spec [OF 1(1), of "map emptied rest"] this, THEN spec, THEN spec, of h4 "emptied bs"]
      show ?thesis
        using that f(7) distinct_all_emptied [OF d(2)] Cons by auto
    qed
    have a5: "st_obj h5 (fst as) = Some (Stream s)"
      using h5(2) f(5) d(1) all_owned_emptied by auto
    define h6 where "h6 = h5\<lparr>st_obj := (st_obj h5)(fst as \<mapsto> Stream (s\<lparr>ls_decorated := None\<rparr>))\<rparr>"
    have "stream_delete SSL_free (Some (fst as)) h = Some (None, without {fst as} h6)"
      by (subst stream_delete.simps)
         (simp add: f(1-5) dec h5(1) stream_at_Stream stream_update_Stream [OF a5] xfree_without h6_def)
    moreover have "st_obj (without {fst as} h6) y = (if y \<in> set (all_owned B (as # ss)) then None else st_obj h y)" for y
    proof (cases "y \<in> set (all_owned B ss)")
      case True
      then show ?thesis using h5(2) [of y] gone by (simp add: h6_def all_owned_Cons)
    next
      case False
      then have "y \<notin> set (all_owned B (map emptied ss))" using all_owned_emptied by blast
      then show ?thesis using False h5(2) [of y] out by (simp add: h6_def all_owned_Cons)
    qed
    ultimately show ?thesis by blast
  qed
qed

text \<open>C20. Deleting the top of a stack of streams, of any classes in any order, deletes the whole stack:
  the call ends, and the streams, their observers, buffers, keys, \<open>SSL\<close> objects and everything in their
  queues, the items as well as the blocks with their bytes, are released, each once, and nothing else is
  touched; provided all these objects are distinct and live, and \<open>SSL_free\<close> releases an \<open>SSL\<close> object with
  its BIO and nothing else.\<close>

theorem stream_delete_frees:
  assumes "ssl_free_ok SSL_free" and "full_stack (slice_block h) h ((a, s) # ss)"
    and "distinct (all_owned (slice_block h) ((a, s) # ss))"
  shows "\<exists>h'. stream_delete SSL_free (Some a) h = Some (None, h') \<and>
    (\<forall>x. st_obj h' x = (if x \<in> set (all_owned (slice_block h) ((a, s) # ss)) then None else st_obj h x))"
  using stream_delete_stack [OF assms] by auto

definition demo_ssl_free :: "nat \<Rightarrow> life_store \<Rightarrow> life_store option" where
  "demo_ssl_free p h = map_option snd (xfree (Some p) h)"

lemma demo_ssl_free_ok: "ssl_free_ok demo_ssl_free"
  by (simp add: ssl_free_ok_def demo_ssl_free_def xfree_without)

definition demo_mqtt :: life_stream where
  "demo_mqtt = \<lparr>ls_fd = -1, ls_decorated = Some 3, ls_observer = Some 4, ls_outgoing = [],
     ls_part = Mqtt_part (Some 8) [9] [] [12] None\<rparr>"

definition demo_tls :: life_stream where
  "demo_tls = \<lparr>ls_fd = -1, ls_decorated = Some 11, ls_observer = None, ls_outgoing = [], ls_part = Ssl_part (Some 10)\<rparr>"

definition demo_plain :: life_stream where
  "demo_plain = \<lparr>ls_fd = 7, ls_decorated = None, ls_observer = None, ls_outgoing = [5, 6], ls_part = Plain_part\<rparr>"

lemmas demo_stream_defs = demo_mqtt_def demo_tls_def demo_plain_def

definition demo_stack :: life_store where
  "demo_stack = \<lparr>st_obj = [2 \<mapsto> Stream demo_mqtt, 3 \<mapsto> Stream demo_tls, 11 \<mapsto> Stream demo_plain,
     4 \<mapsto> Watch None (Some 1), 5 \<mapsto> Slice (Some 13), 6 \<mapsto> Slice (Some 14), 7 \<mapsto> Slice (Some 17), 8 \<mapsto> Cells 1024,
     9 \<mapsto> Slice (Some 15), 10 \<mapsto> Tls_obj 0, 12 \<mapsto> Slice (Some 16), 13 \<mapsto> Data [1], 14 \<mapsto> Data [], 15 \<mapsto> Data [],
     16 \<mapsto> Data [3], 17 \<mapsto> Data [9]], st_next = 18\<rparr>"

theorem stream_delete_frees_witness:
  "\<exists>h'. stream_delete demo_ssl_free (Some 2) demo_stack = Some (None, h') \<and>
    st_obj h' = [7 \<mapsto> Slice (Some 17), 17 \<mapsto> Data [9]]"
proof -
  let ?ss = "[(2, demo_mqtt), (3, demo_tls), (11, demo_plain)]"
  have b: "slice_block demo_stack 5 = [13]" "slice_block demo_stack 6 = [14]" "slice_block demo_stack 9 = [15]"
    "slice_block demo_stack 12 = [16]"
    by (simp_all add: slice_block_def demo_stack_def)
  have o: "all_owned (slice_block demo_stack) ?ss = [2, 4, 8, 9, 15, 12, 16, 3, 10, 11, 5, 13, 6, 14]"
    by (simp add: all_owned_def owns_def parts_def demo_stream_defs b)
  have "full_stack (slice_block demo_stack) demo_stack ?ss"
    by (simp add: full_stack_def part_alive_def parts_def owns_def demo_stream_defs b slice_ok_block)
      (simp add: demo_stack_def demo_stream_defs)
  from stream_delete_frees [OF demo_ssl_free_ok this] obtain h' where
    "stream_delete demo_ssl_free (Some 2) demo_stack = Some (None, h')"
    "\<forall>x. st_obj h' x = (if x \<in> {2, 4, 8, 9, 15, 12, 16, 3, 10, 11, 5, 13, 6, 14} then None else st_obj demo_stack x)"
    unfolding o by auto
  then show ?thesis by (auto simp: demo_stack_def)
qed

subsection \<open>Constructors put a stream on top\<close>

lemma all_owned_alive:
  "full_stack B h ss \<Longrightarrow> x \<in> set (all_owned B ss) \<Longrightarrow> st_obj h x \<noteq> None"
proof -
  have "stack B h ss \<Longrightarrow> as \<in> set ss \<Longrightarrow> x \<in> set (fst as # owns B as) \<Longrightarrow> st_obj h x \<noteq> None" for as x
    by (induction ss) auto
  then show "full_stack B h ss \<Longrightarrow> x \<in> set (all_owned B ss) \<Longrightarrow> st_obj h x \<noteq> None"
    by (fastforce simp: full_stack_def all_owned_def list_all_iff part_alive_def)
qed

lemma stream_obj_new_stack:
  assumes "store_ok h" and "stream_obj_new fd h = (p, h')"
  shows "p = Some (st_next h)" and "store_ok h'"
    and "full_stack B h' [(st_next h, stream_obj_init fd None Plain_part)]"
  using assms by (auto simp: stream_obj_new_def xmalloc_def store_ok_def full_stack_def part_alive_def parts_def owns_def
      stream_obj_init_def)

lemma derived_obj_new_stack:
  assumes "store_ok h" and "full_stack B h ss" and "distinct (all_owned B ss)"
    and "derived_obj_new (case ss of [] \<Rightarrow> None | bs # _ \<Rightarrow> Some (fst bs)) x mk h = (p, h')"
    and "\<And>q. part_owns B (mk (Some q)) = [q]" and "\<And>q r. mk (Some q) = Ssl_part (Some r) \<Longrightarrow> x = Tls_obj 0"
    and "\<And>t. x \<noteq> Stream t" and "\<And>q. part_items (mk (Some q)) = []"
  shows "\<exists>s. p = Some (st_next h) \<and> store_ok h' \<and> full_stack B h' ((st_next h, s) # ss) \<and>
    owns B (st_next h, s) = [] \<and> parts B (st_next h, s) = [Suc (st_next h)] \<and> distinct (all_owned B ((st_next h, s) # ss)) \<and>
    (\<forall>y. y \<noteq> st_next h \<and> y \<noteq> Suc (st_next h) \<longrightarrow> st_obj h' y = st_obj h y)"
proof -
  let ?a = "st_next h" and ?s = "stream_obj_init (-1) (case ss of [] \<Rightarrow> None | bs # _ \<Rightarrow> Some (fst bs)) (mk (Some (Suc (st_next h))))"
  have h': "p = Some ?a" "st_obj h' = (st_obj h)(?a \<mapsto> Stream ?s, Suc ?a \<mapsto> x)" "st_next h' = Suc (Suc ?a)"
    using assms(4) by (auto simp: derived_obj_new_def xmalloc_def Let_def)
  have fresh: "y \<noteq> ?a \<and> y \<noteq> Suc ?a" if "y \<in> set (all_owned B ss)" for y
    using all_owned_alive [OF assms(2) that] assms(1) by (auto simp: store_ok_def)
  have "full_stack B h' ss"
    by (rule full_stack_cong [OF assms(2)]) (use fresh h'(2) in auto)
  moreover have o: "owns B (?a, ?s) = []" "parts B (?a, ?s) = [Suc ?a]"
    by (simp_all add: owns_def parts_def stream_obj_init_def assms(5))
  moreover have "part_alive B h' (?a, ?s)"
  proof -
    have "st_obj h' r = Some (Tls_obj 0)" if r: "mk (Some (Suc ?a)) = Ssl_part (Some r)" for r
    proof -
      have "r = Suc ?a" using assms(5) [of "Suc ?a"] r by simp
      then show ?thesis using assms(6) [OF r] h'(2) by simp
    qed
    moreover have "\<forall>y \<in> set (parts B (?a, ?s)). st_obj h' y \<noteq> None" using o(2) h'(2) by simp
    moreover have "ls_part (snd (?a, ?s)) = mk (Some (Suc ?a))" by (simp add: stream_obj_init_def)
    ultimately show ?thesis unfolding part_alive_def using assms(8) by simp
  qed
  ultimately have "full_stack B h' ((?a, ?s) # ss)"
    using h'(2) by (simp add: full_stack_def stream_obj_init_def)
  moreover have "distinct (all_owned B ((?a, ?s) # ss))"
    using fresh assms(3) o by (auto simp: all_owned_Cons)
  moreover have "store_ok h'"
    using assms(1) h'(2,3) by (auto simp: store_ok_def)
  ultimately show ?thesis
    using h'(1,2) o by (intro exI [of _ ?s]) simp
qed

lemma obj_new_stack:
  assumes "store_ok h" "full_stack B h ss" "distinct (all_owned B ss)"
    and "mk \<in> {stream_ws_obj_new, stream_mqtt_obj_new, stream_ssl_obj_new}"
    and "mk (case ss of [] \<Rightarrow> None | bs # _ \<Rightarrow> Some (fst bs)) h = (p, h')"
  shows "\<exists>s. p = Some (st_next h) \<and> store_ok h' \<and> full_stack B h' ((st_next h, s) # ss) \<and>
    owns B (st_next h, s) = [] \<and> parts B (st_next h, s) = [Suc (st_next h)] \<and> distinct (all_owned B ((st_next h, s) # ss)) \<and>
    (\<forall>y. y \<noteq> st_next h \<and> y \<noteq> Suc (st_next h) \<longrightarrow> st_obj h' y = st_obj h y)"
proof -
  note new = derived_obj_new_stack [OF assms(1-3)]
  consider "mk = stream_ws_obj_new" | "mk = stream_mqtt_obj_new" | "mk = stream_ssl_obj_new"
    using assms(4) by blast
  then show ?thesis
  proof cases
    case 1
    show ?thesis by (rule new [where x = "Cells 4096" and mk = "\<lambda>buffer. Ws_part buffer None []"]) (use assms(5) in \<open>simp_all add: 1 stream_ws_obj_new_def\<close>)
  next
    case 2
    show ?thesis by (rule new [where x = "Cells 1024" and mk = "\<lambda>buffer. Mqtt_part buffer [] [] [] None"]) (use assms(5) in \<open>simp_all add: 2 stream_mqtt_obj_new_def\<close>)
  next
    case 3
    show ?thesis by (rule new [where x = "Tls_obj 0" and mk = "Ssl_part"]) (use assms(5) in \<open>simp_all add: 3 stream_ssl_obj_new_def\<close>)
  qed
qed

text \<open>A slice is two blocks, and both are released with it.\<close>

lemma buffer_slice_new_delete:
  assumes "store_ok h" and "buffer_slice_new xs h = (p, h')"
  shows "\<exists>a b. p = Some a \<and> st_obj h' = (st_obj h)(a \<mapsto> Slice (Some b), b \<mapsto> Data xs) \<and> a \<noteq> b \<and>
    (\<exists>h''. buffer_slice_delete p h' = Some (None, h'') \<and> st_obj h'' = st_obj h)"
proof -
  let ?a = "st_next h" and ?b = "Suc (st_next h)"
  have fresh: "st_obj h ?a = None" "st_obj h ?b = None"
    using assms(1) by (simp_all add: store_ok_def)
  have n: "p = Some ?a" "st_obj h' = (st_obj h)(?a \<mapsto> Slice (Some ?b), ?b \<mapsto> Data xs)"
    using assms(2) by (auto simp: buffer_slice_new_def xmalloc_def Let_def)
  then have "buffer_slice_delete p h' = Some (None, without {?a, ?b} h')"
    using slice_delete_eq [of "slice_block h'" h' ?a] by (simp add: slice_ok_block slice_block_def)
  moreover have "st_obj (without {?a, ?b} h') = st_obj h"
    using fresh n(2) by (auto simp: fun_eq_iff)
  ultimately have "\<exists>h''. buffer_slice_delete p h' = Some (None, h'') \<and> st_obj h'' = st_obj h"
    by blast
  then show ?thesis
    using n by (intro exI [of _ ?a] exI [of _ ?b]) simp
qed

text \<open>What is built over an existing stack and deleted again leaves nothing behind.\<close>

lemma stream_new_delete:
  assumes "ssl_free_ok SSL_free" "store_ok h" "full_stack B h ss" "distinct (all_owned B ss)"
    and "mk \<in> {stream_ws_obj_new, stream_mqtt_obj_new, stream_ssl_obj_new}"
    and "mk (case ss of [] \<Rightarrow> None | bs # _ \<Rightarrow> Some (fst bs)) h = (p, h')"
  shows "\<exists>h''. stream_delete SSL_free p h' = Some (None, h'') \<and>
    (\<forall>x. st_obj h'' x = (if x \<in> set (all_owned B ss) then None else st_obj h x))"
proof -
  obtain s where n: "p = Some (st_next h)" "full_stack B h' ((st_next h, s) # ss)" "distinct (all_owned B ((st_next h, s) # ss))"
    and o: "owns B (st_next h, s) = []" "parts B (st_next h, s) = [Suc (st_next h)]"
    and y: "\<And>y. y \<noteq> st_next h \<Longrightarrow> y \<noteq> Suc (st_next h) \<Longrightarrow> st_obj h' y = st_obj h y"
    using obj_new_stack [OF assms(2-)] by auto
  obtain h'' where d: "stream_delete SSL_free p h' = Some (None, h'')"
    "\<And>x. st_obj h'' x = (if x \<in> set (all_owned B ((st_next h, s) # ss)) then None else st_obj h' x)"
    using stream_delete_stack [OF assms(1) n(2,3)] n(1) by auto
  have "st_obj h (st_next h) = None" "st_obj h (Suc (st_next h)) = None"
    using assms(2) by (simp_all add: store_ok_def)
  then have "st_obj h'' x = (if x \<in> set (all_owned B ss) then None else st_obj h x)" for x
    using d(2) [of x] y [of x] by (auto simp: all_owned_Cons o)
  then show ?thesis using d(1) by blast
qed

text \<open>A cast gives the stream back exactly when it is of that class.\<close>

lemma stream_casts:
  assumes "stream_at h (Some a) = Some s"
  shows "stream_ws_from_stream (Some a) h = Some (Some a) \<longleftrightarrow> (\<exists>b k c. ls_part s = Ws_part b k c)"
    and "stream_mqtt_from_stream (Some a) h = Some (Some a) \<longleftrightarrow> (\<exists>b i g n w. ls_part s = Mqtt_part b i g n w)"
    and "stream_ssl_from_stream (Some a) h = Some (Some a) \<longleftrightarrow> (\<exists>p. ls_part s = Ssl_part p)"
  using assms
  by (auto simp: stream_ws_from_stream_def stream_mqtt_from_stream_def stream_ssl_from_stream_def split: life_part.splits)

text \<open>The descriptor of a stream is forgotten, not closed; a second observer is ignored.\<close>

lemma stream_second_observer:
  "st_obj h a = Some (Stream s) \<Longrightarrow> ls_observer s = Some ob \<Longrightarrow> stream_set_observer (Some a) object handler h = Some h"
  by (simp add: stream_set_observer_def stream_at_def)

lemma stream_observer_called:
  assumes "store_ok h" "st_obj h a = Some (Stream s)" "ls_observer s = None"
  shows "\<exists>h'. stream_set_observer (Some a) object (Some handler) h = Some h' \<and>
    stream_handle_incoming_data call (Some a) h' = call handler object (Some a) h' \<and>
    (\<exists>h''. stream_remove_observer (Some a) h' = Some h'' \<and> st_obj h'' = st_obj h)"
  using assms store_ok_neq [OF assms(1,2)]
  by (auto simp: stream_set_observer_def stream_at_def xmalloc_def stream_update_def assign_def
      stream_handle_incoming_data_def stream_remove_observer_def xfree_def Let_def)

end
