(* ===== verification/Queue_Moves.thy ===== *)
theory Queue_Moves
  imports Queue_Spec
begin

section \<open>Swapping, joining and walking backwards (include/mx/queue.h)\<close>

text \<open>
  The macros on two heads at once, the predecessor of an element, and the loops that start in the
  middle or run from the last element to the first, over the memory of theory \<open>Queue_Links\<close>.
\<close>

subsection \<open>The macros\<close>

text \<open>The predecessor is found by the place of its \<open>next\<close> field, so it must be an entry.\<close>

definition LIST_PREV :: "nat \<Rightarrow> nat \<Rightarrow> links \<Rightarrow> nat option option" where
  "LIST_PREV elm q h = do {
     r \<leftarrow> q_prev h elm;
     if r = Head q then Some None else (case r of Next x \<Rightarrow> Some (Some x) | Head _ \<Rightarrow> None)
   }"

definition LIST_SWAP :: "nat \<Rightarrow> nat \<Rightarrow> links \<Rightarrow> links" where
  "LIST_SWAP head1 head2 h =
     (let swap_tmp = LIST_FIRST head1 h;
          h = set_ref (Head head1) (LIST_FIRST head2 h) h;
          h = set_ref (Head head2) swap_tmp h;
          h = (case LIST_FIRST head1 h of Some x \<Rightarrow> set_prev x (Head head1) h | None \<Rightarrow> h)
      in (case LIST_FIRST head2 h of Some x \<Rightarrow> set_prev x (Head head2) h | None \<Rightarrow> h))"

definition TAILQ_CONCAT :: "nat \<Rightarrow> nat \<Rightarrow> links \<Rightarrow> links option" where
  "TAILQ_CONCAT head1 head2 h =
     (if TAILQ_EMPTY head2 h then Some h
      else do {
        l \<leftarrow> q_last h head1;
        let h = set_ref l (q_first h head2) h;
        f \<leftarrow> q_first h head2;
        let h = set_prev f l h;
        l2 \<leftarrow> q_last h head2;
        let h = set_last head1 l2 h;
        Some (TAILQ_INIT head2 h)
      })"

definition TAILQ_SWAP :: "nat \<Rightarrow> nat \<Rightarrow> links \<Rightarrow> links" where
  "TAILQ_SWAP head1 head2 h =
     (let swap_first = q_first h head1; swap_last = q_last h head1;
          h = h\<lparr>q_first := (q_first h)(head1 := q_first h head2)\<rparr>;
          h = h\<lparr>q_last := (q_last h)(head1 := q_last h head2)\<rparr>;
          h = h\<lparr>q_first := (q_first h)(head2 := swap_first)\<rparr>;
          h = h\<lparr>q_last := (q_last h)(head2 := swap_last)\<rparr>;
          h = (case q_first h head1 of
                 Some x \<Rightarrow> set_prev x (Head head1) h | None \<Rightarrow> set_last head1 (Head head1) h)
      in (case q_first h head2 of
            Some x \<Rightarrow> set_prev x (Head head2) h | None \<Rightarrow> set_last head2 (Head head2) h))"

text \<open>The loops from a given element, or from the first one; and the loops backwards.\<close>

definition foreach_at ::
    "links \<Rightarrow> (nat \<Rightarrow> 's \<Rightarrow> ('r + 's) option) \<Rightarrow> nat \<Rightarrow> nat option \<Rightarrow> 's \<Rightarrow> ('r + 's) option" where
  "foreach_at h f q var s = foreach h f (case var of Some x \<Rightarrow> Some x | None \<Rightarrow> q_first h q) s"

definition foreach_at_safe ::
    "(nat \<Rightarrow> links \<times> 's \<Rightarrow> (links \<times> 's) option) \<Rightarrow> nat \<Rightarrow> nat option \<Rightarrow> links \<times> 's \<Rightarrow> (links \<times> 's) option" where
  "foreach_at_safe f q var st =
     foreach_safe f (case var of Some x \<Rightarrow> Some x | None \<Rightarrow> q_first (fst st) q) st"

partial_function (option) reverse_from ::
    "links \<Rightarrow> (nat \<Rightarrow> 's \<Rightarrow> ('r + 's) option) \<Rightarrow> nat option \<Rightarrow> 's \<Rightarrow> ('r + 's) option" where
  "reverse_from h f p s = (case p of
     None \<Rightarrow> Some (Inr s)
   | Some x \<Rightarrow> do {
       r \<leftarrow> f x s;
       case r of
         Inl r \<Rightarrow> Some (Inl r)
       | Inr s \<Rightarrow> do { p \<leftarrow> TAILQ_PREV x h; reverse_from h f p s }
     })"

partial_function (option) reverse_safe_from ::
    "(nat \<Rightarrow> links \<times> 's \<Rightarrow> (links \<times> 's) option) \<Rightarrow> nat option \<Rightarrow> links \<times> 's \<Rightarrow> (links \<times> 's) option" where
  "reverse_safe_from f p st = (case p of
     None \<Rightarrow> Some st
   | Some x \<Rightarrow> do { tvar \<leftarrow> TAILQ_PREV x (fst st); st \<leftarrow> f x st; reverse_safe_from f tvar st })"

definition TAILQ_FOREACH_REVERSE ::
    "links \<Rightarrow> (nat \<Rightarrow> 's \<Rightarrow> ('r + 's) option) \<Rightarrow> nat \<Rightarrow> 's \<Rightarrow> ('r + 's) option" where
  "TAILQ_FOREACH_REVERSE h f q s = do { p \<leftarrow> TAILQ_LAST q h; reverse_from h f p s }"

definition TAILQ_FOREACH_REVERSE_FROM ::
    "links \<Rightarrow> (nat \<Rightarrow> 's \<Rightarrow> ('r + 's) option) \<Rightarrow> nat \<Rightarrow> nat option \<Rightarrow> 's \<Rightarrow> ('r + 's) option" where
  "TAILQ_FOREACH_REVERSE_FROM h f q var s = do {
     p \<leftarrow> (case var of Some x \<Rightarrow> Some (Some x) | None \<Rightarrow> TAILQ_LAST q h);
     reverse_from h f p s
   }"

definition TAILQ_FOREACH_REVERSE_SAFE ::
    "(nat \<Rightarrow> links \<times> 's \<Rightarrow> (links \<times> 's) option) \<Rightarrow> nat \<Rightarrow> links \<times> 's \<Rightarrow> (links \<times> 's) option" where
  "TAILQ_FOREACH_REVERSE_SAFE f q st = do { p \<leftarrow> TAILQ_LAST q (fst st); reverse_safe_from f p st }"

definition TAILQ_FOREACH_REVERSE_FROM_SAFE ::
    "(nat \<Rightarrow> links \<times> 's \<Rightarrow> (links \<times> 's) option) \<Rightarrow> nat \<Rightarrow> nat option \<Rightarrow> links \<times> 's \<Rightarrow> (links \<times> 's) option" where
  "TAILQ_FOREACH_REVERSE_FROM_SAFE f q var st = do {
     p \<leftarrow> (case var of Some x \<Rightarrow> Some (Some x) | None \<Rightarrow> TAILQ_LAST q (fst st));
     reverse_safe_from f p st
   }"

subsection \<open>Two lists at once\<close>

lemma holds_two:
  assumes "holds h L" and "L q1 = Some xs" and "L q2 = Some ys" and "q1 \<noteq> q2"
    and "list_at h' q1 as" and "list_at h' q2 bs"
    and "set as \<inter> set bs = {}" and "set as \<union> set bs \<subseteq> set xs \<union> set ys"
    and "\<And>q. q \<noteq> q1 \<Longrightarrow> q \<noteq> q2 \<Longrightarrow> q_first h' q = q_first h q"
    and "\<And>y. y \<notin> set xs \<union> set ys \<Longrightarrow> q_prev h' y = q_prev h y \<and> q_next h' y = q_next h y"
  shows "holds h' (L(q1 \<mapsto> as, q2 \<mapsto> bs))"
proof -
  have out: "set zs \<inter> (set xs \<union> set ys) = {}" if "L q = Some zs" "q \<noteq> q1" "q \<noteq> q2" for q zs
    using holds_disjoint [OF assms(1) that(1) assms(2) that(2)] holds_disjoint [OF assms(1) that(1) assms(3) that(3)]
    by auto
  have keep: "list_at h' q zs" if z: "L q = Some zs" "q \<noteq> q1" "q \<noteq> q2" for q zs
  proof -
    have "chain h' (Head q) (q_first h q) zs None = chain h (Head q) (q_first h q) zs None"
      by (rule chain_cong) (use out [OF z] assms(10) in blast)+
    then show ?thesis
      using holds_list_at [OF assms(1) z(1)] assms(9) [OF z(2,3)] by (simp add: list_at_def)
  qed
  have "list_at h' q zs" if "(L(q1 \<mapsto> as, q2 \<mapsto> bs)) q = Some zs" for q zs
    using that keep [of q zs] assms(5,6) by (auto split: if_splits)
  moreover have "set us \<inter> set vs = {}"
    if "p \<noteq> q" "(L(q1 \<mapsto> as, q2 \<mapsto> bs)) p = Some us" "(L(q1 \<mapsto> as, q2 \<mapsto> bs)) q = Some vs" for p q us vs
  proof -
    have two: "set us \<subseteq> set xs \<union> set ys" if "p \<in> {q1, q2}"
      using \<open>(L(q1 \<mapsto> as, q2 \<mapsto> bs)) p = Some us\<close> that assms(8) by (auto split: if_splits)
    have two': "set vs \<subseteq> set xs \<union> set ys" if "q \<in> {q1, q2}"
      using \<open>(L(q1 \<mapsto> as, q2 \<mapsto> bs)) q = Some vs\<close> that assms(8) by (auto split: if_splits)
    have "p \<in> {q1, q2} \<or> L p = Some us \<and> p \<noteq> q1 \<and> p \<noteq> q2"
      "q \<in> {q1, q2} \<or> L q = Some vs \<and> q \<noteq> q1 \<and> q \<noteq> q2"
      using that(2,3) by (auto split: if_splits)
    then consider "L p = Some us" "p \<noteq> q1" "p \<noteq> q2" "L q = Some vs" "q \<noteq> q1" "q \<noteq> q2"
      | "p \<in> {q1, q2}" "L q = Some vs" "q \<noteq> q1" "q \<noteq> q2"
      | "q \<in> {q1, q2}" "L p = Some us" "p \<noteq> q1" "p \<noteq> q2"
      | "p \<in> {q1, q2}" "q \<in> {q1, q2}"
      by blast
    then show ?thesis
    proof cases
      case 1
      then show ?thesis using holds_disjoint [OF assms(1), of p us q vs] that(1) by simp
    next
      case 2
      then show ?thesis using out [of q vs] two by blast
    next
      case 3
      then show ?thesis using out [of p us] two' by blast
    next
      case 4
      then show ?thesis using that assms(4,7) by (auto split: if_splits)
    qed
  qed
  ultimately show ?thesis unfolding holds_def by blast
qed

lemma list_at_moved:
  assumes "list_at h q xs" and "q_first h' q' = q_first h q"
    and "\<And>x. x \<in> set xs \<Longrightarrow> q_prev h' x = (if first_of xs = Some x then Some (Head q') else q_prev h x)"
    and "\<And>x. x \<in> set xs \<Longrightarrow> q_next h' x = q_next h x"
  shows "list_at h' q' xs"
  using assms chain_start [of h "Head q" "q_first h q" xs h' "Head q'"] list_at_first [OF assms(1)]
  by (simp add: list_at_def)

lemma LIST_SWAP_fields:
  assumes "q1 \<noteq> q2"
  shows "q_first (LIST_SWAP q1 q2 h) = (q_first h)(q1 := q_first h q2, q2 := q_first h q1)"
    and "q_next (LIST_SWAP q1 q2 h) = q_next h" and "q_last (LIST_SWAP q1 q2 h) = q_last h"
    and "q_prev (LIST_SWAP q1 q2 h) x = (if q_first h q1 = Some x then Some (Head q2)
      else if q_first h q2 = Some x then Some (Head q1) else q_prev h x)"
  using assms by (auto simp: LIST_SWAP_def LIST_FIRST_def Let_def set_ref_def set_prev_def split: option.splits)

lemma holds_LIST_SWAP:
  assumes "holds h L" and "L q1 = Some xs" and "L q2 = Some ys" and "q1 \<noteq> q2"
  shows "holds (LIST_SWAP q1 q2 h) (L(q1 \<mapsto> ys, q2 \<mapsto> xs))"
proof (rule holds_two [OF assms])
  have l: "list_at h q1 xs" "list_at h q2 ys" using assms holds_list_at by blast+
  note f = list_at_first [OF l(1)] list_at_first [OF l(2)] LIST_SWAP_fields [OF assms(4)]
  have d: "set xs \<inter> set ys = {}" using holds_disjoint [OF assms] .
  then show "set ys \<inter> set xs = {}" by blast
  show "list_at (LIST_SWAP q1 q2 h) q1 ys"
    by (rule list_at_moved [OF l(2)]) (use d f assms(4) in \<open>auto dest: first_of_Some\<close>)
  show "list_at (LIST_SWAP q1 q2 h) q2 xs"
    by (rule list_at_moved [OF l(1)]) (use d f assms(4) in \<open>auto dest: first_of_Some\<close>)
  show "q_prev (LIST_SWAP q1 q2 h) y = q_prev h y \<and> q_next (LIST_SWAP q1 q2 h) y = q_next h y"
    if "y \<notin> set xs \<union> set ys" for y
    using that f by (auto dest: first_of_Some)
qed (use LIST_SWAP_fields [OF assms(4)] in auto)

lemma LIST_PREV_eq:
  assumes "holds h L" and "L q = Some (as @ x # bs)"
  shows "LIST_PREV x q h = Some (if as = [] then None else Some (last as))"
  using list_at_prev [OF holds_list_at [OF assms]] by (simp add: LIST_PREV_def end_ref_def)

lemma tails_TAILQ_SWAP:
  assumes "tails h L" and "L q1 = Some xs" and "L q2 = Some ys" and "q1 \<noteq> q2"
  shows "tails (TAILQ_SWAP q1 q2 h) (L(q1 \<mapsto> ys, q2 \<mapsto> xs))"
proof -
  have l: "list_at h q1 xs" "list_at h q2 ys"
    using assms holds_list_at tails_holds by blast+
  note f = list_at_first [OF l(1)] list_at_first [OF l(2)]
  note t = tails_last [OF assms(1,2)] tails_last [OF assms(1,3)]
  have q: "TAILQ_SWAP q1 q2 h = (LIST_SWAP q1 q2 h)\<lparr>q_last := (q_last h)(q1 \<mapsto> end_ref (Head q1) ys, q2 \<mapsto> end_ref (Head q2) xs)\<rparr>"
    using assms(4) f t by (cases xs; cases ys; cases h)
      (auto simp: TAILQ_SWAP_def LIST_SWAP_def LIST_FIRST_def Let_def set_ref_def set_prev_def set_last_def end_ref_def fun_eq_iff)
  have "holds (TAILQ_SWAP q1 q2 h) (L(q1 \<mapsto> ys, q2 \<mapsto> xs))"
    using holds_LIST_SWAP [OF tails_holds [OF assms(1)] assms(2-4)] unfolding q holds_def by simp
  then show ?thesis
    using assms(1,4) by (auto simp: tails_def q)
qed

lemma tails_TAILQ_CONCAT:
  assumes "tails h L" and "L q1 = Some xs" and "L q2 = Some ys" and "q1 \<noteq> q2"
  shows "\<exists>h'. TAILQ_CONCAT q1 q2 h = Some h' \<and> tails h' (L(q1 \<mapsto> xs @ ys, q2 \<mapsto> []))"
proof (cases ys)
  case Nil
  then have "TAILQ_CONCAT q1 q2 h = Some h" "L(q1 \<mapsto> xs @ ys, q2 \<mapsto> []) = L"
    using assms list_at_first [OF holds_list_at [OF tails_holds [OF assms(1)] assms(3)]]
    by (auto simp: TAILQ_CONCAT_def TAILQ_EMPTY_def)
  then show ?thesis using assms(1) by simp
next
  case (Cons y zs)
  have l: "list_at h q1 xs" "list_at h q2 ys"
    using assms holds_list_at tails_holds by blast+
  note f = list_at_first [OF l(1)] list_at_first [OF l(2)]
  note t = tails_last [OF assms(1,2)] tails_last [OF assms(1,3)]
  have d: "set xs \<inter> set ys = {}" "distinct xs" "distinct ys"
    using holds_disjoint [OF tails_holds [OF assms(1)] assms(2-4)] l by (auto simp: list_at_def)
  let ?r = "end_ref (Head q1) xs"
  define h' where "h' = h\<lparr>q_first := (\<lambda>q. if q = q2 then None else if ?r = Head q then Some y else q_first h q),
     q_next := (\<lambda>x. if ?r = Next x then Some y else q_next h x), q_prev := (q_prev h)(y \<mapsto> ?r),
     q_last := (q_last h)(q1 \<mapsto> end_ref (Head q2) ys, q2 \<mapsto> Head q2)\<rparr>"
  have r: "?r \<noteq> Head q2" using assms(4) by (simp add: end_ref_eq_Head)
  have c: "TAILQ_CONCAT q1 q2 h = Some h'"
    using r t f(2) assms(4) Cons
    by (cases h; cases ?r) (auto simp: TAILQ_CONCAT_def TAILQ_EMPTY_def TAILQ_INIT_def set_ref_def set_prev_def set_last_def
        h'_def fun_eq_iff)
  have cx: "chain h (Head q1) (q_first h q1) xs None" "chain h (Head q2) (Some y) ys None"
    using l f(2) Cons by (auto simp: list_at_def)
  have "chain h' ?r (Some y) ys None"
    by (rule chain_start [OF cx(2) d(3)]) (use Cons d(1) in \<open>auto simp: h'_def dest: end_ref_in\<close>)
  moreover have "chain h' (Head q1) (q_first h' q1) xs (Some y)"
  proof (cases "xs = []")
    case False
    have "q_first h' q1 = q_first h q1"
      using False assms(4) by (auto simp: h'_def end_ref_def)
    moreover have "chain h' (Head q1) (q_first h q1) xs (Some y)"
      by (rule chain_end [OF cx(1) d(2) False])
        (use False d(1) Cons in \<open>auto simp: h'_def end_ref_eq_Next\<close>)
    ultimately show ?thesis by simp
  qed (use assms(4) in \<open>simp add: h'_def\<close>)
  ultimately have l1: "list_at h' q1 (xs @ ys)"
    using d by (auto simp: list_at_def chain_append)
  have "holds h' (L(q1 \<mapsto> xs @ ys, q2 \<mapsto> []))"
  proof (rule holds_two [OF tails_holds [OF assms(1)] assms(2-4) l1])
    show "list_at h' q2 []" by (simp add: list_at_def h'_def)
    show "q_first h' q = q_first h q" if "q \<noteq> q1" "q \<noteq> q2" for q
      using that by (auto simp: h'_def end_ref_eq_Head)
    show "q_prev h' x = q_prev h x \<and> q_next h' x = q_next h x" if "x \<notin> set xs \<union> set ys" for x
      using that Cons by (auto simp: h'_def dest: end_ref_in)
  qed auto
  then have "tails h' (L(q1 \<mapsto> xs @ ys, q2 \<mapsto> []))"
    using assms(1,4) Cons by (auto simp: tails_def h'_def end_ref_def)
  then show ?thesis using c by blast
qed

subsection \<open>Loops backwards\<close>

lemma tails_prev:
  assumes "tails h L" and "L q = Some (as @ x # bs)"
  shows "TAILQ_PREV x h = Some (if as = [] then None else Some (last as))"
proof (cases "as = []")
  case True
  then have l: "list_at h q ([] @ x # bs)"
    using holds_list_at [OF tails_holds [OF assms(1)] assms(2)] by simp
  have "q_prev h x = Some (Head q)" using list_at_prev [OF l] by simp
  moreover have "q_last h q = Some (end_ref (Head q) (x # bs))"
    using tails_last [OF assms] True by simp
  ultimately show ?thesis
    using list_at_get_ref [of h q "x # bs" "[]"] l True by (simp add: TAILQ_PREV_def behind_def)
next
  case False
  then show ?thesis
    using TAILQ_PREV_eq [OF assms(1), of q "butlast as" "last as" x bs] assms(2) by simp
qed

lemma reverse_from_loop:
  assumes "tails h L" and "L q = Some (as @ bs)"
  shows "reverse_from h f (if as = [] then None else Some (last as)) s = loop f (rev as) s"
  using assms(2)
proof (induction as arbitrary: bs s rule: rev_induct)
  case Nil
  then show ?case by (simp add: reverse_from.simps)
next
  case (snoc x as)
  have p: "TAILQ_PREV x h = Some (if as = [] then None else Some (last as))"
    using tails_prev [OF assms(1), of q as x bs] snoc.prems by simp
  have IH: "reverse_from h f (if as = [] then None else Some (last as)) = loop f (rev as)"
    using snoc.IH [of "x # bs"] snoc.prems by (simp add: fun_eq_iff)
  show ?case
    by (subst reverse_from.simps) (simp add: p IH cong: if_cong)
qed

lemma TAILQ_FOREACH_REVERSE_loop:
  "tails h L \<Longrightarrow> L q = Some xs \<Longrightarrow> TAILQ_FOREACH_REVERSE h f q s = loop f (rev xs) s"
  using reverse_from_loop [of h L q xs "[]" f s] by (simp add: TAILQ_FOREACH_REVERSE_def TAILQ_LAST_eq)

text \<open>Emptying a queue from its end: the loop may remove the element it is at.\<close>

lemma drain_reverse_from:
  assumes "tails h L" and "L q = Some xs"
  shows "\<exists>h'. reverse_safe_from (\<lambda>x (h, s). do { h \<leftarrow> TAILQ_REMOVE q x h; s \<leftarrow> g x s; Some (h, s) })
      (if xs = [] then None else Some (last xs)) (h, s) =
      map_option (\<lambda>s. (h', s)) (each g (rev xs) s) \<and> tails h' (L(q \<mapsto> []))"
  using assms
proof (induction xs arbitrary: h L s rule: rev_induct)
  case Nil
  then have "L(q \<mapsto> []) = L" by auto
  then show ?case using Nil by (auto simp: reverse_safe_from.simps)
next
  case (snoc x xs)
  obtain h1 where h1: "TAILQ_REMOVE q x h = Some h1" "tails h1 (L(q \<mapsto> xs))"
    using tails_TAILQ_REMOVE [OF snoc.prems(1), of q xs x "[]"] snoc.prems(2) by auto
  have p: "TAILQ_PREV x h = Some (if xs = [] then None else Some (last xs))"
    using tails_prev [OF snoc.prems(1), of q xs x "[]"] snoc.prems(2) by simp
  have IH: "\<exists>h'. reverse_safe_from (\<lambda>x (h, s). do { h \<leftarrow> TAILQ_REMOVE q x h; s \<leftarrow> g x s; Some (h, s) })
      (if xs = [] then None else Some (last xs)) (h1, t) =
      map_option (\<lambda>s. (h', s)) (each g (rev xs) t) \<and> tails h' (L(q \<mapsto> []))" for t
    using snoc.IH [OF h1(2), of t] by (simp add: fun_upd_def cong: if_cong)
  show ?case
  proof (cases "g x s")
    case None
    then show ?thesis using IH [of s] h1 p by (subst reverse_safe_from.simps) auto
  next
    case (Some s1)
    then show ?thesis using IH [of s1] h1 p by (subst reverse_safe_from.simps) simp
  qed
qed

lemma TAILQ_FOREACH_REVERSE_SAFE_drain:
  assumes "tails h L" and "L q = Some xs"
  shows "\<exists>h'. TAILQ_FOREACH_REVERSE_SAFE (\<lambda>x (h, s). do { h \<leftarrow> TAILQ_REMOVE q x h; s \<leftarrow> g x s; Some (h, s) }) q (h, s) =
      map_option (\<lambda>s. (h', s)) (each g (rev xs) s) \<and> tails h' (L(q \<mapsto> []))"
  using drain_reverse_from [OF assms, of g s] by (cases "xs = []") (simp_all add: TAILQ_FOREACH_REVERSE_SAFE_def TAILQ_LAST_eq [OF assms])

text \<open>Loops that start at an element visit it and what follows it.\<close>

lemma foreach_at_loop:
  assumes "tails h L" and "L q = Some (as @ x # bs)"
  shows "foreach_at h f q (Some x) s = loop f (x # bs) s"
    and "foreach_at h f q None s = loop f (as @ x # bs) s"
    and "TAILQ_FOREACH_REVERSE_FROM h f q (Some x) s = loop f (x # rev as) s"
proof -
  show "foreach_at h f q (Some x) s = loop f (x # bs) s"
    using tailqs.foreach_from [OF assms, of f s] by (simp add: foreach_at_def)
  show "foreach_at h f q None s = loop f (as @ x # bs) s"
    using tailqs.foreach_loop [OF assms, of f s] by (simp add: foreach_at_def TAILQ_FIRST_def)
  show "TAILQ_FOREACH_REVERSE_FROM h f q (Some x) s = loop f (x # rev as) s"
    using reverse_from_loop [OF assms(1), of q "as @ [x]" bs f s] assms(2) by (simp add: TAILQ_FOREACH_REVERSE_FROM_def)
qed

end
