(* ===== verification/Queue_Single.thy ===== *)
theory Queue_Single
  imports Queue_Moves
begin

section \<open>Singly linked lists and tail queues (include/mx/queue.h)\<close>

text \<open>
  The macros \<open>SLIST_*\<close> and \<open>STAILQ_*\<close> on the memory of theory \<open>Queue_Links\<close>, without its \<open>prev\<close> fields.
  Removing an element that is not the first walks to the element before it, and ends in a null
  pointer when there is none. \<open>single h L\<close> says that the memory represents the lists \<open>L\<close>,
  \<open>single_tails h L\<close> that the last-element fields are right as well.
\<close>

subsection \<open>Singly linked lists\<close>

definition SLIST_FIRST :: "nat \<Rightarrow> links \<Rightarrow> nat option" where
  "SLIST_FIRST q h = q_first h q"

definition SLIST_EMPTY :: "nat \<Rightarrow> links \<Rightarrow> bool" where
  "SLIST_EMPTY q h \<longleftrightarrow> q_first h q = None"

definition SLIST_NEXT :: "nat \<Rightarrow> links \<Rightarrow> nat option" where
  "SLIST_NEXT x h = q_next h x"

definition SLIST_INIT :: "nat \<Rightarrow> links \<Rightarrow> links" where
  "SLIST_INIT q h = set_ref (Head q) None h"

definition SLIST_INSERT_AFTER :: "nat \<Rightarrow> nat \<Rightarrow> links \<Rightarrow> links" where
  "SLIST_INSERT_AFTER slistelm elm h =
     (let h = set_ref (Next elm) (SLIST_NEXT slistelm h) h in set_ref (Next slistelm) (Some elm) h)"

definition SLIST_INSERT_HEAD :: "nat \<Rightarrow> nat \<Rightarrow> links \<Rightarrow> links" where
  "SLIST_INSERT_HEAD q elm h =
     (let h = set_ref (Next elm) (SLIST_FIRST q h) h in set_ref (Head q) (Some elm) h)"

definition SLIST_REMOVE_AFTER :: "nat \<Rightarrow> links \<Rightarrow> links option" where
  "SLIST_REMOVE_AFTER elm h = do { n \<leftarrow> SLIST_NEXT elm h; Some (set_ref (Next elm) (SLIST_NEXT n h) h) }"

definition SLIST_REMOVE_HEAD :: "nat \<Rightarrow> links \<Rightarrow> links option" where
  "SLIST_REMOVE_HEAD q h = do { f \<leftarrow> SLIST_FIRST q h; Some (set_ref (Head q) (SLIST_NEXT f h) h) }"

text \<open>The loop of the two \<open>REMOVE\<close> macros.\<close>

partial_function (option) find_before :: "links \<Rightarrow> nat \<Rightarrow> nat option \<Rightarrow> nat option" where
  "find_before h elm curelm = (case curelm of
     None \<Rightarrow> None
   | Some c \<Rightarrow> if q_next h c \<noteq> Some elm then find_before h elm (q_next h c) else Some c)"

definition SLIST_REMOVE :: "nat \<Rightarrow> nat \<Rightarrow> links \<Rightarrow> links option" where
  "SLIST_REMOVE q elm h =
     (if SLIST_FIRST q h = Some elm then SLIST_REMOVE_HEAD q h
      else do { curelm \<leftarrow> find_before h elm (SLIST_FIRST q h); SLIST_REMOVE_AFTER curelm h })"

definition SLIST_SWAP :: "nat \<Rightarrow> nat \<Rightarrow> links \<Rightarrow> links" where
  "SLIST_SWAP head1 head2 h =
     (let swap_first = SLIST_FIRST head1 h;
          h = set_ref (Head head1) (SLIST_FIRST head2 h) h
      in set_ref (Head head2) swap_first h)"

text \<open>The loop that also keeps the place of the pointer to the element; a body may change what it leads to.\<close>

partial_function (option) foreach_prevptr ::
    "(ref \<Rightarrow> nat \<Rightarrow> links \<times> 's \<Rightarrow> (links \<times> 's) option) \<Rightarrow> ref \<Rightarrow> links \<times> 's \<Rightarrow> (links \<times> 's) option" where
  "foreach_prevptr f varp st = (case get_ref varp (fst st) of
     None \<Rightarrow> Some st
   | Some x \<Rightarrow> do { st \<leftarrow> f varp x st; foreach_prevptr f (Next x) st })"

definition SLIST_FOREACH_PREVPTR ::
    "(ref \<Rightarrow> nat \<Rightarrow> links \<times> 's \<Rightarrow> (links \<times> 's) option) \<Rightarrow> nat \<Rightarrow> links \<times> 's \<Rightarrow> (links \<times> 's) option" where
  "SLIST_FOREACH_PREVPTR f q st = foreach_prevptr f (Head q) st"

subsection \<open>Singly linked tail queues\<close>

definition STAILQ_FIRST :: "nat \<Rightarrow> links \<Rightarrow> nat option" where
  "STAILQ_FIRST q h = q_first h q"

definition STAILQ_EMPTY :: "nat \<Rightarrow> links \<Rightarrow> bool" where
  "STAILQ_EMPTY q h \<longleftrightarrow> q_first h q = None"

definition STAILQ_NEXT :: "nat \<Rightarrow> links \<Rightarrow> nat option" where
  "STAILQ_NEXT x h = q_next h x"

definition STAILQ_INIT :: "nat \<Rightarrow> links \<Rightarrow> links" where
  "STAILQ_INIT q h = set_last q (Head q) (set_ref (Head q) None h)"

definition STAILQ_CONCAT :: "nat \<Rightarrow> nat \<Rightarrow> links \<Rightarrow> links option" where
  "STAILQ_CONCAT head1 head2 h =
     (if \<not> STAILQ_EMPTY head2 h then do {
        l \<leftarrow> q_last h head1;
        let h = set_ref l (STAILQ_FIRST head2 h) h;
        l2 \<leftarrow> q_last h head2;
        let h = set_last head1 l2 h;
        Some (STAILQ_INIT head2 h)
      } else Some h)"

definition STAILQ_INSERT_AFTER :: "nat \<Rightarrow> nat \<Rightarrow> nat \<Rightarrow> links \<Rightarrow> links" where
  "STAILQ_INSERT_AFTER q tqelm elm h =
     (let h = set_ref (Next elm) (STAILQ_NEXT tqelm h) h;
          h = (if STAILQ_NEXT elm h = None then set_last q (Next elm) h else h)
      in set_ref (Next tqelm) (Some elm) h)"

definition STAILQ_INSERT_HEAD :: "nat \<Rightarrow> nat \<Rightarrow> links \<Rightarrow> links" where
  "STAILQ_INSERT_HEAD q elm h =
     (let h = set_ref (Next elm) (STAILQ_FIRST q h) h;
          h = (if STAILQ_NEXT elm h = None then set_last q (Next elm) h else h)
      in set_ref (Head q) (Some elm) h)"

definition STAILQ_INSERT_TAIL :: "nat \<Rightarrow> nat \<Rightarrow> links \<Rightarrow> links option" where
  "STAILQ_INSERT_TAIL q elm h = do {
     let h = set_ref (Next elm) None h;
     l \<leftarrow> q_last h q;
     let h = set_ref l (Some elm) h;
     Some (set_last q (Next elm) h)
   }"

text \<open>The element around the last \<open>next\<close> field.\<close>

definition STAILQ_LAST :: "nat \<Rightarrow> links \<Rightarrow> nat option option" where
  "STAILQ_LAST q h =
     (if STAILQ_EMPTY q h then Some None
      else case q_last h q of Some (Next x) \<Rightarrow> Some (Some x) | _ \<Rightarrow> None)"

definition STAILQ_REMOVE_AFTER :: "nat \<Rightarrow> nat \<Rightarrow> links \<Rightarrow> links option" where
  "STAILQ_REMOVE_AFTER q elm h = do {
     n \<leftarrow> STAILQ_NEXT elm h;
     let h = set_ref (Next elm) (STAILQ_NEXT n h) h;
     Some (if STAILQ_NEXT elm h = None then set_last q (Next elm) h else h)
   }"

definition STAILQ_REMOVE_HEAD :: "nat \<Rightarrow> links \<Rightarrow> links option" where
  "STAILQ_REMOVE_HEAD q h = do {
     f \<leftarrow> STAILQ_FIRST q h;
     let h = set_ref (Head q) (STAILQ_NEXT f h) h;
     Some (if STAILQ_FIRST q h = None then set_last q (Head q) h else h)
   }"

definition STAILQ_REMOVE :: "nat \<Rightarrow> nat \<Rightarrow> links \<Rightarrow> links option" where
  "STAILQ_REMOVE q elm h =
     (if STAILQ_FIRST q h = Some elm then STAILQ_REMOVE_HEAD q h
      else do { curelm \<leftarrow> find_before h elm (STAILQ_FIRST q h); STAILQ_REMOVE_AFTER q curelm h })"

definition STAILQ_SWAP :: "nat \<Rightarrow> nat \<Rightarrow> links \<Rightarrow> links" where
  "STAILQ_SWAP head1 head2 h =
     (let swap_first = STAILQ_FIRST head1 h; swap_last = q_last h head1;
          h = set_ref (Head head1) (STAILQ_FIRST head2 h) h;
          h = h\<lparr>q_last := (q_last h)(head1 := q_last h head2)\<rparr>;
          h = set_ref (Head head2) swap_first h;
          h = h\<lparr>q_last := (q_last h)(head2 := swap_last)\<rparr>;
          h = (if STAILQ_EMPTY head1 h then set_last head1 (Head head1) h else h)
      in (if STAILQ_EMPTY head2 h then set_last head2 (Head head2) h else h))"

subsection \<open>Paths of \<open>next\<close> fields\<close>

fun path :: "links \<Rightarrow> nat list \<Rightarrow> nat option \<Rightarrow> bool" where
  "path h [] e = True"
| "path h (x # xs) e \<longleftrightarrow> q_next h x = (if xs = [] then e else Some (hd xs)) \<and> path h xs e"

lemma path_append: "path h (xs @ ys) e \<longleftrightarrow> path h xs (if ys = [] then e else first_of ys) \<and> path h ys e"
  by (induction xs) (auto simp: first_of_def split: list.splits)

lemma path_split: "path h (xs @ ys) None \<longleftrightarrow> path h xs (first_of ys) \<and> path h ys None"
  by (simp add: path_append)

lemma path_cong: "(\<And>x. x \<in> set xs \<Longrightarrow> q_next h' x = q_next h x) \<Longrightarrow> path h' xs e = path h xs e"
  by (induction xs) auto

lemma path_end:
  "path h xs e \<Longrightarrow> distinct xs \<Longrightarrow> (\<And>x. x \<in> set xs \<Longrightarrow> q_next h' x = (if x = last xs then e' else q_next h x)) \<Longrightarrow>
   path h' xs e'"
proof (induction xs)
  case (Cons x xs)
  show ?case
  proof (cases "xs = []")
    case False
    have "path h' xs e'" using Cons False by simp
    moreover have "x \<noteq> last xs" using False Cons.prems(2) by auto
    ultimately show ?thesis using Cons.prems False by simp
  qed (use Cons.prems in simp)
qed simp

definition single_at :: "links \<Rightarrow> nat \<Rightarrow> nat list \<Rightarrow> bool" where
  "single_at h q xs \<longleftrightarrow> distinct xs \<and> q_first h q = first_of xs \<and> path h xs None"

lemma single_at_next: "single_at h q (as @ x # bs) \<Longrightarrow> q_next h x = first_of bs"
  by (cases bs) (auto simp: single_at_def path_append)

lemma single_at_get_ref: "single_at h q (as @ bs) \<Longrightarrow> get_ref (end_ref (Head q) as) h = first_of bs"
proof (cases as rule: rev_cases)
  case (snoc cs c)
  assume "single_at h q (as @ bs)"
  then have "single_at h q (cs @ c # bs)" by (simp add: snoc)
  from single_at_next [OF this] show ?thesis by (simp add: snoc end_ref_def get_ref_def)
qed (simp add: single_at_def get_ref_def)

text \<open>A new rest behind the place \<open>end_ref (Head q) as\<close>.\<close>

lemma single_at_rest:
  assumes "single_at h q (as @ bs)" and "distinct (as @ cs)"
    and "get_ref (end_ref (Head q) as) h' = first_of cs" and "as \<noteq> [] \<Longrightarrow> q_first h' q = q_first h q"
    and "\<And>x. x \<in> set as \<Longrightarrow> end_ref (Head q) as \<noteq> Next x \<Longrightarrow> q_next h' x = q_next h x" and "path h' cs None"
  shows "single_at h' q (as @ cs)"
proof -
  have "path h' as (first_of cs)"
  proof (rule path_end)
    show "path h as (first_of bs)" "distinct as"
      using assms(1) by (auto simp: single_at_def path_split)
    show "q_next h' x = (if x = last as then first_of cs else q_next h x)" if "x \<in> set as" for x
      using assms(3,5) that by (auto simp: end_ref_def get_ref_def split: if_splits)
  qed
  moreover have "q_first h' q = first_of (as @ cs)"
    using assms(1,3,4) by (cases as) (auto simp: single_at_def get_ref_def first_of_def)
  ultimately show ?thesis
    using assms(2,6) by (simp add: single_at_def path_split)
qed

definition single :: "links \<Rightarrow> (nat \<rightharpoonup> nat list) \<Rightarrow> bool" where
  "single h L \<longleftrightarrow> (\<forall>q xs. L q = Some xs \<longrightarrow> single_at h q xs) \<and>
     (\<forall>q q' xs ys. q \<noteq> q' \<longrightarrow> L q = Some xs \<longrightarrow> L q' = Some ys \<longrightarrow> set xs \<inter> set ys = {})"

lemma single_single_at: "single h L \<Longrightarrow> L q = Some xs \<Longrightarrow> single_at h q xs"
  by (simp add: single_def)

lemma single_disjoint: "single h L \<Longrightarrow> L q = Some xs \<Longrightarrow> L q' = Some ys \<Longrightarrow> q \<noteq> q' \<Longrightarrow> set xs \<inter> set ys = {}"
  by (auto simp: single_def)

text \<open>Changing the lists of some heads \<open>Q\<close>, whose elements were in those lists or in none.\<close>

lemma single_update:
  assumes "single h L" and "\<And>q xs. q \<in> Q \<Longrightarrow> L' q = Some xs \<Longrightarrow> single_at h' q xs"
    and "\<And>q q' xs ys. q \<in> Q \<Longrightarrow> q' \<noteq> q \<Longrightarrow> L' q = Some xs \<Longrightarrow> L' q' = Some ys \<Longrightarrow> set xs \<inter> set ys = {}"
    and "\<And>q. q \<notin> Q \<Longrightarrow> L' q = L q \<and> q_first h' q = q_first h q"
    and "\<And>q xs x. q \<notin> Q \<Longrightarrow> L q = Some xs \<Longrightarrow> x \<in> set xs \<Longrightarrow> q_next h' x = q_next h x"
  shows "single h' L'"
proof -
  have "single_at h' q xs" if "L' q = Some xs" for q xs
  proof (cases "q \<in> Q")
    case False
    then have "single_at h q xs" using that assms(1,4) single_single_at by metis
    moreover have "path h' xs None = path h xs None"
      by (rule path_cong) (use assms(4,5) False that in auto)
    ultimately show ?thesis using assms(4) [OF False] by (simp add: single_at_def)
  qed (use assms(2) that in blast)
  moreover have "set xs \<inter> set ys = {}" if "q \<noteq> q'" "L' q = Some xs" "L' q' = Some ys" for q q' xs ys
  proof (cases "q \<in> Q \<or> q' \<in> Q")
    case True
    then show ?thesis using assms(3) [of q q' xs ys] assms(3) [of q' q ys xs] that by blast
  next
    case False
    then show ?thesis using assms(4) single_disjoint [OF assms(1), of q xs q' ys] that by simp
  qed
  ultimately show ?thesis unfolding single_def by blast
qed

subsection \<open>Inserting and removing\<close>

definition put_in :: "ref \<Rightarrow> nat \<Rightarrow> links \<Rightarrow> links" where
  "put_in r x h = set_ref r (Some x) (set_ref (Next x) (get_ref r h) h)"

lemma set_ref_fields:
  "q_first (set_ref r p h) q = (if r = Head q then p else q_first h q)"
  "q_next (set_ref r p h) x = (if r = Next x then p else q_next h x)"
  "get_ref r (set_ref r' p h) = (if r = r' then p else get_ref r h)"
  by (auto simp: set_ref_def get_ref_def split: ref.splits)

lemma single_put_in:
  assumes "single h L" and "L q = Some (as @ bs)" and "unlinked x L"
  shows "single (put_in (end_ref (Head q) as) x h) (L(q \<mapsto> as @ x # bs))"
proof (rule single_update [where Q = "{q}", OF assms(1)])
  let ?r = "end_ref (Head q) as"
  have l: "single_at h q (as @ bs)" using assms(1,2) by (rule single_single_at)
  have x: "x \<notin> set (as @ bs)" using assms(2,3) unfolding unlinked_def by blast
  have d: "distinct (as @ bs)" using l by (simp add: single_at_def)
  have r: "?r \<noteq> Next x" using x by (auto dest: end_ref_in)
  have "single_at (put_in ?r x h) q (as @ x # bs)"
  proof (rule single_at_rest [OF l])
    show "path (put_in ?r x h) (x # bs) None"
    proof -
      have "path (put_in ?r x h) bs None = path h bs None"
        by (rule path_cong) (use x d in \<open>auto simp: put_in_def set_ref_fields dest: end_ref_in\<close>)
      then show ?thesis
        using l r single_at_get_ref [OF l] by (cases bs) (auto simp: single_at_def path_split put_in_def set_ref_fields)
    qed
  qed (use x d r in \<open>auto simp: put_in_def set_ref_fields end_ref_eq_Head\<close>)
  then show "single_at (put_in ?r x h) q' xs" if "q' \<in> {q}" "(L(q \<mapsto> as @ x # bs)) q' = Some xs" for q' xs
    using that by auto
  show "set xs \<inter> set ys = {}" if "p \<in> {q}" "q' \<noteq> p" "(L(q \<mapsto> as @ x # bs)) p = Some xs" "(L(q \<mapsto> as @ x # bs)) q' = Some ys"
    for p q' xs ys
    using that single_disjoint [OF assms(1,2), of q' ys] assms(3) unfolding unlinked_def by auto
  show "(L(q \<mapsto> as @ x # bs)) q' = L q' \<and> q_first (put_in ?r x h) q' = q_first h q'" if "q' \<notin> {q}" for q'
    using that by (auto simp: put_in_def set_ref_fields end_ref_eq_Head)
  show "q_next (put_in ?r x h) y = q_next h y" if "q' \<notin> {q}" "L q' = Some zs" "y \<in> set zs" for q' zs y
    using that single_disjoint [OF assms(1,2), of q' zs] assms(3)
    unfolding unlinked_def by (auto simp: put_in_def set_ref_fields dest: end_ref_in)
qed

lemma single_take_out:
  assumes "single h L" and "L q = Some (as @ x # bs)"
  shows "single (set_ref (end_ref (Head q) as) (q_next h x) h) (L(q \<mapsto> as @ bs))"
proof (rule single_update [where Q = "{q}", OF assms(1)])
  let ?r = "end_ref (Head q) as" let ?h = "set_ref ?r (q_next h x) h"
  have l: "single_at h q (as @ x # bs)" using assms(1,2) by (rule single_single_at)
  have d: "distinct (as @ x # bs)" using l by (simp add: single_at_def)
  have n: "q_next h x = first_of bs" by (rule single_at_next [OF l])
  have "single_at ?h q (as @ bs)"
  proof (rule single_at_rest [OF l])
    have "path ?h bs None = path h bs None"
      by (rule path_cong) (use d in \<open>auto simp: set_ref_fields dest: end_ref_in\<close>)
    then show "path ?h bs None" using l by (auto simp: single_at_def path_split)
  qed (use d n in \<open>auto simp: set_ref_fields end_ref_eq_Head\<close>)
  then show "single_at ?h q' xs" if "q' \<in> {q}" "(L(q \<mapsto> as @ bs)) q' = Some xs" for q' xs
    using that by auto
  show "set xs \<inter> set ys = {}" if "p \<in> {q}" "q' \<noteq> p" "(L(q \<mapsto> as @ bs)) p = Some xs" "(L(q \<mapsto> as @ bs)) q' = Some ys"
    for p q' xs ys
    using that single_disjoint [OF assms(1,2), of q' ys] by auto
  show "(L(q \<mapsto> as @ bs)) q' = L q' \<and> q_first ?h q' = q_first h q'" if "q' \<notin> {q}" for q'
    using that by (auto simp: set_ref_fields end_ref_eq_Head)
  show "q_next ?h y = q_next h y" if "q' \<notin> {q}" "L q' = Some zs" "y \<in> set zs" for q' zs y
    using that single_disjoint [OF assms(1,2), of q' zs] by (auto simp: set_ref_fields dest: end_ref_in)
qed

lemma SLIST_INSERT_HEAD_eq: "SLIST_INSERT_HEAD q x h = put_in (Head q) x h"
  by (simp add: SLIST_INSERT_HEAD_def SLIST_FIRST_def put_in_def get_ref_def)

lemma SLIST_INSERT_AFTER_eq: "SLIST_INSERT_AFTER y x h = put_in (Next y) x h"
  by (simp add: SLIST_INSERT_AFTER_def SLIST_NEXT_def put_in_def get_ref_def)

lemma single_SLIST_INIT:
  assumes "single h L"
  shows "single (SLIST_INIT q h) (L(q \<mapsto> []))"
  by (rule single_update [where Q = "{q}", OF assms])
    (auto simp: SLIST_INIT_def set_ref_fields single_at_def)

lemma single_SLIST_INSERT_HEAD:
  "single h L \<Longrightarrow> L q = Some xs \<Longrightarrow> unlinked x L \<Longrightarrow> single (SLIST_INSERT_HEAD q x h) (L(q \<mapsto> x # xs))"
  using single_put_in [of h L q "[]" xs x] by (simp add: SLIST_INSERT_HEAD_eq)

lemma single_SLIST_INSERT_AFTER:
  "single h L \<Longrightarrow> L q = Some (as @ y # bs) \<Longrightarrow> unlinked x L \<Longrightarrow>
   single (SLIST_INSERT_AFTER y x h) (L(q \<mapsto> as @ y # x # bs))"
  using single_put_in [of h L q "as @ [y]" bs x] by (simp add: SLIST_INSERT_AFTER_eq)

text \<open>The walk finds the element before, and without one it ends in a null pointer.\<close>

lemma find_before_eq:
  "path h (as @ y # x # bs) None \<Longrightarrow> distinct (as @ y # x # bs) \<Longrightarrow>
   find_before h x (first_of (as @ [y])) = Some y"
proof (induction as)
  case Nil
  then show ?case by (subst find_before.simps) simp
next
  case (Cons a as)
  then have "q_next h a = first_of (as @ [y])" "q_next h a \<noteq> Some x"
    by (cases as; auto)+
  then show ?case
    using Cons by (subst find_before.simps) simp
qed

lemma find_before_missing:
  "path h xs None \<Longrightarrow> x \<notin> set xs \<Longrightarrow> find_before h x (first_of xs) = None"
proof (induction xs)
  case Nil
  then show ?case by (subst find_before.simps) simp
next
  case (Cons a xs)
  then have "q_next h a = first_of xs" "q_next h a \<noteq> Some x"
    by (cases xs; auto)+
  then show ?case
    using Cons by (subst find_before.simps) simp
qed

lemma single_SLIST_REMOVE_HEAD:
  assumes "single h L" and "L q = Some (x # bs)"
  shows "\<exists>h'. SLIST_REMOVE_HEAD q h = Some h' \<and> single h' (L(q \<mapsto> bs))"
  using single_take_out [of h L q "[]" x bs] single_single_at [OF assms] assms
  by (simp add: SLIST_REMOVE_HEAD_def SLIST_FIRST_def SLIST_NEXT_def single_at_def)

lemma single_SLIST_REMOVE_AFTER:
  assumes "single h L" and "L q = Some (as @ y # x # bs)"
  shows "\<exists>h'. SLIST_REMOVE_AFTER y h = Some h' \<and> single h' (L(q \<mapsto> as @ y # bs))"
  using single_take_out [of h L q "as @ [y]" x bs] single_at_next [OF single_single_at [OF assms]] assms
  by (simp add: SLIST_REMOVE_AFTER_def SLIST_NEXT_def)

lemma remove_place:
  assumes "single h L" and "L q = Some (as @ x # bs)" and "as \<noteq> []"
  shows "q_first h q \<noteq> Some x" and "find_before h x (q_first h q) = Some (last as)"
proof -
  obtain cs y where as: "as = cs @ [y]" using assms(3) by (cases as rule: rev_cases) auto
  have l: "single_at h q (cs @ y # x # bs)" using single_single_at [OF assms(1,2)] by (simp add: as)
  have f: "q_first h q = first_of (cs @ [y])"
    using l by (cases cs) (auto simp: single_at_def)
  show "q_first h q \<noteq> Some x" using l f by (cases cs) (auto simp: single_at_def)
  show "find_before h x (q_first h q) = Some (last as)"
    using find_before_eq [of h cs y x bs] l unfolding f by (simp add: as single_at_def)
qed

lemma single_SLIST_REMOVE:
  assumes "single h L" and "L q = Some (as @ x # bs)"
  shows "\<exists>h'. SLIST_REMOVE q x h = Some h' \<and> single h' (L(q \<mapsto> as @ bs))"
proof (cases as rule: rev_cases)
  case Nil
  then show ?thesis
    using single_SLIST_REMOVE_HEAD [of h L q x bs] single_single_at [OF assms] assms
    by (simp add: SLIST_REMOVE_def SLIST_FIRST_def single_at_def)
next
  case (snoc cs y)
  then show ?thesis
    using remove_place [OF assms] single_SLIST_REMOVE_AFTER [of h L q cs y x bs] assms
    by (simp add: SLIST_REMOVE_def SLIST_FIRST_def)
qed

text \<open>Removing an element that is not in the list follows a null pointer.\<close>

lemma SLIST_REMOVE_missing:
  "single h L \<Longrightarrow> L q = Some xs \<Longrightarrow> x \<notin> set xs \<Longrightarrow> SLIST_REMOVE q x h = None"
  using find_before_missing [of h xs x] single_single_at [of h L q xs]
  by (auto simp: SLIST_REMOVE_def SLIST_FIRST_def single_at_def)

lemma single_SLIST_SWAP:
  assumes "single h L" and "L q1 = Some xs" and "L q2 = Some ys" and "q1 \<noteq> q2"
  shows "single (SLIST_SWAP q1 q2 h) (L(q1 \<mapsto> ys, q2 \<mapsto> xs))"
proof (rule single_update [where Q = "{q1, q2}", OF assms(1)])
  have f: "q_first (SLIST_SWAP q1 q2 h) = (q_first h)(q1 := q_first h q2, q2 := q_first h q1)"
    "q_next (SLIST_SWAP q1 q2 h) = q_next h"
    using assms(4) by (simp_all add: SLIST_SWAP_def SLIST_FIRST_def Let_def set_ref_def)
  have "path (SLIST_SWAP q1 q2 h) zs e = path h zs e" for zs e
    by (rule path_cong) (simp add: f)
  then show "single_at (SLIST_SWAP q1 q2 h) q zs" if "q \<in> {q1, q2}" "(L(q1 \<mapsto> ys, q2 \<mapsto> xs)) q = Some zs" for q zs
    using that assms(4) single_single_at [OF assms(1,2)] single_single_at [OF assms(1,3)]
    by (auto simp: single_at_def f)
  show "set us \<inter> set vs = {}" if "q \<in> {q1, q2}" "q' \<noteq> q" "(L(q1 \<mapsto> ys, q2 \<mapsto> xs)) q = Some us"
      "(L(q1 \<mapsto> ys, q2 \<mapsto> xs)) q' = Some vs" for q q' us vs
    using that assms(4) single_disjoint [OF assms(1-4)] single_disjoint [OF assms(1,2), of q' vs]
      single_disjoint [OF assms(1,3), of q' vs] by (auto split: if_splits)
qed (use assms(4) in \<open>auto simp: SLIST_SWAP_def SLIST_FIRST_def Let_def set_ref_def\<close>)

subsection \<open>Tail queues\<close>

definition single_tails :: "links \<Rightarrow> (nat \<rightharpoonup> nat list) \<Rightarrow> bool" where
  "single_tails h L \<longleftrightarrow> single h L \<and> (\<forall>q xs. L q = Some xs \<longrightarrow> q_last h q = Some (end_ref (Head q) xs))"

lemma single_at_q_last [simp]: "single_at (h\<lparr>q_last := l\<rparr>) q xs = single_at h q xs"
proof -
  have "path (h\<lparr>q_last := l\<rparr>) zs e = path h zs e" for zs e
    by (rule path_cong) simp
  then show ?thesis by (simp add: single_at_def)
qed

lemma single_q_last [simp]: "single (h\<lparr>q_last := l\<rparr>) L = single h L"
  by (simp add: single_def)

lemma single_tails_update:
  "single_tails h L \<Longrightarrow> single h' (L(q \<mapsto> ys)) \<Longrightarrow>
   (\<And>p. q_last h' p = (if p = q then Some (end_ref (Head q) ys) else q_last h p)) \<Longrightarrow> single_tails h' (L(q \<mapsto> ys))"
  by (auto simp: single_tails_def)

lemma put_in_last [simp]: "q_last (put_in r x h) = q_last h"
  by (simp add: put_in_def)

lemma STAILQ_INSERT_TAIL_eq:
  "q_last h q = Some r \<Longrightarrow> get_ref r h = None \<Longrightarrow> STAILQ_INSERT_TAIL q x h = Some (set_last q (Next x) (put_in r x h))"
  by (simp add: STAILQ_INSERT_TAIL_def put_in_def)

lemma put_in_next: "r \<noteq> Next x \<Longrightarrow> q_next (put_in r x h) x = get_ref r h"
  by (simp add: put_in_def set_ref_fields)

lemma set_last_last: "set_ref r p (set_last q l h) = set_last q l (set_ref r p h)"
  by (cases r) (simp_all add: set_ref_def set_last_def)

lemma STAILQ_INSERT_HEAD_eq:
  "STAILQ_INSERT_HEAD q x h =
     (if q_first h q = None then set_last q (Next x) (put_in (Head q) x h) else put_in (Head q) x h)"
  by (simp add: STAILQ_INSERT_HEAD_def STAILQ_FIRST_def STAILQ_NEXT_def put_in_def get_ref_def set_ref_fields Let_def set_last_last)

lemma STAILQ_INSERT_AFTER_eq:
  "x \<noteq> y \<Longrightarrow> STAILQ_INSERT_AFTER q y x h =
     (if q_next h y = None then set_last q (Next x) (put_in (Next y) x h) else put_in (Next y) x h)"
  by (simp add: STAILQ_INSERT_AFTER_def STAILQ_NEXT_def put_in_def get_ref_def set_ref_fields Let_def set_last_last)

lemma single_set_last [simp]: "single (set_last q r h) L = single h L"
  by (simp add: set_last_def)

lemma tails_STAILQ_INSERT_TAIL:
  assumes "single_tails h L" and "L q = Some xs" and "unlinked x L"
  shows "\<exists>h'. STAILQ_INSERT_TAIL q x h = Some h' \<and> single_tails h' (L(q \<mapsto> xs @ [x]))"
proof -
  let ?r = "end_ref (Head q) xs"
  have s: "single h L" "q_last h q = Some ?r" using assms(1,2) by (auto simp: single_tails_def)
  have "get_ref ?r h = None"
    using single_at_get_ref [of h q xs "[]"] single_single_at [OF s(1) assms(2)] by simp
  then have "STAILQ_INSERT_TAIL q x h = Some (set_last q (Next x) (put_in ?r x h))"
    by (rule STAILQ_INSERT_TAIL_eq [OF s(2)])
  moreover have "single_tails (set_last q (Next x) (put_in ?r x h)) (L(q \<mapsto> xs @ [x]))"
    using single_put_in [OF s(1), of q xs "[]" x] assms(2,3)
    by (intro single_tails_update [OF assms(1)]) auto
  ultimately show ?thesis by blast
qed

lemma tails_STAILQ_INSERT_HEAD:
  assumes "single_tails h L" and "L q = Some xs" and "unlinked x L"
  shows "single_tails (STAILQ_INSERT_HEAD q x h) (L(q \<mapsto> x # xs))"
proof (rule single_tails_update [OF assms(1)])
  have s: "single h L" "q_last h q = Some (end_ref (Head q) xs)" using assms(1,2) by (auto simp: single_tails_def)
  have f: "q_first h q = first_of xs" using single_single_at [OF s(1) assms(2)] by (simp add: single_at_def)
  show "single (STAILQ_INSERT_HEAD q x h) (L(q \<mapsto> x # xs))"
    using single_put_in [OF s(1), of q "[]" xs x] assms(2,3) by (simp add: STAILQ_INSERT_HEAD_eq)
  show "q_last (STAILQ_INSERT_HEAD q x h) p = (if p = q then Some (end_ref (Head q) (x # xs)) else q_last h p)" for p
    using s(2) f by (cases xs) (auto simp: STAILQ_INSERT_HEAD_eq end_ref_def)
qed

lemma tails_STAILQ_INSERT_AFTER:
  assumes "single_tails h L" and "L q = Some (as @ y # bs)" and "unlinked x L"
  shows "single_tails (STAILQ_INSERT_AFTER q y x h) (L(q \<mapsto> as @ y # x # bs))"
proof (rule single_tails_update [OF assms(1)])
  have s: "single h L" "q_last h q = Some (end_ref (Head q) (as @ y # bs))" using assms(1,2) by (auto simp: single_tails_def)
  have f: "q_next h y = first_of bs" by (rule single_at_next [OF single_single_at [OF s(1) assms(2)]])
  have xy: "x \<noteq> y" using assms(2,3) unfolding unlinked_def by fastforce
  show "single (STAILQ_INSERT_AFTER q y x h) (L(q \<mapsto> as @ y # x # bs))"
    using single_put_in [OF s(1), of q "as @ [y]" bs x] assms(2,3) by (simp add: STAILQ_INSERT_AFTER_eq [OF xy])
  show "q_last (STAILQ_INSERT_AFTER q y x h) p = (if p = q then Some (end_ref (Head q) (as @ y # x # bs)) else q_last h p)" for p
    using s(2) f by (cases bs) (auto simp: STAILQ_INSERT_AFTER_eq [OF xy] end_ref_def)
qed

lemma tails_take_out:
  assumes "single_tails h L" and "L q = Some (as @ x # bs)"
    and "h' = set_ref (end_ref (Head q) as) (q_next h x) h"
  shows "single_tails (if q_next h x = None then set_last q (end_ref (Head q) as) h' else h') (L(q \<mapsto> as @ bs))"
proof (rule single_tails_update [OF assms(1)])
  have s: "single h L" "q_last h q = Some (end_ref (Head q) (as @ x # bs))" using assms(1,2) by (auto simp: single_tails_def)
  have n: "q_next h x = first_of bs" by (rule single_at_next [OF single_single_at [OF s(1) assms(2)]])
  show "single (if q_next h x = None then set_last q (end_ref (Head q) as) h' else h') (L(q \<mapsto> as @ bs))"
    using single_take_out [OF s(1) assms(2)] unfolding assms(3) by (cases "q_next h x") simp_all
  show "q_last (if q_next h x = None then set_last q (end_ref (Head q) as) h' else h') p =
      (if p = q then Some (end_ref (Head q) (as @ bs)) else q_last h p)" for p
    using s(2) n assms(3) by (cases bs) (auto simp: end_ref_def)
qed

lemma tails_STAILQ_REMOVE_HEAD:
  assumes "single_tails h L" and "L q = Some (x # bs)"
  shows "\<exists>h'. STAILQ_REMOVE_HEAD q h = Some h' \<and> single_tails h' (L(q \<mapsto> bs))"
proof -
  have "q_first h q = Some x"
    using assms single_single_at [of h L q] by (simp add: single_tails_def single_at_def)
  then show ?thesis
    using tails_take_out [of h L q "[]" x bs, OF _ _ refl] assms
    by (simp add: STAILQ_REMOVE_HEAD_def STAILQ_FIRST_def STAILQ_NEXT_def set_ref_fields cong: if_cong)
qed

lemma tails_STAILQ_REMOVE_AFTER:
  assumes "single_tails h L" and "L q = Some (as @ y # x # bs)"
  shows "\<exists>h'. STAILQ_REMOVE_AFTER q y h = Some h' \<and> single_tails h' (L(q \<mapsto> as @ y # bs))"
proof -
  have "q_next h y = Some x"
    using assms single_at_next [OF single_single_at [of h L q]] by (simp add: single_tails_def)
  then show ?thesis
    using tails_take_out [of h L q "as @ [y]" x bs, OF _ _ refl] assms
    by (simp add: STAILQ_REMOVE_AFTER_def STAILQ_NEXT_def set_ref_fields cong: if_cong)
qed

lemma tails_STAILQ_REMOVE:
  assumes "single_tails h L" and "L q = Some (as @ x # bs)"
  shows "\<exists>h'. STAILQ_REMOVE q x h = Some h' \<and> single_tails h' (L(q \<mapsto> as @ bs))"
proof -
  have s: "single h L" using assms(1) by (simp add: single_tails_def)
  show ?thesis
  proof (cases as rule: rev_cases)
    case Nil
    then show ?thesis
      using tails_STAILQ_REMOVE_HEAD [of h L q x bs] single_single_at [OF s assms(2)] assms
      by (simp add: STAILQ_REMOVE_def STAILQ_FIRST_def single_at_def)
  next
    case (snoc cs y)
    then show ?thesis
      using remove_place [OF s assms(2)] tails_STAILQ_REMOVE_AFTER [of h L q cs y x bs] assms
      by (simp add: STAILQ_REMOVE_def STAILQ_FIRST_def)
  qed
qed

lemma tails_STAILQ_INIT:
  assumes "single_tails h L"
  shows "single_tails (STAILQ_INIT q h) (L(q \<mapsto> []))"
  using single_SLIST_INIT [of h L q] assms
  by (intro single_tails_update [OF assms]) (auto simp: STAILQ_INIT_def SLIST_INIT_def single_tails_def)

lemma STAILQ_LAST_eq:
  assumes "single_tails h L" and "L q = Some xs"
  shows "STAILQ_LAST q h = Some (if xs = [] then None else Some (last xs))"
  using assms single_single_at [of h L q xs]
  by (cases xs) (auto simp: STAILQ_LAST_def STAILQ_EMPTY_def single_tails_def single_at_def end_ref_def)

interpretation slists: linked_lists single SLIST_INIT SLIST_FIRST SLIST_INSERT_HEAD SLIST_REMOVE
proof unfold_locales
  show "single h L \<Longrightarrow> L q = Some xs \<Longrightarrow> SLIST_FIRST q h = first_of xs" for h L q xs
    using single_single_at [of h L q xs] by (simp add: SLIST_FIRST_def single_at_def)
  show "single h L \<Longrightarrow> L q = Some (as @ x # bs) \<Longrightarrow> q_next h x = first_of bs" for h L q as x bs
    using single_at_next [OF single_single_at] .
qed (simp_all add: single_SLIST_INIT single_SLIST_INSERT_HEAD single_SLIST_REMOVE)

interpretation stailqs: tail_queues single_tails STAILQ_INIT STAILQ_FIRST STAILQ_INSERT_HEAD STAILQ_REMOVE
  STAILQ_INSERT_TAIL STAILQ_LAST
proof unfold_locales
  show "single_tails h L \<Longrightarrow> L q = Some xs \<Longrightarrow> STAILQ_FIRST q h = first_of xs" for h L q xs
    using single_single_at [of h L q xs] by (simp add: STAILQ_FIRST_def single_at_def single_tails_def)
  show "single_tails h L \<Longrightarrow> L q = Some (as @ x # bs) \<Longrightarrow> q_next h x = first_of bs" for h L q as x bs
    using single_at_next [OF single_single_at, of h L q as x bs] by (simp add: single_tails_def)
qed (simp_all add: tails_STAILQ_INIT tails_STAILQ_INSERT_HEAD tails_STAILQ_REMOVE tails_STAILQ_INSERT_TAIL STAILQ_LAST_eq)

subsection \<open>Joining and swapping\<close>

lemma tails_STAILQ_CONCAT:
  assumes "single_tails h L" and "L q1 = Some xs" and "L q2 = Some ys" and "q1 \<noteq> q2"
  shows "\<exists>h'. STAILQ_CONCAT q1 q2 h = Some h' \<and> single_tails h' (L(q1 \<mapsto> xs @ ys, q2 \<mapsto> []))"
proof (cases ys)
  case Nil
  then have "STAILQ_CONCAT q1 q2 h = Some h" "L(q1 \<mapsto> xs @ ys, q2 \<mapsto> []) = L"
    using assms single_single_at [of h L q2] by (auto simp: STAILQ_CONCAT_def STAILQ_EMPTY_def single_tails_def single_at_def)
  then show ?thesis using assms(1) by simp
next
  case (Cons y zs)
  have s: "single h L" and l: "q_last h q1 = Some (end_ref (Head q1) xs)" "q_last h q2 = Some (end_ref (Head q2) ys)"
    using assms by (auto simp: single_tails_def)
  have at: "single_at h q1 (xs @ [])" "single_at h q2 ys"
    using single_single_at [OF s] assms(2,3) by auto
  have d: "set xs \<inter> set ys = {}" by (rule single_disjoint [OF s assms(2-4)])
  let ?r = "end_ref (Head q1) xs"
  define h1 where "h1 = set_ref (Head q2) None (set_ref ?r (Some y) h)"
  have r: "?r \<noteq> Head q2" using assms(4) by (simp add: end_ref_eq_Head)
  have "STAILQ_CONCAT q1 q2 h = Some (set_last q2 (Head q2) (set_last q1 (end_ref (Head q2) ys) h1))"
    using l at(2) Cons assms(4)
    by (simp add: STAILQ_CONCAT_def STAILQ_EMPTY_def STAILQ_INIT_def STAILQ_FIRST_def single_at_def h1_def set_last_last)
  moreover have "single h1 (L(q1 \<mapsto> xs @ ys, q2 \<mapsto> []))"
  proof (rule single_update [where Q = "{q1, q2}", OF s])
    have "single_at h1 q1 (xs @ ys)"
    proof (rule single_at_rest [OF at(1)])
      have "path h1 ys None = path h ys None"
        by (rule path_cong) (use d in \<open>auto simp: h1_def set_ref_fields dest: end_ref_in\<close>)
      then show "path h1 ys None" using at(2) by (simp add: single_at_def)
    qed (use d at assms(4) r Cons in \<open>auto simp: h1_def set_ref_fields single_at_def end_ref_eq_Head\<close>)
    moreover have "single_at h1 q2 []" by (simp add: single_at_def h1_def set_ref_fields)
    ultimately show "single_at h1 q us" if "q \<in> {q1, q2}" "(L(q1 \<mapsto> xs @ ys, q2 \<mapsto> [])) q = Some us" for q us
      using that assms(4) by (auto split: if_splits)
    show "set us \<inter> set vs = {}" if "q \<in> {q1, q2}" "q' \<noteq> q" "(L(q1 \<mapsto> xs @ ys, q2 \<mapsto> [])) q = Some us"
        "(L(q1 \<mapsto> xs @ ys, q2 \<mapsto> [])) q' = Some vs" for q q' us vs
      using that assms(4) single_disjoint [OF s assms(2), of q' vs] single_disjoint [OF s assms(3), of q' vs]
      by (auto split: if_splits)
    show "q_next h1 x = q_next h x" if "q \<notin> {q1, q2}" "L q = Some us" "x \<in> set us" for q us x
      using that single_disjoint [OF s assms(2), of q us] by (auto simp: h1_def set_ref_fields dest: end_ref_in)
  qed (auto simp: h1_def set_ref_fields end_ref_eq_Head)
  then have "single_tails (set_last q2 (Head q2) (set_last q1 (end_ref (Head q2) ys) h1)) (L(q1 \<mapsto> xs @ ys, q2 \<mapsto> []))"
    using assms(1,4) Cons by (auto simp: single_tails_def h1_def end_ref_def)
  ultimately show ?thesis by blast
qed

lemma tails_STAILQ_SWAP:
  assumes "single_tails h L" and "L q1 = Some xs" and "L q2 = Some ys" and "q1 \<noteq> q2"
  shows "single_tails (STAILQ_SWAP q1 q2 h) (L(q1 \<mapsto> ys, q2 \<mapsto> xs))"
proof -
  have s: "single h L" and l: "q_last h q1 = Some (end_ref (Head q1) xs)" "q_last h q2 = Some (end_ref (Head q2) ys)"
    using assms by (auto simp: single_tails_def)
  have f: "q_first h q1 = first_of xs" "q_first h q2 = first_of ys"
    using single_single_at [OF s] assms(2,3) by (auto simp: single_at_def)
  have "STAILQ_SWAP q1 q2 h = (SLIST_SWAP q1 q2 h)\<lparr>q_last := (q_last h)(q1 \<mapsto> end_ref (Head q1) ys, q2 \<mapsto> end_ref (Head q2) xs)\<rparr>"
    using assms(4) f l
    by (cases xs; cases ys; cases h) (auto simp: STAILQ_SWAP_def SLIST_SWAP_def STAILQ_FIRST_def SLIST_FIRST_def
        STAILQ_EMPTY_def Let_def set_ref_def set_last_def end_ref_def fun_eq_iff)
  moreover have "single (SLIST_SWAP q1 q2 h) (L(q1 \<mapsto> ys, q2 \<mapsto> xs))"
    by (rule single_SLIST_SWAP [OF s assms(2-4)])
  ultimately show ?thesis
    using assms(1,4) by (auto simp: single_tails_def)
qed

text \<open>The loop with the place of the pointer: reading only, it visits every element with its place.\<close>

fun with_places :: "ref \<Rightarrow> (ref \<Rightarrow> nat \<Rightarrow> 's \<Rightarrow> 's option) \<Rightarrow> nat list \<Rightarrow> 's \<Rightarrow> 's option" where
  "with_places r f [] s = Some s"
| "with_places r f (x # xs) s = do { s \<leftarrow> f r x s; with_places (Next x) f xs s }"

lemma SLIST_FOREACH_PREVPTR_eq:
  assumes "single h L" and "L q = Some xs"
  shows "SLIST_FOREACH_PREVPTR (\<lambda>r x (h, s). map_option (Pair h) (f r x s)) q (h, s) =
    map_option (Pair h) (with_places (Head q) f xs s)"
proof -
  let ?f = "\<lambda>r x (h, s). map_option (Pair h) (f r x s)"
  have at: "single_at h q xs" by (rule single_single_at [OF assms])
  have "foreach_prevptr ?f (end_ref (Head q) as) (h, s) = map_option (Pair h) (with_places (end_ref (Head q) as) f bs s)"
    if "xs = as @ bs" for as bs and s
    using that
  proof (induction bs arbitrary: as s)
    case Nil
    then show ?case
      using single_at_get_ref [of h q as "[]"] at by (subst foreach_prevptr.simps) simp
  next
    case (Cons b bs)
    have g: "get_ref (end_ref (Head q) as) h = Some b"
      using single_at_get_ref [of h q as "b # bs"] at Cons.prems by simp
    have "foreach_prevptr ?f (Next b) (h, t) = map_option (Pair h) (with_places (Next b) f bs t)" for t
      using Cons.IH [of "as @ [b]" t] Cons.prems by simp
    then show ?case
      using g by (subst foreach_prevptr.simps) (simp split: option.split bind_split add: bind_map_option comp_def)
  qed
  from this [of "[]" xs] show ?thesis by (simp add: SLIST_FOREACH_PREVPTR_def)
qed

end
