(* ===== verification/Loop_Bodies.thy ===== *)
theory Loop_Bodies
  imports Cmx_Prelude
begin

section \<open>Loops over linked structures\<close>

text \<open>
  The body of a loop gets an element, the memory \<open>'m\<close> the elements are linked in, and its own state \<open>'s\<close>. It
  leaves the loop with \<open>Inl r\<close> (\<open>break\<close>, \<open>return\<close>). The theorems on loops are stated with two lists: what
  a body that only reads does along them, and what a body that unlinks each element does.
\<close>

text \<open>What a loop whose body leaves the links alone should do: the body on each entry of a list, in order.\<close>

fun visit :: "('a \<Rightarrow> 's \<Rightarrow> ('r + 's) option) \<Rightarrow> 'a list \<Rightarrow> 's \<Rightarrow> ('r + 's) option" where
  "visit f [] s = Some (Inr s)"
| "visit f (x # xs) s = do { r \<leftarrow> f x s; case r of Inl r \<Rightarrow> Some (Inl r) | Inr s \<Rightarrow> visit f xs s }"

definition keeping :: "'m \<Rightarrow> ('r + 's) option \<Rightarrow> ('r + 'm \<times> 's) option" where
  "keeping m r = map_option (map_sum id (Pair m)) r"

definition reading :: "('a \<Rightarrow> 's \<Rightarrow> ('r + 's) option) \<Rightarrow> 'a \<Rightarrow> 'm \<times> 's \<Rightarrow> ('r + 'm \<times> 's) option" where
  "reading f x st = (case st of (m, s) \<Rightarrow> keeping m (f x s))"

lemma keeping_simps [simp]:
  "keeping m (Some (Inr s)) = Some (Inr (m, s))" "keeping m (Some (Inl r)) = Some (Inl r)" "keeping m None = None"
  by (simp_all add: keeping_def)

fun visit_all :: "('a \<Rightarrow> 's \<Rightarrow> 's option) \<Rightarrow> 'a list \<Rightarrow> 's \<Rightarrow> 's option" where
  "visit_all g [] s = Some s"
| "visit_all g (x # xs) s = do { s \<leftarrow> g x s; visit_all g xs s }"

lemma option_eqI: "(\<And>y. a = Some y \<Longrightarrow> b = Some y) \<Longrightarrow> (\<And>y. b = Some y \<Longrightarrow> a = Some y) \<Longrightarrow> a = b"
  by (cases a; cases b) auto

end
