(* ===== verification/Kernel_List.thy ===== *)
theory Kernel_List
  imports Loop_Bodies
begin

section \<open>Circular lists (include/mx/list.h)\<close>

text \<open>
  Doubly linked rings of \<open>struct list_head\<close>: the head of a list and its entries are objects of the
  same kind, a memory maps the address of each to its \<open>next\<close> and \<open>prev\<close> pointers. Following a pointer
  to something that is no such object has no result. \<open>ring m head xs\<close> says that the entries
  \<open>xs\<close> are linked to a ring through \<open>head\<close>, in both directions.
\<close>

type_synonym addr = "64 word"
type_synonym list_mem = "addr \<rightharpoonup> addr \<times> addr"

definition get_next :: "addr \<Rightarrow> list_mem \<Rightarrow> addr option" where
  "get_next a m = map_option fst (m a)"

definition get_prev :: "addr \<Rightarrow> list_mem \<Rightarrow> addr option" where
  "get_prev a m = map_option snd (m a)"

definition set_next :: "addr \<Rightarrow> addr \<Rightarrow> list_mem \<Rightarrow> list_mem option" where
  "set_next a v m = (case m a of Some (n, p) \<Rightarrow> Some (m(a \<mapsto> (v, p))) | None \<Rightarrow> None)"

definition set_prev_of :: "addr \<Rightarrow> addr \<Rightarrow> list_mem \<Rightarrow> list_mem option" where
  "set_prev_of a v m = (case m a of Some (n, p) \<Rightarrow> Some (m(a \<mapsto> (n, v))) | None \<Rightarrow> None)"

subsection \<open>The operations\<close>

definition INIT_LIST_HEAD :: "addr \<Rightarrow> list_mem \<Rightarrow> list_mem option" where
  "INIT_LIST_HEAD p m = do { m \<leftarrow> set_next p p m; set_prev_of p p m }"

text \<open>\<open>__list_add\<close>\<close>

definition list_add_between :: "addr \<Rightarrow> addr \<Rightarrow> addr \<Rightarrow> list_mem \<Rightarrow> list_mem option" where
  "list_add_between new prev next m = do {
     m \<leftarrow> set_prev_of next new m;
     m \<leftarrow> set_next new next m;
     m \<leftarrow> set_prev_of new prev m;
     set_next prev new m
   }"

definition list_add :: "addr \<Rightarrow> addr \<Rightarrow> list_mem \<Rightarrow> list_mem option" where
  "list_add new head m = do { n \<leftarrow> get_next head m; list_add_between new head n m }"

definition list_add_tail :: "addr \<Rightarrow> addr \<Rightarrow> list_mem \<Rightarrow> list_mem option" where
  "list_add_tail new head m = do { p \<leftarrow> get_prev head m; list_add_between new p head m }"

text \<open>\<open>__list_del\<close>\<close>

definition list_del_between :: "addr \<Rightarrow> addr \<Rightarrow> list_mem \<Rightarrow> list_mem option" where
  "list_del_between prev next m = do { m \<leftarrow> set_prev_of next prev m; set_next prev next m }"

definition list_del :: "addr \<Rightarrow> list_mem \<Rightarrow> list_mem option" where
  "list_del entry m = do {
     p \<leftarrow> get_prev entry m;
     n \<leftarrow> get_next entry m;
     m \<leftarrow> list_del_between p n m;
     m \<leftarrow> set_next entry 0 m;
     set_prev_of entry 0 m
   }"

definition list_del_init :: "addr \<Rightarrow> list_mem \<Rightarrow> list_mem option" where
  "list_del_init entry m = do {
     p \<leftarrow> get_prev entry m;
     n \<leftarrow> get_next entry m;
     m \<leftarrow> list_del_between p n m;
     INIT_LIST_HEAD entry m
   }"

definition list_move :: "addr \<Rightarrow> addr \<Rightarrow> list_mem \<Rightarrow> list_mem option" where
  "list_move entry head m = do {
     p \<leftarrow> get_prev entry m;
     n \<leftarrow> get_next entry m;
     m \<leftarrow> list_del_between p n m;
     list_add entry head m
   }"

definition list_move_tail :: "addr \<Rightarrow> addr \<Rightarrow> list_mem \<Rightarrow> list_mem option" where
  "list_move_tail entry head m = do {
     p \<leftarrow> get_prev entry m;
     n \<leftarrow> get_next entry m;
     m \<leftarrow> list_del_between p n m;
     list_add_tail entry head m
   }"

definition list_empty :: "addr \<Rightarrow> list_mem \<Rightarrow> bool option" where
  "list_empty head m = do { n \<leftarrow> get_next head m; Some (n = head) }"

text \<open>\<open>__list_splice\<close>\<close>

definition list_splice_between :: "addr \<Rightarrow> addr \<Rightarrow> list_mem \<Rightarrow> list_mem option" where
  "list_splice_between list head m = do {
     first \<leftarrow> get_next list m;
     last \<leftarrow> get_prev list m;
     at \<leftarrow> get_next head m;
     m \<leftarrow> set_prev_of first head m;
     m \<leftarrow> set_next head first m;
     m \<leftarrow> set_next last at m;
     set_prev_of at last m
   }"

definition list_splice :: "addr \<Rightarrow> addr \<Rightarrow> list_mem \<Rightarrow> list_mem option" where
  "list_splice list head m = do {
     e \<leftarrow> list_empty list m;
     if \<not> e then list_splice_between list head m else Some m
   }"

definition list_splice_init :: "addr \<Rightarrow> addr \<Rightarrow> list_mem \<Rightarrow> list_mem option" where
  "list_splice_init list head m = do {
     e \<leftarrow> list_empty list m;
     if \<not> e then do { m \<leftarrow> list_splice_between list head m; INIT_LIST_HEAD list m } else Some m
   }"

text \<open>The structure around an entry, whose member is \<open>member\<close> bytes behind its start.\<close>

definition list_entry :: "addr \<Rightarrow> addr \<Rightarrow> addr" where
  "list_entry p member = p - member"

text \<open>
  The loops, forwards and backwards.  The body gets the entry, the memory of entries and its own state; it may
  leave the loop with a value, \<open>Inl r\<close> (\<open>break\<close>, \<open>return\<close>).  A safe loop reads the successor before the body runs.
\<close>

partial_function (option) list_for_each_from ::
    "(addr \<Rightarrow> list_mem \<Rightarrow> addr option) \<Rightarrow> (addr \<Rightarrow> list_mem \<times> 's \<Rightarrow> ('r + list_mem \<times> 's) option) \<Rightarrow>
      addr \<Rightarrow> addr \<Rightarrow> list_mem \<times> 's \<Rightarrow> ('r + list_mem \<times> 's) option" where
  "list_for_each_from follow f pos head st =
     (if pos = head then Some (Inr st)
      else do {
        r \<leftarrow> f pos st;
        case r of
          Inl r \<Rightarrow> Some (Inl r)
        | Inr st \<Rightarrow> do { pos \<leftarrow> follow pos (fst st); list_for_each_from follow f pos head st }
      })"

definition list_for_each ::
    "(addr \<Rightarrow> list_mem \<times> 's \<Rightarrow> ('r + list_mem \<times> 's) option) \<Rightarrow> addr \<Rightarrow> list_mem \<times> 's \<Rightarrow> ('r + list_mem \<times> 's) option" where
  "list_for_each f head st = do { pos \<leftarrow> get_next head (fst st); list_for_each_from get_next f pos head st }"

definition list_for_each_prev ::
    "(addr \<Rightarrow> list_mem \<times> 's \<Rightarrow> ('r + list_mem \<times> 's) option) \<Rightarrow> addr \<Rightarrow> list_mem \<times> 's \<Rightarrow> ('r + list_mem \<times> 's) option" where
  "list_for_each_prev f head st = do { pos \<leftarrow> get_prev head (fst st); list_for_each_from get_prev f pos head st }"

partial_function (option) list_for_each_safe_from ::
    "(addr \<Rightarrow> list_mem \<times> 's \<Rightarrow> ('r + list_mem \<times> 's) option) \<Rightarrow> addr \<Rightarrow> addr \<Rightarrow> addr \<Rightarrow> list_mem \<times> 's \<Rightarrow> ('r + list_mem \<times> 's) option" where
  "list_for_each_safe_from f pos n head st =
     (if pos = head then Some (Inr st)
      else do {
        r \<leftarrow> f pos st;
        case r of
          Inl r \<Rightarrow> Some (Inl r)
        | Inr st \<Rightarrow> do {
            let pos = n;
            n \<leftarrow> get_next pos (fst st);
            list_for_each_safe_from f pos n head st
          }
      })"

definition list_for_each_safe ::
    "(addr \<Rightarrow> list_mem \<times> 's \<Rightarrow> ('r + list_mem \<times> 's) option) \<Rightarrow> addr \<Rightarrow> list_mem \<times> 's \<Rightarrow> ('r + list_mem \<times> 's) option" where
  "list_for_each_safe f head st = do {
     pos \<leftarrow> get_next head (fst st);
     n \<leftarrow> get_next pos (fst st);
     list_for_each_safe_from f pos n head st
   }"

text \<open>The loops over the structures around the entries; \<open>pos\<close> is a structure, \<open>pos + member\<close> its entry.\<close>

partial_function (option) list_for_each_entry_from ::
    "addr \<Rightarrow> (addr \<Rightarrow> list_mem \<times> 's \<Rightarrow> ('r + list_mem \<times> 's) option) \<Rightarrow> addr \<Rightarrow> addr \<Rightarrow> list_mem \<times> 's \<Rightarrow>
      ('r + list_mem \<times> 's) option" where
  "list_for_each_entry_from member f pos head st =
     (if pos + member = head then Some (Inr st)
      else do {
        r \<leftarrow> f pos st;
        case r of
          Inl r \<Rightarrow> Some (Inl r)
        | Inr st \<Rightarrow> do {
            n \<leftarrow> get_next (pos + member) (fst st);
            list_for_each_entry_from member f (list_entry n member) head st
          }
      })"

definition list_for_each_entry ::
    "addr \<Rightarrow> (addr \<Rightarrow> list_mem \<times> 's \<Rightarrow> ('r + list_mem \<times> 's) option) \<Rightarrow> addr \<Rightarrow> list_mem \<times> 's \<Rightarrow> ('r + list_mem \<times> 's) option" where
  "list_for_each_entry member f head st = do {
     n \<leftarrow> get_next head (fst st);
     list_for_each_entry_from member f (list_entry n member) head st
   }"

partial_function (option) list_for_each_entry_safe_from ::
    "addr \<Rightarrow> (addr \<Rightarrow> list_mem \<times> 's \<Rightarrow> ('r + list_mem \<times> 's) option) \<Rightarrow> addr \<Rightarrow> addr \<Rightarrow> addr \<Rightarrow>
      list_mem \<times> 's \<Rightarrow> ('r + list_mem \<times> 's) option" where
  "list_for_each_entry_safe_from member f pos n head st =
     (if pos + member = head then Some (Inr st)
      else do {
        r \<leftarrow> f pos st;
        case r of
          Inl r \<Rightarrow> Some (Inl r)
        | Inr st \<Rightarrow> do {
            let pos = n;
            nn \<leftarrow> get_next (n + member) (fst st);
            list_for_each_entry_safe_from member f pos (list_entry nn member) head st
          }
      })"

definition list_for_each_entry_safe ::
    "addr \<Rightarrow> (addr \<Rightarrow> list_mem \<times> 's \<Rightarrow> ('r + list_mem \<times> 's) option) \<Rightarrow> addr \<Rightarrow> list_mem \<times> 's \<Rightarrow> ('r + list_mem \<times> 's) option" where
  "list_for_each_entry_safe member f head st = do {
     p \<leftarrow> get_next head (fst st);
     let pos = list_entry p member;
     n \<leftarrow> get_next (pos + member) (fst st);
     list_for_each_entry_safe_from member f pos (list_entry n member) head st
   }"

subsection \<open>Rings\<close>

definition linked :: "list_mem \<Rightarrow> addr \<Rightarrow> addr \<Rightarrow> bool" where
  "linked m a b \<longleftrightarrow> get_next a m = Some b \<and> get_prev b m = Some a"

fun consec :: "list_mem \<Rightarrow> addr list \<Rightarrow> bool" where
  "consec m (x # y # zs) \<longleftrightarrow> linked m x y \<and> consec m (y # zs)"
| "consec m zs = True"

definition ring :: "list_mem \<Rightarrow> addr \<Rightarrow> addr list \<Rightarrow> bool" where
  "ring m head xs \<longleftrightarrow> distinct (head # xs) \<and> consec m (head # xs @ [head])"

lemma consec_append:
  "as \<noteq> [] \<Longrightarrow> bs \<noteq> [] \<Longrightarrow>
   consec m (as @ bs) \<longleftrightarrow> consec m as \<and> linked m (last as) (hd bs) \<and> consec m bs"
proof (induction as rule: induct_list012)
  case (2 x)
  then show ?case by (cases bs) auto
qed auto

text \<open>The first \<open>prev\<close> and the last \<open>next\<close> field do not matter.\<close>

lemma consec_cong:
  "(\<And>x. x \<in> set (butlast zs) \<Longrightarrow> get_next x m' = get_next x m) \<Longrightarrow>
   (\<And>x. x \<in> set (tl zs) \<Longrightarrow> get_prev x m' = get_prev x m) \<Longrightarrow> consec m' zs = consec m zs"
proof (induction zs rule: induct_list012)
  case (3 x y zs)
  then have "consec m' (y # zs) = consec m (y # zs)" by (intro "3.IH"(2)) auto
  then show ?case using "3.prems" by (simp add: linked_def)
qed auto

text \<open>The place between the first part and the rest of a ring.\<close>

lemma ring_split:
  "ring m head (as @ bs) \<longleftrightarrow> distinct (head # as @ bs) \<and> consec m (head # as) \<and>
    linked m (last (head # as)) (hd (bs @ [head])) \<and> consec m (bs @ [head])"
proof -
  have "head # (as @ bs) @ [head] = (head # as) @ (bs @ [head])" by simp
  then show ?thesis
    using consec_append [of "head # as" "bs @ [head]" m] by (simp add: ring_def del: last.simps)
qed

lemma ring_frame:
  assumes "ring m head xs" and "\<And>x. x \<in> set (head # xs) \<Longrightarrow> m' x = m x"
  shows "ring m' head xs"
proof -
  have "consec m' (head # xs @ [head]) = consec m (head # xs @ [head])"
    by (rule consec_cong) (use assms(2) in \<open>auto simp: get_next_def get_prev_def butlast_append\<close>)
  then show ?thesis using assms(1) by (simp add: ring_def)
qed

lemma ring_ends:
  assumes "ring m head xs"
  shows "get_next head m = Some (hd (xs @ [head]))" "get_prev head m = Some (last (head # xs))"
  using ring_split [of m head "[]" xs] ring_split [of m head xs "[]"] assms by (simp_all add: linked_def)

lemma ring_entry:
  assumes "ring m head (as @ x # bs)"
  shows "get_prev x m = Some (last (head # as))" "get_next x m = Some (hd (bs @ [head]))"
  using ring_split [of m head as "x # bs"] ring_split [of m head "as @ [x]" bs] assms by (simp_all add: linked_def)

subsection \<open>Linking and unlinking\<close>

lemmas field_defs = get_next_def get_prev_def set_next_def set_prev_of_def

lemma list_add_between_fields:
  assumes "m p \<noteq> None" "m n \<noteq> None" "m new \<noteq> None" "new \<noteq> p" "new \<noteq> n"
  shows "\<exists>m'. list_add_between new p n m = Some m' \<and>
    (\<forall>x. get_next x m' = (if x = p then Some new else if x = new then Some n else get_next x m)) \<and>
    (\<forall>x. get_prev x m' = (if x = n then Some new else if x = new then Some p else get_prev x m)) \<and>
    (\<forall>x. x \<notin> {p, n, new} \<longrightarrow> m' x = m x)"
  using assms by (cases "p = n") (auto simp: list_add_between_def field_defs)

lemma list_del_between_fields:
  assumes "m p \<noteq> None" "m n \<noteq> None"
  shows "\<exists>m'. list_del_between p n m = Some m' \<and>
    (\<forall>x. get_next x m' = (if x = p then Some n else get_next x m)) \<and>
    (\<forall>x. get_prev x m' = (if x = n then Some p else get_prev x m)) \<and>
    (\<forall>x. x \<notin> {p, n} \<longrightarrow> m' x = m x)"
  using assms by (cases "p = n") (auto simp: list_del_between_def field_defs)

lemma ring_mapped:
  assumes "ring m head xs" and "x \<in> set (head # xs)"
  shows "m x \<noteq> None"
proof (cases "x = head")
  case True
  then show ?thesis using ring_ends [OF assms(1)] by (auto simp: get_next_def)
next
  case False
  then obtain as bs where "xs = as @ x # bs" using assms(2) split_list [of x xs] by auto
  then show ?thesis using ring_entry [of m head as x bs] assms(1) by (auto simp: get_next_def)
qed

lemma last_in: "last (head # as) \<in> set (head # as)"
  by (rule last_in_set) simp

lemma hd_in: "hd (bs @ [head]) \<in> set (head # bs)"
  by (cases bs) auto

text \<open>A new entry between the first part of a ring and the rest.\<close>

lemma ring_insert:
  assumes "ring m head (as @ bs)" and "new \<notin> set (head # as @ bs)" and "m new \<noteq> None"
  shows "\<exists>m'. list_add_between new (last (head # as)) (hd (bs @ [head])) m = Some m' \<and>
    ring m' head (as @ new # bs) \<and> (\<forall>x. x \<notin> set (head # as @ new # bs) \<longrightarrow> m' x = m x)"
proof -
  let ?p = "last (head # as)" and ?n = "hd (bs @ [head])"
  have pn: "?p \<in> set (head # as)" "?n \<in> set (head # bs)" by (rule last_in, rule hd_in)
  then have "m ?p \<noteq> None" "m ?n \<noteq> None" "new \<noteq> ?p" "new \<noteq> ?n"
    using ring_mapped [OF assms(1)] assms(2) by (auto simp del: last.simps)
  from list_add_between_fields [OF this(1,2) assms(3) this(3,4)] obtain m' where
    m': "list_add_between new ?p ?n m = Some m'"
    and nx: "\<And>x. get_next x m' = (if x = ?p then Some new else if x = new then Some ?n else get_next x m)"
    and pv: "\<And>x. get_prev x m' = (if x = ?n then Some new else if x = new then Some ?p else get_prev x m)"
    and out: "\<And>x. x \<notin> {?p, ?n, new} \<Longrightarrow> m' x = m x" by blast
  have r: "distinct (head # as @ bs)" "consec m (head # as)" "consec m (bs @ [head])"
    using assms(1) unfolding ring_split by blast+
  have "consec m' (head # as) = consec m (head # as)"
  proof (rule consec_cong)
    fix x assume x: "x \<in> set (butlast (head # as))"
    have "distinct (butlast (head # as) @ [?p])" using r(1) by (subst append_butlast_last_id) auto
    then have "x \<noteq> ?p" using x by auto
    moreover have "x \<noteq> new" using in_set_butlastD [OF x] assms(2) by auto
    ultimately show "get_next x m' = get_next x m" using nx by simp
  next
    fix x assume "x \<in> set (tl (head # as))"
    then have "x \<noteq> ?n" "x \<noteq> new" using r(1) pn(2) assms(2) by auto
    then show "get_prev x m' = get_prev x m" using pv by simp
  qed
  moreover have "consec m' (bs @ [head]) = consec m (bs @ [head])"
  proof (rule consec_cong)
    fix x assume "x \<in> set (butlast (bs @ [head]))"
    then have "x \<in> set bs" by simp
    then have "x \<noteq> ?p" "x \<noteq> new" using r(1) pn(1) assms(2) by auto
    then show "get_next x m' = get_next x m" using nx by simp
  next
    fix x assume x: "x \<in> set (tl (bs @ [head]))"
    have "x \<noteq> ?n" using x r(1) by (cases bs) auto
    moreover have "x \<noteq> new" using x assms(2) by (cases bs) auto
    ultimately show "get_prev x m' = get_prev x m" using pv by simp
  qed
  ultimately have "ring m' head (as @ new # bs)"
    using r assms(2) nx pv \<open>new \<noteq> ?p\<close> \<open>new \<noteq> ?n\<close> consec_append [of "[new]" "bs @ [head]" m']
    unfolding ring_split [of m' head as "new # bs"] by (auto simp: linked_def)
  moreover have "m' x = m x" if "x \<notin> set (head # as @ new # bs)" for x
    using out [of x] that pn by auto
  ultimately show ?thesis using m' by blast
qed

lemma ring_delete:
  assumes "ring m head (as @ x # bs)"
  shows "\<exists>m'. list_del_between (last (head # as)) (hd (bs @ [head])) m = Some m' \<and>
    ring m' head (as @ bs) \<and> (\<forall>y. y \<notin> set (head # as @ bs) \<longrightarrow> m' y = m y)"
proof -
  let ?p = "last (head # as)" and ?n = "hd (bs @ [head])"
  have pn: "?p \<in> set (head # as)" "?n \<in> set (head # bs)" by (rule last_in, rule hd_in)
  then have "m ?p \<noteq> None" "m ?n \<noteq> None"
    using ring_mapped [OF assms] by (auto simp del: last.simps)
  from list_del_between_fields [OF this] obtain m' where m': "list_del_between ?p ?n m = Some m'"
    and nx: "\<And>y. get_next y m' = (if y = ?p then Some ?n else get_next y m)"
    and pv: "\<And>y. get_prev y m' = (if y = ?n then Some ?p else get_prev y m)"
    and out: "\<And>y. y \<notin> {?p, ?n} \<Longrightarrow> m' y = m y" by blast
  have "ring m head ((as @ [x]) @ bs)" using assms by simp
  then have r: "distinct (head # as @ x # bs)" "consec m (head # as)" "consec m (bs @ [head])"
    using assms unfolding ring_split by auto
  have "consec m' (head # as) = consec m (head # as)"
  proof (rule consec_cong)
    fix y assume y: "y \<in> set (butlast (head # as))"
    have "distinct (butlast (head # as) @ [?p])" using r(1) by (subst append_butlast_last_id) auto
    then show "get_next y m' = get_next y m" using y nx by auto
  next
    fix y assume "y \<in> set (tl (head # as))"
    then have "y \<noteq> ?n" using r(1) pn(2) by auto
    then show "get_prev y m' = get_prev y m" using pv by simp
  qed
  moreover have "consec m' (bs @ [head]) = consec m (bs @ [head])"
  proof (rule consec_cong)
    fix y assume "y \<in> set (butlast (bs @ [head]))"
    then have "y \<in> set bs" by simp
    then have "y \<noteq> ?p" using r(1) pn(1) by auto
    then show "get_next y m' = get_next y m" using nx by simp
  next
    fix y assume "y \<in> set (tl (bs @ [head]))"
    then have "y \<noteq> ?n" using r(1) by (cases bs) auto
    then show "get_prev y m' = get_prev y m" using pv by simp
  qed
  ultimately have "ring m' head (as @ bs)"
    using r nx pv unfolding ring_split by (auto simp: linked_def)
  moreover have "m' y = m y" if "y \<notin> set (head # as @ bs)" for y
    using out [of y] that pn by auto
  ultimately show ?thesis using m' by blast
qed

lemma INIT_LIST_HEAD_ring:
  "m p \<noteq> None \<Longrightarrow> \<exists>m'. INIT_LIST_HEAD p m = Some m' \<and> ring m' p [] \<and> (\<forall>x. x \<noteq> p \<longrightarrow> m' x = m x)"
  by (auto simp: INIT_LIST_HEAD_def field_defs ring_def linked_def)

lemma list_add_ring:
  assumes "ring m head xs" "new \<notin> set (head # xs)" "m new \<noteq> None"
  shows "\<exists>m'. list_add new head m = Some m' \<and> ring m' head (new # xs) \<and> (\<forall>x. x \<notin> set (head # new # xs) \<longrightarrow> m' x = m x)"
  using ring_insert [of m head "[]" xs new] ring_ends [OF assms(1)] assms by (auto simp: list_add_def)

lemma list_add_tail_ring:
  assumes "ring m head xs" "new \<notin> set (head # xs)" "m new \<noteq> None"
  shows "\<exists>m'. list_add_tail new head m = Some m' \<and> ring m' head (xs @ [new]) \<and> (\<forall>x. x \<notin> set (head # new # xs) \<longrightarrow> m' x = m x)"
  using ring_insert [of m head xs "[]" new] ring_ends [OF assms(1)] assms
  by (auto simp: list_add_tail_def simp del: last.simps)

lemma list_del_ring:
  assumes "ring m head (as @ x # bs)"
  shows "\<exists>m'. list_del x m = Some m' \<and> ring m' head (as @ bs) \<and> m' x = Some (0, 0) \<and>
    (\<forall>y. y \<notin> set (head # as @ x # bs) \<longrightarrow> m' y = m y)"
proof -
  obtain m1 where 1: "list_del_between (last (head # as)) (hd (bs @ [head])) m = Some m1" "ring m1 head (as @ bs)"
    "\<And>y. y \<notin> set (head # as @ bs) \<Longrightarrow> m1 y = m y" using ring_delete [OF assms] by blast
  have x: "x \<notin> set (head # as @ bs)" using assms by (auto simp: ring_def)
  then obtain v where v: "m1 x = Some v" using 1(3) ring_mapped [OF assms, of x] by auto
  let ?m = "m1(x \<mapsto> (0, 0))"
  have "set_next x 0 m1 = Some (m1(x \<mapsto> (0, snd v)))" "set_prev_of x 0 (m1(x \<mapsto> (0, snd v))) = Some ?m"
    using v by (cases v; simp add: field_defs)+
  then have "list_del x m = Some ?m"
    using ring_entry [OF assms] 1(1) by (simp add: list_del_def)
  moreover have "ring ?m head (as @ bs)"
    by (rule ring_frame [OF 1(2)]) (use x in auto)
  moreover have "?m y = m y" if "y \<notin> set (head # as @ x # bs)" for y
    using that 1(3) [of y] by auto
  ultimately show ?thesis by (intro exI [of _ ?m]) auto
qed

lemma list_del_init_ring:
  assumes "ring m head (as @ x # bs)"
  shows "\<exists>m'. list_del_init x m = Some m' \<and> ring m' head (as @ bs) \<and> ring m' x [] \<and>
    (\<forall>y. y \<notin> set (head # as @ x # bs) \<longrightarrow> m' y = m y)"
proof -
  obtain m1 where 1: "list_del_between (last (head # as)) (hd (bs @ [head])) m = Some m1" "ring m1 head (as @ bs)"
    "\<And>y. y \<notin> set (head # as @ bs) \<Longrightarrow> m1 y = m y" using ring_delete [OF assms] by blast
  have x: "x \<notin> set (head # as @ bs)" using assms by (auto simp: ring_def)
  then have "m1 x \<noteq> None" using 1(3) ring_mapped [OF assms, of x] by auto
  from INIT_LIST_HEAD_ring [of m1 x, OF this] obtain m2 where 2: "INIT_LIST_HEAD x m1 = Some m2" "ring m2 x []"
    "\<And>y. y \<noteq> x \<Longrightarrow> m2 y = m1 y" by blast
  have "ring m2 head (as @ bs)"
    by (rule ring_frame [OF 1(2)], rule 2(3)) (use x in auto)
  moreover have "m2 y = m y" if "y \<notin> set (head # as @ x # bs)" for y
    using that 1(3) [of y] 2(3) [of y] by auto
  ultimately show ?thesis using ring_entry [OF assms] 1(1) 2 by (auto simp: list_del_init_def)
qed

text \<open>Moving an entry: within its list, and to another one.\<close>

lemma list_move_same:
  assumes "ring m head (as @ x # bs)"
  shows "\<exists>m'. list_move x head m = Some m' \<and> ring m' head (x # as @ bs)"
    and "\<exists>m'. list_move_tail x head m = Some m' \<and> ring m' head (as @ bs @ [x])"
proof -
  obtain m1 where 1: "list_del_between (last (head # as)) (hd (bs @ [head])) m = Some m1" "ring m1 head (as @ bs)"
    "\<And>y. y \<notin> set (head # as @ bs) \<Longrightarrow> m1 y = m y" using ring_delete [OF assms] by blast
  have x: "x \<notin> set (head # as @ bs)" using assms by (auto simp: ring_def)
  then have mx: "m1 x \<noteq> None" using 1(3) ring_mapped [OF assms, of x] by auto
  show "\<exists>m'. list_move x head m = Some m' \<and> ring m' head (x # as @ bs)"
    using list_add_ring [OF 1(2) x mx] ring_entry [OF assms] 1(1) by (auto simp: list_move_def)
  show "\<exists>m'. list_move_tail x head m = Some m' \<and> ring m' head (as @ bs @ [x])"
    using list_add_tail_ring [OF 1(2) x mx] ring_entry [OF assms] 1(1) by (auto simp: list_move_tail_def)
qed

lemma list_move_other:
  assumes "ring m head (as @ x # bs)" "ring m other ys" "set (head # as @ x # bs) \<inter> set (other # ys) = {}"
  shows "\<exists>m'. list_move x other m = Some m' \<and> ring m' head (as @ bs) \<and> ring m' other (x # ys)"
    and "\<exists>m'. list_move_tail x other m = Some m' \<and> ring m' head (as @ bs) \<and> ring m' other (ys @ [x])"
proof -
  obtain m1 where 1: "list_del_between (last (head # as)) (hd (bs @ [head])) m = Some m1" "ring m1 head (as @ bs)"
    "\<And>y. y \<notin> set (head # as @ bs) \<Longrightarrow> m1 y = m y" using ring_delete [OF assms(1)] by blast
  have x: "x \<notin> set (head # as @ bs)" using assms(1) by (auto simp: ring_def)
  then have mx: "m1 x \<noteq> None" using 1(3) ring_mapped [OF assms(1), of x] by auto
  have o: "ring m1 other ys"
    by (rule ring_frame [OF assms(2)], rule 1(3)) (use assms(3) in auto)
  have x': "x \<notin> set (other # ys)" using assms(3) by auto
  show "\<exists>m'. list_move x other m = Some m' \<and> ring m' head (as @ bs) \<and> ring m' other (x # ys)"
  proof -
    obtain m2 where 2: "list_add x other m1 = Some m2" "ring m2 other (x # ys)"
      "\<And>y. y \<notin> set (other # x # ys) \<Longrightarrow> m2 y = m1 y" using list_add_ring [OF o x' mx] by blast
    have "ring m2 head (as @ bs)"
      by (rule ring_frame [OF 1(2)], rule 2(3)) (use x assms(3) in auto)
    then show ?thesis using 2 ring_entry [OF assms(1)] 1(1) by (auto simp: list_move_def)
  qed
  show "\<exists>m'. list_move_tail x other m = Some m' \<and> ring m' head (as @ bs) \<and> ring m' other (ys @ [x])"
  proof -
    obtain m2 where 2: "list_add_tail x other m1 = Some m2" "ring m2 other (ys @ [x])"
      "\<And>y. y \<notin> set (other # x # ys) \<Longrightarrow> m2 y = m1 y" using list_add_tail_ring [OF o x' mx] by blast
    have "ring m2 head (as @ bs)"
      by (rule ring_frame [OF 1(2)], rule 2(3)) (use x assms(3) in auto)
    then show ?thesis using 2 ring_entry [OF assms(1)] 1(1) by (auto simp: list_move_tail_def)
  qed
qed

lemma list_empty_ring: "ring m head xs \<Longrightarrow> list_empty head m = Some (xs = [])"
  using ring_ends [of m head xs] by (cases xs) (auto simp: list_empty_def ring_def)

subsection \<open>Splicing\<close>

lemma set_next_ok: "m a \<noteq> None \<Longrightarrow> \<exists>m'. set_next a v m = Some m' \<and>
    (\<forall>x. get_next x m' = (if x = a then Some v else get_next x m)) \<and> (\<forall>x. get_prev x m' = get_prev x m) \<and>
    (\<forall>x. x \<noteq> a \<longrightarrow> m' x = m x) \<and> (\<forall>x. m' x = None \<longleftrightarrow> m x = None)"
  by (auto simp: field_defs)

lemma set_prev_ok: "m a \<noteq> None \<Longrightarrow> \<exists>m'. set_prev_of a v m = Some m' \<and>
    (\<forall>x. get_prev x m' = (if x = a then Some v else get_prev x m)) \<and> (\<forall>x. get_next x m' = get_next x m) \<and>
    (\<forall>x. x \<noteq> a \<longrightarrow> m' x = m x) \<and> (\<forall>x. m' x = None \<longleftrightarrow> m x = None)"
  by (auto simp: field_defs)

lemma list_splice_between_fields:
  assumes "get_next list m = Some f" "get_prev list m = Some l" "get_next head m = Some at"
    and "m f \<noteq> None" "m l \<noteq> None" "m at \<noteq> None" "m head \<noteq> None" "f \<noteq> at" "head \<noteq> l"
  shows "\<exists>m'. list_splice_between list head m = Some m' \<and>
    (\<forall>x. get_next x m' = (if x = head then Some f else if x = l then Some at else get_next x m)) \<and>
    (\<forall>x. get_prev x m' = (if x = f then Some head else if x = at then Some l else get_prev x m)) \<and>
    (\<forall>x. x \<notin> {head, f, l, at} \<longrightarrow> m' x = m x)"
proof -
  obtain m1 where 1: "set_prev_of f head m = Some m1" "\<And>x. get_next x m1 = get_next x m"
    "\<And>x. get_prev x m1 = (if x = f then Some head else get_prev x m)" "\<And>x. x \<noteq> f \<Longrightarrow> m1 x = m x"
    "\<And>x. m1 x = None \<longleftrightarrow> m x = None"
    using set_prev_ok [of m f head] assms(4) by blast
  obtain m2 where 2: "set_next head f m1 = Some m2" "\<And>x. get_next x m2 = (if x = head then Some f else get_next x m)"
    "\<And>x. get_prev x m2 = get_prev x m1" "\<And>x. x \<noteq> head \<Longrightarrow> m2 x = m1 x" "\<And>x. m2 x = None \<longleftrightarrow> m x = None"
    using set_next_ok [of m1 head f] assms(7) 1(2,5) by force
  obtain m3 where 3: "set_next l at m2 = Some m3" "\<And>x. get_next x m3 = (if x = l then Some at else get_next x m2)"
    "\<And>x. get_prev x m3 = get_prev x m2" "\<And>x. x \<noteq> l \<Longrightarrow> m3 x = m2 x" "\<And>x. m3 x = None \<longleftrightarrow> m x = None"
    using set_next_ok [of m2 l at] assms(5) 2(5) by force
  have "m3 at \<noteq> None" using assms(6) 3(5) by simp
  then obtain m4 where 4: "set_prev_of at l m3 = Some m4" "\<And>x. get_next x m4 = get_next x m3"
    "\<And>x. get_prev x m4 = (if x = at then Some l else get_prev x m3)" "\<And>x. x \<noteq> at \<Longrightarrow> m4 x = m3 x"
    using set_prev_ok [of m3 at l] by blast
  show ?thesis
    using assms(1-3,8,9) 1 2 3 4 by (intro exI [of _ m4]) (simp add: list_splice_between_def)
qed

lemma list_splice_ring:
  assumes "ring m list xs" "ring m head ys" "set (list # xs) \<inter> set (head # ys) = {}" "xs \<noteq> []"
  shows "\<exists>m'. list_splice_between list head m = Some m' \<and> ring m' head (xs @ ys) \<and>
    (\<forall>x. x \<notin> set (head # xs @ ys) \<longrightarrow> m' x = m x)"
proof -
  let ?f = "hd xs" and ?l = "last xs" and ?at = "hd (ys @ [head])"
  have e: "get_next list m = Some ?f" "get_prev list m = Some ?l" "get_next head m = Some ?at"
    using ring_ends [OF assms(1)] ring_ends [OF assms(2)] assms(4) by (simp_all add: hd_append)
  have at: "?at \<in> set (head # ys)" by (rule hd_in)
  have fl: "?f \<in> set xs" "?l \<in> set xs" using assms(4) by auto
  have mm: "m ?f \<noteq> None" "m ?l \<noteq> None" "m ?at \<noteq> None" "m head \<noteq> None"
    using ring_mapped [OF assms(1)] ring_mapped [OF assms(2)] fl at by auto
  have ne: "?f \<noteq> ?at" "head \<noteq> ?l" using fl at assms(3) by (metis disjoint_iff list.set_intros)+
  obtain m' where m': "list_splice_between list head m = Some m'"
    and nx: "\<And>x. get_next x m' = (if x = head then Some ?f else if x = ?l then Some ?at else get_next x m)"
    and pv: "\<And>x. get_prev x m' = (if x = ?f then Some head else if x = ?at then Some ?l else get_prev x m)"
    and out: "\<And>x. x \<notin> {head, ?f, ?l, ?at} \<Longrightarrow> m' x = m x"
    using list_splice_between_fields [OF e mm ne] by blast
  have r: "distinct (list # xs)" "consec m (list # xs @ [list])" "distinct (head # ys)"
    using assms(1,2) by (auto simp: ring_def)
  have cy: "consec m (ys @ [head])" using assms(2) ring_split [of m head "[]" ys] by simp
  have cx: "consec m xs"
    using r(2) consec_append [of "list # xs" "[list]" m] consec_append [of "[list]" xs m] assms(4) by simp
  have "consec m' xs = consec m xs"
  proof (rule consec_cong)
    fix x assume x: "x \<in> set (butlast xs)"
    have "distinct (butlast xs @ [?l])" using r(1) assms(4) by simp
    then have "x \<noteq> ?l" using x by auto
    moreover have "x \<noteq> head" using in_set_butlastD [OF x] assms(3) by auto
    ultimately show "get_next x m' = get_next x m" using nx by simp
  next
    fix x assume x: "x \<in> set (tl xs)"
    then have "x \<in> set xs" using assms(4) by (simp add: list.set_sel(2))
    then have "x \<noteq> ?at" using at assms(3) by (metis disjoint_iff list.set_intros(2))
    moreover have "x \<noteq> ?f" using x r(1) assms(4) by (cases xs) auto
    ultimately show "get_prev x m' = get_prev x m" using pv by simp
  qed
  moreover have "consec m' (ys @ [head]) = consec m (ys @ [head])"
  proof (rule consec_cong)
    fix x assume "x \<in> set (butlast (ys @ [head]))"
    then have "x \<in> set ys" by simp
    then have "x \<noteq> head" "x \<noteq> ?l" using r(3) fl(2) assms(3) by auto
    then show "get_next x m' = get_next x m" using nx by simp
  next
    fix x assume x: "x \<in> set (tl (ys @ [head]))"
    then have "x \<in> set (head # ys)" by (cases ys) auto
    then have "x \<noteq> ?f" using fl(1) assms(3) by auto
    moreover have "x \<noteq> ?at" using x r(3) by (cases ys) auto
    ultimately show "get_prev x m' = get_prev x m" using pv by simp
  qed
  moreover have "linked m' head ?f" "linked m' ?l ?at"
    using nx pv ne by (auto simp: linked_def)
  ultimately have "ring m' head (xs @ ys)"
    using r cx cy assms(3,4) consec_append [of "[head]" xs m'] unfolding ring_split by auto
  moreover have "m' x = m x" if "x \<notin> set (head # xs @ ys)" for x
    using out [of x] that fl at by auto
  ultimately show ?thesis using m' by blast
qed

lemma list_splice_init_ring:
  assumes "ring m list xs" "ring m head ys" "set (list # xs) \<inter> set (head # ys) = {}"
  shows "\<exists>m'. list_splice_init list head m = Some m' \<and> ring m' list [] \<and> ring m' head (xs @ ys)"
proof (cases "xs = []")
  case True
  then show ?thesis using assms list_empty_ring [OF assms(1)] by (simp add: list_splice_init_def)
next
  case False
  obtain m1 where 1: "list_splice_between list head m = Some m1" "ring m1 head (xs @ ys)"
    "\<And>x. x \<notin> set (head # xs @ ys) \<Longrightarrow> m1 x = m x" using list_splice_ring [OF assms False] by blast
  have l: "list \<notin> set (head # xs @ ys)" using assms(1,3) by (auto simp: ring_def)
  then have "m1 list \<noteq> None" using 1(3) ring_mapped [OF assms(1), of list] by auto
  from INIT_LIST_HEAD_ring [of m1 list, OF this] obtain m2 where 2: "INIT_LIST_HEAD list m1 = Some m2" "ring m2 list []"
    "\<And>y. y \<noteq> list \<Longrightarrow> m2 y = m1 y" by blast
  have "ring m2 head (xs @ ys)"
    by (rule ring_frame [OF 1(2)], rule 2(3)) (use l in auto)
  then show ?thesis using False 1(1) 2 list_empty_ring [OF assms(1)] by (simp add: list_splice_init_def)
qed

text \<open>
  Without the reset the emptied list still leads into the other one: its head is no longer on the ring.
\<close>

lemma list_splice_dangling:
  assumes "ring m list xs" "ring m head ys" "set (list # xs) \<inter> set (head # ys) = {}" "xs \<noteq> []"
  shows "\<exists>m'. list_splice list head m = Some m' \<and> ring m' head (xs @ ys) \<and>
    get_next list m' = Some (hd xs) \<and> get_prev (hd xs) m' = Some head \<and> (\<forall>zs. \<not> ring m' list zs)"
proof -
  obtain m1 where 1: "list_splice_between list head m = Some m1" "ring m1 head (xs @ ys)"
    "\<And>x. x \<notin> set (head # xs @ ys) \<Longrightarrow> m1 x = m x" using list_splice_ring [OF assms] by blast
  have l: "list \<notin> set (head # xs @ ys)" using assms(1,3) by (auto simp: ring_def)
  then have n: "get_next list m1 = Some (hd xs)"
    using 1(3) [of list] ring_ends [OF assms(1)] assms(4) by (simp add: get_next_def)
  have p: "get_prev (hd xs) m1 = Some head"
    using ring_entry(1) [of m1 head "[]" "hd xs" "tl xs @ ys"] 1(2) assms(4) by (cases xs) auto
  have "\<not> ring m1 list zs" for zs
  proof
    assume z: "ring m1 list zs"
    then have "hd (zs @ [list]) = hd xs" using ring_ends [OF z] n by simp
    moreover have "hd xs \<noteq> list" using l assms(4) by auto
    ultimately obtain ws where "zs = hd xs # ws" by (cases zs) auto
    then have "get_prev (hd xs) m1 = Some list" using ring_entry(1) [of m1 list "[]" "hd xs" ws] z by simp
    then show False using p l by simp
  qed
  then show ?thesis using 1 n p list_empty_ring [OF assms(1)] assms(4) by (auto simp: list_splice_def)
qed

subsection \<open>Loops\<close>

lemma for_each_from_next:
  assumes "ring m head (as @ bs)"
  shows "list_for_each_from get_next (reading f) (hd (bs @ [head])) head (m, s) = keeping m (visit f bs s)"
  using assms
proof (induction bs arbitrary: as s)
  case Nil
  then show ?case by (subst list_for_each_from.simps) simp
next
  case (Cons b bs)
  have "list_for_each_from get_next (reading f) (hd (bs @ [head])) head (m, t) = keeping m (visit f bs t)" for t
    using Cons.IH [of "as @ [b]"] Cons.prems by simp
  moreover have "b \<noteq> head" using Cons.prems by (auto simp: ring_def)
  ultimately show ?case
    using ring_entry(2) [OF Cons.prems]
    by (subst list_for_each_from.simps) (cases "f b s"; auto simp: reading_def split: sum.split)
qed

lemma for_each_from_prev:
  assumes "ring m head (as @ bs)"
  shows "list_for_each_from get_prev (reading f) (last (head # as)) head (m, s) = keeping m (visit f (rev as) s)"
  using assms
proof (induction as arbitrary: bs s rule: rev_induct)
  case Nil
  then show ?case by (subst list_for_each_from.simps) simp
next
  case (snoc a as)
  then have r: "ring m head (as @ a # bs)" by simp
  have "list_for_each_from get_prev (reading f) (last (head # as)) head (m, t) = keeping m (visit f (rev as) t)" for t
    using snoc.IH [OF r] by simp
  moreover have "a \<noteq> head" using r by (auto simp: ring_def)
  moreover have "last (head # as @ [a]) = a" by simp
  ultimately show ?case
    using ring_entry(1) [OF r]
    by (subst list_for_each_from.simps) (cases "f a s"; auto simp: reading_def simp del: last.simps split: sum.split)
qed

lemma list_for_each_ring:
  assumes "ring m head xs"
  shows "list_for_each (reading f) head (m, s) = keeping m (visit f xs s)"
    and "list_for_each_prev (reading f) head (m, s) = keeping m (visit f (rev xs) s)"
  using for_each_from_next [of m head "[]" xs f s] for_each_from_prev [of m head xs "[]" f s] ring_ends [OF assms] assms
  by (simp_all add: list_for_each_def list_for_each_prev_def del: last.simps)

lemma list_entry_member [simp]: "list_entry p member + member = p" "list_entry (q + member) member = q"
  by (simp_all add: list_entry_def)

lemma for_each_entry_from_plain:
  assumes "list_for_each_entry_from member f pos head st = Some y"
  shows "list_for_each_from get_next (\<lambda>x. f (list_entry x member)) (pos + member) head st = Some y"
proof (rule list_for_each_entry_from.raw_induct [where P = "\<lambda>member f pos head st y.
    list_for_each_from get_next (\<lambda>x. f (list_entry x member)) (pos + member) head st = Some y", OF _ assms])
  fix loop :: "addr \<Rightarrow> (addr \<Rightarrow> list_mem \<times> 'b \<Rightarrow> ('a + list_mem \<times> 'b) option) \<Rightarrow> addr \<Rightarrow> addr \<Rightarrow> list_mem \<times> 'b \<Rightarrow>
      ('a + list_mem \<times> 'b) option"
    and member f pos head st y
  assume IH: "\<And>member f pos head st y. loop member f pos head st = Some y \<Longrightarrow>
      list_for_each_from get_next (\<lambda>x. f (list_entry x member)) (pos + member) head st = Some y"
    and run: "(if pos + member = head then Some (Inr st)
      else f pos st \<bind> case_sum (\<lambda>r. Some (Inl r))
        (\<lambda>st. get_next (pos + member) (fst st) \<bind> (\<lambda>n. loop member f (list_entry n member) head st))) = Some y"
  show "list_for_each_from get_next (\<lambda>x. f (list_entry x member)) (pos + member) head st = Some y"
  proof (cases "pos + member = head \<or> f pos st = None")
    case True
    then show ?thesis using run by (subst list_for_each_from.simps) (auto split: if_splits)
  next
    case False
    then obtain r where r: "f pos st = Some r" "pos + member \<noteq> head" by auto
    show ?thesis
    proof (cases r)
      case (Inr st')
      then obtain n where "get_next (pos + member) (fst st') = Some n" "loop member f (list_entry n member) head st' = Some y"
        using run r by (auto simp: bind_eq_Some_conv)
      then show ?thesis using r Inr IH [of member f "list_entry n member"] by (subst list_for_each_from.simps) simp
    next
      case (Inl v)
      then show ?thesis using run r by (subst list_for_each_from.simps) auto
    qed
  qed
qed

lemma for_each_plain_entry:
  assumes "list_for_each_from get_next (\<lambda>x. f (list_entry x member)) p head st = Some y"
  shows "list_for_each_entry_from member f (list_entry p member) head st = Some y"
proof -
  have "g = (\<lambda>x. f (list_entry x member)) \<longrightarrow> follow = get_next \<longrightarrow>
      list_for_each_entry_from member f (list_entry p member) head st = Some y"
    if "list_for_each_from follow g p head st = Some y" for follow g p st y
  proof (rule list_for_each_from.raw_induct [where P = "\<lambda>follow g p head st y. g = (\<lambda>x. f (list_entry x member)) \<longrightarrow>
      follow = get_next \<longrightarrow> list_for_each_entry_from member f (list_entry p member) head st = Some y", OF _ that],
      intro impI)
    fix loop :: "(addr \<Rightarrow> list_mem \<Rightarrow> addr option) \<Rightarrow> (addr \<Rightarrow> list_mem \<times> 'b \<Rightarrow> ('a + list_mem \<times> 'b) option) \<Rightarrow> addr \<Rightarrow>
        addr \<Rightarrow> list_mem \<times> 'b \<Rightarrow> ('a + list_mem \<times> 'b) option"
      and follow g p head st y
    assume IH: "\<And>follow g p head st y. loop follow g p head st = Some y \<Longrightarrow> g = (\<lambda>x. f (list_entry x member)) \<longrightarrow>
        follow = get_next \<longrightarrow> list_for_each_entry_from member f (list_entry p member) head st = Some y"
      and run: "(if p = head then Some (Inr st)
        else g p st \<bind> case_sum (\<lambda>r. Some (Inl r))
          (\<lambda>st. follow p (fst st) \<bind> (\<lambda>p. loop follow g p head st))) = Some y"
      and g: "g = (\<lambda>x. f (list_entry x member))" "follow = get_next"
    show "list_for_each_entry_from member f (list_entry p member) head st = Some y"
    proof (cases "p = head \<or> g p st = None")
      case True
      then show ?thesis using run g by (subst list_for_each_entry_from.simps) (auto split: if_splits)
    next
      case False
      then obtain r where r: "g p st = Some r" "p \<noteq> head" by auto
      show ?thesis
      proof (cases r)
        case (Inr st')
        then obtain n where "get_next p (fst st') = Some n" "loop get_next g n head st' = Some y"
          using run r g by (auto simp: bind_eq_Some_conv)
        then show ?thesis using r Inr g IH [of get_next g n] by (subst list_for_each_entry_from.simps) simp
      next
        case (Inl v)
        then show ?thesis using run r g by (subst list_for_each_entry_from.simps) auto
      qed
    qed
  qed
  then show ?thesis using assms by simp
qed

text \<open>The loops over structures are the loops over entries, whatever the body does, for a member at any offset.\<close>

lemma list_for_each_entry_same:
  "list_for_each_entry member f head st = list_for_each (\<lambda>x. f (list_entry x member)) head st"
proof -
  have "list_for_each_entry_from member f (list_entry p member) head st =
      list_for_each_from get_next (\<lambda>x. f (list_entry x member)) p head st" for p
    by (rule option_eqI, erule for_each_entry_from_plain [of member f "list_entry p member", unfolded list_entry_member],
        erule for_each_plain_entry)
  then show ?thesis unfolding list_for_each_entry_def list_for_each_def by simp
qed

lemma list_for_each_entry_ring:
  assumes "ring m head xs"
  shows "list_for_each_entry member (reading f) head (m, s) = keeping m (visit f (map (\<lambda>x. list_entry x member) xs) s)"
proof -
  have "visit (\<lambda>x. f (list_entry x member)) xs s = visit f (map (\<lambda>x. list_entry x member) xs) s"
  proof (induction xs arbitrary: s)
    case (Cons x xs)
    then have "visit (\<lambda>x. f (list_entry x member)) xs = visit f (map (\<lambda>x. list_entry x member) xs)" by (simp add: fun_eq_iff)
    then show ?case by simp
  qed simp
  moreover have "(\<lambda>x. reading f (list_entry x member)) =
      (reading (\<lambda>x. f (list_entry x member)) :: addr \<Rightarrow> list_mem \<times> 'b \<Rightarrow> ('a + list_mem \<times> 'b) option)"
    by (simp add: reading_def fun_eq_iff)
  ultimately show ?thesis
    using list_for_each_ring(1) [OF assms, of "\<lambda>x. f (list_entry x member)" s] by (simp add: list_for_each_entry_same)
qed

text \<open>A safe loop whose body takes its entry off the ring visits every entry and leaves an empty ring.\<close>

definition draining :: "(addr \<Rightarrow> 's \<Rightarrow> 's option) \<Rightarrow> addr \<Rightarrow> list_mem \<times> 's \<Rightarrow> ('r + list_mem \<times> 's) option" where
  "draining g x st = do { m \<leftarrow> list_del x (fst st); s \<leftarrow> g x (snd st); Some (Inr (m, s)) }"

lemma list_for_each_safe_drain:
  fixes g :: "addr \<Rightarrow> 's \<Rightarrow> 's option"
  assumes "ring m head xs"
  shows "\<exists>m'. ring m' head [] \<and>
    list_for_each_safe (draining g) head (m, s) = (map_option (\<lambda>s. Inr (m', s)) (visit_all g xs s) :: ('r + list_mem \<times> 's) option)"
proof -
  have "\<exists>m' n. get_next (hd (xs @ [head])) m = Some n \<and> ring m' head [] \<and>
    list_for_each_safe_from (draining g) (hd (xs @ [head])) n head (m, s) = (map_option (\<lambda>s. Inr (m', s)) (visit_all g xs s) :: ('r + list_mem \<times> 's) option)"
    using assms
  proof (induction xs arbitrary: m s)
    case Nil
    then show ?case
      using ring_ends [OF Nil] by (intro exI [of _ m] exI [of _ head]) (subst list_for_each_safe_from.simps, simp)
  next
    case (Cons x xs)
    obtain m1 where m1: "list_del x m = Some m1" "ring m1 head xs"
      using list_del_ring [of m head "[]" x xs] Cons.prems by auto
    have n: "get_next x m = Some (hd (xs @ [head]))" "x \<noteq> head"
      using ring_entry [of m head "[]" x xs] Cons.prems by (auto simp: ring_def)
    note IH = Cons.IH [OF m1(2)]
    show ?case
    proof (cases "g x s")
      case None
      then show ?thesis
        using n m1 IH [of s] by (subst list_for_each_safe_from.simps) (auto simp: draining_def)
    next
      case (Some t)
      obtain m' k where k: "get_next (hd (xs @ [head])) m1 = Some k" "ring m' head []"
        "list_for_each_safe_from (draining g) (hd (xs @ [head])) k head (m1, t) = (map_option (\<lambda>s. Inr (m', s)) (visit_all g xs t) :: ('r + list_mem \<times> 's) option)"
        using IH [of t] by blast
      have "list_for_each_safe_from (draining g) x (hd (xs @ [head])) head (m, s) =
          (map_option (\<lambda>s. Inr (m', s)) (visit_all g (x # xs) s) :: ('r + list_mem \<times> 's) option)"
        using n m1(1) Some k by (subst list_for_each_safe_from.simps) (simp add: draining_def)
      then show ?thesis using n(1) k(2) by auto
    qed
  qed
  then show ?thesis
    using ring_ends [OF assms] by (auto simp: list_for_each_safe_def)
qed

end
