(* ===== verification/Rand_Dev.thy ===== *)
theory Rand_Dev
  imports Log
begin

section \<open>The random device (source/rand.c)\<close>

text \<open>
  Opening and closing the device and adding entropy to its pool, over a kernel that is a record of system calls
  on a state of type \<open>'k\<close>. \<open>rs_blocks\<close> counts the blocks that were allocated here and not freed.
  A function returns \<^const>\<open>None\<close> as its value when \<open>RESET\<close> ended the process; the library's own logger
  lets it return, and then the code goes on.
\<close>

record 'k rand_api =
  ra_open :: "bytes \<Rightarrow> 'k \<Rightarrow> int \<times> 'k"
  ra_close :: "int \<Rightarrow> 'k \<Rightarrow> 'k"
  ra_malloc :: "nat \<Rightarrow> 'k \<Rightarrow> bool \<times> 'k"
  ra_add_entropy :: "int \<Rightarrow> bytes \<Rightarrow> 'k \<Rightarrow> int \<times> 'k"

record 'k rand_state =
  rs_kernel :: 'k
  rs_log :: log_world
  rs_blocks :: nat

definition int_bytes :: "32 word \<Rightarrow> bytes" where
  "int_bytes v = map (\<lambda>i. ucast (drop_bit (8 * i) v)) [0..<4]"

text \<open>The outcome of \<open>RESET\<close>; the code goes on only when it returns.\<close>

definition rand_reset :: "log_env \<Rightarrow> logger \<Rightarrow> bytes \<Rightarrow> nat \<Rightarrow> bytes \<Rightarrow> 'k rand_state \<Rightarrow> (bool \<times> 'k rand_state) option" where
  "rand_reset env logger file line msg st = do {
     (oc, w) \<leftarrow> log_reset env logger file line msg (rs_log st);
     Some (oc = Returns, st\<lparr>rs_log := w\<rparr>)
   }"

definition rand_dev_open ::
    "'k rand_api \<Rightarrow> log_env \<Rightarrow> logger \<Rightarrow> bytes \<Rightarrow> bytes \<Rightarrow> 'k rand_state \<Rightarrow> (int option \<times> 'k rand_state) option" where
  "rand_dev_open api env logger file device st =
     (let (fd, k) = ra_open api device (rs_kernel st); st = st\<lparr>rs_kernel := k\<rparr>
      in if fd < 0
         then do {
           name \<leftarrow> c_str device;
           (returns, st) \<leftarrow> rand_reset env logger file 30 (ascii ''Cannot open '' @ [0x27] @ name @ [0x27]) st;
           Some (if returns then Some fd else None, st)
         }
         else Some (Some fd, st))"

definition rand_dev_close :: "'k rand_api \<Rightarrow> int \<Rightarrow> 'k rand_state \<Rightarrow> 'k rand_state" where
  "rand_dev_close api fd st = st\<lparr>rs_kernel := ra_close api fd (rs_kernel st)\<rparr>"

text \<open>
  The block handed to the kernel: \<open>entropy_count\<close> and \<open>buf_size\<close>, then the data. Without memory the code
  writes through a null pointer when \<open>RESET\<close> returns.
\<close>

definition rand_dev_add_entropy ::
    "'k rand_api \<Rightarrow> log_env \<Rightarrow> logger \<Rightarrow> bytes \<Rightarrow> int \<Rightarrow> bytes \<Rightarrow> 32 word \<Rightarrow> 32 word \<Rightarrow> 'k rand_state \<Rightarrow>
      (unit option \<times> 'k rand_state) option" where
  "rand_dev_add_entropy api env logger file fd data len entropy_count st =
     (let (ok, k) = ra_malloc api (8 + unat len) (rs_kernel st); st = st\<lparr>rs_kernel := k\<rparr>
      in if \<not> ok
         then do {
           (returns, st) \<leftarrow> rand_reset env logger file 59 (ascii ''Out of memory'') st;
           if returns then None else Some (None, st)
         }
         else do {
           let st = st\<lparr>rs_blocks := rs_blocks st + 1\<rparr>;
           buf \<leftarrow> rd_bytes data (unat len);
           let (ret, k) = ra_add_entropy api fd (int_bytes entropy_count @ int_bytes len @ buf) (rs_kernel st);
           w \<leftarrow> (if ret < 0 then log_error env logger file 68 (ascii ''Cannot add entropy'') (rs_log st) else Some (rs_log st));
           Some (Some (), st\<lparr>rs_kernel := k, rs_log := w, rs_blocks := rs_blocks st - 1\<rparr>)
         })"

subsection \<open>What the callers get\<close>

text \<open>
  A logger that ends the process on \<open>RESET\<close> makes every returned descriptor valid; the library's own
  logger hands out the negative one after the message.
\<close>

lemma rand_dev_open_fails:
  assumes "env_ok env (lg_file logger)" "ra_open api device (rs_kernel st) = (fd, k)" "fd < 0" "c_str device = Some name"
  shows "\<exists>st'. rand_dev_open api env logger file device st =
      Some (if lg_reset_result logger = 1 \<or> lg_reset_result logger = 2 \<and> le_can_reboot env then None else Some fd, st') \<and>
    rs_log st' = delivered True True True env logger (reset_data file 30) (ascii ''Cannot open '' @ [0x27] @ name @ [0x27]) (rs_log st)"
  using assms(2-4) by (simp add: rand_dev_open_def rand_reset_def log_reset_eq [OF assms(1)])

lemma rand_dev_open_valid:
  assumes "env_ok env (lg_file logger)" "lg_reset_result logger = 1" "rand_dev_open api env logger file device st = Some (Some fd, st')"
  shows "fd \<ge> 0 \<and> ra_open api device (rs_kernel st) = (fd, rs_kernel st') \<and> rs_log st' = rs_log st"
  using assms(2,3)
  by (auto simp: rand_dev_open_def rand_reset_def log_reset_eq [OF assms(1)] Let_def bind_eq_Some_conv not_less split: prod.splits if_splits)

text \<open>The kernel gets both counts and exactly the caller's bytes; a refusal is logged; the block is freed in any case.\<close>

lemma rand_dev_add_entropy_ok:
  assumes "env_ok env (lg_file logger)" "unat len \<le> length data"
    and "ra_malloc api (8 + unat len) (rs_kernel st) = (True, k)"
    and "ra_add_entropy api fd (int_bytes entropy_count @ int_bytes len @ take (unat len) data) k = (ret, k')"
  shows "\<exists>st'. rand_dev_add_entropy api env logger file fd data len entropy_count st = Some (Some (), st') \<and>
    rs_kernel st' = k' \<and> rs_blocks st' = rs_blocks st \<and>
    rs_log st' = (if ret < 0 \<and> conf_verbosity (lg_conf logger) \<ge> ERROR_LEVEL
      then delivered (conf_file (lg_conf logger) \<noteq> 0) (conf_syslog (lg_conf logger) \<noteq> 0) (conf_console (lg_conf logger) \<noteq> 0)
        env logger (error_data file 68) (ascii ''Cannot add entropy'') (rs_log st)
      else rs_log st)"
  using assms(2-4)
  by (simp add: rand_dev_add_entropy_def rd_bytes_def log_error_def log_sinks_delivered [OF assms(1)] not_less Let_def)

lemma rand_dev_add_entropy_no_memory:
  assumes "env_ok env (lg_file logger)" "ra_malloc api (8 + unat len) (rs_kernel st) = (False, k)"
  shows "rand_dev_add_entropy api env logger file fd data len entropy_count st = None \<longleftrightarrow>
    lg_reset_result logger \<noteq> 1 \<and> \<not> (lg_reset_result logger = 2 \<and> le_can_reboot env)"
  using assms(2) by (simp add: rand_dev_add_entropy_def rand_reset_def log_reset_eq [OF assms(1)])

lemma int_bytes_length: "length (int_bytes v) = 4"
  by (simp add: int_bytes_def)

end
