(* ===== verification/Json_Count.thy ===== *)
theory Json_Count
  imports Json
begin

section \<open>Creating, copying and releasing JSON objects (source/json.c)\<close>

text \<open>
  These functions leave the objects to json-c, which counts the references to each of them. The library is a
  parameter again: a record of its functions on a state \<open>'s\<close>, with objects of type \<open>'j\<close> and
  \<^const>\<open>None\<close> for the null pointer. \<open>json_counts_ok\<close> states the documented behaviour by the references \<open>refs\<close>
  and the entries \<open>ents\<close> of each object. A new object has one reference, its creator's.
\<close>

record ('j, 's) json_mem =
  json_object_new_object :: "'s \<Rightarrow> 'j option \<times> 's"
  json_object_object_foreach :: "'j option \<Rightarrow> 's \<Rightarrow> (bytes \<times> 'j option) list option"
  json_object_object_add :: "'j \<Rightarrow> bytes \<Rightarrow> 'j option \<Rightarrow> 's \<Rightarrow> 's"
  jm_object_get :: "'j option \<Rightarrow> 's \<Rightarrow> 's"
  json_object_put :: "'j \<Rightarrow> 's \<Rightarrow> 's"

text \<open>\<open>reset_returns\<close>: whether \<open>RESET\<close> comes back; a process that ended has no result.\<close>

definition json_new :: "('j, 's) json_mem \<Rightarrow> bool \<Rightarrow> 's \<Rightarrow> ('j option \<times> 's) option" where
  "json_new lib reset_returns s =
     (let (ret, s) = json_object_new_object lib s
      in if ret = None \<and> \<not> reset_returns then None else Some (ret, s))"

fun json_copy_loop :: "('j, 's) json_mem \<Rightarrow> 'j option \<Rightarrow> (bytes \<times> 'j option) list \<Rightarrow> 's \<Rightarrow> 's option" where
  "json_copy_loop lib ret [] s = Some s"
| "json_copy_loop lib ret ((key, val) # es) s = do {
     let s = jm_object_get lib val s;
     ret' \<leftarrow> ret;
     let s = json_object_object_add lib ret' key val s;
     json_copy_loop lib ret es s
   }"

definition json_copy :: "('j, 's) json_mem \<Rightarrow> bool \<Rightarrow> 'j option \<Rightarrow> 's \<Rightarrow> ('j option \<times> 's) option" where
  "json_copy lib reset_returns obj s = do {
     (ret, s) \<leftarrow> json_new lib reset_returns s;
     es \<leftarrow> json_object_object_foreach lib obj s;
     s \<leftarrow> json_copy_loop lib ret es s;
     Some (ret, s)
   }"

definition json_delete :: "('j, 's) json_mem \<Rightarrow> 'j option \<Rightarrow> 's \<Rightarrow> 'j option \<times> 's" where
  "json_delete lib obj s = (None, (case obj of Some obj \<Rightarrow> json_object_put lib obj s | None \<Rightarrow> s))"

subsection \<open>A copy shares its values\<close>

definition json_counts_ok ::
    "('j, 's) json_mem \<Rightarrow> ('s \<Rightarrow> 'j \<Rightarrow> nat) \<Rightarrow> ('s \<Rightarrow> 'j \<Rightarrow> (bytes \<times> 'j option) list) \<Rightarrow> bool" where
  "json_counts_ok lib refs ents \<longleftrightarrow>
     (\<forall>s j s'. json_object_new_object lib s = (Some j, s') \<longrightarrow>
        refs s j = 0 \<and> refs s' = (refs s)(j := 1) \<and> ents s' = (ents s)(j := [])) \<and>
     (\<forall>s s'. json_object_new_object lib s = (None, s') \<longrightarrow> s' = s) \<and>
     (\<forall>s j. refs s j > 0 \<longrightarrow> json_object_object_foreach lib (Some j) s = Some (ents s j)) \<and>
     (\<forall>s j k v. k \<notin> fst ` set (ents s j) \<longrightarrow>
        refs (json_object_object_add lib j k v s) = refs s \<and>
        ents (json_object_object_add lib j k v s) = (ents s)(j := ents s j @ [(k, v)])) \<and>
     (\<forall>s j. refs (jm_object_get lib (Some j) s) = (refs s)(j := refs s j + 1) \<and>
        ents (jm_object_get lib (Some j) s) = ents s) \<and>
     (\<forall>s. jm_object_get lib None s = s)"

lemma json_copy_loop_counts:
  assumes "json_counts_ok lib refs ents" "distinct (map fst (ents s r @ es))"
  shows "\<exists>s'. json_copy_loop lib (Some r) es s = Some s' \<and> ents s' = (ents s)(r := ents s r @ es) \<and>
    refs s' = (\<lambda>x. refs s x + length (filter (\<lambda>e. snd e = Some x) es))"
  using assms(2)
proof (induction es arbitrary: s)
  case Nil
  then show ?case by simp
next
  case (Cons e es)
  obtain key val where e: "e = (key, val)" by (cases e)
  define s1 where "s1 = jm_object_get lib val s"
  have s1: "refs s1 = (\<lambda>x. refs s x + (if val = Some x then 1 else 0))" "ents s1 = ents s"
    using assms(1) unfolding s1_def json_counts_ok_def by (cases val; auto)+
  define s2 where "s2 = json_object_object_add lib r key val s1"
  have "key \<notin> fst ` set (ents s1 r)" using Cons.prems e s1(2) by auto
  then have s2: "refs s2 = refs s1" "ents s2 = (ents s)(r := ents s r @ [e])"
    using assms(1) e s1(2) unfolding s2_def json_counts_ok_def by auto
  obtain s' where "json_copy_loop lib (Some r) es s2 = Some s'" "ents s' = (ents s2)(r := ents s2 r @ es)"
    "refs s' = (\<lambda>x. refs s2 x + length (filter (\<lambda>e. snd e = Some x) es))"
    using Cons.IH [of s2] Cons.prems s2(2) by force
  then show ?case using e s1 s2 s1_def s2_def by (auto simp: fun_eq_iff)
qed

text \<open>
  A copy is a new object with the entries of the old one; their values are not copied but gain one reference
  for each entry they stand in. The old object is left as it is.
\<close>

lemma json_copy_shares:
  assumes ok: "json_counts_ok lib refs ents" and live: "refs s obj > 0" and "distinct (map fst (ents s obj))"
    and mem: "json_object_new_object lib s = (Some r, s1)"
  shows "\<exists>s'. json_copy lib reset_returns (Some obj) s = Some (Some r, s') \<and> r \<noteq> obj \<and>
    ents s' = (ents s)(r := ents s obj) \<and>
    refs s' = (\<lambda>x. (if x = r then 1 else refs s x) + length (filter (\<lambda>e. snd e = Some x) (ents s obj)))"
proof -
  have s1: "refs s r = 0" "refs s1 = (refs s)(r := 1)" "ents s1 = (ents s)(r := [])"
    using ok mem unfolding json_counts_ok_def by auto
  then have r: "r \<noteq> obj" using live by auto
  have "json_object_object_foreach lib (Some obj) s1 = Some (ents s obj)"
    using ok s1 r live unfolding json_counts_ok_def by auto
  then show ?thesis
    using json_copy_loop_counts [OF ok, of s1 r "ents s obj"] assms(3) s1 r mem
    by (auto simp: json_copy_def json_new_def fun_eq_iff)
qed

text \<open>Without memory, when \<open>RESET\<close> returns: a new object is the null pointer, and copying entries into it is undefined.\<close>

lemma json_copy_no_memory:
  assumes ok: "json_counts_ok lib refs ents" and live: "refs s obj > 0"
    and mem: "json_object_new_object lib s = (None, s1)"
  shows "json_new lib True s = Some (None, s)"
    and "json_copy lib reset_returns (Some obj) s = None \<longleftrightarrow> \<not> reset_returns \<or> ents s obj \<noteq> []"
proof -
  have s1: "s1 = s" "json_object_object_foreach lib (Some obj) s = Some (ents s obj)"
    using ok mem live unfolding json_counts_ok_def by auto
  then show "json_new lib True s = Some (None, s)" using mem by (simp add: json_new_def)
  show "json_copy lib reset_returns (Some obj) s = None \<longleftrightarrow> \<not> reset_returns \<or> ents s obj \<noteq> []"
    using s1 mem by (cases "ents s obj") (auto simp: json_copy_def json_new_def)
qed

end
