(* ===== verification/Tree_Order.thy ===== *)
theory Tree_Order
  imports Loop_Bodies "HOL-Library.Tree"
begin

section \<open>Ordered nodes\<close>

text \<open>
  What red-black trees and splay trees have in common: nodes in the order of their keys. The locale
  \<open>ordered_nodes\<close> is the contract of both; the memory represents a list of nodes, an operation changes the
  memory (a splay tree on every access), and the list as its name says.
\<close>

text \<open>The comparison orders the nodes by a key.\<close>

definition cmp_by :: "(nat \<Rightarrow> 'k::linorder) \<Rightarrow> (nat \<Rightarrow> nat \<Rightarrow> int) \<Rightarrow> bool" where
  "cmp_by key cmp \<longleftrightarrow> (\<forall>x y. (cmp x y < 0 \<longleftrightarrow> key x < key y) \<and> (cmp x y > 0 \<longleftrightarrow> key x > key y))"

lemma cmp_by_zero:
  assumes "cmp_by key cmp"
  shows "cmp x y = 0 \<longleftrightarrow> key x = key y"
proof -
  have "cmp x y < 0 \<longleftrightarrow> key x < key y" "cmp x y > 0 \<longleftrightarrow> key x > key y" using assms by (simp_all add: cmp_by_def)
  then show ?thesis by (metis linorder_neq_iff)
qed

abbreviation in_order :: "(nat \<Rightarrow> 'k::linorder) \<Rightarrow> nat list \<Rightarrow> bool" where
  "in_order key xs \<equiv> sorted_wrt (\<lambda>x y. key x < key y) xs"

lemma insort_between:
  "(\<forall>x \<in> set bs. key x < key e) \<Longrightarrow> (\<forall>x \<in> set cs. key e < key x) \<Longrightarrow>
   insort_key key e (bs @ cs) = bs @ e # (cs :: nat list)"
proof (induction bs)
  case Nil
  then show ?case by (cases cs) auto
qed auto

lemma find_append: "List.find P (xs @ ys) = (case List.find P xs of Some x \<Rightarrow> Some x | None \<Rightarrow> List.find P ys)"
  by (induction xs) auto

lemma find_none: "(\<And>x. x \<in> set xs \<Longrightarrow> \<not> P x) \<Longrightarrow> List.find P xs = None"
  by (simp add: find_None_iff)

fun first_of_list :: "'a list \<Rightarrow> 'a option" where
  "first_of_list [] = None"
| "first_of_list (x # xs) = Some x"

definition last_of_list :: "'a list \<Rightarrow> 'a option" where
  "last_of_list xs = first_of_list (rev xs)"

lemma first_of_append: "first_of_list (xs @ ys) = (if xs = [] then first_of_list ys else first_of_list xs)"
  by (cases xs) auto

lemma first_some: "xs \<noteq> [] \<Longrightarrow> \<exists>x. first_of_list xs = Some x" "xs \<noteq> [] \<Longrightarrow> \<exists>x. last_of_list xs = Some x"
  by (cases xs; simp) (cases "rev xs"; simp add: last_of_list_def)

lemma in_order_distinct: "in_order key xs \<Longrightarrow> distinct (map key xs)"
  by (induction xs) auto

subsection \<open>The contract\<close>

locale ordered_nodes =
  fixes rep :: "(nat \<Rightarrow> 'k::linorder) \<Rightarrow> 'm \<Rightarrow> nat list \<Rightarrow> bool"
    and insert_node :: "(nat \<Rightarrow> nat \<Rightarrow> int) \<Rightarrow> nat \<Rightarrow> 'm \<Rightarrow> (nat option \<times> 'm) option"
    and remove_node :: "(nat \<Rightarrow> nat \<Rightarrow> int) \<Rightarrow> nat \<Rightarrow> 'm \<Rightarrow> (nat option \<times> 'm) option"
    and find_node :: "(nat \<Rightarrow> nat \<Rightarrow> int) \<Rightarrow> nat \<Rightarrow> 'm \<Rightarrow> (nat option \<times> 'm) option"
    and first_node :: "'m \<Rightarrow> (nat option \<times> 'm) option"
    and next_node :: "(nat \<Rightarrow> nat \<Rightarrow> int) \<Rightarrow> nat \<Rightarrow> 'm \<Rightarrow> (nat option \<times> 'm) option"
  assumes rep_order: "rep key m xs \<Longrightarrow> in_order key xs"
    and insert_new: "cmp_by key cmp \<Longrightarrow> rep key m xs \<Longrightarrow> (\<forall>x \<in> set xs. key x \<noteq> key e) \<Longrightarrow>
      \<exists>m'. insert_node cmp e m = Some (None, m') \<and> rep key m' (insort_key key e xs)"
    and insert_old: "cmp_by key cmp \<Longrightarrow> rep key m xs \<Longrightarrow> x \<in> set xs \<Longrightarrow> key x = key e \<Longrightarrow>
      \<exists>m'. insert_node cmp e m = Some (Some x, m') \<and> rep key m' xs"
    and remove_old: "cmp_by key cmp \<Longrightarrow> rep key m xs \<Longrightarrow> e \<in> set xs \<Longrightarrow>
      \<exists>m'. remove_node cmp e m = Some (Some e, m') \<and> rep key m' (remove1 e xs)"
    and find_key: "cmp_by key cmp \<Longrightarrow> rep key m xs \<Longrightarrow>
      \<exists>m'. find_node cmp e m = Some (List.find (\<lambda>x. key x = key e) xs, m') \<and> rep key m' xs"
    and first_key: "rep key m xs \<Longrightarrow> \<exists>m'. first_node m = Some (first_of_list xs, m') \<and> rep key m' xs"
    and next_key: "cmp_by key cmp \<Longrightarrow> rep key m (ys @ e # zs) \<Longrightarrow>
      \<exists>m'. next_node cmp e m = Some (first_of_list zs, m') \<and> rep key m' (ys @ e # zs)"

text \<open>All nodes of a list go in; a walk of at most \<open>n\<close> steps from a node.\<close>

fun insert_all :: "(nat \<Rightarrow> 'm \<Rightarrow> (nat option \<times> 'm) option) \<Rightarrow> nat list \<Rightarrow> 'm \<Rightarrow> 'm option" where
  "insert_all ins [] m = Some m"
| "insert_all ins (e # es) m = do { (_, m) \<leftarrow> ins e m; insert_all ins es m }"

fun take_steps :: "(nat \<Rightarrow> 'm \<Rightarrow> (nat option \<times> 'm) option) \<Rightarrow> nat \<Rightarrow> nat option \<Rightarrow> 'm \<Rightarrow> nat list option" where
  "take_steps next n None m = Some []"
| "take_steps next 0 (Some x) m = Some []"
| "take_steps next (Suc n) (Some x) m = do { (y, m) \<leftarrow> next x m; xs \<leftarrow> take_steps next n y m; Some (x # xs) }"

text \<open>
  A program that uses a tree of nodes: what it calls, what each call returns, and the same on a list in the order of the
  keys. Only a node of the tree may be removed; inserting, finding and walking are free.
\<close>

datatype tree_call = Insert nat | Remove nat | Find nat | First | Next nat

definition tree_call_on :: "(nat \<Rightarrow> 'm \<Rightarrow> (nat option \<times> 'm) option) \<Rightarrow> (nat \<Rightarrow> 'm \<Rightarrow> (nat option \<times> 'm) option) \<Rightarrow>
    (nat \<Rightarrow> 'm \<Rightarrow> (nat option \<times> 'm) option) \<Rightarrow> ('m \<Rightarrow> (nat option \<times> 'm) option) \<Rightarrow>
    (nat \<Rightarrow> 'm \<Rightarrow> (nat option \<times> 'm) option) \<Rightarrow> tree_call \<Rightarrow> 'm \<Rightarrow> (nat option \<times> 'm) option" where
  "tree_call_on ins rem fnd fir nxt c m = (case c of
     Insert e \<Rightarrow> ins e m | Remove e \<Rightarrow> rem e m | Find e \<Rightarrow> fnd e m | First \<Rightarrow> fir m | Next e \<Rightarrow> nxt e m)"

fun run_calls :: "('c \<Rightarrow> 'm \<Rightarrow> ('r \<times> 'm) option) \<Rightarrow> 'c list \<Rightarrow> 'm \<Rightarrow> ('r list \<times> 'm) option" where
  "run_calls f [] m = Some ([], m)"
| "run_calls f (c # cs) m = do { (r, m) \<leftarrow> f c m; (rs, m) \<leftarrow> run_calls f cs m; Some (r # rs, m) }"

definition with_key :: "(nat \<Rightarrow> 'k::linorder) \<Rightarrow> nat \<Rightarrow> nat list \<Rightarrow> nat option" where
  "with_key key e xs = List.find (\<lambda>x. key x = key e) xs"

fun list_call :: "(nat \<Rightarrow> 'k::linorder) \<Rightarrow> tree_call \<Rightarrow> nat list \<Rightarrow> (nat option \<times> nat list) option" where
  "list_call key (Insert e) xs = Some (case with_key key e xs of
     None \<Rightarrow> (None, insort_key key e xs) | Some x \<Rightarrow> (Some x, xs))"
| "list_call key (Remove e) xs = (if e \<in> set xs then Some (Some e, remove1 e xs) else None)"
| "list_call key (Find e) xs = Some (with_key key e xs, xs)"
| "list_call key First xs = Some (first_of_list xs, xs)"
| "list_call key (Next e) xs =
     (if e \<in> set xs then Some (first_of_list (tl (dropWhile (\<lambda>x. x \<noteq> e) xs)), xs) else None)"

context ordered_nodes
begin

abbreviation call where
  "call cmp \<equiv> tree_call_on (insert_node cmp) (remove_node cmp) (find_node cmp) first_node (next_node cmp)"

lemma call_list:
  assumes cmp: "cmp_by key cmp" and rep: "rep key m xs" and c: "list_call key c xs = Some (r, ys)"
  shows "\<exists>m'. call cmp c m = Some (r, m') \<and> rep key m' ys"
proof (cases c)
  case (Insert e)
  show ?thesis
  proof (cases "with_key key e xs")
    case None
    then have "\<forall>x \<in> set xs. key x \<noteq> key e" by (auto simp: with_key_def find_None_iff)
    then show ?thesis using Insert None c insert_new [OF cmp rep, of e] by (auto simp: tree_call_on_def)
  next
    case (Some x)
    then have "x \<in> set xs" "key x = key e" by (auto simp: with_key_def find_Some_iff)
    then show ?thesis using Insert Some c insert_old [OF cmp rep, of x e] by (auto simp: tree_call_on_def)
  qed
next
  case (Remove e)
  then show ?thesis using c remove_old [OF cmp rep, of e] by (auto simp: tree_call_on_def split: if_splits)
next
  case (Find e)
  then show ?thesis using c find_key [OF cmp rep, of e] by (auto simp: tree_call_on_def with_key_def)
next
  case First
  then show ?thesis using c first_key [OF rep] by (auto simp: tree_call_on_def)
next
  case (Next e)
  then have e: "e \<in> set xs" "r = first_of_list (tl (dropWhile (\<lambda>x. x \<noteq> e) xs))" "ys = xs" using c by (auto split: if_splits)
  obtain us vs where u: "xs = us @ e # vs" "e \<notin> set us" using split_list_first [OF e(1)] by blast
  then have "dropWhile (\<lambda>x. x \<noteq> e) xs = e # vs" by (induction us arbitrary: xs) auto
  then show ?thesis using Next e next_key [OF cmp, of m us e vs] rep u(1) by (auto simp: tree_call_on_def)
qed

text \<open>Every program that is legal on the list runs on the memory, with the same results.\<close>

lemma calls_list:
  assumes "cmp_by key cmp"
  shows "rep key m xs \<Longrightarrow> run_calls (list_call key) cs xs = Some (rs, ys) \<Longrightarrow>
    \<exists>m'. run_calls (call cmp) cs m = Some (rs, m') \<and> rep key m' ys"
proof (induction cs arbitrary: m xs rs)
  case (Cons c cs)
  obtain r zs ss where c: "list_call key c xs = Some (r, zs)" "run_calls (list_call key) cs zs = Some (ss, ys)" "rs = r # ss"
    using Cons.prems(2) by (auto split: bind_splits)
  obtain m1 where m1: "call cmp c m = Some (r, m1)" "rep key m1 zs" using call_list [OF assms Cons.prems(1) c(1)] by blast
  show ?case using Cons.IH [OF m1(2) c(2)] m1(1) c(3) by auto
qed simp

lemma insert_all_sorts:
  assumes "cmp_by key cmp"
  shows "rep key m xs \<Longrightarrow> distinct (map key (es @ xs)) \<Longrightarrow>
    \<exists>m'. insert_all (insert_node cmp) es m = Some m' \<and> rep key m' (fold (insort_key key) es xs)"
proof (induction es arbitrary: m xs)
  case (Cons e es)
  have "\<forall>x \<in> set xs. key x \<noteq> key e" using Cons.prems(2) by (auto simp: image_iff)
  then obtain m1 where 1: "insert_node cmp e m = Some (None, m1)" "rep key m1 (insort_key key e xs)"
    using insert_new [OF assms Cons.prems(1)] by blast
  have "distinct (map key (es @ insort_key key e xs))"
    using Cons.prems(2) in_order_distinct [OF rep_order [OF 1(2)]] by (auto simp: set_insort_key image_iff)
  then show ?case using Cons.IH [OF 1(2)] 1(1) by auto
qed simp

lemma walk_lists:
  assumes "cmp_by key cmp"
  shows "rep key m (ys @ zs) \<Longrightarrow> length zs \<le> n \<Longrightarrow> take_steps (next_node cmp) n (first_of_list zs) m = Some zs"
proof (induction zs arbitrary: ys m n)
  case (Cons z zs)
  obtain k where n: "n = Suc k" using Cons.prems(2) by (cases n) auto
  obtain m1 where "next_node cmp z m = Some (first_of_list zs, m1)" "rep key m1 ((ys @ [z]) @ zs)"
    using next_key [OF assms Cons.prems(1)] by auto
  then show ?case using Cons.IH [where m = m1 and ys = "ys @ [z]" and n = k] Cons.prems(2) n by simp
qed simp

text \<open>Inserting and walking sorts.\<close>

lemma tree_sort:
  assumes "cmp_by key cmp" "rep key m []" "distinct (map key es)"
  shows "do { m \<leftarrow> insert_all (insert_node cmp) es m; (x, m) \<leftarrow> first_node m; take_steps (next_node cmp) (length es) x m } =
    Some (sort_key key es)"
proof -
  obtain m1 where 1: "insert_all (insert_node cmp) es m = Some m1" "rep key m1 (fold (insort_key key) es [])"
    using insert_all_sorts [OF assms(1,2)] assms(3) by auto
  have e: "fold (insort_key key) es [] = sort_key key es"
    using sort_key_conv_fold [of key es] assms(3) by (simp add: distinct_map)
  obtain m2 where 2: "first_node m1 = Some (first_of_list (sort_key key es), m2)" "rep key m2 ([] @ sort_key key es)"
    using first_key [OF 1(2)] e by auto
  show ?thesis using 1(1) 2(1) walk_lists [OF assms(1) 2(2), of "length es"] by simp
qed

text \<open>A node that went in is found, and one that was taken out is not.\<close>

lemma insert_find:
  assumes "cmp_by key cmp" "rep key m xs" "\<forall>x \<in> set xs. key x \<noteq> key e"
  shows "map_option fst (do { (_, m) \<leftarrow> insert_node cmp e m; find_node cmp e m }) = Some (Some e)"
proof -
  obtain m1 where 1: "insert_node cmp e m = Some (None, m1)" "rep key m1 (insort_key key e xs)"
    using insert_new [OF assms] by blast
  have "List.find (\<lambda>x. key x = key e) (insort_key key e xs) = Some e"
    using assms(3) by (induction xs) auto
  then show ?thesis using 1(1) find_key [OF assms(1) 1(2), of e] by auto
qed

lemma insert_remove:
  assumes "cmp_by key cmp" "rep key m xs" "\<forall>x \<in> set xs. key x \<noteq> key e"
  shows "\<exists>m'. do { (_, m) \<leftarrow> insert_node cmp e m; remove_node cmp e m } = Some (Some e, m') \<and> rep key m' xs"
proof -
  obtain m1 where 1: "insert_node cmp e m = Some (None, m1)" "rep key m1 (insort_key key e xs)"
    using insert_new [OF assms] by blast
  have "remove1 e (insort_key key e xs) = xs" by (rule remove1_insort_key) 
  then show ?thesis using 1(1) remove_old [OF assms(1) 1(2), of e] by (auto simp: set_insort_key)
qed

end

end
