(* ===== verification/Tree_Rb.thy ===== *)
theory Tree_Rb
  imports Tree_Order
begin

section \<open>Red-black trees (include/mx/tree.h)\<close>

text \<open>
  The macros \<open>RB_*\<close> and the functions \<open>RB_GENERATE\<close> makes, on the entries of the nodes: a memory gives each node
  its left, right and parent pointers and its colour, and the head the pointer to the root. Following a
  null pointer has no result. The comparison of two nodes is the \<open>cmp\<close> of the application; \<open>RB_AUGMENT\<close>
  is empty unless the application defines it.
\<close>

datatype rb_color = RB_BLACK | RB_RED

record rb_entry =
  rbe_left :: "nat option"
  rbe_right :: "nat option"
  rbe_parent :: "nat option"
  rbe_color :: rb_color

record rb_head =
  rbh_root :: "nat option"
  rb_nodes :: "nat \<Rightarrow> rb_entry"

definition RB_LEFT :: "rb_head \<Rightarrow> nat \<Rightarrow> nat option" where "RB_LEFT m x = rbe_left (rb_nodes m x)"
definition RB_RIGHT :: "rb_head \<Rightarrow> nat \<Rightarrow> nat option" where "RB_RIGHT m x = rbe_right (rb_nodes m x)"
definition RB_PARENT :: "rb_head \<Rightarrow> nat \<Rightarrow> nat option" where "RB_PARENT m x = rbe_parent (rb_nodes m x)"
definition RB_COLOR :: "rb_head \<Rightarrow> nat \<Rightarrow> rb_color" where "RB_COLOR m x = rbe_color (rb_nodes m x)"
definition RB_ROOT :: "rb_head \<Rightarrow> nat option" where "RB_ROOT m = rbh_root m"
definition RB_EMPTY :: "rb_head \<Rightarrow> bool" where "RB_EMPTY m \<longleftrightarrow> RB_ROOT m = None"

definition put_left :: "nat \<Rightarrow> nat option \<Rightarrow> rb_head \<Rightarrow> rb_head" where
  "put_left x p m = m\<lparr>rb_nodes := (rb_nodes m)(x := rb_nodes m x\<lparr>rbe_left := p\<rparr>)\<rparr>"

definition put_right :: "nat \<Rightarrow> nat option \<Rightarrow> rb_head \<Rightarrow> rb_head" where
  "put_right x p m = m\<lparr>rb_nodes := (rb_nodes m)(x := rb_nodes m x\<lparr>rbe_right := p\<rparr>)\<rparr>"

definition put_parent :: "nat \<Rightarrow> nat option \<Rightarrow> rb_head \<Rightarrow> rb_head" where
  "put_parent x p m = m\<lparr>rb_nodes := (rb_nodes m)(x := rb_nodes m x\<lparr>rbe_parent := p\<rparr>)\<rparr>"

definition put_color :: "nat \<Rightarrow> rb_color \<Rightarrow> rb_head \<Rightarrow> rb_head" where
  "put_color x c m = m\<lparr>rb_nodes := (rb_nodes m)(x := rb_nodes m x\<lparr>rbe_color := c\<rparr>)\<rparr>"

definition RB_INIT :: "rb_head \<Rightarrow> rb_head" where
  "RB_INIT m = m\<lparr>rbh_root := None\<rparr>"

definition RB_SET :: "nat \<Rightarrow> nat option \<Rightarrow> rb_head \<Rightarrow> rb_head" where
  "RB_SET elm parent m =
     put_color elm RB_RED (put_left elm None (put_right elm None (put_parent elm parent m)))"

definition RB_SET_BLACKRED :: "nat \<Rightarrow> nat \<Rightarrow> rb_head \<Rightarrow> rb_head" where
  "RB_SET_BLACKRED black red m = put_color red RB_RED (put_color black RB_BLACK m)"

text \<open>A node takes the place of \<open>elm\<close> below its parent, or at the root.\<close>

definition put_child :: "nat option \<Rightarrow> nat \<Rightarrow> nat option \<Rightarrow> rb_head \<Rightarrow> rb_head" where
  "put_child parent elm new m =
     (case parent of
        Some p \<Rightarrow> if RB_LEFT m p = Some elm then put_left p new m else put_right p new m
      | None \<Rightarrow> m\<lparr>rbh_root := new\<rparr>)"

text \<open>Rotations; the result is the new value of \<open>tmp\<close> and the memory.\<close>

definition RB_ROTATE_LEFT :: "nat \<Rightarrow> rb_head \<Rightarrow> (nat \<times> rb_head) option" where
  "RB_ROTATE_LEFT elm m = do {
     tmp \<leftarrow> RB_RIGHT m elm;
     let m = put_right elm (RB_LEFT m tmp) m;
     let m = (case RB_LEFT m tmp of Some c \<Rightarrow> put_parent c (Some elm) m | None \<Rightarrow> m);
     let m = put_parent tmp (RB_PARENT m elm) m;
     let m = put_child (RB_PARENT m elm) elm (Some tmp) m;
     let m = put_left tmp (Some elm) m;
     Some (tmp, put_parent elm (Some tmp) m)
   }"

definition RB_ROTATE_RIGHT :: "nat \<Rightarrow> rb_head \<Rightarrow> (nat \<times> rb_head) option" where
  "RB_ROTATE_RIGHT elm m = do {
     tmp \<leftarrow> RB_LEFT m elm;
     let m = put_left elm (RB_RIGHT m tmp) m;
     let m = (case RB_RIGHT m tmp of Some c \<Rightarrow> put_parent c (Some elm) m | None \<Rightarrow> m);
     let m = put_parent tmp (RB_PARENT m elm) m;
     let m = put_child (RB_PARENT m elm) elm (Some tmp) m;
     let m = put_right tmp (Some elm) m;
     Some (tmp, put_parent elm (Some tmp) m)
   }"

subsection \<open>Insertion\<close>

text \<open>The two halves of the loop body: the parent is a left, or a right, child. They return the new \<open>elm\<close>.\<close>

definition red_node :: "rb_head \<Rightarrow> nat option \<Rightarrow> bool" where
  "red_node m p = (case p of Some x \<Rightarrow> RB_COLOR m x = RB_RED | None \<Rightarrow> False)"

definition insert_color_left :: "nat \<Rightarrow> nat \<Rightarrow> nat \<Rightarrow> rb_head \<Rightarrow> (nat \<times> rb_head) option" where
  "insert_color_left elm parent gparent m =
     (if red_node m (RB_RIGHT m gparent)
      then do {
        tmp \<leftarrow> RB_RIGHT m gparent;
        Some (gparent, RB_SET_BLACKRED parent gparent (put_color tmp RB_BLACK m))
      }
      else do {
        (elm, parent, m) \<leftarrow> (if RB_RIGHT m parent = Some elm
          then do { (_, m) \<leftarrow> RB_ROTATE_LEFT parent m; Some (parent, elm, m) }
          else Some (elm, parent, m));
        (_, m) \<leftarrow> RB_ROTATE_RIGHT gparent (RB_SET_BLACKRED parent gparent m);
        Some (elm, m)
      })"

definition insert_color_right :: "nat \<Rightarrow> nat \<Rightarrow> nat \<Rightarrow> rb_head \<Rightarrow> (nat \<times> rb_head) option" where
  "insert_color_right elm parent gparent m =
     (if red_node m (RB_LEFT m gparent)
      then do {
        tmp \<leftarrow> RB_LEFT m gparent;
        Some (gparent, RB_SET_BLACKRED parent gparent (put_color tmp RB_BLACK m))
      }
      else do {
        (elm, parent, m) \<leftarrow> (if RB_LEFT m parent = Some elm
          then do { (_, m) \<leftarrow> RB_ROTATE_RIGHT parent m; Some (parent, elm, m) }
          else Some (elm, parent, m));
        (_, m) \<leftarrow> RB_ROTATE_LEFT gparent (RB_SET_BLACKRED parent gparent m);
        Some (elm, m)
      })"

partial_function (option) insert_color_loop :: "nat \<Rightarrow> rb_head \<Rightarrow> rb_head option" where
  "insert_color_loop elm m =
     (case RB_PARENT m elm of
        None \<Rightarrow> Some m
      | Some parent \<Rightarrow>
          if RB_COLOR m parent = RB_RED
          then do {
            gparent \<leftarrow> RB_PARENT m parent;
            (elm, m) \<leftarrow> (if RB_LEFT m gparent = Some parent then insert_color_left elm parent gparent m
                         else insert_color_right elm parent gparent m);
            insert_color_loop elm m
          }
          else Some m)"

definition RB_INSERT_COLOR :: "nat \<Rightarrow> rb_head \<Rightarrow> rb_head option" where
  "RB_INSERT_COLOR elm m = do {
     m \<leftarrow> insert_color_loop elm m;
     root \<leftarrow> RB_ROOT m;
     Some (put_color root RB_BLACK m)
   }"

text \<open>
  The search for the place: the node with an equal key, or the last node visited with the outcome of the last
  comparison.
\<close>

partial_function (option) insert_search ::
    "(nat \<Rightarrow> nat \<Rightarrow> int) \<Rightarrow> nat \<Rightarrow> rb_head \<Rightarrow> nat option \<Rightarrow> nat option \<Rightarrow> int \<Rightarrow> (nat + nat option \<times> int) option" where
  "insert_search cmp elm m parent tmp order =
     (case tmp of
        None \<Rightarrow> Some (Inr (parent, order))
      | Some tmp \<Rightarrow>
          let order = cmp elm tmp
          in if order < 0 then insert_search cmp elm m (Some tmp) (RB_LEFT m tmp) order
             else if order > 0 then insert_search cmp elm m (Some tmp) (RB_RIGHT m tmp) order
             else Some (Inl tmp))"

definition RB_INSERT :: "(nat \<Rightarrow> nat \<Rightarrow> int) \<Rightarrow> nat \<Rightarrow> rb_head \<Rightarrow> (nat option \<times> rb_head) option" where
  "RB_INSERT cmp elm m = do {
     r \<leftarrow> insert_search cmp elm m None (RB_ROOT m) 0;
     case r of
       Inl tmp \<Rightarrow> Some (Some tmp, m)
     | Inr (parent, order) \<Rightarrow> do {
         let m = RB_SET elm parent m;
         let m = (case parent of
             Some p \<Rightarrow> if order < 0 then put_left p (Some elm) m else put_right p (Some elm) m
           | None \<Rightarrow> m\<lparr>rbh_root := Some elm\<rparr>);
         m \<leftarrow> RB_INSERT_COLOR elm m;
         Some (None, m)
       }
   }"

subsection \<open>Removal\<close>

text \<open>
  The two halves of the loop body: the node that lost a black one is the left, or the right, child of \<open>parent\<close>;
  its sibling \<open>tmp\<close> is made black, then repainted. The flag says that the loop is left.
\<close>

definition remove_repaint_left :: "nat \<Rightarrow> nat \<Rightarrow> rb_head \<Rightarrow> (bool \<times> rb_head) option" where
  "remove_repaint_left parent tmp m =
     (if \<not> red_node m (RB_LEFT m tmp) \<and> \<not> red_node m (RB_RIGHT m tmp)
      then Some (False, put_color tmp RB_RED m)
      else do {
        (tmp, m) \<leftarrow> (if \<not> red_node m (RB_RIGHT m tmp)
          then do {
            let m = (case RB_LEFT m tmp of Some oleft \<Rightarrow> put_color oleft RB_BLACK m | None \<Rightarrow> m);
            (_, m) \<leftarrow> RB_ROTATE_RIGHT tmp (put_color tmp RB_RED m);
            tmp \<leftarrow> RB_RIGHT m parent;
            Some (tmp, m)
          }
          else Some (tmp, m));
        let m = put_color tmp (RB_COLOR m parent) m;
        let m = put_color parent RB_BLACK m;
        let m = (case RB_RIGHT m tmp of Some x \<Rightarrow> put_color x RB_BLACK m | None \<Rightarrow> m);
        (_, m) \<leftarrow> RB_ROTATE_LEFT parent m;
        Some (True, m)
      })"

definition remove_color_left :: "nat \<Rightarrow> rb_head \<Rightarrow> (bool \<times> rb_head) option" where
  "remove_color_left parent m = do {
     tmp \<leftarrow> RB_RIGHT m parent;
     (tmp, m) \<leftarrow> (if RB_COLOR m tmp = RB_RED
       then do {
         (_, m) \<leftarrow> RB_ROTATE_LEFT parent (RB_SET_BLACKRED tmp parent m);
         tmp \<leftarrow> RB_RIGHT m parent;
         Some (tmp, m)
       }
       else Some (tmp, m));
     remove_repaint_left parent tmp m
   }"

definition remove_repaint_right :: "nat \<Rightarrow> nat \<Rightarrow> rb_head \<Rightarrow> (bool \<times> rb_head) option" where
  "remove_repaint_right parent tmp m =
     (if \<not> red_node m (RB_LEFT m tmp) \<and> \<not> red_node m (RB_RIGHT m tmp)
      then Some (False, put_color tmp RB_RED m)
      else do {
        (tmp, m) \<leftarrow> (if \<not> red_node m (RB_LEFT m tmp)
          then do {
            let m = (case RB_RIGHT m tmp of Some oright \<Rightarrow> put_color oright RB_BLACK m | None \<Rightarrow> m);
            (_, m) \<leftarrow> RB_ROTATE_LEFT tmp (put_color tmp RB_RED m);
            tmp \<leftarrow> RB_LEFT m parent;
            Some (tmp, m)
          }
          else Some (tmp, m));
        let m = put_color tmp (RB_COLOR m parent) m;
        let m = put_color parent RB_BLACK m;
        let m = (case RB_LEFT m tmp of Some x \<Rightarrow> put_color x RB_BLACK m | None \<Rightarrow> m);
        (_, m) \<leftarrow> RB_ROTATE_RIGHT parent m;
        Some (True, m)
      })"

definition remove_color_right :: "nat \<Rightarrow> rb_head \<Rightarrow> (bool \<times> rb_head) option" where
  "remove_color_right parent m = do {
     tmp \<leftarrow> RB_LEFT m parent;
     (tmp, m) \<leftarrow> (if RB_COLOR m tmp = RB_RED
       then do {
         (_, m) \<leftarrow> RB_ROTATE_RIGHT parent (RB_SET_BLACKRED tmp parent m);
         tmp \<leftarrow> RB_LEFT m parent;
         Some (tmp, m)
       }
       else Some (tmp, m));
     remove_repaint_right parent tmp m
   }"

partial_function (option) remove_color_loop ::
    "nat option \<Rightarrow> nat option \<Rightarrow> rb_head \<Rightarrow> (nat option \<times> rb_head) option" where
  "remove_color_loop parent elm m =
     (if \<not> red_node m elm \<and> elm \<noteq> RB_ROOT m
      then do {
        p \<leftarrow> parent;
        (break, m) \<leftarrow> (if RB_LEFT m p = elm then remove_color_left p m else remove_color_right p m);
        if break then Some (RB_ROOT m, m) else remove_color_loop (RB_PARENT m p) (Some p) m
      }
      else Some (elm, m))"

definition RB_REMOVE_COLOR :: "nat option \<Rightarrow> nat option \<Rightarrow> rb_head \<Rightarrow> rb_head option" where
  "RB_REMOVE_COLOR parent elm m = do {
     (elm, m) \<leftarrow> remove_color_loop parent elm m;
     Some (case elm of Some x \<Rightarrow> put_color x RB_BLACK m | None \<Rightarrow> m)
   }"

text \<open>\<open>while ((left = RB_LEFT(elm))) elm = left;\<close> and its mirror image.\<close>

partial_function (option) leftmost :: "rb_head \<Rightarrow> nat \<Rightarrow> nat option" where
  "leftmost m elm = (case RB_LEFT m elm of Some l \<Rightarrow> leftmost m l | None \<Rightarrow> Some elm)"

partial_function (option) rightmost :: "rb_head \<Rightarrow> nat \<Rightarrow> nat option" where
  "rightmost m elm = (case RB_RIGHT m elm of Some r \<Rightarrow> rightmost m r | None \<Rightarrow> Some elm)"

text \<open>The walk to the root for \<open>RB_AUGMENT\<close>.\<close>

partial_function (option) augment_loop :: "rb_head \<Rightarrow> nat \<Rightarrow> unit option" where
  "augment_loop m elm = (case RB_PARENT m elm of Some p \<Rightarrow> augment_loop m p | None \<Rightarrow> Some ())"

text \<open>A node with at most one child gives its place to that child.\<close>

definition splice_out :: "nat option \<Rightarrow> nat \<Rightarrow> nat option \<Rightarrow> rb_head \<Rightarrow> rb_head" where
  "splice_out parent elm child m =
     (let m = (case child of Some c \<Rightarrow> put_parent c parent m | None \<Rightarrow> m)
      in put_child parent elm child m)"

text \<open>A node with two children is replaced by its successor, after that has been taken out.\<close>

definition replace_node :: "nat \<Rightarrow> nat \<Rightarrow> rb_head \<Rightarrow> rb_head option" where
  "replace_node old elm m = do {
     let m = m\<lparr>rb_nodes := (rb_nodes m)(elm := rb_nodes m old)\<rparr>;
     let m = put_child (RB_PARENT m old) old (Some elm) m;
     l \<leftarrow> RB_LEFT m old;
     let m = put_parent l (Some elm) m;
     Some (case RB_RIGHT m old of Some r \<Rightarrow> put_parent r (Some elm) m | None \<Rightarrow> m)
   }"

definition RB_REMOVE :: "nat \<Rightarrow> rb_head \<Rightarrow> (nat \<times> rb_head) option" where
  "RB_REMOVE elm m = do {
     let old = elm;
     (color, parent, child, m) \<leftarrow>
       (if RB_LEFT m elm = None \<or> RB_RIGHT m elm = None
        then
          let child = (if RB_LEFT m elm = None then RB_RIGHT m elm else RB_LEFT m elm);
              parent = RB_PARENT m elm
          in Some (RB_COLOR m elm, parent, child, splice_out parent elm child m)
        else do {
          elm \<leftarrow> RB_RIGHT m elm;
          elm \<leftarrow> leftmost m elm;
          let child = RB_RIGHT m elm;
          let parent = RB_PARENT m elm;
          let color = RB_COLOR m elm;
          let m = splice_out parent elm child m;
          let parent = (if RB_PARENT m elm = Some old then Some elm else parent);
          m \<leftarrow> replace_node old elm m;
          _ \<leftarrow> (case parent of Some p \<Rightarrow> augment_loop m p | None \<Rightarrow> Some ());
          Some (color, parent, child, m)
        });
     m \<leftarrow> (if color = RB_BLACK then RB_REMOVE_COLOR parent child m else Some m);
     Some (old, m)
   }"

subsection \<open>Looking up and walking\<close>

partial_function (option) rb_find_loop :: "(nat \<Rightarrow> nat \<Rightarrow> int) \<Rightarrow> nat \<Rightarrow> rb_head \<Rightarrow> nat option \<Rightarrow> nat option option" where
  "rb_find_loop cmp elm m tmp =
     (if tmp = None then Some None
      else do {
          tmp \<leftarrow> tmp;
          if cmp elm tmp < 0 then rb_find_loop cmp elm m (RB_LEFT m tmp)
          else if cmp elm tmp > 0 then rb_find_loop cmp elm m (RB_RIGHT m tmp)
          else Some (Some tmp)
        })"

definition RB_FIND :: "(nat \<Rightarrow> nat \<Rightarrow> int) \<Rightarrow> nat \<Rightarrow> rb_head \<Rightarrow> nat option option" where
  "RB_FIND cmp elm m = rb_find_loop cmp elm m (RB_ROOT m)"

partial_function (option) nfind_loop ::
    "(nat \<Rightarrow> nat \<Rightarrow> int) \<Rightarrow> nat \<Rightarrow> rb_head \<Rightarrow> nat option \<Rightarrow> nat option \<Rightarrow> nat option option" where
  "nfind_loop cmp elm m res tmp =
     (if tmp = None then Some res
      else do {
          tmp \<leftarrow> tmp;
          if cmp elm tmp < 0 then nfind_loop cmp elm m (Some tmp) (RB_LEFT m tmp)
          else if cmp elm tmp > 0 then nfind_loop cmp elm m res (RB_RIGHT m tmp)
          else Some (Some tmp)
        })"

definition RB_NFIND :: "(nat \<Rightarrow> nat \<Rightarrow> int) \<Rightarrow> nat \<Rightarrow> rb_head \<Rightarrow> nat option option" where
  "RB_NFIND cmp elm m = nfind_loop cmp elm m None (RB_ROOT m)"

text \<open>\<open>while (RB_PARENT(elm) && elm == RB_RIGHT(RB_PARENT(elm))) elm = RB_PARENT(elm);\<close> and its mirror image.\<close>

partial_function (option) climb_right :: "rb_head \<Rightarrow> nat \<Rightarrow> nat option" where
  "climb_right m elm =
     (case RB_PARENT m elm of
        Some p \<Rightarrow> if RB_RIGHT m p = Some elm then climb_right m p else Some elm
      | None \<Rightarrow> Some elm)"

partial_function (option) climb_left :: "rb_head \<Rightarrow> nat \<Rightarrow> nat option" where
  "climb_left m elm =
     (case RB_PARENT m elm of
        Some p \<Rightarrow> if RB_LEFT m p = Some elm then climb_left m p else Some elm
      | None \<Rightarrow> Some elm)"

definition RB_NEXT :: "rb_head \<Rightarrow> nat \<Rightarrow> nat option option" where
  "RB_NEXT m elm =
     (case RB_RIGHT m elm of
        Some r \<Rightarrow> map_option Some (leftmost m r)
      | None \<Rightarrow> (case RB_PARENT m elm of
          Some p \<Rightarrow> if RB_LEFT m p = Some elm then Some (Some p)
            else do { elm \<leftarrow> climb_right m elm; Some (RB_PARENT m elm) }
        | None \<Rightarrow> do { elm \<leftarrow> climb_right m elm; Some (RB_PARENT m elm) }))"

definition RB_PREV :: "rb_head \<Rightarrow> nat \<Rightarrow> nat option option" where
  "RB_PREV m elm =
     (case RB_LEFT m elm of
        Some l \<Rightarrow> map_option Some (rightmost m l)
      | None \<Rightarrow> (case RB_PARENT m elm of
          Some p \<Rightarrow> if RB_RIGHT m p = Some elm then Some (Some p)
            else do { elm \<leftarrow> climb_left m elm; Some (RB_PARENT m elm) }
        | None \<Rightarrow> do { elm \<leftarrow> climb_left m elm; Some (RB_PARENT m elm) }))"

partial_function (option) minmax_loop :: "int \<Rightarrow> rb_head \<Rightarrow> nat option \<Rightarrow> nat option \<Rightarrow> nat option option" where
  "minmax_loop val m parent tmp =
     (if tmp = None then Some parent
      else do {
          tmp \<leftarrow> tmp;
          if val < 0 then minmax_loop val m (Some tmp) (RB_LEFT m tmp)
          else minmax_loop val m (Some tmp) (RB_RIGHT m tmp)
        })"

definition RB_MINMAX :: "int \<Rightarrow> rb_head \<Rightarrow> nat option option" where
  "RB_MINMAX val m = minmax_loop val m None (RB_ROOT m)"

definition RB_NEGINF :: int where "RB_NEGINF = -1"
definition RB_INF :: int where "RB_INF = 1"
definition RB_MIN :: "rb_head \<Rightarrow> nat option option" where "RB_MIN = RB_MINMAX RB_NEGINF"
definition RB_MAX :: "rb_head \<Rightarrow> nat option option" where "RB_MAX = RB_MINMAX RB_INF"

text \<open>
  The loops: the body gets a node, the memory and its own state; the next node is asked for after the body, or
  before it (\<open>_SAFE\<close>).
\<close>

partial_function (option) walk ::
    "(rb_head \<Rightarrow> nat \<Rightarrow> nat option option) \<Rightarrow> (nat \<Rightarrow> rb_head \<times> 's \<Rightarrow> ('r + rb_head \<times> 's) option) \<Rightarrow> nat option \<Rightarrow>
      rb_head \<times> 's \<Rightarrow> ('r + rb_head \<times> 's) option" where
  "walk next f x st =
     (case x of
        None \<Rightarrow> Some (Inr st)
      | Some x \<Rightarrow> do {
          r \<leftarrow> f x st;
          case r of
            Inl r \<Rightarrow> Some (Inl r)
          | Inr st \<Rightarrow> do { x \<leftarrow> next (fst st) x; walk next f x st }
        })"

partial_function (option) walk_safe ::
    "(rb_head \<Rightarrow> nat \<Rightarrow> nat option option) \<Rightarrow> (nat \<Rightarrow> rb_head \<times> 's \<Rightarrow> ('r + rb_head \<times> 's) option) \<Rightarrow> nat option \<Rightarrow>
      rb_head \<times> 's \<Rightarrow> ('r + rb_head \<times> 's) option" where
  "walk_safe next f x st =
     (case x of
        None \<Rightarrow> Some (Inr st)
      | Some x \<Rightarrow> do {
          y \<leftarrow> next (fst st) x;
          r \<leftarrow> f x st;
          case r of
            Inl r \<Rightarrow> Some (Inl r)
          | Inr st \<Rightarrow> walk_safe next f y st
        })"

definition RB_FOREACH ::
    "(nat \<Rightarrow> rb_head \<times> 's \<Rightarrow> ('r + rb_head \<times> 's) option) \<Rightarrow> rb_head \<times> 's \<Rightarrow> ('r + rb_head \<times> 's) option" where
  "RB_FOREACH f st = do { x \<leftarrow> RB_MIN (fst st); walk RB_NEXT f x st }"

definition RB_FOREACH_SAFE ::
    "(nat \<Rightarrow> rb_head \<times> 's \<Rightarrow> ('r + rb_head \<times> 's) option) \<Rightarrow> rb_head \<times> 's \<Rightarrow> ('r + rb_head \<times> 's) option" where
  "RB_FOREACH_SAFE f st = do { x \<leftarrow> RB_MIN (fst st); walk_safe RB_NEXT f x st }"

definition RB_FOREACH_REVERSE ::
    "(nat \<Rightarrow> rb_head \<times> 's \<Rightarrow> ('r + rb_head \<times> 's) option) \<Rightarrow> rb_head \<times> 's \<Rightarrow> ('r + rb_head \<times> 's) option" where
  "RB_FOREACH_REVERSE f st = do { x \<leftarrow> RB_MAX (fst st); walk RB_PREV f x st }"

definition RB_FOREACH_REVERSE_SAFE ::
    "(nat \<Rightarrow> rb_head \<times> 's \<Rightarrow> ('r + rb_head \<times> 's) option) \<Rightarrow> rb_head \<times> 's \<Rightarrow> ('r + rb_head \<times> 's) option" where
  "RB_FOREACH_REVERSE_SAFE f st = do { x \<leftarrow> RB_MAX (fst st); walk_safe RB_PREV f x st }"

end
