(* ===== verification/Tree_Rb_Focus.thy ===== *)
theory Tree_Rb_Focus
  imports Tree_Rb
begin

section \<open>The trees a memory holds\<close>

text \<open>
  A tree of nodes and colours is in memory when every node has the entry the tree says (\<open>rb_at\<close>). A place in
  a tree is a subtree and the way up from it, a list of \<open>step\<close>s; \<open>focus m t ps\<close> says that the memory
  holds the whole tree around that place. The operations of the code at a place are shown here to do to
  the tree what they are meant to.
\<close>

type_synonym rb = "(nat \<times> rb_color) tree"

fun peak :: "rb \<Rightarrow> nat option" where
  "peak \<langle>\<rangle> = None"
| "peak \<langle>l, (a, c), r\<rangle> = Some a"

fun addrs :: "rb \<Rightarrow> nat list" where
  "addrs \<langle>\<rangle> = []"
| "addrs \<langle>l, (a, c), r\<rangle> = addrs l @ a # addrs r"

fun rb_at :: "rb_head \<Rightarrow> nat option \<Rightarrow> rb \<Rightarrow> bool" where
  "rb_at m p \<langle>\<rangle> \<longleftrightarrow> True"
| "rb_at m p \<langle>l, (a, c), r\<rangle> \<longleftrightarrow>
     rb_nodes m a = \<lparr>rbe_left = peak l, rbe_right = peak r, rbe_parent = p, rbe_color = c\<rparr> \<and>
     rb_at m (Some a) l \<and> rb_at m (Some a) r"

definition rb_tree :: "rb_head \<Rightarrow> rb \<Rightarrow> bool" where
  "rb_tree m t \<longleftrightarrow> rbh_root m = peak t \<and> rb_at m None t \<and> distinct (addrs t)"

datatype step = Lft nat rb_color rb | Rgt rb nat rb_color

fun up :: "step list \<Rightarrow> nat option" where
  "up [] = None"
| "up (Lft a c r # ps) = Some a"
| "up (Rgt l a c # ps) = Some a"

fun plug :: "rb \<Rightarrow> step list \<Rightarrow> rb" where
  "plug t [] = t"
| "plug t (Lft a c r # ps) = plug \<langle>t, (a, c), r\<rangle> ps"
| "plug t (Rgt l a c # ps) = plug \<langle>l, (a, c), t\<rangle> ps"

fun before :: "step list \<Rightarrow> nat list" where
  "before [] = []"
| "before (Lft a c r # ps) = before ps"
| "before (Rgt l a c # ps) = before ps @ addrs l @ [a]"

fun following :: "step list \<Rightarrow> nat list" where
  "following [] = []"
| "following (Lft a c r # ps) = a # addrs r @ following ps"
| "following (Rgt l a c # ps) = following ps"

fun path_at :: "rb_head \<Rightarrow> nat option \<Rightarrow> step list \<Rightarrow> bool" where
  "path_at m p [] \<longleftrightarrow> rbh_root m = p"
| "path_at m p (Lft a c r # ps) \<longleftrightarrow>
     rb_nodes m a = \<lparr>rbe_left = p, rbe_right = peak r, rbe_parent = up ps, rbe_color = c\<rparr> \<and>
     rb_at m (Some a) r \<and> path_at m (Some a) ps"
| "path_at m p (Rgt l a c # ps) \<longleftrightarrow>
     rb_nodes m a = \<lparr>rbe_left = peak l, rbe_right = p, rbe_parent = up ps, rbe_color = c\<rparr> \<and>
     rb_at m (Some a) l \<and> path_at m (Some a) ps"

definition focus :: "rb_head \<Rightarrow> rb \<Rightarrow> step list \<Rightarrow> bool" where
  "focus m t ps \<longleftrightarrow> rb_at m (up ps) t \<and> path_at m (peak t) ps \<and> distinct (before ps @ addrs t @ following ps)"

lemma addrs_plug: "addrs (plug t ps) = before ps @ addrs t @ following ps"
  by (induction t ps rule: plug.induct) auto

lemma focus_tree: "focus m t [] \<longleftrightarrow> rb_tree m t"
  by (auto simp: focus_def rb_tree_def)

lemma focus_left: "focus m t (Lft a c r # ps) \<longleftrightarrow> focus m \<langle>t, (a, c), r\<rangle> ps"
  by (auto simp: focus_def)

lemma focus_right: "focus m t (Rgt l a c # ps) \<longleftrightarrow> focus m \<langle>l, (a, c), t\<rangle> ps"
  by (auto simp: focus_def)

lemma focus_plug: "focus m t ps \<longleftrightarrow> rb_tree m (plug t ps)"
  by (induction t ps rule: plug.induct) (simp_all add: focus_tree focus_left focus_right)

subsection \<open>What does not matter for a tree\<close>

lemma rb_at_cong:
  "(\<And>x. x \<in> set (addrs t) \<Longrightarrow> rb_nodes m' x = rb_nodes m x) \<Longrightarrow> rb_at m' p t = rb_at m p t"
  by (induction t arbitrary: p rule: addrs.induct) auto

lemma path_at_cong:
  "rbh_root m' = rbh_root m \<Longrightarrow> (\<And>x. x \<in> set (before ps @ following ps) \<Longrightarrow> rb_nodes m' x = rb_nodes m x) \<Longrightarrow>
   path_at m' p ps = path_at m p ps"
proof (induction m p ps rule: path_at.induct)
  case (2 m p a c r ps)
  then show ?case using rb_at_cong [of r m' m "Some a"] by auto
next
  case (3 m p l a c ps)
  then show ?case using rb_at_cong [of l m' m "Some a"] by auto
qed auto

lemmas put_defs = put_left_def put_right_def put_parent_def put_color_def
lemmas get_defs = RB_LEFT_def RB_RIGHT_def RB_PARENT_def RB_COLOR_def RB_ROOT_def

lemma peak_in: "peak t = Some a \<Longrightarrow> a \<in> set (addrs t)"
  by (cases t rule: peak.cases) auto

text \<open>Changing one field of a node outside.\<close>

lemma put_nodes [simp]:
  "rb_nodes (put_left a p m) x = (if x = a then rb_nodes m x\<lparr>rbe_left := p\<rparr> else rb_nodes m x)"
  "rb_nodes (put_right a p m) x = (if x = a then rb_nodes m x\<lparr>rbe_right := p\<rparr> else rb_nodes m x)"
  "rb_nodes (put_parent a p m) x = (if x = a then rb_nodes m x\<lparr>rbe_parent := p\<rparr> else rb_nodes m x)"
  "rb_nodes (put_color a c m) x = (if x = a then rb_nodes m x\<lparr>rbe_color := c\<rparr> else rb_nodes m x)"
  "rbh_root (put_left a p m) = rbh_root m" "rbh_root (put_right a p m) = rbh_root m"
  "rbh_root (put_parent a p m) = rbh_root m" "rbh_root (put_color a c m) = rbh_root m"
  by (simp_all add: put_defs)

lemma rb_at_put [simp]:
  assumes "a \<notin> set (addrs t)"
  shows "rb_at (put_left a p m) q t = rb_at m q t" "rb_at (put_right a p m) q t = rb_at m q t"
    and "rb_at (put_parent a p m) q t = rb_at m q t" "rb_at (put_color a c m) q t = rb_at m q t"
  by (rule rb_at_cong, (use assms in auto)[1])+

lemma path_at_put [simp]:
  assumes "a \<notin> set (before ps)" "a \<notin> set (following ps)"
  shows "path_at (put_left a p m) q ps = path_at m q ps" "path_at (put_right a p m) q ps = path_at m q ps"
    and "path_at (put_parent a p m) q ps = path_at m q ps" "path_at (put_color a c m) q ps = path_at m q ps"
  by (rule path_at_cong; use assms in auto)+

lemma rb_at_new [simp]:
  "a \<notin> set (addrs t) \<Longrightarrow> rb_at (m\<lparr>rb_nodes := (rb_nodes m)(a := e)\<rparr>) p t = rb_at m p t"
  by (rule rb_at_cong) auto

lemma path_at_new [simp]:
  "a \<notin> set (before ps) \<Longrightarrow> a \<notin> set (following ps) \<Longrightarrow>
   path_at (m\<lparr>rb_nodes := (rb_nodes m)(a := e)\<rparr>) p ps = path_at m p ps"
  by (rule path_at_cong) auto

lemma rb_at_root [simp]: "rb_at (m\<lparr>rbh_root := p\<rparr>) p t = rb_at m p t"
  by (rule rb_at_cong) auto

subsection \<open>A child changes its parent, a parent its child\<close>

definition lift_to :: "nat option \<Rightarrow> nat option \<Rightarrow> rb_head \<Rightarrow> rb_head" where
  "lift_to q p m = (case q of Some c \<Rightarrow> put_parent c p m | None \<Rightarrow> m)"

lemma rb_at_lift_to:
  assumes "rb_at m p t" "distinct (addrs t)"
  shows "rb_at (lift_to (peak t) p' m) p' t"
  using assms by (cases t rule: peak.cases) (auto simp: lift_to_def)

lemma rb_at_lift_other:
  "q \<notin> Some ` set (addrs t) \<Longrightarrow> rb_at (lift_to q p' m) p t = rb_at m p t"
  by (cases q) (auto simp: lift_to_def image_iff)

lemma path_at_lift_other:
  "q \<notin> Some ` (set (before ps) \<union> set (following ps)) \<Longrightarrow> path_at (lift_to q p' m) p ps = path_at m p ps"
  by (cases q) (auto simp: lift_to_def image_iff)

lemma path_at_put_child:
  assumes "path_at m (Some a) ps" "distinct (before ps @ following ps)" "a \<notin> set (before ps @ following ps)"
  shows "path_at (put_child (up ps) a p m) p ps"
  using assms
proof (cases ps rule: up.cases)
  case 1
  then show ?thesis by (simp add: put_child_def)
next
  case (2 b c r ps)
  then show ?thesis using assms by (auto simp: put_child_def RB_LEFT_def)
next
  case (3 l b c ps)
  have "peak l \<noteq> Some a" using assms(3) 3 peak_in [of l a] by auto
  then show ?thesis using assms 3 by (auto simp: put_child_def RB_LEFT_def)
qed

lemma put_child_nodes:
  "x \<notin> set (before ps @ following ps) \<Longrightarrow> rb_nodes (put_child (up ps) a p m) x = rb_nodes m x"
  by (cases ps rule: up.cases) (auto simp: put_child_def)

lemma lift_to_nodes:
  "rb_nodes (lift_to q p m) x = (if q = Some x then rb_nodes m x\<lparr>rbe_parent := p\<rparr> else rb_nodes m x)"
  by (auto simp: lift_to_def split: option.split)

lemma rb_at_put_child:
  assumes "set (addrs t) \<inter> set (before ps @ following ps) = {}"
  shows "rb_at (put_child (up ps) a p m) p' t = rb_at m p' t"
  by (rule rb_at_cong, rule put_child_nodes) (use assms in auto)

subsection \<open>Rotations and colours\<close>

lemma peak_not:
  "a \<notin> set (addrs t) \<Longrightarrow> peak t \<noteq> Some a"
  using peak_in by fastforce

lemma peak_apart:
  "set (addrs t) \<inter> A = {} \<Longrightarrow> peak t \<notin> Some ` A"
  using peak_in by fastforce

lemma focus_rotate_left:
  assumes "focus m \<langle>x, (a, c), \<langle>y, (b, d), z\<rangle>\<rangle> ps"
  shows "\<exists>m'. RB_ROTATE_LEFT a m = Some (b, m') \<and> focus m' \<langle>\<langle>x, (a, c), y\<rangle>, (b, d), z\<rangle> ps"
proof -
  note m = assms [unfolded focus_def]
  have away: "a \<noteq> b" "peak y \<noteq> Some a" "peak y \<noteq> Some b" "peak y \<notin> Some ` set (addrs x)" "peak y \<notin> Some ` set (addrs z)"
    "peak y \<notin> Some ` (set (before ps) \<union> set (following ps))" "distinct (addrs y)"
    using m by (auto simp: image_iff dest: peak_in)
  have out: "set (addrs x) \<inter> set (before ps @ following ps) = {}" "set (addrs y) \<inter> set (before ps @ following ps) = {}"
    "set (addrs z) \<inter> set (before ps @ following ps) = {}" "a \<notin> set (before ps @ following ps)" "b \<notin> set (before ps @ following ps)"
    "distinct (before ps @ following ps)"
    using m by auto
  define m3 where "m3 = put_parent b (up ps) (lift_to (peak y) (Some a) (put_right a (peak y) m))"
  define m4 where "m4 = put_child (up ps) a (Some b) m3"
  define m6 where "m6 = put_parent a (Some b) (put_left b (Some a) m4)"
  have "RB_ROTATE_LEFT a m = Some (b, m6)"
    using m away
    by (simp add: RB_ROTATE_LEFT_def get_defs m6_def m4_def m3_def lift_to_def [symmetric] lift_to_nodes Let_def)
  moreover have "rb_nodes m3 a = \<lparr>rbe_left = peak x, rbe_right = peak y, rbe_parent = up ps, rbe_color = c\<rparr>"
      "rb_nodes m3 b = \<lparr>rbe_left = peak y, rbe_right = peak z, rbe_parent = up ps, rbe_color = d\<rparr>"
    using m away by (simp_all add: m3_def lift_to_nodes)
  then have "rb_nodes m4 a = \<lparr>rbe_left = peak x, rbe_right = peak y, rbe_parent = up ps, rbe_color = c\<rparr>"
      "rb_nodes m4 b = \<lparr>rbe_left = peak y, rbe_right = peak z, rbe_parent = up ps, rbe_color = d\<rparr>"
    using out by (simp_all add: m4_def put_child_nodes)
  moreover have "rb_at m3 (Some a) x" "rb_at m3 (Some b) z" "path_at m3 (Some a) ps"
    using m away by (simp_all add: m3_def rb_at_lift_other path_at_lift_other)
  moreover have "rb_at m3 (Some a) y"
    using m away by (auto simp: m3_def intro!: rb_at_lift_to)
  ultimately show ?thesis
    using m out by (auto simp: focus_def m6_def m4_def rb_at_put_child path_at_put_child)
qed

lemma focus_rotate_right:
  assumes "focus m \<langle>\<langle>x, (b, d), y\<rangle>, (a, c), z\<rangle> ps"
  shows "\<exists>m'. RB_ROTATE_RIGHT a m = Some (b, m') \<and> focus m' \<langle>x, (b, d), \<langle>y, (a, c), z\<rangle>\<rangle> ps"
proof -
  note m = assms [unfolded focus_def]
  have away: "a \<noteq> b" "peak y \<noteq> Some a" "peak y \<noteq> Some b" "peak y \<notin> Some ` set (addrs x)" "peak y \<notin> Some ` set (addrs z)"
    "peak y \<notin> Some ` (set (before ps) \<union> set (following ps))" "distinct (addrs y)"
    using m by (auto simp: image_iff dest: peak_in)
  have out: "set (addrs x) \<inter> set (before ps @ following ps) = {}" "set (addrs y) \<inter> set (before ps @ following ps) = {}"
    "set (addrs z) \<inter> set (before ps @ following ps) = {}" "a \<notin> set (before ps @ following ps)" "b \<notin> set (before ps @ following ps)"
    "distinct (before ps @ following ps)"
    using m by auto
  define m3 where "m3 = put_parent b (up ps) (lift_to (peak y) (Some a) (put_left a (peak y) m))"
  define m4 where "m4 = put_child (up ps) a (Some b) m3"
  define m6 where "m6 = put_parent a (Some b) (put_right b (Some a) m4)"
  have "RB_ROTATE_RIGHT a m = Some (b, m6)"
    using m away
    by (simp add: RB_ROTATE_RIGHT_def get_defs m6_def m4_def m3_def lift_to_def [symmetric] lift_to_nodes Let_def)
  moreover have "rb_nodes m3 a = \<lparr>rbe_left = peak y, rbe_right = peak z, rbe_parent = up ps, rbe_color = c\<rparr>"
      "rb_nodes m3 b = \<lparr>rbe_left = peak x, rbe_right = peak y, rbe_parent = up ps, rbe_color = d\<rparr>"
    using m away by (simp_all add: m3_def lift_to_nodes)
  then have "rb_nodes m4 a = \<lparr>rbe_left = peak y, rbe_right = peak z, rbe_parent = up ps, rbe_color = c\<rparr>"
      "rb_nodes m4 b = \<lparr>rbe_left = peak x, rbe_right = peak y, rbe_parent = up ps, rbe_color = d\<rparr>"
    using out by (simp_all add: m4_def put_child_nodes)
  moreover have "rb_at m3 (Some b) x" "rb_at m3 (Some a) z" "path_at m3 (Some a) ps"
    using m away by (simp_all add: m3_def rb_at_lift_other path_at_lift_other)
  moreover have "rb_at m3 (Some a) y"
    using m away by (auto simp: m3_def intro!: rb_at_lift_to)
  ultimately show ?thesis
    using m out by (auto simp: focus_def m6_def m4_def rb_at_put_child path_at_put_child)
qed


lemma focus_color:
  "focus m \<langle>l, (a, c), r\<rangle> ps \<Longrightarrow> focus (put_color a d m) \<langle>l, (a, d), r\<rangle> ps"
  by (auto simp: focus_def)

end
