(* ===== verification/Tree_Rb_Insert.thy ===== *)
theory Tree_Rb_Insert
  imports Tree_Rb_Focus
begin

section \<open>Inserting into a red-black tree\<close>

subsection \<open>The invariants, of a tree and of the way up from a place\<close>

fun red :: "rb \<Rightarrow> bool" where
  "red \<langle>\<rangle> = False"
| "red \<langle>l, (a, c), r\<rangle> = (c = RB_RED)"

fun bh :: "rb \<Rightarrow> nat" where
  "bh \<langle>\<rangle> = 0"
| "bh \<langle>l, (a, c), r\<rangle> = bh l + (if c = RB_BLACK then 1 else 0)"

fun invh :: "rb \<Rightarrow> bool" where
  "invh \<langle>\<rangle> = True"
| "invh \<langle>l, (a, c), r\<rangle> = (bh l = bh r \<and> invh l \<and> invh r)"

fun invc :: "rb \<Rightarrow> bool" where
  "invc \<langle>\<rangle> = True"
| "invc \<langle>l, (a, c), r\<rangle> = ((c = RB_RED \<longrightarrow> \<not> red l \<and> \<not> red r) \<and> invc l \<and> invc r)"

definition rb_ok :: "rb \<Rightarrow> bool" where
  "rb_ok t \<longleftrightarrow> invh t \<and> invc t \<and> \<not> red t"

fun fits :: "nat \<Rightarrow> step list \<Rightarrow> bool" where
  "fits h [] = True"
| "fits h (Lft a c r # ps) = (bh r = h \<and> invh r \<and> fits (h + (if c = RB_BLACK then 1 else 0)) ps)"
| "fits h (Rgt l a c # ps) = (bh l = h \<and> invh l \<and> fits (h + (if c = RB_BLACK then 1 else 0)) ps)"

fun under_red :: "step list \<Rightarrow> bool" where
  "under_red [] = False"
| "under_red (Lft a c r # ps) = (c = RB_RED)"
| "under_red (Rgt l a c # ps) = (c = RB_RED)"

text \<open>Colours: no red node is the child of a red one, and the root is black.\<close>

fun shaded :: "step list \<Rightarrow> bool" where
  "shaded [] = True"
| "shaded (Lft a c r # ps) = ((c = RB_RED \<longrightarrow> \<not> red r \<and> \<not> under_red ps \<and> ps \<noteq> []) \<and> invc r \<and> shaded ps)"
| "shaded (Rgt l a c # ps) = ((c = RB_RED \<longrightarrow> \<not> red l \<and> \<not> under_red ps \<and> ps \<noteq> []) \<and> invc l \<and> shaded ps)"

lemma not_red [simp]: "c \<noteq> RB_RED \<longleftrightarrow> c = RB_BLACK"
  by (cases c) auto

lemma invh_plug: "invh (plug t ps) \<longleftrightarrow> invh t \<and> fits (bh t) ps"
  by (induction t ps rule: plug.induct) auto

lemma invc_plug: "invc (plug t ps) \<and> \<not> red (plug t ps) \<longleftrightarrow>
    invc t \<and> shaded ps \<and> (red t \<longrightarrow> \<not> under_red ps \<and> ps \<noteq> [])"
  by (induction t ps rule: plug.induct) auto

lemma rb_ok_plug: "rb_ok (plug t ps) \<longleftrightarrow>
    invh t \<and> invc t \<and> fits (bh t) ps \<and> shaded ps \<and> (red t \<longrightarrow> \<not> under_red ps \<and> ps \<noteq> [])"
  using invc_plug [of t ps] by (auto simp: rb_ok_def invh_plug)

lemma red_node_at: "rb_at m p t \<Longrightarrow> red_node m (peak t) = red t"
  by (cases t rule: red.cases) (auto simp: red_node_def RB_COLOR_def)

lemma under_red_up: "path_at m p ps \<Longrightarrow> red_node m (up ps) = under_red ps"
  by (cases ps rule: under_red.cases) (auto simp: red_node_def RB_COLOR_def)

subsection \<open>The loop body\<close>

lemma insert_left_recolor:
  assumes "focus m \<langle>\<langle>x, (p, cp), y\<rangle>, (g, c), \<langle>ul, (u, RB_RED), ur\<rangle>\<rangle> ps"
  shows "\<exists>m'. insert_color_left e p g m = Some (g, m') \<and>
    focus m' \<langle>\<langle>x, (p, RB_BLACK), y\<rangle>, (g, RB_RED), \<langle>ul, (u, RB_BLACK), ur\<rangle>\<rangle> ps"
  using assms by (auto simp: insert_color_left_def red_node_def get_defs focus_def RB_SET_BLACKRED_def)

lemma insert_right_recolor:
  assumes "focus m \<langle>\<langle>ul, (u, RB_RED), ur\<rangle>, (g, c), \<langle>x, (p, cp), y\<rangle>\<rangle> ps"
  shows "\<exists>m'. insert_color_right e p g m = Some (g, m') \<and>
    focus m' \<langle>\<langle>ul, (u, RB_BLACK), ur\<rangle>, (g, RB_RED), \<langle>x, (p, RB_BLACK), y\<rangle>\<rangle> ps"
  using assms by (auto simp: insert_color_right_def red_node_def get_defs focus_def RB_SET_BLACKRED_def)

lemma focus_blackred:
  "focus m \<langle>\<langle>x, (p, cp), y\<rangle>, (g, c), z\<rangle> ps \<Longrightarrow>
   focus (RB_SET_BLACKRED p g m) \<langle>\<langle>x, (p, RB_BLACK), y\<rangle>, (g, RB_RED), z\<rangle> ps"
  "focus m \<langle>x, (g, c), \<langle>y, (p, cp), z\<rangle>\<rangle> ps \<Longrightarrow>
   focus (RB_SET_BLACKRED p g m) \<langle>x, (g, RB_RED), \<langle>y, (p, RB_BLACK), z\<rangle>\<rangle> ps"
  by (auto simp: focus_def RB_SET_BLACKRED_def)

lemma insert_left_outer:
  assumes f: "focus m \<langle>\<langle>x, (p, cp), y\<rangle>, (g, c), z\<rangle> ps" and "\<not> red z" "peak x = Some e"
  shows "\<exists>m'. insert_color_left e p g m = Some (e, m') \<and>
    focus m' \<langle>x, (p, RB_BLACK), \<langle>y, (g, RB_RED), z\<rangle>\<rangle> ps"
proof -
  have "RB_RIGHT m g = peak z" "RB_RIGHT m p \<noteq> Some e" "\<not> red_node m (peak z)"
    using assms red_node_at [of m "Some g" z] by (auto simp: focus_def get_defs dest: peak_in)
  then show ?thesis
    using focus_rotate_right [OF focus_blackred(1) [OF f]] by (auto simp: insert_color_left_def)
qed

lemma insert_right_outer:
  assumes f: "focus m \<langle>x, (g, c), \<langle>y, (p, cp), z\<rangle>\<rangle> ps" and "\<not> red x" "peak z = Some e"
  shows "\<exists>m'. insert_color_right e p g m = Some (e, m') \<and>
    focus m' \<langle>\<langle>x, (g, RB_RED), y\<rangle>, (p, RB_BLACK), z\<rangle> ps"
proof -
  have "RB_LEFT m g = peak x" "RB_LEFT m p \<noteq> Some e" "\<not> red_node m (peak x)"
    using assms red_node_at [of m "Some g" x] by (auto simp: focus_def get_defs dest: peak_in)
  then show ?thesis
    using focus_rotate_left [OF focus_blackred(2) [OF f]] by (auto simp: insert_color_right_def)
qed

lemma insert_left_inner:
  assumes f: "focus m \<langle>\<langle>x, (p, cp), \<langle>y, (e, ce), w\<rangle>\<rangle>, (g, c), z\<rangle> ps" and "\<not> red z"
  shows "\<exists>m'. insert_color_left e p g m = Some (p, m') \<and>
    focus m' \<langle>\<langle>x, (p, cp), y\<rangle>, (e, RB_BLACK), \<langle>w, (g, RB_RED), z\<rangle>\<rangle> ps"
proof -
  have e: "RB_RIGHT m g = peak z" "RB_RIGHT m p = Some e" "\<not> red_node m (peak z)"
    using assms red_node_at [of m "Some g" z] by (auto simp: focus_def get_defs)
  obtain m1 where 1: "RB_ROTATE_LEFT p m = Some (e, m1)" "focus m1 \<langle>\<langle>\<langle>x, (p, cp), y\<rangle>, (e, ce), w\<rangle>, (g, c), z\<rangle> ps"
    using focus_rotate_left [of m x p cp y e ce w "Lft g c z # ps"] f by (auto simp: focus_left)
  then show ?thesis
    using focus_rotate_right [OF focus_blackred(1) [OF 1(2)]] e by (auto simp: insert_color_left_def)
qed

lemma insert_right_inner:
  assumes f: "focus m \<langle>x, (g, c), \<langle>\<langle>w, (e, ce), y\<rangle>, (p, cp), z\<rangle>\<rangle> ps" and "\<not> red x"
  shows "\<exists>m'. insert_color_right e p g m = Some (p, m') \<and>
    focus m' \<langle>\<langle>x, (g, RB_RED), w\<rangle>, (e, RB_BLACK), \<langle>y, (p, cp), z\<rangle>\<rangle> ps"
proof -
  have e: "RB_LEFT m g = peak x" "RB_LEFT m p = Some e" "\<not> red_node m (peak x)"
    using assms red_node_at [of m "Some g" x] by (auto simp: focus_def get_defs)
  obtain m1 where 1: "RB_ROTATE_RIGHT p m = Some (e, m1)" "focus m1 \<langle>x, (g, c), \<langle>w, (e, ce), \<langle>y, (p, cp), z\<rangle>\<rangle>\<rangle> ps"
    using focus_rotate_right [of m w e ce y p cp z "Rgt x g c # ps"] f by (auto simp: focus_right)
  then show ?thesis
    using focus_rotate_left [OF focus_blackred(2) [OF 1(2)]] e by (auto simp: insert_color_right_def)
qed

subsection \<open>The loop\<close>

text \<open>A step of the loop when parent and grandparent are known.\<close>

lemma insert_color_loop_stop:
  assumes "focus m t ps" "peak t = Some e" "\<not> under_red ps"
  shows "insert_color_loop e m = Some m"
proof -
  have "rb_nodes m e = rb_nodes m e\<lparr>rbe_parent := up ps\<rparr>"
    using assms by (cases t rule: peak.cases) (auto simp: focus_def)
  then have "RB_PARENT m e = up ps" by (metis RB_PARENT_def rb_entry.select_convs(3) rb_entry.surjective rb_entry.update_convs(3))
  moreover have "\<not> red_node m (up ps)" using assms under_red_up by (auto simp: focus_def)
  ultimately show ?thesis
    by (subst insert_color_loop.simps) (auto simp: red_node_def split: option.split)
qed

lemma insert_color_loop_left:
  assumes "focus m t ps" "peak t = Some e" "ps = s # Lft g c u # qs" "up ps = Some p" "under_red ps"
  shows "insert_color_loop e m = do { (e, m) \<leftarrow> insert_color_left e p g m; insert_color_loop e m }"
  using assms
  by (cases t rule: peak.cases; cases s; subst insert_color_loop.simps) (auto simp: focus_def get_defs)

lemma insert_color_loop_right:
  assumes "focus m t ps" "peak t = Some e" "ps = s # Rgt u g c # qs" "up ps = Some p" "under_red ps"
  shows "insert_color_loop e m = do { (e, m) \<leftarrow> insert_color_right e p g m; insert_color_loop e m }"
  using assms peak_in [of u p]
  by (cases t rule: peak.cases; cases s; subst insert_color_loop.simps) (auto simp: focus_def get_defs)


text \<open>What is true of the node that was coloured red, before the colours around it are repaired.\<close>

definition repairing :: "rb_head \<Rightarrow> nat \<Rightarrow> rb \<Rightarrow> step list \<Rightarrow> bool" where
  "repairing m e t ps \<longleftrightarrow> focus m t ps \<and> peak t = Some e \<and> invh t \<and> invc t \<and> fits (bh t) ps \<and> shaded ps"

text \<open>A loop that stops here leaves a tree whose root may still be red.\<close>

definition repaired :: "nat list \<Rightarrow> rb_head option \<Rightarrow> bool" where
  "repaired xs r \<longleftrightarrow> (\<exists>m t. r = Some m \<and> rb_tree m t \<and> addrs t = xs \<and> t \<noteq> \<langle>\<rangle> \<and> invh t \<and> invc t)"

lemma repairing_done:
  assumes "repairing m e t ps" "\<not> under_red ps"
  shows "repaired (addrs (plug t ps)) (insert_color_loop e m)"
proof -
  have "insert_color_loop e m = Some m" using assms insert_color_loop_stop by (auto simp: repairing_def)
  moreover have "invh (plug t ps)" using assms by (simp add: repairing_def invh_plug)
  moreover have "invc (plug t ps)"
    using assms rb_ok_plug [of t ps] by (cases "ps = []") (auto simp: repairing_def rb_ok_def)
  moreover have "plug t ps \<noteq> \<langle>\<rangle>" using assms addrs_plug [of t ps] peak_in [of t e] by (auto simp: repairing_def)
  ultimately show ?thesis using assms by (auto simp: repaired_def repairing_def focus_plug)
qed

text \<open>A step that ends below a black node.\<close>

lemma repairing_last:
  assumes "focus m t ps" "invh t" "invc t" "fits (bh t) ps" "shaded ps" "\<not> red t" "t = \<langle>l, (p, RB_BLACK), r\<rangle>"
    and "peak l = Some e \<or> peak r = Some e"
  shows "repaired (addrs (plug t ps)) (insert_color_loop e m)"
proof -
  have "repairing m e l (Lft p RB_BLACK r # ps) \<or> repairing m e r (Rgt l p RB_BLACK # ps)"
    using assms by (auto simp: repairing_def focus_left focus_right)
  then show ?thesis using assms(7) by (auto dest!: repairing_done)
qed

lemma insert_step_left:
  assumes rep: "repairing m e t (s # Lft g c u # qs)" and "under_red (s # Lft g c u # qs)" "red t"
  shows "(\<exists>m' t'. insert_color_loop e m = insert_color_loop g m' \<and> repairing m' g t' qs \<and> red t' \<and>
      addrs (plug t' qs) = addrs (plug t (s # Lft g c u # qs))) \<or>
    repaired (addrs (plug t (s # Lft g c u # qs))) (insert_color_loop e m)"
proof -
  obtain x y where t: "t = \<langle>x, (e, RB_RED), y\<rangle>" using assms by (cases t rule: peak.cases) (auto simp: repairing_def)
  have f: "focus m t (s # Lft g c u # qs)" using rep by (simp add: repairing_def)
  have loop: "insert_color_loop e m = do { (e, m) \<leftarrow> insert_color_left e p g m; insert_color_loop e m }"
    if "up (s # Lft g c u # qs) = Some p" for p
    using insert_color_loop_left [OF f _ refl that assms(2), of e] t by simp
  have inv: "s = Lft p pc z \<or> s = Rgt z p pc \<Longrightarrow> pc = RB_RED \<and> c = RB_BLACK \<and> invh t \<and> invc t \<and> bh z = bh t \<and> invh z \<and> \<not> red z \<and> invc z \<and>
      bh u = bh t \<and> invh u \<and> invc u \<and> fits (bh t + 1) qs \<and> shaded qs" for p pc z
    using rep assms(2) by (cases c) (auto simp: repairing_def)
  show ?thesis
  proof (cases s)
    case s: (Lft p pc z)
    show ?thesis
    proof (cases "red u")
      case True
      then obtain ul ua ur where u: "u = \<langle>ul, (ua, RB_RED), ur\<rangle>" by (cases u rule: red.cases) auto
      obtain m' where "insert_color_left e p g m = Some (g, m')" "focus m' \<langle>\<langle>t, (p, RB_BLACK), z\<rangle>, (g, RB_RED), \<langle>ul, (ua, RB_BLACK), ur\<rangle>\<rangle> qs"
        using insert_left_recolor [of m t p RB_RED z g c ul ua ur qs e] f s u inv [of p pc z] by (auto simp: focus_left focus_right)
      then have "insert_color_loop e m = insert_color_loop g m' \<and> repairing m' g \<langle>\<langle>t, (p, RB_BLACK), z\<rangle>, (g, RB_RED), \<langle>ul, (ua, RB_BLACK), ur\<rangle>\<rangle> qs"
        using loop [of p] inv [of p pc z] s u t by (auto simp: repairing_def)
      then show ?thesis using s u by (intro disjI1 exI [of _ m'] exI [of _ "\<langle>\<langle>t, (p, RB_BLACK), z\<rangle>, (g, RB_RED), \<langle>ul, (ua, RB_BLACK), ur\<rangle>\<rangle>"]) (auto simp: addrs_plug)
    next
      case False
      obtain m' where m': "insert_color_left e p g m = Some (e, m')" "focus m' \<langle>t, (p, RB_BLACK), \<langle>z, (g, RB_RED), u\<rangle>\<rangle> qs"
        using insert_left_outer [of m t p RB_RED z g c u qs e] f s False t inv [of p pc z] by (auto simp: focus_left focus_right)
      have "repaired (addrs (plug \<langle>t, (p, RB_BLACK), \<langle>z, (g, RB_RED), u\<rangle>\<rangle> qs)) (insert_color_loop e m')"
        by (rule repairing_last [OF m'(2), where p = p and e = e]) (use inv [of p pc z] s False t in auto)
      then show ?thesis using m'(1) loop [of p] s t by (simp add: addrs_plug)
    qed
  next
    case s: (Rgt z p pc)
    show ?thesis
    proof (cases "red u")
      case True
      then obtain ul ua ur where u: "u = \<langle>ul, (ua, RB_RED), ur\<rangle>" by (cases u rule: red.cases) auto
      obtain m' where "insert_color_left e p g m = Some (g, m')" "focus m' \<langle>\<langle>z, (p, RB_BLACK), t\<rangle>, (g, RB_RED), \<langle>ul, (ua, RB_BLACK), ur\<rangle>\<rangle> qs"
        using insert_left_recolor [of m z p RB_RED t g c ul ua ur qs e] f s u inv [of p pc z] by (auto simp: focus_left focus_right)
      then have "insert_color_loop e m = insert_color_loop g m' \<and> repairing m' g \<langle>\<langle>z, (p, RB_BLACK), t\<rangle>, (g, RB_RED), \<langle>ul, (ua, RB_BLACK), ur\<rangle>\<rangle> qs"
        using loop [of p] inv [of p pc z] s u t by (auto simp: repairing_def)
      then show ?thesis using s u by (intro disjI1 exI [of _ m'] exI [of _ "\<langle>\<langle>z, (p, RB_BLACK), t\<rangle>, (g, RB_RED), \<langle>ul, (ua, RB_BLACK), ur\<rangle>\<rangle>"]) (auto simp: addrs_plug)
    next
      case False
      obtain m' where m': "insert_color_left e p g m = Some (p, m')" "focus m' \<langle>\<langle>z, (p, RB_RED), x\<rangle>, (e, RB_BLACK), \<langle>y, (g, RB_RED), u\<rangle>\<rangle> qs"
        using insert_left_inner [of m z p RB_RED x e RB_RED y g c u qs] f s False t inv [of p pc z] by (auto simp: focus_left focus_right)
      have "repaired (addrs (plug \<langle>\<langle>z, (p, RB_RED), x\<rangle>, (e, RB_BLACK), \<langle>y, (g, RB_RED), u\<rangle>\<rangle> qs)) (insert_color_loop p m')"
        by (rule repairing_last [OF m'(2), where p = e and e = p]) (use inv [of p pc z] s False t in auto)
      then show ?thesis using m'(1) loop [of p] s t by (simp add: addrs_plug)
    qed
  qed
qed

lemma insert_step_right:
  assumes rep: "repairing m e t (s # Rgt u g c # qs)" and "under_red (s # Rgt u g c # qs)" "red t"
  shows "(\<exists>m' t'. insert_color_loop e m = insert_color_loop g m' \<and> repairing m' g t' qs \<and> red t' \<and>
      addrs (plug t' qs) = addrs (plug t (s # Rgt u g c # qs))) \<or>
    repaired (addrs (plug t (s # Rgt u g c # qs))) (insert_color_loop e m)"
proof -
  obtain x y where t: "t = \<langle>x, (e, RB_RED), y\<rangle>" using assms by (cases t rule: peak.cases) (auto simp: repairing_def)
  have f: "focus m t (s # Rgt u g c # qs)" using rep by (simp add: repairing_def)
  have loop: "insert_color_loop e m = do { (e, m) \<leftarrow> insert_color_right e p g m; insert_color_loop e m }"
    if "up (s # Rgt u g c # qs) = Some p" for p
    using insert_color_loop_right [OF f _ refl that assms(2), of e] t by simp
  have inv: "s = Lft p pc z \<or> s = Rgt z p pc \<Longrightarrow> pc = RB_RED \<and> c = RB_BLACK \<and> invh t \<and> invc t \<and> bh z = bh t \<and> invh z \<and> \<not> red z \<and> invc z \<and>
      bh u = bh t \<and> invh u \<and> invc u \<and> fits (bh t + 1) qs \<and> shaded qs" for p pc z
    using rep assms(2) by (cases c) (auto simp: repairing_def)
  show ?thesis
  proof (cases s)
    case s: (Lft p pc z)
    show ?thesis
    proof (cases "red u")
      case True
      then obtain ul ua ur where u: "u = \<langle>ul, (ua, RB_RED), ur\<rangle>" by (cases u rule: red.cases) auto
      obtain m' where "insert_color_right e p g m = Some (g, m')" "focus m' \<langle>\<langle>ul, (ua, RB_BLACK), ur\<rangle>, (g, RB_RED), \<langle>t, (p, RB_BLACK), z\<rangle>\<rangle> qs"
        using insert_right_recolor [of m ul ua ur g c t p RB_RED z qs e] f s u inv [of p pc z] by (auto simp: focus_left focus_right)
      then have "insert_color_loop e m = insert_color_loop g m' \<and> repairing m' g \<langle>\<langle>ul, (ua, RB_BLACK), ur\<rangle>, (g, RB_RED), \<langle>t, (p, RB_BLACK), z\<rangle>\<rangle> qs"
        using loop [of p] inv [of p pc z] s u t by (auto simp: repairing_def)
      then show ?thesis using s u by (intro disjI1 exI [of _ m'] exI [of _ "\<langle>\<langle>ul, (ua, RB_BLACK), ur\<rangle>, (g, RB_RED), \<langle>t, (p, RB_BLACK), z\<rangle>\<rangle>"]) (auto simp: addrs_plug)
    next
      case False
      obtain m' where m': "insert_color_right e p g m = Some (p, m')" "focus m' \<langle>\<langle>u, (g, RB_RED), x\<rangle>, (e, RB_BLACK), \<langle>y, (p, RB_RED), z\<rangle>\<rangle> qs"
        using insert_right_inner [of m u g c x e RB_RED y p RB_RED z qs] f s False t inv [of p pc z] by (auto simp: focus_left focus_right)
      have "repaired (addrs (plug \<langle>\<langle>u, (g, RB_RED), x\<rangle>, (e, RB_BLACK), \<langle>y, (p, RB_RED), z\<rangle>\<rangle> qs)) (insert_color_loop p m')"
        by (rule repairing_last [OF m'(2), where p = e and e = p]) (use inv [of p pc z] s False t in auto)
      then show ?thesis using m'(1) loop [of p] s t by (simp add: addrs_plug)
    qed
  next
    case s: (Rgt z p pc)
    show ?thesis
    proof (cases "red u")
      case True
      then obtain ul ua ur where u: "u = \<langle>ul, (ua, RB_RED), ur\<rangle>" by (cases u rule: red.cases) auto
      obtain m' where "insert_color_right e p g m = Some (g, m')" "focus m' \<langle>\<langle>ul, (ua, RB_BLACK), ur\<rangle>, (g, RB_RED), \<langle>z, (p, RB_BLACK), t\<rangle>\<rangle> qs"
        using insert_right_recolor [of m ul ua ur g c z p RB_RED t qs e] f s u inv [of p pc z] by (auto simp: focus_left focus_right)
      then have "insert_color_loop e m = insert_color_loop g m' \<and> repairing m' g \<langle>\<langle>ul, (ua, RB_BLACK), ur\<rangle>, (g, RB_RED), \<langle>z, (p, RB_BLACK), t\<rangle>\<rangle> qs"
        using loop [of p] inv [of p pc z] s u t by (auto simp: repairing_def)
      then show ?thesis using s u by (intro disjI1 exI [of _ m'] exI [of _ "\<langle>\<langle>ul, (ua, RB_BLACK), ur\<rangle>, (g, RB_RED), \<langle>z, (p, RB_BLACK), t\<rangle>\<rangle>"]) (auto simp: addrs_plug)
    next
      case False
      obtain m' where m': "insert_color_right e p g m = Some (e, m')" "focus m' \<langle>\<langle>u, (g, RB_RED), z\<rangle>, (p, RB_BLACK), t\<rangle> qs"
        using insert_right_outer [of m u g c z p RB_RED t qs e] f s False t inv [of p pc z] by (auto simp: focus_left focus_right)
      have "repaired (addrs (plug \<langle>\<langle>u, (g, RB_RED), z\<rangle>, (p, RB_BLACK), t\<rangle> qs)) (insert_color_loop e m')"
        by (rule repairing_last [OF m'(2), where p = p and e = e]) (use inv [of p pc z] s False t in auto)
      then show ?thesis using m'(1) loop [of p] s t by (simp add: addrs_plug)
    qed
  qed
qed

lemma insert_color_loop_ok:
  "repairing m e t ps \<Longrightarrow> red t \<Longrightarrow> repaired (addrs (plug t ps)) (insert_color_loop e m)"
proof (induction "length ps" arbitrary: m e t ps rule: less_induct)
  case less
  show ?case
  proof (cases "under_red ps")
    case False
    then show ?thesis using repairing_done less.prems(1) by blast
  next
    case True
    then obtain s g qs where ps: "ps = s # g # qs"
      using less.prems(1) by (cases ps rule: under_red.cases; cases "tl ps") (auto simp: repairing_def)
    have IH: "repairing m' e' t' qs \<Longrightarrow> red t' \<Longrightarrow> repaired (addrs (plug t' qs)) (insert_color_loop e' m')" for m' e' t'
      using less.hyps ps by simp
    show ?thesis
    proof (cases g)
      case (Lft a c u)
      then show ?thesis using insert_step_left [of m e t s a c u qs] less.prems True ps IH by metis
    next
      case (Rgt u a c)
      then show ?thesis using insert_step_right [of m e t s u a c qs] less.prems True ps IH by metis
    qed
  qed
qed


lemma RB_INSERT_COLOR_ok:
  assumes "repairing m e t ps" "red t"
  shows "\<exists>m' t'. RB_INSERT_COLOR e m = Some m' \<and> rb_tree m' t' \<and> addrs t' = addrs (plug t ps) \<and> rb_ok t'"
proof -
  obtain m1 t1 where 1: "insert_color_loop e m = Some m1" "rb_tree m1 t1" "addrs t1 = addrs (plug t ps)"
    "t1 \<noteq> \<langle>\<rangle>" "invh t1" "invc t1"
    using insert_color_loop_ok [OF assms] by (auto simp: repaired_def)
  obtain l a c r where t1: "t1 = \<langle>l, (a, c), r\<rangle>" using 1(4) by (cases t1 rule: peak.cases) auto
  have "rb_tree (put_color a RB_BLACK m1) \<langle>l, (a, RB_BLACK), r\<rangle>"
    using focus_color [of m1 l a c r "[]"] 1(2) t1 by (simp add: focus_tree)
  moreover have "RB_INSERT_COLOR e m = Some (put_color a RB_BLACK m1)"
    using 1(1,2) t1 by (simp add: RB_INSERT_COLOR_def RB_ROOT_def rb_tree_def)
  ultimately show ?thesis
    using 1(3,5,6) t1
    by (intro exI [of _ "put_color a RB_BLACK m1"] exI [of _ "\<langle>l, (a, RB_BLACK), r\<rangle>"]) (auto simp: rb_ok_def)
qed

subsection \<open>Looking for the place\<close>

fun leftwards :: "step list \<Rightarrow> bool" where
  "leftwards (Lft a c r # ps) = True"
| "leftwards _ = False"

definition around :: "(nat \<Rightarrow> 'k::linorder) \<Rightarrow> nat \<Rightarrow> step list \<Rightarrow> bool" where
  "around key e ps \<longleftrightarrow> (\<forall>x \<in> set (before ps). key x < key e) \<and> (\<forall>x \<in> set (following ps). key e < key x)"

lemma insert_search_ok:
  assumes "cmp_by key cmp"
    and "focus m t ps" "around key e ps" "in_order key (addrs t)" "ps \<noteq> [] \<longrightarrow> (order < 0 \<longleftrightarrow> leftwards ps)"
  shows "(\<exists>x \<in> set (addrs t). key x = key e \<and> insert_search cmp e m (up ps) (peak t) order = Some (Inl x)) \<or>
    (\<forall>x \<in> set (addrs t). key x \<noteq> key e) \<and>
    (\<exists>qs order'. insert_search cmp e m (up ps) (peak t) order = Some (Inr (up qs, order')) \<and>
      plug \<langle>\<rangle> qs = plug t ps \<and> around key e qs \<and> (qs \<noteq> [] \<longrightarrow> (order' < 0 \<longleftrightarrow> leftwards qs)))"
  using assms(2-)
proof (induction t arbitrary: ps order rule: addrs.induct)
  case 1
  then show ?case by (subst (1 2) insert_search.simps) auto
next
  case (2 l a c r)
  have n: "RB_LEFT m a = peak l" "RB_RIGHT m a = peak r" using 2(3) by (auto simp: focus_def get_defs)
  have cmp: "cmp e a < 0 \<longleftrightarrow> key e < key a" "cmp e a > 0 \<longleftrightarrow> key e > key a"
    using assms(1) by (auto simp: cmp_by_def)
  consider "key e < key a" | "key e > key a" | "key e = key a" by force
  then show ?case
  proof cases
    case l: 1
    have "insert_search cmp e m (up ps) (Some a) order = insert_search cmp e m (Some a) (peak l) (cmp e a)"
      using l n cmp by (subst insert_search.simps) simp
    moreover have "around key e (Lft a c r # ps)"
      using 2(4,5) l by (force simp: around_def sorted_wrt_append)
    moreover have "\<forall>x \<in> set (a # addrs r). key x \<noteq> key e" using 2(5) l by (force simp: sorted_wrt_append)
    ultimately show ?thesis
      using 2(1) [of "Lft a c r # ps" "cmp e a"] 2(3,5) l cmp by (auto simp: focus_left sorted_wrt_append)
  next
    case r: 2
    have "insert_search cmp e m (up ps) (Some a) order = insert_search cmp e m (Some a) (peak r) (cmp e a)"
      using r n cmp by (subst insert_search.simps) simp
    moreover have "around key e (Rgt l a c # ps)"
      using 2(4,5) r by (force simp: around_def sorted_wrt_append)
    moreover have "\<forall>x \<in> set (a # addrs l). key x \<noteq> key e" using 2(5) r by (force simp: sorted_wrt_append)
    ultimately show ?thesis
      using 2(2) [of "Rgt l a c # ps" "cmp e a"] 2(3,5) r cmp by (auto simp: focus_right sorted_wrt_append)
  next
    case 3
    then show ?thesis using cmp by (subst insert_search.simps) auto
  qed
qed

subsection \<open>A new leaf\<close>

definition attach :: "nat option \<Rightarrow> int \<Rightarrow> nat \<Rightarrow> rb_head \<Rightarrow> rb_head" where
  "attach parent order elm m =
     (case parent of
        Some p \<Rightarrow> if order < 0 then put_left p (Some elm) m else put_right p (Some elm) m
      | None \<Rightarrow> m\<lparr>rbh_root := Some elm\<rparr>)"

lemma focus_attach:
  assumes "focus m \<langle>\<rangle> ps" "e \<notin> set (before ps @ following ps)" "ps \<noteq> [] \<longrightarrow> (order < 0 \<longleftrightarrow> leftwards ps)"
  shows "focus (attach (up ps) order e (RB_SET e (up ps) m)) \<langle>\<langle>\<rangle>, (e, RB_RED), \<langle>\<rangle>\<rangle> ps"
  using assms
  by (cases ps rule: up.cases) (auto simp: focus_def attach_def RB_SET_def)

definition rb_set :: "(nat \<Rightarrow> 'k::linorder) \<Rightarrow> rb_head \<Rightarrow> nat list \<Rightarrow> bool" where
  "rb_set key m xs \<longleftrightarrow> (\<exists>t. rb_tree m t \<and> rb_ok t \<and> addrs t = xs) \<and> in_order key xs"

lemma RB_INSERT_present:
  assumes "cmp_by key cmp" "rb_set key m xs" "x \<in> set xs" "key x = key e"
  shows "RB_INSERT cmp e m = Some (Some x, m)"
proof -
  obtain t where t: "rb_tree m t" "rb_ok t" "addrs t = xs" "in_order key xs" using assms(2) by (auto simp: rb_set_def)
  obtain y where y: "y \<in> set xs" "key y = key e" "insert_search cmp e m None (peak t) 0 = Some (Inl y)"
    using insert_search_ok [OF assms(1), of m t "[]" e 0] t assms(3,4) by (auto simp: focus_tree around_def)
  have "y = x"
    using y(1,2) assms(3,4) t(4) by (metis in_set_conv_nth linorder_neqE_nat order_less_irrefl sorted_wrt_iff_nth_less)
  then show ?thesis using y(3) t(1) by (simp add: RB_INSERT_def RB_ROOT_def rb_tree_def)
qed

lemma RB_INSERT_new:
  assumes "cmp_by key cmp" "rb_set key m xs" "\<forall>x \<in> set xs. key x \<noteq> key e"
  shows "\<exists>m'. RB_INSERT cmp e m = Some (None, m') \<and> rb_set key m' (insort_key key e xs)"
proof -
  obtain t where t: "rb_tree m t" "rb_ok t" "addrs t = xs" "in_order key xs" using assms(2) by (auto simp: rb_set_def)
  obtain qs order where q: "insert_search cmp e m None (peak t) 0 = Some (Inr (up qs, order))" "plug \<langle>\<rangle> qs = t"
    "around key e qs" "qs \<noteq> [] \<longrightarrow> (order < 0 \<longleftrightarrow> leftwards qs)"
    using insert_search_ok [OF assms(1), of m t "[]" e 0] t assms(3) by (auto simp: focus_tree around_def)
  have xs: "xs = before qs @ following qs" using addrs_plug [of "\<langle>\<rangle>" qs] q(2) t(3) by simp
  define m1 where "m1 = attach (up qs) order e (RB_SET e (up qs) m)"
  have "e \<notin> set xs" using assms(3) by auto
  then have "focus m1 \<langle>\<langle>\<rangle>, (e, RB_RED), \<langle>\<rangle>\<rangle> qs"
    unfolding m1_def using focus_attach [of m qs e order] q(2,4) t(1) xs by (simp add: focus_plug)
  moreover have "fits 0 qs" "shaded qs" using rb_ok_plug [of "\<langle>\<rangle>" qs] q(2) t(2) by auto
  ultimately obtain m' t' where 1: "RB_INSERT_COLOR e m1 = Some m'" "rb_tree m' t'"
    "addrs t' = before qs @ e # following qs" "rb_ok t'"
    using RB_INSERT_COLOR_ok [of m1 e "\<langle>\<langle>\<rangle>, (e, RB_RED), \<langle>\<rangle>\<rangle>" qs] by (auto simp: repairing_def addrs_plug)
  have ins: "insort_key key e xs = before qs @ e # following qs"
    unfolding xs by (rule insort_between) (use q(3) in \<open>auto simp: around_def\<close>)
  have "in_order key (insort_key key e xs)"
    using t(4) q(3) unfolding ins unfolding xs by (force simp: around_def sorted_wrt_append)
  then show ?thesis
    using 1 q(1) t(1) ins by (auto simp: RB_INSERT_def RB_ROOT_def rb_tree_def rb_set_def m1_def attach_def)
qed

end
