(* ===== verification/Tree_Rb_Remove.thy ===== *)
theory Tree_Rb_Remove
  imports Tree_Rb_Insert
begin

section \<open>Removing from a red-black tree\<close>

subsection \<open>Repairing the colours\<close>

fun blacken :: "rb \<Rightarrow> rb" where
  "blacken \<langle>\<rangle> = \<langle>\<rangle>"
| "blacken \<langle>l, (a, c), r\<rangle> = \<langle>l, (a, RB_BLACK), r\<rangle>"

lemma blacken_same [simp]: "\<not> red t \<Longrightarrow> blacken t = t"
  by (cases t rule: blacken.cases) auto

lemma addrs_blacken [simp]: "addrs (blacken t) = addrs t"
  by (cases t rule: blacken.cases) auto

text \<open>The sibling \<open>s\<close> is black: either it turns red, or rotations end the repair.\<close>

definition sibling_ok :: "rb \<Rightarrow> rb \<Rightarrow> bool" where
  "sibling_ok t s \<longleftrightarrow> invh t \<and> invc t \<and> \<not> red t \<and> invh s \<and> invc s \<and> bh s = bh t + 1"

definition ended :: "rb_head \<Rightarrow> nat list \<Rightarrow> nat \<Rightarrow> rb_color \<Rightarrow> step list \<Rightarrow> bool" where
  "ended m xs h c ps \<longleftrightarrow> (\<exists>u. focus m u ps \<and> addrs u = xs \<and> invh u \<and> invc u \<and>
     bh u = h + 1 + (if c = RB_BLACK then 1 else 0) \<and> (red u \<longrightarrow> c = RB_RED))"

lemma repaint_left_black:
  assumes "focus m \<langle>t, (p, c), \<langle>x, (s, RB_BLACK), y\<rangle>\<rangle> ps" "\<not> red x" "\<not> red y"
  shows "\<exists>m'. remove_repaint_left p s m = Some (False, m') \<and> focus m' \<langle>t, (p, c), \<langle>x, (s, RB_RED), y\<rangle>\<rangle> ps"
  using assms red_node_at [of m "Some s" x] red_node_at [of m "Some s" y]
  by (auto simp: remove_repaint_left_def get_defs focus_def)

lemma repaint_left_far:
  assumes f: "focus m \<langle>t, (p, c), \<langle>x, (s, RB_BLACK), y\<rangle>\<rangle> ps" and "red y"
    and "sibling_ok t \<langle>x, (s, RB_BLACK), y\<rangle>"
  shows "\<exists>m'. remove_repaint_left p s m = Some (True, m') \<and> ended m' (addrs t @ p # addrs x @ s # addrs y) (bh t) c ps"
proof -
  obtain y1 d y2 where y: "y = \<langle>y1, (d, RB_RED), y2\<rangle>" using assms(2) by (cases y rule: red.cases) auto
  define m1 where "m1 = put_color d RB_BLACK (put_color p RB_BLACK (put_color s c m))"
  have "focus m1 \<langle>t, (p, RB_BLACK), \<langle>x, (s, c), \<langle>y1, (d, RB_BLACK), y2\<rangle>\<rangle>\<rangle> ps"
    using f by (auto simp: focus_def m1_def y)
  then obtain m' where m': "RB_ROTATE_LEFT p m1 = Some (s, m')"
    "focus m' \<langle>\<langle>t, (p, RB_BLACK), x\<rangle>, (s, c), \<langle>y1, (d, RB_BLACK), y2\<rangle>\<rangle> ps"
    using focus_rotate_left by blast
  have "remove_repaint_left p s m = Some (True, m')"
    using f m'(1) y by (auto simp: remove_repaint_left_def get_defs focus_def m1_def red_node_def)
  then show ?thesis
    using m'(2) assms(3) y by (auto simp: ended_def sibling_ok_def intro!: exI [of _ "\<langle>\<langle>t, (p, RB_BLACK), x\<rangle>, (s, c), \<langle>y1, (d, RB_BLACK), y2\<rangle>\<rangle>"])
qed

lemma repaint_left_near:
  assumes f: "focus m \<langle>t, (p, c), \<langle>x, (s, RB_BLACK), y\<rangle>\<rangle> ps" and "red x" "\<not> red y"
    and "sibling_ok t \<langle>x, (s, RB_BLACK), y\<rangle>"
  shows "\<exists>m'. remove_repaint_left p s m = Some (True, m') \<and> ended m' (addrs t @ p # addrs x @ s # addrs y) (bh t) c ps"
proof -
  obtain x1 a x2 where x: "x = \<langle>x1, (a, RB_RED), x2\<rangle>" using assms(2) by (cases x rule: red.cases) auto
  define m1 where "m1 = put_color s RB_RED (put_color a RB_BLACK m)"
  have "focus m1 \<langle>\<langle>x1, (a, RB_BLACK), x2\<rangle>, (s, RB_RED), y\<rangle> (Rgt t p c # ps)"
    using f by (auto simp: focus_def m1_def x)
  then obtain m2 where m2: "RB_ROTATE_RIGHT s m1 = Some (a, m2)"
    "focus m2 \<langle>t, (p, c), \<langle>x1, (a, RB_BLACK), \<langle>x2, (s, RB_RED), y\<rangle>\<rangle>\<rangle> ps"
    using focus_rotate_right focus_right by blast
  define m3 where "m3 = put_color s RB_BLACK (put_color p RB_BLACK (put_color a c m2))"
  have "focus m3 \<langle>t, (p, RB_BLACK), \<langle>x1, (a, c), \<langle>x2, (s, RB_BLACK), y\<rangle>\<rangle>\<rangle> ps"
    using m2(2) by (auto simp: focus_def m3_def)
  then obtain m' where m': "RB_ROTATE_LEFT p m3 = Some (a, m')"
    "focus m' \<langle>\<langle>t, (p, RB_BLACK), x1\<rangle>, (a, c), \<langle>x2, (s, RB_BLACK), y\<rangle>\<rangle> ps"
    using focus_rotate_left by blast
  have "RB_LEFT m s = Some a" "RB_RIGHT m s = peak y" "red_node m (Some a)" "\<not> red_node m (peak y)"
    "RB_RIGHT m2 p = Some a" "RB_COLOR m2 p = c" "RB_RIGHT m2 a = Some s"
    using f m2(2) x assms(3) red_node_at [of m "Some s" y] by (auto simp: focus_def get_defs red_node_def)
  then have "remove_repaint_left p s m = Some (True, m')"
    using m2(1) m'(1) m2(2)
    by (simp add: remove_repaint_left_def m1_def [symmetric]) (simp add: m3_def get_defs focus_def)
  then show ?thesis
    using m'(2) assms(4) x by (auto simp: ended_def sibling_ok_def intro!: exI [of _ "\<langle>\<langle>t, (p, RB_BLACK), x1\<rangle>, (a, c), \<langle>x2, (s, RB_BLACK), y\<rangle>\<rangle>"])
qed


lemma repaint_right_black:
  assumes "focus m \<langle>\<langle>x, (s, RB_BLACK), y\<rangle>, (p, c), t\<rangle> ps" "\<not> red x" "\<not> red y"
  shows "\<exists>m'. remove_repaint_right p s m = Some (False, m') \<and> focus m' \<langle>\<langle>x, (s, RB_RED), y\<rangle>, (p, c), t\<rangle> ps"
  using assms red_node_at [of m "Some s" x] red_node_at [of m "Some s" y]
  by (auto simp: remove_repaint_right_def get_defs focus_def)

lemma repaint_right_far:
  assumes f: "focus m \<langle>\<langle>x, (s, RB_BLACK), y\<rangle>, (p, c), t\<rangle> ps" and "red x"
    and "sibling_ok t \<langle>x, (s, RB_BLACK), y\<rangle>"
  shows "\<exists>m'. remove_repaint_right p s m = Some (True, m') \<and> ended m' (addrs x @ s # addrs y @ p # addrs t) (bh t) c ps"
proof -
  obtain x1 d x2 where x: "x = \<langle>x1, (d, RB_RED), x2\<rangle>" using assms(2) by (cases x rule: red.cases) auto
  define m1 where "m1 = put_color d RB_BLACK (put_color p RB_BLACK (put_color s c m))"
  have "focus m1 \<langle>\<langle>\<langle>x1, (d, RB_BLACK), x2\<rangle>, (s, c), y\<rangle>, (p, RB_BLACK), t\<rangle> ps"
    using f by (auto simp: focus_def m1_def x)
  then obtain m' where m': "RB_ROTATE_RIGHT p m1 = Some (s, m')"
    "focus m' \<langle>\<langle>x1, (d, RB_BLACK), x2\<rangle>, (s, c), \<langle>y, (p, RB_BLACK), t\<rangle>\<rangle> ps"
    using focus_rotate_right by blast
  have "remove_repaint_right p s m = Some (True, m')"
    using f m'(1) x by (auto simp: remove_repaint_right_def get_defs focus_def m1_def red_node_def)
  then show ?thesis
    using m'(2) assms(3) x by (auto simp: ended_def sibling_ok_def intro!: exI [of _ "\<langle>\<langle>x1, (d, RB_BLACK), x2\<rangle>, (s, c), \<langle>y, (p, RB_BLACK), t\<rangle>\<rangle>"])
qed

lemma repaint_right_near:
  assumes f: "focus m \<langle>\<langle>x, (s, RB_BLACK), y\<rangle>, (p, c), t\<rangle> ps" and "\<not> red x" "red y"
    and "sibling_ok t \<langle>x, (s, RB_BLACK), y\<rangle>"
  shows "\<exists>m'. remove_repaint_right p s m = Some (True, m') \<and> ended m' (addrs x @ s # addrs y @ p # addrs t) (bh t) c ps"
proof -
  obtain y1 a y2 where y: "y = \<langle>y1, (a, RB_RED), y2\<rangle>" using assms(3) by (cases y rule: red.cases) auto
  define m1 where "m1 = put_color s RB_RED (put_color a RB_BLACK m)"
  have "focus m1 \<langle>x, (s, RB_RED), \<langle>y1, (a, RB_BLACK), y2\<rangle>\<rangle> (Lft p c t # ps)"
    using f by (auto simp: focus_def m1_def y)
  then obtain m2 where m2: "RB_ROTATE_LEFT s m1 = Some (a, m2)"
    "focus m2 \<langle>\<langle>\<langle>x, (s, RB_RED), y1\<rangle>, (a, RB_BLACK), y2\<rangle>, (p, c), t\<rangle> ps"
    using focus_rotate_left focus_left by blast
  define m3 where "m3 = put_color s RB_BLACK (put_color p RB_BLACK (put_color a c m2))"
  have "focus m3 \<langle>\<langle>\<langle>x, (s, RB_BLACK), y1\<rangle>, (a, c), y2\<rangle>, (p, RB_BLACK), t\<rangle> ps"
    using m2(2) by (auto simp: focus_def m3_def)
  then obtain m' where m': "RB_ROTATE_RIGHT p m3 = Some (a, m')"
    "focus m' \<langle>\<langle>x, (s, RB_BLACK), y1\<rangle>, (a, c), \<langle>y2, (p, RB_BLACK), t\<rangle>\<rangle> ps"
    using focus_rotate_right by blast
  have "RB_RIGHT m s = Some a" "RB_LEFT m s = peak x" "red_node m (Some a)" "\<not> red_node m (peak x)"
    "RB_LEFT m2 p = Some a" "RB_COLOR m2 p = c" "RB_LEFT m2 a = Some s"
    using f m2(2) y assms(2) red_node_at [of m "Some s" x] by (auto simp: focus_def get_defs red_node_def)
  then have "remove_repaint_right p s m = Some (True, m')"
    using m2(1) m'(1) m2(2)
    by (simp add: remove_repaint_right_def m1_def [symmetric]) (simp add: m3_def get_defs focus_def)
  then show ?thesis
    using m'(2) assms(4) y by (auto simp: ended_def sibling_ok_def intro!: exI [of _ "\<langle>\<langle>x, (s, RB_BLACK), y1\<rangle>, (a, c), \<langle>y2, (p, RB_BLACK), t\<rangle>\<rangle>"])
qed

text \<open>The whole loop body: the repair ends, or the lack of a black node moves up; a red sibling is rotated away first.\<close>

definition moved_up :: "rb_head \<Rightarrow> nat list \<Rightarrow> nat \<Rightarrow> nat \<Rightarrow> rb_color \<Rightarrow> step list \<Rightarrow> bool" where
  "moved_up m xs p h c ps \<longleftrightarrow> (\<exists>u. focus m u ps \<and> addrs u = xs \<and> peak u = Some p \<and> invh u \<and> invc (blacken u) \<and>
     bh u = h + (if c = RB_BLACK then 1 else 0) \<and> (red u \<longleftrightarrow> c = RB_RED))"

definition black_sibling_done :: "(bool \<times> rb_head) option \<Rightarrow> nat list \<Rightarrow> nat \<Rightarrow> nat \<Rightarrow> rb_color \<Rightarrow> step list \<Rightarrow> bool" where
  "black_sibling_done r xs p h c ps \<longleftrightarrow> (\<exists>b m'. r = Some (b, m') \<and> (if b then ended m' xs h c ps else moved_up m' xs p h c ps))"

lemma bh_pos: "bh s = Suc n \<Longrightarrow> \<not> red s \<Longrightarrow> \<exists>x a y. s = \<langle>x, (a, RB_BLACK), y\<rangle>"
  by (cases s rule: red.cases) auto

lemma repaint_left_done:
  assumes f: "focus m \<langle>t, (p, c), \<langle>x, (s, RB_BLACK), y\<rangle>\<rangle> ps" and ok: "sibling_ok t \<langle>x, (s, RB_BLACK), y\<rangle>"
  shows "black_sibling_done (remove_repaint_left p s m) (addrs t @ p # addrs x @ s # addrs y) p (bh t) c ps"
proof -
  consider "\<not> red x" "\<not> red y" | "red y" | "red x" "\<not> red y" by blast
  then show ?thesis
  proof cases
    case 1
    obtain m' where m': "remove_repaint_left p s m = Some (False, m')" "focus m' \<langle>t, (p, c), \<langle>x, (s, RB_RED), y\<rangle>\<rangle> ps"
      using repaint_left_black [OF f 1] by blast
    then have "moved_up m' (addrs t @ p # addrs x @ s # addrs y) p (bh t) c ps"
      using ok 1 by (auto simp: moved_up_def sibling_ok_def intro!: exI [of _ "\<langle>t, (p, c), \<langle>x, (s, RB_RED), y\<rangle>\<rangle>"])
    then show ?thesis using m'(1) by (auto simp: black_sibling_done_def)
  qed (use repaint_left_far [OF f _ ok] repaint_left_near [OF f _ _ ok] in \<open>auto simp: black_sibling_done_def\<close>)
qed

lemma repaint_right_done:
  assumes f: "focus m \<langle>\<langle>x, (s, RB_BLACK), y\<rangle>, (p, c), t\<rangle> ps" and ok: "sibling_ok t \<langle>x, (s, RB_BLACK), y\<rangle>"
  shows "black_sibling_done (remove_repaint_right p s m) (addrs x @ s # addrs y @ p # addrs t) p (bh t) c ps"
proof -
  consider "\<not> red x" "\<not> red y" | "red x" | "\<not> red x" "red y" by blast
  then show ?thesis
  proof cases
    case 1
    obtain m' where m': "remove_repaint_right p s m = Some (False, m')" "focus m' \<langle>\<langle>x, (s, RB_RED), y\<rangle>, (p, c), t\<rangle> ps"
      using repaint_right_black [OF f 1] by blast
    then have "moved_up m' (addrs x @ s # addrs y @ p # addrs t) p (bh t) c ps"
      using ok 1 by (auto simp: moved_up_def sibling_ok_def intro!: exI [of _ "\<langle>\<langle>x, (s, RB_RED), y\<rangle>, (p, c), t\<rangle>"])
    then show ?thesis using m'(1) by (auto simp: black_sibling_done_def)
  qed (use repaint_right_far [OF f _ ok] repaint_right_near [OF f _ _ ok] in \<open>auto simp: black_sibling_done_def\<close>)
qed

lemma remove_left_black:
  assumes "focus m \<langle>t, (p, c), s\<rangle> ps" "sibling_ok t s" "\<not> red s"
  shows "black_sibling_done (remove_color_left p m) (addrs t @ p # addrs s) p (bh t) c ps"
proof -
  obtain x a y where s: "s = \<langle>x, (a, RB_BLACK), y\<rangle>" using assms bh_pos [of s "bh t"] by (auto simp: sibling_ok_def)
  have "remove_color_left p m = remove_repaint_left p a m"
    using assms(1) s by (simp add: remove_color_left_def get_defs focus_def)
  then show ?thesis using repaint_left_done assms s by simp
qed

lemma remove_right_black:
  assumes "focus m \<langle>s, (p, c), t\<rangle> ps" "sibling_ok t s" "\<not> red s"
  shows "black_sibling_done (remove_color_right p m) (addrs s @ p # addrs t) p (bh t) c ps"
proof -
  obtain x a y where s: "s = \<langle>x, (a, RB_BLACK), y\<rangle>" using assms bh_pos [of s "bh t"] by (auto simp: sibling_ok_def)
  have "remove_color_right p m = remove_repaint_right p a m"
    using assms(1) s by (simp add: remove_color_right_def get_defs focus_def)
  then show ?thesis using repaint_right_done assms s by simp
qed

lemma remove_left_red:
  assumes f: "focus m \<langle>t, (p, c), \<langle>x, (a, RB_RED), y\<rangle>\<rangle> ps" and ok: "sibling_ok t \<langle>x, (a, RB_RED), y\<rangle>"
  shows "black_sibling_done (remove_color_left p m) (addrs t @ p # addrs x) p (bh t) RB_RED (Lft a RB_BLACK y # ps)"
proof -
  obtain m1 where m1: "RB_ROTATE_LEFT p (RB_SET_BLACKRED a p m) = Some (a, m1)"
    "focus m1 \<langle>t, (p, RB_RED), x\<rangle> (Lft a RB_BLACK y # ps)"
    using focus_rotate_left [OF focus_blackred(2) [OF f]] by (auto simp: focus_left)
  have ok': "sibling_ok t x" "\<not> red x" using ok by (auto simp: sibling_ok_def)
  obtain x1 b x2 where x: "x = \<langle>x1, (b, RB_BLACK), x2\<rangle>" using ok' bh_pos [of x "bh t"] by (auto simp: sibling_ok_def)
  have "remove_color_left p m = remove_repaint_left p b m1"
    using f m1 x by (simp add: remove_color_left_def get_defs focus_def)
  then show ?thesis using repaint_left_done m1(2) ok' x by simp
qed

lemma remove_right_red:
  assumes f: "focus m \<langle>\<langle>x, (a, RB_RED), y\<rangle>, (p, c), t\<rangle> ps" and ok: "sibling_ok t \<langle>x, (a, RB_RED), y\<rangle>"
  shows "black_sibling_done (remove_color_right p m) (addrs y @ p # addrs t) p (bh t) RB_RED (Rgt x a RB_BLACK # ps)"
proof -
  obtain m1 where m1: "RB_ROTATE_RIGHT p (RB_SET_BLACKRED a p m) = Some (a, m1)"
    "focus m1 \<langle>y, (p, RB_RED), t\<rangle> (Rgt x a RB_BLACK # ps)"
    using focus_rotate_right [OF focus_blackred(1) [OF f]] by (auto simp: focus_right)
  have ok': "sibling_ok t y" "\<not> red y" using ok by (auto simp: sibling_ok_def)
  obtain y1 b y2 where y: "y = \<langle>y1, (b, RB_BLACK), y2\<rangle>" using ok' bh_pos [of y "bh t"] by (auto simp: sibling_ok_def)
  have "remove_color_right p m = remove_repaint_right p b m1"
    using f m1 y by (simp add: remove_color_right_def get_defs focus_def)
  then show ?thesis using repaint_right_done m1(2) ok' y by simp
qed


subsection \<open>The loop\<close>

text \<open>The subtree \<open>t\<close> has one black node too few on every way; below, the loop has done its work up to the last line.\<close>

definition lacking :: "rb_head \<Rightarrow> rb \<Rightarrow> step list \<Rightarrow> bool" where
  "lacking m t ps \<longleftrightarrow> focus m t ps \<and> invh t \<and> invc (blacken t) \<and> fits (bh t + 1) ps \<and> shaded ps"

definition restored :: "nat list \<Rightarrow> (nat option \<times> rb_head) option \<Rightarrow> bool" where
  "restored xs r \<longleftrightarrow> (\<exists>m t ps. r = Some (peak t, m) \<and> focus m t ps \<and> addrs (plug t ps) = xs \<and> rb_ok (plug (blacken t) ps))"

lemma path_root: "path_at m q ps \<Longrightarrow> ps \<noteq> [] \<Longrightarrow> rbh_root m \<in> Some ` set (before ps @ following ps)"
proof (induction m q ps rule: path_at.induct)
  case (2 m p a c r ps)
  then show ?case by (cases "ps = []") auto
next
  case (3 m p l a c ps)
  then show ?case by (cases "ps = []") auto
qed simp

lemma invh_blacken [simp]: "invh (blacken t) = invh t"
  by (cases t rule: blacken.cases) auto

lemma bh_blacken: "bh (blacken t) = bh t + (if red t then 1 else 0)"
  by (cases t rule: blacken.cases) auto

lemma red_blacken [simp]: "\<not> red (blacken t)"
  by (cases t rule: blacken.cases) auto

lemma lacking_done:
  assumes "lacking m t ps" "red t \<or> ps = []"
  shows "restored (addrs (plug t ps)) (remove_color_loop (up ps) (peak t) m)"
proof -
  have "red_node m (peak t) = red t" using assms(1) red_node_at by (auto simp: lacking_def focus_def)
  moreover have "ps = [] \<Longrightarrow> RB_ROOT m = peak t" using assms(1) by (simp add: lacking_def focus_def RB_ROOT_def)
  ultimately have "remove_color_loop (up ps) (peak t) m = Some (peak t, m)"
    using assms(2) by (subst remove_color_loop.simps) auto
  moreover have "rb_ok (plug (blacken t) ps)"
    using assms by (auto simp: rb_ok_plug lacking_def bh_blacken)
  ultimately show ?thesis using assms(1) by (auto simp: restored_def lacking_def)
qed

lemma ended_restored:
  assumes "ended m xs h c ps" "fits (h + 1 + (if c = RB_BLACK then 1 else 0)) ps" "shaded ps"
    "c = RB_RED \<longrightarrow> \<not> under_red ps \<and> ps \<noteq> []"
  shows "restored (before ps @ xs @ following ps) (Some (RB_ROOT m, m))"
proof -
  obtain u where u: "focus m u ps" "addrs u = xs" "invh u" "invc u" "bh u = h + 1 + (if c = RB_BLACK then 1 else 0)"
    "red u \<longrightarrow> c = RB_RED" using assms(1) by (auto simp: ended_def)
  have t: "rb_tree m (plug u ps)" using u(1) by (simp add: focus_plug)
  have "rb_ok (plug u ps)" using u assms(2-) by (auto simp: rb_ok_plug simp del: not_red)
  moreover from this have "blacken (plug u ps) = plug u ps" by (simp add: rb_ok_def)
  ultimately show ?thesis
    using t u(2) by (auto simp: restored_def RB_ROOT_def rb_tree_def focus_tree addrs_plug
        intro!: exI [of _ "plug u ps"] exI [of _ "[]"])
qed

lemma loop_continues:
  assumes r: "black_sibling_done r xs p h c ps"
    and p: "fits (h + 1 + (if c = RB_BLACK then 1 else 0)) ps" "shaded ps" "c = RB_RED \<longrightarrow> \<not> under_red ps \<and> ps \<noteq> []"
    and again: "\<And>m u. lacking m u ps \<Longrightarrow> addrs u = xs \<Longrightarrow> peak u = Some p \<Longrightarrow> (red u \<longleftrightarrow> c = RB_RED) \<Longrightarrow>
      restored (before ps @ xs @ following ps) (remove_color_loop (up ps) (Some p) m)"
  shows "restored (before ps @ xs @ following ps)
    (do { (break, m) \<leftarrow> r; if break then Some (RB_ROOT m, m) else remove_color_loop (RB_PARENT m p) (Some p) m })"
proof -
  obtain b m' where b: "r = Some (b, m')" "if b then ended m' xs h c ps else moved_up m' xs p h c ps"
    using r by (auto simp: black_sibling_done_def)
  show ?thesis
  proof (cases b)
    case True
    then show ?thesis using b ended_restored p by simp
  next
    case False
    then obtain u where u: "focus m' u ps" "addrs u = xs" "peak u = Some p" "invh u" "invc (blacken u)"
      "bh u = h + (if c = RB_BLACK then 1 else 0)" "red u \<longleftrightarrow> c = RB_RED" using b(2) by (auto simp: moved_up_def simp del: not_red)
    have "RB_PARENT m' p = up ps" using u(1,3) by (cases u rule: peak.cases) (auto simp: focus_def RB_PARENT_def)
    moreover have "lacking m' u ps" using u p by (simp add: lacking_def add.commute)
    ultimately show ?thesis using again u b(1) False by simp
  qed
qed

lemma loop_not_done:
  assumes lack: "lacking m t (g # qs)" and nr: "\<not> red t"
  shows "remove_color_loop (up (g # qs)) (peak t) m = do {
    p \<leftarrow> up (g # qs);
    (break, m) \<leftarrow> (if RB_LEFT m p = peak t then remove_color_left p m else remove_color_right p m);
    if break then Some (RB_ROOT m, m) else remove_color_loop (RB_PARENT m p) (Some p) m }"
proof -
  have "\<not> red_node m (peak t)" using lack nr red_node_at by (auto simp: lacking_def focus_def)
  moreover have "peak t \<noteq> RB_ROOT m"
  proof
    assume "peak t = RB_ROOT m"
    then have "peak t \<in> Some ` set (before (g # qs) @ following (g # qs))"
      using path_root [of m "peak t" "g # qs"] lack by (auto simp: lacking_def focus_def RB_ROOT_def)
    then show False using peak_in [of t] lack by (fastforce simp: lacking_def focus_def)
  qed
  ultimately show ?thesis by (subst remove_color_loop.simps) simp
qed

lemma remove_step_left:
  assumes lack: "lacking m t (Lft p c s # qs)" and nr: "\<not> red t"
    and IH: "\<And>m' u. lacking m' u qs \<Longrightarrow> restored (addrs (plug u qs)) (remove_color_loop (up qs) (peak u) m')"
  shows "restored (addrs (plug t (Lft p c s # qs))) (remove_color_loop (Some p) (peak t) m)"
proof -
  note prems = lack [unfolded lacking_def]
  have f: "focus m \<langle>t, (p, c), s\<rangle> qs" using prems by (simp add: focus_left)
  have ok: "sibling_ok t s" using prems nr by (auto simp: sibling_ok_def)
  have side: "RB_LEFT m p = peak t" using prems by (auto simp: focus_def RB_LEFT_def)
  note loop = loop_not_done [OF lack nr, simplified, unfolded if_P [OF side]]
  show ?thesis
  proof (cases "red s")
    case True
    then obtain x b y where s: "s = \<langle>x, (b, RB_RED), y\<rangle>" by (cases s rule: red.cases) auto
    have c: "c = RB_BLACK" using prems True by (cases c) auto
    have "restored (before (Lft b RB_BLACK y # qs) @ (addrs t @ p # addrs x) @ following (Lft b RB_BLACK y # qs)) (remove_color_loop (Some p) (peak t) m)"
      unfolding loop
    proof (rule loop_continues [OF remove_left_red])
      fix m' u
      assume "lacking m' u (Lft b RB_BLACK y # qs)" "addrs u = addrs t @ p # addrs x" "peak u = Some p" "red u \<longleftrightarrow> RB_RED = RB_RED"
      then show "restored (before (Lft b RB_BLACK y # qs) @ (addrs t @ p # addrs x) @ following (Lft b RB_BLACK y # qs))
          (remove_color_loop (up (Lft b RB_BLACK y # qs)) (Some p) m')"
        using lacking_done [of m' u "Lft b RB_BLACK y # qs"] by (simp add: addrs_plug)
    qed (use f ok s c prems nr in auto)
    then show ?thesis using s by (simp add: addrs_plug)
  next
    case False
    have "restored (before qs @ (addrs t @ p # addrs s) @ following qs) (remove_color_loop (Some p) (peak t) m)"
      unfolding loop
    proof (rule loop_continues [OF remove_left_black [OF f ok False]])
      fix m' u
      assume "lacking m' u qs" "addrs u = addrs t @ p # addrs s" "peak u = Some p"
      then show "restored (before qs @ (addrs t @ p # addrs s) @ following qs) (remove_color_loop (up qs) (Some p) m')"
        using IH [of m' u] by (simp add: addrs_plug)
    qed (use prems in auto)
    then show ?thesis by (simp add: addrs_plug)
  qed
qed

lemma remove_step_right:
  assumes lack: "lacking m t (Rgt s p c # qs)" and nr: "\<not> red t"
    and IH: "\<And>m' u. lacking m' u qs \<Longrightarrow> restored (addrs (plug u qs)) (remove_color_loop (up qs) (peak u) m')"
  shows "restored (addrs (plug t (Rgt s p c # qs))) (remove_color_loop (Some p) (peak t) m)"
proof -
  note prems = lack [unfolded lacking_def]
  have f: "focus m \<langle>s, (p, c), t\<rangle> qs" using prems by (simp add: focus_right)
  have ok: "sibling_ok t s" using prems nr by (auto simp: sibling_ok_def)
  have "RB_LEFT m p = peak s" using prems by (auto simp: focus_def RB_LEFT_def)
  moreover have "peak s \<noteq> peak t"
    using ok f peak_in [of s] peak_in [of t] by (cases s rule: peak.cases) (auto simp: sibling_ok_def focus_def)
  ultimately have side: "\<not> RB_LEFT m p = peak t" by simp
  note loop = loop_not_done [OF lack nr, simplified, unfolded if_not_P [OF side]]
  show ?thesis
  proof (cases "red s")
    case True
    then obtain x b y where s: "s = \<langle>x, (b, RB_RED), y\<rangle>" by (cases s rule: red.cases) auto
    have c: "c = RB_BLACK" using prems True by (cases c) auto
    have "restored (before (Rgt x b RB_BLACK # qs) @ (addrs y @ p # addrs t) @ following (Rgt x b RB_BLACK # qs)) (remove_color_loop (Some p) (peak t) m)"
      unfolding loop
    proof (rule loop_continues [OF remove_right_red])
      fix m' u
      assume "lacking m' u (Rgt x b RB_BLACK # qs)" "addrs u = addrs y @ p # addrs t" "peak u = Some p" "red u \<longleftrightarrow> RB_RED = RB_RED"
      then show "restored (before (Rgt x b RB_BLACK # qs) @ (addrs y @ p # addrs t) @ following (Rgt x b RB_BLACK # qs))
          (remove_color_loop (up (Rgt x b RB_BLACK # qs)) (Some p) m')"
        using lacking_done [of m' u "Rgt x b RB_BLACK # qs"] by (simp add: addrs_plug)
    qed (use f ok s c prems nr in auto)
    then show ?thesis using s by (simp add: addrs_plug)
  next
    case False
    have "restored (before qs @ (addrs s @ p # addrs t) @ following qs) (remove_color_loop (Some p) (peak t) m)"
      unfolding loop
    proof (rule loop_continues [OF remove_right_black [OF f ok False]])
      fix m' u
      assume "lacking m' u qs" "addrs u = addrs s @ p # addrs t" "peak u = Some p"
      then show "restored (before qs @ (addrs s @ p # addrs t) @ following qs) (remove_color_loop (up qs) (Some p) m')"
        using IH [of m' u] by (simp add: addrs_plug)
    qed (use prems in auto)
    then show ?thesis by (simp add: addrs_plug)
  qed
qed

lemma remove_color_loop_ok:
  "lacking m t ps \<Longrightarrow> restored (addrs (plug t ps)) (remove_color_loop (up ps) (peak t) m)"
proof (induction "length ps" arbitrary: m t ps rule: less_induct)
  case less
  show ?case
  proof (cases "red t \<or> ps = []")
    case True
    then show ?thesis using lacking_done less.prems by blast
  next
    case False
    have IH: "lacking m' u (tl ps) \<Longrightarrow> restored (addrs (plug u (tl ps))) (remove_color_loop (up (tl ps)) (peak u) m')" for m' u
      using less.hyps False by simp
    show ?thesis
      using remove_step_left remove_step_right less.prems IH False by (cases ps rule: up.cases) auto
  qed
qed

lemma RB_REMOVE_COLOR_ok:
  assumes "lacking m t ps"
  shows "\<exists>m' t'. RB_REMOVE_COLOR (up ps) (peak t) m = Some m' \<and> rb_tree m' t' \<and> rb_ok t' \<and> addrs t' = addrs (plug t ps)"
proof -
  obtain m1 u qs where 1: "remove_color_loop (up ps) (peak t) m = Some (peak u, m1)" "focus m1 u qs"
    "addrs (plug u qs) = addrs (plug t ps)" "rb_ok (plug (blacken u) qs)"
    using remove_color_loop_ok [OF assms] by (auto simp: restored_def)
  define m' where "m' = (case peak u of Some x \<Rightarrow> put_color x RB_BLACK m1 | None \<Rightarrow> m1)"
  have "focus m' (blacken u) qs"
    using 1(2) focus_color by (cases u rule: peak.cases) (auto simp: m'_def)
  moreover have "RB_REMOVE_COLOR (up ps) (peak t) m = Some m'" using 1(1) by (simp add: RB_REMOVE_COLOR_def m'_def)
  ultimately show ?thesis using 1(3,4) by (auto simp: focus_plug addrs_plug)
qed

subsection \<open>Taking a node out\<close>

lemma splice_out_focus:
  assumes f: "focus m \<langle>l, (a, c), r\<rangle> ps" and "l = \<langle>\<rangle> \<and> t = r \<or> r = \<langle>\<rangle> \<and> t = l"
  shows "focus (splice_out (up ps) a (peak t) m) t ps" "rb_nodes (splice_out (up ps) a (peak t) m) a = rb_nodes m a"
proof -
  define m1 where "m1 = lift_to (peak t) (up ps) m"
  have s: "splice_out (up ps) a (peak t) m = put_child (up ps) a (peak t) m1"
    by (simp add: splice_out_def m1_def lift_to_def)
  have t: "rb_at m (Some a) t" "a \<notin> set (addrs t)" "distinct (addrs t)" "set (addrs t) \<inter> set (before ps @ following ps) = {}"
    "a \<notin> set (before ps @ following ps)" "path_at m (Some a) ps" "distinct (before ps @ following ps)"
    using assms by (auto simp: focus_def)
  have away: "peak t \<noteq> Some a" "peak t \<notin> Some ` (set (before ps) \<union> set (following ps))"
    using t(2,4) by (auto dest: peak_in)
  have "rb_at m1 (up ps) t" unfolding m1_def using t rb_at_lift_to by blast
  moreover have "path_at m1 (Some a) ps" unfolding m1_def using t(6) away path_at_lift_other by blast
  ultimately show "focus (splice_out (up ps) a (peak t) m) t ps"
    using t by (auto simp: s focus_def rb_at_put_child path_at_put_child)
  show "rb_nodes (splice_out (up ps) a (peak t) m) a = rb_nodes m a"
    using t(5) away(1) by (simp add: s put_child_nodes m1_def lift_to_nodes)
qed

lemma replace_node_focus:
  assumes f: "focus m \<langle>l, (a, c), r\<rangle> ps" and x: "x \<notin> set (addrs \<langle>l, (a, c), r\<rangle> @ before ps @ following ps)" and "l \<noteq> \<langle>\<rangle>"
  shows "\<exists>m'. replace_node a x m = Some m' \<and> focus m' \<langle>l, (x, c), r\<rangle> ps"
proof -
  define m1 where "m1 = m\<lparr>rb_nodes := (rb_nodes m)(x := rb_nodes m a)\<rparr>"
  define m2 where "m2 = put_child (up ps) a (Some x) m1"
  define m3 where "m3 = lift_to (peak r) (Some x) (lift_to (peak l) (Some x) m2)"
  have a: "rb_nodes m a = \<lparr>rbe_left = peak l, rbe_right = peak r, rbe_parent = up ps, rbe_color = c\<rparr>"
    using f by (simp add: focus_def)
  have dist: "a \<notin> set (addrs l)" "a \<notin> set (addrs r)" "a \<notin> set (before ps @ following ps)" "distinct (addrs l)" "distinct (addrs r)"
    "set (addrs l) \<inter> set (addrs r) = {}" "set (addrs l) \<inter> set (before ps @ following ps) = {}"
    "set (addrs r) \<inter> set (before ps @ following ps) = {}" "distinct (before ps @ following ps)" "x \<noteq> a"
    "x \<notin> set (addrs l)" "x \<notin> set (addrs r)" "x \<notin> set (before ps @ following ps)"
    using f x by (auto simp: focus_def)
  have away: "peak l \<notin> Some ` set (addrs r)" "peak r \<notin> Some ` set (addrs l)" "peak l \<noteq> Some x" "peak r \<noteq> Some x"
    "peak l \<noteq> Some a" "peak r \<noteq> Some a"
    "peak l \<notin> Some ` (set (before ps) \<union> set (following ps))" "peak r \<notin> Some ` (set (before ps) \<union> set (following ps))"
    using dist by (auto dest: peak_in)
  have m1: "rb_at m1 (Some a) l" "rb_at m1 (Some a) r" "path_at m1 (Some a) ps"
    using f dist by (simp_all add: focus_def m1_def)
  then have m2: "rb_at m2 (Some a) l" "rb_at m2 (Some a) r" "path_at m2 (Some x) ps"
    using dist by (simp_all add: m2_def rb_at_put_child path_at_put_child)
  have n2: "rb_nodes m2 a = rb_nodes m a" "rb_nodes m2 x = rb_nodes m a"
    using dist by (simp_all add: m2_def put_child_nodes m1_def)
  have "rb_at (lift_to (peak l) (Some x) m2) (Some x) l" by (rule rb_at_lift_to [OF m2(1) dist(4)])
  then have "rb_at m3 (Some x) l" unfolding m3_def by (simp only: rb_at_lift_other [OF away(2)])
  moreover have "rb_at (lift_to (peak l) (Some x) m2) (Some a) r" using m2(2) by (simp only: rb_at_lift_other [OF away(1)])
  then have "rb_at m3 (Some x) r" unfolding m3_def by (rule rb_at_lift_to [OF _ dist(5)])
  moreover have "path_at m3 (Some x) ps" 
    unfolding m3_def using m2(3) by (simp only: path_at_lift_other [OF away(7)] path_at_lift_other [OF away(8)])
  moreover have "rb_nodes m3 x = rb_nodes m a" using away n2 by (simp add: m3_def lift_to_nodes)
  moreover obtain b where b: "peak l = Some b" using \<open>l \<noteq> \<langle>\<rangle>\<close> by (cases l rule: peak.cases) auto
  then have m3: "m3 = lift_to (peak r) (Some x) (put_parent b (Some x) m2)" by (simp add: m3_def lift_to_def)
  have "RB_PARENT m1 a = up ps" "RB_LEFT m2 a = Some b" "RB_RIGHT (put_parent b (Some x) m2) a = peak r"
    using a b n2(1) dist(10) by (auto simp: get_defs m1_def)
  then have "replace_node a x m = Some m3"
    unfolding replace_node_def m3 lift_to_def m1_def [symmetric] Let_def by (simp only: m2_def [symmetric] bind.bind_lunit)
  ultimately show ?thesis
    using f x a by (simp add: focus_def)
qed


subsection \<open>Removal\<close>

text \<open>A way straight down to the left.\<close>

fun all_left :: "step list \<Rightarrow> bool" where
  "all_left [] = True"
| "all_left (Lft a c r # ps) = all_left ps"
| "all_left (Rgt l a c # ps) = False"

lemma plug_append: "plug t (qs @ ps) = plug (plug t qs) ps"
  by (induction t qs rule: plug.induct) auto

lemma leftmost_ok:
  "rb_at m q t \<Longrightarrow> peak t = Some a \<Longrightarrow>
   \<exists>qs x c r. leftmost m a = Some x \<and> t = plug \<langle>\<langle>\<rangle>, (x, c), r\<rangle> qs \<and> all_left qs"
proof (induction t arbitrary: q a rule: addrs.induct)
  case (2 l b c r)
  show ?case
  proof (cases l rule: peak.cases)
    case 1
    then have "leftmost m a = Some a" using 2(3,4) by (subst leftmost.simps) (simp add: RB_LEFT_def)
    then show ?thesis using 1 2(4) by (intro exI [of _ "[]"] exI [of _ a]) auto
  next
    case (2 l' b' c' r')
    then obtain qs x d r'' where i: "leftmost m b' = Some x" "l = plug \<langle>\<langle>\<rangle>, (x, d), r''\<rangle> qs" "all_left qs"
      using "2.IH"(1) [of "Some b" b'] "2.prems" by auto
    have "leftmost m a = Some x" using "2.prems" 2 i(1) by (subst leftmost.simps) (simp add: RB_LEFT_def)
    moreover have "\<langle>l, (b, c), r\<rangle> = plug \<langle>\<langle>\<rangle>, (x, d), r''\<rangle> (qs @ [Lft b c r])" using i(2) by (simp add: plug_append)
    moreover have "all_left (qs @ [Lft b c r])" using i(3) by (induction qs rule: all_left.induct) auto
    ultimately show ?thesis by blast
  qed
qed simp

lemma augment_ok: "path_at m q ps \<Longrightarrow> up ps = Some p \<Longrightarrow> augment_loop m p = Some ()"
proof (induction m q ps arbitrary: p rule: path_at.induct)
  case (2 m q a c r ps)
  then show ?case by (cases "up ps"; subst augment_loop.simps) (auto simp: RB_PARENT_def)
next
  case (3 m q l a c ps)
  then show ?case by (cases "up ps"; subst augment_loop.simps) (auto simp: RB_PARENT_def)
qed simp

text \<open>Which node stands above a place does not matter for the colours.\<close>

lemma other_node:
  "fits h (qs @ Rgt l a c # ps) = fits h (qs @ Rgt l b c # ps)"
  "under_red (qs @ Rgt l a c # ps) = under_red (qs @ Rgt l b c # ps)"
  "shaded (qs @ Rgt l a c # ps) = shaded (qs @ Rgt l b c # ps)"
proof -
  show u: "under_red (qs @ Rgt l a c # ps) = under_red (qs @ Rgt l b c # ps)" for qs
    by (cases qs rule: under_red.cases) auto
  show "fits h (qs @ Rgt l a c # ps) = fits h (qs @ Rgt l b c # ps)"
    by (induction h qs rule: fits.induct) auto
  show "shaded (qs @ Rgt l a c # ps) = shaded (qs @ Rgt l b c # ps)"
    by (induction qs rule: shaded.induct) (simp_all add: u)
qed

lemma before_append: "before (qs @ ps) = before ps @ before qs"
  by (induction qs rule: before.induct) auto

lemma behind_append: "following (qs @ ps) = following qs @ following ps"
  by (induction qs rule: following.induct) auto

lemma up_append: "up (qs @ ps) = (if qs = [] then up ps else up qs)"
  by (cases qs rule: up.cases) auto

lemma up_plug: "up qs = Some p \<Longrightarrow> p \<in> set (addrs (plug t qs))"
  by (cases qs rule: up.cases) (auto simp: addrs_plug)

text \<open>After a node was spliced out: the last part of the function.\<close>

lemma remove_finish:
  assumes "focus m t ps" and "rb_ok (plug \<langle>l, (a, c), r\<rangle> ps)" and t: "l = \<langle>\<rangle> \<and> t = r \<or> r = \<langle>\<rangle> \<and> t = l"
  shows "\<exists>m' t'. (if c = RB_BLACK then RB_REMOVE_COLOR (up ps) (peak t) m else Some m) = Some m' \<and>
    rb_tree m' t' \<and> rb_ok t' \<and> addrs t' = addrs (plug t ps)"
proof -
  have ok: "invh t" "invc t" "fits (bh t + (if c = RB_BLACK then 1 else 0)) ps" "shaded ps" "c = RB_RED \<longrightarrow> \<not> red t"
    using assms(2) t by (auto simp: rb_ok_plug)
  show ?thesis
  proof (cases c)
    case RB_BLACK
    have "invc (blacken t)" using ok(2) by (cases t rule: blacken.cases) auto
    then have "lacking m t ps" using assms(1) ok RB_BLACK by (simp add: lacking_def)
    then show ?thesis using RB_REMOVE_COLOR_ok RB_BLACK by auto
  next
    case RB_RED
    then have "rb_ok (plug t ps)" using ok by (simp add: rb_ok_plug)
    then show ?thesis using assms(1) RB_RED by (auto simp: focus_plug)
  qed
qed

lemma remove_one_child:
  assumes f: "focus m \<langle>l, (a, c), r\<rangle> ps" and ok: "rb_ok (plug \<langle>l, (a, c), r\<rangle> ps)" and "l = \<langle>\<rangle> \<or> r = \<langle>\<rangle>"
  shows "\<exists>m' t'. RB_REMOVE a m = Some (a, m') \<and> rb_tree m' t' \<and> rb_ok t' \<and> addrs t' = before ps @ addrs l @ addrs r @ following ps"
proof -
  define t where "t = (if l = \<langle>\<rangle> then r else l)"
  have t: "l = \<langle>\<rangle> \<and> t = r \<or> r = \<langle>\<rangle> \<and> t = l" using assms(3) by (auto simp: t_def)
  define m1 where "m1 = splice_out (up ps) a (peak t) m"
  obtain m' t' where r: "(if c = RB_BLACK then RB_REMOVE_COLOR (up ps) (peak t) m1 else Some m1) = Some m'"
    "rb_tree m' t'" "rb_ok t'" "addrs t' = addrs (plug t ps)"
    using remove_finish [OF splice_out_focus(1) [OF f t] ok t] unfolding m1_def by blast
  have "RB_LEFT m a = peak l" "RB_RIGHT m a = peak r" "RB_COLOR m a = c" "RB_PARENT m a = up ps"
    using f by (simp_all add: focus_def get_defs)
  moreover have "peak l = None \<longleftrightarrow> l = \<langle>\<rangle>" "peak r = None \<longleftrightarrow> r = \<langle>\<rangle>"
    by (cases l rule: peak.cases; simp) (cases r rule: peak.cases; simp)
  ultimately have "RB_REMOVE a m = Some (a, m')"
    using r(1) t by (auto simp: RB_REMOVE_def m1_def Let_def split: if_splits)
  then show ?thesis using r t by (auto simp: addrs_plug)
qed

lemma remove_two_children:
  assumes f: "focus m \<langle>l, (a, c), r\<rangle> ps" and ok: "rb_ok (plug \<langle>l, (a, c), r\<rangle> ps)" and "l \<noteq> \<langle>\<rangle>" "r \<noteq> \<langle>\<rangle>"
  shows "\<exists>m' t'. RB_REMOVE a m = Some (a, m') \<and> rb_tree m' t' \<and> rb_ok t' \<and> addrs t' = before ps @ addrs l @ addrs r @ following ps"
proof -
  obtain b where b: "peak r = Some b" using assms(4) by (cases r rule: peak.cases) auto
  have "rb_at m (Some a) r" using f by (simp add: focus_def)
  then obtain qs x d y where x: "leftmost m b = Some x" "r = plug \<langle>\<langle>\<rangle>, (x, d), y\<rangle> qs" "all_left qs"
    using leftmost_ok [OF _ b] by blast
  define us where "us = qs @ Rgt l a c # ps"
  define vs where "vs = qs @ Rgt l x c # ps"
  have fx: "focus m \<langle>\<langle>\<rangle>, (x, d), y\<rangle> us" using f by (simp add: us_def focus_plug plug_append x(2))
  define m1 where "m1 = splice_out (up us) x (peak y) m"
  have m1: "focus m1 y us" "rb_nodes m1 x = rb_nodes m x"
    unfolding m1_def using splice_out_focus [OF fx] by auto
  have "focus m1 \<langle>l, (a, c), plug y qs\<rangle> ps" using m1(1) by (simp add: us_def focus_plug plug_append)
  moreover have "x \<notin> set (addrs \<langle>l, (a, c), plug y qs\<rangle> @ before ps @ following ps)"
    using f by (auto simp: focus_def x(2) addrs_plug)
  ultimately obtain m2 where m2: "replace_node a x m1 = Some m2" "focus m2 \<langle>l, (x, c), plug y qs\<rangle> ps"
    using replace_node_focus assms(3) by blast
  have fy: "focus m2 y vs" using m2(2) by (simp add: vs_def focus_plug plug_append)
  have same: "plug \<langle>l, (a, c), r\<rangle> ps = plug \<langle>\<langle>\<rangle>, (x, d), y\<rangle> us" by (simp add: us_def plug_append x(2))
  have vs: "fits h vs = fits h us" "under_red vs = under_red us" "shaded vs = shaded us" "vs \<noteq> []" "us \<noteq> []" for h
    unfolding us_def vs_def by (rule other_node)+ simp_all
  have "rb_ok (plug \<langle>\<langle>\<rangle>, (x, d), y\<rangle> vs)"
    using ok unfolding same rb_ok_plug vs(1-3) by (simp only: vs(4,5) simp_thms) blast
  then obtain m' t' where r: "(if d = RB_BLACK then RB_REMOVE_COLOR (up vs) (peak y) m2 else Some m2) = Some m'"
    "rb_tree m' t'" "rb_ok t'" "addrs t' = addrs (plug y vs)"
    using remove_finish [OF fy] by blast
  have nodes: "RB_LEFT m a = peak l" "RB_RIGHT m a = Some b" "RB_RIGHT m x = peak y" "RB_PARENT m x = up us" "RB_COLOR m x = d"
    using f fx b by (simp_all add: focus_def get_defs)
  have "a \<notin> set (addrs r)" using f by (simp add: focus_def)
  then have p: "up vs = (if up us = Some a then Some x else up us)"
    using up_plug [of qs a "\<langle>\<langle>\<rangle>, (x, d), y\<rangle>"] x(2) by (auto simp: us_def vs_def up_append)
  have "\<exists>p. up vs = Some p" by (cases qs rule: up.cases) (auto simp: vs_def)
  then have aug: "(case up vs of Some p \<Rightarrow> augment_loop m2 p | None \<Rightarrow> Some ()) = Some ()"
    using augment_ok fy by (auto simp: focus_def)
  have two: "\<not> (RB_LEFT m a = None \<or> RB_RIGHT m a = None)"
    using nodes(1,2) assms(3) by (cases l rule: peak.cases) auto
  have par: "(if RB_PARENT m1 x = Some a then Some x else up us) = up vs"
    using p nodes(4) m1(2) by (simp add: RB_PARENT_def)
  have "RB_REMOVE a m = Some (a, m')"
    unfolding RB_REMOVE_def Let_def if_not_P [OF two]
    unfolding nodes(2) bind.bind_lunit x(1) nodes(3-5) m1_def [symmetric] par m2(1) aug prod.case r(1) ..
  moreover have "addrs t' = before ps @ addrs l @ addrs r @ following ps"
  proof -
    have "before qs = []" using x(3) by (induction qs rule: all_left.induct) auto
    then show ?thesis using r(4) x(2) by (simp add: addrs_plug vs_def before_append behind_append)
  qed
  ultimately show ?thesis using r(2,3) by blast
qed


lemma split_at_node:
  "a \<in> set (addrs t) \<Longrightarrow> \<exists>l c r ps. t = plug \<langle>l, (a, c), r\<rangle> ps"
proof (induction t rule: addrs.induct)
  case (2 l b c r)
  then consider "a \<in> set (addrs l)" | "a = b" | "a \<in> set (addrs r)" by auto
  then show ?case
  proof cases
    case 1
    then obtain l' c' r' ps where "l = plug \<langle>l', (a, c'), r'\<rangle> ps" using 2 by blast
    then have "\<langle>l, (b, c), r\<rangle> = plug \<langle>l', (a, c'), r'\<rangle> (ps @ [Lft b c r])" by (simp add: plug_append)
    then show ?thesis by blast
  next
    case 2
    then have "\<langle>l, (b, c), r\<rangle> = plug \<langle>l, (a, c), r\<rangle> []" by simp
    then show ?thesis by blast
  next
    case 3
    then obtain l' c' r' ps where "r = plug \<langle>l', (a, c'), r'\<rangle> ps" using 2 by blast
    then have "\<langle>l, (b, c), r\<rangle> = plug \<langle>l', (a, c'), r'\<rangle> (ps @ [Rgt l b c])" by (simp add: plug_append)
    then show ?thesis by blast
  qed
qed simp

lemma RB_REMOVE_ok:
  assumes "rb_set key m xs" "a \<in> set xs"
  shows "\<exists>m'. RB_REMOVE a m = Some (a, m') \<and> rb_set key m' (remove1 a xs)"
proof -
  obtain t where t: "rb_tree m t" "rb_ok t" "addrs t = xs" "in_order key xs" using assms(1) by (auto simp: rb_set_def)
  obtain l c r ps where p: "t = plug \<langle>l, (a, c), r\<rangle> ps" using split_at_node assms(2) t(3) by blast
  have f: "focus m \<langle>l, (a, c), r\<rangle> ps" using t(1) p by (simp add: focus_plug)
  obtain m' t' where r: "RB_REMOVE a m = Some (a, m')" "rb_tree m' t'" "rb_ok t'"
    "addrs t' = before ps @ addrs l @ addrs r @ following ps"
    using remove_one_child [OF f] remove_two_children [OF f] t(2) p by blast
  have "remove1 a xs = addrs t'" "xs = before ps @ addrs l @ [a] @ addrs r @ following ps"
    using f r(4) t(3) by (auto simp: p addrs_plug focus_def remove1_append)
  moreover from this have "in_order key (remove1 a xs)" using t(4) r(4) by (auto simp: sorted_wrt_append)
  ultimately show ?thesis using r by (auto simp: rb_set_def)
qed

end
