(* ===== verification/Tree_Rb_Walk.thy ===== *)
theory Tree_Rb_Walk
  imports Tree_Rb_Remove
begin

section \<open>Looking up and walking in a red-black tree\<close>

subsection \<open>Looking up\<close>

lemma rb_find_loop_ok:
  assumes "cmp_by key cmp"
  shows "rb_at m q t \<Longrightarrow> in_order key (addrs t) \<Longrightarrow>
    rb_find_loop cmp e m (peak t) = Some (List.find (\<lambda>x. key x = key e) (addrs t))"
proof (induction t arbitrary: q rule: addrs.induct)
  case 1
  then show ?case by (subst rb_find_loop.simps) simp
next
  case (2 l a c r)
  have cmp: "cmp e a < 0 \<longleftrightarrow> key e < key a" "cmp e a > 0 \<longleftrightarrow> key e > key a"
    using assms by (auto simp: cmp_by_def)
  have n: "RB_LEFT m a = peak l" "RB_RIGHT m a = peak r" using 2(3) by (auto simp: get_defs)
  have s: "\<forall>x \<in> set (addrs l). key x < key a" "\<forall>x \<in> set (addrs r). key a < key x" "in_order key (addrs l)" "in_order key (addrs r)"
    using 2(4) by (auto simp: sorted_wrt_append)
  consider "key e < key a" | "key e > key a" | "key e = key a" by force
  then show ?case
  proof cases
    case 1
    then have "List.find (\<lambda>x. key x = key e) (addrs r) = None" using s by (intro find_none) fastforce
    then show ?thesis
      using 1 2(1) [of "Some a"] 2(3) s n cmp by (subst rb_find_loop.simps) (auto simp: find_append split: option.split)
  next
    case g: 2
    then have "List.find (\<lambda>x. key x = key e) (addrs l) = None" using s by (intro find_none) fastforce
    then show ?thesis
      using g 2(2) [of "Some a"] 2(3) s n cmp by (subst rb_find_loop.simps) (auto simp: find_append)
  next
    case 3
    then have "List.find (\<lambda>x. key x = key e) (addrs l) = None" using s by (intro find_none) fastforce
    then show ?thesis using 3 cmp by (subst rb_find_loop.simps) (auto simp: find_append)
  qed
qed

lemma nfind_loop_ok:
  assumes "cmp_by key cmp"
  shows "rb_at m q t \<Longrightarrow> in_order key (addrs t) \<Longrightarrow>
    nfind_loop cmp e m res (peak t) =
      Some (case List.find (\<lambda>x. key e \<le> key x) (addrs t) of Some x \<Rightarrow> Some x | None \<Rightarrow> res)"
proof (induction t arbitrary: q res rule: addrs.induct)
  case 1
  then show ?case by (subst nfind_loop.simps) simp
next
  case (2 l a c r)
  have cmp: "cmp e a < 0 \<longleftrightarrow> key e < key a" "cmp e a > 0 \<longleftrightarrow> key e > key a"
    using assms by (auto simp: cmp_by_def)
  have n: "RB_LEFT m a = peak l" "RB_RIGHT m a = peak r" using 2(3) by (auto simp: get_defs)
  have s: "\<forall>x \<in> set (addrs l). key x < key a" "\<forall>x \<in> set (addrs r). key a < key x" "in_order key (addrs l)" "in_order key (addrs r)"
    using 2(4) by (auto simp: sorted_wrt_append)
  consider "key e < key a" | "key e > key a" | "key e = key a" by force
  then show ?case
  proof cases
    case 1
    then show ?thesis
      using 2(1) [of "Some a"] 2(3) s n cmp
      by (subst nfind_loop.simps) (auto simp: find_append split: option.split)
  next
    case g: 2
    then have "List.find (\<lambda>x. key e \<le> key x) (addrs l) = None" using s by (intro find_none) fastforce
    then show ?thesis
      using g 2(2) [of "Some a"] 2(3) s n cmp by (subst nfind_loop.simps) (auto simp: find_append)
  next
    case 3
    then have "List.find (\<lambda>x. key e \<le> key x) (addrs l) = None" using s by (intro find_none) fastforce
    then show ?thesis using 3 cmp by (subst nfind_loop.simps) (auto simp: find_append)
  qed
qed

lemma RB_FIND_ok:
  "cmp_by key cmp \<Longrightarrow> rb_set key m xs \<Longrightarrow> RB_FIND cmp e m = Some (List.find (\<lambda>x. key x = key e) xs)"
  using rb_find_loop_ok [of key cmp m None] by (auto simp: rb_set_def rb_tree_def RB_FIND_def RB_ROOT_def)

lemma RB_NFIND_ok:
  "cmp_by key cmp \<Longrightarrow> rb_set key m xs \<Longrightarrow> RB_NFIND cmp e m = Some (List.find (\<lambda>x. key e \<le> key x) xs)"
  using nfind_loop_ok [of key cmp m None] by (auto simp: rb_set_def rb_tree_def RB_NFIND_def RB_ROOT_def split: option.splits)

subsection \<open>The ends\<close>

lemma minmax_loop_ok:
  "rb_at m q t \<Longrightarrow> minmax_loop val m p (peak t) =
     Some (if t = \<langle>\<rangle> then p else if val < 0 then first_of_list (addrs t) else last_of_list (addrs t))"
proof (induction t arbitrary: q p rule: addrs.induct)
  case 1
  then show ?case by (subst minmax_loop.simps) simp
next
  case (2 l a c r)
  have "addrs l = [] \<longleftrightarrow> l = \<langle>\<rangle>" "addrs r = [] \<longleftrightarrow> r = \<langle>\<rangle>"
    by (cases l rule: peak.cases; simp) (cases r rule: peak.cases; simp)
  then show ?case
    using 2(1) [of "Some a" "Some a"] 2(2) [of "Some a" "Some a"] 2(3)
    by (subst minmax_loop.simps) (auto simp: get_defs first_of_append last_of_list_def)
qed

lemma addrs_empty: "addrs t = [] \<longleftrightarrow> t = \<langle>\<rangle>"
  by (cases t rule: peak.cases) auto

lemma RB_MIN_MAX:
  assumes "rb_tree m t"
  shows "RB_MIN m = Some (first_of_list (addrs t))" "RB_MAX m = Some (last_of_list (addrs t))"
  using assms minmax_loop_ok [of m None t]
  by (auto simp: RB_MIN_def RB_MAX_def RB_MINMAX_def RB_ROOT_def rb_tree_def RB_NEGINF_def RB_INF_def last_of_list_def)

subsection \<open>Neighbours\<close>

lemma climb_right_ok:
  "path_at m (Some e) ps \<Longrightarrow> RB_PARENT m e = up ps \<Longrightarrow> e \<notin> set (before ps @ following ps) \<Longrightarrow> distinct (before ps @ following ps) \<Longrightarrow>
   \<exists>z. climb_right m e = Some z \<and> RB_PARENT m z = first_of_list (following ps)"
proof (induction m "Some e" ps arbitrary: e rule: path_at.induct)
  case (1 m)
  then show ?case by (subst climb_right.simps) simp
next
  case (2 m a c r ps)
  then have "RB_RIGHT m a \<noteq> Some e" by (auto simp: RB_RIGHT_def dest: peak_in)
  then show ?case using 2 by (subst climb_right.simps) simp
next
  case (3 m l a c ps)
  obtain z where "climb_right m a = Some z" "RB_PARENT m z = first_of_list (following ps)"
    using 3 by (auto simp: RB_PARENT_def)
  then show ?case using 3 by (subst climb_right.simps) (simp add: RB_RIGHT_def)
qed

lemma climb_left_ok:
  "path_at m (Some e) ps \<Longrightarrow> RB_PARENT m e = up ps \<Longrightarrow> e \<notin> set (before ps @ following ps) \<Longrightarrow> distinct (before ps @ following ps) \<Longrightarrow>
   \<exists>z. climb_left m e = Some z \<and> RB_PARENT m z = last_of_list (before ps)"
proof (induction m "Some e" ps arbitrary: e rule: path_at.induct)
  case (1 m)
  then show ?case by (subst climb_left.simps) (simp add: last_of_list_def)
next
  case (2 m a c r ps)
  obtain z where "climb_left m a = Some z" "RB_PARENT m z = last_of_list (before ps)"
    using 2 by (auto simp: RB_PARENT_def)
  then show ?case using 2 by (subst climb_left.simps) (simp add: RB_LEFT_def)
next
  case (3 m l a c ps)
  then have "RB_LEFT m a \<noteq> Some e" by (auto simp: RB_LEFT_def dest: peak_in)
  then show ?case using 3 by (subst climb_left.simps) (simp add: last_of_list_def)
qed

lemma leftmost_first: "rb_at m q t \<Longrightarrow> peak t = Some a \<Longrightarrow> leftmost m a = first_of_list (addrs t)"
proof (induction t arbitrary: q a rule: addrs.induct)
  case (2 l b c r)
  then show ?case
    by (cases l rule: peak.cases; subst leftmost.simps) (auto simp: RB_LEFT_def first_of_append)
qed simp

lemma rightmost_last: "rb_at m q t \<Longrightarrow> peak t = Some a \<Longrightarrow> rightmost m a = last_of_list (addrs t)"
proof (induction t arbitrary: q a rule: addrs.induct)
  case (2 l b c r)
  then show ?case
    by (cases r rule: peak.cases; subst rightmost.simps) (auto simp: RB_RIGHT_def first_of_append last_of_list_def)
qed simp

lemma RB_NEXT_focus:
  assumes f: "focus m \<langle>l, (e, c), r\<rangle> ps"
  shows "RB_NEXT m e = Some (first_of_list (addrs r @ following ps))"
proof (cases "r = \<langle>\<rangle>")
  case False
  then obtain b where b: "peak r = Some b" by (cases r rule: peak.cases) auto
  then have "leftmost m b = first_of_list (addrs r)" using f leftmost_first by (auto simp: focus_def)
  then show ?thesis
    using f b False first_some(1) [of "addrs r"] by (auto simp: RB_NEXT_def RB_RIGHT_def focus_def first_of_append addrs_empty)
next
  case True
  have n: "RB_RIGHT m e = None" "RB_PARENT m e = up ps" using f True by (auto simp: focus_def get_defs)
  have c: "\<exists>z. climb_right m e = Some z \<and> RB_PARENT m z = first_of_list (following ps)"
    by (rule climb_right_ok) (use f n in \<open>auto simp: focus_def\<close>)
  have "RB_LEFT m p = Some e \<Longrightarrow> up ps = Some p \<Longrightarrow> first_of_list (following ps) = Some p" for p
    using f by (cases ps rule: up.cases) (auto simp: focus_def RB_LEFT_def dest: peak_in)
  then show ?thesis using n c True by (auto simp: RB_NEXT_def split: option.split)
qed

lemma RB_PREV_focus:
  assumes f: "focus m \<langle>l, (e, c), r\<rangle> ps"
  shows "RB_PREV m e = Some (last_of_list (before ps @ addrs l))"
proof (cases "l = \<langle>\<rangle>")
  case False
  then obtain b where b: "peak l = Some b" by (cases l rule: peak.cases) auto
  then have "rightmost m b = last_of_list (addrs l)" using f rightmost_last by (auto simp: focus_def)
  then show ?thesis
    using f b False first_some(2) [of "addrs l"]
    by (auto simp: RB_PREV_def RB_LEFT_def focus_def first_of_append addrs_empty last_of_list_def)
next
  case True
  have n: "RB_LEFT m e = None" "RB_PARENT m e = up ps" using f True by (auto simp: focus_def get_defs)
  have c: "\<exists>z. climb_left m e = Some z \<and> RB_PARENT m z = last_of_list (before ps)"
    by (rule climb_left_ok) (use f n in \<open>auto simp: focus_def\<close>)
  have "RB_RIGHT m p = Some e \<Longrightarrow> up ps = Some p \<Longrightarrow> last_of_list (before ps) = Some p" for p
    using f by (cases ps rule: up.cases) (auto simp: focus_def RB_RIGHT_def last_of_list_def dest: peak_in)
  then show ?thesis using n c True by (auto simp: RB_PREV_def split: option.split)
qed

lemma RB_NEXT_PREV:
  assumes "rb_tree m t" "addrs t = xs @ e # ys"
  shows "RB_NEXT m e = Some (first_of_list ys)" "RB_PREV m e = Some (last_of_list xs)"
proof -
  obtain l c r ps where p: "t = plug \<langle>l, (e, c), r\<rangle> ps" using split_at_node [of e t] assms(2) by auto
  have f: "focus m \<langle>l, (e, c), r\<rangle> ps" using assms(1) p by (simp add: focus_plug)
  have "(before ps @ addrs l) @ e # (addrs r @ following ps) = xs @ e # ys"
    using assms(2) p by (simp add: addrs_plug)
  moreover have "e \<notin> set (before ps @ addrs l)" "e \<notin> set (addrs r @ following ps)" using f by (auto simp: focus_def)
  ultimately have "before ps @ addrs l = xs \<and> addrs r @ following ps = ys"
    by (metis append_Cons_eq_iff)
  then show "RB_NEXT m e = Some (first_of_list ys)" "RB_PREV m e = Some (last_of_list xs)"
    using RB_NEXT_focus [OF f] RB_PREV_focus [OF f] by auto
qed

subsection \<open>Loops\<close>

lemma walk_next:
  "rb_tree m t \<Longrightarrow> addrs t = xs @ ys \<Longrightarrow>
   walk RB_NEXT (reading f) (first_of_list ys) (m, s) = keeping m (visit f ys s)"
proof (induction ys arbitrary: xs s)
  case Nil
  then show ?case by (subst walk.simps) simp
next
  case (Cons y ys)
  have "walk RB_NEXT (reading f) (first_of_list ys) (m, u) = keeping m (visit f ys u)" for u
    using Cons.IH [of "xs @ [y]"] Cons.prems by simp
  then show ?case
    using RB_NEXT_PREV(1) [OF Cons.prems]
    by (subst walk.simps) (cases "f y s"; auto simp: reading_def split: sum.split)
qed

lemma walk_prev:
  "rb_tree m t \<Longrightarrow> addrs t = xs @ ys \<Longrightarrow>
   walk RB_PREV (reading f) (last_of_list xs) (m, s) = keeping m (visit f (rev xs) s)"
proof (induction xs arbitrary: ys s rule: rev_induct)
  case Nil
  then show ?case by (subst walk.simps) (simp add: last_of_list_def)
next
  case (snoc x xs)
  have "walk RB_PREV (reading f) (last_of_list xs) (m, u) = keeping m (visit f (rev xs) u)" for u
    using snoc.IH [of "x # ys"] snoc.prems by simp
  moreover have "last_of_list (xs @ [x]) = Some x" by (simp add: last_of_list_def)
  ultimately show ?case
    using RB_NEXT_PREV(2) [of m t xs x ys] snoc.prems
    by (subst walk.simps) (cases "f x s"; auto simp: reading_def split: sum.split)
qed

lemma RB_FOREACH_ok:
  assumes "rb_set key m xs"
  shows "RB_FOREACH (reading f) (m, s) = keeping m (visit f xs s)"
    and "RB_FOREACH_REVERSE (reading f) (m, s) = keeping m (visit f (rev xs) s)"
proof -
  obtain t where t: "rb_tree m t" "addrs t = xs" using assms by (auto simp: rb_set_def)
  show "RB_FOREACH (reading f) (m, s) = keeping m (visit f xs s)"
    "RB_FOREACH_REVERSE (reading f) (m, s) = keeping m (visit f (rev xs) s)"
    using walk_next [OF t(1), of "[]" xs f s] walk_prev [OF t(1), of xs "[]" f s] t(2) RB_MIN_MAX [OF t(1)]
    by (simp_all add: RB_FOREACH_def RB_FOREACH_REVERSE_def)
qed

text \<open>A safe loop may remove the node it stands on: every node is visited, in order, and the tree ends empty.\<close>

definition removing :: "(nat \<Rightarrow> 's \<Rightarrow> 's option) \<Rightarrow> nat \<Rightarrow> rb_head \<times> 's \<Rightarrow> ('r + rb_head \<times> 's) option" where
  "removing g x st = do { (_, m) \<leftarrow> RB_REMOVE x (fst st); s \<leftarrow> g x (snd st); Some (Inr (m, s)) }"

lemma RB_FOREACH_SAFE_drain:
  fixes g :: "nat \<Rightarrow> 's \<Rightarrow> 's option" and key :: "nat \<Rightarrow> 'k::linorder"
  assumes "rb_set key m xs"
  shows "\<exists>m'. rb_set key m' [] \<and>
    RB_FOREACH_SAFE (removing g) (m, s) = (map_option (\<lambda>s. Inr (m', s)) (visit_all g xs s) :: ('r + rb_head \<times> 's) option)"
proof -
  have "\<exists>m'. rb_set key m' [] \<and>
    walk_safe RB_NEXT (removing g) (first_of_list xs) (m, s) = (map_option (\<lambda>s. Inr (m', s)) (visit_all g xs s) :: ('r + rb_head \<times> 's) option)"
    using assms
  proof (induction xs arbitrary: m s)
    case Nil
    then show ?case by (intro exI [of _ m]) (subst walk_safe.simps, simp)
  next
    case (Cons x xs)
    obtain t where t: "rb_tree m t" "addrs t = [] @ x # xs" using Cons.prems by (auto simp: rb_set_def)
    obtain m1 where m1: "RB_REMOVE x m = Some (x, m1)" "rb_set key m1 xs"
      using RB_REMOVE_ok [OF Cons.prems, of x] by auto
    obtain m' where m': "rb_set key m' []"
      "walk_safe RB_NEXT (removing g) (first_of_list xs) (m1, u) = (map_option (\<lambda>s. Inr (m', s)) (visit_all g xs u) :: ('r + rb_head \<times> 's) option)"
      if "g x s = Some u" for u
      using Cons.IH [OF m1(2)] by (cases "g x s") auto
    show ?case
    proof (cases "g x s")
      case None
      then have "walk_safe RB_NEXT (removing g) (Some x) (m, s) = (None :: ('r + rb_head \<times> 's) option)"
        using RB_NEXT_PREV(1) [OF t] m1(1) by (subst walk_safe.simps) (simp add: removing_def)
      then show ?thesis using None Cons.IH [OF m1(2)] by auto
    next
      case (Some u)
      then have "walk_safe RB_NEXT (removing g) (Some x) (m, s) =
          (walk_safe RB_NEXT (removing g) (first_of_list xs) (m1, u) :: ('r + rb_head \<times> 's) option)"
        using RB_NEXT_PREV(1) [OF t] m1(1) by (subst walk_safe.simps) (simp add: removing_def)
      then show ?thesis using Some m' [OF Some] by auto
    qed
  qed
  moreover obtain t where "rb_tree m t" "addrs t = xs" using assms by (auto simp: rb_set_def)
  ultimately show ?thesis by (simp add: RB_FOREACH_SAFE_def RB_MIN_MAX)
qed

subsection \<open>The height\<close>

lemma bh_size: "invh t \<Longrightarrow> 2 ^ bh t \<le> size1 t"
  by (induction t rule: addrs.induct) (auto simp: size1_size)

lemma height_bh: "invh t \<Longrightarrow> invc t \<Longrightarrow> height t \<le> 2 * bh t + (if red t then 1 else 0)"
  by (induction t rule: addrs.induct) (auto split: if_splits)

text \<open>A tree of \<open>n\<close> nodes is at most \<open>2 lg (n + 1)\<close> high, as the header promises.\<close>

lemma rb_height:
  assumes "rb_ok t"
  shows "2 ^ height t \<le> (length (addrs t) + 1) ^ 2"
proof -
  have "size1 t = length (addrs t) + 1" by (induction t rule: addrs.induct) (auto simp: size1_size)
  moreover have "height t \<le> bh t + bh t" "2 ^ bh t \<le> size1 t"
    using assms height_bh [of t] bh_size [of t] by (auto simp: rb_ok_def)
  moreover from this have "2 ^ height t \<le> (2::nat) ^ (bh t + bh t)" by (intro power_increasing) auto
  moreover have "(2::nat) ^ (bh t + bh t) \<le> size1 t * size1 t"
    unfolding power_add using \<open>2 ^ bh t \<le> size1 t\<close> by (rule mult_le_mono) (rule \<open>2 ^ bh t \<le> size1 t\<close>)
  ultimately show ?thesis by (simp only: power2_eq_square)
qed

end
