(* ===== verification/Tree_Rb_Contract.thy ===== *)
theory Tree_Rb_Contract
  imports Tree_Rb_Walk
begin

section \<open>Red-black trees meet the contract of ordered nodes\<close>

text \<open>
  Looking up and walking leave a red-black tree as it is, and \<open>RB_REMOVE\<close> needs no comparison: the operations in the
  form of the contract.
\<close>

definition rb_find :: "(nat \<Rightarrow> nat \<Rightarrow> int) \<Rightarrow> nat \<Rightarrow> rb_head \<Rightarrow> (nat option \<times> rb_head) option" where
  "rb_find cmp e m = map_option (\<lambda>r. (r, m)) (RB_FIND cmp e m)"

definition rb_remove :: "(nat \<Rightarrow> nat \<Rightarrow> int) \<Rightarrow> nat \<Rightarrow> rb_head \<Rightarrow> (nat option \<times> rb_head) option" where
  "rb_remove cmp e m = map_option (\<lambda>(x, m). (Some x, m)) (RB_REMOVE e m)"

definition rb_first :: "rb_head \<Rightarrow> (nat option \<times> rb_head) option" where
  "rb_first m = map_option (\<lambda>r. (r, m)) (RB_MIN m)"

definition rb_next :: "(nat \<Rightarrow> nat \<Rightarrow> int) \<Rightarrow> nat \<Rightarrow> rb_head \<Rightarrow> (nat option \<times> rb_head) option" where
  "rb_next cmp e m = map_option (\<lambda>r. (r, m)) (RB_NEXT m e)"

lemma rb_contract:
  "cmp_by key cmp \<Longrightarrow> rb_set key m xs \<Longrightarrow> x \<in> set xs \<Longrightarrow> key x = key e \<Longrightarrow> \<exists>m'. RB_INSERT cmp e m = Some (Some x, m') \<and> rb_set key m' xs"
  "cmp_by key cmp \<Longrightarrow> rb_set key m xs \<Longrightarrow> e \<in> set xs \<Longrightarrow> \<exists>m'. rb_remove cmp e m = Some (Some e, m') \<and> rb_set key m' (remove1 e xs)"
  "cmp_by key cmp \<Longrightarrow> rb_set key m xs \<Longrightarrow> \<exists>m'. rb_find cmp e m = Some (List.find (\<lambda>x. key x = key e) xs, m') \<and> rb_set key m' xs"
  "rb_set key m xs \<Longrightarrow> \<exists>m'. rb_first m = Some (first_of_list xs, m') \<and> rb_set key m' xs"
  "cmp_by key cmp \<Longrightarrow> rb_set key m (ys @ e # zs) \<Longrightarrow> \<exists>m'. rb_next cmp e m = Some (first_of_list zs, m') \<and> rb_set key m' (ys @ e # zs)"
proof -
  show "rb_set key m xs \<Longrightarrow> e \<in> set xs \<Longrightarrow> \<exists>m'. rb_remove cmp e m = Some (Some e, m') \<and> rb_set key m' (remove1 e xs)"
    using RB_REMOVE_ok [of key m xs e] by (auto simp: rb_remove_def)
  show "rb_set key m xs \<Longrightarrow> \<exists>m'. rb_first m = Some (first_of_list xs, m') \<and> rb_set key m' xs"
    using RB_MIN_MAX(1) [of m] by (auto simp: rb_first_def rb_set_def)
  show "rb_set key m (ys @ e # zs) \<Longrightarrow> \<exists>m'. rb_next cmp e m = Some (first_of_list zs, m') \<and> rb_set key m' (ys @ e # zs)"
    using RB_NEXT_PREV(1) [of m _ ys e zs] by (auto simp: rb_next_def rb_set_def)
qed (simp_all add: rb_find_def RB_FIND_ok RB_INSERT_present)

interpretation rbt: ordered_nodes rb_set RB_INSERT rb_remove rb_find rb_first rb_next
proof unfold_locales
  show "rb_set key m xs \<Longrightarrow> in_order key xs" for key :: "nat \<Rightarrow> 'k::linorder" and m xs by (auto simp: rb_set_def)
qed (rule RB_INSERT_new RB_INSERT_present rb_contract; assumption)+

end
