(* ===== verification/Tree_Splay.thy ===== *)
theory Tree_Splay
  imports Tree_Order
begin

section \<open>Splay trees (include/mx/tree.h)\<close>

text \<open>
  The macros \<open>SPLAY_*\<close> and the functions \<open>SPLAY_GENERATE\<close> makes, on the left and right pointers of the nodes.
  Splaying hangs what it cuts off on the two ends of a local node, so the variables \<open>__left\<close> and
  \<open>__right\<close> point to a node of the tree or to the local one.
\<close>

record splay_entry =
  spe_left :: "nat option"
  spe_right :: "nat option"

record splay_head =
  sph_root :: "nat option"
  sp_nodes :: "nat \<Rightarrow> splay_entry"

definition SPLAY_LEFT :: "splay_head \<Rightarrow> nat \<Rightarrow> nat option" where "SPLAY_LEFT m x = spe_left (sp_nodes m x)"
definition SPLAY_RIGHT :: "splay_head \<Rightarrow> nat \<Rightarrow> nat option" where "SPLAY_RIGHT m x = spe_right (sp_nodes m x)"
definition SPLAY_ROOT :: "splay_head \<Rightarrow> nat option" where "SPLAY_ROOT m = sph_root m"
definition SPLAY_EMPTY :: "splay_head \<Rightarrow> bool" where "SPLAY_EMPTY m \<longleftrightarrow> SPLAY_ROOT m = None"
definition SPLAY_INIT :: "splay_head \<Rightarrow> splay_head" where "SPLAY_INIT m = m\<lparr>sph_root := None\<rparr>"

definition sp_left :: "nat \<Rightarrow> nat option \<Rightarrow> splay_head \<Rightarrow> splay_head" where
  "sp_left x p m = m\<lparr>sp_nodes := (sp_nodes m)(x := sp_nodes m x\<lparr>spe_left := p\<rparr>)\<rparr>"

definition sp_right :: "nat \<Rightarrow> nat option \<Rightarrow> splay_head \<Rightarrow> splay_head" where
  "sp_right x p m = m\<lparr>sp_nodes := (sp_nodes m)(x := sp_nodes m x\<lparr>spe_right := p\<rparr>)\<rparr>"

definition SPLAY_ROTATE_RIGHT :: "nat \<Rightarrow> splay_head \<Rightarrow> splay_head option" where
  "SPLAY_ROTATE_RIGHT tmp m = do {
     root \<leftarrow> sph_root m;
     let m = sp_left root (SPLAY_RIGHT m tmp) m;
     let m = sp_right tmp (Some root) m;
     Some (m\<lparr>sph_root := Some tmp\<rparr>)
   }"

definition SPLAY_ROTATE_LEFT :: "nat \<Rightarrow> splay_head \<Rightarrow> splay_head option" where
  "SPLAY_ROTATE_LEFT tmp m = do {
     root \<leftarrow> sph_root m;
     let m = sp_right root (SPLAY_LEFT m tmp) m;
     let m = sp_left tmp (Some root) m;
     Some (m\<lparr>sph_root := Some tmp\<rparr>)
   }"

text \<open>Where \<open>__left\<close> and \<open>__right\<close> point to; the state of the loop has the local node beside the memory.\<close>

datatype place = Local | Elem nat

record splay_state =
  ss_head :: splay_head
  ss_node :: splay_entry
  ss_left :: place
  ss_right :: place

definition left_at :: "place \<Rightarrow> nat option \<Rightarrow> splay_state \<Rightarrow> splay_state" where
  "left_at p q st = (case p of
     Local \<Rightarrow> st\<lparr>ss_node := ss_node st\<lparr>spe_left := q\<rparr>\<rparr>
   | Elem x \<Rightarrow> st\<lparr>ss_head := sp_left x q (ss_head st)\<rparr>)"

definition right_at :: "place \<Rightarrow> nat option \<Rightarrow> splay_state \<Rightarrow> splay_state" where
  "right_at p q st = (case p of
     Local \<Rightarrow> st\<lparr>ss_node := ss_node st\<lparr>spe_right := q\<rparr>\<rparr>
   | Elem x \<Rightarrow> st\<lparr>ss_head := sp_right x q (ss_head st)\<rparr>)"

text \<open>\<open>SPLAY_LINKLEFT(head, __right)\<close> and \<open>SPLAY_LINKRIGHT(head, __left)\<close>.\<close>

definition SPLAY_LINKLEFT :: "splay_state \<Rightarrow> splay_state option" where
  "SPLAY_LINKLEFT st = do {
     root \<leftarrow> sph_root (ss_head st);
     let st = left_at (ss_right st) (Some root) st;
     let st = st\<lparr>ss_right := Elem root\<rparr>;
     Some (st\<lparr>ss_head := (ss_head st)\<lparr>sph_root := SPLAY_LEFT (ss_head st) root\<rparr>\<rparr>)
   }"

definition SPLAY_LINKRIGHT :: "splay_state \<Rightarrow> splay_state option" where
  "SPLAY_LINKRIGHT st = do {
     root \<leftarrow> sph_root (ss_head st);
     let st = right_at (ss_left st) (Some root) st;
     let st = st\<lparr>ss_left := Elem root\<rparr>;
     Some (st\<lparr>ss_head := (ss_head st)\<lparr>sph_root := SPLAY_RIGHT (ss_head st) root\<rparr>\<rparr>)
   }"

definition SPLAY_ASSEMBLE :: "splay_state \<Rightarrow> splay_head option" where
  "SPLAY_ASSEMBLE st = do {
     root \<leftarrow> sph_root (ss_head st);
     let st = right_at (ss_left st) (SPLAY_LEFT (ss_head st) root) st;
     let st = left_at (ss_right st) (SPLAY_RIGHT (ss_head st) root) st;
     let m = sp_left root (spe_right (ss_node st)) (ss_head st);
     Some (sp_right root (spe_left (ss_node st)) m)
   }"

subsection \<open>Splaying\<close>

text \<open>
  The two halves of the loop bodies of \<open>_SPLAY\<close> and \<open>_SPLAY_MINMAX\<close>; \<open>further\<close> is the second comparison. The flag says
  that the loop is left.
\<close>

definition splay_left :: "(nat \<Rightarrow> bool) \<Rightarrow> splay_state \<Rightarrow> (bool \<times> splay_state) option" where
  "splay_left further st = do {
     root \<leftarrow> sph_root (ss_head st);
     case SPLAY_LEFT (ss_head st) root of
       None \<Rightarrow> Some (True, st)
     | Some tmp \<Rightarrow>
         if further tmp
         then do {
           m \<leftarrow> SPLAY_ROTATE_RIGHT tmp (ss_head st);
           let st = st\<lparr>ss_head := m\<rparr>;
           root \<leftarrow> sph_root m;
           if SPLAY_LEFT m root = None then Some (True, st)
           else do { st \<leftarrow> SPLAY_LINKLEFT st; Some (False, st) }
         }
         else do { st \<leftarrow> SPLAY_LINKLEFT st; Some (False, st) }
   }"

definition splay_right :: "(nat \<Rightarrow> bool) \<Rightarrow> splay_state \<Rightarrow> (bool \<times> splay_state) option" where
  "splay_right further st = do {
     root \<leftarrow> sph_root (ss_head st);
     case SPLAY_RIGHT (ss_head st) root of
       None \<Rightarrow> Some (True, st)
     | Some tmp \<Rightarrow>
         if further tmp
         then do {
           m \<leftarrow> SPLAY_ROTATE_LEFT tmp (ss_head st);
           let st = st\<lparr>ss_head := m\<rparr>;
           root \<leftarrow> sph_root m;
           if SPLAY_RIGHT m root = None then Some (True, st)
           else do { st \<leftarrow> SPLAY_LINKRIGHT st; Some (False, st) }
         }
         else do { st \<leftarrow> SPLAY_LINKRIGHT st; Some (False, st) }
   }"

partial_function (option) splay_loop :: "(nat \<Rightarrow> nat \<Rightarrow> int) \<Rightarrow> nat \<Rightarrow> splay_state \<Rightarrow> splay_state option" where
  "splay_loop cmp elm st = do {
     root \<leftarrow> sph_root (ss_head st);
     if cmp elm root = 0 then Some st
     else do {
       (break, st) \<leftarrow> (if cmp elm root < 0 then splay_left (\<lambda>tmp. cmp elm tmp < 0) st
                      else splay_right (\<lambda>tmp. cmp elm tmp > 0) st);
       if break then Some st else splay_loop cmp elm st
     }
   }"

definition splay_start :: "splay_head \<Rightarrow> splay_state" where
  "splay_start m = \<lparr>ss_head = m, ss_node = \<lparr>spe_left = None, spe_right = None\<rparr>, ss_left = Local, ss_right = Local\<rparr>"

definition SPLAY :: "(nat \<Rightarrow> nat \<Rightarrow> int) \<Rightarrow> nat \<Rightarrow> splay_head \<Rightarrow> splay_head option" where
  "SPLAY cmp elm m = do { st \<leftarrow> splay_loop cmp elm (splay_start m); SPLAY_ASSEMBLE st }"

partial_function (option) minmax_splay_loop :: "int \<Rightarrow> splay_state \<Rightarrow> splay_state option" where
  "minmax_splay_loop val st = do {
     (break, st) \<leftarrow> (if val < 0 then splay_left (\<lambda>_. val < 0) st
                    else if val > 0 then splay_right (\<lambda>_. val > 0) st
                    else Some (False, st));
     if break then Some st else minmax_splay_loop val st
   }"

definition SPLAY_MINMAX :: "int \<Rightarrow> splay_head \<Rightarrow> splay_head option" where
  "SPLAY_MINMAX val m = do { st \<leftarrow> minmax_splay_loop val (splay_start m); SPLAY_ASSEMBLE st }"

subsection \<open>The operations\<close>

definition SPLAY_FIND :: "(nat \<Rightarrow> nat \<Rightarrow> int) \<Rightarrow> nat \<Rightarrow> splay_head \<Rightarrow> (nat option \<times> splay_head) option" where
  "SPLAY_FIND cmp elm m =
     (if SPLAY_EMPTY m then Some (None, m)
      else do {
        m \<leftarrow> SPLAY cmp elm m;
        root \<leftarrow> sph_root m;
        Some (if cmp elm root = 0 then Some root else None, m)
      })"

partial_function (option) splay_leftmost :: "splay_head \<Rightarrow> nat \<Rightarrow> nat option" where
  "splay_leftmost m elm = (case SPLAY_LEFT m elm of Some l \<Rightarrow> splay_leftmost m l | None \<Rightarrow> Some elm)"

definition SPLAY_NEXT :: "(nat \<Rightarrow> nat \<Rightarrow> int) \<Rightarrow> nat \<Rightarrow> splay_head \<Rightarrow> (nat option \<times> splay_head) option" where
  "SPLAY_NEXT cmp elm m = do {
     m \<leftarrow> SPLAY cmp elm m;
     case SPLAY_RIGHT m elm of
       Some r \<Rightarrow> do { x \<leftarrow> splay_leftmost m r; Some (Some x, m) }
     | None \<Rightarrow> Some (None, m)
   }"

definition SPLAY_MIN_MAX :: "int \<Rightarrow> splay_head \<Rightarrow> (nat option \<times> splay_head) option" where
  "SPLAY_MIN_MAX val m = do { m \<leftarrow> SPLAY_MINMAX val m; Some (SPLAY_ROOT m, m) }"

definition SPLAY_NEGINF :: int where "SPLAY_NEGINF = -1"
definition SPLAY_INF :: int where "SPLAY_INF = 1"

definition SPLAY_MIN :: "splay_head \<Rightarrow> (nat option \<times> splay_head) option" where
  "SPLAY_MIN m = (if SPLAY_EMPTY m then Some (None, m) else SPLAY_MIN_MAX SPLAY_NEGINF m)"

definition SPLAY_MAX :: "splay_head \<Rightarrow> (nat option \<times> splay_head) option" where
  "SPLAY_MAX m = (if SPLAY_EMPTY m then Some (None, m) else SPLAY_MIN_MAX SPLAY_INF m)"

definition SPLAY_INSERT :: "(nat \<Rightarrow> nat \<Rightarrow> int) \<Rightarrow> nat \<Rightarrow> splay_head \<Rightarrow> (nat option \<times> splay_head) option" where
  "SPLAY_INSERT cmp elm m =
     (if SPLAY_EMPTY m
      then Some (None, (sp_left elm None (sp_right elm None m))\<lparr>sph_root := Some elm\<rparr>)
      else do {
        m \<leftarrow> SPLAY cmp elm m;
        root \<leftarrow> sph_root m;
        if cmp elm root < 0
        then let m = sp_left elm (SPLAY_LEFT m root) m;
                 m = sp_right elm (Some root) m;
                 m = sp_left root None m
             in Some (None, m\<lparr>sph_root := Some elm\<rparr>)
        else if cmp elm root > 0
        then let m = sp_right elm (SPLAY_RIGHT m root) m;
                 m = sp_left elm (Some root) m;
                 m = sp_right root None m
             in Some (None, m\<lparr>sph_root := Some elm\<rparr>)
        else Some (Some root, m)
      })"

definition SPLAY_REMOVE :: "(nat \<Rightarrow> nat \<Rightarrow> int) \<Rightarrow> nat \<Rightarrow> splay_head \<Rightarrow> (nat option \<times> splay_head) option" where
  "SPLAY_REMOVE cmp elm m =
     (if SPLAY_EMPTY m then Some (None, m)
      else do {
        m \<leftarrow> SPLAY cmp elm m;
        root \<leftarrow> sph_root m;
        if cmp elm root = 0
        then do {
          m \<leftarrow> (if SPLAY_LEFT m root = None then Some (m\<lparr>sph_root := SPLAY_RIGHT m root\<rparr>)
                else do {
                  let tmp = SPLAY_RIGHT m root;
                  let m = m\<lparr>sph_root := SPLAY_LEFT m root\<rparr>;
                  m \<leftarrow> SPLAY cmp elm m;
                  root \<leftarrow> sph_root m;
                  Some (sp_right root tmp m)
                });
          Some (Some elm, m)
        }
        else Some (None, m)
      })"

text \<open>The loop, with the body of theory \<open>Loop_Bodies\<close>.\<close>

partial_function (option) splay_walk ::
    "(nat \<Rightarrow> nat \<Rightarrow> int) \<Rightarrow> (nat \<Rightarrow> splay_head \<times> 's \<Rightarrow> ('r + splay_head \<times> 's) option) \<Rightarrow> nat option \<Rightarrow> splay_head \<times> 's \<Rightarrow>
      ('r + splay_head \<times> 's) option" where
  "splay_walk cmp f x st =
     (case x of
        None \<Rightarrow> Some (Inr st)
      | Some x \<Rightarrow> do {
          r \<leftarrow> f x st;
          case r of
            Inl r \<Rightarrow> Some (Inl r)
          | Inr st \<Rightarrow> do { (x, m) \<leftarrow> SPLAY_NEXT cmp x (fst st); splay_walk cmp f x (m, snd st) }
        })"

definition SPLAY_FOREACH ::
    "(nat \<Rightarrow> nat \<Rightarrow> int) \<Rightarrow> (nat \<Rightarrow> splay_head \<times> 's \<Rightarrow> ('r + splay_head \<times> 's) option) \<Rightarrow> splay_head \<times> 's \<Rightarrow>
      ('r + splay_head \<times> 's) option" where
  "SPLAY_FOREACH cmp f st = do { (x, m) \<leftarrow> SPLAY_MIN (fst st); splay_walk cmp f x (m, snd st) }"

end
