(* ===== verification/Tree_Splay_Spec.thy ===== *)
theory Tree_Splay_Spec
  imports Tree_Splay
begin

section \<open>Splay trees keep their nodes in order\<close>

subsection \<open>Trees in memory, whole and taken apart\<close>

fun sroot :: "nat tree \<Rightarrow> nat option" where
  "sroot \<langle>\<rangle> = None"
| "sroot \<langle>l, a, r\<rangle> = Some a"

fun sp_at :: "splay_head \<Rightarrow> nat tree \<Rightarrow> bool" where
  "sp_at m \<langle>\<rangle> \<longleftrightarrow> True"
| "sp_at m \<langle>l, a, r\<rangle> \<longleftrightarrow> sp_nodes m a = \<lparr>spe_left = sroot l, spe_right = sroot r\<rparr> \<and> sp_at m l \<and> sp_at m r"

definition splay_tree :: "splay_head \<Rightarrow> nat tree \<Rightarrow> bool" where
  "splay_tree m t \<longleftrightarrow> sph_root m = sroot t \<and> sp_at m t \<and> distinct (inorder t)"

text \<open>
  What was cut off while splaying, the last first: nodes with their left subtrees, whose right pointers are linked, and
  nodes with their right subtrees. Hanging a tree on the open end gives back a tree.
\<close>

fun hang_l :: "nat tree \<Rightarrow> (nat \<times> nat tree) list \<Rightarrow> nat tree" where
  "hang_l t [] = t"
| "hang_l t ((a, l) # L) = hang_l \<langle>l, a, t\<rangle> L"

fun hang_r :: "nat tree \<Rightarrow> (nat \<times> nat tree) list \<Rightarrow> nat tree" where
  "hang_r t [] = t"
| "hang_r t ((a, r) # R) = hang_r \<langle>t, a, r\<rangle> R"

fun nodes_l :: "(nat \<times> nat tree) list \<Rightarrow> nat list" where
  "nodes_l [] = []"
| "nodes_l ((a, l) # L) = nodes_l L @ inorder l @ [a]"

fun nodes_r :: "(nat \<times> nat tree) list \<Rightarrow> nat list" where
  "nodes_r [] = []"
| "nodes_r ((a, r) # R) = a # inorder r @ nodes_r R"

lemma inorder_hang: "inorder (hang_l t L) = nodes_l L @ inorder t" "inorder (hang_r t R) = inorder t @ nodes_r R"
  by (induction t L rule: hang_l.induct; simp) (induction t R rule: hang_r.induct; simp)

fun place_of :: "(nat \<times> nat tree) list \<Rightarrow> place" where
  "place_of [] = Local"
| "place_of ((a, t) # L) = Elem a"

fun open_right :: "splay_head \<Rightarrow> splay_entry \<Rightarrow> (nat \<times> nat tree) list \<Rightarrow> nat option" where
  "open_right m n [] = spe_right n"
| "open_right m n ((a, l) # L) = SPLAY_RIGHT m a"

fun open_left :: "splay_head \<Rightarrow> splay_entry \<Rightarrow> (nat \<times> nat tree) list \<Rightarrow> nat option" where
  "open_left m n [] = spe_left n"
| "open_left m n ((a, r) # R) = SPLAY_LEFT m a"

fun chain_l :: "splay_head \<Rightarrow> splay_entry \<Rightarrow> (nat \<times> nat tree) list \<Rightarrow> bool" where
  "chain_l m n [] \<longleftrightarrow> True"
| "chain_l m n ((a, l) # L) \<longleftrightarrow> SPLAY_LEFT m a = sroot l \<and> sp_at m l \<and> open_right m n L = Some a \<and> chain_l m n L"

fun chain_r :: "splay_head \<Rightarrow> splay_entry \<Rightarrow> (nat \<times> nat tree) list \<Rightarrow> bool" where
  "chain_r m n [] \<longleftrightarrow> True"
| "chain_r m n ((a, r) # R) \<longleftrightarrow> SPLAY_RIGHT m a = sroot r \<and> sp_at m r \<and> open_left m n R = Some a \<and> chain_r m n R"

definition splaying :: "splay_head \<Rightarrow> splay_state \<Rightarrow> nat tree \<Rightarrow> (nat \<times> nat tree) list \<Rightarrow> (nat \<times> nat tree) list \<Rightarrow> bool" where
  "splaying m0 st t L R \<longleftrightarrow> sph_root (ss_head st) = sroot t \<and> sp_at (ss_head st) t \<and>
     chain_l (ss_head st) (ss_node st) L \<and> chain_r (ss_head st) (ss_node st) R \<and>
     ss_left st = place_of L \<and> ss_right st = place_of R \<and> distinct (nodes_l L @ inorder t @ nodes_r R) \<and>
     (\<forall>x. x \<notin> set (nodes_l L @ inorder t @ nodes_r R) \<longrightarrow> sp_nodes (ss_head st) x = sp_nodes m0 x)"

lemma splaying_start: "splaying m (splay_start m) t [] [] \<longleftrightarrow> splay_tree m t"
  by (auto simp: splaying_def splay_start_def splay_tree_def)

subsection \<open>What does not matter\<close>

lemma sp_at_cong: "(\<And>x. x \<in> set (inorder t) \<Longrightarrow> sp_nodes m' x = sp_nodes m x) \<Longrightarrow> sp_at m' t = sp_at m t"
  by (induction t) auto

lemma open_cong:
  "(\<And>x. x \<in> set (nodes_l L) \<Longrightarrow> sp_nodes m' x = sp_nodes m x) \<Longrightarrow> spe_right n' = spe_right n \<Longrightarrow> open_right m' n' L = open_right m n L"
  "(\<And>x. x \<in> set (nodes_r L) \<Longrightarrow> sp_nodes m' x = sp_nodes m x) \<Longrightarrow> spe_left n' = spe_left n \<Longrightarrow> open_left m' n' L = open_left m n L"
  by (cases L rule: place_of.cases; simp add: SPLAY_LEFT_def SPLAY_RIGHT_def)+

lemma chain_l_cong:
  "(\<And>x. x \<in> set (nodes_l L) \<Longrightarrow> sp_nodes m' x = sp_nodes m x) \<Longrightarrow> spe_right n' = spe_right n \<Longrightarrow>
   chain_l m' n' L = chain_l m n L"
proof (induction L rule: nodes_l.induct)
  case (2 a l L)
  then show ?case using sp_at_cong [of l m' m] open_cong(1) [of L m' m n' n] by (auto simp: SPLAY_LEFT_def)
qed simp

lemma chain_r_cong:
  "(\<And>x. x \<in> set (nodes_r R) \<Longrightarrow> sp_nodes m' x = sp_nodes m x) \<Longrightarrow> spe_left n' = spe_left n \<Longrightarrow>
   chain_r m' n' R = chain_r m n R"
proof (induction R rule: nodes_r.induct)
  case (2 a r R)
  then show ?case using sp_at_cong [of r m' m] open_cong(2) [of R m' m n' n] by (auto simp: SPLAY_RIGHT_def)
qed simp

lemma sp_nodes_put [simp]:
  "sp_nodes (sp_left a p m) x = (if x = a then sp_nodes m x\<lparr>spe_left := p\<rparr> else sp_nodes m x)"
  "sp_nodes (sp_right a p m) x = (if x = a then sp_nodes m x\<lparr>spe_right := p\<rparr> else sp_nodes m x)"
  "sph_root (sp_left a p m) = sph_root m" "sph_root (sp_right a p m) = sph_root m"
  by (simp_all add: sp_left_def sp_right_def)

lemma sp_at_put [simp]:
  "a \<notin> set (inorder t) \<Longrightarrow> sp_at (sp_left a p m) t = sp_at m t" "a \<notin> set (inorder t) \<Longrightarrow> sp_at (sp_right a p m) t = sp_at m t"
  "sp_at (m\<lparr>sph_root := q\<rparr>) t = sp_at m t"
  by (rule sp_at_cong; auto)+

lemma chain_put [simp]:
  "a \<notin> set (nodes_l L) \<Longrightarrow> chain_l (sp_left a p m) n L = chain_l m n L"
  "a \<notin> set (nodes_l L) \<Longrightarrow> chain_l (sp_right a p m) n L = chain_l m n L"
  "a \<notin> set (nodes_r R) \<Longrightarrow> chain_r (sp_left a p m) n R = chain_r m n R"
  "a \<notin> set (nodes_r R) \<Longrightarrow> chain_r (sp_right a p m) n R = chain_r m n R"
  "chain_l (m\<lparr>sph_root := q\<rparr>) n L = chain_l m n L" "chain_r (m\<lparr>sph_root := q\<rparr>) n R = chain_r m n R"
  "chain_l m (n\<lparr>spe_left := p\<rparr>) L = chain_l m n L" "chain_r m (n\<lparr>spe_right := p\<rparr>) R = chain_r m n R"
  by (rule chain_l_cong chain_r_cong; auto)+

lemma open_put [simp]:
  "a \<notin> set (nodes_l L) \<Longrightarrow> open_right (sp_left a p m) n L = open_right m n L"
  "a \<notin> set (nodes_l L) \<Longrightarrow> open_right (sp_right a p m) n L = open_right m n L"
  "a \<notin> set (nodes_r R) \<Longrightarrow> open_left (sp_left a p m) n R = open_left m n R"
  "a \<notin> set (nodes_r R) \<Longrightarrow> open_left (sp_right a p m) n R = open_left m n R"
  "open_right (m\<lparr>sph_root := q\<rparr>) n L = open_right m n L" "open_left (m\<lparr>sph_root := q\<rparr>) n R = open_left m n R"
  "open_right m (n\<lparr>spe_left := p\<rparr>) L = open_right m n L" "open_left m (n\<lparr>spe_right := p\<rparr>) R = open_left m n R"
  by (rule open_cong; auto)+

lemmas sp_defs = SPLAY_LEFT_def SPLAY_RIGHT_def SPLAY_ROOT_def

text \<open>The open ends are where the state says; setting one leaves the rest of its chain as it is.\<close>

lemma chain_top_left:
  "chain_r m n ((a, r) # R) \<Longrightarrow> distinct (nodes_r ((a, r) # R)) \<Longrightarrow> chain_r (sp_left a p m) n ((a, r) # R)"
  by (auto simp: SPLAY_RIGHT_def)

lemma chain_top_right:
  "chain_l m n ((a, l) # L) \<Longrightarrow> distinct (nodes_l ((a, l) # L)) \<Longrightarrow> chain_l (sp_right a p m) n ((a, l) # L)"
  by (auto simp: SPLAY_LEFT_def)

lemma left_at_chain:
  assumes "chain_l (ss_head st) (ss_node st) L" "chain_r (ss_head st) (ss_node st) R" "sp_at (ss_head st) t"
    and "distinct (nodes_l L @ inorder t @ nodes_r R)" and st': "st' = left_at (place_of R) p st"
  shows "chain_l (ss_head st') (ss_node st') L" "chain_r (ss_head st') (ss_node st') R" "sp_at (ss_head st') t"
    and "open_left (ss_head st') (ss_node st') R = p" "open_right (ss_head st') (ss_node st') L = open_right (ss_head st) (ss_node st) L"
    and "sph_root (ss_head st') = sph_root (ss_head st)" "ss_left st' = ss_left st" "ss_right st' = ss_right st"
    and "x \<notin> set (nodes_r R) \<Longrightarrow> sp_nodes (ss_head st') x = sp_nodes (ss_head st) x"
proof -
  have "chain_l (ss_head st') (ss_node st') L \<and> chain_r (ss_head st') (ss_node st') R \<and> sp_at (ss_head st') t \<and>
      open_left (ss_head st') (ss_node st') R = p \<and> open_right (ss_head st') (ss_node st') L = open_right (ss_head st) (ss_node st) L"
  proof (cases R rule: place_of.cases)
    case 1
    then show ?thesis using assms by (simp add: left_at_def)
  next
    case (2 a r R')
    then show ?thesis
      using assms chain_top_left [of "ss_head st" "ss_node st" a r R' p]
      by (auto simp: left_at_def sp_defs)
  qed
  then show "chain_l (ss_head st') (ss_node st') L" "chain_r (ss_head st') (ss_node st') R" "sp_at (ss_head st') t"
    "open_left (ss_head st') (ss_node st') R = p" "open_right (ss_head st') (ss_node st') L = open_right (ss_head st) (ss_node st) L"
    by blast+
  show "sph_root (ss_head st') = sph_root (ss_head st)" "ss_left st' = ss_left st" "ss_right st' = ss_right st"
    "x \<notin> set (nodes_r R) \<Longrightarrow> sp_nodes (ss_head st') x = sp_nodes (ss_head st) x"
    by (cases R rule: place_of.cases; auto simp: st' left_at_def)+
qed

lemma right_at_chain:
  assumes "chain_l (ss_head st) (ss_node st) L" "chain_r (ss_head st) (ss_node st) R" "sp_at (ss_head st) t"
    and "distinct (nodes_l L @ inorder t @ nodes_r R)" and st': "st' = right_at (place_of L) p st"
  shows "chain_l (ss_head st') (ss_node st') L" "chain_r (ss_head st') (ss_node st') R" "sp_at (ss_head st') t"
    and "open_right (ss_head st') (ss_node st') L = p" "open_left (ss_head st') (ss_node st') R = open_left (ss_head st) (ss_node st) R"
    and "sph_root (ss_head st') = sph_root (ss_head st)" "ss_left st' = ss_left st" "ss_right st' = ss_right st"
    and "x \<notin> set (nodes_l L) \<Longrightarrow> sp_nodes (ss_head st') x = sp_nodes (ss_head st) x"
proof -
  have "chain_l (ss_head st') (ss_node st') L \<and> chain_r (ss_head st') (ss_node st') R \<and> sp_at (ss_head st') t \<and>
      open_right (ss_head st') (ss_node st') L = p \<and> open_left (ss_head st') (ss_node st') R = open_left (ss_head st) (ss_node st) R"
  proof (cases L rule: place_of.cases)
    case 1
    then show ?thesis using assms by (simp add: right_at_def)
  next
    case (2 a l L')
    then show ?thesis
      using assms chain_top_right [of "ss_head st" "ss_node st" a l L' p]
      by (auto simp: right_at_def sp_defs)
  qed
  then show "chain_l (ss_head st') (ss_node st') L" "chain_r (ss_head st') (ss_node st') R" "sp_at (ss_head st') t"
    "open_right (ss_head st') (ss_node st') L = p" "open_left (ss_head st') (ss_node st') R = open_left (ss_head st) (ss_node st) R"
    by blast+
  show "sph_root (ss_head st') = sph_root (ss_head st)" "ss_left st' = ss_left st" "ss_right st' = ss_right st"
    "x \<notin> set (nodes_l L) \<Longrightarrow> sp_nodes (ss_head st') x = sp_nodes (ss_head st) x"
    by (cases L rule: place_of.cases; auto simp: st' right_at_def)+
qed

subsection \<open>The steps\<close>

lemma link_left:
  assumes s: "splaying m0 st \<langle>l, a, r\<rangle> L R"
  shows "\<exists>st'. SPLAY_LINKLEFT st = Some st' \<and> splaying m0 st' l L ((a, r) # R)"
proof -
  define st1 where "st1 = left_at (place_of R) (Some a) st"
  note c = left_at_chain [of st L R "\<langle>l, a, r\<rangle>" st1 "Some a"]
  define st' where "st' = st1\<lparr>ss_right := Elem a, ss_head := (ss_head st1)\<lparr>sph_root := sroot l\<rparr>\<rparr>"
  have a: "sp_nodes (ss_head st1) a = \<lparr>spe_left = sroot l, spe_right = sroot r\<rparr>" "sp_at (ss_head st1) l" "sp_at (ss_head st1) r"
    "chain_l (ss_head st1) (ss_node st1) L" "chain_r (ss_head st1) (ss_node st1) R" "open_left (ss_head st1) (ss_node st1) R = Some a"
    "ss_left st1 = place_of L" "ss_right st1 = place_of R"
    using s c by (simp_all add: splaying_def st1_def)
  have same: "x \<notin> set (nodes_r R) \<Longrightarrow> sp_nodes (ss_head st1) x = sp_nodes (ss_head st) x" for x
    using s c(9) by (simp add: splaying_def st1_def)
  have "SPLAY_LINKLEFT st = Some st'"
    using s a(1) by (simp add: SPLAY_LINKLEFT_def splaying_def st'_def st1_def [symmetric] sp_defs)
  moreover have "splaying m0 st' l L ((a, r) # R)"
    using s a same by (auto simp: splaying_def st'_def sp_defs)
  ultimately show ?thesis by blast
qed

lemma link_right:
  assumes s: "splaying m0 st \<langle>l, a, r\<rangle> L R"
  shows "\<exists>st'. SPLAY_LINKRIGHT st = Some st' \<and> splaying m0 st' r ((a, l) # L) R"
proof -
  define st1 where "st1 = right_at (place_of L) (Some a) st"
  note c = right_at_chain [of st L R "\<langle>l, a, r\<rangle>" st1 "Some a"]
  define st' where "st' = st1\<lparr>ss_left := Elem a, ss_head := (ss_head st1)\<lparr>sph_root := sroot r\<rparr>\<rparr>"
  have a: "sp_nodes (ss_head st1) a = \<lparr>spe_left = sroot l, spe_right = sroot r\<rparr>" "sp_at (ss_head st1) l" "sp_at (ss_head st1) r"
    "chain_l (ss_head st1) (ss_node st1) L" "chain_r (ss_head st1) (ss_node st1) R" "open_right (ss_head st1) (ss_node st1) L = Some a"
    "ss_left st1 = place_of L" "ss_right st1 = place_of R"
    using s c by (simp_all add: splaying_def st1_def)
  have same: "x \<notin> set (nodes_l L) \<Longrightarrow> sp_nodes (ss_head st1) x = sp_nodes (ss_head st) x" for x
    using s c(9) by (simp add: splaying_def st1_def)
  have "SPLAY_LINKRIGHT st = Some st'"
    using s a(1) by (simp add: SPLAY_LINKRIGHT_def splaying_def st'_def st1_def [symmetric] sp_defs)
  moreover have "splaying m0 st' r ((a, l) # L) R"
    using s a same by (auto simp: splaying_def st'_def sp_defs)
  ultimately show ?thesis by blast
qed

lemma rotate_right_splaying:
  assumes s: "splaying m0 st \<langle>\<langle>x, b, y\<rangle>, a, z\<rangle> L R"
  shows "\<exists>m'. SPLAY_ROTATE_RIGHT b (ss_head st) = Some m' \<and> splaying m0 (st\<lparr>ss_head := m'\<rparr>) \<langle>x, b, \<langle>y, a, z\<rangle>\<rangle> L R"
proof -
  define m' where "m' = sp_right b (Some a) (sp_left a (sroot y) (ss_head st))\<lparr>sph_root := Some b\<rparr>"
  have "SPLAY_ROTATE_RIGHT b (ss_head st) = Some m'"
    using s by (simp add: SPLAY_ROTATE_RIGHT_def splaying_def m'_def sp_defs)
  moreover have "splaying m0 (st\<lparr>ss_head := m'\<rparr>) \<langle>x, b, \<langle>y, a, z\<rangle>\<rangle> L R"
    using s by (auto simp: splaying_def m'_def)
  ultimately show ?thesis by blast
qed

lemma rotate_left_splaying:
  assumes s: "splaying m0 st \<langle>x, a, \<langle>y, b, z\<rangle>\<rangle> L R"
  shows "\<exists>m'. SPLAY_ROTATE_LEFT b (ss_head st) = Some m' \<and> splaying m0 (st\<lparr>ss_head := m'\<rparr>) \<langle>\<langle>x, a, y\<rangle>, b, z\<rangle> L R"
proof -
  define m' where "m' = sp_left b (Some a) (sp_right a (sroot y) (ss_head st))\<lparr>sph_root := Some b\<rparr>"
  have "SPLAY_ROTATE_LEFT b (ss_head st) = Some m'"
    using s by (simp add: SPLAY_ROTATE_LEFT_def splaying_def m'_def sp_defs)
  moreover have "splaying m0 (st\<lparr>ss_head := m'\<rparr>) \<langle>\<langle>x, a, y\<rangle>, b, z\<rangle> L R"
    using s by (auto simp: splaying_def m'_def)
  ultimately show ?thesis by blast
qed

text \<open>Putting the pieces together again.\<close>

lemma hang_l_at:
  "chain_l m n L \<Longrightarrow> open_right m n L = sroot t \<Longrightarrow> sp_at m t \<Longrightarrow> sp_at m (hang_l t L) \<and> spe_right n = sroot (hang_l t L)"
proof (induction t L rule: hang_l.induct)
  case (2 t a l L)
  have "sp_nodes m a = \<lparr>spe_left = sroot l, spe_right = sroot t\<rparr>"
    using 2(2,3) by (cases "sp_nodes m a") (simp add: sp_defs)
  then show ?case using 2 by simp
qed simp

lemma hang_r_at:
  "chain_r m n R \<Longrightarrow> open_left m n R = sroot t \<Longrightarrow> sp_at m t \<Longrightarrow> sp_at m (hang_r t R) \<and> spe_left n = sroot (hang_r t R)"
proof (induction t R rule: hang_r.induct)
  case (2 t a r R)
  have "sp_nodes m a = \<lparr>spe_left = sroot t, spe_right = sroot r\<rparr>"
    using 2(2,3) by (cases "sp_nodes m a") (simp add: sp_defs)
  then show ?case using 2 by simp
qed simp

lemma assemble:
  assumes s: "splaying m0 st \<langle>l, a, r\<rangle> L R"
  shows "\<exists>m'. SPLAY_ASSEMBLE st = Some m' \<and> splay_tree m' \<langle>hang_l l L, a, hang_r r R\<rangle> \<and>
    (\<forall>x. x \<notin> set (nodes_l L @ inorder \<langle>l, a, r\<rangle> @ nodes_r R) \<longrightarrow> sp_nodes m' x = sp_nodes m0 x)"
proof -
  define st1 where "st1 = right_at (place_of L) (sroot l) st"
  define st2 where "st2 = left_at (place_of R) (sroot r) st1"
  note s' = s [unfolded splaying_def]
  note c1 = right_at_chain [of st L R "\<langle>l, a, r\<rangle>" st1 "sroot l"]
  have 1: "chain_l (ss_head st1) (ss_node st1) L" "chain_r (ss_head st1) (ss_node st1) R" "sp_at (ss_head st1) \<langle>l, a, r\<rangle>"
    "open_right (ss_head st1) (ss_node st1) L = sroot l" "sph_root (ss_head st1) = Some a" "ss_right st1 = place_of R"
    using s' c1 by (simp_all add: st1_def)
  note c2 = left_at_chain [OF 1(1-3) _ st2_def]
  have 2: "chain_l (ss_head st2) (ss_node st2) L" "chain_r (ss_head st2) (ss_node st2) R" "sp_at (ss_head st2) \<langle>l, a, r\<rangle>"
    "open_left (ss_head st2) (ss_node st2) R = sroot r" "open_right (ss_head st2) (ss_node st2) L = sroot l"
    "sph_root (ss_head st2) = Some a"
    using s' c2 1(4,5) by simp_all
  have l: "sp_at (ss_head st2) (hang_l l L)" "spe_right (ss_node st2) = sroot (hang_l l L)"
    using hang_l_at [OF 2(1,5)] 2(3) by auto
  have r: "sp_at (ss_head st2) (hang_r r R)" "spe_left (ss_node st2) = sroot (hang_r r R)"
    using hang_r_at [OF 2(2,4)] 2(3) by auto
  define m' where "m' = sp_right a (sroot (hang_r r R)) (sp_left a (sroot (hang_l l L)) (ss_head st2))"
  have "sp_nodes (ss_head st1) x = sp_nodes (ss_head st) x" if "x \<notin> set (nodes_l L)" for x
    using s' c1(9) that by (simp add: st1_def)
  moreover have "sp_nodes (ss_head st2) x = sp_nodes (ss_head st1) x" if "x \<notin> set (nodes_r R)" for x
    using s' c2(9) that 1(4) by simp
  ultimately have "sp_nodes m' x = sp_nodes m0 x" if "x \<notin> set (nodes_l L @ inorder \<langle>l, a, r\<rangle> @ nodes_r R)" for x
    using s' that by (simp add: m'_def)
  moreover have "SPLAY_ASSEMBLE st = Some m'"
    using s' 1(3,6) l(2) r(2) by (simp add: SPLAY_ASSEMBLE_def sp_defs st1_def [symmetric] st2_def [symmetric] m'_def Let_def)
  moreover have "splay_tree m' \<langle>hang_l l L, a, hang_r r R\<rangle>"
    using l(1) r(1) 2(6) s' by (auto simp: splay_tree_def m'_def inorder_hang)
  ultimately show ?thesis by blast
qed


subsection \<open>The loop\<close>

text \<open>One round: the loop is left with an empty left subtree, or a node with its right subtree was cut off.\<close>

definition left_round :: "splay_head \<Rightarrow> (nat \<Rightarrow> bool) \<Rightarrow> splay_state \<Rightarrow> nat tree \<Rightarrow> (nat \<times> nat tree) list \<Rightarrow> (nat \<times> nat tree) list \<Rightarrow> bool" where
  "left_round m0 f st t L R \<longleftrightarrow>
     (\<exists>st' b r'. splay_left f st = Some (True, st') \<and> splaying m0 st' \<langle>\<langle>\<rangle>, b, r'\<rangle> L R \<and> b # inorder r' = inorder t \<and>
       (Some b = sroot t \<or> f b)) \<or>
     (\<exists>st' t' b r'. splay_left f st = Some (False, st') \<and> splaying m0 st' t' L ((b, r') # R) \<and> t' \<noteq> \<langle>\<rangle> \<and> size t' < size t \<and>
       inorder t' @ b # inorder r' = inorder t \<and> (Some b = sroot t \<or> f b))"

definition right_round :: "splay_head \<Rightarrow> (nat \<Rightarrow> bool) \<Rightarrow> splay_state \<Rightarrow> nat tree \<Rightarrow> (nat \<times> nat tree) list \<Rightarrow> (nat \<times> nat tree) list \<Rightarrow> bool" where
  "right_round m0 f st t L R \<longleftrightarrow>
     (\<exists>st' b l'. splay_right f st = Some (True, st') \<and> splaying m0 st' \<langle>l', b, \<langle>\<rangle>\<rangle> L R \<and> inorder l' @ [b] = inorder t \<and>
       (Some b = sroot t \<or> f b)) \<or>
     (\<exists>st' t' b l'. splay_right f st = Some (False, st') \<and> splaying m0 st' t' ((b, l') # L) R \<and> t' \<noteq> \<langle>\<rangle> \<and> size t' < size t \<and>
       inorder l' @ b # inorder t' = inorder t \<and> (Some b = sroot t \<or> f b))"

lemma splay_left_round:
  assumes s: "splaying m0 st t L R" and "t \<noteq> \<langle>\<rangle>"
  shows "left_round m0 f st t L R"
proof -
  obtain l a r where t: "t = \<langle>l, a, r\<rangle>" using assms(2) by (cases t) auto
  have root: "sph_root (ss_head st) = Some a" "SPLAY_LEFT (ss_head st) a = sroot l" using s t by (simp_all add: splaying_def sp_defs)
  show ?thesis
  proof (cases l)
    case Leaf
    then show ?thesis using s t root by (auto simp: left_round_def splay_left_def)
  next
    case l: (Node x b y)
    show ?thesis
    proof (cases "f b")
      case False
      obtain st' where "SPLAY_LINKLEFT st = Some st'" "splaying m0 st' l L ((a, r) # R)"
        using link_left s t by blast
      moreover from this have "splay_left f st = Some (False, st')" using root l False by (simp add: splay_left_def)
      ultimately show ?thesis
        unfolding left_round_def using l t by (intro disjI2 exI [of _ st'] exI [of _ l] exI [of _ a] exI [of _ r]) simp
    next
      case True
      obtain m' where m': "SPLAY_ROTATE_RIGHT b (ss_head st) = Some m'" "splaying m0 (st\<lparr>ss_head := m'\<rparr>) \<langle>x, b, \<langle>y, a, r\<rangle>\<rangle> L R"
        using rotate_right_splaying s t l by blast
      have root': "sph_root m' = Some b" "SPLAY_LEFT m' b = sroot x" using m'(2) by (simp_all add: splaying_def sp_defs)
      show ?thesis
      proof (cases x)
        case Leaf
        then show ?thesis using root root' m' l True t by (auto simp: left_round_def splay_left_def)
      next
        case (Node x1 c x2)
        obtain st' where "SPLAY_LINKLEFT (st\<lparr>ss_head := m'\<rparr>) = Some st'" "splaying m0 st' x L ((b, \<langle>y, a, r\<rangle>) # R)"
          using link_left m'(2) by blast
        moreover from this have "splay_left f st = Some (False, st')" using root root' m'(1) l True Node by (simp add: splay_left_def)
        ultimately show ?thesis
          unfolding left_round_def using l t True Node
          by (intro disjI2 exI [of _ st'] exI [of _ x] exI [of _ b] exI [of _ "\<langle>y, a, r\<rangle>"]) simp
      qed
    qed
  qed
qed

lemma splay_right_round:
  assumes s: "splaying m0 st t L R" and "t \<noteq> \<langle>\<rangle>"
  shows "right_round m0 f st t L R"
proof -
  obtain l a r where t: "t = \<langle>l, a, r\<rangle>" using assms(2) by (cases t) auto
  have root: "sph_root (ss_head st) = Some a" "SPLAY_RIGHT (ss_head st) a = sroot r" using s t by (simp_all add: splaying_def sp_defs)
  show ?thesis
  proof (cases r)
    case Leaf
    then show ?thesis using s t root by (auto simp: right_round_def splay_right_def)
  next
    case r: (Node x b y)
    show ?thesis
    proof (cases "f b")
      case False
      obtain st' where "SPLAY_LINKRIGHT st = Some st'" "splaying m0 st' r ((a, l) # L) R"
        using link_right s t by blast
      moreover from this have "splay_right f st = Some (False, st')" using root r False by (simp add: splay_right_def)
      ultimately show ?thesis
        unfolding right_round_def using r t by (intro disjI2 exI [of _ st'] exI [of _ r] exI [of _ a] exI [of _ l]) simp
    next
      case True
      obtain m' where m': "SPLAY_ROTATE_LEFT b (ss_head st) = Some m'" "splaying m0 (st\<lparr>ss_head := m'\<rparr>) \<langle>\<langle>l, a, x\<rangle>, b, y\<rangle> L R"
        using rotate_left_splaying s t r by blast
      have root': "sph_root m' = Some b" "SPLAY_RIGHT m' b = sroot y" using m'(2) by (simp_all add: splaying_def sp_defs)
      show ?thesis
      proof (cases y)
        case Leaf
        then show ?thesis using root root' m' r True t by (auto simp: right_round_def splay_right_def)
      next
        case (Node y1 c y2)
        obtain st' where "SPLAY_LINKRIGHT (st\<lparr>ss_head := m'\<rparr>) = Some st'" "splaying m0 st' y ((b, \<langle>l, a, x\<rangle>) # L) R"
          using link_right m'(2) by blast
        moreover from this have "splay_right f st = Some (False, st')" using root root' m'(1) r True Node by (simp add: splay_right_def)
        ultimately show ?thesis
          unfolding right_round_def using r t True Node
          by (intro disjI2 exI [of _ st'] exI [of _ y] exI [of _ b] exI [of _ "\<langle>l, a, x\<rangle>"]) simp
      qed
    qed
  qed
qed

definition beside :: "(nat \<Rightarrow> 'k::linorder) \<Rightarrow> nat \<Rightarrow> nat list \<Rightarrow> nat list \<Rightarrow> bool" where
  "beside key e xs ys \<longleftrightarrow> (\<forall>x \<in> set xs. key x < key e) \<and> (\<forall>y \<in> set ys. key e < key y)"

text \<open>What splaying is for: the root separates the nodes below from those above the key.\<close>

fun parted :: "(nat \<Rightarrow> 'k::linorder) \<Rightarrow> nat \<Rightarrow> nat tree \<Rightarrow> bool" where
  "parted key e \<langle>\<rangle> \<longleftrightarrow> False"
| "parted key e \<langle>l, a, r\<rangle> \<longleftrightarrow> beside key e (inorder l) (inorder r)"

definition splayed :: "splay_head \<Rightarrow> (nat \<Rightarrow> 'k::linorder) \<Rightarrow> (nat \<Rightarrow> nat \<Rightarrow> int) \<Rightarrow> nat \<Rightarrow> splay_state \<Rightarrow> nat list \<Rightarrow> bool" where
  "splayed m0 key cmp e st xs \<longleftrightarrow> (\<exists>st' t L R. splay_loop cmp e st = Some st' \<and> splaying m0 st' t L R \<and>
     beside key e (nodes_l L) (nodes_r R) \<and> nodes_l L @ inorder t @ nodes_r R = xs \<and> parted key e t)"

lemma splayedI:
  "splay_loop cmp e st = Some st' \<Longrightarrow> splaying m0 st' t L R \<Longrightarrow> beside key e (nodes_l L) (nodes_r R) \<Longrightarrow> parted key e t \<Longrightarrow>
   xs = nodes_l L @ inorder t @ nodes_r R \<Longrightarrow> splayed m0 key cmp e st xs"
  unfolding splayed_def by blast

lemma splayed_next: "splay_loop cmp e st = splay_loop cmp e st' \<Longrightarrow> splayed m0 key cmp e st' xs \<Longrightarrow> splayed m0 key cmp e st xs"
  by (simp add: splayed_def)

lemma splay_loop_lt:
  assumes cmp: "\<And>x. cmp e x < 0 \<longleftrightarrow> key e < key x" and s: "splaying m0 st t L R" "sroot t = Some a" "key e < key a"
    and side: "beside key e (nodes_l L) (nodes_r R)" and ord: "in_order key (inorder t)"
    and IH: "\<And>st' t' R'. splaying m0 st' t' L R' \<Longrightarrow> t' \<noteq> \<langle>\<rangle> \<Longrightarrow> size t' < size t \<Longrightarrow> beside key e (nodes_l L) (nodes_r R') \<Longrightarrow>
      in_order key (inorder t') \<Longrightarrow> splayed m0 key cmp e st' (nodes_l L @ inorder t' @ nodes_r R')"
  shows "splayed m0 key cmp e st (nodes_l L @ inorder t @ nodes_r R)"
proof -
  let ?f = "\<lambda>tmp. cmp e tmp < 0"
  have root: "sph_root (ss_head st) = Some a" using s by (simp add: splaying_def)
  have loop: "splay_loop cmp e st = do { (break, st) \<leftarrow> splay_left ?f st; if break then Some st else splay_loop cmp e st }"
    using root s(3) cmp [of a] by (subst splay_loop.simps) simp
  have "left_round m0 ?f st t L R" using splay_left_round s(1,2) by (metis option.distinct(1) sroot.simps(1))
  then consider (stop) st' b r' where "splay_left ?f st = Some (True, st')" "splaying m0 st' \<langle>\<langle>\<rangle>, b, r'\<rangle> L R"
      "b # inorder r' = inorder t" "Some b = sroot t \<or> cmp e b < 0"
    | (go) st' t' b r' where "splay_left ?f st = Some (False, st')" "splaying m0 st' t' L ((b, r') # R)" "t' \<noteq> \<langle>\<rangle>"
      "size t' < size t" "inorder t' @ b # inorder r' = inorder t" "Some b = sroot t \<or> cmp e b < 0"
    unfolding left_round_def by blast
  then show ?thesis
  proof cases
    case stop
    have b: "key e < key b" using stop(4) s(2,3) cmp by auto
    have "in_order key (b # inorder r')" using ord stop(3) by simp
    then have "parted key e \<langle>\<langle>\<rangle>, b, r'\<rangle>" using b by (force simp: beside_def)
    moreover have "nodes_l L @ inorder t @ nodes_r R = nodes_l L @ inorder \<langle>\<langle>\<rangle>, b, r'\<rangle> @ nodes_r R"
      by (simp add: stop(3) [symmetric])
    moreover have "splay_loop cmp e st = Some st'" using loop stop(1) by simp
    ultimately show ?thesis using splayedI stop(2) side by blast
  next
    case go
    have b: "key e < key b" using go(6) s(2,3) cmp by auto
    have o: "in_order key (inorder t' @ b # inorder r')" using ord go(5) by simp
    then have "beside key e (nodes_l L) (nodes_r ((b, r') # R))" using b side by (force simp: beside_def sorted_wrt_append)
    then have "splayed m0 key cmp e st' (nodes_l L @ inorder t' @ nodes_r ((b, r') # R))"
      using IH [OF go(2-4)] o by (simp add: sorted_wrt_append)
    moreover have "inorder t @ nodes_r R = inorder t' @ nodes_r ((b, r') # R)" by (simp add: go(5) [symmetric])
    moreover have "splay_loop cmp e st = splay_loop cmp e st'" using loop go(1) by simp
    ultimately show ?thesis using splayed_next by metis
  qed
qed

lemma splay_loop_gt:
  assumes cmp: "\<And>x. cmp e x > 0 \<longleftrightarrow> key e > key x" and s: "splaying m0 st t L R" "sroot t = Some a" "key e > key a"
    and side: "beside key e (nodes_l L) (nodes_r R)" and ord: "in_order key (inorder t)"
    and IH: "\<And>st' t' L'. splaying m0 st' t' L' R \<Longrightarrow> t' \<noteq> \<langle>\<rangle> \<Longrightarrow> size t' < size t \<Longrightarrow> beside key e (nodes_l L') (nodes_r R) \<Longrightarrow>
      in_order key (inorder t') \<Longrightarrow> splayed m0 key cmp e st' (nodes_l L' @ inorder t' @ nodes_r R)"
  shows "splayed m0 key cmp e st (nodes_l L @ inorder t @ nodes_r R)"
proof -
  let ?f = "\<lambda>tmp. cmp e tmp > 0"
  have root: "sph_root (ss_head st) = Some a" using s by (simp add: splaying_def)
  have loop: "splay_loop cmp e st = do { (break, st) \<leftarrow> splay_right ?f st; if break then Some st else splay_loop cmp e st }"
    using root s(3) cmp [of a] by (subst splay_loop.simps) auto
  have "right_round m0 ?f st t L R" using splay_right_round s(1,2) by (metis option.distinct(1) sroot.simps(1))
  then consider (stop) st' b l' where "splay_right ?f st = Some (True, st')" "splaying m0 st' \<langle>l', b, \<langle>\<rangle>\<rangle> L R"
      "inorder l' @ [b] = inorder t" "Some b = sroot t \<or> cmp e b > 0"
    | (go) st' t' b l' where "splay_right ?f st = Some (False, st')" "splaying m0 st' t' ((b, l') # L) R" "t' \<noteq> \<langle>\<rangle>"
      "size t' < size t" "inorder l' @ b # inorder t' = inorder t" "Some b = sroot t \<or> cmp e b > 0"
    unfolding right_round_def by blast
  then show ?thesis
  proof cases
    case stop
    have b: "key e > key b" using stop(4) s(2,3) cmp by auto
    have "in_order key (inorder l' @ [b])" using ord stop(3) by simp
    then have "parted key e \<langle>l', b, \<langle>\<rangle>\<rangle>" using b by (force simp: beside_def sorted_wrt_append)
    moreover have "nodes_l L @ inorder t @ nodes_r R = nodes_l L @ inorder \<langle>l', b, \<langle>\<rangle>\<rangle> @ nodes_r R"
      by (simp add: stop(3) [symmetric])
    moreover have "splay_loop cmp e st = Some st'" using loop stop(1) by simp
    ultimately show ?thesis using splayedI stop(2) side by blast
  next
    case go
    have b: "key e > key b" using go(6) s(2,3) cmp by auto
    have o: "in_order key (inorder l' @ b # inorder t')" using ord go(5) by simp
    then have "beside key e (nodes_l ((b, l') # L)) (nodes_r R)" using b side by (force simp: beside_def sorted_wrt_append)
    then have "splayed m0 key cmp e st' (nodes_l ((b, l') # L) @ inorder t' @ nodes_r R)"
      using IH [OF go(2-4)] o by (simp add: sorted_wrt_append)
    moreover have "nodes_l L @ inorder t @ nodes_r R = nodes_l ((b, l') # L) @ inorder t' @ nodes_r R" by (simp add: go(5) [symmetric])
    moreover have "splay_loop cmp e st = splay_loop cmp e st'" using loop go(1) by simp
    ultimately show ?thesis using splayed_next by metis
  qed
qed

lemma splay_loop_ok:
  assumes "cmp_by key cmp"
  shows "splaying m0 st t L R \<Longrightarrow> t \<noteq> \<langle>\<rangle> \<Longrightarrow> beside key e (nodes_l L) (nodes_r R) \<Longrightarrow> in_order key (inorder t) \<Longrightarrow>
    splayed m0 key cmp e st (nodes_l L @ inorder t @ nodes_r R)"
proof (induction "size t" arbitrary: st t L R rule: less_induct)
  case less
  obtain l a r where t: "t = \<langle>l, a, r\<rangle>" using less.prems(2) by (cases t) auto
  have cmp: "cmp e x < 0 \<longleftrightarrow> key e < key x" "cmp e x > 0 \<longleftrightarrow> key e > key x" for x
    using assms by (auto simp: cmp_by_def)
  have root: "sroot t = Some a" using t by simp
  consider "key e < key a" | "key e > key a" | "key e = key a" by force
  then show ?case
  proof cases
    case 1
    show ?thesis
      by (rule splay_loop_lt [where a = a]) (use cmp(1) less.prems root 1 less.hyps in blast)+
  next
    case 2
    show ?thesis
      by (rule splay_loop_gt [where a = a]) (use cmp(2) less.prems root 2 less.hyps in blast)+
  next
    case eq: 3
    have "sph_root (ss_head st) = Some a" using less.prems(1) t by (simp add: splaying_def)
    then have "splay_loop cmp e st = Some st" using eq cmp [of a] by (subst splay_loop.simps) auto
    moreover have "parted key e t" using less.prems(4) eq t by (auto simp: beside_def sorted_wrt_append)
    ultimately show ?thesis using less.prems by (intro splayedI) simp_all
  qed
qed

lemma SPLAY_ok:
  assumes "cmp_by key cmp" "splay_tree m t" "t \<noteq> \<langle>\<rangle>" "in_order key (inorder t)"
  shows "\<exists>m' t'. SPLAY cmp e m = Some m' \<and> splay_tree m' t' \<and> inorder t' = inorder t \<and> parted key e t' \<and>
    (\<forall>x. x \<notin> set (inorder t) \<longrightarrow> sp_nodes m' x = sp_nodes m x)"
proof -
  obtain st u L R where 1: "splay_loop cmp e (splay_start m) = Some st" "splaying m st u L R" "beside key e (nodes_l L) (nodes_r R)"
    "nodes_l L @ inorder u @ nodes_r R = inorder t" "parted key e u"
    using splay_loop_ok [OF assms(1), of m "splay_start m" t "[]" "[]" e] assms(2-)
    by (auto simp: splaying_start beside_def splayed_def)
  obtain l a r where u: "u = \<langle>l, a, r\<rangle>" using 1(5) by (cases u) auto
  obtain m' where m': "SPLAY_ASSEMBLE st = Some m'" "splay_tree m' \<langle>hang_l l L, a, hang_r r R\<rangle>"
    "\<forall>x. x \<notin> set (inorder t) \<longrightarrow> sp_nodes m' x = sp_nodes m x"
    using assemble [OF 1(2) [unfolded u]] unfolding 1(4) [unfolded u] by blast
  moreover have "parted key e \<langle>hang_l l L, a, hang_r r R\<rangle>" using 1(3,5) u by (auto simp: beside_def inorder_hang)
  moreover have "inorder \<langle>hang_l l L, a, hang_r r R\<rangle> = inorder t" using 1(4) u by (simp add: inorder_hang)
  ultimately show ?thesis using 1(1) by (auto simp: SPLAY_def)
qed

end
