(* ===== verification/Tree_Splay_Ops.thy ===== *)
theory Tree_Splay_Ops
  imports Tree_Splay_Spec
begin

section \<open>The operations of splay trees\<close>

text \<open>
  A splay tree is a set of nodes in the order of their keys; every operation may change the shape of the tree, and only
  inserting and removing change the set.
\<close>

definition splay_set :: "(nat \<Rightarrow> 'k::linorder) \<Rightarrow> splay_head \<Rightarrow> nat list \<Rightarrow> bool" where
  "splay_set key m xs \<longleftrightarrow> (\<exists>t. splay_tree m t \<and> inorder t = xs) \<and> in_order key xs"

lemma splay_setI: "splay_tree m t \<Longrightarrow> inorder t = xs \<Longrightarrow> in_order key xs \<Longrightarrow> splay_set key m xs"
  unfolding splay_set_def by blast

lemma splay_set_empty:
  assumes "splay_set key m xs"
  shows "SPLAY_EMPTY m \<longleftrightarrow> xs = []"
proof -
  obtain t where "sph_root m = sroot t" "inorder t = xs" using assms by (auto simp: splay_set_def splay_tree_def)
  then show ?thesis by (cases t) (auto simp: SPLAY_EMPTY_def SPLAY_ROOT_def)
qed

text \<open>Splaying for a key keeps the set and parts it at the root.\<close>

lemma SPLAY_set:
  assumes "cmp_by key cmp" "splay_set key m xs" "xs \<noteq> []"
  obtains m' l a r where "SPLAY cmp e m = Some m'" "splay_tree m' \<langle>l, a, r\<rangle>" "inorder l @ a # inorder r = xs"
    "beside key e (inorder l) (inorder r)" "splay_set key m' xs"
proof -
  obtain t where t: "splay_tree m t" "inorder t = xs" "in_order key xs" "t \<noteq> \<langle>\<rangle>"
    using assms(2,3) by (auto simp: splay_set_def)
  obtain m' t' where m': "SPLAY cmp e m = Some m'" "splay_tree m' t'" "inorder t' = xs" "parted key e t'"
    using SPLAY_ok [OF assms(1) t(1,4), of e] t(2,3) by auto
  obtain l a r where t': "t' = \<langle>l, a, r\<rangle>" using m'(4) by (cases t') auto
  moreover have "splay_set key m' xs" using m'(2,3) t(3) by (rule splay_setI)
  ultimately show thesis using that [of m' l a r] m' by simp
qed

lemma key_root:
  assumes "beside key e xs ys" "key a = key e"
  shows "List.find (\<lambda>x. key x = key e) (xs @ a # ys) = Some a"
proof -
  have "List.find (\<lambda>x. key x = key e) xs = None" using assms(1) by (intro find_none) (auto simp: beside_def)
  then show ?thesis using assms(2) by (simp add: find_append)
qed

lemma root_only:
  assumes "beside key e xs ys" "x \<in> set (xs @ a # ys)" "key x = key e"
  shows "x = a"
  using assms by (fastforce simp: beside_def)

lemma no_key_root:
  assumes "beside key e xs ys" "key a \<noteq> key e"
  shows "List.find (\<lambda>x. key x = key e) (xs @ a # ys) = None"
  using assms by (intro find_none) (auto simp: beside_def)

lemma SPLAY_FIND_ok:
  assumes "cmp_by key cmp" "splay_set key m xs"
  shows "\<exists>m'. SPLAY_FIND cmp e m = Some (List.find (\<lambda>x. key x = key e) xs, m') \<and> splay_set key m' xs"
proof (cases "xs = []")
  case True
  then show ?thesis using assms(2) splay_set_empty [OF assms(2)] by (simp add: SPLAY_FIND_def)
next
  case False
  obtain m' l a r where s: "SPLAY cmp e m = Some m'" "splay_tree m' \<langle>l, a, r\<rangle>" "inorder l @ a # inorder r = xs"
    "beside key e (inorder l) (inorder r)" "splay_set key m' xs" using SPLAY_set [OF assms False] .
  have "cmp e a = 0 \<longleftrightarrow> key a = key e" using cmp_by_zero [OF assms(1)] by auto
  then show ?thesis
    using s splay_set_empty [OF assms(2)] False key_root [OF s(4)] no_key_root [OF s(4)]
    by (auto simp: SPLAY_FIND_def splay_tree_def)
qed

subsection \<open>Inserting and removing\<close>

lemma SPLAY_INSERT_old:
  assumes "cmp_by key cmp" "splay_set key m xs" "x \<in> set xs" "key x = key e"
  shows "\<exists>m'. SPLAY_INSERT cmp e m = Some (Some x, m') \<and> splay_set key m' xs"
proof -
  have "xs \<noteq> []" using assms(3) by auto
  obtain m' l a r where s: "SPLAY cmp e m = Some m'" "splay_tree m' \<langle>l, a, r\<rangle>" "inorder l @ a # inorder r = xs"
    "beside key e (inorder l) (inorder r)" "splay_set key m' xs" using SPLAY_set [OF assms(1,2) \<open>xs \<noteq> []\<close>] .
  have "x = a" by (rule root_only [OF s(4)]) (use assms(3,4) s(3) in auto)
  then show ?thesis
    using s splay_set_empty [OF assms(2)] \<open>xs \<noteq> []\<close> assms(1,4)
    by (auto simp: SPLAY_INSERT_def splay_tree_def cmp_by_def)
qed

lemma in_order_insort: "in_order key xs \<Longrightarrow> \<forall>x \<in> set xs. key x \<noteq> key e \<Longrightarrow> in_order key (insort_key key e xs)"
  by (induction xs) (auto simp: set_insort_key)

lemma SPLAY_INSERT_new:
  assumes "cmp_by key cmp" "splay_set key m xs" "\<forall>x \<in> set xs. key x \<noteq> key e"
  shows "\<exists>m'. SPLAY_INSERT cmp e m = Some (None, m') \<and> splay_set key m' (insort_key key e xs)"
proof (cases "xs = []")
  case True
  let ?m = "(sp_left e None (sp_right e None m))\<lparr>sph_root := Some e\<rparr>"
  have "splay_tree ?m \<langle>\<langle>\<rangle>, e, \<langle>\<rangle>\<rangle>" by (simp add: splay_tree_def)
  then show ?thesis using True splay_set_empty [OF assms(2)] by (auto simp: SPLAY_INSERT_def intro: splay_setI)
next
  case False
  obtain m1 l a r where s: "SPLAY cmp e m = Some m1" "splay_tree m1 \<langle>l, a, r\<rangle>" "inorder l @ a # inorder r = xs"
    "beside key e (inorder l) (inorder r)" "splay_set key m1 xs" using SPLAY_set [OF assms(1,2) False] .
  have o: "in_order key (insort_key key e xs)" using in_order_insort assms(2,3) by (auto simp: splay_set_def)
  have e: "e \<notin> set xs" "key e \<noteq> key a" using assms(3) s(3) by auto
  have root: "sph_root m1 = Some a" "SPLAY_LEFT m1 a = sroot l" "SPLAY_RIGHT m1 a = sroot r"
    using s(2) by (simp_all add: splay_tree_def sp_defs)
  show ?thesis
  proof (cases "key e < key a")
    case True
    define m' where "m' = (sp_left a None (sp_right e (Some a) (sp_left e (sroot l) m1)))\<lparr>sph_root := Some e\<rparr>"
    have "SPLAY_INSERT cmp e m = Some (None, m')"
      using s(1) root True assms(1) False splay_set_empty [OF assms(2)]
      by (simp add: SPLAY_INSERT_def cmp_by_def m'_def Let_def)
    moreover have "splay_tree m' \<langle>l, e, \<langle>\<langle>\<rangle>, a, r\<rangle>\<rangle>"
      using s(2,3) e(1) by (auto simp: splay_tree_def m'_def)
    moreover have "insort_key key e xs = inorder l @ e # a # inorder r"
      using s(3,4) True insort_between [of "inorder l" key e "a # inorder r"] by (auto simp: beside_def)
    ultimately show ?thesis using o splay_setI by fastforce
  next
    case f: False
    then have less: "key a < key e" using e(2) by simp
    define m' where "m' = (sp_right a None (sp_left e (Some a) (sp_right e (sroot r) m1)))\<lparr>sph_root := Some e\<rparr>"
    have "SPLAY_INSERT cmp e m = Some (None, m')"
      using s(1) root less assms(1) False splay_set_empty [OF assms(2)]
      by (auto simp: SPLAY_INSERT_def cmp_by_def m'_def Let_def)
    moreover have "splay_tree m' \<langle>\<langle>l, a, \<langle>\<rangle>\<rangle>, e, r\<rangle>"
      using s(2,3) e(1) by (auto simp: splay_tree_def m'_def)
    moreover have "insort_key key e xs = (inorder l @ [a]) @ e # inorder r"
      using s(3,4) less insort_between [of "inorder l @ [a]" key e "inorder r"] by (auto simp: beside_def)
    ultimately show ?thesis using o splay_setI by fastforce
  qed
qed

lemma SPLAY_REMOVE_ok:
  assumes "cmp_by key cmp" "splay_set key m xs" "e \<in> set xs"
  shows "\<exists>m'. SPLAY_REMOVE cmp e m = Some (Some e, m') \<and> splay_set key m' (remove1 e xs)"
proof -
  have "xs \<noteq> []" using assms(3) by auto
  obtain m1 l a r where s: "SPLAY cmp e m = Some m1" "splay_tree m1 \<langle>l, a, r\<rangle>" "inorder l @ a # inorder r = xs"
    "beside key e (inorder l) (inorder r)" "splay_set key m1 xs" using SPLAY_set [OF assms(1,2) \<open>xs \<noteq> []\<close>] .
  have a: "e = a" by (rule root_only [OF s(4)]) (use assms(3) s(3) in auto)
  have cmp: "cmp e e = 0" using cmp_by_zero [OF assms(1)] by simp
  have root: "sph_root m1 = Some e" "SPLAY_LEFT m1 e = sroot l" "SPLAY_RIGHT m1 e = sroot r"
    using s(2) a [symmetric] by (simp_all add: splay_tree_def sp_defs)
  have "e \<notin> set (inorder l)" using s(2) a [symmetric] by (auto simp: splay_tree_def)
  then have xs: "remove1 e xs = inorder l @ inorder r" unfolding s(3) [symmetric] a by (simp add: remove1_append)
  have o: "in_order key (inorder l @ inorder r)" "in_order key (inorder l)"
    using s(3,5) by (auto simp: splay_set_def sorted_wrt_append)
  show ?thesis
  proof (cases "l = \<langle>\<rangle>")
    case True
    have "splay_tree (m1\<lparr>sph_root := sroot r\<rparr>) r" using s(2) by (simp add: splay_tree_def)
    then have "splay_set key (m1\<lparr>sph_root := sroot r\<rparr>) (remove1 e xs)" using xs True o by (intro splay_setI) simp_all
    then show ?thesis
      using s(1) root cmp True splay_set_empty [OF assms(2)] \<open>xs \<noteq> []\<close> by (simp add: SPLAY_REMOVE_def)
  next
    case False
    then obtain c where l: "sroot l = Some c" by (cases l) auto
    let ?m = "m1\<lparr>sph_root := sroot l\<rparr>"
    have "splay_tree ?m l" using s(2) by (simp add: splay_tree_def)
    then obtain m2 t where m2: "SPLAY cmp e ?m = Some m2" "splay_tree m2 t" "inorder t = inorder l" "parted key e t"
      "\<forall>x. x \<notin> set (inorder l) \<longrightarrow> sp_nodes m2 x = sp_nodes ?m x"
      using SPLAY_ok [OF assms(1) _ False o(2)] by blast
    obtain l' b r' where t: "t = \<langle>l', b, r'\<rangle>" using m2(4) by (cases t) auto
    have i: "set (inorder l) = set (inorder l') \<union> {b} \<union> set (inorder r')" unfolding m2(3) [symmetric] t by simp
    have r': "r' = \<langle>\<rangle>"
    proof (cases r')
      case (Node u y v)
      then have "key y < key e" "key e < key y" using i s(4) m2(4) t by (simp_all add: beside_def)
      then show ?thesis by simp
    qed
    have "sp_at m2 r = sp_at ?m r" using m2(5) s(2) by (intro sp_at_cong) (auto simp: splay_tree_def)
    then have r: "sp_at m2 r" "distinct (inorder l @ inorder r)" using s(2) by (auto simp: splay_tree_def)
    have "b \<notin> set (inorder r)" using r(2) i by auto
    then have "splay_tree (sp_right b (sroot r) m2) \<langle>l', b, r\<rangle>" "inorder \<langle>l', b, r\<rangle> = inorder l @ inorder r"
      using m2(2) r unfolding m2(3) [symmetric] t r' by (auto simp: splay_tree_def)
    then have "splay_set key (sp_right b (sroot r) m2) (remove1 e xs)" using xs o splay_setI by metis
    moreover have "SPLAY_REMOVE cmp e m = Some (Some e, sp_right b (sroot r) m2)"
      using s(1) root cmp l m2(1,2) t splay_set_empty [OF assms(2)] \<open>xs \<noteq> []\<close>
      by (simp add: SPLAY_REMOVE_def splay_tree_def Let_def)
    ultimately show ?thesis by blast
  qed
qed

end
