(* ===== verification/Tree_Splay_Walk.thy ===== *)
theory Tree_Splay_Walk
  imports Tree_Splay_Ops
begin

section \<open>Walking through splay trees\<close>

subsection \<open>The ends\<close>

lemma minmax_splay_loop_min:
  assumes "val < 0"
  shows "splaying m0 st t L R \<Longrightarrow> t \<noteq> \<langle>\<rangle> \<Longrightarrow>
    \<exists>st' b r R'. minmax_splay_loop val st = Some st' \<and> splaying m0 st' \<langle>\<langle>\<rangle>, b, r\<rangle> L R' \<and>
      b # inorder r @ nodes_r R' = inorder t @ nodes_r R"
proof (induction "size t" arbitrary: st t R rule: less_induct)
  case less
  have loop: "minmax_splay_loop val st = do { (break, st) \<leftarrow> splay_left (\<lambda>_. val < 0) st; if break then Some st else minmax_splay_loop val st }"
    using assms by (subst minmax_splay_loop.simps) simp
  from splay_left_round [OF less.prems, of "\<lambda>_. val < 0"]
  consider (stop) st' b r' where "splay_left (\<lambda>_. val < 0) st = Some (True, st')" "splaying m0 st' \<langle>\<langle>\<rangle>, b, r'\<rangle> L R" "b # inorder r' = inorder t"
    | (go) st' t' b r' where "splay_left (\<lambda>_. val < 0) st = Some (False, st')" "splaying m0 st' t' L ((b, r') # R)" "t' \<noteq> \<langle>\<rangle>"
      "size t' < size t" "inorder t' @ b # inorder r' = inorder t"
    unfolding left_round_def by blast
  then show ?case
  proof cases
    case stop
    then show ?thesis using loop by (intro exI [of _ st'] exI [of _ b] exI [of _ r'] exI [of _ R]) (simp flip: stop(3))
  next
    case go
    have e: "inorder t' @ nodes_r ((b, r') # R) = inorder t @ nodes_r R" by (simp flip: go(5))
    show ?thesis using less.hyps [OF go(4,2,3), unfolded e] unfolding loop go(1) by simp
  qed
qed

lemma minmax_splay_loop_max:
  assumes "val > 0"
  shows "splaying m0 st t L R \<Longrightarrow> t \<noteq> \<langle>\<rangle> \<Longrightarrow>
    \<exists>st' b l L'. minmax_splay_loop val st = Some st' \<and> splaying m0 st' \<langle>l, b, \<langle>\<rangle>\<rangle> L' R \<and>
      nodes_l L' @ inorder l @ [b] = nodes_l L @ inorder t"
proof (induction "size t" arbitrary: st t L rule: less_induct)
  case less
  have loop: "minmax_splay_loop val st = do { (break, st) \<leftarrow> splay_right (\<lambda>_. val > 0) st; if break then Some st else minmax_splay_loop val st }"
    using assms by (subst minmax_splay_loop.simps) simp
  from splay_right_round [OF less.prems, of "\<lambda>_. val > 0"]
  consider (stop) st' b l' where "splay_right (\<lambda>_. val > 0) st = Some (True, st')" "splaying m0 st' \<langle>l', b, \<langle>\<rangle>\<rangle> L R" "inorder l' @ [b] = inorder t"
    | (go) st' t' b l' where "splay_right (\<lambda>_. val > 0) st = Some (False, st')" "splaying m0 st' t' ((b, l') # L) R" "t' \<noteq> \<langle>\<rangle>"
      "size t' < size t" "inorder l' @ b # inorder t' = inorder t"
    unfolding right_round_def by blast
  then show ?case
  proof cases
    case stop
    then show ?thesis using loop by (intro exI [of _ st'] exI [of _ b] exI [of _ l'] exI [of _ L]) simp
  next
    case go
    have e: "nodes_l ((b, l') # L) @ inorder t' = nodes_l L @ inorder t" by (simp flip: go(5))
    show ?thesis using less.hyps [OF go(4,2,3), unfolded e] unfolding loop go(1) by simp
  qed
qed

text \<open>With a zero the loop would never end; the operations pass \<open>SPLAY_NEGINF\<close> and \<open>SPLAY_INF\<close>.\<close>

lemma minmax_splay_loop_zero:
  assumes "minmax_splay_loop val st = Some st'"
  shows "val \<noteq> 0"
proof (rule minmax_splay_loop.raw_induct [OF _ assms])
  fix minmax and val :: int and st y
  assume "\<And>val st y. minmax val st = Some y \<Longrightarrow> val \<noteq> 0"
    and "do { (break, st) \<leftarrow> (if val < 0 then splay_left (\<lambda>_. val < 0) st
           else if 0 < val then splay_right (\<lambda>_. 0 < val) st else Some (False, st));
         if break then Some st else minmax val st } = Some y"
  then show "val \<noteq> 0" by (cases "val = 0") auto
qed

lemma SPLAY_MIN_ok:
  assumes "splay_set key m xs"
  shows "\<exists>m'. SPLAY_MIN m = Some (first_of_list xs, m') \<and> splay_set key m' xs"
proof (cases "xs = []")
  case True
  then show ?thesis using assms splay_set_empty [OF assms] by (simp add: SPLAY_MIN_def)
next
  case False
  obtain t where t: "splay_tree m t" "inorder t = xs" "in_order key xs" "t \<noteq> \<langle>\<rangle>"
    using assms False by (auto simp: splay_set_def)
  obtain st b r R where 1: "minmax_splay_loop SPLAY_NEGINF (splay_start m) = Some st" "splaying m st \<langle>\<langle>\<rangle>, b, r\<rangle> [] R"
    "b # inorder r @ nodes_r R = xs"
    using minmax_splay_loop_min [of SPLAY_NEGINF m "splay_start m" t "[]" "[]"] t by (auto simp: splaying_start SPLAY_NEGINF_def)
  obtain m' where m': "SPLAY_ASSEMBLE st = Some m'" "splay_tree m' \<langle>\<langle>\<rangle>, b, hang_r r R\<rangle>"
    using assemble [OF 1(2)] by auto
  have "splay_set key m' xs" by (rule splay_setI [OF m'(2) _ t(3)]) (simp add: inorder_hang 1(3))
  moreover have "first_of_list xs = Some b" by (simp flip: 1(3))
  moreover have "SPLAY_ROOT m' = Some b" using m'(2) by (simp add: splay_tree_def SPLAY_ROOT_def)
  ultimately show ?thesis
    using 1(1) m'(1) splay_set_empty [OF assms] False by (simp add: SPLAY_MIN_def SPLAY_MIN_MAX_def SPLAY_MINMAX_def)
qed

lemma SPLAY_MAX_ok:
  assumes "splay_set key m xs"
  shows "\<exists>m'. SPLAY_MAX m = Some (last_of_list xs, m') \<and> splay_set key m' xs"
proof (cases "xs = []")
  case True
  then show ?thesis using assms splay_set_empty [OF assms] by (simp add: SPLAY_MAX_def last_of_list_def)
next
  case False
  obtain t where t: "splay_tree m t" "inorder t = xs" "in_order key xs" "t \<noteq> \<langle>\<rangle>"
    using assms False by (auto simp: splay_set_def)
  obtain st b l L where 1: "minmax_splay_loop SPLAY_INF (splay_start m) = Some st" "splaying m st \<langle>l, b, \<langle>\<rangle>\<rangle> L []"
    "nodes_l L @ inorder l @ [b] = xs"
    using minmax_splay_loop_max [of SPLAY_INF m "splay_start m" t "[]" "[]"] t by (auto simp: splaying_start SPLAY_INF_def)
  obtain m' where m': "SPLAY_ASSEMBLE st = Some m'" "splay_tree m' \<langle>hang_l l L, b, \<langle>\<rangle>\<rangle>"
    using assemble [OF 1(2)] by auto
  have "splay_set key m' xs" by (rule splay_setI [OF m'(2) _ t(3)]) (simp add: inorder_hang 1(3))
  moreover have "last_of_list xs = Some b" by (simp add: last_of_list_def flip: 1(3))
  moreover have "SPLAY_ROOT m' = Some b" using m'(2) by (simp add: splay_tree_def SPLAY_ROOT_def)
  ultimately show ?thesis
    using 1(1) m'(1) splay_set_empty [OF assms] False by (simp add: SPLAY_MAX_def SPLAY_MIN_MAX_def SPLAY_MINMAX_def)
qed

subsection \<open>The next node\<close>

lemma splay_leftmost_first: "sp_at m t \<Longrightarrow> sroot t = Some a \<Longrightarrow> splay_leftmost m a = first_of_list (inorder t)"
proof (induction t arbitrary: a)
  case (Node l b r)
  then show ?case by (cases l; subst splay_leftmost.simps) (auto simp: SPLAY_LEFT_def first_of_append)
qed simp

lemma SPLAY_NEXT_ok:
  assumes "cmp_by key cmp" "splay_set key m (ys @ e # zs)"
  shows "\<exists>m'. SPLAY_NEXT cmp e m = Some (first_of_list zs, m') \<and> splay_set key m' (ys @ e # zs)"
proof -
  obtain m' l a r where s: "SPLAY cmp e m = Some m'" "splay_tree m' \<langle>l, a, r\<rangle>" "inorder l @ a # inorder r = ys @ e # zs"
    "beside key e (inorder l) (inorder r)" "splay_set key m' (ys @ e # zs)" using SPLAY_set [OF assms] by blast
  have a: "e = a" by (rule root_only [OF s(4)]) (use s(3) in auto)
  have "distinct (inorder l @ a # inorder r)" using s(2) by (simp add: splay_tree_def)
  then have "a \<notin> set (inorder l)" "a \<notin> set (inorder r)" by auto
  then have "inorder r = zs" using s(3) a by (metis append_Cons_eq_iff)
  moreover have "SPLAY_RIGHT m' e = sroot r" "sp_at m' r" using s(2) a by (simp_all add: splay_tree_def SPLAY_RIGHT_def)
  ultimately show ?thesis
    using s(1,5) splay_leftmost_first [of m' r] first_some(1) [of zs] by (cases r) (auto simp: SPLAY_NEXT_def)
qed

subsection \<open>The contract, and loops\<close>

interpretation sp: ordered_nodes splay_set SPLAY_INSERT SPLAY_REMOVE SPLAY_FIND SPLAY_MIN SPLAY_NEXT
proof unfold_locales
  show "splay_set key m xs \<Longrightarrow> in_order key xs" for key :: "nat \<Rightarrow> 'k::linorder" and m xs by (simp add: splay_set_def)
qed (rule SPLAY_INSERT_new SPLAY_INSERT_old SPLAY_REMOVE_ok SPLAY_FIND_ok SPLAY_MIN_ok SPLAY_NEXT_ok; assumption)+

lemma splay_walk_ok:
  assumes "cmp_by key cmp"
  shows "splay_set key m (ys @ zs) \<Longrightarrow>
    \<exists>m'. splay_set key m' (ys @ zs) \<and> splay_walk cmp (reading f) (first_of_list zs) (m, s) = keeping m' (visit f zs s)"
proof (induction zs arbitrary: ys m s)
  case Nil
  then show ?case by (intro exI [of _ m]) (subst splay_walk.simps, simp)
next
  case (Cons z zs)
  obtain m1 where m1: "SPLAY_NEXT cmp z m = Some (first_of_list zs, m1)" "splay_set key m1 ((ys @ [z]) @ zs)"
    using SPLAY_NEXT_ok [OF assms Cons.prems] by auto
  show ?case
  proof (cases "\<exists>u. f z s = Some (Inr u)")
    case True
    then obtain u where u: "f z s = Some (Inr u)" by blast
    have "splay_walk cmp (reading f) (first_of_list (z # zs)) (m, s) = splay_walk cmp (reading f) (first_of_list zs) (m1, u)"
      using u m1(1) by (subst splay_walk.simps) (simp add: reading_def)
    then show ?thesis using Cons.IH [OF m1(2), of u] u by simp
  next
    case False
    then consider "f z s = None" | r where "f z s = Some (Inl r)" by (metis option.exhaust sum.exhaust)
    then show ?thesis using Cons.prems by cases (intro exI [of _ m]; subst splay_walk.simps; simp add: reading_def)+
  qed
qed

lemma SPLAY_FOREACH_ok:
  assumes "cmp_by key cmp" "splay_set key m xs"
  shows "\<exists>m'. splay_set key m' xs \<and> SPLAY_FOREACH cmp (reading f) (m, s) = keeping m' (visit f xs s)"
proof -
  obtain m1 where "SPLAY_MIN m = Some (first_of_list xs, m1)" "splay_set key m1 ([] @ xs)"
    using SPLAY_MIN_ok [OF assms(2)] by auto
  then show ?thesis using splay_walk_ok [OF assms(1), of m1 "[]" xs f s] by (simp add: SPLAY_FOREACH_def)
qed

end
