(* ===== verification/Tree_Agree.thy ===== *)
theory Tree_Agree
  imports Tree_Rb_Contract Tree_Splay_Walk
begin

section \<open>Programs on trees\<close>

text \<open>
  What the contract gives for both kinds of trees: programs run, with the results of the list; a red-black tree is
  balanced whatever was inserted and removed, and the two kinds of trees give the same answers.
\<close>

definition rb_calls :: "(nat \<Rightarrow> nat \<Rightarrow> int) \<Rightarrow> tree_call list \<Rightarrow> rb_head \<Rightarrow> (nat option list \<times> rb_head) option" where
  "rb_calls cmp cs m = run_calls (tree_call_on (RB_INSERT cmp) (rb_remove cmp) (rb_find cmp) rb_first (rb_next cmp)) cs (RB_INIT m)"

definition splay_calls :: "(nat \<Rightarrow> nat \<Rightarrow> int) \<Rightarrow> tree_call list \<Rightarrow> splay_head \<Rightarrow> (nat option list \<times> splay_head) option" where
  "splay_calls cmp cs m =
     run_calls (tree_call_on (SPLAY_INSERT cmp) (SPLAY_REMOVE cmp) (SPLAY_FIND cmp) SPLAY_MIN (SPLAY_NEXT cmp)) cs (SPLAY_INIT m)"

lemma rb_set_init: "rb_set key (RB_INIT m) []"
  by (auto simp: rb_set_def rb_tree_def RB_INIT_def rb_ok_def intro!: exI [of _ "\<langle>\<rangle>"])

lemma splay_set_init: "splay_set key (SPLAY_INIT m) []"
  by (rule splay_setI [of _ "\<langle>\<rangle>"]) (simp_all add: splay_tree_def SPLAY_INIT_def)

text \<open>C13. The red-black trees of tree.h do what sorted lists do, and stay balanced: a program that inserts nodes (of whatever
  keys, also ones that are there already), removes nodes that are in the tree, looks up keys and asks for the first and the
  next node, runs on the linked nodes to its end and gets the results of the list that is ordered by the keys; afterwards
  the nodes in the tree are those of the list, in its order, linked to their parents, and the tree is at most
  2 lg (n + 1) high, as the header of the file promises.\<close>

theorem rb_programs:
  assumes "cmp_by key cmp" "run_calls (list_call key) cs [] = Some (rs, xs)"
  shows "\<exists>m' t. rb_calls cmp cs m = Some (rs, m') \<and> rb_tree m' t \<and> addrs t = xs \<and> 2 ^ height t \<le> (length xs + 1)\<^sup>2"
proof -
  obtain m' where "rb_calls cmp cs m = Some (rs, m')" "rb_set key m' xs"
    using rbt.calls_list [OF assms(1) rb_set_init assms(2)] by (auto simp: rb_calls_def)
  moreover from this(2) obtain t where "rb_tree m' t" "rb_ok t" "addrs t = xs" by (auto simp: rb_set_def)
  moreover from this(2,3) have "2 ^ height t \<le> (length xs + 1)\<^sup>2" using rb_height [of t] by simp
  ultimately show ?thesis by blast
qed

text \<open>C14. The two kinds of trees are interchangeable: a program of insertions, removals of nodes that are in the tree, lookups
  and walks gets the same results from a splay tree and from a red-black tree, and leaves the same nodes in the same order
  in both.\<close>

theorem trees_agree:
  assumes "cmp_by key cmp" "run_calls (list_call key) cs [] = Some (rs, xs)"
  shows "\<exists>m1 m2 t1 t2. rb_calls cmp cs m = Some (rs, m1) \<and> splay_calls cmp cs n = Some (rs, m2) \<and>
    rb_tree m1 t1 \<and> splay_tree m2 t2 \<and> addrs t1 = inorder t2"
proof -
  obtain m1 where "rb_calls cmp cs m = Some (rs, m1)" "rb_set key m1 xs"
    using rbt.calls_list [OF assms(1) rb_set_init assms(2)] by (auto simp: rb_calls_def)
  moreover obtain m2 where "splay_calls cmp cs n = Some (rs, m2)" "splay_set key m2 xs"
    using sp.calls_list [OF assms(1) splay_set_init assms(2)] by (auto simp: splay_calls_def)
  ultimately show ?thesis by (auto simp: rb_set_def splay_set_def)
qed

text \<open>Some nodes, whose keys repeat after seven.\<close>

definition some_calls :: "tree_call list" where
  "some_calls = [Insert 3, Insert 8, Insert 10, Insert 5, Next 8, Find 12, Remove 3, Insert 4, First, Remove 8]"

definition cmp7 :: "nat \<Rightarrow> nat \<Rightarrow> int" where
  "cmp7 x y = int (x mod 7) - int (y mod 7)"

definition some_rb :: rb_head where
  "some_rb = \<lparr>rbh_root = Some 1, rb_nodes = \<lambda>_. \<lparr>rbe_left = None, rbe_right = None, rbe_parent = Some 2, rbe_color = RB_RED\<rparr>\<rparr>"

definition some_splay :: splay_head where
  "some_splay = \<lparr>sph_root = Some 1, sp_nodes = \<lambda>_. \<lparr>spe_left = None, spe_right = Some 2\<rparr>\<rparr>"

lemma some_calls_run:
  "cmp_by (\<lambda>x. x mod 7) cmp7"
  "run_calls (list_call (\<lambda>x. x mod 7)) some_calls [] =
    Some ([None, None, Some 3, None, Some 3, Some 5, Some 3, None, Some 8, Some 8], [4, 5])"
  by (auto simp: cmp_by_def cmp7_def some_calls_def with_key_def)

theorem rb_programs_witness:
  "\<exists>m' t. rb_calls cmp7 some_calls some_rb = Some ([None, None, Some 3, None, Some 3, Some 5, Some 3, None, Some 8, Some 8], m') \<and>
    rb_tree m' t \<and> addrs t = [4, 5] \<and> 2 ^ height t \<le> (length [4::nat, 5] + 1)\<^sup>2"
  by (rule rb_programs [OF some_calls_run])

theorem trees_agree_witness:
  "\<exists>m1 m2 t1 t2. rb_calls cmp7 some_calls some_rb = Some ([None, None, Some 3, None, Some 3, Some 5, Some 3, None, Some 8, Some 8], m1) \<and>
    splay_calls cmp7 some_calls some_splay = Some ([None, None, Some 3, None, Some 3, Some 5, Some 3, None, Some 8, Some 8], m2) \<and>
    rb_tree m1 t1 \<and> splay_tree m2 t2 \<and> addrs t1 = inorder t2"
  by (rule trees_agree [OF some_calls_run])

end
